(* ===== verification/Prelude.thy ===== *)
theory Prelude
  imports Main "HOL-Library.Word" "HOL-Library.AList"
begin

text \<open>
  The vocabulary the component theories share.
  \<^item> JavaScript strings: sequences of 16-bit code units, with the operations of
    \<open>String.prototype\<close> and \<open>Buffer\<close> the sources call (split, join, indexing, UTF-8 length).
  \<^item> A JavaScript \<open>Map\<close> as an association list in insertion order.
  \<^item> A state monad with exceptions, the shape of every repository method that runs inside a
    database transaction: a method returns or throws, and the state it leaves is visible either way.
  \<^item> Tables as lists of rows, the statements the repositories issue on them, and the sums of
    row weights with which the counters are verified.
\<close>

named_theorems monad_simps \<open>success of a monadic program, taken apart step by step\<close>
named_theorems table_simps \<open>what a statement does to a table's lookups and weights\<close>

section \<open>JavaScript strings\<close>

type_synonym jchar = "16 word"
type_synonym jstring = "16 word list"

definition js :: "string \<Rightarrow> jstring" where
  "js s = map of_char s"

definition slash :: jchar where "slash = 47"

text \<open>\<open>text.split(c)\<close> for a one-unit separator: always at least one piece.\<close>

fun js_split :: "jchar \<Rightarrow> jstring \<Rightarrow> jstring list" where
  "js_split c [] = [[]]"
| "js_split c (x # xs) =
     (if x = c then [] # js_split c xs
      else (case js_split c xs of [] \<Rightarrow> [[x]] | p # ps \<Rightarrow> (x # p) # ps))"

text \<open>\<open>pieces.join(c)\<close>.\<close>

fun js_join :: "jchar \<Rightarrow> jstring list \<Rightarrow> jstring" where
  "js_join c [] = []"
| "js_join c [p] = p"
| "js_join c (p # q # ps) = p @ c # js_join c (q # ps)"

definition js_starts_with :: "jstring \<Rightarrow> jstring \<Rightarrow> bool" where
  "js_starts_with p s \<longleftrightarrow> take (length p) s = p"

definition js_ends_with :: "jstring \<Rightarrow> jstring \<Rightarrow> bool" where
  "js_ends_with p s \<longleftrightarrow> length p \<le> length s \<and> drop (length s - length p) s = p"

text \<open>The order of \<open><\<close> on strings: lexicographic in the code units.\<close>

fun js_less :: "jstring \<Rightarrow> jstring \<Rightarrow> bool" where
  "js_less xs [] = False"
| "js_less [] (y # ys) = True"
| "js_less (x # xs) (y # ys) = (x < y \<or> x = y \<and> js_less xs ys)"

definition js_cmp :: "jstring \<Rightarrow> jstring \<Rightarrow> int" where
  "js_cmp a b = (if js_less a b then -1 else if js_less b a then 1 else 0)"

text \<open>Code points of a UTF-16 sequence; a lone surrogate stands for itself.\<close>

definition hi_surrogate :: "jchar \<Rightarrow> bool" where
  "hi_surrogate c \<longleftrightarrow> 0xD800 \<le> c \<and> c \<le> 0xDBFF"

definition lo_surrogate :: "jchar \<Rightarrow> bool" where
  "lo_surrogate c \<longleftrightarrow> 0xDC00 \<le> c \<and> c \<le> 0xDFFF"

fun code_points :: "jstring \<Rightarrow> nat list" where
  "code_points [] = []"
| "code_points [c] = [unat c]"
| "code_points (c # d # cs) =
     (if hi_surrogate c \<and> lo_surrogate d
      then (0x10000 + (unat c - 0xD800) * 0x400 + (unat d - 0xDC00)) # code_points cs
      else unat c # code_points (d # cs))"

text \<open>\<open>Buffer.byteLength(s, 'utf8')\<close>; a lone surrogate is written as U+FFFD, three bytes.\<close>

definition utf8_size :: "nat \<Rightarrow> nat" where
  "utf8_size p = (if p < 0x80 then 1 else if p < 0x800 then 2 else if p < 0x10000 then 3 else 4)"

definition byteLength :: "jstring \<Rightarrow> nat" where
  "byteLength s = sum_list (map utf8_size (code_points s))"

subsection \<open>Facts on split and join\<close>

lemma js_split_ne [simp]: "js_split c s \<noteq> []"
  by (cases s) (auto split: list.splits)

lemma js_join_Cons: "js_join c (p # ps) = (if ps = [] then p else p @ c # js_join c ps)"
  by (cases ps) auto

lemma js_join_split [simp]: "js_join c (js_split c s) = s"
proof (induction s)
  case (Cons x xs)
  then show ?case
    by (cases "js_split c xs") (auto simp: js_join_Cons split: if_splits)
qed simp

lemma js_split_notin: "p \<in> set (js_split c s) \<Longrightarrow> c \<notin> set p"
proof (induction s arbitrary: p)
  case (Cons x xs)
  obtain q qs where q: "js_split c xs = q # qs"
    by (cases "js_split c xs") auto
  show ?case
  proof (cases "x = c")
    case True
    with Cons show ?thesis by auto
  next
    case False
    from Cons.prems False q have "p = x # q \<or> p \<in> set qs" by auto
    then show ?thesis
    proof
      assume "p = x # q"
      moreover have "c \<notin> set q" by (rule Cons.IH) (simp add: q)
      ultimately show ?thesis using False by simp
    next
      assume "p \<in> set qs"
      then show ?thesis by (intro Cons.IH) (simp add: q)
    qed
  qed
qed simp

lemma js_split_prefix:
  "c \<notin> set p \<Longrightarrow> js_split c (p @ c # s) = p # js_split c s"
  by (induction p) auto

lemma js_split_atom: "c \<notin> set p \<Longrightarrow> js_split c p = [p]"
  by (induction p) auto

lemma js_split_join:
  "ps \<noteq> [] \<Longrightarrow> \<forall>p\<in>set ps. c \<notin> set p \<Longrightarrow> js_split c (js_join c ps) = ps"
  by (induction c ps rule: js_join.induct) (auto simp: js_split_prefix js_split_atom)

subsection \<open>The order on strings\<close>

lemma js_less_irrefl [simp]: "\<not> js_less x x"
  by (induction x) auto

lemma js_less_trans: "js_less x y \<Longrightarrow> js_less y z \<Longrightarrow> js_less x z"
proof (induction x y arbitrary: z rule: js_less.induct)
  case (2 y ys)
  then show ?case by (cases z) auto
next
  case (3 x xs y ys)
  then show ?case by (cases z) auto
qed auto

lemma js_less_linear: "js_less x y \<or> x = y \<or> js_less y x"
proof (induction x y rule: js_less.induct)
  case (1 xs)
  then show ?case by (cases xs) auto
qed auto

lemma js_less_asym: "js_less x y \<Longrightarrow> \<not> js_less y x"
  using js_less_trans js_less_irrefl by blast

text \<open>A \<open>Set\<close> built from a list keeps the first occurrence of each element.\<close>

definition js_set :: "'a list \<Rightarrow> 'a list" where
  "js_set xs = rev (remdups (rev xs))"

lemma set_js_set [simp]: "set (js_set xs) = set xs"
  by (simp add: js_set_def)

lemma distinct_js_set [simp]: "distinct (js_set xs)"
  by (simp add: js_set_def)

section \<open>Sorting with a comparator\<close>

text \<open>\<open>Array.prototype.sort(cmp)\<close>: stable, by insertion.\<close>

fun insertBy :: "('a \<Rightarrow> 'a \<Rightarrow> int) \<Rightarrow> 'a \<Rightarrow> 'a list \<Rightarrow> 'a list" where
  "insertBy cmp x [] = [x]"
| "insertBy cmp x (y # ys) = (if cmp x y \<le> 0 then x # y # ys else y # insertBy cmp x ys)"

definition sortBy :: "('a \<Rightarrow> 'a \<Rightarrow> int) \<Rightarrow> 'a list \<Rightarrow> 'a list" where
  "sortBy cmp xs = foldr (insertBy cmp) xs []"

lemma set_insertBy [simp]: "set (insertBy cmp x ys) = insert x (set ys)"
  by (induction ys) auto

lemma set_sortBy [simp]: "set (sortBy cmp xs) = set xs"
  by (induction xs) (auto simp: sortBy_def)

lemma length_insertBy [simp]: "length (insertBy cmp x ys) = Suc (length ys)"
  by (induction ys) auto

lemma length_sortBy [simp]: "length (sortBy cmp xs) = length xs"
  by (induction xs) (auto simp: sortBy_def)

section \<open>Programs that throw\<close>

type_synonym ('s, 'e, 'a) prog = "'s \<Rightarrow> ('e + 'a) \<times> 's"

definition ret :: "'a \<Rightarrow> ('s, 'e, 'a) prog" where
  "ret x s = (Inr x, s)"

definition throw :: "'e \<Rightarrow> ('s, 'e, 'a) prog" where
  "throw e s = (Inl e, s)"

definition bind :: "('s, 'e, 'a) prog \<Rightarrow> ('a \<Rightarrow> ('s, 'e, 'b) prog) \<Rightarrow> ('s, 'e, 'b) prog" where
  "bind m f s = (case m s of (Inl e, t) \<Rightarrow> (Inl e, t) | (Inr x, t) \<Rightarrow> f x t)"

definition andThen :: "('s, 'e, 'a) prog \<Rightarrow> ('s, 'e, 'b) prog \<Rightarrow> ('s, 'e, 'b) prog" where
  "andThen m n = bind m (\<lambda>_. n)"

definition gets :: "('s \<Rightarrow> 'a) \<Rightarrow> ('s, 'e, 'a) prog" where
  "gets f s = (Inr (f s), s)"

definition modify :: "('s \<Rightarrow> 's) \<Rightarrow> ('s, 'e, unit) prog" where
  "modify f s = (Inr (), f s)"

definition throwIf :: "bool \<Rightarrow> 'e \<Rightarrow> ('s, 'e, unit) prog" where
  "throwIf b e = (if b then throw e else ret ())"

definition liftR :: "'e + 'a \<Rightarrow> ('s, 'e, 'a) prog" where
  "liftR r s = (r, s)"

fun forEach :: "'a list \<Rightarrow> ('a \<Rightarrow> ('s, 'e, unit) prog) \<Rightarrow> ('s, 'e, unit) prog" where
  "forEach [] f = ret ()"
| "forEach (x # xs) f = andThen (f x) (forEach xs f)"

fun foldProg :: "('b \<Rightarrow> 'a \<Rightarrow> ('s, 'e, 'b) prog) \<Rightarrow> 'b \<Rightarrow> 'a list \<Rightarrow> ('s, 'e, 'b) prog" where
  "foldProg f b [] = ret b"
| "foldProg f b (x # xs) = bind (f b x) (\<lambda>b'. foldProg f b' xs)"

text \<open>\<open>dataSource.transaction\<close>: an exception undoes every statement.\<close>

definition transaction :: "('s, 'e, 'a) prog \<Rightarrow> ('s, 'e, 'a) prog" where
  "transaction p u = (case p u of (Inl e, v) \<Rightarrow> (Inl e, u) | (Inr x, v) \<Rightarrow> (Inr x, v))"

lemma ret_iff [monad_simps]: "ret x s = (Inr y, t) \<longleftrightarrow> y = x \<and> t = s"
  by (auto simp: ret_def)

lemma throw_iff [monad_simps]: "throw e s = (Inr y, t) \<longleftrightarrow> False"
  by (auto simp: throw_def)

lemma bind_iff [monad_simps]:
  "bind m f s = (Inr y, t) \<longleftrightarrow> (\<exists>x u. m s = (Inr x, u) \<and> f x u = (Inr y, t))"
  by (auto simp: bind_def split: prod.splits sum.splits)

lemma andThen_iff [monad_simps]:
  "andThen m n s = (Inr y, t) \<longleftrightarrow> (\<exists>x u. m s = (Inr x, u) \<and> n u = (Inr y, t))"
  by (auto simp: andThen_def bind_iff)

lemma gets_iff [monad_simps]: "gets f s = (Inr y, t) \<longleftrightarrow> y = f s \<and> t = s"
  by (auto simp: gets_def)

lemma modify_iff [monad_simps]: "modify f s = (Inr y, t) \<longleftrightarrow> t = f s"
  by (auto simp: modify_def)

lemma throwIf_iff [monad_simps]: "throwIf b e s = (Inr y, t) \<longleftrightarrow> \<not> b \<and> t = s"
  by (auto simp: throwIf_def throw_def ret_def)

lemma liftR_iff [monad_simps]: "liftR r s = (Inr y, t) \<longleftrightarrow> r = Inr y \<and> t = s"
  by (auto simp: liftR_def)

lemma if_prog_iff [monad_simps]:
  "(if b then m else n) s = (Inr y, t) \<longleftrightarrow> (b \<and> m s = (Inr y, t) \<or> \<not> b \<and> n s = (Inr y, t))"
  by auto

lemma transaction_ok: "transaction p u = (Inr x, v) \<longleftrightarrow> p u = (Inr x, v)"
  by (auto simp: transaction_def split: prod.splits sum.splits)

lemma transaction_fail: "transaction p u = (Inl e, v) \<Longrightarrow> v = u"
  by (auto simp: transaction_def split: prod.splits sum.splits)

text \<open>The same inversions as elimination rules, for programs too large to rewrite.\<close>

named_theorems monad_elims \<open>success of a monadic program, as elimination rules\<close>

lemma bindE [monad_elims]:
  assumes "bind m f s = (Inr y, t)"
  obtains x u where "m s = (Inr x, u)" "f x u = (Inr y, t)"
  using assms by (auto simp: bind_iff)

lemma andThenE [monad_elims]:
  assumes "andThen m n s = (Inr y, t)"
  obtains x u where "m s = (Inr x, u)" "n u = (Inr y, t)"
  using assms by (auto simp: andThen_iff)

lemma getsE [monad_elims]:
  assumes "gets f s = (Inr y, t)"
  obtains "y = f s" "t = s"
  using assms by (auto simp: gets_iff)

lemma throwIfE [monad_elims]:
  assumes "throwIf b e s = (Inr y, t)"
  obtains "\<not> b" "t = s"
  using assms by (auto simp: throwIf_iff)

lemma retE [monad_elims]:
  assumes "ret x s = (Inr y, t)"
  obtains "y = x" "t = s"
  using assms by (auto simp: ret_iff)

lemma throwE [monad_elims]: "throw e s = (Inr y, t) \<Longrightarrow> R"
  by (simp add: throw_iff)

lemma liftRE [monad_elims]:
  assumes "liftR r s = (Inr y, t)"
  obtains "r = Inr y" "t = s"
  using assms by (auto simp: liftR_iff)

text \<open>An invariant every step of a loop keeps is kept by the loop.\<close>

lemma forEach_invariant:
  assumes step: "\<And>x s t u. x \<in> set xs \<Longrightarrow> f x s = (Inr u, t) \<Longrightarrow> P s \<Longrightarrow> P t"
    and run: "forEach xs f s = (Inr y, t)" and init: "P s"
  shows "P t"
  using step run init
proof (induction xs arbitrary: s)
  case Nil
  then show ?case by (simp add: monad_simps)
next
  case (Cons x xs)
  from Cons.prems(2) obtain v u where v: "f x s = (Inr v, u)" and rest: "forEach xs f u = (Inr y, t)"
    by (auto simp: monad_simps)
  from Cons.prems(1) [OF _ v Cons.prems(3)] have u: "P u" by simp
  have "P t'" if "z \<in> set xs" "f z s' = (Inr w, t')" "P s'" for z s' t' w
    using Cons.prems(1) [of z] that by simp
  from Cons.IH [OF this rest u] show ?case .
qed

section \<open>Tables and the weights of their rows\<close>

text \<open>
  \<open>SELECT ... LIMIT 1\<close>, \<open>INSERT\<close>, \<open>UPDATE ... WHERE\<close> and \<open>DELETE ... WHERE\<close>
  on a table kept as the list of its rows.
\<close>

definition findRow :: "('r \<Rightarrow> bool) \<Rightarrow> 'r list \<Rightarrow> 'r option" where
  "findRow P rows = List.find P rows"

definition insertRow :: "'r \<Rightarrow> 'r list \<Rightarrow> 'r list" where
  "insertRow r rows = rows @ [r]"

definition updateRows :: "('r \<Rightarrow> bool) \<Rightarrow> ('r \<Rightarrow> 'r) \<Rightarrow> 'r list \<Rightarrow> 'r list" where
  "updateRows P f rows = map (\<lambda>r. if P r then f r else r) rows"

definition deleteRows :: "('r \<Rightarrow> bool) \<Rightarrow> 'r list \<Rightarrow> 'r list" where
  "deleteRows P rows = filter (\<lambda>r. \<not> P r) rows"

definition weigh :: "('r \<Rightarrow> int) \<Rightarrow> 'r list \<Rightarrow> int" where
  "weigh w rows = sum_list (map w rows)"

lemma findRow_SomeD: "findRow P rows = Some r \<Longrightarrow> r \<in> set rows \<and> P r"
  by (auto simp: findRow_def find_Some_iff)

lemma findRow_NoneD: "findRow P rows = None \<Longrightarrow> r \<in> set rows \<Longrightarrow> \<not> P r"
  by (auto simp: findRow_def find_None_iff)

lemma findRow_None_iff: "findRow P rows = None \<longleftrightarrow> (\<forall>r\<in>set rows. \<not> P r)"
  by (auto simp: findRow_def find_None_iff)

lemma findRow_append: "findRow P (xs @ ys) = (case findRow P xs of None \<Rightarrow> findRow P ys | Some r \<Rightarrow> Some r)"
  by (induction xs) (auto simp: findRow_def)

text \<open>When the condition pins down one row, the lookup returns it.\<close>

lemma findRow_unique:
  assumes "r \<in> set rows" and "P r" and "\<And>q. q \<in> set rows \<Longrightarrow> P q \<Longrightarrow> q = r"
  shows "findRow P rows = Some r"
proof (cases "findRow P rows")
  case None
  with assms(1,2) show ?thesis using findRow_NoneD by fastforce
next
  case (Some q)
  then have "q \<in> set rows" "P q" using findRow_SomeD by fastforce+
  with Some assms(3) show ?thesis by simp
qed

lemma weigh_Nil [simp]: "weigh w [] = 0"
  by (simp add: weigh_def)

lemma weigh_Cons [simp]: "weigh w (r # rows) = w r + weigh w rows"
  by (simp add: weigh_def)

lemma weigh_append [simp]: "weigh w (xs @ ys) = weigh w xs + weigh w ys"
  by (simp add: weigh_def)

lemma weigh_insertRow [table_simps]: "weigh w (insertRow r rows) = weigh w rows + w r"
  by (simp add: insertRow_def)

lemma weigh_deleteRows [table_simps]:
  "weigh w (deleteRows P rows) = weigh w rows - weigh w (filter P rows)"
  by (induction rows) (auto simp: deleteRows_def)

lemma weigh_cong: "(\<And>r. r \<in> set rows \<Longrightarrow> w r = v r) \<Longrightarrow> weigh w rows = weigh v rows"
  by (induction rows) auto

lemma weigh_zero: "(\<And>r. r \<in> set rows \<Longrightarrow> w r = 0) \<Longrightarrow> weigh w rows = 0"
  by (induction rows) auto

lemma weigh_nonneg: "(\<And>r. r \<in> set rows \<Longrightarrow> 0 \<le> w r) \<Longrightarrow> 0 \<le> weigh w rows"
  by (induction rows) auto

lemma weigh_update_same:
  "(\<And>r. r \<in> set rows \<Longrightarrow> P r \<Longrightarrow> w (f r) = w r) \<Longrightarrow> weigh w (updateRows P f rows) = weigh w rows"
  by (induction rows) (auto simp: updateRows_def)

lemma weigh_insertBy: "weigh w (insertBy cmp x ys) = w x + weigh w ys"
  by (induction ys) auto

lemma weigh_sortBy: "weigh w (sortBy cmp xs) = weigh w xs"
  by (induction xs) (auto simp: sortBy_def weigh_insertBy)

lemma set_insertRow [simp]: "set (insertRow r rows) = insert r (set rows)"
  by (auto simp: insertRow_def)

lemma set_deleteRows [simp]: "set (deleteRows P rows) = {r \<in> set rows. \<not> P r}"
  by (auto simp: deleteRows_def)

lemma set_updateRows: "set (updateRows P f rows) = (\<lambda>r. if P r then f r else r) ` set rows"
  by (auto simp: updateRows_def)

text \<open>
  A table with a primary key. The laws of the statements that address a row by its key are
  proved here once, for any key column; every table of the database interprets the locale.
\<close>

locale keyed_table =
  fixes key :: "'r \<Rightarrow> 'k"
begin

lemma update_by_key_weigh:
  assumes "distinct (map key rows)" and "r \<in> set rows"
  shows "weigh w (updateRows (\<lambda>q. key q = key r) f rows) = weigh w rows - w r + w (f r)"
  using assms
proof (induction rows)
  case (Cons q rows)
  have other: "weigh w (updateRows (\<lambda>q'. key q' = key q) f rows) = weigh w rows"
    using Cons.prems(1) by (intro weigh_update_same) (auto simp: image_iff)
  show ?case
  proof (cases "q = r")
    case True
    with other show ?thesis by (simp add: updateRows_def)
  next
    case False
    with Cons.prems have "r \<in> set rows" "key q \<noteq> key r" by auto
    with Cons show ?thesis by (simp add: updateRows_def)
  qed
qed simp

lemma find_by_key:
  assumes "distinct (map key rows)" and "r \<in> set rows"
  shows "findRow (\<lambda>q. key q = key r) rows = Some r"
  using assms by (intro findRow_unique) (auto simp: distinct_map inj_on_def)

lemma distinct_insert:
  "distinct (map key (insertRow r rows)) \<longleftrightarrow> distinct (map key rows) \<and> key r \<notin> key ` set rows"
  by (auto simp: insertRow_def)

lemma distinct_delete: "distinct (map key rows) \<Longrightarrow> distinct (map key (deleteRows P rows))"
  by (auto simp: deleteRows_def distinct_map inj_on_def)

lemma distinct_update:
  assumes "\<And>r. key (f r) = key r" and "distinct (map key rows)"
  shows "distinct (map key (updateRows P f rows))"
proof -
  have "map key (updateRows P f rows) = map key rows"
    using assms(1) by (auto simp: updateRows_def)
  with assms(2) show ?thesis by simp
qed

end

end
