(* ===== verification/Entities.thy ===== *)
theory Entities
  imports Prelude
begin

text \<open>
  The rows of the database (\<open>apps/api/src/persistence/entities\<close>) and the values the
  repositories exchange (\<open>vfs-node.repository.types.ts\<close>, \<open>dto/node-response.dto.ts\<close>).
  \<open>bigint\<close> columns, which the sources carry as decimal strings, are the integers they denote;
  \<open>Date\<close> values are milliseconds; \<open>Buffer\<close> columns are byte lists. A nullable column is an
  option.
\<close>

type_synonym uuid = jstring
type_synonym time = int

datatype node_type = FILE | DIRECTORY

datatype namespace_status = ACTIVE | DELETING | DELETED

datatype encryption_policy = NONE | ENCRYPTED

datatype access_policy = PRIVATE | PUBLIC

datatype change_kind = Created | Updated | Moved | Deleted

record node =
  n_id :: uuid
  n_namespaceId :: jstring
  n_parentId :: "uuid option"
  n_type :: node_type
  n_name :: jstring
  n_blobId :: "uuid option"
  n_size :: "int option"
  n_mimeType :: "jstring option"
  n_childFileCount :: int
  n_expiresAt :: "time option"
  n_createdAt :: time
  n_updatedAt :: time
  n_version :: int

record blob =
  b_id :: uuid
  b_namespaceId :: jstring
  b_storageKey :: jstring
  b_size :: int
  b_mimeType :: jstring
  b_sha256 :: jstring
  b_encryptionIv :: "8 word list option"
  b_referenceCount :: int
  b_zeroSince :: "time option"
  b_createdAt :: time

record namespace =
  ns_id :: jstring
  ns_status :: namespace_status
  ns_encryptionPolicy :: encryption_policy
  ns_accessPolicy :: access_policy
  ns_trashEnabled :: bool
  ns_maxFileSizeBytes :: "int option"
  ns_maxSyncDeleteNodes :: "int option"
  ns_maxSyncCopyNodes :: "int option"
  ns_maxSyncMoveNodes :: "int option"
  ns_retainedSnapshotByteCount :: int
  ns_retainedTrashNodeCount :: int
  ns_retainedTrashByteCount :: int
  ns_maxTotalLogicalBytes :: "int option"
  ns_liveFileByteCount :: int
  ns_maxFilesPerFolder :: "int option"
  ns_liveNodeCount :: int
  ns_maxLiveNodes :: "int option"
  ns_excludeTrashFromQuota :: bool
  ns_excludeSnapshotsFromQuota :: bool
  ns_maxRetainedTrashBytes :: "int option"

record trash =
  t_id :: uuid
  t_namespaceId :: jstring
  t_rootType :: node_type
  t_originalPath :: jstring
  t_rootNodeId :: uuid
  t_rootRevision :: jstring
  t_nodeCount :: int
  t_logicalBytes :: int
  t_deletedAt :: time
  t_expiresAt :: time

record trash_entry =
  e_id :: uuid
  e_namespaceId :: jstring
  e_trashId :: uuid
  e_relativePath :: jstring
  e_type :: node_type
  e_sourceNodeId :: uuid
  e_sourceRevision :: jstring
  e_blobId :: "uuid option"
  e_size :: "int option"
  e_mimeType :: "jstring option"
  e_createdAt :: "time option"

record snapshot_entry =
  q_id :: uuid
  q_namespaceId :: jstring
  q_snapshotId :: uuid
  q_relativePath :: jstring
  q_type :: node_type
  q_sourceNodeId :: uuid
  q_sourceRevision :: jstring
  q_blobId :: "uuid option"
  q_size :: "int option"
  q_mimeType :: "jstring option"

record feed_state =
  f_namespaceId :: jstring
  f_lastSequence :: int
  f_prunedThrough :: int
  f_hasCheckpoint :: bool
  f_signingSecret :: jstring

record change_event =
  v_namespaceId :: jstring
  v_sequence :: int
  v_operationId :: uuid
  v_operationIndex :: nat
  v_operationCount :: nat
  v_kind :: change_kind
  v_nodeId :: uuid
  v_nodeType :: node_type
  v_path :: jstring
  v_previousPath :: "jstring option"
  v_revision :: "jstring option"
  v_occurredAt :: time

section \<open>Values exchanged with the services\<close>

text \<open>\<open>BlobData\<close>: the metadata of an object already written to the storage.\<close>

record blob_data =
  d_storageKey :: jstring
  d_size :: int
  d_mimeType :: jstring
  d_sha256 :: jstring
  d_encryptionIv :: "8 word list option"

text \<open>\<open>RestorableBlob\<close>: an existing Blob a snapshot or a trash item keeps alive.\<close>

record restorable_blob =
  rb_blobId :: uuid
  rb_size :: int
  rb_mimeType :: jstring

text \<open>\<open>VfsNodeRecord\<close> and \<open>toRecord\<close>.\<close>

record node_record =
  r_id :: uuid
  r_name :: jstring
  r_type :: node_type
  r_blobId :: "uuid option"
  r_size :: "int option"
  r_mimeType :: "jstring option"
  r_createdAt :: time
  r_updatedAt :: time
  r_version :: int
  r_expiresAt :: "time option"

definition toRecord :: "node \<Rightarrow> node_record" where
  "toRecord n = \<lparr> r_id = n_id n, r_name = n_name n, r_type = n_type n, r_blobId = n_blobId n,
     r_size = n_size n, r_mimeType = n_mimeType n, r_createdAt = n_createdAt n,
     r_updatedAt = n_updatedAt n, r_version = n_version n, r_expiresAt = n_expiresAt n \<rparr>"

text \<open>
  \<open>VfsNodeResponseDto\<close>, whose timestamps the source renders as ISO strings, and the shapes that
  extend it.
\<close>

record node_response =
  p_id :: uuid
  p_path :: jstring
  p_name :: jstring
  p_type :: node_type
  p_size :: "int option"
  p_mimeType :: "jstring option"
  p_createdAt :: time
  p_updatedAt :: time
  p_version :: int
  p_expiresAt :: "time option"

definition toNodeResponse :: "node_record \<Rightarrow> jstring \<Rightarrow> node_response" where
  "toNodeResponse r path = \<lparr> p_id = r_id r, p_path = path, p_name = r_name r, p_type = r_type r,
     p_size = r_size r, p_mimeType = r_mimeType r, p_createdAt = r_createdAt r,
     p_updatedAt = r_updatedAt r, p_version = r_version r, p_expiresAt = r_expiresAt r \<rparr>"

record precondition_current = node_response +
  p_revision :: jstring

record conditional_content = precondition_current +
  p_sha256 :: jstring

record affected_revision =
  a_path :: jstring
  a_revision :: jstring

text \<open>\<open>SnapshotSourceRow\<close>: a node of a captured subtree with its path below the subtree's root.\<close>

record source_row =
  s_id :: uuid
  s_parentId :: "uuid option"
  s_name :: jstring
  s_type :: node_type
  s_revision :: jstring
  s_relativePath :: jstring
  s_blobId :: "uuid option"
  s_size :: "int option"
  s_mimeType :: "jstring option"
  s_createdAt :: time

datatype put_file_outcome = CreatedNode node_record | ReplacedNode node_record | AbsentNode

text \<open>\<open>ContentPrecondition\<close>: create only, with an optional expiry, or replace one revision.\<close>

datatype content_precondition = IfAbsent "int option" | IfRevision jstring

end
