(* ===== verification/Errors.thy ===== *)
theory Errors
  imports Entities
begin

text \<open>
  The domain errors of \<open>apps/api/src/vfs/vfs.errors.ts\<close> with their machine code and HTTP status.
  The classes are grouped in the order the file declares them; a constructor carries the fields
  its class keeps. \<open>InternalError\<close> is a plain \<open>Error\<close>, \<open>DbConstraint\<close> a constraint violation
  the database driver raises, and \<open>NoReturn\<close> a loop that does not return on a corrupt (cyclic)
  node table.
\<close>

datatype mutation_error =
    VfsFeatureDisabledError jstring
  | VfsInvalidRevisionError
  | VfsInvalidMutationRequestError
  | VfsInvalidChecksumError
  | VfsInvalidExpiryError
  | VfsChecksumMismatchError
  | VfsPartChecksumMismatchError
  | UploadSessionStagingFileTooLargeError int int
  | VfsPreconditionRequiredError
  | VfsPreconditionFailedError jstring "precondition_current option"

fun mutation_status :: "mutation_error \<Rightarrow> nat" where
  "mutation_status (VfsFeatureDisabledError _) = 409"
| "mutation_status VfsInvalidRevisionError = 400"
| "mutation_status VfsInvalidMutationRequestError = 400"
| "mutation_status VfsInvalidChecksumError = 400"
| "mutation_status VfsInvalidExpiryError = 400"
| "mutation_status VfsChecksumMismatchError = 422"
| "mutation_status VfsPartChecksumMismatchError = 422"
| "mutation_status (UploadSessionStagingFileTooLargeError _ _) = 413"
| "mutation_status VfsPreconditionRequiredError = 428"
| "mutation_status (VfsPreconditionFailedError _ _) = 412"

datatype archive_error =
    VfsArchiveInvalidRequestError
  | VfsArchiveInvalidRevisionError nat
  | VfsArchivePreconditionFailedError jstring "precondition_current option" "nat option"
  | VfsArchiveTooLargeError
  | VfsArchiveResultTooLargeError
  | VfsArchiveSourceNotFoundError nat
  | VfsArchiveDeadlineExceededError
  | VfsArchiveBusyError nat

fun archive_status :: "archive_error \<Rightarrow> nat" where
  "archive_status VfsArchiveInvalidRequestError = 400"
| "archive_status (VfsArchiveInvalidRevisionError _) = 400"
| "archive_status (VfsArchivePreconditionFailedError _ _ _) = 412"
| "archive_status VfsArchiveTooLargeError = 413"
| "archive_status VfsArchiveResultTooLargeError = 413"
| "archive_status (VfsArchiveSourceNotFoundError _) = 404"
| "archive_status VfsArchiveDeadlineExceededError = 503"
| "archive_status (VfsArchiveBusyError _) = 503"

datatype extract_limit = EntriesLimit | BytesLimit | EntryBytesLimit | RatioLimit

datatype extract_error =
    VfsExtractInvalidRequestError
  | VfsExtractUnsupportedFormatError string
  | VfsExtractInvalidEntryError nat jstring string
  | VfsExtractTypeConflictError nat jstring jstring
  | VfsExtractTooLargeError extract_limit
  | VfsExtractBusyError nat
  | VfsExtractDeadlineExceededError

fun extract_status :: "extract_error \<Rightarrow> nat" where
  "extract_status VfsExtractInvalidRequestError = 400"
| "extract_status (VfsExtractUnsupportedFormatError _) = 400"
| "extract_status (VfsExtractInvalidEntryError _ _ _) = 400"
| "extract_status (VfsExtractTypeConflictError _ _ _) = 409"
| "extract_status (VfsExtractTooLargeError _) = 413"
| "extract_status (VfsExtractBusyError _) = 503"
| "extract_status VfsExtractDeadlineExceededError = 503"

datatype node_error =
    VfsRevisionExhaustedError
  | VfsInvalidPathError jstring
  | VfsInvalidCursorError jstring
  | VfsInvalidQueryError string
  | VfsInvalidChangeCursorError
  | VfsChangeCursorExpiredError
  | VfsNamespaceNotFoundError jstring
  | VfsNodeNotFoundError jstring
  | VfsSnapshotNotFoundError uuid
  | VfsNotDirectoryError jstring
  | VfsAlreadyExistsError jstring
  | VfsRangeNotSatisfiableError jstring int
  | VfsIsDirectoryError jstring
  | VfsVersionConflictError jstring

fun node_status :: "node_error \<Rightarrow> nat" where
  "node_status VfsRevisionExhaustedError = 409"
| "node_status (VfsInvalidPathError _) = 400"
| "node_status (VfsInvalidCursorError _) = 400"
| "node_status (VfsInvalidQueryError _) = 400"
| "node_status VfsInvalidChangeCursorError = 400"
| "node_status VfsChangeCursorExpiredError = 410"
| "node_status (VfsNamespaceNotFoundError _) = 404"
| "node_status (VfsNodeNotFoundError _) = 404"
| "node_status (VfsSnapshotNotFoundError _) = 404"
| "node_status (VfsNotDirectoryError _) = 409"
| "node_status (VfsAlreadyExistsError _) = 409"
| "node_status (VfsRangeNotSatisfiableError _ _) = 416"
| "node_status (VfsIsDirectoryError _) = 409"
| "node_status (VfsVersionConflictError _) = 409"

datatype limit_error =
    VfsInvalidOperationError jstring
  | VfsDirectoryNotEmptyError jstring
  | VfsDeleteLimitExceededError int
  | VfsTrashLimitExceededError int
  | VfsTrashItemNotFoundError uuid
  | VfsTrashItemExpiredError uuid
  | VfsCopyLimitExceededError int
  | VfsMoveLimitExceededError int
  | VfsPresignedEncryptedUnsupportedError jstring
  | VfsSnapshotLimitExceededError
  | VfsQuotaExceededError int int
  | VfsFolderFileLimitExceededError int int
  | VfsNamespaceNodeLimitExceededError int int

fun limit_status :: "limit_error \<Rightarrow> nat" where
  "limit_status (VfsInvalidOperationError _) = 409"
| "limit_status (VfsDirectoryNotEmptyError _) = 409"
| "limit_status (VfsDeleteLimitExceededError _) = 413"
| "limit_status (VfsTrashLimitExceededError _) = 413"
| "limit_status (VfsTrashItemNotFoundError _) = 404"
| "limit_status (VfsTrashItemExpiredError _) = 410"
| "limit_status (VfsCopyLimitExceededError _) = 413"
| "limit_status (VfsMoveLimitExceededError _) = 413"
| "limit_status (VfsPresignedEncryptedUnsupportedError _) = 409"
| "limit_status VfsSnapshotLimitExceededError = 413"
| "limit_status (VfsQuotaExceededError _ _) = 413"
| "limit_status (VfsFolderFileLimitExceededError _ _) = 413"
| "limit_status (VfsNamespaceNodeLimitExceededError _ _) = 413"

datatype db_constraint =
    PrimaryKey | ChildName | RootPerNamespace | ParentKey | BlobKey | TypeContent | RootShape
  | ReferenceCount | StorageKey | BlobShape | UsageNamespace | UsageCheck | SessionCreation | SessionCheck
  | PartSession | PartCheck | StagingKey

datatype vfs_error =
    Mutation mutation_error
  | Archive archive_error
  | Extract extract_error
  | Node node_error
  | Limit limit_error
  | InternalError string
  | DbConstraint db_constraint
  | NoReturn

text \<open>A plain \<open>Error\<close> carries no status.\<close>

fun error_status :: "vfs_error \<Rightarrow> nat option" where
  "error_status (Mutation e) = Some (mutation_status e)"
| "error_status (Archive e) = Some (archive_status e)"
| "error_status (Extract e) = Some (extract_status e)"
| "error_status (Node e) = Some (node_status e)"
| "error_status (Limit e) = Some (limit_status e)"
| "error_status _ = None"

abbreviation nodeNotFound :: "jstring \<Rightarrow> vfs_error" where
  "nodeNotFound p \<equiv> Node (VfsNodeNotFoundError p)"

abbreviation notDirectory :: "jstring \<Rightarrow> vfs_error" where
  "notDirectory p \<equiv> Node (VfsNotDirectoryError p)"

abbreviation alreadyExists :: "jstring \<Rightarrow> vfs_error" where
  "alreadyExists p \<equiv> Node (VfsAlreadyExistsError p)"

abbreviation isDirectory :: "jstring \<Rightarrow> vfs_error" where
  "isDirectory p \<equiv> Node (VfsIsDirectoryError p)"

abbreviation revisionExhausted :: vfs_error where
  "revisionExhausted \<equiv> Node VfsRevisionExhaustedError"

abbreviation invalidPath :: "jstring \<Rightarrow> vfs_error" where
  "invalidPath p \<equiv> Node (VfsInvalidPathError p)"

abbreviation preconditionFailed :: "jstring \<Rightarrow> precondition_current option \<Rightarrow> vfs_error" where
  "preconditionFailed p c \<equiv> Mutation (VfsPreconditionFailedError p c)"

abbreviation invalidOperation :: "jstring \<Rightarrow> vfs_error" where
  "invalidOperation p \<equiv> Limit (VfsInvalidOperationError p)"

type_synonym 'a result = "vfs_error + 'a"

end
