(* ===== verification/Path.thy ===== *)
theory Path
  imports Errors
begin

text \<open>
  Paths: \<open>apps/api/src/vfs/path-resolver.ts\<close> and the path helpers of
  \<open>apps/api/src/persistence/vfs-node.repository.helpers.ts\<close>.
  Unicode normalisation (\<open>String.prototype.normalize\<close>) needs the Unicode tables, so the
  normaliser is a parameter \<open>nfc\<close> of every function that checks a segment.
\<close>

section \<open>Resolving a raw path\<close>

record resolved_path =
  canonical :: jstring
  segments :: "jstring list"

text \<open>\<open>Bidi_Control\<close> and the C0, DEL and C1 control characters, as code points.\<close>

definition bidi_control :: "nat \<Rightarrow> bool" where
  "bidi_control p \<longleftrightarrow> p = 0x061C \<or> p = 0x200E \<or> p = 0x200F \<or>
     0x202A \<le> p \<and> p \<le> 0x202E \<or> 0x2066 \<le> p \<and> p \<le> 0x2069"

definition control_char :: "nat \<Rightarrow> bool" where
  "control_char p \<longleftrightarrow> p \<le> 0x1F \<or> 0x7F \<le> p \<and> p \<le> 0x9F"

definition lone_surrogate :: "nat \<Rightarrow> bool" where
  "lone_surrogate p \<longleftrightarrow> 0xD800 \<le> p \<and> p \<le> 0xDFFF"

definition invalidSegment :: "(jstring \<Rightarrow> jstring) \<Rightarrow> jstring \<Rightarrow> bool" where
  "invalidSegment nfc segment \<longleftrightarrow>
     segment = js ''..'' \<or>
     92 \<in> set segment \<or>
     (\<exists>p\<in>set (code_points segment). control_char p \<or> bidi_control p) \<or>
     (\<exists>p\<in>set (code_points segment). lone_surrogate p) \<or>
     nfc segment \<noteq> segment \<or>
     255 < byteLength segment"

text \<open>\<open>joinSegments\<close>; the root is \<open>/\<close> either way.\<close>

definition joinSegments :: "jstring list \<Rightarrow> jstring" where
  "joinSegments segs = slash # js_join slash segs"

definition canonicalPath :: "jstring list \<Rightarrow> jstring" where
  "canonicalPath segs = (if segs = [] then [slash] else slash # js_join slash segs)"

definition badSegment :: "(jstring \<Rightarrow> jstring) \<Rightarrow> jstring \<Rightarrow> bool" where
  "badSegment nfc s \<longleftrightarrow> s = [] \<or> s = js ''.'' \<or> slash \<in> set s \<or> invalidSegment nfc s"

definition assertPathSegments :: "(jstring \<Rightarrow> jstring) \<Rightarrow> jstring list \<Rightarrow> unit result" where
  "assertPathSegments nfc segs =
     (if 4096 < byteLength (canonicalPath segs) then Inl (invalidPath (canonicalPath segs))
      else if \<exists>s\<in>set segs. badSegment nfc s then Inl (invalidPath (canonicalPath segs))
      else Inr ())"

text \<open>\<open>resolve(rawPath: unknown)\<close>: \<open>None\<close> is a value that is not a string.\<close>

definition resolve :: "(jstring \<Rightarrow> jstring) \<Rightarrow> jstring option \<Rightarrow> resolved_path result" where
  "resolve nfc rawPath =
     (case rawPath of
        None \<Rightarrow> Inl (invalidPath [])
      | Some raw \<Rightarrow>
          if \<not> js_starts_with [slash] raw then Inl (invalidPath raw)
          else (let segs = filter (\<lambda>s. s \<noteq> [] \<and> s \<noteq> js ''.'') (js_split slash raw) in
                case assertPathSegments nfc segs of
                  Inl e \<Rightarrow> Inl e
                | Inr _ \<Rightarrow> Inr \<lparr> canonical = canonicalPath segs, segments = segs \<rparr>))"

definition joinChildPath :: "jstring \<Rightarrow> jstring \<Rightarrow> jstring" where
  "joinChildPath parentCanonical relative =
     (if parentCanonical = [slash] then slash # relative else parentCanonical @ slash # relative)"

section \<open>Helpers of the node repository\<close>

text \<open>\<open>chunked\<close>: the loop \<open>for (offset = 0; offset < items.length; offset += size)\<close>.\<close>

fun chunks :: "nat \<Rightarrow> 'a list \<Rightarrow> 'a list list" where
  "chunks k [] = []"
| "chunks 0 (x # xs) = []"
| "chunks (Suc k) (x # xs) = (x # take k xs) # chunks (Suc k) (drop k xs)"

definition chunked :: "'a list \<Rightarrow> int \<Rightarrow> 'a list list result" where
  "chunked items chunkSize =
     (if chunkSize < 1 \<or> 9007199254740991 < chunkSize then Inl (InternalError ''Invalid chunk size'')
      else Inr (chunks (nat chunkSize) items))"

text \<open>\<open>compareSegments\<close>: segment by segment, a proper prefix first.\<close>

fun compareSegments :: "jstring list \<Rightarrow> jstring list \<Rightarrow> int" where
  "compareSegments (a # as) (b # bs) =
     (if js_less a b then -1 else if js_less b a then 1 else compareSegments as bs)"
| "compareSegments as bs = int (length as) - int (length bs)"

definition escapeLikeValue :: "jstring \<Rightarrow> jstring" where
  "escapeLikeValue value = concat (map (\<lambda>c. if c \<in> {92, 37, 95} then [92, c] else [c]) value)"

datatype name_filter_mode = Exact | Contains | Prefix | Suffix

fun buildLikePattern :: "name_filter_mode \<Rightarrow> jstring \<Rightarrow> jstring" where
  "buildLikePattern Contains v = 37 # escapeLikeValue v @ [37]"
| "buildLikePattern Prefix v = escapeLikeValue v @ [37]"
| "buildLikePattern Suffix v = 37 # escapeLikeValue v"
| "buildLikePattern Exact v = escapeLikeValue v"

text \<open>
  \<open>assertSubtreeDestinationPaths\<close>: every path the moved or copied subtree would get is checked,
  walking the rows breadth first from the subtree's root. A row is \<open>(id, parent_id, name)\<close>.
  A queue item is taken once per row when the ids are distinct, so a fuel of one more than the
  number of rows is enough; running out is the walk that never ends.
\<close>

type_synonym named_row = "uuid \<times> uuid option \<times> jstring"

definition childRows :: "uuid \<Rightarrow> named_row list \<Rightarrow> uuid \<Rightarrow> named_row list" where
  "childRows sourceId rows p = filter (\<lambda>(i, q, _). i \<noteq> sourceId \<and> q = Some p) rows"

fun checkQueue :: "(jstring \<Rightarrow> jstring) \<Rightarrow> uuid \<Rightarrow> named_row list \<Rightarrow> nat \<Rightarrow>
    (uuid \<times> jstring list) list \<Rightarrow> unit result" where
  "checkQueue nfc sourceId rows fuel [] = Inr ()"
| "checkQueue nfc sourceId rows 0 (item # queue) = Inl NoReturn"
| "checkQueue nfc sourceId rows (Suc fuel) ((i, segs) # queue) =
     (case assertPathSegments nfc segs of
        Inl e \<Rightarrow> Inl e
      | Inr _ \<Rightarrow> checkQueue nfc sourceId rows fuel
          (queue @ map (\<lambda>(j, _, name). (j, segs @ [name])) (childRows sourceId rows i)))"

definition assertSubtreeDestinationPaths ::
    "(jstring \<Rightarrow> jstring) \<Rightarrow> uuid \<Rightarrow> jstring list \<Rightarrow> named_row list \<Rightarrow> unit result" where
  "assertSubtreeDestinationPaths nfc sourceId finalSegments rows =
     (if \<exists>(i, q, _)\<in>set rows. i \<noteq> sourceId \<and> q = None
      then Inl (InternalError ''subtree descendant parent missing'')
      else checkQueue nfc sourceId rows (Suc (length rows)) [(sourceId, finalSegments)])"

section \<open>Resolved paths are canonical\<close>

definition goodSegments :: "(jstring \<Rightarrow> jstring) \<Rightarrow> jstring list \<Rightarrow> bool" where
  "goodSegments nfc segs \<longleftrightarrow>
     byteLength (canonicalPath segs) \<le> 4096 \<and> (\<forall>s\<in>set segs. \<not> badSegment nfc s)"

lemma assertPathSegments_iff:
  "assertPathSegments nfc segs = Inr u \<longleftrightarrow> goodSegments nfc segs"
  by (auto simp: assertPathSegments_def goodSegments_def)

lemma assertPathSegments_good:
  "goodSegments nfc segs \<Longrightarrow> assertPathSegments nfc segs = Inr ()"
  by (simp add: assertPathSegments_iff)

lemma canonicalPath_join [simp]: "canonicalPath segs = joinSegments segs"
  by (simp add: canonicalPath_def joinSegments_def)

lemma split_joinSegments:
  assumes "\<forall>s\<in>set segs. slash \<notin> set s" and "\<forall>s\<in>set segs. s \<noteq> [] \<and> s \<noteq> js ''.''"
  shows "filter (\<lambda>s. s \<noteq> [] \<and> s \<noteq> js ''.'') (js_split slash (joinSegments segs)) = segs"
proof (cases "segs = []")
  case True
  then show ?thesis by (simp add: joinSegments_def)
next
  case False
  then have "js_split slash (js_join slash segs) = segs"
    using assms(1) by (rule js_split_join)
  then show ?thesis using assms(2) by (simp add: joinSegments_def)
qed

lemma good_no_slash: "goodSegments nfc segs \<Longrightarrow> s \<in> set segs \<Longrightarrow> slash \<notin> set s"
  by (auto simp: goodSegments_def badSegment_def)

lemma good_nonempty:
  "goodSegments nfc segs \<Longrightarrow> s \<in> set segs \<Longrightarrow> s \<noteq> [] \<and> s \<noteq> js ''.'' \<and> s \<noteq> js ''..''"
  by (auto simp: goodSegments_def badSegment_def invalidSegment_def)

lemma resolve_joinSegments:
  assumes "goodSegments nfc segs"
  shows "resolve nfc (Some (joinSegments segs)) =
           Inr \<lparr> canonical = joinSegments segs, segments = segs \<rparr>"
proof -
  have "filter (\<lambda>s. s \<noteq> [] \<and> s \<noteq> js ''.'') (js_split slash (joinSegments segs)) = segs"
    using assms good_no_slash good_nonempty by (intro split_joinSegments) blast+
  moreover have "js_starts_with [slash] (joinSegments segs)"
    by (simp add: js_starts_with_def joinSegments_def)
  moreover have "assertPathSegments nfc segs = Inr ()"
    using assms by (rule assertPathSegments_good)
  ultimately show ?thesis by (simp add: resolve_def)
qed

lemma resolve_good:
  assumes "resolve nfc raw = Inr p"
  shows "goodSegments nfc (segments p) \<and> canonical p = joinSegments (segments p)"
  using assms
  by (auto simp: resolve_def Let_def assertPathSegments_iff split: option.splits if_splits sum.splits)

lemma joinSegments_inj:
  assumes "goodSegments nfc xs" and "goodSegments nfc ys" and "joinSegments xs = joinSegments ys"
  shows "xs = ys"
proof -
  from resolve_joinSegments [OF assms(1)] resolve_joinSegments [OF assms(2)] assms(3)
  have "\<lparr> canonical = joinSegments xs, segments = xs \<rparr> = \<lparr> canonical = joinSegments ys, segments = ys \<rparr>"
    by (metis sum.inject(2))
  then show ?thesis by simp
qed

section \<open>Chunks\<close>

lemma concat_chunks: "0 < k \<Longrightarrow> concat (chunks k xs) = xs"
  by (induction k xs rule: chunks.induct) auto

lemma chunks_bound: "c \<in> set (chunks k xs) \<Longrightarrow> c \<noteq> [] \<and> length c \<le> k"
  by (induction k xs rule: chunks.induct) auto

lemma length_chunks: "0 < k \<Longrightarrow> length (chunks k xs) = (length xs + k - 1) div k"
proof (induction k xs rule: chunks.induct)
  case (3 k x xs)
  have "(length xs - k + k) div Suc k + 1 = (length xs + Suc k) div Suc k"
  proof (cases "k \<le> length xs")
    case True
    then have "(length xs + Suc k) div Suc k = length xs div Suc k + 1"
      by (metis Suc_eq_plus1 div_add_self2 nat.distinct(1))
    with True show ?thesis by simp
  next
    case False
    then have "(length xs + Suc k) div Suc k = 1"
      by (intro div_nat_eqI) auto
    with False show ?thesis by simp
  qed
  with 3 show ?case by simp
qed auto

section \<open>The order of paths\<close>

text \<open>The contract of a comparator passed to \<open>Array.prototype.sort\<close>.\<close>

locale comparator_contract =
  fixes cmp :: "'a \<Rightarrow> 'a \<Rightarrow> int"
  assumes cmp_refl: "cmp a a = 0"
    and cmp_anti: "cmp a b \<le> 0 \<longleftrightarrow> 0 \<le> cmp b a"
    and cmp_trans: "cmp a b \<le> 0 \<Longrightarrow> cmp b c \<le> 0 \<Longrightarrow> cmp a c \<le> 0"
begin

lemma cmp_total: "cmp a b \<le> 0 \<or> cmp b a \<le> 0"
  using cmp_anti [of a b] by linarith

lemma cmp_less_trans: "cmp a b < 0 \<Longrightarrow> cmp b c < 0 \<Longrightarrow> cmp a c < 0"
  using cmp_trans [of a b c] cmp_trans [of c a b] cmp_anti [of a c] cmp_anti [of c a]
    cmp_anti [of c b] cmp_anti [of b c] by linarith

end

lemma compareSegments_refl: "compareSegments a a = 0"
  by (induction a) auto

lemma compareSegments_anti: "compareSegments a b \<le> 0 \<longleftrightarrow> 0 \<le> compareSegments b a"
  by (induction a b rule: compareSegments.induct) (auto dest: js_less_asym)

lemma compareSegments_zero: "compareSegments a b = 0 \<longleftrightarrow> a = b"
proof (induction a b rule: compareSegments.induct)
  case (1 a as b bs)
  then show ?case using js_less_linear [of a b] by auto
qed auto

lemma compareSegments_trans:
  "compareSegments a b \<le> 0 \<Longrightarrow> compareSegments b c \<le> 0 \<Longrightarrow> compareSegments a c \<le> 0"
proof (induction a b arbitrary: c rule: compareSegments.induct, goal_cases)
  case (1 a as b bs c)
  show ?case
  proof (cases c)
    case Nil
    then show ?thesis using 1 by (auto split: if_splits)
  next
    case (Cons x xs)
    note lin = js_less_linear [of a b] js_less_linear [of b x] js_less_trans [of a b x]
      js_less_asym [of a b] js_less_asym [of b x] js_less_asym [of a x]
    from 1(2,3) Cons lin have "js_less a x \<or> a = b \<and> b = x \<and>
        compareSegments as bs \<le> 0 \<and> compareSegments bs xs \<le> 0"
      by (simp split: if_splits)
    then show ?thesis using Cons 1(1) [of xs] by auto
  qed
next
  case (2 bs c)
  then show ?case by (cases c) auto
next
  case (3 xs c)
  then show ?case by (cases c) auto
qed

interpretation segs: comparator_contract compareSegments
  using compareSegments_refl compareSegments_anti compareSegments_trans
  by unfold_locales blast+

lemma js_cmp_contract: "comparator_contract js_cmp"
proof
  fix a b c
  show "js_cmp a a = 0" by (simp add: js_cmp_def)
  show "js_cmp a b \<le> 0 \<longleftrightarrow> 0 \<le> js_cmp b a" by (auto simp: js_cmp_def dest: js_less_asym)
  assume "js_cmp a b \<le> 0" "js_cmp b c \<le> 0"
  then show "js_cmp a c \<le> 0"
    using js_less_linear [of a b] js_less_linear [of b c] js_less_trans [of a b c]
      js_less_asym [of a c]
    by (simp add: js_cmp_def split: if_splits)
qed

interpretation strs: comparator_contract js_cmp
  by (rule js_cmp_contract)

text \<open>A directory comes before everything below it, so a lock order by path locks it first.\<close>

lemma compareSegments_prefix: "compareSegments p (p @ q) \<le> 0"
  by (induction p) auto

end
