(* ===== verification/Decimal.thy ===== *)
theory Decimal
  imports Errors
begin

text \<open>
  Decimal strings: \<open>BigInt(text)\<close>, \<open>Number(text)\<close> on digit strings and \<open>value.toString()\<close>,
  the digit patterns of the sources, and \<open>String.prototype.trim\<close>.
\<close>

definition is_digit :: "jchar \<Rightarrow> bool" where
  "is_digit c \<longleftrightarrow> 48 \<le> c \<and> c \<le> 57"

definition dec_value :: "jstring \<Rightarrow> nat" where
  "dec_value s = foldl (\<lambda>v d. 10 * v + (unat d - 48)) 0 s"

fun show_nat :: "nat \<Rightarrow> jstring" where
  "show_nat n = (if n < 10 then [of_nat (48 + n)]
                 else show_nat (n div 10) @ [of_nat (48 + n mod 10)])"

declare show_nat.simps [simp del]

definition show_int :: "int \<Rightarrow> jstring" where
  "show_int i = (if i < 0 then 45 # show_nat (nat (- i)) else show_nat (nat i))"

text \<open>\<open>/^[1-9][0-9]*$/\<close> and \<open>/^(0|[1-9][0-9]*)$/\<close>.\<close>

definition positive_decimal :: "jstring \<Rightarrow> bool" where
  "positive_decimal s \<longleftrightarrow> s \<noteq> [] \<and> hd s \<noteq> 48 \<and> (\<forall>c\<in>set s. is_digit c)"

definition natural_decimal :: "jstring \<Rightarrow> bool" where
  "natural_decimal s \<longleftrightarrow> s = [48] \<or> positive_decimal s"

definition MAX_SAFE_INTEGER :: int where
  "MAX_SAFE_INTEGER = 9007199254740991"

definition MAX_INT64 :: int where
  "MAX_INT64 = 9223372036854775807"

definition js_space :: "jchar \<Rightarrow> bool" where
  "js_space c \<longleftrightarrow> 9 \<le> c \<and> c \<le> 13 \<or> 0x2000 \<le> c \<and> c \<le> 0x200A \<or>
     c \<in> {32, 0xA0, 0x1680, 0x2028, 0x2029, 0x202F, 0x205F, 0x3000, 0xFEFF}"

definition js_trim :: "jstring \<Rightarrow> jstring" where
  "js_trim s = rev (dropWhile js_space (rev (dropWhile js_space s)))"

text \<open>\<open>toLowerCase\<close> on ASCII text.\<close>

definition lower_ascii :: "jchar \<Rightarrow> jchar" where
  "lower_ascii c = (if 65 \<le> c \<and> c \<le> 90 then c + 32 else c)"

section \<open>Printing and reading agree\<close>

lemma digit_of_nat [simp]: "n < 10 \<Longrightarrow> unat (of_nat (48 + n) :: jchar) = 48 + n"
  by (simp add: unat_of_nat del: of_nat_add)

lemma is_digit_iff: "is_digit c \<longleftrightarrow> 48 \<le> unat c \<and> unat c \<le> 57"
  by (simp add: is_digit_def word_le_nat_alt)

lemma is_digit_of_nat: "n < 10 \<Longrightarrow> is_digit (of_nat (48 + n))"
  by (simp add: is_digit_iff del: of_nat_add)

lemma dec_value_snoc: "dec_value (s @ [d]) = 10 * dec_value s + (unat d - 48)"
  by (simp add: dec_value_def)

lemma dec_value_show [simp]: "dec_value (show_nat n) = n"
proof (induction n rule: show_nat.induct)
  case (1 n)
  show ?case
  proof (cases "n < 10")
    case True
    then show ?thesis
      by (simp add: show_nat.simps [of n] dec_value_def del: of_nat_add)
  next
    case False
    have m: "n mod 10 < 10" by simp
    from False 1 show ?thesis
      by (simp add: show_nat.simps [of n] dec_value_snoc digit_of_nat [OF m] del: of_nat_add)
  qed
qed

lemma show_nat_digits: "c \<in> set (show_nat n) \<Longrightarrow> is_digit c"
proof (induction n rule: show_nat.induct)
  case (1 n)
  show ?case
  proof (cases "n < 10")
    case True
    with 1 show ?thesis
      by (simp add: show_nat.simps [of n] is_digit_of_nat del: of_nat_add)
  next
    case False
    have "is_digit (of_nat (48 + n mod 10))" by (rule is_digit_of_nat) simp
    with False 1 show ?thesis
      by (auto simp add: show_nat.simps [of n] simp del: of_nat_add)
  qed
qed

lemma show_nat_ne [simp]: "show_nat n \<noteq> []"
  by (simp add: show_nat.simps [of n])

lemma hd_show_nat: "0 < n \<Longrightarrow> hd (show_nat n) \<noteq> 48"
proof (induction n rule: show_nat.induct)
  case (1 n)
  show ?case
  proof (cases "n < 10")
    case True
    then have "unat (of_nat (48 + n) :: jchar) \<noteq> unat (48 :: jchar)"
      using 1 by (simp del: of_nat_add)
    then have "(of_nat (48 + n) :: jchar) \<noteq> 48" by metis
    with True show ?thesis
      by (simp add: show_nat.simps [of n] del: of_nat_add)
  next
    case False
    with 1 show ?thesis by (simp add: show_nat.simps [of n])
  qed
qed

lemma positive_show_nat: "positive_decimal (show_nat n) \<longleftrightarrow> 0 < n"
proof (cases "n = 0")
  case True
  then show ?thesis by (simp add: positive_decimal_def show_nat.simps)
next
  case False
  then show ?thesis
    using hd_show_nat [of n] show_nat_digits by (auto simp: positive_decimal_def)
qed

lemma natural_show_nat: "natural_decimal (show_nat n)"
proof (cases "n = 0")
  case True
  then show ?thesis by (simp add: natural_decimal_def show_nat.simps)
next
  case False
  then show ?thesis by (simp add: natural_decimal_def positive_show_nat)
qed

lemma minus_not_digit: "\<not> is_digit 45"
  by (simp add: is_digit_def)

lemma positive_show_int: "positive_decimal (show_int i) \<longleftrightarrow> 0 < i"
proof (cases "i < 0")
  case True
  then show ?thesis by (simp add: show_int_def positive_decimal_def minus_not_digit)
next
  case False
  then show ?thesis by (simp add: show_int_def positive_show_nat)
qed

lemma dec_value_show_int: "0 \<le> i \<Longrightarrow> int (dec_value (show_int i)) = i"
  by (simp add: show_int_def)

end
