(* ===== verification/Quota.thy ===== *)
theory Quota
  imports Decimal
begin

text \<open>
  Limits: \<open>vfs/namespace-quota.ts\<close>, \<open>common/resource-limit.ts\<close>, \<open>common/env-parsing.ts\<close>,
  \<open>vfs/trash-policy.ts\<close> and \<open>vfs/pagination.ts\<close>. Environment values are optional strings;
  \<open>number\<close> values are the integers they denote (every accepted value is a safe integer).
\<close>

section \<open>Environment values\<close>

definition parsePositiveInt :: "jstring option \<Rightarrow> int \<Rightarrow> int option \<Rightarrow> int result" where
  "parsePositiveInt value fallback upper =
     (if value = None \<or> value = Some [] then Inr fallback
      else (let v = the value; parsed = int (dec_value v) in
        if \<not> positive_decimal v \<or> MAX_SAFE_INTEGER < parsed
        then Inl (InternalError ''invalid integer environment value'')
        else (case upper of
                None \<Rightarrow> Inr parsed
              | Some m \<Rightarrow> if m < parsed then Inl (InternalError ''invalid integer environment value (max)'')
                          else Inr parsed)))"

definition parseListenPort :: "jstring option \<Rightarrow> int result" where
  "parseListenPort value =
     (if value = Some [48] then Inr 0 else parsePositiveInt value 3000 (Some 65535))"

definition resolveTrashRetentionNodeLimit :: "jstring option \<Rightarrow> int result" where
  "resolveTrashRetentionNodeLimit value =
     (case value of
        None \<Rightarrow> Inr 100000
      | Some v \<Rightarrow>
          if \<not> positive_decimal v then Inl (InternalError ''Invalid trash retention node limit'')
          else if MAX_SAFE_INTEGER < int (dec_value v)
            then Inl (InternalError ''Invalid trash retention node limit'')
          else Inr (int (dec_value v)))"

section \<open>Counts and file sizes\<close>

text \<open>\<open>CountLimits\<close>, \<open>FileSizeLimits\<close> and \<open>LogicalByteLimits\<close>: a default and a ceiling.\<close>

record limits =
  defaultValue :: int
  ceilingValue :: int

definition parseCount :: "jstring option \<Rightarrow> int option result" where
  "parseCount value =
     (case value of
        None \<Rightarrow> Inr None
      | Some v \<Rightarrow>
          if js_trim v = [] then Inr None
          else if \<not> positive_decimal (js_trim v)
            then Inl (InternalError ''count limit must be a positive integer'')
          else if MAX_SAFE_INTEGER < int (dec_value (js_trim v))
            then Inl (InternalError ''count limit is outside the safe integer range'')
          else Inr (Some (int (dec_value (js_trim v)))))"

definition resolveCountLimits ::
    "jstring option \<Rightarrow> jstring option \<Rightarrow> int \<Rightarrow> limits result" where
  "resolveCountLimits defaultEnv ceilingEnv builtInDefault =
     (case parseCount ceilingEnv of
        Inl e \<Rightarrow> Inl e
      | Inr ceiling \<Rightarrow>
          (case parseCount defaultEnv of
             Inl e \<Rightarrow> Inl e
           | Inr d \<Rightarrow>
               (let dv = (case d of Some x \<Rightarrow> x | None \<Rightarrow>
                            (case ceiling of Some c \<Rightarrow> c | None \<Rightarrow> builtInDefault));
                    cv = (case ceiling of Some c \<Rightarrow> c | None \<Rightarrow> dv)
                in if cv < dv then Inl (InternalError ''count default exceeds ceiling'')
                   else Inr \<lparr> defaultValue = dv, ceilingValue = cv \<rparr>)))"

definition MAX_OBJECT_BYTES :: int where
  "MAX_OBJECT_BYTES = 16 * 1024 * 1024 * 10000"

definition DEFAULT_MAX_FILE_SIZE_BYTES :: int where
  "DEFAULT_MAX_FILE_SIZE_BYTES = 5368709120"

text \<open>\<open>namespaceValue\<close> is finite whenever it is present: the column is an integer.\<close>

definition resolveEffectiveLimit :: "int option \<Rightarrow> int \<Rightarrow> int \<Rightarrow> int" where
  "resolveEffectiveLimit namespaceValue ceiling dflt =
     (case namespaceValue of None \<Rightarrow> dflt | Some v \<Rightarrow> min v ceiling)"

definition parseOptional :: "jstring option \<Rightarrow> int option result" where
  "parseOptional value =
     (if value = None \<or> value = Some [] then Inr None
      else (case parsePositiveInt value DEFAULT_MAX_FILE_SIZE_BYTES None of
              Inl e \<Rightarrow> Inl e | Inr v \<Rightarrow> Inr (Some v)))"

definition resolveFileSizeLimits :: "jstring option \<Rightarrow> jstring option \<Rightarrow> limits result" where
  "resolveFileSizeLimits defaultEnv ceilingEnv =
     (case parseOptional defaultEnv of
        Inl e \<Rightarrow> Inl e
      | Inr maximum \<Rightarrow>
          (case parseOptional ceilingEnv of
             Inl e \<Rightarrow> Inl e
           | Inr ceiling \<Rightarrow>
               (let dv = (case maximum of Some x \<Rightarrow> x | None \<Rightarrow>
                            (case ceiling of Some c \<Rightarrow> c | None \<Rightarrow> DEFAULT_MAX_FILE_SIZE_BYTES));
                    cv = (case ceiling of Some c \<Rightarrow> c | None \<Rightarrow> dv)
                in if cv < dv then Inl (InternalError ''file size default exceeds ceiling'')
                   else if MAX_OBJECT_BYTES < cv
                     then Inl (InternalError ''file size ceiling exceeds maximum object size'')
                   else Inr \<lparr> defaultValue = dv, ceilingValue = cv \<rparr>)))"

definition resolveGlobalMaxFileSizeBytes :: "jstring option \<Rightarrow> int result" where
  "resolveGlobalMaxFileSizeBytes value =
     (case resolveFileSizeLimits None value of Inl e \<Rightarrow> Inl e | Inr l \<Rightarrow> Inr (ceilingValue l))"

definition resolveMaxFileSizeBytes :: "int option \<Rightarrow> int \<Rightarrow> int \<Rightarrow> int" where
  "resolveMaxFileSizeBytes namespaceValue globalValue dflt =
     resolveEffectiveLimit namespaceValue globalValue dflt"

section \<open>Logical bytes\<close>

definition parseNonNegativeBytes :: "jstring \<Rightarrow> int result" where
  "parseNonNegativeBytes value =
     (if \<not> natural_decimal value then Inl (InternalError ''Invalid total logical byte count'')
      else if MAX_INT64 < int (dec_value value)
        then Inl (InternalError ''Invalid total logical byte count'')
      else Inr (int (dec_value value)))"

definition parsePositiveLimit :: "jstring \<Rightarrow> int result" where
  "parsePositiveLimit value =
     (if \<not> positive_decimal value then Inl (InternalError ''Invalid total logical byte limit'')
      else if MAX_INT64 < int (dec_value value)
        then Inl (InternalError ''Invalid total logical byte limit'')
      else Inr (int (dec_value value)))"

definition parseOptionalLimit :: "jstring option \<Rightarrow> int option result" where
  "parseOptionalLimit value =
     (if value = None \<or> value = Some [] then Inr None
      else (case parsePositiveLimit (the value) of Inl e \<Rightarrow> Inl e | Inr v \<Rightarrow> Inr (Some v)))"

definition resolveGlobalTotalLogicalByteLimits ::
    "jstring option \<Rightarrow> jstring option \<Rightarrow> limits result" where
  "resolveGlobalTotalLogicalByteLimits defaultEnv ceilingEnv =
     (case parseOptionalLimit defaultEnv of
        Inl e \<Rightarrow> Inl e
      | Inr parsedDefault \<Rightarrow>
          (case parseOptionalLimit ceilingEnv of
             Inl e \<Rightarrow> Inl e
           | Inr parsedCeiling \<Rightarrow>
               (let dv = (case parsedDefault of Some x \<Rightarrow> x | None \<Rightarrow>
                            (case parsedCeiling of Some c \<Rightarrow> c | None \<Rightarrow> 53687091200));
                    cv = (case parsedCeiling of Some c \<Rightarrow> c | None \<Rightarrow> dv)
                in if cv < dv then Inl (InternalError ''total logical bytes default exceeds ceiling'')
                   else Inr \<lparr> defaultValue = dv, ceilingValue = cv \<rparr>)))"

definition resolveNamespaceQuota :: "jstring option \<Rightarrow> int \<Rightarrow> int \<Rightarrow> int result" where
  "resolveNamespaceQuota namespaceLimit ceilingBytes defaultBytes =
     (case namespaceLimit of
        None \<Rightarrow> Inr defaultBytes
      | Some v \<Rightarrow>
          (case parsePositiveLimit v of
             Inl e \<Rightarrow> Inl e
           | Inr namespaceBytes \<Rightarrow>
               Inr (if namespaceBytes < ceilingBytes then namespaceBytes else ceilingBytes)))"

definition resolveTotalLogicalBytes :: "jstring \<Rightarrow> jstring \<Rightarrow> jstring \<Rightarrow> int result" where
  "resolveTotalLogicalBytes liveFileBytes retainedSnapshotBytes retainedTrashBytes =
     (case parseNonNegativeBytes liveFileBytes of
        Inl e \<Rightarrow> Inl e
      | Inr l \<Rightarrow>
          (case parseNonNegativeBytes retainedSnapshotBytes of
             Inl e \<Rightarrow> Inl e
           | Inr s \<Rightarrow>
               (case parseNonNegativeBytes retainedTrashBytes of
                  Inl e \<Rightarrow> Inl e
                | Inr t \<Rightarrow>
                    if MAX_INT64 < l + s + t then Inl (InternalError ''Invalid total logical byte count'')
                    else Inr (l + s + t))))"

definition resolveEnforcedLogicalBytes :: "int \<Rightarrow> int \<Rightarrow> int \<Rightarrow> bool \<Rightarrow> bool \<Rightarrow> int" where
  "resolveEnforcedLogicalBytes liveBytes trashBytes snapshotBytes excludeTrash excludeSnapshots =
     liveBytes + (if excludeTrash then 0 else trashBytes)
       + (if excludeSnapshots then 0 else snapshotBytes)"

definition assertNamespaceQuotaWithinGlobalLimit :: "jstring option \<Rightarrow> int \<Rightarrow> unit result" where
  "assertNamespaceQuotaWithinGlobalLimit namespaceLimit globalBytes =
     (case namespaceLimit of
        None \<Rightarrow> Inr ()
      | Some v \<Rightarrow>
          (case parsePositiveLimit v of
             Inl e \<Rightarrow> Inl e
           | Inr b \<Rightarrow>
               if globalBytes < b
               then Inl (InternalError ''Namespace total logical byte limit exceeds the global limit'')
               else Inr ()))"

section \<open>Properties\<close>

lemma parsePositiveLimit_show:
  "parsePositiveLimit (show_int i) =
     (if 1 \<le> i \<and> i \<le> MAX_INT64 then Inr i else Inl (InternalError ''Invalid total logical byte limit''))"
proof (cases "0 < i")
  case True
  then have "int (dec_value (show_int i)) = i" by (simp add: dec_value_show_int)
  with True show ?thesis
    by (auto simp: parsePositiveLimit_def positive_show_int)
next
  case False
  then show ?thesis by (auto simp: parsePositiveLimit_def positive_show_int)
qed

lemma parsePositiveLimit_Inr: "parsePositiveLimit s = Inr v \<Longrightarrow> v \<le> MAX_INT64"
  by (auto simp: parsePositiveLimit_def split: if_splits)

lemma dec_value_append: "dec_value (s @ t) = dec_value s * 10 ^ length t + dec_value t"
proof (induction t rule: rev_induct)
  case (snoc d t)
  then show ?case
    by (simp add: dec_value_snoc algebra_simps flip: append_assoc)
qed (simp add: dec_value_def)

lemma positive_decimal_pos:
  assumes "positive_decimal s"
  shows "0 < dec_value s"
proof -
  from assms obtain c cs where s: "s = c # cs" and d: "is_digit c" and c: "c \<noteq> 48"
    by (cases s) (auto simp: positive_decimal_def)
  from c have "unat c \<noteq> 48" by (simp add: word_unat_eq_iff)
  with d have "48 < unat c" by (simp add: is_digit_iff)
  then have "0 < dec_value [c]" by (simp add: dec_value_def)
  then show ?thesis using dec_value_append [of "[c]" cs] by (simp add: s)
qed

text \<open>Every accepted configuration has a positive default no larger than its ceiling.\<close>

lemma resolveGlobalTotalLogicalByteLimits_ok:
  assumes "resolveGlobalTotalLogicalByteLimits d c = Inr l"
  shows "0 < defaultValue l \<and> defaultValue l \<le> ceilingValue l \<and> ceilingValue l \<le> MAX_INT64"
proof -
  have pos: "0 < v \<and> v \<le> MAX_INT64" if "parseOptionalLimit s = Inr (Some v)" for s v
    using that positive_decimal_pos
    by (auto simp: parseOptionalLimit_def parsePositiveLimit_def split: if_splits sum.splits)
  show ?thesis
    using assms pos
    by (auto simp: resolveGlobalTotalLogicalByteLimits_def Let_def MAX_INT64_def
        split: sum.splits option.splits if_splits)
qed

end
