(* ===== verification/Revision.thy ===== *)
theory Revision
  imports Decimal
begin

text \<open>
  Revision tokens: \<open>apps/api/src/vfs/revision.ts\<close>. A token \<open>r1.<32 base64url characters>\<close>
  packs a node id (16 bytes) and its version (8 bytes, big endian). The byte codecs of
  \<open>Buffer\<close> it uses, hex and base64url, are defined here on byte values below 256.
\<close>

section \<open>Codecs\<close>

text \<open>
  The contract of an encoder with its decoder: what is encoded is read back, and a decoder accepts
  an encoding only.
\<close>

locale codec =
  fixes valid :: "'a \<Rightarrow> bool" and enc :: "'a \<Rightarrow> 'b" and dec :: "'b \<Rightarrow> 'a option"
  assumes dec_enc: "valid x \<Longrightarrow> dec (enc x) = Some x"
    and dec_sound: "dec y = Some x \<Longrightarrow> valid x \<and> enc x = y"
begin

lemma enc_inj: "valid x \<Longrightarrow> valid z \<Longrightarrow> enc x = enc z \<Longrightarrow> x = z"
  by (metis dec_enc option.inject)

lemma dec_inj: "dec y = Some x \<Longrightarrow> dec z = Some x \<Longrightarrow> y = z"
  using dec_sound by blast

lemma dec_iff: "dec y = Some x \<longleftrightarrow> valid x \<and> enc x = y"
  using dec_enc dec_sound by blast

end

section \<open>Hex\<close>

definition is_hex :: "jchar \<Rightarrow> bool" where
  "is_hex c \<longleftrightarrow> is_digit c \<or> 97 \<le> c \<and> c \<le> 102"

definition hex_digit :: "nat \<Rightarrow> jchar" where
  "hex_digit n = (if n < 10 then of_nat (48 + n) else of_nat (87 + n))"

definition hex_val :: "jchar \<Rightarrow> nat" where
  "hex_val c = (if unat c < 58 then unat c - 48 else unat c - 87)"

fun to_hex :: "nat list \<Rightarrow> jstring" where
  "to_hex [] = []"
| "to_hex (b # bs) = hex_digit (b div 16) # hex_digit (b mod 16) # to_hex bs"

fun from_hex :: "jstring \<Rightarrow> nat list" where
  "from_hex (c # d # cs) = (16 * hex_val c + hex_val d) # from_hex cs"
| "from_hex _ = []"

section \<open>base64url\<close>

definition b64_digit :: "nat \<Rightarrow> jchar" where
  "b64_digit n = (if n < 26 then of_nat (65 + n) else if n < 52 then of_nat (71 + n)
     else if n < 62 then of_nat (n - 4) else if n = 62 then 45 else 95)"

definition is_b64 :: "jchar \<Rightarrow> bool" where
  "is_b64 c \<longleftrightarrow> 65 \<le> c \<and> c \<le> 90 \<or> 97 \<le> c \<and> c \<le> 122 \<or> is_digit c \<or> c = 95 \<or> c = 45"

definition b64_val :: "jchar \<Rightarrow> nat" where
  "b64_val c = (let u = unat c in
     if u = 45 then 62 else if u = 95 then 63 else if u < 58 then u + 4
     else if u < 91 then u - 65 else u - 71)"

fun to_b64 :: "nat list \<Rightarrow> jstring" where
  "to_b64 (a # b # c # bs) =
     b64_digit (a div 4) # b64_digit ((a mod 4) * 16 + b div 16) #
     b64_digit ((b mod 16) * 4 + c div 64) # b64_digit (c mod 64) # to_b64 bs"
| "to_b64 _ = []"

fun from_b64 :: "jstring \<Rightarrow> nat list" where
  "from_b64 (p # q # r # s # cs) =
     (let a = b64_val p; b = b64_val q; c = b64_val r; d = b64_val s in
      (a * 4 + b div 16) # ((b mod 16) * 16 + c div 4) # ((c mod 4) * 64 + d) # from_b64 cs)"
| "from_b64 _ = []"

section \<open>Revision tokens\<close>

definition MAX_VFS_VERSION :: int where
  "MAX_VFS_VERSION = MAX_SAFE_INTEGER"

text \<open>
  \<open>UUID_PATTERN\<close>: five groups of hex digits; the version digit is 1 to 8, the variant 8, 9, a or b.
\<close>

definition uuid_pattern :: "jstring \<Rightarrow> bool" where
  "uuid_pattern s \<longleftrightarrow>
     (case js_split 45 s of
        [a, b, c, d, e] \<Rightarrow>
          length a = 8 \<and> length b = 4 \<and> length c = 4 \<and> length d = 4 \<and> length e = 12 \<and>
          (\<forall>x\<in>set (a @ b @ c @ d @ e). is_hex x) \<and>
          49 \<le> hd c \<and> hd c \<le> 56 \<and> (hd d = 56 \<or> hd d = 57 \<or> hd d = 97 \<or> hd d = 98)
      | _ \<Rightarrow> False)"

fun be_bytes :: "nat \<Rightarrow> nat \<Rightarrow> nat list" where
  "be_bytes 0 v = []"
| "be_bytes (Suc k) v = be_bytes k (v div 256) @ [v mod 256]"

definition be_value :: "nat list \<Rightarrow> nat" where
  "be_value bs = foldl (\<lambda>v b. 256 * v + b) 0 bs"

definition tokenPrefix :: jstring where "tokenPrefix = [114, 49, 46]"

definition encodeRevision :: "uuid \<Rightarrow> int \<Rightarrow> jstring result" where
  "encodeRevision nodeId version =
     (if version < 1 \<or> MAX_VFS_VERSION < version then Inl revisionExhausted
      else (let i = map lower_ascii nodeId in
        if \<not> uuid_pattern i then Inl (Mutation VfsInvalidRevisionError)
        else Inr (tokenPrefix @ to_b64 (from_hex (concat (js_split 45 i)) @ be_bytes 8 (nat version)))))"

definition formatUuid :: "jstring \<Rightarrow> uuid" where
  "formatUuid h = js_join 45 [take 8 h, take 4 (drop 8 h), take 4 (drop 12 h), take 4 (drop 16 h), drop 20 h]"

definition decodeRevision :: "jstring \<Rightarrow> (uuid \<times> int) result" where
  "decodeRevision raw =
     (if take 3 raw \<noteq> tokenPrefix \<or> length raw \<noteq> 35 \<or> (\<exists>c\<in>set (drop 3 raw). \<not> is_b64 c)
      then Inl (Mutation VfsInvalidRevisionError)
      else (let bytes = from_b64 (drop 3 raw) in
        if length bytes \<noteq> 24 then Inl (Mutation VfsInvalidRevisionError)
        else (let i = formatUuid (to_hex (take 16 bytes)); v = int (be_value (drop 16 bytes)) in
          if \<not> uuid_pattern i \<or> v < 1 \<or> MAX_VFS_VERSION < v
          then Inl (Mutation VfsInvalidRevisionError)
          else if encodeRevision i v \<noteq> Inr raw then Inl (Mutation VfsInvalidRevisionError)
          else Inr (i, v))))"

section \<open>The digits\<close>

lemma hex_digit_table:
  "\<forall>n\<in>set [0..<16]. hex_val (hex_digit n) = n \<and> is_hex (hex_digit n)"
  by code_simp

lemma hex_digit_facts [simp]:
  assumes "n < 16"
  shows "hex_val (hex_digit n) = n" and "is_hex (hex_digit n)"
  using hex_digit_table assms by auto

lemma hex_char_table:
  "\<forall>u\<in>set [0..<128]. is_hex (of_nat u) \<longrightarrow>
     hex_digit (hex_val (of_nat u)) = of_nat u \<and> hex_val (of_nat u) < 16"
  by code_simp

lemma hex_char_facts:
  assumes "is_hex c"
  shows "hex_digit (hex_val c) = c" and "hex_val c < 16"
proof -
  have "unat c < 128" using assms by (auto simp: is_hex_def is_digit_def word_le_nat_alt)
  then show "hex_digit (hex_val c) = c" and "hex_val c < 16"
    using hex_char_table assms by (auto dest: bspec [of _ _ "unat c"])
qed

lemma b64_digit_table:
  "\<forall>n\<in>set [0..<64]. b64_val (b64_digit n) = n \<and> is_b64 (b64_digit n)"
  by code_simp

lemma b64_digit_facts [simp]:
  assumes "n < 64"
  shows "b64_val (b64_digit n) = n" and "is_b64 (b64_digit n)"
  using b64_digit_table assms by auto

lemma b64_char_table:
  "\<forall>u\<in>set [0..<128]. is_b64 (of_nat u) \<longrightarrow>
     b64_digit (b64_val (of_nat u)) = of_nat u \<and> b64_val (of_nat u) < 64"
  by code_simp

lemma b64_char_facts:
  assumes "is_b64 c"
  shows "b64_digit (b64_val c) = c" and "b64_val c < 64"
proof -
  have "unat c < 128" using assms by (auto simp: is_b64_def is_digit_def word_le_nat_alt)
  then show "b64_digit (b64_val c) = c" and "b64_val c < 64"
    using b64_char_table assms by (auto dest: bspec [of _ _ "unat c"])
qed

section \<open>The byte codecs\<close>

abbreviation bytes :: "nat list \<Rightarrow> bool" where
  "bytes bs \<equiv> \<forall>b\<in>set bs. b < 256"

lemma from_to_hex: "bytes bs \<Longrightarrow> from_hex (to_hex bs) = bs"
  by (induction bs) auto

lemma to_from_hex: "even (length h) \<Longrightarrow> \<forall>c\<in>set h. is_hex c \<Longrightarrow> to_hex (from_hex h) = h"
  by (induction h rule: from_hex.induct) (auto simp: hex_char_facts)

lemma from_hex_bytes: "\<forall>c\<in>set h. is_hex c \<Longrightarrow> bytes (from_hex h)"
proof (induction h rule: from_hex.induct)
  case (1 c d cs)
  then have "hex_val c < 16" "hex_val d < 16" by (auto intro: hex_char_facts)
  with 1 show ?case by auto
qed auto

lemma length_from_hex: "length (from_hex h) = length h div 2"
  by (induction h rule: from_hex.induct) auto

lemma length_to_hex: "length (to_hex bs) = 2 * length bs"
  by (induction bs) auto

lemma to_hex_hex: "bytes bs \<Longrightarrow> c \<in> set (to_hex bs) \<Longrightarrow> is_hex c"
  by (induction bs) auto

interpretation hexc: codec "\<lambda>bs. bytes bs" to_hex
    "\<lambda>h. if even (length h) \<and> (\<forall>c\<in>set h. is_hex c) then Some (from_hex h) else None"
proof
  fix bs :: "nat list" assume "bytes bs"
  then show "(if even (length (to_hex bs)) \<and> (\<forall>c\<in>set (to_hex bs). is_hex c)
      then Some (from_hex (to_hex bs)) else None) = Some bs"
    using to_hex_hex by (simp add: from_to_hex length_to_hex)
next
  fix h bs
  assume "(if even (length h) \<and> (\<forall>c\<in>set h. is_hex c) then Some (from_hex h) else None) = Some bs"
  then show "bytes bs \<and> to_hex bs = h"
    using from_hex_bytes to_from_hex by (auto split: if_splits)
qed

lemma split16:
  assumes "y < (16 :: nat)"
  shows "(x * 16 + y) div 16 = x" and "(x * 16 + y) mod 16 = y"
  using assms by simp_all

lemma split4:
  assumes "y < (4 :: nat)"
  shows "(x * 4 + y) div 4 = x" and "(x * 4 + y) mod 4 = y"
  using assms by simp_all

lemma split64:
  assumes "y < (64 :: nat)"
  shows "(x * 64 + y) div 64 = x" and "(x * 64 + y) mod 64 = y"
  using assms by simp_all

lemma b64_group:
  assumes "a < 256" "b < 256" "c < (256 :: nat)"
  shows "a div 4 < 64" "(a mod 4) * 16 + b div 16 < 64" "(b mod 16) * 4 + c div 64 < 64"
    "a div 4 * 4 + ((a mod 4) * 16 + b div 16) div 16 = a"
    "((a mod 4) * 16 + b div 16) mod 16 * 16 + ((b mod 16) * 4 + c div 64) div 4 = b"
    "((b mod 16) * 4 + c div 64) mod 4 * 64 + c mod 64 = c"
proof -
  have d: "b div 16 < 16" "c div 64 < 4" "a mod 4 < 4" "b mod 16 < 16" "a div 4 < 64"
    using assms by auto
  then show "a div 4 < 64" "(a mod 4) * 16 + b div 16 < 64" "(b mod 16) * 4 + c div 64 < 64"
    by linarith+
  show "a div 4 * 4 + ((a mod 4) * 16 + b div 16) div 16 = a"
    by (simp only: split16 [OF d(1)] div_mult_mod_eq)
  show "((a mod 4) * 16 + b div 16) mod 16 * 16 + ((b mod 16) * 4 + c div 64) div 4 = b"
    by (simp only: split16 [OF d(1)] split4 [OF d(2)] div_mult_mod_eq)
  show "((b mod 16) * 4 + c div 64) mod 4 * 64 + c mod 64 = c"
    by (simp only: split4 [OF d(2)] div_mult_mod_eq)
qed

lemma b64_ungroup:
  assumes "p < 64" "q < 64" "r < 64" "s < (64 :: nat)"
  shows "p * 4 + q div 16 < 256" "(q mod 16) * 16 + r div 4 < 256" "(r mod 4) * 64 + s < 256"
    "(p * 4 + q div 16) div 4 = p"
    "((p * 4 + q div 16) mod 4) * 16 + ((q mod 16) * 16 + r div 4) div 16 = q"
    "(((q mod 16) * 16 + r div 4) mod 16) * 4 + ((r mod 4) * 64 + s) div 64 = r"
    "((r mod 4) * 64 + s) mod 64 = s"
proof -
  have d: "q div 16 < 4" "r div 4 < 16" "q mod 16 < 16" "r mod 4 < 4"
    using assms by auto
  then show "p * 4 + q div 16 < 256" "(q mod 16) * 16 + r div 4 < 256" "(r mod 4) * 64 + s < 256"
    using assms by linarith+
  show "(p * 4 + q div 16) div 4 = p" by (rule split4 [OF d(1)])
  show "((p * 4 + q div 16) mod 4) * 16 + ((q mod 16) * 16 + r div 4) div 16 = q"
    by (simp only: split4 [OF d(1)] split16 [OF d(2)] div_mult_mod_eq)
  show "(((q mod 16) * 16 + r div 4) mod 16) * 4 + ((r mod 4) * 64 + s) div 64 = r"
    by (simp only: split16 [OF d(2)] split64 [OF assms(4)] div_mult_mod_eq)
  show "((r mod 4) * 64 + s) mod 64 = s" by (rule split64 [OF assms(4)])
qed

lemma dvd_steps:
  "3 dvd Suc (Suc (Suc n)) \<longleftrightarrow> 3 dvd n" "4 dvd Suc (Suc (Suc (Suc n))) \<longleftrightarrow> 4 dvd n"
  by presburger+

lemma from_to_b64: "3 dvd length bs \<Longrightarrow> bytes bs \<Longrightarrow> from_b64 (to_b64 bs) = bs"
proof (induction bs rule: to_b64.induct)
  case (1 a b c bs)
  then have abc: "a < 256" "b < 256" "c < 256" by auto
  have "3 dvd length bs" using 1(2) by (simp add: dvd_steps)
  with 1 have "from_b64 (to_b64 bs) = bs" by auto
  with b64_group [OF abc] show ?case by (simp add: Let_def)
qed (auto dest: dvd_imp_le)

lemma to_from_b64:
  "4 dvd length t \<Longrightarrow> \<forall>c\<in>set t. is_b64 c \<Longrightarrow> to_b64 (from_b64 t) = t"
proof (induction t rule: from_b64.induct)
  case (1 p q r s cs)
  then have v: "b64_val p < 64" "b64_val q < 64" "b64_val r < 64" "b64_val s < 64"
    by (auto intro: b64_char_facts)
  have "4 dvd length cs" using 1(2) by (simp add: dvd_steps)
  with 1 have "to_b64 (from_b64 cs) = cs" by auto
  with b64_ungroup [OF v] 1(3) show ?case by (simp add: Let_def b64_char_facts)
qed (auto dest: dvd_imp_le)

lemma from_b64_bytes: "\<forall>c\<in>set t. is_b64 c \<Longrightarrow> bytes (from_b64 t)"
proof (induction t rule: from_b64.induct)
  case (1 p q r s cs)
  then have v: "b64_val p < 64" "b64_val q < 64" "b64_val r < 64" "b64_val s < 64"
    by (auto intro: b64_char_facts)
  from 1 b64_ungroup [OF v] show ?case by (simp add: Let_def)
qed auto

lemma to_b64_chars: "bytes bs \<Longrightarrow> c \<in> set (to_b64 bs) \<Longrightarrow> is_b64 c"
proof (induction bs rule: to_b64.induct)
  case (1 a b d bs)
  then have abd: "a < 256" "b < 256" "d < 256" by auto
  have d: "is_b64 (b64_digit (a div 4))" "is_b64 (b64_digit ((a mod 4) * 16 + b div 16))"
    "is_b64 (b64_digit ((b mod 16) * 4 + d div 64))" "is_b64 (b64_digit (d mod 64))"
    by (rule b64_digit_facts(2), rule b64_group [OF abd] | simp)+
  have IH: "c \<in> set (to_b64 bs) \<Longrightarrow> is_b64 c" using 1 by simp
  from 1(3) have "c = b64_digit (a div 4) \<or> c = b64_digit ((a mod 4) * 16 + b div 16) \<or>
      c = b64_digit ((b mod 16) * 4 + d div 64) \<or> c = b64_digit (d mod 64) \<or> c \<in> set (to_b64 bs)"
    by (simp only: to_b64.simps list.set insert_iff)
  then show ?case using d IH by (elim disjE) (simp_all only:)
qed auto

lemma length_to_b64: "3 dvd length bs \<Longrightarrow> 3 * length (to_b64 bs) = 4 * length bs"
proof (induction bs rule: to_b64.induct)
  case (1 a b c bs)
  have "3 dvd length bs" using 1(2) by (simp add: dvd_steps)
  with 1 show ?case by simp
qed (auto dest: dvd_imp_le)

lemma length_from_b64: "4 dvd length t \<Longrightarrow> 4 * length (from_b64 t) = 3 * length t"
proof (induction t rule: from_b64.induct)
  case (1 p q r s cs)
  have "4 dvd length cs" using 1(2) by (simp add: dvd_steps)
  with 1 show ?case by (simp add: Let_def)
qed (auto dest: dvd_imp_le)

lemma be_bytes_facts: "length (be_bytes k v) = k \<and> bytes (be_bytes k v)"
  by (induction k v rule: be_bytes.induct) auto

lemma be_value_snoc: "be_value (bs @ [b]) = 256 * be_value bs + b"
  by (simp add: be_value_def)

lemma be_value_bytes: "v < 256 ^ k \<Longrightarrow> be_value (be_bytes k v) = v"
proof (induction k v rule: be_bytes.induct)
  case (2 k v)
  then have "v div 256 < 256 ^ k" by (simp add: less_mult_imp_div_less mult.commute)
  with 2 show ?case by (simp add: be_value_snoc)
qed (simp add: be_value_def)

section \<open>Tokens are read back, and only canonical tokens are accepted\<close>

lemma lower_ascii_idem [simp]: "lower_ascii (lower_ascii c) = lower_ascii c"
proof (cases "65 \<le> c \<and> c \<le> 90")
  case True
  then have "65 \<le> unat c" "unat c \<le> 90" by (simp_all add: word_le_nat_alt)
  then have "unat (c + 32) = unat c + 32" by (simp add: unat_word_ariths)
  with \<open>65 \<le> unat c\<close> show ?thesis by (simp add: lower_ascii_def word_le_nat_alt)
qed (auto simp: lower_ascii_def)

lemma uuid_patternE:
  assumes "uuid_pattern s"
  obtains a b c d e where "js_split 45 s = [a, b, c, d, e]" "length a = 8" "length b = 4"
    "length c = 4" "length d = 4" "length e = 12" "\<forall>x\<in>set (a @ b @ c @ d @ e). is_hex x"
  using assms by (auto simp: uuid_pattern_def split: list.splits)

lemma formatUuid_split:
  assumes "uuid_pattern s"
  shows "formatUuid (concat (js_split 45 s)) = s"
proof -
  from assms obtain a b c d e where sp: "js_split 45 s = [a, b, c, d, e]" and
    len: "length a = 8" "length b = 4" "length c = 4" "length d = 4" "length e = 12"
    by (rule uuid_patternE)
  from len have "formatUuid (concat (js_split 45 s)) = js_join 45 [a, b, c, d, e]"
    by (simp add: formatUuid_def sp)
  also have "\<dots> = s" using js_join_split [of 45 s] by (simp only: sp)
  finally show ?thesis .
qed

lemma uuid_hex:
  assumes "uuid_pattern s"
  shows "length (concat (js_split 45 s)) = 32 \<and> (\<forall>x\<in>set (concat (js_split 45 s)). is_hex x)"
  using assms by (auto elim!: uuid_patternE)

lemma encodeRevisionE:
  assumes "encodeRevision i v = Inr t"
  obtains "1 \<le> v" "v \<le> MAX_VFS_VERSION" "uuid_pattern (map lower_ascii i)"
    "t = tokenPrefix @ to_b64 (from_hex (concat (js_split 45 (map lower_ascii i))) @ be_bytes 8 (nat v))"
  using assms by (auto simp: encodeRevision_def Let_def split: if_splits)

lemma encodeRevision_lower: "encodeRevision (map lower_ascii i) v = encodeRevision i v"
  by (simp add: encodeRevision_def comp_def)

text \<open>The payload of a token is the 16 bytes of the id followed by the 8 of the version.\<close>

lemma token_payload:
  assumes "uuid_pattern i" and "v < 256 ^ 8"
  defines "bs \<equiv> from_hex (concat (js_split 45 i)) @ be_bytes 8 v"
  shows "length bs = 24" "bytes bs" "to_hex (take 16 bs) = concat (js_split 45 i)"
    "be_value (drop 16 bs) = v"
proof -
  note h = uuid_hex [OF assms(1)]
  have l: "length (from_hex (concat (js_split 45 i))) = 16"
    using h by (simp only: length_from_hex)
  then show "length bs = 24" using be_bytes_facts [of 8 v] by (simp add: bs_def)
  have "bytes (from_hex (concat (js_split 45 i)))"
    using h by (intro from_hex_bytes) (rule conjunct2)
  then show "bytes bs" using be_bytes_facts [of 8 v] by (auto simp: bs_def)
  have "to_hex (from_hex (concat (js_split 45 i))) = concat (js_split 45 i)"
    using h by (intro to_from_hex) simp_all
  then show "to_hex (take 16 bs) = concat (js_split 45 i)"
    using l by (simp add: bs_def)
  show "be_value (drop 16 bs) = v"
    using l be_value_bytes [OF assms(2)] by (simp add: bs_def)
qed

lemma decode_encodeRevision:
  assumes "encodeRevision i v = Inr t"
  shows "decodeRevision t = Inr (map lower_ascii i, v)"
proof -
  let ?i = "map lower_ascii i"
  let ?bs = "from_hex (concat (js_split 45 ?i)) @ be_bytes 8 (nat v)"
  from assms have v: "1 \<le> v" "v \<le> MAX_VFS_VERSION" and u: "uuid_pattern ?i"
    and t: "t = tokenPrefix @ to_b64 ?bs"
    by (auto elim: encodeRevisionE)
  have "nat v < 256 ^ 8" using v by (simp add: MAX_VFS_VERSION_def MAX_SAFE_INTEGER_def)
  note pay = token_payload [OF u this]
  have l: "length (to_b64 ?bs) = 32" using length_to_b64 [of ?bs] pay(1) by simp
  have bsback: "from_b64 (drop 3 t) = ?bs"
    using from_to_b64 [of ?bs] pay(1,2) by (simp add: t tokenPrefix_def)
  have chars: "\<forall>c\<in>set (drop 3 t). is_b64 c"
    using to_b64_chars [OF pay(2)] by (simp add: t tokenPrefix_def)
  have fmt: "formatUuid (to_hex (take 16 ?bs)) = ?i"
    using pay(3) formatUuid_split [OF u] by simp
  have ver: "int (be_value (drop 16 ?bs)) = v" using pay(4) v by simp
  have "take 3 t = tokenPrefix" "length t = 35"
    using l by (simp_all add: t tokenPrefix_def)
  moreover have "encodeRevision ?i v = Inr t" using assms by (simp only: encodeRevision_lower)
  ultimately show ?thesis
    using chars bsback fmt ver u v pay(1) by (simp add: decodeRevision_def Let_def)
qed

lemma decodeRevision_sound:
  assumes "decodeRevision t = Inr (i, v)"
  shows "encodeRevision i v = Inr t \<and> uuid_pattern i \<and> 1 \<le> v \<and> v \<le> MAX_VFS_VERSION"
  using assms by (auto simp: decodeRevision_def Let_def split: if_splits)

lemma hex_not_upper: "is_hex c \<Longrightarrow> lower_ascii c = c"
  by (auto simp: is_hex_def is_digit_def lower_ascii_def word_le_nat_alt)

lemma uuid_pattern_lower:
  assumes "uuid_pattern i"
  shows "map lower_ascii i = i"
proof -
  have sub: "set (js_join 45 ps) \<subseteq> insert 45 (set (concat ps))" for ps :: "jstring list"
    by (induction "45 :: jchar" ps rule: js_join.induct) auto
  have low: "lower_ascii c = c" if "c \<in> set (js_join 45 ps)" "\<forall>x\<in>set (concat ps). is_hex x" for c ps
    using that sub [of ps] hex_not_upper [of c] by (cases "c = 45") (auto simp: lower_ascii_def)
  have "lower_ascii c = c" if "c \<in> set i" for c
    using low [of c "js_split 45 i"] that uuid_hex [OF assms] by simp
  then show ?thesis by (simp add: map_idI)
qed

interpretation rev: codec "\<lambda>(i, v). uuid_pattern i \<and> 1 \<le> v \<and> v \<le> MAX_VFS_VERSION"
    "\<lambda>(i, v). case encodeRevision i v of Inr t \<Rightarrow> t | Inl _ \<Rightarrow> []"
    "\<lambda>t. case decodeRevision t of Inr p \<Rightarrow> Some p | Inl _ \<Rightarrow> None"
proof
  fix x :: "jstring \<times> int"
  assume ok: "case x of (i, v) \<Rightarrow> uuid_pattern i \<and> 1 \<le> v \<and> v \<le> MAX_VFS_VERSION"
  obtain i v where x: "x = (i, v)" by (cases x)
  with ok have "uuid_pattern i" by simp
  then have low: "map lower_ascii i = i" by (rule uuid_pattern_lower)
  have "\<exists>t. encodeRevision i v = Inr t"
    using ok x by (simp add: encodeRevision_def low)
  then obtain t where t: "encodeRevision i v = Inr t" ..
  from decode_encodeRevision [OF t] show "(case decodeRevision (case x of (i, v) \<Rightarrow>
      case encodeRevision i v of Inr t \<Rightarrow> t | Inl _ \<Rightarrow> []) of Inr p \<Rightarrow> Some p | Inl _ \<Rightarrow> None) = Some x"
    by (simp add: x t low)
next
  fix t and x :: "jstring \<times> int"
  assume "(case decodeRevision t of Inr p \<Rightarrow> Some p | Inl _ \<Rightarrow> None) = Some x"
  then obtain i v where x: "x = (i, v)" and "decodeRevision t = Inr (i, v)"
    by (cases x) (auto split: sum.splits)
  with decodeRevision_sound show "(case x of (i, v) \<Rightarrow> uuid_pattern i \<and> 1 \<le> v \<and> v \<le> MAX_VFS_VERSION) \<and>
      (case x of (i, v) \<Rightarrow> case encodeRevision i v of Inr t \<Rightarrow> t | Inl _ \<Rightarrow> []) = t"
    by fastforce
qed

end
