(* ===== verification/Store.thy ===== *)
theory Store
  imports Path Quota Revision
begin

text \<open>
  The database and the transaction every mutation runs in. A table is the list of its rows; a
  repository call is the statement it issues. The constraints are those of
  \<open>persistence/migrations/1788637362016-InitSchema.ts\<close>: a statement that violates one fails and
  the transaction is rolled back. Row locks do not change a value: one namespace's mutations are
  serialised by the lock on its root row (or the SQLite gate), so a transaction is one program.

  \<open>env\<close> holds what the transaction reads from outside: the normaliser, the uuid generator (the
  \<open>n\<close>-th id drawn), the clocks (\<open>CURRENT_TIMESTAMP\<close>, \<open>clock_timestamp()\<close>, \<open>new Date()\<close>), and the
  limits resolved at start-up.
\<close>

record env =
  env_nfc :: "jstring \<Rightarrow> jstring"
  env_uuid :: "nat \<Rightarrow> uuid"
  env_dbNow :: time
  env_clockNow :: time
  env_appNow :: time
  env_defaultMaxTotalLogicalBytes :: int
  env_maxTotalLogicalBytes :: int
  env_defaultMaxFilesPerFolder :: int
  env_maxFilesPerFolder :: int
  env_defaultMaxLiveNodes :: int
  env_maxLiveNodes :: int
  env_maxSyncDeleteNodes :: "jstring option"
  env_maxSyncCopyNodes :: "jstring option"
  env_maxSyncMoveNodes :: "jstring option"
  env_maxRetainedTrashNodes :: "jstring option"

record db =
  nodes :: "node list"
  blobs :: "blob list"
  namespaces :: "namespace list"
  trashes :: "trash list"
  trashEntries :: "trash_entry list"
  snapshotEntries :: "snapshot_entry list"
  feedStates :: "feed_state list"
  events :: "change_event list"

text \<open>\<open>ChangeFeedNodeState\<close>: a node and its path at the time it was captured.\<close>

record feed_node =
  fn_node :: node
  fn_segments :: "jstring list"
  fn_path :: jstring

text \<open>
  \<open>MutationTx\<close>. The \<open>path\<close> the source stores in \<open>changed\<close> is always empty and never read, so a
  changed node maps to its \<open>increment\<close> flag. \<open>x_next\<close> counts the ids drawn so far.
\<close>

record tx =
  x_db :: db
  x_next :: nat
  x_namespaceId :: jstring
  x_rootId :: uuid
  x_changed :: "(uuid \<times> bool) list"
  x_ancestorChainMarked :: "uuid list"
  x_feedBefore :: "(uuid \<times> feed_node) list option"
  x_liveFileByteDelta :: int
  x_logicalByteDelta :: int
  x_liveNodeDelta :: int
  x_trashByteDelta :: int
  x_snapshotByteDelta :: int
  x_folderFileDeltas :: "(uuid \<times> int) list"

type_synonym 'a txp = "(tx, vfs_error, 'a) prog"

abbreviation t_nodes :: "tx \<Rightarrow> node list" where "t_nodes s \<equiv> nodes (x_db s)"
abbreviation t_blobs :: "tx \<Rightarrow> blob list" where "t_blobs s \<equiv> blobs (x_db s)"

section \<open>Statements\<close>

definition setNodes :: "(node list \<Rightarrow> node list) \<Rightarrow> unit txp" where
  "setNodes f = modify (\<lambda>s. s\<lparr> x_db := (x_db s)\<lparr> nodes := f (nodes (x_db s)) \<rparr> \<rparr>)"

definition setBlobs :: "(blob list \<Rightarrow> blob list) \<Rightarrow> unit txp" where
  "setBlobs f = modify (\<lambda>s. s\<lparr> x_db := (x_db s)\<lparr> blobs := f (blobs (x_db s)) \<rparr> \<rparr>)"

definition updateNamespace :: "jstring \<Rightarrow> (namespace \<Rightarrow> namespace) \<Rightarrow> unit txp" where
  "updateNamespace ns f = modify (\<lambda>s. s\<lparr> x_db := (x_db s)\<lparr>
     namespaces := updateRows (\<lambda>n. ns_id n = ns) f (namespaces (x_db s)) \<rparr> \<rparr>)"

definition freshId :: "env \<Rightarrow> uuid txp" where
  "freshId env = bind (gets (\<lambda>s. env_uuid env (x_next s)))
     (\<lambda>i. andThen (modify (\<lambda>s. s\<lparr> x_next := Suc (x_next s) \<rparr>)) (ret i))"

definition findNode :: "jstring \<Rightarrow> uuid \<Rightarrow> node list \<Rightarrow> node option" where
  "findNode ns i tbl = findRow (\<lambda>n. n_id n = i \<and> n_namespaceId n = ns) tbl"

definition findChild :: "jstring \<Rightarrow> uuid \<Rightarrow> jstring \<Rightarrow> node list \<Rightarrow> node option" where
  "findChild ns p name tbl =
     findRow (\<lambda>n. n_namespaceId n = ns \<and> n_parentId n = Some p \<and> n_name n = name) tbl"

definition findRoot :: "jstring \<Rightarrow> node list \<Rightarrow> node option" where
  "findRoot ns tbl = findRow (\<lambda>n. n_namespaceId n = ns \<and> n_parentId n = None) tbl"

definition findNamespace :: "jstring \<Rightarrow> namespace list \<Rightarrow> namespace option" where
  "findNamespace ns tbl = findRow (\<lambda>n. ns_id n = ns) tbl"

definition getNamespaceOrFail :: "jstring \<Rightarrow> namespace txp" where
  "getNamespaceOrFail ns = bind (gets (\<lambda>s. findNamespace ns (namespaces (x_db s))))
     (\<lambda>r. case r of None \<Rightarrow> throw (InternalError ''EntityNotFoundError'') | Some n \<Rightarrow> ret n)"

definition countChildren :: "jstring \<Rightarrow> uuid \<Rightarrow> node list \<Rightarrow> nat" where
  "countChildren ns p tbl = length (filter (\<lambda>n. n_namespaceId n = ns \<and> n_parentId n = Some p) tbl)"

section \<open>Constraints of the node table\<close>

text \<open>
  \<open>CHK_vfs_node_type_content\<close>, \<open>CHK_vfs_node_root_shape\<close>, \<open>UQ_vfs_node_child_name\<close>,
  \<open>UQ_vfs_node_root_per_namespace\<close>, \<open>FK_vfs_node_parent\<close> and \<open>FK_vfs_node_blob\<close>, checked for a
  row \<open>r\<close> against the other rows.
\<close>

definition typeContent :: "node \<Rightarrow> bool" where
  "typeContent r \<longleftrightarrow>
     (case n_type r of
        FILE \<Rightarrow> n_blobId r \<noteq> None \<and> (case n_size r of None \<Rightarrow> False | Some z \<Rightarrow> 0 \<le> z)
      | DIRECTORY \<Rightarrow> n_blobId r = None \<and> n_size r = None)"

definition rootShape :: "node \<Rightarrow> bool" where
  "rootShape r \<longleftrightarrow>
     n_parentId r = None \<and> n_type r = DIRECTORY \<and> n_name r = [] \<or>
     n_parentId r \<noteq> None \<and> n_name r \<noteq> []"

definition checkNodeRow :: "node \<Rightarrow> node list \<Rightarrow> blob list \<Rightarrow> db_constraint option" where
  "checkNodeRow r others bl =
     (if \<exists>q\<in>set others. n_id q = n_id r then Some PrimaryKey
      else if \<not> typeContent r then Some TypeContent
      else if \<not> rootShape r then Some RootShape
      else if n_parentId r = None \<and> (\<exists>q\<in>set others. n_namespaceId q = n_namespaceId r \<and> n_parentId q = None)
        then Some RootPerNamespace
      else if n_parentId r \<noteq> None \<and> (\<exists>q\<in>set others. n_namespaceId q = n_namespaceId r \<and>
             n_parentId q = n_parentId r \<and> n_name q = n_name r) then Some ChildName
      else if n_parentId r \<noteq> None \<and> \<not> (\<exists>q\<in>set (r # others). n_namespaceId q = n_namespaceId r \<and>
             Some (n_id q) = n_parentId r) then Some ParentKey
      else if n_blobId r \<noteq> None \<and> \<not> (\<exists>b\<in>set bl. b_namespaceId b = n_namespaceId r \<and>
             Some (b_id b) = n_blobId r) then Some BlobKey
      else None)"

definition insertNode :: "node \<Rightarrow> unit txp" where
  "insertNode r = bind (gets (\<lambda>s. checkNodeRow r (t_nodes s) (t_blobs s)))
     (\<lambda>c. case c of Some k \<Rightarrow> throw (DbConstraint k) | None \<Rightarrow> setNodes (insertRow r))"

text \<open>
  \<open>nodeRepo.save(nodeRepo.create({...}))\<close>: a generated id, version 1, the column defaults.
\<close>

definition newNode :: "env \<Rightarrow> uuid \<Rightarrow> jstring \<Rightarrow> uuid \<Rightarrow> node_type \<Rightarrow> jstring \<Rightarrow>
    uuid option \<Rightarrow> int option \<Rightarrow> jstring option \<Rightarrow> time option \<Rightarrow> node" where
  "newNode env i ns p ty name bl sz mime ex = \<lparr> n_id = i, n_namespaceId = ns, n_parentId = Some p,
     n_type = ty, n_name = name, n_blobId = bl, n_size = sz, n_mimeType = mime,
     n_childFileCount = 0, n_expiresAt = ex, n_createdAt = env_dbNow env, n_updatedAt = env_dbNow env,
     n_version = 1 \<rparr>"

definition createNode :: "env \<Rightarrow> jstring \<Rightarrow> uuid \<Rightarrow> node_type \<Rightarrow> jstring \<Rightarrow>
    uuid option \<Rightarrow> int option \<Rightarrow> jstring option \<Rightarrow> time option \<Rightarrow> node txp" where
  "createNode env ns p ty name bl sz mime ex =
     bind (freshId env) (\<lambda>i.
       let r = newNode env i ns p ty name bl sz mime ex in
       andThen (insertNode r) (ret r))"

text \<open>
  \<open>nodeRepo.save(entity)\<close> of a loaded entity: nothing is written when no column changed;
  otherwise the row is updated, its version goes up by one and \<open>updated_at\<close> is set. A changed row
  is checked against the same constraints.
\<close>

definition saveNode :: "env \<Rightarrow> node \<Rightarrow> node txp" where
  "saveNode env r = bind (gets (\<lambda>s. s)) (\<lambda>s.
     if findRow (\<lambda>n. n_id n = n_id r) (t_nodes s) = Some r then ret r
     else (let saved = r\<lparr> n_version := n_version r + 1, n_updatedAt := env_dbNow env \<rparr> in
       case checkNodeRow saved (deleteRows (\<lambda>n. n_id n = n_id r) (t_nodes s)) (t_blobs s) of
         Some k \<Rightarrow> throw (DbConstraint k)
       | None \<Rightarrow> andThen (setNodes (updateRows (\<lambda>n. n_id n = n_id r) (\<lambda>_. saved))) (ret saved)))"

text \<open>An \<open>UPDATE\<close> of one row's columns by id, without the version column's own increment.\<close>

definition updateNode :: "uuid \<Rightarrow> (node \<Rightarrow> node) \<Rightarrow> unit txp" where
  "updateNode i f = bind (gets (\<lambda>s. s)) (\<lambda>s.
     case findRow (\<lambda>n. n_id n = i) (t_nodes s) of
       None \<Rightarrow> ret ()
     | Some r \<Rightarrow>
         (case checkNodeRow (f r) (deleteRows (\<lambda>n. n_id n = i) (t_nodes s)) (t_blobs s) of
            Some k \<Rightarrow> throw (DbConstraint k)
          | None \<Rightarrow> setNodes (updateRows (\<lambda>n. n_id n = i) (\<lambda>_. f r))))"

text \<open>\<open>repo.delete(ids)\<close>: a row that would lose its parent refuses the statement.\<close>

definition deleteNodesById :: "uuid list \<Rightarrow> unit txp" where
  "deleteNodesById ids = bind (gets (\<lambda>s. deleteRows (\<lambda>n. n_id n \<in> set ids) (t_nodes s))) (\<lambda>rest.
     if \<exists>n\<in>set rest. \<exists>i\<in>set ids. n_parentId n = Some i then throw (DbConstraint ParentKey)
     else setNodes (\<lambda>_. rest))"

section \<open>Blobs\<close>

text \<open>\<open>blobRepo.save(blobRepo.create({ namespaceId, ...data, referenceCount: 1 }))\<close>.\<close>

definition createBlob :: "env \<Rightarrow> jstring \<Rightarrow> blob_data \<Rightarrow> blob txp" where
  "createBlob env ns d = bind (freshId env) (\<lambda>i. bind (gets t_blobs) (\<lambda>bl.
     if \<exists>b\<in>set bl. b_id b = i then throw (DbConstraint PrimaryKey)
     else if \<exists>b\<in>set bl. b_storageKey b = d_storageKey d then throw (DbConstraint StorageKey)
     else if d_size d < 0 \<or> (case d_encryptionIv d of None \<Rightarrow> False | Some iv \<Rightarrow> length iv \<noteq> 16)
       then throw (DbConstraint BlobShape)
     else (let b = \<lparr> b_id = i, b_namespaceId = ns, b_storageKey = d_storageKey d, b_size = d_size d,
             b_mimeType = d_mimeType d, b_sha256 = d_sha256 d, b_encryptionIv = d_encryptionIv d,
             b_referenceCount = 1, b_zeroSince = None, b_createdAt = env_dbNow env \<rparr> in
           andThen (setBlobs (insertRow b)) (ret b))))"

text \<open>\<open>blobRepo.increment({ id }, 'referenceCount', count)\<close>.\<close>

definition incrementReferenceCount :: "uuid \<Rightarrow> int \<Rightarrow> unit txp" where
  "incrementReferenceCount i count =
     setBlobs (updateRows (\<lambda>b. b_id b = i) (\<lambda>b. b\<lparr> b_referenceCount := b_referenceCount b + count \<rparr>))"

text \<open>
  \<open>BlobRepository.incrementLiveReferenceCount\<close>: a Blob whose count is 0 may already be picked by
  the garbage collector and is never revived.
\<close>

definition incrementLiveReferenceCount :: "jstring \<Rightarrow> uuid \<Rightarrow> int \<Rightarrow> bool txp" where
  "incrementLiveReferenceCount ns i count =
     andThen (throwIf (count < 1 \<or> MAX_SAFE_INTEGER < count) (InternalError ''Invalid Blob reference increment''))
     (bind (gets (\<lambda>s. filter (\<lambda>b. b_id b = i \<and> b_namespaceId b = ns \<and> 0 < b_referenceCount b) (t_blobs s)))
      (\<lambda>hit. andThen
         (setBlobs (updateRows (\<lambda>b. b_id b = i \<and> b_namespaceId b = ns \<and> 0 < b_referenceCount b)
           (\<lambda>b. b\<lparr> b_referenceCount := b_referenceCount b + count \<rparr>)))
         (ret (length hit = 1))))"

text \<open>
  \<open>BlobRepository.decrementReferenceCount\<close>: the statement that reaches 0 also stamps
  \<open>zero_since\<close>; \<open>CHK_blob_reference_count_non_negative\<close> refuses to go below.
\<close>

definition decrementBlob :: "env \<Rightarrow> int \<Rightarrow> blob \<Rightarrow> blob" where
  "decrementBlob env count b = b\<lparr> b_referenceCount := b_referenceCount b - count,
     b_zeroSince := (if b_referenceCount b - count = 0 then Some (env_dbNow env) else b_zeroSince b) \<rparr>"

definition decrementReferenceCount :: "env \<Rightarrow> uuid \<Rightarrow> int \<Rightarrow> unit txp" where
  "decrementReferenceCount env i count = bind (gets t_blobs) (\<lambda>bl.
     if \<exists>b\<in>set bl. b_id b = i \<and> b_referenceCount b - count < 0 then throw (DbConstraint ReferenceCount)
     else setBlobs (updateRows (\<lambda>b. b_id b = i) (decrementBlob env count)))"

end
