(* ===== verification/Uploads.thy ===== *)
theory Uploads
  imports Store
begin

text \<open>
  Resumable uploads: \<open>persistence/vfs-upload-session.repository.ts\<close> with its entities and the
  constraints of the migrations \<open>AddVfsUploadSessions\<close> and \<open>AddUploadPartLease\<close>.

  A session collects numbered parts. A part is reserved and charged before its object is written,
  then stored, and after the session has ended cleaned up and refunded. A reservation whose lease
  has run out moves to a tombstone that stays charged until its late write has settled. The usage
  rows count live sessions and staged bytes, one row for the server and one per namespace.

  Every method that takes the usage locks is serialised by them, so a transaction is one program
  that is rolled back when it throws. The readings of \<open>new Date()\<close> and the random token are
  arguments.
\<close>

section \<open>Rows\<close>

datatype upload_session_state = OPEN | FINALIZING | COMPLETED | CANCELLED | EXPIRED | FAILED

datatype upload_part_state = RESERVED | STORED | CLEANUP | PART_DELETED

datatype condition_type = ABSENT | REVISION

record upload_session =
  ss_id :: uuid
  ss_namespaceId :: jstring
  ss_scope :: jstring
  ss_creationKey :: uuid
  ss_fingerprint :: jstring
  ss_targetPath :: jstring
  ss_sizeBytes :: int
  ss_sha256 :: "jstring option"
  ss_mimeType :: jstring
  ss_fileExpiresInSeconds :: "int option"
  ss_conditionType :: condition_type
  ss_conditionRevision :: "jstring option"
  ss_partSizeBytes :: int
  ss_partCount :: int
  ss_state :: upload_session_state
  ss_leaseExpiresAt :: "time option"
  ss_leaseToken :: "uuid option"
  ss_expiresAt :: time
  ss_creationExpiresAt :: "time option"
  ss_maxExpiresAt :: time
  ss_terminalAt :: "time option"
  ss_responseStatus :: "int option"
  ss_responseBody :: "jstring option"
  ss_requestId :: "jstring option"
  ss_lastCompleteFailureCode :: "jstring option"
  ss_lastCompleteFailureAt :: "time option"
  ss_creationRequestId :: "jstring option"
  ss_createdAt :: time
  ss_updatedAt :: time

record upload_part =
  up_sessionId :: uuid
  up_partIndex :: int
  up_sizeBytes :: int
  up_stagingKey :: jstring
  up_digest :: "jstring option"
  up_encryptionIv :: "jstring option"
  up_state :: upload_part_state
  up_objectDeletedAt :: "time option"
  up_leaseExpiresAt :: "time option"
  up_createdAt :: time
  up_updatedAt :: time

record staging_cleanup =
  sc_stagingKey :: jstring
  sc_sessionId :: uuid
  sc_partIndex :: int
  sc_namespaceId :: jstring
  sc_sizeBytes :: int
  sc_deletedAt :: "time option"
  sc_putSettledAt :: "time option"
  sc_createdAt :: time

record upload_usage =
  us_id :: jstring
  us_namespaceId :: "jstring option"
  us_activeSessions :: int
  us_stagedBytes :: int

record uploads =
  u_namespaces :: "namespace list"
  u_usage :: "upload_usage list"
  u_sessions :: "upload_session list"
  u_parts :: "upload_part list"
  u_tombstones :: "staging_cleanup list"

type_synonym 'a upl = "(uploads, vfs_error, 'a) prog"

section \<open>Statements\<close>

definition affectedRows :: "('r \<Rightarrow> bool) \<Rightarrow> 'r list \<Rightarrow> nat" where
  "affectedRows P rows = length (filter P rows)"

definition updateSessions :: "(upload_session \<Rightarrow> bool) \<Rightarrow> (upload_session \<Rightarrow> upload_session) \<Rightarrow> nat upl" where
  "updateSessions P f u =
     (Inr (affectedRows P (u_sessions u)), u\<lparr> u_sessions := updateRows P f (u_sessions u) \<rparr>)"

definition updateParts :: "(upload_part \<Rightarrow> bool) \<Rightarrow> (upload_part \<Rightarrow> upload_part) \<Rightarrow> nat upl" where
  "updateParts P f u = (Inr (affectedRows P (u_parts u)), u\<lparr> u_parts := updateRows P f (u_parts u) \<rparr>)"

definition deleteParts :: "(upload_part \<Rightarrow> bool) \<Rightarrow> nat upl" where
  "deleteParts P u = (Inr (affectedRows P (u_parts u)), u\<lparr> u_parts := deleteRows P (u_parts u) \<rparr>)"

text \<open>Deleting a session deletes its parts (\<open>ON DELETE CASCADE\<close>).\<close>

definition deleteSessions :: "(upload_session \<Rightarrow> bool) \<Rightarrow> nat upl" where
  "deleteSessions P u = (Inr (affectedRows P (u_sessions u)),
     u\<lparr> u_sessions := deleteRows P (u_sessions u),
        u_parts := deleteRows (\<lambda>p. \<exists>s\<in>set (u_sessions u). P s \<and> ss_id s = up_sessionId p) (u_parts u) \<rparr>)"

definition updateTombstone :: "jstring \<Rightarrow> (staging_cleanup \<Rightarrow> staging_cleanup) \<Rightarrow> unit upl" where
  "updateTombstone k f = modify (\<lambda>u. u\<lparr> u_tombstones := updateRows (\<lambda>t. sc_stagingKey t = k) f (u_tombstones u) \<rparr>)"

definition deleteTombstone :: "jstring \<Rightarrow> unit upl" where
  "deleteTombstone k = modify (\<lambda>u. u\<lparr> u_tombstones := deleteRows (\<lambda>t. sc_stagingKey t = k) (u_tombstones u) \<rparr>)"

definition insertSession :: "upload_session \<Rightarrow> unit upl" where
  "insertSession r =
     bind (gets u_sessions) (\<lambda>tbl.
     bind (gets u_namespaces) (\<lambda>nss.
     andThen (throwIf (\<exists>q\<in>set tbl. ss_id q = ss_id r) (DbConstraint PrimaryKey))
     (andThen (throwIf (\<exists>q\<in>set tbl. ss_namespaceId q = ss_namespaceId r \<and> ss_scope q = ss_scope r \<and>
         ss_creationKey q = ss_creationKey r) (DbConstraint SessionCreation))
     (andThen (throwIf (findNamespace (ss_namespaceId r) nss = None) (DbConstraint UsageNamespace))
     (andThen (throwIf (ss_sizeBytes r < 0 \<or> ss_partSizeBytes r \<le> 0 \<or> ss_partCount r < 0 \<or>
         (ss_conditionType r = ABSENT) \<noteq> (ss_conditionRevision r = None)) (DbConstraint SessionCheck))
     (modify (\<lambda>u. u\<lparr> u_sessions := insertRow r (u_sessions u) \<rparr>)))))))"

definition insertPart :: "upload_part \<Rightarrow> unit upl" where
  "insertPart r =
     bind (gets u_parts) (\<lambda>tbl.
     bind (gets u_sessions) (\<lambda>ss.
     andThen (throwIf (\<exists>q\<in>set tbl. up_sessionId q = up_sessionId r \<and> up_partIndex q = up_partIndex r)
       (DbConstraint PrimaryKey))
     (andThen (throwIf (\<exists>q\<in>set tbl. up_stagingKey q = up_stagingKey r) (DbConstraint StagingKey))
     (andThen (throwIf (\<not> (\<exists>s\<in>set ss. ss_id s = up_sessionId r)) (DbConstraint PartSession))
     (andThen (throwIf (up_sizeBytes r \<le> 0 \<or> up_partIndex r < 0) (DbConstraint PartCheck))
     (modify (\<lambda>u. u\<lparr> u_parts := insertRow r (u_parts u) \<rparr>)))))))"

definition insertTombstone :: "staging_cleanup \<Rightarrow> unit upl" where
  "insertTombstone r =
     bind (gets u_tombstones) (\<lambda>tbl.
     andThen (throwIf (\<exists>q\<in>set tbl. sc_stagingKey q = sc_stagingKey r) (DbConstraint PrimaryKey))
     (modify (\<lambda>u. u\<lparr> u_tombstones := insertRow r (u_tombstones u) \<rparr>)))"

definition findSession :: "uuid \<Rightarrow> upload_session list \<Rightarrow> upload_session option" where
  "findSession i tbl = findRow (\<lambda>s. ss_id s = i) tbl"

definition findSessionIn :: "jstring \<Rightarrow> uuid \<Rightarrow> upload_session list \<Rightarrow> upload_session option" where
  "findSessionIn ns i tbl = findRow (\<lambda>s. ss_id s = i \<and> ss_namespaceId s = ns) tbl"

definition findPart :: "uuid \<Rightarrow> int \<Rightarrow> upload_part list \<Rightarrow> upload_part option" where
  "findPart i k tbl = findRow (\<lambda>p. up_sessionId p = i \<and> up_partIndex p = k) tbl"

definition findTombstone :: "jstring \<Rightarrow> staging_cleanup list \<Rightarrow> staging_cleanup option" where
  "findTombstone k tbl = findRow (\<lambda>t. sc_stagingKey t = k) tbl"

section \<open>Usage rows\<close>

definition usageKey :: "jstring \<Rightarrow> jstring" where
  "usageKey ns = js ''ns:'' @ ns"

definition readLocked :: "jstring \<Rightarrow> upload_usage upl" where
  "readLocked i = bind (gets (\<lambda>u. findRow (\<lambda>r. us_id r = i) (u_usage u)))
     (\<lambda>r. case r of None \<Rightarrow> throw (InternalError ''Upload usage row missing'') | Some r \<Rightarrow> ret r)"

definition ensureUsageRow :: "jstring \<Rightarrow> unit upl" where
  "ensureUsageRow ns =
     bind (gets u_usage) (\<lambda>tbl.
     bind (gets u_namespaces) (\<lambda>nss.
     if \<exists>r\<in>set tbl. us_id r = usageKey ns \<or> us_namespaceId r = Some ns then ret ()
     else andThen (throwIf (findNamespace ns nss = None) (DbConstraint UsageNamespace))
       (modify (\<lambda>u. u\<lparr> u_usage := insertRow \<lparr> us_id = usageKey ns, us_namespaceId = Some ns,
          us_activeSessions = 0, us_stagedBytes = 0 \<rparr> (u_usage u) \<rparr>))))"

definition lockUsage :: "jstring \<Rightarrow> (upload_usage \<times> upload_usage) upl" where
  "lockUsage ns =
     bind (readLocked (js ''global'')) (\<lambda>global.
     andThen (ensureUsageRow ns)
     (bind (readLocked (usageKey ns)) (\<lambda>row. ret (global, row))))"

definition uploadNamespaceActive :: "jstring \<Rightarrow> unit upl" where
  "uploadNamespaceActive ns = bind (gets (\<lambda>u. findNamespace ns (u_namespaces u)))
     (\<lambda>r. case r of None \<Rightarrow> throw (Node (VfsNamespaceNotFoundError ns))
        | Some n \<Rightarrow> throwIf (ns_status n \<noteq> ACTIVE) (Node (VfsNamespaceNotFoundError ns)))"

datatype usage_field = ActiveSessions | StagedBytes

definition addUsage :: "usage_field \<Rightarrow> int \<Rightarrow> upload_usage \<Rightarrow> upload_usage" where
  "addUsage field amount r =
     (case field of
        ActiveSessions \<Rightarrow> r\<lparr> us_activeSessions := us_activeSessions r + amount \<rparr>
      | StagedBytes \<Rightarrow> r\<lparr> us_stagedBytes := us_stagedBytes r + amount \<rparr>)"

definition changeUsageRow :: "usage_field \<Rightarrow> int \<Rightarrow> upload_usage \<Rightarrow> unit upl" where
  "changeUsageRow field amount row =
     bind (gets (\<lambda>u. updateRows (\<lambda>r. us_id r = us_id row) (addUsage field amount) (u_usage u))) (\<lambda>tbl.
     andThen (throwIf (\<exists>r\<in>set tbl. us_id r = us_id row \<and> (us_activeSessions r < 0 \<or> us_stagedBytes r < 0)) (DbConstraint UsageCheck))
     (modify (\<lambda>u. u\<lparr> u_usage := tbl \<rparr>)))"

definition changeUsage :: "upload_usage \<times> upload_usage \<Rightarrow> usage_field \<Rightarrow> int \<Rightarrow> unit upl" where
  "changeUsage rows field amount = forEach [fst rows, snd rows] (changeUsageRow field amount)"

end
