(* ===== verification/UploadPolicy.thy ===== *)
theory UploadPolicy
  imports Uploads
begin

text \<open>
  The policy of resumable uploads: \<open>vfs/upload-session-policy.ts\<close>. Pure decisions on sizes, caps
  and clocks: which files may start a session, how a file is cut into parts, whether a part may be
  staged, and what a status request reports.
\<close>

section \<open>Caps\<close>

record upload_limits =
  ul_maxStagedBytes :: int
  ul_maxActiveSessions :: int

record upload_caps =
  uc_global :: upload_limits
  uc_namespace :: upload_limits

record upload_global_policy =
  ug_limits :: upload_limits
  ug_partSizeBytes :: int
  ug_inactivitySeconds :: int
  ug_maxLifetimeSeconds :: int

record upload_namespace_policy =
  un_limits :: upload_limits
  un_partSizeBytes :: "int option"

record upload_policy =
  upol_global :: upload_global_policy
  upol_namespaces :: "(jstring \<times> upload_namespace_policy) list"

record resolved_upload_policy =
  rp_caps :: upload_caps
  rp_effectiveMaxStagedBytes :: int
  rp_partSizeBytes :: int
  rp_inactivitySeconds :: int
  rp_maxLifetimeSeconds :: int

definition effectiveMaxStagedBytes :: "int \<Rightarrow> int \<Rightarrow> int" where
  "effectiveMaxStagedBytes globalMax namespaceMax = (if globalMax < namespaceMax then globalMax else namespaceMax)"

definition resolveUploadSessionPolicy :: "upload_policy \<Rightarrow> jstring \<Rightarrow> resolved_upload_policy" where
  "resolveUploadSessionPolicy policy ns =
     (let global = upol_global policy;
          namespaceLimits = (case map_of (upol_namespaces policy) ns of None \<Rightarrow> ug_limits global | Some n \<Rightarrow> un_limits n) in
      \<lparr> rp_caps = \<lparr> uc_global = ug_limits global, uc_namespace = namespaceLimits \<rparr>,
        rp_effectiveMaxStagedBytes =
          effectiveMaxStagedBytes (ul_maxStagedBytes (ug_limits global)) (ul_maxStagedBytes namespaceLimits),
        rp_partSizeBytes = (case map_of (upol_namespaces policy) ns of
            None \<Rightarrow> ug_partSizeBytes global
          | Some n \<Rightarrow> (case un_partSizeBytes n of None \<Rightarrow> ug_partSizeBytes global | Some z \<Rightarrow> z)),
        rp_inactivitySeconds = ug_inactivitySeconds global,
        rp_maxLifetimeSeconds = ug_maxLifetimeSeconds global \<rparr>)"

section \<open>A new session\<close>

datatype new_file_assessment = FileAllowed | FileTooLarge int | StagingFileTooLarge int int

definition assessNewUploadFile :: "int \<Rightarrow> int \<Rightarrow> resolved_upload_policy \<Rightarrow> new_file_assessment" where
  "assessNewUploadFile sizeBytes maxFileSizeBytes policy =
     (if maxFileSizeBytes < sizeBytes then FileTooLarge maxFileSizeBytes
      else if rp_effectiveMaxStagedBytes policy < sizeBytes
        then StagingFileTooLarge sizeBytes (rp_effectiveMaxStagedBytes policy)
      else FileAllowed)"

definition MAX_PART_COUNT :: int where "MAX_PART_COUNT = 2147483647"

record session_plan =
  pl_partSizeBytes :: int
  pl_partCount :: int
  pl_expiresAt :: time
  pl_maxExpiresAt :: time

text \<open>BigInt division truncates; sizes are not negative and the part size is positive.\<close>

definition planNewUploadSession :: "int \<Rightarrow> resolved_upload_policy \<Rightarrow> time \<Rightarrow> session_plan option" where
  "planNewUploadSession sizeBytes policy now =
     (let partSize = rp_partSizeBytes policy; partCount = (sizeBytes + partSize - 1) div partSize in
      if MAX_PART_COUNT < partCount then None
      else Some \<lparr> pl_partSizeBytes = partSize, pl_partCount = partCount,
        pl_expiresAt = now + rp_inactivitySeconds policy * 1000,
        pl_maxExpiresAt = now + rp_maxLifetimeSeconds policy * 1000 \<rparr>)"

text \<open>\<open>putPart\<close>: the declared length a part has to have.\<close>

definition expectedPartSize :: "upload_session \<Rightarrow> int \<Rightarrow> int" where
  "expectedPartSize s index =
     (if index = ss_partCount s - 1 then ss_sizeBytes s - index * ss_partSizeBytes s else ss_partSizeBytes s)"

section \<open>Admission of a part\<close>

datatype part_admission = PartAllowed | PartFileTooLarge int int | PartLimit

definition assessUploadPartAdmission :: "int \<Rightarrow> int \<Rightarrow> upload_caps \<Rightarrow> int \<Rightarrow> int \<Rightarrow> part_admission" where
  "assessUploadPartAdmission sizeBytes amountBytes caps globalStagedBytes namespaceStagedBytes =
     (let maxStagedBytes =
            effectiveMaxStagedBytes (ul_maxStagedBytes (uc_global caps)) (ul_maxStagedBytes (uc_namespace caps)) in
      if maxStagedBytes < sizeBytes then PartFileTooLarge sizeBytes maxStagedBytes
      else if ul_maxStagedBytes (uc_global caps) < globalStagedBytes + amountBytes then PartLimit
      else if ul_maxStagedBytes (uc_namespace caps) < namespaceStagedBytes + amountBytes then PartLimit
      else PartAllowed)"

section \<open>Diagnosis\<close>

datatype staging_status = PARTS_STORED | PARTS_IN_PROGRESS | FILE_TOO_LARGE | WITHIN_LIMIT

record staging_diagnosis =
  dg_expired :: bool
  dg_staging :: "(int \<times> staging_status) option"

definition sessionExpired :: "upload_session \<Rightarrow> time \<Rightarrow> bool" where
  "sessionExpired s now \<longleftrightarrow> ss_state s = OPEN \<and> (ss_expiresAt s \<le> now \<or> ss_maxExpiresAt s \<le> now)"

text \<open>The two sets the loop over the parts builds.\<close>

definition storedIndexes :: "upload_session \<Rightarrow> upload_part list \<Rightarrow> int list" where
  "storedIndexes s parts = js_set (map up_partIndex (filter (\<lambda>p.
     up_partIndex p \<le> MAX_SAFE_INTEGER \<and> 0 \<le> up_partIndex p \<and> up_partIndex p < ss_partCount s \<and> up_state p = STORED) parts))"

definition reservedIndexes :: "upload_session \<Rightarrow> upload_part list \<Rightarrow> time \<Rightarrow> int list" where
  "reservedIndexes s parts now = js_set (map up_partIndex (filter (\<lambda>p.
     up_partIndex p \<le> MAX_SAFE_INTEGER \<and> 0 \<le> up_partIndex p \<and> up_partIndex p < ss_partCount s \<and> up_state p = RESERVED \<and>
     (case up_leaseExpiresAt p of None \<Rightarrow> False | Some z \<Rightarrow> now < z)) parts))"

definition diagnoseUploadSessionStaging ::
    "upload_session \<Rightarrow> upload_part list \<Rightarrow> resolved_upload_policy option \<Rightarrow> time \<Rightarrow> staging_diagnosis" where
  "diagnoseUploadSessionStaging s parts policy now =
     (let expired = sessionExpired s now in
      case policy of
        None \<Rightarrow> \<lparr> dg_expired = expired, dg_staging = None \<rparr>
      | Some pol \<Rightarrow>
          if ss_state s \<noteq> OPEN \<or> expired then \<lparr> dg_expired = expired, dg_staging = None \<rparr>
          else
            (let stored = storedIndexes s parts; reserved = reservedIndexes s parts now;
                 reservedMissing = length (filter (\<lambda>i. i \<notin> set stored) reserved);
                 status = (if int (length stored) = ss_partCount s then PARTS_STORED
                   else if int (length stored + reservedMissing) = ss_partCount s then PARTS_IN_PROGRESS
                   else if rp_effectiveMaxStagedBytes pol < ss_sizeBytes s then FILE_TOO_LARGE
                   else WITHIN_LIMIT) in
             \<lparr> dg_expired = expired, dg_staging = Some (rp_effectiveMaxStagedBytes pol, status) \<rparr>))"

section \<open>The parts cover the file\<close>

lemma planNewUploadSession_SomeD:
  assumes "planNewUploadSession z pol now = Some pl"
  shows "pl_partSizeBytes pl = rp_partSizeBytes pol" "pl_partCount pl = (z + rp_partSizeBytes pol - 1) div rp_partSizeBytes pol"
    "pl_partCount pl \<le> MAX_PART_COUNT" "pl_expiresAt pl = now + rp_inactivitySeconds pol * 1000"
    "pl_maxExpiresAt pl = now + rp_maxLifetimeSeconds pol * 1000"
  using assms by (auto simp: planNewUploadSession_def Let_def split: if_splits)

lemma ceil_div_bounds:
  assumes "0 < (k :: int)" and "c = (z + k - 1) div k"
  shows "(c - 1) * k < z" "z \<le> c * k"
proof -
  have "z + k - 1 = c * k + (z + k - 1) mod k" using assms(2) by simp
  moreover have "0 \<le> (z + k - 1) mod k" "(z + k - 1) mod k < k" using assms(1) by simp_all
  ultimately show "(c - 1) * k < z" "z \<le> c * k" by (simp_all add: algebra_simps)
qed

text \<open>Every part is positive and not larger than the part size.\<close>

lemma expectedPartSize_bounds:
  assumes "0 < ss_partSizeBytes s" and "ss_partCount s = (ss_sizeBytes s + ss_partSizeBytes s - 1) div ss_partSizeBytes s"
    and "0 \<le> i" and "i < ss_partCount s"
  shows "0 < expectedPartSize s i \<and> expectedPartSize s i \<le> ss_partSizeBytes s"
proof (cases "i = ss_partCount s - 1")
  case True
  then have c: "ss_partCount s = i + 1" by simp
  show ?thesis using ceil_div_bounds [OF assms(1,2)] by (simp add: expectedPartSize_def c algebra_simps)
qed (simp add: expectedPartSize_def assms(1))


lemma expectedPartSize_sum:
  assumes "0 < ss_partSizeBytes s" and "0 < ss_sizeBytes s"
    and "ss_partCount s = (ss_sizeBytes s + ss_partSizeBytes s - 1) div ss_partSizeBytes s"
  shows "(\<Sum>i<nat (ss_partCount s). expectedPartSize s (int i)) = ss_sizeBytes s"
proof -
  have "0 < ss_partCount s"
    using ceil_div_bounds [OF assms(1,3)] assms(1,2) by (smt (verit) mult_nonpos_nonneg)
  then obtain n where n: "nat (ss_partCount s) = Suc n" "ss_partCount s = int n + 1"
    using that [of "nat (ss_partCount s - 1)"] by simp
  have "(\<Sum>i<n. expectedPartSize s (int i)) = (\<Sum>i<n. ss_partSizeBytes s)"
    by (intro sum.cong) (simp_all add: expectedPartSize_def n(2))
  then show ?thesis using n by (simp add: expectedPartSize_def)
qed

section \<open>Diagnosis is faithful\<close>

lemma storedIndexes_set:
  "set (storedIndexes s parts) = {i. \<exists>p\<in>set parts. up_partIndex p = i \<and> up_state p = STORED \<and> 0 \<le> i \<and> i < ss_partCount s \<and> i \<le> MAX_SAFE_INTEGER}"
  by (auto simp: storedIndexes_def)

text \<open>The set of stored indexes has as many elements as there are parts exactly when none is missing.\<close>

lemma storedIndexes_complete:
  assumes "0 \<le> ss_partCount s" and "ss_partCount s \<le> MAX_PART_COUNT"
  shows "int (length (storedIndexes s parts)) = ss_partCount s \<longleftrightarrow>
    (\<forall>i. 0 \<le> i \<and> i < ss_partCount s \<longrightarrow> (\<exists>p\<in>set parts. up_partIndex p = i \<and> up_state p = STORED))"
proof -
  let ?S = "set (storedIndexes s parts)"
  have len: "length (storedIndexes s parts) = card ?S"
    by (rule distinct_card [symmetric]) (simp add: storedIndexes_def)
  have sub: "?S \<subseteq> {0..<ss_partCount s}" by (auto simp: storedIndexes_set)
  have "int (card ?S) = ss_partCount s \<longleftrightarrow> ?S = {0..<ss_partCount s}"
  proof
    assume "int (card ?S) = ss_partCount s"
    then have "card ?S = card {0..<ss_partCount s}" using assms(1) by simp
    then show "?S = {0..<ss_partCount s}" using sub by (intro card_subset_eq) simp_all
  qed (simp add: assms(1))
  also have "\<dots> \<longleftrightarrow> (\<forall>i. 0 \<le> i \<and> i < ss_partCount s \<longrightarrow> (\<exists>p\<in>set parts. up_partIndex p = i \<and> up_state p = STORED))"
    using assms(2) by (auto simp: storedIndexes_set MAX_PART_COUNT_def MAX_SAFE_INTEGER_def)
  finally show ?thesis by (simp add: len)
qed

end
