(* ===== verification/UploadSessions.thy ===== *)
theory UploadSessions
  imports UploadPolicy
begin

text \<open>
  The operations of \<open>VfsUploadSessionRepository\<close>, in the order of the source: creation,
  reservation, commit and release of parts, the transitions of a session, recovery of stale leases,
  the clean-up of staging objects and the pruning of terminal sessions.
\<close>

section \<open>Creation\<close>

record create_session_input =
  ci_id :: uuid
  ci_namespaceId :: jstring
  ci_scope :: jstring
  ci_creationKey :: uuid
  ci_fingerprint :: jstring
  ci_targetPath :: jstring
  ci_sizeBytes :: int
  ci_sha256 :: "jstring option"
  ci_mimeType :: jstring
  ci_conditionType :: condition_type
  ci_conditionRevision :: "jstring option"
  ci_fileExpiresInSeconds :: "int option"
  ci_partSizeBytes :: int
  ci_partCount :: int
  ci_now :: time
  ci_expiresAt :: time
  ci_maxExpiresAt :: time
  ci_requestId :: "jstring option"

datatype create_session_result =
  SessionCreated upload_session | SessionReplay upload_session | SessionConflict | SessionLimit

definition newSession :: "create_session_input \<Rightarrow> upload_session" where
  "newSession i =
     \<lparr> ss_id = ci_id i, ss_namespaceId = ci_namespaceId i, ss_scope = ci_scope i, ss_creationKey = ci_creationKey i,
       ss_fingerprint = ci_fingerprint i, ss_targetPath = ci_targetPath i, ss_sizeBytes = ci_sizeBytes i,
       ss_sha256 = ci_sha256 i, ss_mimeType = ci_mimeType i, ss_fileExpiresInSeconds = ci_fileExpiresInSeconds i,
       ss_conditionType = ci_conditionType i, ss_conditionRevision = ci_conditionRevision i,
       ss_partSizeBytes = ci_partSizeBytes i, ss_partCount = ci_partCount i, ss_state = OPEN,
       ss_leaseExpiresAt = None, ss_leaseToken = None, ss_expiresAt = ci_expiresAt i,
       ss_creationExpiresAt = Some (ci_expiresAt i), ss_maxExpiresAt = ci_maxExpiresAt i, ss_terminalAt = None,
       ss_responseStatus = None, ss_responseBody = None, ss_requestId = ci_requestId i,
       ss_lastCompleteFailureCode = None, ss_lastCompleteFailureAt = None, ss_creationRequestId = ci_requestId i,
       ss_createdAt = ci_now i, ss_updatedAt = ci_now i \<rparr>"

definition findByCreationKey :: "jstring \<Rightarrow> jstring \<Rightarrow> uuid \<Rightarrow> upload_session list \<Rightarrow> upload_session option" where
  "findByCreationKey ns scope key tbl =
     findRow (\<lambda>s. ss_namespaceId s = ns \<and> ss_scope s = scope \<and> ss_creationKey s = key) tbl"

definition createSession :: "create_session_input \<Rightarrow> upload_caps \<Rightarrow> create_session_result upl" where
  "createSession input caps = transaction (
     bind (lockUsage (ci_namespaceId input)) (\<lambda>usage.
     andThen (uploadNamespaceActive (ci_namespaceId input))
     (bind (gets (\<lambda>u. findByCreationKey (ci_namespaceId input) (ci_scope input) (ci_creationKey input) (u_sessions u))) (\<lambda>existing.
     case existing of
       Some s \<Rightarrow> ret (if ss_fingerprint s = ci_fingerprint input then SessionReplay s else SessionConflict)
     | None \<Rightarrow>
         if ul_maxActiveSessions (uc_global caps) \<le> us_activeSessions (fst usage) \<or>
            ul_maxActiveSessions (uc_namespace caps) \<le> us_activeSessions (snd usage) then ret SessionLimit
         else andThen (insertSession (newSession input))
           (andThen (changeUsage usage ActiveSessions 1)
           (ret (SessionCreated (newSession input))))))))"

section \<open>Parts\<close>

datatype reserve_part_result =
  PartReserved upload_part | PartExists upload_part | ReserveLimit | ReserveClosed | ReserveInvalid
  | ReserveInProgress | ReserveFileTooLarge

definition sessionClosed :: "upload_session \<Rightarrow> time \<Rightarrow> bool" where
  "sessionClosed s now \<longleftrightarrow> ss_state s \<noteq> OPEN \<or> ss_expiresAt s \<le> now \<or> ss_maxExpiresAt s \<le> now"

text \<open>\<open>lease_expires_at > now\<close>; no lease counts as one that is over.\<close>

definition partLeaseAfter :: "time \<Rightarrow> upload_part \<Rightarrow> bool" where
  "partLeaseAfter now p \<longleftrightarrow> (case up_leaseExpiresAt p of None \<Rightarrow> False | Some z \<Rightarrow> now < z)"

definition newPart :: "uuid \<Rightarrow> int \<Rightarrow> int \<Rightarrow> jstring \<Rightarrow> time \<Rightarrow> int \<Rightarrow> upload_part" where
  "newPart sessionId partIndex sizeBytes stagingKey now leaseSeconds =
     \<lparr> up_sessionId = sessionId, up_partIndex = partIndex, up_sizeBytes = sizeBytes, up_stagingKey = stagingKey,
       up_digest = None, up_encryptionIv = None, up_state = RESERVED, up_objectDeletedAt = None,
       up_leaseExpiresAt = Some (now + leaseSeconds * 1000), up_createdAt = now, up_updatedAt = now \<rparr>"

text \<open>The part of \<open>reservePart\<close> after the locks: the row at the index may only be a confirmed deletion.\<close>

definition admitPart :: "upload_session \<Rightarrow> int \<Rightarrow> int \<Rightarrow> jstring \<Rightarrow> upload_caps \<Rightarrow> upload_usage \<times> upload_usage \<Rightarrow>
    time \<Rightarrow> int \<Rightarrow> reserve_part_result upl" where
  "admitPart current partIndex amount stagingKey caps usage now leaseSeconds =
     bind (gets (\<lambda>u. findPart (ss_id current) partIndex (u_parts u))) (\<lambda>existing.
     bind (gets (\<lambda>u. affectedRows (\<lambda>t. sc_sessionId t = ss_id current \<and> sc_partIndex t = partIndex \<and> sc_deletedAt t = None)
       (u_tombstones u))) (\<lambda>pendingDeletes.
     case (case existing of Some p \<Rightarrow> up_state p \<noteq> PART_DELETED \<or> up_objectDeletedAt p = None | None \<Rightarrow> False) of
       True \<Rightarrow> ret (PartExists (the existing))
     | False \<Rightarrow>
         if pendingDeletes \<noteq> 0 then ret ReserveInProgress
         else if map_option up_stagingKey existing = Some stagingKey then ret ReserveInvalid
         else if ss_partCount current \<le> partIndex then ret ReserveInvalid
         else (case assessUploadPartAdmission (ss_sizeBytes current) amount caps
                 (us_stagedBytes (fst usage)) (us_stagedBytes (snd usage)) of
             PartFileTooLarge _ _ \<Rightarrow> ret ReserveFileTooLarge
           | PartLimit \<Rightarrow> ret ReserveLimit
           | PartAllowed \<Rightarrow>
               andThen (if existing = None then ret 0
                 else deleteParts (\<lambda>p. up_sessionId p = ss_id current \<and> up_partIndex p = partIndex \<and> up_state p = PART_DELETED))
               (andThen (insertPart (newPart (ss_id current) partIndex amount stagingKey now leaseSeconds))
               (andThen (changeUsage usage StagedBytes amount)
               (ret (PartReserved (newPart (ss_id current) partIndex amount stagingKey now leaseSeconds))))))))"

definition reservePart :: "uuid \<Rightarrow> int \<Rightarrow> int \<Rightarrow> jstring \<Rightarrow> upload_caps \<Rightarrow> time \<Rightarrow> int \<Rightarrow> reserve_part_result upl" where
  "reservePart sessionId partIndex amount stagingKey caps now leaseSeconds =
     (if amount \<le> 0 \<or> MAX_SAFE_INTEGER < partIndex \<or> partIndex < 0 then ret ReserveInvalid
      else transaction (
        bind (gets (\<lambda>u. findSession sessionId (u_sessions u))) (\<lambda>session.
        case session of
          None \<Rightarrow> ret ReserveClosed
        | Some s \<Rightarrow>
            if ss_state s \<noteq> OPEN then ret ReserveClosed
            else bind (lockUsage (ss_namespaceId s)) (\<lambda>usage.
              andThen (uploadNamespaceActive (ss_namespaceId s))
              (bind (gets (\<lambda>u. findSession sessionId (u_sessions u))) (\<lambda>current.
              case current of
                None \<Rightarrow> ret ReserveClosed
              | Some c \<Rightarrow>
                  if sessionClosed c now then ret ReserveClosed
                  else admitPart c partIndex amount stagingKey caps usage now leaseSeconds))))))"

text \<open>\<open>now.getTime() + inactivitySeconds * 1000\<close>, never past \<open>maxExpiresAt\<close>.\<close>

definition renewedExpiry :: "upload_session \<Rightarrow> time \<Rightarrow> int \<Rightarrow> time" where
  "renewedExpiry s now inactivitySeconds = min (now + inactivitySeconds * 1000) (ss_maxExpiresAt s)"

definition openAt :: "uuid \<Rightarrow> time \<Rightarrow> upload_session \<Rightarrow> bool" where
  "openAt i now s \<longleftrightarrow> ss_id s = i \<and> ss_state s = OPEN \<and> now < ss_expiresAt s \<and> now < ss_maxExpiresAt s"

definition keyMatches :: "jstring option \<Rightarrow> upload_part \<Rightarrow> bool" where
  "keyMatches stagingKey p \<longleftrightarrow> (case stagingKey of None \<Rightarrow> True | Some k \<Rightarrow> up_stagingKey p = k)"

definition storePart :: "uuid \<Rightarrow> int \<Rightarrow> jstring \<Rightarrow> jstring option \<Rightarrow> jstring option \<Rightarrow> time \<Rightarrow> time \<Rightarrow> time option upl" where
  "storePart sessionId partIndex digest encryptionIv stagingKey now expiresAt =
     bind (updateParts (\<lambda>p. up_sessionId p = sessionId \<and> up_partIndex p = partIndex \<and> up_state p = RESERVED \<and> keyMatches stagingKey p)
       (\<lambda>p. p\<lparr> up_state := STORED, up_digest := Some digest, up_encryptionIv := encryptionIv, up_updatedAt := now \<rparr>)) (\<lambda>affected.
     andThen (throwIf (affected \<noteq> 1) (InternalError ''Upload part changed during commit transaction''))
     (ret (Some expiresAt)))"

text \<open>The part of \<open>commitPart\<close> once the session is known to be open.\<close>

definition commitReserved :: "upload_session \<Rightarrow> int \<Rightarrow> jstring \<Rightarrow> jstring option \<Rightarrow> jstring option \<Rightarrow> int option \<Rightarrow> time \<Rightarrow> time option upl" where
  "commitReserved c partIndex digest encryptionIv stagingKey inactivitySeconds now =
     bind (gets (\<lambda>u. findPart (ss_id c) partIndex (u_parts u))) (\<lambda>part.
     case part of
       None \<Rightarrow> ret None
     | Some p \<Rightarrow>
         if up_state p \<noteq> RESERVED \<or> \<not> partLeaseAfter now p \<or> \<not> keyMatches stagingKey p then ret None
         else (case inactivitySeconds of
             None \<Rightarrow> storePart (ss_id c) partIndex digest encryptionIv stagingKey now (ss_expiresAt c)
           | Some z \<Rightarrow>
               bind (updateSessions (openAt (ss_id c) now)
                 (\<lambda>r. r\<lparr> ss_expiresAt := renewedExpiry c now z, ss_updatedAt := now \<rparr>)) (\<lambda>affected.
               if affected \<noteq> 1 then ret None
               else storePart (ss_id c) partIndex digest encryptionIv stagingKey now (renewedExpiry c now z))))"

definition commitPart :: "uuid \<Rightarrow> int \<Rightarrow> jstring \<Rightarrow> jstring option \<Rightarrow> jstring option \<Rightarrow> int option \<Rightarrow> time \<Rightarrow> time option upl" where
  "commitPart sessionId partIndex digest encryptionIv stagingKey inactivitySeconds now = transaction (
     bind (gets (\<lambda>u. findSession sessionId (u_sessions u))) (\<lambda>session.
     case session of
       None \<Rightarrow> ret None
     | Some s \<Rightarrow>
         andThen (lockUsage (ss_namespaceId s))
         (bind (gets (\<lambda>u. findSession sessionId (u_sessions u))) (\<lambda>current.
         case current of
           None \<Rightarrow> ret None
         | Some c \<Rightarrow>
             if sessionClosed c now then ret None
             else commitReserved c partIndex digest encryptionIv stagingKey inactivitySeconds now))))"

definition renewPartLease :: "uuid \<Rightarrow> int \<Rightarrow> jstring \<Rightarrow> int \<Rightarrow> time \<Rightarrow> bool upl" where
  "renewPartLease sessionId partIndex stagingKey leaseSeconds lockedNow = transaction (
     bind (gets (\<lambda>u. findRow (\<lambda>p. up_sessionId p = sessionId \<and> up_partIndex p = partIndex \<and> up_stagingKey p = stagingKey \<and>
       up_state p = RESERVED) (u_parts u))) (\<lambda>part.
     case part of
       None \<Rightarrow> ret False
     | Some p \<Rightarrow>
         if \<not> partLeaseAfter lockedNow p then ret False
         else bind (updateParts (\<lambda>q. up_sessionId q = sessionId \<and> up_partIndex q = partIndex \<and> up_stagingKey q = stagingKey \<and>
             up_state q = RESERVED \<and> partLeaseAfter lockedNow q)
             (\<lambda>q. q\<lparr> up_leaseExpiresAt := Some (lockedNow + leaseSeconds * 1000), up_updatedAt := lockedNow \<rparr>))
           (\<lambda>affected. ret (affected = 1))))"

definition retireExpiredPartReservation :: "uuid \<Rightarrow> int \<Rightarrow> jstring \<Rightarrow> time \<Rightarrow> bool upl" where
  "retireExpiredPartReservation sessionId partIndex stagingKey lockedNow = transaction (
     bind (gets (\<lambda>u. findSession sessionId (u_sessions u))) (\<lambda>session.
     case session of
       None \<Rightarrow> ret False
     | Some s \<Rightarrow>
         andThen (lockUsage (ss_namespaceId s))
         (bind (gets (\<lambda>u. findRow (\<lambda>p. up_sessionId p = sessionId \<and> up_partIndex p = partIndex \<and> up_stagingKey p = stagingKey)
           (u_parts u))) (\<lambda>part.
         case part of
           None \<Rightarrow> ret False
         | Some p \<Rightarrow>
             if up_state p \<noteq> RESERVED \<or> up_stagingKey p \<noteq> stagingKey \<or> partLeaseAfter lockedNow p
             then ret False
             else bind (deleteParts (\<lambda>q. up_sessionId q = sessionId \<and> up_partIndex q = partIndex \<and> up_stagingKey q = stagingKey \<and>
                 up_state q = RESERVED \<and> \<not> partLeaseAfter lockedNow q)) (\<lambda>removed.
               if removed \<noteq> 1 then ret False
               else andThen (insertTombstone \<lparr> sc_stagingKey = stagingKey, sc_sessionId = sessionId, sc_partIndex = partIndex,
                   sc_namespaceId = ss_namespaceId s, sc_sizeBytes = up_sizeBytes p, sc_deletedAt = None,
                   sc_putSettledAt = None, sc_createdAt = lockedNow \<rparr>) (ret True))))))"

text \<open>\<open>UploadStagingAccountingResult\<close>.\<close>

record accounting =
  ac_applied :: bool
  ac_refundedBytes :: int

abbreviation unapplied :: accounting where "unapplied \<equiv> \<lparr> ac_applied = False, ac_refundedBytes = 0 \<rparr>"

definition releaseTombstone :: "uuid \<Rightarrow> int \<Rightarrow> bool \<Rightarrow> jstring \<Rightarrow> upload_usage \<times> upload_usage \<Rightarrow> time \<Rightarrow> accounting upl" where
  "releaseTombstone sessionId partIndex objectMayExist stagingKey usage now =
     bind (gets (\<lambda>u. findRow (\<lambda>t. sc_stagingKey t = stagingKey \<and> sc_sessionId t = sessionId \<and> sc_partIndex t = partIndex)
       (u_tombstones u))) (\<lambda>old.
     case old of
       None \<Rightarrow> ret unapplied
     | Some t \<Rightarrow>
         if objectMayExist
         then andThen (updateTombstone stagingKey (\<lambda>r. r\<lparr> sc_putSettledAt := Some now \<rparr>))
           (ret \<lparr> ac_applied = True, ac_refundedBytes = 0 \<rparr>)
         else andThen (deleteTombstone stagingKey)
           (andThen (changeUsage usage StagedBytes (- sc_sizeBytes t))
           (ret \<lparr> ac_applied = True, ac_refundedBytes = sc_sizeBytes t \<rparr>)))"

definition releaseDeletedPart :: "upload_part \<Rightarrow> bool \<Rightarrow> jstring option \<Rightarrow> upload_usage \<times> upload_usage \<Rightarrow> time \<Rightarrow> accounting upl" where
  "releaseDeletedPart part objectMayExist stagingKey usage now =
     (case stagingKey of
        None \<Rightarrow> ret unapplied
      | Some k \<Rightarrow>
          if \<not> objectMayExist \<or> up_objectDeletedAt part = None then ret unapplied
          else bind (updateParts (\<lambda>p. up_sessionId p = up_sessionId part \<and> up_partIndex p = up_partIndex part \<and>
                up_stagingKey p = k \<and> up_state p = PART_DELETED)
              (\<lambda>p. p\<lparr> up_state := CLEANUP, up_objectDeletedAt := None, up_updatedAt := now \<rparr>)) (\<lambda>restored.
            if restored \<noteq> 1 then ret unapplied
            else andThen (changeUsage usage StagedBytes (up_sizeBytes part))
              (ret \<lparr> ac_applied = True, ac_refundedBytes = 0 \<rparr>)))"

definition releasePartReservationAccounting :: "uuid \<Rightarrow> int \<Rightarrow> bool \<Rightarrow> jstring option \<Rightarrow> time \<Rightarrow> accounting upl" where
  "releasePartReservationAccounting sessionId partIndex objectMayExist stagingKey now = transaction (
     bind (gets (\<lambda>u. findSession sessionId (u_sessions u))) (\<lambda>session.
     case session of
       None \<Rightarrow> ret unapplied
     | Some s \<Rightarrow>
         bind (lockUsage (ss_namespaceId s)) (\<lambda>usage.
         bind (gets (\<lambda>u. findPart sessionId partIndex (u_parts u))) (\<lambda>part.
         case (case part of None \<Rightarrow> None | Some p \<Rightarrow> if keyMatches stagingKey p then Some p else None) of
           None \<Rightarrow> (case stagingKey of
               None \<Rightarrow> ret unapplied
             | Some k \<Rightarrow> releaseTombstone sessionId partIndex objectMayExist k usage now)
         | Some p \<Rightarrow>
             if up_state p = PART_DELETED then releaseDeletedPart p objectMayExist stagingKey usage now
             else if up_state p \<noteq> RESERVED then ret unapplied
             else if objectMayExist
               then bind (updateParts (\<lambda>q. up_sessionId q = sessionId \<and> up_partIndex q = partIndex)
                   (\<lambda>q. q\<lparr> up_state := CLEANUP, up_updatedAt := now \<rparr>)) (\<lambda>_.
                 ret \<lparr> ac_applied = True, ac_refundedBytes = 0 \<rparr>)
             else bind (deleteParts (\<lambda>q. up_sessionId q = sessionId \<and> up_partIndex q = partIndex)) (\<lambda>_.
               andThen (changeUsage usage StagedBytes (- up_sizeBytes p))
               (ret \<lparr> ac_applied = True, ac_refundedBytes = up_sizeBytes p \<rparr>))))))"

definition releasePartReservation :: "uuid \<Rightarrow> int \<Rightarrow> bool \<Rightarrow> jstring option \<Rightarrow> time \<Rightarrow> bool upl" where
  "releasePartReservation sessionId partIndex objectMayExist stagingKey now =
     bind (releasePartReservationAccounting sessionId partIndex objectMayExist stagingKey now) (\<lambda>a. ret (ac_applied a))"

section \<open>Transitions of a session\<close>

definition endSession :: "upload_session_state \<Rightarrow> time \<Rightarrow> upload_session \<Rightarrow> upload_session" where
  "endSession next now s = s\<lparr> ss_state := next, ss_terminalAt := Some now, ss_leaseExpiresAt := None, ss_leaseToken := None,
     ss_lastCompleteFailureCode := None, ss_lastCompleteFailureAt := None, ss_updatedAt := now \<rparr>"

text \<open>\<open>next\<close> is \<open>CANCELLED\<close> or \<open>EXPIRED\<close>.\<close>

definition claimTerminalTransition :: "jstring \<Rightarrow> uuid \<Rightarrow> upload_session_state \<Rightarrow> time \<Rightarrow> bool upl" where
  "claimTerminalTransition ns sessionId next now = transaction (
     bind (lockUsage ns) (\<lambda>usage.
     bind (gets (\<lambda>u. findSessionIn ns sessionId (u_sessions u))) (\<lambda>session.
     case session of
       None \<Rightarrow> ret False
     | Some s \<Rightarrow>
         if ss_state s \<noteq> OPEN then ret False
         else bind (updateSessions (\<lambda>r. ss_id r = sessionId \<and> ss_namespaceId r = ns \<and> ss_state r = OPEN \<and>
               (next = EXPIRED \<longrightarrow> ss_expiresAt r \<le> now \<or> ss_maxExpiresAt r \<le> now)) (endSession next now)) (\<lambda>affected.
           if affected \<noteq> 1 then ret False
           else andThen (changeUsage usage ActiveSessions (- 1)) (ret True)))))"

datatype claim_result =
  Claimed uuid upload_session "upload_part list" | ClaimNotFound | ClaimIncomplete | ClaimBusy | ClaimClosed
  | ClaimComplete upload_session

definition indexCmp :: "upload_part \<Rightarrow> upload_part \<Rightarrow> int" where
  "indexCmp p q = up_partIndex p - up_partIndex q"

definition storedParts :: "uuid \<Rightarrow> upload_part list \<Rightarrow> upload_part list" where
  "storedParts i tbl = sortBy indexCmp (filter (\<lambda>p. up_sessionId p = i \<and> up_state p = STORED) tbl)"

definition partsComplete :: "upload_session \<Rightarrow> upload_part list \<Rightarrow> bool" where
  "partsComplete s parts \<longleftrightarrow> int (length parts) = ss_partCount s \<and>
     (\<forall>k<length parts. up_partIndex (parts ! k) = int k \<and> up_digest (parts ! k) \<notin> {None, Some []})"

definition claimFinalize :: "jstring \<Rightarrow> uuid \<Rightarrow> int \<Rightarrow> time \<Rightarrow> time \<Rightarrow> uuid \<Rightarrow> claim_result upl" where
  "claimFinalize ns sessionId leaseDurationMs now claimNow token = transaction (
     bind (gets (\<lambda>u. findSessionIn ns sessionId (u_sessions u))) (\<lambda>seen.
     if seen = None then ret ClaimNotFound
     else andThen (lockUsage ns)
       (andThen (uploadNamespaceActive ns)
       (bind (gets (\<lambda>u. findSessionIn ns sessionId (u_sessions u))) (\<lambda>session.
       bind (gets (\<lambda>u. storedParts sessionId (u_parts u))) (\<lambda>parts.
       case session of
         None \<Rightarrow> ret ClaimNotFound
       | Some s \<Rightarrow>
           if ss_state s = COMPLETED \<or> ss_state s = FAILED then ret (ClaimComplete s)
           else if ss_state s = FINALIZING then ret ClaimBusy
           else if sessionClosed s now then ret ClaimClosed
           else if \<not> partsComplete s parts then ret ClaimIncomplete
           else if ss_expiresAt s \<le> claimNow \<or> ss_maxExpiresAt s \<le> claimNow then ret ClaimClosed
           else bind (updateSessions (\<lambda>r. ss_id r = sessionId \<and> ss_namespaceId r = ns \<and> ss_state r = OPEN \<and>
                 claimNow < ss_expiresAt r \<and> claimNow < ss_maxExpiresAt r)
               (\<lambda>r. r\<lparr> ss_state := FINALIZING, ss_leaseToken := Some token, ss_leaseExpiresAt := Some (claimNow + leaseDurationMs),
                  ss_lastCompleteFailureCode := None, ss_lastCompleteFailureAt := None, ss_updatedAt := claimNow \<rparr>)) (\<lambda>claimed.
             ret (if claimed \<noteq> 1 then ClaimBusy else Claimed token s parts))))))))"

definition holdsClaim :: "jstring \<Rightarrow> uuid \<Rightarrow> uuid \<Rightarrow> upload_session \<Rightarrow> bool" where
  "holdsClaim ns sessionId token s \<longleftrightarrow>
     ss_id s = sessionId \<and> ss_namespaceId s = ns \<and> ss_state s = FINALIZING \<and> ss_leaseToken s = Some token"

definition leaseAfter :: "time \<Rightarrow> upload_session \<Rightarrow> bool" where
  "leaseAfter now s \<longleftrightarrow> (case ss_leaseExpiresAt s of None \<Rightarrow> False | Some z \<Rightarrow> now < z)"

definition renewFinalize :: "jstring \<Rightarrow> uuid \<Rightarrow> uuid \<Rightarrow> time \<Rightarrow> time \<Rightarrow> time \<Rightarrow> bool upl" where
  "renewFinalize ns sessionId token now leaseExpiresAt lockedNow = transaction (
     bind (gets (\<lambda>u. findRow (holdsClaim ns sessionId token) (u_sessions u))) (\<lambda>session.
     case session of
       None \<Rightarrow> ret False
     | Some s \<Rightarrow>
         if \<not> leaseAfter lockedNow s then ret False
         else bind (updateSessions (\<lambda>r. holdsClaim ns sessionId token r \<and> leaseAfter lockedNow r)
             (\<lambda>r. r\<lparr> ss_leaseExpiresAt := Some (lockedNow + (leaseExpiresAt - now)), ss_updatedAt := lockedNow \<rparr>))
           (\<lambda>affected. ret (affected = 1))))"

text \<open>\<open>fenceFinalize\<close> and \<open>completeFinalize\<close> run inside the transaction of the node mutation.\<close>

definition fenceFinalize :: "jstring \<Rightarrow> uuid \<Rightarrow> uuid \<Rightarrow> time \<Rightarrow> time \<Rightarrow> time \<Rightarrow> unit upl" where
  "fenceFinalize ns sessionId token now leaseExpiresAt lockedNow =
     andThen (lockUsage ns)
     (bind (updateSessions (\<lambda>r. holdsClaim ns sessionId token r \<and> leaseAfter lockedNow r)
         (\<lambda>r. r\<lparr> ss_leaseExpiresAt := Some (lockedNow + (leaseExpiresAt - now)), ss_updatedAt := lockedNow \<rparr>)) (\<lambda>fenced.
     throwIf (fenced \<noteq> 1) (InternalError ''Upload finalize claim lost'')))"

definition finishSession :: "upload_session_state \<Rightarrow> int \<Rightarrow> jstring \<Rightarrow> jstring \<Rightarrow> time \<Rightarrow> upload_session \<Rightarrow> upload_session" where
  "finishSession next status body requestId now s = (endSession next now s)\<lparr>
     ss_responseStatus := Some status, ss_responseBody := Some body, ss_requestId := Some requestId \<rparr>"

definition completeFinalize :: "jstring \<Rightarrow> uuid \<Rightarrow> uuid \<Rightarrow> int \<Rightarrow> jstring \<Rightarrow> jstring \<Rightarrow> time \<Rightarrow> unit upl" where
  "completeFinalize ns sessionId token status body requestId now =
     bind (updateSessions (holdsClaim ns sessionId token) (finishSession COMPLETED status body requestId now)) (\<lambda>completed.
     andThen (throwIf (completed \<noteq> 1) (InternalError ''Upload finalize claim lost''))
     (bind (lockUsage ns) (\<lambda>usage. changeUsage usage ActiveSessions (- 1))))"

definition failFinalize :: "jstring \<Rightarrow> uuid \<Rightarrow> uuid \<Rightarrow> jstring \<Rightarrow> jstring \<Rightarrow> time \<Rightarrow> bool upl" where
  "failFinalize ns sessionId token body requestId now = transaction (
     bind (lockUsage ns) (\<lambda>usage.
     bind (updateSessions (\<lambda>r. holdsClaim ns sessionId token r \<and> leaseAfter now r) (finishSession FAILED 422 body requestId now)) (\<lambda>failed.
     if failed \<noteq> 1 then ret False
     else andThen (changeUsage usage ActiveSessions (- 1)) (ret True))))"

definition releaseFinalize :: "jstring \<Rightarrow> uuid \<Rightarrow> uuid \<Rightarrow> jstring \<Rightarrow> time \<Rightarrow> time \<Rightarrow> bool upl" where
  "releaseFinalize ns sessionId token code failedAt now =
     bind (updateSessions (holdsClaim ns sessionId token)
       (\<lambda>r. r\<lparr> ss_state := OPEN, ss_leaseToken := None, ss_leaseExpiresAt := None,
          ss_lastCompleteFailureCode := Some code, ss_lastCompleteFailureAt := Some failedAt, ss_updatedAt := now \<rparr>))
     (\<lambda>affected. ret (affected = 1))"

definition renewSession :: "jstring \<Rightarrow> uuid \<Rightarrow> int \<Rightarrow> time \<Rightarrow> time option upl" where
  "renewSession ns sessionId inactivitySeconds lockedNow = transaction (
     andThen (lockUsage ns)
     (andThen (uploadNamespaceActive ns)
     (bind (gets (\<lambda>u. findSessionIn ns sessionId (u_sessions u))) (\<lambda>session.
     case session of
       None \<Rightarrow> ret None
     | Some s \<Rightarrow>
         if sessionClosed s lockedNow then ret None
         else bind (updateSessions (\<lambda>r. ss_namespaceId r = ns \<and> openAt sessionId lockedNow r)
             (\<lambda>r. r\<lparr> ss_expiresAt := renewedExpiry s lockedNow inactivitySeconds, ss_updatedAt := lockedNow \<rparr>)) (\<lambda>affected.
           ret (if affected = 1 then Some (renewedExpiry s lockedNow inactivitySeconds) else None))))))"

section \<open>Recovery and clean-up\<close>

definition sessionIdCmp :: "upload_session \<Rightarrow> upload_session \<Rightarrow> int" where
  "sessionIdCmp a b = js_cmp (ss_id a) (ss_id b)"

definition staleFinalizing :: "time \<Rightarrow> nat \<Rightarrow> upload_session list \<Rightarrow> uuid list" where
  "staleFinalizing now batchSize tbl = map ss_id (take batchSize (sortBy sessionIdCmp
     (filter (\<lambda>s. ss_state s = FINALIZING \<and> (case ss_leaseExpiresAt s of None \<Rightarrow> False | Some z \<Rightarrow> z \<le> now)) tbl)))"

definition reopenStale :: "time \<Rightarrow> uuid list \<Rightarrow> nat upl" where
  "reopenStale now ids = updateSessions (\<lambda>s. ss_id s \<in> set ids \<and> ss_state s = FINALIZING \<and>
       (case ss_leaseExpiresAt s of None \<Rightarrow> False | Some z \<Rightarrow> z \<le> now))
     (\<lambda>s. s\<lparr> ss_state := OPEN, ss_leaseToken := None, ss_leaseExpiresAt := None, ss_updatedAt := now \<rparr>)"

definition recoverStaleFinalizingLeases :: "time \<Rightarrow> nat \<Rightarrow> nat upl" where
  "recoverStaleFinalizingLeases now batchSize =
     bind (gets (\<lambda>u. staleFinalizing now batchSize (u_sessions u))) (\<lambda>ids.
     if ids = [] then ret 0 else reopenStale now ids)"

definition markTombstoneDeletedDetailed :: "jstring \<Rightarrow> time option \<Rightarrow> time \<Rightarrow> accounting upl" where
  "markTombstoneDeletedDetailed stagingKey observedPutSettledAt now = transaction (
     bind (gets (\<lambda>u. findTombstone stagingKey (u_tombstones u))) (\<lambda>old.
     case old of
       None \<Rightarrow> ret unapplied
     | Some t \<Rightarrow>
         bind (lockUsage (sc_namespaceId t)) (\<lambda>usage.
         bind (gets (\<lambda>u. findTombstone stagingKey (u_tombstones u))) (\<lambda>current.
         case current of
           None \<Rightarrow> ret unapplied
         | Some c \<Rightarrow>
             if observedPutSettledAt \<noteq> None \<and> sc_putSettledAt c = observedPutSettledAt
             then andThen (deleteTombstone stagingKey)
               (andThen (changeUsage usage StagedBytes (- sc_sizeBytes c))
               (ret \<lparr> ac_applied = True, ac_refundedBytes = sc_sizeBytes c \<rparr>))
             else andThen (updateTombstone stagingKey (\<lambda>r. r\<lparr> sc_deletedAt := Some now \<rparr>))
               (ret \<lparr> ac_applied = True, ac_refundedBytes = 0 \<rparr>)))))"

text \<open>The part of \<open>markStagingObjectDeletedDetailed\<close> after the session has been read again.\<close>

definition deleteStagedPart :: "upload_session \<Rightarrow> int \<Rightarrow> jstring \<Rightarrow> upload_part_state \<Rightarrow> upload_usage \<times> upload_usage \<Rightarrow> time \<Rightarrow> accounting upl" where
  "deleteStagedPart c partIndex stagingKey expectedState usage now =
     bind (gets (\<lambda>u. findPart (ss_id c) partIndex (u_parts u))) (\<lambda>part.
     case part of
       None \<Rightarrow> ret unapplied
     | Some p \<Rightarrow>
         if up_state p \<noteq> expectedState \<or> up_stagingKey p \<noteq> stagingKey then ret unapplied
         else if ss_state c = OPEN \<and> expectedState \<noteq> CLEANUP then ret unapplied
         else bind (updateParts (\<lambda>q. up_sessionId q = ss_id c \<and> up_partIndex q = partIndex \<and>
               up_stagingKey q = stagingKey \<and> up_state q = expectedState)
             (\<lambda>q. q\<lparr> up_state := PART_DELETED, up_objectDeletedAt := Some now, up_updatedAt := now \<rparr>)) (\<lambda>deleted.
           if deleted \<noteq> 1 then ret unapplied
           else andThen (changeUsage usage StagedBytes (- up_sizeBytes p))
             (ret \<lparr> ac_applied = True, ac_refundedBytes = up_sizeBytes p \<rparr>)))"

definition markStagingObjectDeletedDetailed :: "uuid \<Rightarrow> int \<Rightarrow> jstring \<Rightarrow> upload_part_state \<Rightarrow> time \<Rightarrow> accounting upl" where
  "markStagingObjectDeletedDetailed sessionId partIndex stagingKey expectedState now =
     (if expectedState = PART_DELETED \<or> expectedState = RESERVED then ret unapplied
      else transaction (
        bind (gets (\<lambda>u. findSession sessionId (u_sessions u))) (\<lambda>session.
        case session of
          None \<Rightarrow> ret unapplied
        | Some s \<Rightarrow>
            bind (lockUsage (ss_namespaceId s)) (\<lambda>usage.
            bind (gets (\<lambda>u. findSession sessionId (u_sessions u))) (\<lambda>current.
            case current of
              None \<Rightarrow> ret unapplied
            | Some c \<Rightarrow> deleteStagedPart c partIndex stagingKey expectedState usage now)))))"

definition terminal :: "upload_session_state \<Rightarrow> bool" where
  "terminal st \<longleftrightarrow> st \<in> {COMPLETED, CANCELLED, EXPIRED, FAILED}"

definition terminalBefore :: "time \<Rightarrow> upload_session \<Rightarrow> bool" where
  "terminalBefore before s \<longleftrightarrow> terminal (ss_state s) \<and> (case ss_terminalAt s of None \<Rightarrow> False | Some z \<Rightarrow> z < before)"

definition unencumbered :: "uploads \<Rightarrow> uuid \<Rightarrow> bool" where
  "unencumbered u i \<longleftrightarrow> \<not> (\<exists>p\<in>set (u_parts u). up_sessionId p = i \<and> up_state p \<noteq> PART_DELETED) \<and>
     \<not> (\<exists>t\<in>set (u_tombstones u). sc_sessionId t = i)"

definition terminalCmp :: "upload_session \<Rightarrow> upload_session \<Rightarrow> int" where
  "terminalCmp a b = (if ss_terminalAt a \<noteq> ss_terminalAt b then the (ss_terminalAt a) - the (ss_terminalAt b) else sessionIdCmp a b)"

definition prunableSessions :: "time \<Rightarrow> nat \<Rightarrow> uploads \<Rightarrow> uuid list" where
  "prunableSessions before batchSize u = map ss_id (take batchSize (sortBy terminalCmp
     (filter (\<lambda>s. terminalBefore before s \<and> unencumbered u (ss_id s)) (u_sessions u))))"

text \<open>
  The transaction for one listed session: two statements, and no lock. On PostgreSQL, where the
  isolation level is READ COMMITTED, other transactions may commit between them; SQLite runs one
  transaction at a time.
\<close>

definition countRemaining :: "uuid \<Rightarrow> nat upl" where
  "countRemaining i = gets (\<lambda>u. affectedRows (\<lambda>p. up_sessionId p = i \<and> up_state p \<in> {RESERVED, STORED, CLEANUP}) (u_parts u))"

definition deletePruned :: "time \<Rightarrow> uuid \<Rightarrow> nat upl" where
  "deletePruned before i = deleteSessions (\<lambda>s. ss_id s = i \<and> terminalBefore before s)"

definition pruneSession :: "time \<Rightarrow> uuid \<Rightarrow> nat upl" where
  "pruneSession before i = transaction (
     bind (countRemaining i) (\<lambda>remaining.
     if remaining \<noteq> 0 then ret 0
     else bind (deletePruned before i) (\<lambda>affected. ret (if affected = 1 then 1 else 0))))"

definition pruneTerminalSessions :: "time \<Rightarrow> nat \<Rightarrow> nat upl" where
  "pruneTerminalSessions before batchSize =
     bind (gets (prunableSessions before batchSize)) (\<lambda>ids.
     foldProg (\<lambda>deleted i. bind (pruneSession before i) (\<lambda>n. ret (deleted + n))) 0 ids)"

definition deleteSettledSessions :: "jstring \<Rightarrow> nat upl" where
  "deleteSettledSessions ns = transaction (
     andThen (lockUsage ns)
     (bind (gets (\<lambda>u. unencumbered u)) (\<lambda>free.
     deleteSessions (\<lambda>s. ss_namespaceId s = ns \<and> terminal (ss_state s) \<and> free (ss_id s)))))"

end
