(* ===== verification/UploadBooks.thy ===== *)
theory UploadBooks
  imports UploadSessions
begin

text \<open>
  The books of resumable uploads. \<open>owed\<close> says that the tables are ahead of the usage rows by a
  given number of sessions and bytes of one namespace; statements on the tables and \<open>changeUsage\<close>
  move that difference, and every method ends with a difference of zero. \<open>evolves\<close> bounds what a
  method may do to the rows: it never touches a session that has ended, it reserves parts of live
  sessions only, and it makes tombstones of reservations only.
\<close>

section \<open>Tables with one affected row\<close>

lemma filter_single_weigh_update:
  "filter P rows = [r] \<Longrightarrow> weigh w (updateRows P f rows) = weigh w rows - w r + w (f r)"
proof (induction rows)
  case (Cons q rows)
  show ?case
  proof (cases "P q")
    case True
    with Cons.prems have "q = r" "filter P rows = []" by simp_all
    moreover from this(2) have "weigh w (updateRows P f rows) = weigh w rows"
      by (intro weigh_update_same) (auto simp: filter_empty_conv)
    ultimately show ?thesis using True by (simp add: updateRows_def)
  next
    case False
    with Cons show ?thesis by (simp add: updateRows_def)
  qed
qed simp

lemma affectedRows_one:
  assumes "affectedRows P rows = Suc 0"
  obtains r where "filter P rows = [r]" "r \<in> set rows" "P r"
proof -
  from assms obtain r where r: "filter P rows = [r]" by (auto simp: affectedRows_def length_Suc_conv)
  then have "set (filter P rows) = {r}" by simp
  then have "r \<in> set rows \<and> P r" unfolding set_filter by blast
  with r that show thesis by blast
qed

context keyed_table
begin

lemma filter_by_key:
  assumes "distinct (map key rows)" and "r \<in> set rows"
  shows "filter (\<lambda>q. key q = key r) rows = [r]"
  using assms
proof (induction rows)
  case (Cons q rows)
  show ?case
  proof (cases "q = r")
    case True
    with Cons.prems have "filter (\<lambda>q. key q = key r) rows = []" by (auto simp: filter_empty_conv image_iff)
    with True show ?thesis by simp
  next
    case False
    with Cons show ?thesis by auto
  qed
qed simp

lemma filter_in_key:
  assumes "distinct (map key rows)" and "r \<in> set rows" and "P r" and "\<And>q. P q \<Longrightarrow> key q = key r"
  shows "filter P rows = [r]"
proof -
  have "P q \<longleftrightarrow> key q = key r" if "q \<in> set rows" for q
  proof
    assume "key q = key r"
    with assms(1,2) that have "q = r" by (simp add: distinct_map inj_on_def)
    with assms(3) show "P q" by simp
  qed (rule assms(4))
  then have "filter P rows = filter (\<lambda>q. key q = key r) rows" by (intro filter_cong) simp_all
  then show ?thesis using filter_by_key [OF assms(1,2)] by simp
qed

end

interpretation usage_rows: keyed_table us_id .
interpretation session_rows: keyed_table ss_id .
interpretation part_rows: keyed_table "\<lambda>p. (up_sessionId p, up_partIndex p)" .
interpretation tombstone_rows: keyed_table sc_stagingKey .

section \<open>Usage\<close>

text \<open>The row of the server is scope \<open>None\<close>, that of a namespace \<open>Some ns\<close>.\<close>

definition scopeId :: "jstring option \<Rightarrow> jstring" where
  "scopeId sc = (case sc of None \<Rightarrow> js ''global'' | Some ns \<Rightarrow> usageKey ns)"

lemma scopeId_inj [simp]: "scopeId a = scopeId b \<longleftrightarrow> a = b"
  by (auto simp: scopeId_def usageKey_def js_def split: option.splits)

definition inScope :: "jstring option \<Rightarrow> jstring option \<Rightarrow> bool" where
  "inScope sc ns \<longleftrightarrow> sc = None \<or> ns = sc"

definition usedActive :: "uploads \<Rightarrow> jstring option \<Rightarrow> int" where
  "usedActive u sc = (case findRow (\<lambda>r. us_id r = scopeId sc) (u_usage u) of None \<Rightarrow> 0 | Some r \<Rightarrow> us_activeSessions r)"

definition usedBytes :: "uploads \<Rightarrow> jstring option \<Rightarrow> int" where
  "usedBytes u sc = (case findRow (\<lambda>r. us_id r = scopeId sc) (u_usage u) of None \<Rightarrow> 0 | Some r \<Rightarrow> us_stagedBytes r)"

definition owner :: "upload_session list \<Rightarrow> uuid \<Rightarrow> jstring option" where
  "owner ss i = map_option ss_namespaceId (findSession i ss)"

definition liveSession :: "jstring option \<Rightarrow> upload_session \<Rightarrow> int" where
  "liveSession sc s = (if \<not> terminal (ss_state s) \<and> inScope sc (Some (ss_namespaceId s)) then 1 else 0)"

definition chargedPart :: "upload_session list \<Rightarrow> jstring option \<Rightarrow> upload_part \<Rightarrow> int" where
  "chargedPart ss sc p = (if up_state p \<noteq> PART_DELETED \<and> inScope sc (owner ss (up_sessionId p)) then up_sizeBytes p else 0)"

definition chargedTombstone :: "jstring option \<Rightarrow> staging_cleanup \<Rightarrow> int" where
  "chargedTombstone sc t = (if inScope sc (Some (sc_namespaceId t)) then sc_sizeBytes t else 0)"

definition activeIn :: "uploads \<Rightarrow> jstring option \<Rightarrow> int" where
  "activeIn u sc = weigh (liveSession sc) (u_sessions u)"

definition stagedIn :: "uploads \<Rightarrow> jstring option \<Rightarrow> int" where
  "stagedIn u sc = weigh (chargedPart (u_sessions u) sc) (u_parts u) + weigh (chargedTombstone sc) (u_tombstones u)"

definition keysOk :: "uploads \<Rightarrow> bool" where
  "keysOk u \<longleftrightarrow> distinct (map us_id (u_usage u)) \<and> (\<forall>r\<in>set (u_usage u). us_id r = scopeId (us_namespaceId r)) \<and>
     distinct (map ss_id (u_sessions u)) \<and>
     distinct (map (\<lambda>p. (up_sessionId p, up_partIndex p)) (u_parts u)) \<and>
     distinct (map sc_stagingKey (u_tombstones u)) \<and>
     (\<forall>p\<in>set (u_parts u). owner (u_sessions u) (up_sessionId p) \<noteq> None) \<and>
     (\<forall>t\<in>set (u_tombstones u). owner (u_sessions u) (sc_sessionId t) = Some (sc_namespaceId t))"

text \<open>
  The tables are ahead of the usage rows by \<open>a\<close> sessions and \<open>b\<close> bytes of namespace \<open>ns\<close>. \<open>L\<close> gives, for
  each scope, bytes the usage rows hold beyond the rows that stand for them: what a pruning run has
  dropped while it was charged. It is zero unless a pruning transaction was overtaken.
\<close>

definition owed :: "(jstring option \<Rightarrow> int) \<Rightarrow> uploads \<Rightarrow> jstring \<Rightarrow> int \<Rightarrow> int \<Rightarrow> bool" where
  "owed L u ns a b \<longleftrightarrow> keysOk u \<and>
     (\<forall>sc. activeIn u sc = usedActive u sc + (if inScope sc (Some ns) then a else 0)) \<and>
     (\<forall>sc. stagedIn u sc = usedBytes u sc - L sc + (if inScope sc (Some ns) then b else 0))"

definition booksOk :: "(jstring option \<Rightarrow> int) \<Rightarrow> uploads \<Rightarrow> bool" where
  "booksOk L u \<longleftrightarrow> keysOk u \<and> (\<forall>sc. usedActive u sc = activeIn u sc \<and> usedBytes u sc = stagedIn u sc + L sc)"

text \<open>The usage rows are exact.\<close>

abbreviation uploadsOk :: "uploads \<Rightarrow> bool" where
  "uploadsOk u \<equiv> booksOk (\<lambda>_. 0) u"

lemma owed_zero: "owed L u ns 0 0 \<longleftrightarrow> booksOk L u"
  by (auto simp: owed_def booksOk_def)

section \<open>Locking and changing usage\<close>

definition lockedRows :: "upload_usage \<times> upload_usage \<Rightarrow> jstring \<Rightarrow> uploads \<Rightarrow> bool" where
  "lockedRows rows ns u \<longleftrightarrow> fst rows \<in> set (u_usage u) \<and> snd rows \<in> set (u_usage u) \<and>
     us_id (fst rows) = scopeId None \<and> us_id (snd rows) = scopeId (Some ns)"

lemma ensureUsageRow_run:
  assumes "ensureUsageRow ns u = (Inr x, v)"
  obtains "v = u" | r where "v = u\<lparr> u_usage := insertRow r (u_usage u) \<rparr>"
    "us_id r = scopeId (Some ns)" "us_namespaceId r = Some ns" "us_activeSessions r = 0" "us_stagedBytes r = 0"
    "\<forall>q\<in>set (u_usage u). us_id q \<noteq> scopeId (Some ns) \<and> us_namespaceId q \<noteq> Some ns"
  using assms by (auto simp: ensureUsageRow_def scopeId_def monad_simps split: if_splits)

lemma insert_zero_row:
  assumes "us_id r = scopeId (Some ns)" "us_activeSessions r = 0" "us_stagedBytes r = 0"
    "\<forall>q\<in>set (u_usage u). us_id q \<noteq> scopeId (Some ns)"
  shows "usedActive (u\<lparr> u_usage := insertRow r (u_usage u) \<rparr>) sc = usedActive u sc"
    "usedBytes (u\<lparr> u_usage := insertRow r (u_usage u) \<rparr>) sc = usedBytes u sc"
proof -
  have "findRow (\<lambda>q. us_id q = scopeId sc) [r] = (if sc = Some ns then Some r else None)"
    using assms(1) by (auto simp: findRow_def)
  moreover have "sc = Some ns \<Longrightarrow> findRow (\<lambda>q. us_id q = scopeId sc) (u_usage u) = None"
    using assms(4) by (simp add: findRow_None_iff)
  ultimately show "usedActive (u\<lparr> u_usage := insertRow r (u_usage u) \<rparr>) sc = usedActive u sc"
    "usedBytes (u\<lparr> u_usage := insertRow r (u_usage u) \<rparr>) sc = usedBytes u sc"
    using assms(2,3) by (auto simp: usedActive_def usedBytes_def insertRow_def findRow_append split: option.splits)
qed

lemma readLocked_run:
  assumes "readLocked i u = (Inr r, v)"
  shows "v = u" "r \<in> set (u_usage u)" "us_id r = i"
  using assms by (auto simp: readLocked_def monad_simps dest: findRow_SomeD split: option.splits)

lemma lockUsage_run:
  assumes "lockUsage ns u = (Inr rows, v)" and "keysOk u"
  obtains tbl where "v = u\<lparr> u_usage := tbl \<rparr>" "keysOk v" "lockedRows rows ns v"
    "\<And>sc. usedActive v sc = usedActive u sc" "\<And>sc. usedBytes v sc = usedBytes u sc"
proof -
  from assms(1) obtain g r x u1 where g: "readLocked (js ''global'') u = (Inr g, u)" and e: "ensureUsageRow ns u = (Inr x, v)"
    and r: "readLocked (usageKey ns) v = (Inr r, v)" and rows: "rows = (g, r)"
    unfolding lockUsage_def by (elim monad_elims) (metis readLocked_run(1))
  note gr = readLocked_run [OF g] readLocked_run [OF r]
  show thesis
  proof (rule ensureUsageRow_run [OF e])
    assume "v = u"
    with gr rows assms(2) that [of "u_usage u"] show thesis by (simp add: lockedRows_def scopeId_def)
  next
    fix z
    assume z: "v = u\<lparr> u_usage := insertRow z (u_usage u) \<rparr>" "us_id z = scopeId (Some ns)" "us_namespaceId z = Some ns"
      "us_activeSessions z = 0" "us_stagedBytes z = 0"
      "\<forall>q\<in>set (u_usage u). us_id q \<noteq> scopeId (Some ns) \<and> us_namespaceId q \<noteq> Some ns"
    have "keysOk v" using assms(2) z by (auto simp: keysOk_def usage_rows.distinct_insert)
    moreover have "lockedRows rows ns v" using gr rows z by (auto simp: lockedRows_def scopeId_def)
    moreover have "usedActive v sc = usedActive u sc" "usedBytes v sc = usedBytes u sc" for sc
      using insert_zero_row [OF z(2,4,5)] z by auto
    ultimately show thesis using that z(1) by blast
  qed
qed

text \<open>The locked counters are those of the books.\<close>

lemma lockedRows_values:
  assumes "lockedRows rows ns u" and "keysOk u"
  shows "us_activeSessions (fst rows) = usedActive u None" "us_activeSessions (snd rows) = usedActive u (Some ns)"
    "us_stagedBytes (fst rows) = usedBytes u None" "us_stagedBytes (snd rows) = usedBytes u (Some ns)"
proof -
  have d: "distinct (map us_id (u_usage u))" using assms(2) by (simp add: keysOk_def)
  from assms(1) usage_rows.find_by_key [OF d, of "fst rows"] usage_rows.find_by_key [OF d, of "snd rows"]
  show "us_activeSessions (fst rows) = usedActive u None" "us_activeSessions (snd rows) = usedActive u (Some ns)"
    "us_stagedBytes (fst rows) = usedBytes u None" "us_stagedBytes (snd rows) = usedBytes u (Some ns)"
    by (simp_all add: lockedRows_def usedActive_def usedBytes_def)
qed

lemma findRow_update:
  assumes "\<And>q. P (f q) = P q"
  shows "findRow P (updateRows Q f rows) = map_option (\<lambda>q. if Q q then f q else q) (findRow P rows)"
  using assms by (induction rows) (auto simp: findRow_def updateRows_def)

lemma addUsage_simps [simp]:
  "us_id (addUsage f a r) = us_id r" "us_namespaceId (addUsage f a r) = us_namespaceId r"
  "us_activeSessions (addUsage f a r) = us_activeSessions r + (if f = ActiveSessions then a else 0)"
  "us_stagedBytes (addUsage f a r) = us_stagedBytes r + (if f = StagedBytes then a else 0)"
  by (cases f; simp add: addUsage_def)+

text \<open>One row of usage changes.\<close>

lemma changeUsageRow_run:
  assumes "changeUsageRow f a row u = (Inr x, v)" and "row \<in> set (u_usage u)" and "us_id row = scopeId sc0" and "keysOk u"
  obtains tbl where "v = u\<lparr> u_usage := tbl \<rparr>" "keysOk v" "us_id ` set (u_usage v) = us_id ` set (u_usage u)"
    "\<And>sc. usedActive v sc = usedActive u sc + (if f = ActiveSessions \<and> sc = sc0 then a else 0)"
    "\<And>sc. usedBytes v sc = usedBytes u sc + (if f = StagedBytes \<and> sc = sc0 then a else 0)"
proof -
  let ?tbl = "updateRows (\<lambda>r. us_id r = us_id row) (addUsage f a) (u_usage u)"
  from assms(1) have v: "v = u\<lparr> u_usage := ?tbl \<rparr>"
    by (auto simp: changeUsageRow_def monad_simps)
  have "row \<in> set (u_usage u)" "us_id row = scopeId sc0" by fact+
  then have found: "findRow (\<lambda>r. us_id r = scopeId sc0) (u_usage u) \<noteq> None" by (auto simp: findRow_None_iff)
  have look: "findRow (\<lambda>r. us_id r = scopeId sc) ?tbl =
      map_option (\<lambda>q. if us_id q = us_id row then addUsage f a q else q) (findRow (\<lambda>r. us_id r = scopeId sc) (u_usage u))" for sc
    by (rule findRow_update) simp
  have ids: "us_id ` set ?tbl = us_id ` set (u_usage u)"
    unfolding set_updateRows image_image by (rule image_cong) simp_all
  have k: "keysOk v" using assms(4) usage_rows.distinct_update [of "addUsage f a" "u_usage u"]
    by (auto simp: keysOk_def v set_updateRows)
  have "usedActive v sc = usedActive u sc + (if f = ActiveSessions \<and> sc = sc0 then a else 0) \<and>
    usedBytes v sc = usedBytes u sc + (if f = StagedBytes \<and> sc = sc0 then a else 0)" for sc
  proof (cases "findRow (\<lambda>r. us_id r = scopeId sc) (u_usage u)")
    case None
    with found have "sc \<noteq> sc0" by auto
    with None look [of sc] show ?thesis by (simp add: usedActive_def usedBytes_def v)
  next
    case (Some q)
    from findRow_SomeD [OF this] have "us_id q = us_id row \<longleftrightarrow> sc = sc0" using assms(3) by simp
    with Some look [of sc] show ?thesis by (simp add: usedActive_def usedBytes_def v)
  qed
  with that [of ?tbl] v k ids show thesis by simp
qed

lemma changeUsage_run:
  assumes "changeUsage rows f a u = (Inr x, v)" and "lockedRows rows ns u" and "keysOk u"
  obtains tbl where "v = u\<lparr> u_usage := tbl \<rparr>" "keysOk v"
    "\<And>sc. usedActive v sc = usedActive u sc + (if f = ActiveSessions \<and> inScope sc (Some ns) then a else 0)"
    "\<And>sc. usedBytes v sc = usedBytes u sc + (if f = StagedBytes \<and> inScope sc (Some ns) then a else 0)"
proof -
  from assms(1) obtain x1 u1 x2 where c1: "changeUsageRow f a (fst rows) u = (Inr x1, u1)"
    and c2: "changeUsageRow f a (snd rows) u1 = (Inr x2, v)"
    unfolding changeUsage_def forEach.simps by (elim monad_elims) (simp add: monad_simps)
  have l: "fst rows \<in> set (u_usage u)" "us_id (fst rows) = scopeId None" "snd rows \<in> set (u_usage u)" "us_id (snd rows) = scopeId (Some ns)"
    using assms(2) by (simp_all add: lockedRows_def)
  show thesis
  proof (rule changeUsageRow_run [OF c1 l(1,2) assms(3)])
    fix t1
    assume u1: "u1 = u\<lparr> u_usage := t1 \<rparr>" "keysOk u1" "us_id ` set (u_usage u1) = us_id ` set (u_usage u)"
      "\<And>sc. usedActive u1 sc = usedActive u sc + (if f = ActiveSessions \<and> sc = None then a else 0)"
      "\<And>sc. usedBytes u1 sc = usedBytes u sc + (if f = StagedBytes \<and> sc = None then a else 0)"
    from u1(3) l(3) have "us_id (snd rows) \<in> us_id ` set (u_usage u1)" by auto
    then obtain r2 where r2: "r2 \<in> set (u_usage u1)" "us_id r2 = us_id (snd rows)" by auto
    have c2': "changeUsageRow f a r2 u1 = (Inr x2, v)" using c2 r2(2) by (simp add: changeUsageRow_def)
    have "us_id r2 = scopeId (Some ns)" using r2 l by simp
    show thesis
    proof (rule changeUsageRow_run [OF c2' r2(1) \<open>us_id r2 = scopeId (Some ns)\<close> u1(2)])
      fix t2
      assume v: "v = u1\<lparr> u_usage := t2 \<rparr>" "keysOk v"
        "\<And>sc. usedActive v sc = usedActive u1 sc + (if f = ActiveSessions \<and> sc = Some ns then a else 0)"
        "\<And>sc. usedBytes v sc = usedBytes u1 sc + (if f = StagedBytes \<and> sc = Some ns then a else 0)"
      show thesis
      proof (rule that [of t2])
        show "v = u\<lparr> u_usage := t2 \<rparr>" using v(1) u1(1) by simp
        show "keysOk v" by fact
      qed (use v(3,4) u1(4,5) in \<open>auto simp: inScope_def\<close>)
    qed
  qed
qed


section \<open>How statements move the difference\<close>

lemma lockUsage_owed:
  assumes "lockUsage ns u = (Inr rows, v)" and "owed L u ns' a b"
  obtains tbl where "v = u\<lparr> u_usage := tbl \<rparr>" "owed L v ns' a b" "lockedRows rows ns v"
    "\<And>sc. usedActive v sc = usedActive u sc" "\<And>sc. usedBytes v sc = usedBytes u sc"
proof -
  have "keysOk u" using assms(2) by (simp add: owed_def)
  then show thesis
  proof (rule lockUsage_run [OF assms(1)])
    fix tbl
    assume v: "v = u\<lparr> u_usage := tbl \<rparr>" "keysOk v" "lockedRows rows ns v"
      "\<And>sc. usedActive v sc = usedActive u sc" "\<And>sc. usedBytes v sc = usedBytes u sc"
    have "activeIn v sc = activeIn u sc" "stagedIn v sc = stagedIn u sc" for sc by (simp_all add: v(1) activeIn_def stagedIn_def)
    with assms(2) v have "owed L v ns' a b" by (simp add: owed_def)
    with v that show thesis by blast
  qed
qed

lemma changeUsage_owed:
  assumes "changeUsage rows f c u = (Inr x, v)" and "lockedRows rows ns u" and "owed L u ns a b"
  obtains tbl where "v = u\<lparr> u_usage := tbl \<rparr>"
    "owed L v ns (if f = ActiveSessions then a - c else a) (if f = StagedBytes then b - c else b)"
proof -
  have "keysOk u" using assms(3) by (simp add: owed_def)
  then show thesis
  proof (rule changeUsage_run [OF assms(1,2)])
    fix tbl
    assume v: "v = u\<lparr> u_usage := tbl \<rparr>" "keysOk v"
      "\<And>sc. usedActive v sc = usedActive u sc + (if f = ActiveSessions \<and> inScope sc (Some ns) then c else 0)"
      "\<And>sc. usedBytes v sc = usedBytes u sc + (if f = StagedBytes \<and> inScope sc (Some ns) then c else 0)"
    have "activeIn v sc = activeIn u sc" "stagedIn v sc = stagedIn u sc" for sc by (simp_all add: v(1) activeIn_def stagedIn_def)
    with assms(3) v have "owed L v ns (if f = ActiveSessions then a - c else a) (if f = StagedBytes then b - c else b)"
      by (simp add: owed_def)
    with v(1) that show thesis by blast
  qed
qed

lemma owed_uses [simp]:
  "usedActive (u\<lparr> u_sessions := x \<rparr>) sc = usedActive u sc" "usedBytes (u\<lparr> u_sessions := x \<rparr>) sc = usedBytes u sc"
  "usedActive (u\<lparr> u_parts := y \<rparr>) sc = usedActive u sc" "usedBytes (u\<lparr> u_parts := y \<rparr>) sc = usedBytes u sc"
  "usedActive (u\<lparr> u_tombstones := z \<rparr>) sc = usedActive u sc" "usedBytes (u\<lparr> u_tombstones := z \<rparr>) sc = usedBytes u sc"
  by (simp_all add: usedActive_def usedBytes_def)

lemma owner_update:
  assumes "\<And>s. ss_id (f s) = ss_id s" and "\<And>s. ss_namespaceId (f s) = ss_namespaceId s"
  shows "owner (updateRows P f ss) i = owner ss i"
proof -
  have "findSession i (updateRows P f ss) = map_option (\<lambda>s. if P s then f s else s) (findSession i ss)"
    unfolding findSession_def by (rule findRow_update) (simp add: assms(1))
  then show ?thesis by (cases "findSession i ss") (simp_all add: owner_def assms(2))
qed

lemma owner_insert: "i \<noteq> ss_id s \<Longrightarrow> owner (insertRow s ss) i = owner ss i"
  by (simp add: owner_def findSession_def insertRow_def findRow_append) (auto simp: findRow_def split: option.splits)

lemma owner_delete: "(\<And>s. s \<in> set ss \<Longrightarrow> ss_id s = i \<Longrightarrow> \<not> P s) \<Longrightarrow> owner (deleteRows P ss) i = owner ss i"
  by (induction ss) (auto simp: owner_def findSession_def findRow_def deleteRows_def)

lemma owner_in: "owner ss i = Some ns \<Longrightarrow> \<exists>s\<in>set ss. ss_id s = i \<and> ss_namespaceId s = ns"
  by (auto simp: owner_def findSession_def dest: findRow_SomeD)

lemma owner_absent: "i \<notin> ss_id ` set ss \<Longrightarrow> owner ss i = None"
  by (auto simp: owner_def findSession_def findRow_None_iff image_iff)

lemma owner_session: "distinct (map ss_id ss) \<Longrightarrow> s \<in> set ss \<Longrightarrow> owner ss (ss_id s) = Some (ss_namespaceId s)"
  by (simp add: owner_def findSession_def session_rows.find_by_key)

lemma chargedPart_update:
  assumes "\<And>s. ss_id (f s) = ss_id s" and "\<And>s. ss_namespaceId (f s) = ss_namespaceId s"
  shows "chargedPart (updateRows P f ss) sc = chargedPart ss sc"
  by (rule ext) (simp add: chargedPart_def owner_update [OF assms])

lemma owed_sessions_same:
  assumes "owed L u ns a b" and keep: "\<And>s. ss_id (f s) = ss_id s" "\<And>s. ss_namespaceId (f s) = ss_namespaceId s"
    and same: "\<And>s. s \<in> set (u_sessions u) \<Longrightarrow> P s \<Longrightarrow> terminal (ss_state (f s)) = terminal (ss_state s)"
  shows "owed L (u\<lparr> u_sessions := updateRows P f (u_sessions u) \<rparr>) ns a b"
proof -
  have "weigh (liveSession sc) (updateRows P f (u_sessions u)) = weigh (liveSession sc) (u_sessions u)" for sc
    using same by (intro weigh_update_same) (simp add: liveSession_def keep)
  moreover have "keysOk (u\<lparr> u_sessions := updateRows P f (u_sessions u) \<rparr>)"
    using assms(1) session_rows.distinct_update [OF keep(1)] by (auto simp: owed_def keysOk_def owner_update [OF keep])
  ultimately show ?thesis
    using assms(1) by (simp add: owed_def activeIn_def stagedIn_def chargedPart_update [OF keep])
qed

lemma owed_session_ends:
  assumes "owed L u ns a b" and keep: "\<And>s. ss_id (f s) = ss_id s" "\<And>s. ss_namespaceId (f s) = ss_namespaceId s"
    and one: "filter P (u_sessions u) = [s]" "\<not> terminal (ss_state s)" "terminal (ss_state (f s))" "ss_namespaceId s = ns"
  shows "owed L (u\<lparr> u_sessions := updateRows P f (u_sessions u) \<rparr>) ns (a - 1) b"
proof -
  have "weigh (liveSession sc) (updateRows P f (u_sessions u)) =
      weigh (liveSession sc) (u_sessions u) - (if inScope sc (Some ns) then 1 else 0)" for sc
    using filter_single_weigh_update [OF one(1), of "liveSession sc" f] one by (simp add: liveSession_def)
  moreover have "keysOk (u\<lparr> u_sessions := updateRows P f (u_sessions u) \<rparr>)"
    using assms(1) session_rows.distinct_update [OF keep(1)] by (auto simp: owed_def keysOk_def owner_update [OF keep])
  ultimately show ?thesis
    using assms(1) by (simp add: owed_def activeIn_def stagedIn_def chargedPart_update [OF keep])
qed

lemma owed_session_new:
  assumes "owed L u ns a b" and "ss_id s \<notin> ss_id ` set (u_sessions u)" and "\<not> terminal (ss_state s)" and "ss_namespaceId s = ns"
  shows "owed L (u\<lparr> u_sessions := insertRow s (u_sessions u) \<rparr>) ns (a + 1) b"
proof -
  have k: "keysOk u" using assms(1) by (simp add: owed_def)
  have other: "i \<noteq> ss_id s" if "owner (u_sessions u) i \<noteq> None" for i
    using that assms(2) owner_absent [of i "u_sessions u"] by auto
  have "weigh (chargedPart (insertRow s (u_sessions u)) sc) (u_parts u) = weigh (chargedPart (u_sessions u) sc) (u_parts u)" for sc
    using k other by (intro weigh_cong) (simp add: chargedPart_def keysOk_def owner_insert)
  moreover have "keysOk (u\<lparr> u_sessions := insertRow s (u_sessions u) \<rparr>)"
    using k other assms(2) by (auto simp: keysOk_def session_rows.distinct_insert owner_insert)
  ultimately show ?thesis
    using assms by (simp add: owed_def activeIn_def stagedIn_def table_simps liveSession_def)
qed

definition partCharge :: "upload_part \<Rightarrow> int" where
  "partCharge p = (if up_state p = PART_DELETED then 0 else up_sizeBytes p)"

lemma chargedPart_alt: "owner ss (up_sessionId p) = Some ns \<Longrightarrow> chargedPart ss sc p = (if inScope sc (Some ns) then partCharge p else 0)"
  by (simp add: chargedPart_def partCharge_def)

lemma owed_parts_same:
  assumes "owed L u ns a b" and keep: "\<And>p. up_sessionId (f p) = up_sessionId p" "\<And>p. up_partIndex (f p) = up_partIndex p"
    and same: "\<And>p. p \<in> set (u_parts u) \<Longrightarrow> P p \<Longrightarrow> partCharge (f p) = partCharge p"
  shows "owed L (u\<lparr> u_parts := updateRows P f (u_parts u) \<rparr>) ns a b"
proof -
  have c: "chargedPart ss sc p = (if inScope sc (owner ss (up_sessionId p)) then partCharge p else 0)" for ss sc p
    by (simp add: chargedPart_def partCharge_def)
  have "weigh (chargedPart (u_sessions u) sc) (updateRows P f (u_parts u)) = weigh (chargedPart (u_sessions u) sc) (u_parts u)" for sc
    using same by (intro weigh_update_same) (simp add: c keep)
  moreover have "keysOk (u\<lparr> u_parts := updateRows P f (u_parts u) \<rparr>)"
    using assms(1) part_rows.distinct_update [of f] by (auto simp: owed_def keysOk_def keep set_updateRows)
  ultimately show ?thesis using assms(1) by (simp add: owed_def activeIn_def stagedIn_def)
qed

lemma owed_part_update:
  assumes "owed L u ns a b" and keep: "\<And>p. up_sessionId (f p) = up_sessionId p" "\<And>p. up_partIndex (f p) = up_partIndex p"
    and one: "filter P (u_parts u) = [p]" "owner (u_sessions u) (up_sessionId p) = Some ns"
  shows "owed L (u\<lparr> u_parts := updateRows P f (u_parts u) \<rparr>) ns a (b - partCharge p + partCharge (f p))"
proof -
  have "weigh (chargedPart (u_sessions u) sc) (updateRows P f (u_parts u)) = weigh (chargedPart (u_sessions u) sc) (u_parts u)
      + (if inScope sc (Some ns) then partCharge (f p) - partCharge p else 0)" for sc
    using filter_single_weigh_update [OF one(1), of "chargedPart (u_sessions u) sc" f] one(2) by (simp add: chargedPart_alt keep)
  moreover have "keysOk (u\<lparr> u_parts := updateRows P f (u_parts u) \<rparr>)"
    using assms(1) part_rows.distinct_update [of f] by (auto simp: owed_def keysOk_def keep set_updateRows)
  ultimately show ?thesis using assms(1) by (simp add: owed_def activeIn_def stagedIn_def)
qed

lemma owed_part_delete:
  assumes "owed L u ns a b" and one: "filter P (u_parts u) = [p]" "owner (u_sessions u) (up_sessionId p) = Some ns"
  shows "owed L (u\<lparr> u_parts := deleteRows P (u_parts u) \<rparr>) ns a (b - partCharge p)"
proof -
  have "weigh (chargedPart (u_sessions u) sc) (deleteRows P (u_parts u)) = weigh (chargedPart (u_sessions u) sc) (u_parts u)
      - (if inScope sc (Some ns) then partCharge p else 0)" for sc
    using one by (simp add: table_simps chargedPart_alt)
  moreover have "keysOk (u\<lparr> u_parts := deleteRows P (u_parts u) \<rparr>)"
    using assms(1) by (auto simp: owed_def keysOk_def part_rows.distinct_delete)
  ultimately show ?thesis using assms(1) by (simp add: owed_def activeIn_def stagedIn_def)
qed

lemma owed_part_insert:
  assumes "owed L u ns a b" and "owner (u_sessions u) (up_sessionId p) = Some ns"
    and "(up_sessionId p, up_partIndex p) \<notin> (\<lambda>q. (up_sessionId q, up_partIndex q)) ` set (u_parts u)"
  shows "owed L (u\<lparr> u_parts := insertRow p (u_parts u) \<rparr>) ns a (b + partCharge p)"
proof -
  have "keysOk (u\<lparr> u_parts := insertRow p (u_parts u) \<rparr>)"
    using assms by (auto simp: owed_def keysOk_def part_rows.distinct_insert)
  then show ?thesis using assms(1,2) by (simp add: owed_def activeIn_def stagedIn_def table_simps chargedPart_alt)
qed

lemma owed_tombstone_update:
  assumes "owed L u ns a b" and keep: "\<And>t. sc_stagingKey (f t) = sc_stagingKey t" "\<And>t. sc_sessionId (f t) = sc_sessionId t"
    "\<And>t. sc_namespaceId (f t) = sc_namespaceId t" "\<And>t. sc_sizeBytes (f t) = sc_sizeBytes t"
  shows "owed L (u\<lparr> u_tombstones := updateRows P f (u_tombstones u) \<rparr>) ns a b"
proof -
  have "weigh (chargedTombstone sc) (updateRows P f (u_tombstones u)) = weigh (chargedTombstone sc) (u_tombstones u)" for sc
    by (intro weigh_update_same) (simp add: chargedTombstone_def keep)
  moreover have "keysOk (u\<lparr> u_tombstones := updateRows P f (u_tombstones u) \<rparr>)"
    using assms(1) tombstone_rows.distinct_update [of f] by (auto simp: owed_def keysOk_def keep set_updateRows)
  ultimately show ?thesis using assms(1) by (simp add: owed_def activeIn_def stagedIn_def)
qed

lemma owed_tombstone_delete:
  assumes "owed L u ns a b" and "filter P (u_tombstones u) = [t]" and "sc_namespaceId t = ns"
  shows "owed L (u\<lparr> u_tombstones := deleteRows P (u_tombstones u) \<rparr>) ns a (b - sc_sizeBytes t)"
proof -
  have "keysOk (u\<lparr> u_tombstones := deleteRows P (u_tombstones u) \<rparr>)"
    using assms(1) by (auto simp: owed_def keysOk_def tombstone_rows.distinct_delete)
  then show ?thesis using assms by (simp add: owed_def activeIn_def stagedIn_def table_simps chargedTombstone_def)
qed

lemma owed_tombstone_insert:
  assumes "owed L u ns a b" and "owner (u_sessions u) (sc_sessionId t) = Some ns" and "sc_namespaceId t = ns"
    and "sc_stagingKey t \<notin> sc_stagingKey ` set (u_tombstones u)"
  shows "owed L (u\<lparr> u_tombstones := insertRow t (u_tombstones u) \<rparr>) ns a (b + sc_sizeBytes t)"
proof -
  have "keysOk (u\<lparr> u_tombstones := insertRow t (u_tombstones u) \<rparr>)"
    using assms by (auto simp: owed_def keysOk_def tombstone_rows.distinct_insert)
  then show ?thesis using assms by (simp add: owed_def activeIn_def stagedIn_def table_simps chargedTombstone_def)
qed

text \<open>Sessions that have ended may go once they have no tombstone; the bytes of their parts go with them.\<close>

lemma sessions_delete:
  assumes k: "keysOk u" and run: "deleteSessions P u = (Inr n, v)"
    and ended: "\<And>s. s \<in> set (u_sessions u) \<Longrightarrow> P s \<Longrightarrow> terminal (ss_state s) \<and> (\<forall>t\<in>set (u_tombstones u). sc_sessionId t \<noteq> ss_id s)"
  defines "Q \<equiv> \<lambda>p. \<exists>s\<in>set (u_sessions u). P s \<and> ss_id s = up_sessionId p"
  shows "keysOk v" and "activeIn v sc = activeIn u sc" and "u_usage v = u_usage u"
    and "stagedIn v sc = stagedIn u sc - weigh (chargedPart (u_sessions u) sc) (filter Q (u_parts u))"
proof -
  have v: "v = u\<lparr> u_sessions := deleteRows P (u_sessions u), u_parts := deleteRows Q (u_parts u) \<rparr>"
    using run unfolding deleteSessions_def Q_def by simp
  have own: "owner (deleteRows P (u_sessions u)) i = owner (u_sessions u) i" if "\<not> (\<exists>s\<in>set (u_sessions u). P s \<and> ss_id s = i)" for i
    using that by (intro owner_delete) auto
  have live: "weigh (liveSession sc) (filter P (u_sessions u)) = 0"
    using ended by (intro weigh_zero) (auto simp: liveSession_def)
  have "weigh (chargedPart (deleteRows P (u_sessions u)) sc) (deleteRows Q (u_parts u))
      = weigh (chargedPart (u_sessions u) sc) (deleteRows Q (u_parts u))"
    by (intro weigh_cong) (auto simp: chargedPart_def own Q_def)
  then show "stagedIn v sc = stagedIn u sc - weigh (chargedPart (u_sessions u) sc) (filter Q (u_parts u))" "activeIn v sc = activeIn u sc"
    using live by (simp_all add: v stagedIn_def activeIn_def table_simps)
  have tomb: "\<not> (\<exists>s\<in>set (u_sessions u). P s \<and> ss_id s = sc_sessionId t)" if "t \<in> set (u_tombstones u)" for t
    using that ended by fastforce
  show "keysOk v"
    using k own tomb by (auto simp: v keysOk_def session_rows.distinct_delete part_rows.distinct_delete Q_def)
  show "u_usage v = u_usage u" by (simp add: v)
qed

lemma owed_sessions_delete:
  assumes "owed L u ns a b"
    and free: "\<And>s. s \<in> set (u_sessions u) \<Longrightarrow> P s \<Longrightarrow> terminal (ss_state s) \<and> unencumbered u (ss_id s)"
    and run: "deleteSessions P u = (Inr n, v)"
  shows "owed L v ns a b"
proof -
  let ?Q = "\<lambda>p. \<exists>s\<in>set (u_sessions u). P s \<and> ss_id s = up_sessionId p"
  have k: "keysOk u" using assms(1) by (simp add: owed_def)
  have e: "terminal (ss_state s) \<and> (\<forall>t\<in>set (u_tombstones u). sc_sessionId t \<noteq> ss_id s)" if "s \<in> set (u_sessions u)" "P s" for s
    using free [OF that] by (auto simp: unencumbered_def)
  have gone: "weigh (chargedPart (u_sessions u) sc) (filter ?Q (u_parts u)) = 0" for sc
  proof (rule weigh_zero)
    fix p assume "p \<in> set (filter ?Q (u_parts u))"
    then have "p \<in> set (u_parts u)" "?Q p" by simp_all
    then have "up_state p = PART_DELETED" using free by (auto simp: unencumbered_def)
    then show "chargedPart (u_sessions u) sc p = 0" by (simp add: chargedPart_def)
  qed
  note d = sessions_delete [OF k run e]
  show ?thesis using assms(1) d(1,3) d(2,4) gone by (simp add: owed_def usedActive_def usedBytes_def)
qed

end
