(* ===== verification/UploadMoves.thy ===== *)
theory UploadMoves
  imports UploadBooks
begin

text \<open>
  Every method of the upload repository keeps the books and evolves the rows in the allowed way.
  The contract of a method is the locale \<open>upload_work\<close>; each method interprets it.
\<close>

section \<open>What a method may do to the rows\<close>

definition sessionsEvolve :: "uuid set \<Rightarrow> upload_session list \<Rightarrow> upload_session list \<Rightarrow> bool" where
  "sessionsEvolve born ss ss' \<longleftrightarrow>
     (\<forall>s\<in>set ss. terminal (ss_state s) \<longrightarrow> (\<forall>s'\<in>set ss'. ss_id s' = ss_id s \<longrightarrow> s' = s)) \<and>
     (\<forall>s'\<in>set ss'. ss_id s' \<in> ss_id ` set ss \<union> born)"

definition partsEvolve :: "upload_session list \<Rightarrow> upload_part list \<Rightarrow> upload_part list \<Rightarrow> bool" where
  "partsEvolve ss ps ps' \<longleftrightarrow> (\<forall>p\<in>set ps'. up_state p = RESERVED \<longrightarrow>
     (\<exists>q\<in>set ps. up_sessionId q = up_sessionId p \<and> up_state q = RESERVED) \<or>
     (\<exists>s\<in>set ss. ss_id s = up_sessionId p \<and> \<not> terminal (ss_state s)))"

definition tombstonesEvolve :: "upload_part list \<Rightarrow> staging_cleanup list \<Rightarrow> staging_cleanup list \<Rightarrow> bool" where
  "tombstonesEvolve ps ts ts' \<longleftrightarrow> (\<forall>t\<in>set ts'.
     (\<exists>t'\<in>set ts. sc_sessionId t' = sc_sessionId t) \<or> (\<exists>q\<in>set ps. up_sessionId q = sc_sessionId t \<and> up_state q = RESERVED))"

definition evolves :: "uuid set \<Rightarrow> uploads \<Rightarrow> uploads \<Rightarrow> bool" where
  "evolves born u v \<longleftrightarrow> sessionsEvolve born (u_sessions u) (u_sessions v) \<and>
     partsEvolve (u_sessions u) (u_parts u) (u_parts v) \<and> tombstonesEvolve (u_parts u) (u_tombstones u) (u_tombstones v)"

named_theorems evolve_rules \<open>changes of one table that are allowed\<close>

lemma sessionsEvolve_refl [evolve_rules]: "distinct (map ss_id ss) \<Longrightarrow> sessionsEvolve born ss ss"
  by (auto simp: sessionsEvolve_def distinct_map inj_on_def)

lemma sessionsEvolve_update [evolve_rules]:
  assumes "distinct (map ss_id ss)" and "\<And>s. ss_id (f s) = ss_id s"
    and "\<And>s. s \<in> set ss \<Longrightarrow> P s \<Longrightarrow> \<not> terminal (ss_state s)"
  shows "sessionsEvolve born ss (updateRows P f ss)"
proof -
  have "s' = s" if "s \<in> set ss" "terminal (ss_state s)" "s' \<in> set (updateRows P f ss)" "ss_id s' = ss_id s" for s s'
  proof -
    from that(3) obtain q where q: "q \<in> set ss" "s' = (if P q then f q else q)" by (auto simp: set_updateRows)
    then have "ss_id q = ss_id s" using that(4) assms(2) by (simp split: if_splits)
    then have "q = s" using assms(1) q(1) that(1) by (auto simp: distinct_map inj_on_def)
    with q assms(3) that(1,2) show ?thesis by (auto split: if_splits)
  qed
  moreover have "ss_id s' \<in> ss_id ` set ss" if "s' \<in> set (updateRows P f ss)" for s'
    using that assms(2) by (auto simp: set_updateRows split: if_splits)
  ultimately show ?thesis by (auto simp: sessionsEvolve_def)
qed

lemma sessionsEvolve_insert:
  "distinct (map ss_id ss) \<Longrightarrow> ss_id s \<notin> ss_id ` set ss \<Longrightarrow> sessionsEvolve {ss_id s} ss (insertRow s ss)"
  by (auto simp: sessionsEvolve_def distinct_map inj_on_def)

lemma sessionsEvolve_delete [evolve_rules]: "distinct (map ss_id ss) \<Longrightarrow> sessionsEvolve born ss (deleteRows P ss)"
  by (auto simp: sessionsEvolve_def distinct_map inj_on_def)

lemma partsEvolve_refl [evolve_rules]: "partsEvolve ss ps ps"
  by (auto simp: partsEvolve_def)

lemma partsEvolve_delete [evolve_rules]: "partsEvolve ss ps (deleteRows P ps)"
  by (auto simp: partsEvolve_def)

lemma partsEvolve_update [evolve_rules]:
  assumes "\<And>p. up_sessionId (f p) = up_sessionId p" and "\<And>p. P p \<Longrightarrow> up_state (f p) = RESERVED \<Longrightarrow> up_state p = RESERVED"
  shows "partsEvolve ss ps (updateRows P f ps)"
  using assms by (fastforce simp: partsEvolve_def set_updateRows)

lemma partsEvolve_insert:
  assumes "partsEvolve ss ps ps'" and "s \<in> set ss" and "ss_id s = up_sessionId p" and "\<not> terminal (ss_state s)"
  shows "partsEvolve ss ps (insertRow p ps')"
  using assms by (auto simp: partsEvolve_def)

lemma tombstonesEvolve_refl [evolve_rules]: "tombstonesEvolve ps ts ts"
  by (auto simp: tombstonesEvolve_def)

lemma tombstonesEvolve_delete [evolve_rules]: "tombstonesEvolve ps ts (deleteRows P ts)"
  by (auto simp: tombstonesEvolve_def)

lemma tombstonesEvolve_update [evolve_rules]:
  "(\<And>t. sc_sessionId (f t) = sc_sessionId t) \<Longrightarrow> tombstonesEvolve ps ts (updateRows P f ts)"
  by (auto simp: tombstonesEvolve_def set_updateRows)

lemma tombstonesEvolve_insert:
  "q \<in> set ps \<Longrightarrow> up_sessionId q = sc_sessionId t \<Longrightarrow> up_state q = RESERVED \<Longrightarrow> tombstonesEvolve ps ts (insertRow t ts)"
  by (auto simp: tombstonesEvolve_def)

lemma uploadsOk_keys: "booksOk L u \<Longrightarrow> distinct (map ss_id (u_sessions u))"
  by (simp add: booksOk_def keysOk_def)

lemma evolves_usage: "booksOk L u \<Longrightarrow> evolves born u (u\<lparr> u_usage := t \<rparr>)"
  by (simp add: evolves_def evolve_rules uploadsOk_keys)

section \<open>The contract\<close>

locale upload_work =
  fixes work :: "'a upl" and born :: "uuid set"
  assumes effect: "work u = (Inr x, v) \<Longrightarrow> booksOk L u \<Longrightarrow> booksOk L v \<and> evolves born u v"
begin

text \<open>A method that throws has been rolled back, so a transaction keeps the contract either way.\<close>

lemma transaction_effect:
  assumes "transaction work u = (res, v)" and "booksOk L u"
  shows "booksOk L v \<and> evolves born u v"
proof (cases "work u")
  case (Pair r w)
  show ?thesis
  proof (cases r)
    case (Inl e)
    with Pair assms evolves_usage [OF assms(2), of born "u_usage u"] show ?thesis by (simp add: transaction_def)
  next
    case (Inr x)
    with Pair assms have "work u = (Inr x, v)" by (simp add: transaction_def)
    with assms(2) show ?thesis by (blast dest: effect)
  qed
qed

end

lemma effect_usage:
  assumes "booksOk L u" and "owed L v ns 0 0" and "v = u\<lparr> u_usage := t \<rparr>"
  shows "booksOk L v \<and> evolves born u v"
  using assms evolves_usage by (simp add: owed_zero)

lemma ok_owed: "booksOk L u \<Longrightarrow> owed L u ns 0 0"
  by (simp add: owed_zero)

section \<open>Inversion of the statements\<close>

lemma updateSessions_run: "updateSessions P f u = (Inr n, v) \<Longrightarrow>
    n = affectedRows P (u_sessions u) \<and> v = u\<lparr> u_sessions := updateRows P f (u_sessions u) \<rparr>"
  by (auto simp: updateSessions_def)

lemma updateParts_run: "updateParts P f u = (Inr n, v) \<Longrightarrow>
    n = affectedRows P (u_parts u) \<and> v = u\<lparr> u_parts := updateRows P f (u_parts u) \<rparr>"
  by (auto simp: updateParts_def)

lemma deleteParts_run: "deleteParts P u = (Inr n, v) \<Longrightarrow>
    n = affectedRows P (u_parts u) \<and> v = u\<lparr> u_parts := deleteRows P (u_parts u) \<rparr>"
  by (auto simp: deleteParts_def)

lemma insertSession_run:
  assumes "insertSession r u = (Inr x, v)"
  shows "v = u\<lparr> u_sessions := insertRow r (u_sessions u) \<rparr>" "ss_id r \<notin> ss_id ` set (u_sessions u)"
  using assms by (auto simp: insertSession_def monad_simps)

lemma insertPart_run:
  assumes "insertPart r u = (Inr x, v)"
  shows "v = u\<lparr> u_parts := insertRow r (u_parts u) \<rparr>"
    "(up_sessionId r, up_partIndex r) \<notin> (\<lambda>q. (up_sessionId q, up_partIndex q)) ` set (u_parts u)"
  using assms by (auto simp: insertPart_def monad_simps)

lemma insertTombstone_run:
  assumes "insertTombstone r u = (Inr x, v)"
  shows "v = u\<lparr> u_tombstones := insertRow r (u_tombstones u) \<rparr>" "sc_stagingKey r \<notin> sc_stagingKey ` set (u_tombstones u)"
  using assms by (auto simp: insertTombstone_def monad_simps)

lemma uploadNamespaceActive_run: "uploadNamespaceActive ns u = (Inr x, v) \<Longrightarrow> v = u"
  by (auto simp: uploadNamespaceActive_def monad_simps split: option.splits)

lemma findSession_SomeD: "findSession i ss = Some s \<Longrightarrow> s \<in> set ss \<and> ss_id s = i"
  unfolding findSession_def by (drule findRow_SomeD) blast

lemma findSessionIn_SomeD: "findSessionIn ns i ss = Some s \<Longrightarrow> s \<in> set ss \<and> ss_id s = i \<and> ss_namespaceId s = ns"
  unfolding findSessionIn_def by (drule findRow_SomeD) blast

lemma findPart_SomeD: "findPart i k ps = Some p \<Longrightarrow> p \<in> set ps \<and> up_sessionId p = i \<and> up_partIndex p = k"
  unfolding findPart_def by (drule findRow_SomeD) blast

lemma findTombstone_SomeD: "findTombstone k ts = Some t \<Longrightarrow> t \<in> set ts \<and> sc_stagingKey t = k"
  unfolding findTombstone_def by (drule findRow_SomeD) blast

lemma filter_part:
  assumes "booksOk L u" and "p \<in> set (u_parts u)" and "P p"
    and "\<And>q. P q \<Longrightarrow> up_sessionId q = up_sessionId p \<and> up_partIndex q = up_partIndex p"
  shows "filter P (u_parts u) = [p]"
proof (rule part_rows.filter_in_key [OF _ assms(2), of P])
  show "distinct (map (\<lambda>p. (up_sessionId p, up_partIndex p)) (u_parts u))" using assms(1) by (simp add: booksOk_def keysOk_def)
  fix q assume "P q"
  from assms(4) [OF this] show "(up_sessionId q, up_partIndex q) = (up_sessionId p, up_partIndex p)" by blast
qed (rule assms(3))

lemma filter_tombstone:
  assumes "booksOk L u" and "t \<in> set (u_tombstones u)"
  shows "filter (\<lambda>q. sc_stagingKey q = sc_stagingKey t) (u_tombstones u) = [t]"
  using assms by (intro tombstone_rows.filter_by_key) (auto simp: booksOk_def keysOk_def)

lemma part_owner:
  assumes "booksOk L u" and "s \<in> set (u_sessions u)"
  shows "owner (u_sessions u) (ss_id s) = Some (ss_namespaceId s)"
  using assms by (intro owner_session) (auto simp: booksOk_def keysOk_def)

lemma tombstone_owner:
  assumes "booksOk L u" and "t \<in> set (u_tombstones u)"
  shows "owner (u_sessions u) (sc_sessionId t) = Some (sc_namespaceId t)"
  using assms by (auto simp: booksOk_def keysOk_def)

section \<open>Patterns\<close>

lemma evolves_tables:
  assumes "evolves born u1 v" and "u_sessions u1 = u_sessions u" "u_parts u1 = u_parts u" "u_tombstones u1 = u_tombstones u"
  shows "evolves born u v"
  using assms by (simp add: evolves_def)

text \<open>After the locks the tables are as before, and the books are still right.\<close>

lemma lockUsage_ok:
  assumes "lockUsage ns u = (Inr rows, u1)" and "booksOk L u"
  shows "booksOk L u1" "lockedRows rows ns u1" "u_sessions u1 = u_sessions u" "u_parts u1 = u_parts u"
    "u_tombstones u1 = u_tombstones u" "u_namespaces u1 = u_namespaces u"
    "usedActive u1 sc = usedActive u sc" "usedBytes u1 sc = usedBytes u sc"
  by (rule lockUsage_owed [OF assms(1) ok_owed [OF assms(2)]], simp add: owed_zero)+

lemma locked_effect:
  assumes "lockUsage ns u = (Inr rows, u1)" and "booksOk L u" and "booksOk L v \<and> evolves born u1 v"
  shows "booksOk L v \<and> evolves born u v"
  using assms(3) evolves_tables [of born u1 v u] lockUsage_ok(3,4,5) [OF assms(1,2)] by blast

lemma evolves_refl: "booksOk L u \<Longrightarrow> evolves born u u"
  using evolves_usage [of L u born "u_usage u"] by simp

text \<open>\<open>changeUsage\<close> with the difference settles the books.\<close>

lemma settle_active:
  assumes "changeUsage rows ActiveSessions a u2 = (Inr x, v)" and "lockedRows rows ns u1" and "u_usage u2 = u_usage u1"
    and "owed L u2 ns a 0" and "evolves born u1 u2"
  shows "booksOk L v \<and> evolves born u1 v"
proof -
  have "lockedRows rows ns u2" using assms(2,3) by (simp add: lockedRows_def)
  then obtain t where "v = u2\<lparr> u_usage := t \<rparr>" "owed L v ns 0 0" using changeUsage_owed [OF assms(1) _ assms(4)] by force
  with assms(5) show ?thesis by (simp add: owed_zero evolves_def)
qed

lemma settle_bytes:
  assumes "changeUsage rows StagedBytes b u2 = (Inr x, v)" and "lockedRows rows ns u1" and "u_usage u2 = u_usage u1"
    and "owed L u2 ns 0 b" and "evolves born u1 u2"
  shows "booksOk L v \<and> evolves born u1 v"
proof -
  have "lockedRows rows ns u2" using assms(2,3) by (simp add: lockedRows_def)
  then obtain t where "v = u2\<lparr> u_usage := t \<rparr>" "owed L v ns 0 0" using changeUsage_owed [OF assms(1) _ assms(4)] by force
  with assms(5) show ?thesis by (simp add: owed_zero evolves_def)
qed

text \<open>A live session that stays live.\<close>

lemma touch_sessions:
  assumes "booksOk L u" and "\<And>s. ss_id (f s) = ss_id s" "\<And>s. ss_namespaceId (f s) = ss_namespaceId s"
    and "\<And>s. P s \<Longrightarrow> \<not> terminal (ss_state s) \<and> \<not> terminal (ss_state (f s))"
  shows "booksOk L (u\<lparr> u_sessions := updateRows P f (u_sessions u) \<rparr>) \<and>
    evolves born u (u\<lparr> u_sessions := updateRows P f (u_sessions u) \<rparr>)"
proof
  from assms(4) show "booksOk L (u\<lparr> u_sessions := updateRows P f (u_sessions u) \<rparr>)"
    using owed_sessions_same [OF ok_owed [OF assms(1)] assms(2,3)] unfolding owed_zero by blast
  have "sessionsEvolve born (u_sessions u) (updateRows P f (u_sessions u))"
    using assms(4) by (intro sessionsEvolve_update [OF uploadsOk_keys [OF assms(1)] assms(2)]) blast
  then show "evolves born u (u\<lparr> u_sessions := updateRows P f (u_sessions u) \<rparr>)" by (simp add: evolves_def evolve_rules)
qed

text \<open>A live session that ends.\<close>

lemma end_session:
  assumes "booksOk L u" and "\<And>s. ss_id (f s) = ss_id s" "\<And>s. ss_namespaceId (f s) = ss_namespaceId s"
    and "\<And>s. P s \<Longrightarrow> \<not> terminal (ss_state s) \<and> ss_namespaceId s = ns" and "\<And>s. terminal (ss_state (f s))"
    and "affectedRows P (u_sessions u) = 1"
  shows "owed L (u\<lparr> u_sessions := updateRows P f (u_sessions u) \<rparr>) ns (- 1) 0"
    "evolves born u (u\<lparr> u_sessions := updateRows P f (u_sessions u) \<rparr>)"
proof -
  from assms(6) obtain s where s: "filter P (u_sessions u) = [s]" "P s" by (auto elim: affectedRows_one)
  from s(2) assms(4,5) have "\<not> terminal (ss_state s)" "terminal (ss_state (f s))" "ss_namespaceId s = ns" by blast+
  from owed_session_ends [OF ok_owed [OF assms(1)] assms(2,3) s(1) this]
  show "owed L (u\<lparr> u_sessions := updateRows P f (u_sessions u) \<rparr>) ns (- 1) 0" by simp
  have "sessionsEvolve born (u_sessions u) (updateRows P f (u_sessions u))"
    using assms(4) by (intro sessionsEvolve_update [OF uploadsOk_keys [OF assms(1)] assms(2)]) blast
  then show "evolves born u (u\<lparr> u_sessions := updateRows P f (u_sessions u) \<rparr>)" by (simp add: evolves_def evolve_rules)
qed

lemma endSession_simps [simp]:
  "ss_id (endSession next now s) = ss_id s" "ss_namespaceId (endSession next now s) = ss_namespaceId s"
  "ss_state (endSession next now s) = next"
  by (simp_all add: endSession_def)

lemma finishSession_simps [simp]:
  "ss_id (finishSession next st b r now s) = ss_id s" "ss_namespaceId (finishSession next st b r now s) = ss_namespaceId s"
  "ss_state (finishSession next st b r now s) = next"
  by (simp_all add: finishSession_def)

lemma terminal_simps [simp]:
  "\<not> terminal OPEN" "\<not> terminal FINALIZING" "terminal COMPLETED" "terminal CANCELLED" "terminal EXPIRED" "terminal FAILED"
  by (simp_all add: terminal_def)

text \<open>A key addresses at most one row, so an update that does not affect one row changes nothing.\<close>

context keyed_table
begin

lemma one_or_none:
  assumes "distinct (map key rows)" and "\<And>r. P r \<Longrightarrow> key r = k" and "affectedRows P rows \<noteq> 1"
  shows "\<forall>r\<in>set rows. \<not> P r"
proof (rule ccontr)
  assume "\<not> ?thesis"
  then obtain r where r: "r \<in> set rows" "P r" by blast
  have "key q = key r" if "P q" for q using assms(2) [OF that] assms(2) [OF r(2)] by simp
  then have "filter P rows = [r]" by (rule filter_in_key [of rows r P, OF assms(1) r])
  with assms(3) show False by (simp add: affectedRows_def)
qed

end

lemma updateRows_none: "\<forall>r\<in>set rows. \<not> P r \<Longrightarrow> updateRows P f rows = rows"
  by (induction rows) (auto simp: updateRows_def)

lemma deleteRows_none: "\<forall>r\<in>set rows. \<not> P r \<Longrightarrow> deleteRows P rows = rows"
  by (induction rows) (auto simp: deleteRows_def)

lemma updateSessions_cases:
  assumes "updateSessions P f u = (Inr n, v)" and "booksOk L u" and "\<And>s. P s \<Longrightarrow> ss_id s = i"
  obtains (one) "n = 1" "v = u\<lparr> u_sessions := updateRows P f (u_sessions u) \<rparr>" "affectedRows P (u_sessions u) = 1"
  | (none) "n \<noteq> 1" "v = u"
proof (cases "n = 1")
  case True
  from True updateSessions_run [OF assms(1)] have "v = u\<lparr> u_sessions := updateRows P f (u_sessions u) \<rparr>" "affectedRows P (u_sessions u) = 1"
    by simp_all
  with True show thesis by (rule one)
next
  case False
  with updateSessions_run [OF assms(1)] have "affectedRows P (u_sessions u) \<noteq> 1" by simp
  from session_rows.one_or_none [OF uploadsOk_keys [OF assms(2)] assms(3) this]
  have "updateRows P f (u_sessions u) = u_sessions u" by (rule updateRows_none)
  with updateSessions_run [OF assms(1)] have "v = u" by simp
  with False none show thesis by blast
qed

lemma uploadsOk_part_keys: "booksOk L u \<Longrightarrow> distinct (map (\<lambda>p. (up_sessionId p, up_partIndex p)) (u_parts u))"
  by (simp add: booksOk_def keysOk_def)

lemma updateParts_cases:
  assumes "updateParts P f u = (Inr n, v)" and "booksOk L u" and "\<And>p. P p \<Longrightarrow> up_sessionId p = i \<and> up_partIndex p = k"
  obtains (one) p where "n = 1" "v = u\<lparr> u_parts := updateRows P f (u_parts u) \<rparr>" "filter P (u_parts u) = [p]" "p \<in> set (u_parts u)" "P p"
  | (none) "n \<noteq> 1" "v = u"
proof (cases "n = 1")
  case True
  with updateParts_run [OF assms(1)] have "affectedRows P (u_parts u) = Suc 0" by simp
  then obtain p where "filter P (u_parts u) = [p]" "p \<in> set (u_parts u)" "P p" by (rule affectedRows_one)
  with True updateParts_run [OF assms(1)] one show thesis by blast
next
  case False
  with updateParts_run [OF assms(1)] have "affectedRows P (u_parts u) \<noteq> 1" by simp
  from part_rows.one_or_none [OF uploadsOk_part_keys [OF assms(2)] _ this, of "(i, k)"] assms(3)
  have "updateRows P f (u_parts u) = u_parts u" by (intro updateRows_none) blast
  with updateParts_run [OF assms(1)] have "v = u" by simp
  with False none show thesis by blast
qed

lemma deleteParts_cases:
  assumes "deleteParts P u = (Inr n, v)" and "booksOk L u" and "\<And>p. P p \<Longrightarrow> up_sessionId p = i \<and> up_partIndex p = k"
  obtains (one) p where "n = 1" "v = u\<lparr> u_parts := deleteRows P (u_parts u) \<rparr>" "filter P (u_parts u) = [p]" "p \<in> set (u_parts u)" "P p"
  | (none) "n \<noteq> 1" "v = u"
proof (cases "n = 1")
  case True
  with deleteParts_run [OF assms(1)] have "affectedRows P (u_parts u) = Suc 0" by simp
  then obtain p where "filter P (u_parts u) = [p]" "p \<in> set (u_parts u)" "P p" by (rule affectedRows_one)
  with True deleteParts_run [OF assms(1)] one show thesis by blast
next
  case False
  with deleteParts_run [OF assms(1)] have "affectedRows P (u_parts u) \<noteq> 1" by simp
  from part_rows.one_or_none [OF uploadsOk_part_keys [OF assms(2)] _ this, of "(i, k)"] assms(3)
  have "deleteRows P (u_parts u) = u_parts u" by (intro deleteRows_none) blast
  with deleteParts_run [OF assms(1)] have "v = u" by simp
  with False none show thesis by blast
qed

section \<open>Creation\<close>

lemma createSession_effect:
  assumes run: "createSession input caps u = (Inr x, v)" and ok: "booksOk L u"
  shows "booksOk L v \<and> evolves {ci_id input} u v"
proof -
  let ?ns = "ci_namespaceId input"
  from run obtain usage u1 y u2 where l: "lockUsage ?ns u = (Inr usage, u1)" and act: "uploadNamespaceActive ?ns u1 = (Inr y, u2)"
    and rest: "(case findByCreationKey ?ns (ci_scope input) (ci_creationKey input) (u_sessions u2) of
       Some s \<Rightarrow> ret (if ss_fingerprint s = ci_fingerprint input then SessionReplay s else SessionConflict)
     | None \<Rightarrow>
         if ul_maxActiveSessions (uc_global caps) \<le> us_activeSessions (fst usage) \<or>
            ul_maxActiveSessions (uc_namespace caps) \<le> us_activeSessions (snd usage) then ret SessionLimit
         else andThen (insertSession (newSession input))
           (andThen (changeUsage usage ActiveSessions 1) (ret (SessionCreated (newSession input))))) u2 = (Inr x, v)"
    unfolding createSession_def transaction_ok by (elim monad_elims) blast
  from lockUsage_owed [OF l ok_owed [OF ok]] obtain t where u1: "u1 = u\<lparr> u_usage := t \<rparr>" "owed L u1 ?ns 0 0" "lockedRows usage ?ns u1"
    by blast
  have u2: "u2 = u1" using act by (rule uploadNamespaceActive_run)
  show ?thesis
  proof (cases "v = u1")
    case True
    then show ?thesis using effect_usage [OF ok u1(2,1)] by simp
  next
    case False
    with rest obtain z u3 where ins: "insertSession (newSession input) u1 = (Inr z, u3)"
      and ch: "\<exists>w. changeUsage usage ActiveSessions 1 u3 = (Inr w, v)"
      by (auto simp: u2 monad_simps split: option.splits if_splits)
    note u3 = insertSession_run [OF ins]
    have "owed L u3 ?ns 1 0"
      unfolding u3(1) using owed_session_new [OF u1(2) u3(2)] by (simp add: newSession_def terminal_def)
    moreover have "lockedRows usage ?ns u3" using u1(3) by (simp add: u3(1) lockedRows_def)
    ultimately obtain t' where v: "v = u3\<lparr> u_usage := t' \<rparr>" "owed L v ?ns 0 0"
      using ch changeUsage_owed [of usage ActiveSessions 1 u3 _ v ?ns L 1 0] by (elim exE) auto
    have "evolves {ci_id input} u v"
      using sessionsEvolve_insert [of "u_sessions u" "newSession input"] u3(2) uploadsOk_keys [OF ok]
      by (simp add: v(1) u3(1) u1(1) evolves_def evolve_rules newSession_def)
    with v(2) show ?thesis by (simp add: owed_zero)
  qed
qed


section \<open>Transitions\<close>

lemma claimTerminalTransition_effect:
  assumes run: "claimTerminalTransition ns i next now u = (Inr x, v)" and ok: "booksOk L u" and fin: "terminal next"
  shows "booksOk L v \<and> evolves born u v"
proof -
  let ?P = "\<lambda>r. ss_id r = i \<and> ss_namespaceId r = ns \<and> ss_state r = OPEN \<and>
    (next = EXPIRED \<longrightarrow> ss_expiresAt r \<le> now \<or> ss_maxExpiresAt r \<le> now)"
  from run obtain usage u1 where l: "lockUsage ns u = (Inr usage, u1)"
    and rest: "(case findSessionIn ns i (u_sessions u1) of None \<Rightarrow> ret False
       | Some s \<Rightarrow> if ss_state s \<noteq> OPEN then ret False
         else bind (updateSessions ?P (endSession next now)) (\<lambda>affected.
           if affected \<noteq> 1 then ret False else andThen (changeUsage usage ActiveSessions (- 1)) (ret True))) u1 = (Inr x, v)"
    unfolding claimTerminalTransition_def transaction_ok by (elim monad_elims) blast
  note lo = lockUsage_ok [OF l ok]
  have idle: "booksOk L u1 \<and> evolves born u1 u1" using lo(1) evolves_refl by blast
  have "booksOk L v \<and> evolves born u1 v"
  proof (cases "v = u1")
    case False
    with rest obtain n u2 where up: "updateSessions ?P (endSession next now) u1 = (Inr n, u2)"
      and rest2: "(if n \<noteq> 1 then ret False else andThen (changeUsage usage ActiveSessions (- 1)) (ret True)) u2 = (Inr x, v)"
      by (auto simp: monad_simps split: option.splits if_splits)
    show ?thesis
    proof (rule updateSessions_cases [OF up lo(1)])
      assume n: "n = 1" "u2 = u1\<lparr> u_sessions := updateRows ?P (endSession next now) (u_sessions u1) \<rparr>"
        and one: "affectedRows ?P (u_sessions u1) = 1"
      from rest2 n obtain y where ch: "changeUsage usage ActiveSessions (- 1) u2 = (Inr y, v)" by (auto simp: monad_simps)
      have "owed L u2 ns (- 1) 0" "evolves born u1 u2"
        unfolding n(2) by (rule end_session [OF lo(1) _ _ _ _ one]; use fin in simp)+
      from settle_active [OF ch lo(2) _ this] n(2) show ?thesis by simp
    qed (use rest2 idle in \<open>auto simp: monad_simps\<close>)
  qed (use idle in simp)
  with l ok show ?thesis by (rule locked_effect)
qed

lemma claimFinalize_effect:
  assumes run: "claimFinalize ns i ms now claimNow token u = (Inr x, v)" and ok: "booksOk L u"
  shows "booksOk L v \<and> evolves born u v"
proof (cases "v = u")
  case True
  then show ?thesis using ok evolves_refl by blast
next
  case False
  let ?P = "\<lambda>r. ss_id r = i \<and> ss_namespaceId r = ns \<and> ss_state r = OPEN \<and> claimNow < ss_expiresAt r \<and> claimNow < ss_maxExpiresAt r"
  let ?f = "\<lambda>r. r\<lparr> ss_state := FINALIZING, ss_leaseToken := Some token, ss_leaseExpiresAt := Some (claimNow + ms),
    ss_lastCompleteFailureCode := None, ss_lastCompleteFailureAt := None, ss_updatedAt := claimNow \<rparr>"
  from run False obtain usage u1 y u2 where l: "lockUsage ns u = (Inr usage, u1)" and act: "uploadNamespaceActive ns u1 = (Inr y, u2)"
    and rest: "v = u2 \<or> (\<exists>n. updateSessions ?P ?f u2 = (Inr n, v))"
    unfolding claimFinalize_def transaction_ok
    by (elim monad_elims) (auto simp: monad_simps split: option.splits if_splits)
  note lo = lockUsage_ok [OF l ok]
  have u2: "u2 = u1" using act by (rule uploadNamespaceActive_run)
  have "booksOk L v \<and> evolves born u1 v"
    using rest
  proof
    assume "v = u2"
    then show ?thesis using lo(1) evolves_refl u2 by simp
  next
    assume "\<exists>n. updateSessions ?P ?f u2 = (Inr n, v)"
    then have "v = u1\<lparr> u_sessions := updateRows ?P ?f (u_sessions u1) \<rparr>" using u2 by (auto dest: updateSessions_run)
    with touch_sessions [OF lo(1), of ?f ?P] show ?thesis by simp
  qed
  with l ok show ?thesis by (rule locked_effect)
qed

lemma holdsClaim_live: "holdsClaim ns i token s \<Longrightarrow> ss_id s = i \<and> ss_namespaceId s = ns \<and> \<not> terminal (ss_state s)"
  by (auto simp: holdsClaim_def)

lemma renewFinalize_effect:
  assumes run: "renewFinalize ns i token now exp lockedNow u = (Inr x, v)" and ok: "booksOk L u"
  shows "booksOk L v \<and> evolves born u v"
proof (cases "v = u")
  case True
  then show ?thesis using ok evolves_refl by blast
next
  case False
  let ?P = "\<lambda>r. holdsClaim ns i token r \<and> leaseAfter lockedNow r"
  let ?f = "\<lambda>r. r\<lparr> ss_leaseExpiresAt := Some (lockedNow + (exp - now)), ss_updatedAt := lockedNow \<rparr>"
  from run False obtain n where "updateSessions ?P ?f u = (Inr n, v)"
    by (auto simp: renewFinalize_def transaction_ok monad_simps split: option.splits if_splits)
  then have "v = u\<lparr> u_sessions := updateRows ?P ?f (u_sessions u) \<rparr>" by (auto dest: updateSessions_run)
  with touch_sessions [OF ok, of ?f ?P] show ?thesis by (simp add: holdsClaim_def)
qed

lemma fenceFinalize_effect:
  assumes run: "fenceFinalize ns i token now exp lockedNow u = (Inr x, v)" and ok: "booksOk L u"
  shows "booksOk L v \<and> evolves born u v"
proof -
  let ?P = "\<lambda>r. holdsClaim ns i token r \<and> leaseAfter lockedNow r"
  let ?f = "\<lambda>r. r\<lparr> ss_leaseExpiresAt := Some (lockedNow + (exp - now)), ss_updatedAt := lockedNow \<rparr>"
  from run obtain usage u1 n where l: "lockUsage ns u = (Inr usage, u1)" and up: "updateSessions ?P ?f u1 = (Inr n, v)"
    unfolding fenceFinalize_def by (elim monad_elims) (auto simp: monad_simps)
  note lo = lockUsage_ok [OF l ok]
  have "v = u1\<lparr> u_sessions := updateRows ?P ?f (u_sessions u1) \<rparr>" using up by (auto dest: updateSessions_run)
  with touch_sessions [OF lo(1), of ?f ?P] have "booksOk L v \<and> evolves born u1 v" by (simp add: holdsClaim_def)
  with l ok show ?thesis by (rule locked_effect)
qed

lemma completeFinalize_effect:
  assumes run: "completeFinalize ns i token st body rid now u = (Inr x, v)" and ok: "booksOk L u"
  shows "booksOk L v \<and> evolves born u v"
proof -
  let ?P = "holdsClaim ns i token" and ?f = "finishSession COMPLETED st body rid now"
  from run obtain n u1 usage u2 where up: "updateSessions ?P ?f u = (Inr n, u1)" and n: "n = 1"
    and l: "lockUsage ns u1 = (Inr usage, u2)" and ch: "changeUsage usage ActiveSessions (- 1) u2 = (Inr x, v)"
    unfolding completeFinalize_def by (elim monad_elims) auto
  from updateSessions_run [OF up] n have u1: "u1 = u\<lparr> u_sessions := updateRows ?P ?f (u_sessions u) \<rparr>"
    and one: "affectedRows ?P (u_sessions u) = 1" by simp_all
  have o: "owed L u1 ns (- 1) 0" "evolves born u u1"
    unfolding u1 by (rule end_session [where ns = ns, OF ok finishSession_simps(1,2) _ _ one]; auto dest: holdsClaim_live)+
  obtain t where u2: "u2 = u1\<lparr> u_usage := t \<rparr>" "owed L u2 ns (- 1) 0" "lockedRows usage ns u2"
    by (rule lockUsage_owed [OF l o(1)]) (rule that)
  have "evolves born u u2" using o(2) by (simp add: u2(1) evolves_def)
  moreover from changeUsage_owed [OF ch u2(3,2)] obtain t' where "v = u2\<lparr> u_usage := t' \<rparr>" "owed L v ns 0 0" by force
  ultimately show ?thesis by (simp add: owed_zero evolves_def)
qed

lemma failFinalize_effect:
  assumes run: "failFinalize ns i token body rid now u = (Inr x, v)" and ok: "booksOk L u"
  shows "booksOk L v \<and> evolves born u v"
proof -
  let ?P = "\<lambda>r. holdsClaim ns i token r \<and> leaseAfter now r" and ?f = "finishSession FAILED 422 body rid now"
  from run obtain usage u1 n u2 where l: "lockUsage ns u = (Inr usage, u1)" and up: "updateSessions ?P ?f u1 = (Inr n, u2)"
    and rest: "(if n \<noteq> 1 then ret False else andThen (changeUsage usage ActiveSessions (- 1)) (ret True)) u2 = (Inr x, v)"
    unfolding failFinalize_def transaction_ok by (elim monad_elims) blast
  note lo = lockUsage_ok [OF l ok]
  have "booksOk L v \<and> evolves born u1 v"
  proof (rule updateSessions_cases [OF up lo(1)])
    assume n: "n = 1" "u2 = u1\<lparr> u_sessions := updateRows ?P ?f (u_sessions u1) \<rparr>" and one: "affectedRows ?P (u_sessions u1) = 1"
    from rest n obtain y where ch: "changeUsage usage ActiveSessions (- 1) u2 = (Inr y, v)" by (auto simp: monad_simps)
    have "owed L u2 ns (- 1) 0" "evolves born u1 u2"
      unfolding n(2) by (rule end_session [OF lo(1) _ _ _ _ one]; simp add: holdsClaim_def)+
    from settle_active [OF ch lo(2) _ this] n(2) show ?thesis by simp
  next
    assume "n \<noteq> 1" "u2 = u1"
    with rest lo(1) evolves_refl show ?thesis by (auto simp: monad_simps)
  next
    fix s assume "?P s"
    then show "ss_id s = i" using holdsClaim_live by blast
  qed
  with l ok show ?thesis by (rule locked_effect)
qed

lemma releaseFinalize_effect:
  assumes run: "releaseFinalize ns i token code at now u = (Inr x, v)" and ok: "booksOk L u"
  shows "booksOk L v \<and> evolves born u v"
proof -
  let ?f = "\<lambda>r. r\<lparr> ss_state := OPEN, ss_leaseToken := None, ss_leaseExpiresAt := None,
    ss_lastCompleteFailureCode := Some code, ss_lastCompleteFailureAt := Some at, ss_updatedAt := now \<rparr>"
  from run have "v = u\<lparr> u_sessions := updateRows (holdsClaim ns i token) ?f (u_sessions u) \<rparr>"
    by (auto simp: releaseFinalize_def monad_simps dest: updateSessions_run)
  with touch_sessions [OF ok, of ?f "holdsClaim ns i token"] show ?thesis by (simp add: holdsClaim_def)
qed

lemma renewSession_effect:
  assumes run: "renewSession ns i secs lockedNow u = (Inr x, v)" and ok: "booksOk L u"
  shows "booksOk L v \<and> evolves born u v"
proof -
  from run obtain usage u1 y u2 where l: "lockUsage ns u = (Inr usage, u1)" and act: "uploadNamespaceActive ns u1 = (Inr y, u2)"
    and rest: "v = u2 \<or> (\<exists>s n. updateSessions (\<lambda>r. ss_namespaceId r = ns \<and> openAt i lockedNow r)
             (\<lambda>r. r\<lparr> ss_expiresAt := renewedExpiry s lockedNow secs, ss_updatedAt := lockedNow \<rparr>) u2 = (Inr n, v))"
    unfolding renewSession_def transaction_ok
    by (elim monad_elims) (simp add: monad_simps split: option.splits if_splits, blast+)
  note lo = lockUsage_ok [OF l ok]
  have u2: "u2 = u1" using act by (rule uploadNamespaceActive_run)
  have "booksOk L v \<and> evolves born u1 v"
    using rest
  proof (elim disjE exE)
    fix s n
    let ?P = "\<lambda>r. ss_namespaceId r = ns \<and> openAt i lockedNow r"
      and ?f = "\<lambda>r. r\<lparr> ss_expiresAt := renewedExpiry s lockedNow secs, ss_updatedAt := lockedNow \<rparr>"
    assume "updateSessions ?P ?f u2 = (Inr n, v)"
    then have "v = u1\<lparr> u_sessions := updateRows ?P ?f (u_sessions u1) \<rparr>" using u2 by (auto dest: updateSessions_run)
    with touch_sessions [OF lo(1), of ?f ?P] show ?thesis by (simp add: openAt_def)
  qed (use lo(1) evolves_refl u2 in simp)
  with l ok show ?thesis by (rule locked_effect)
qed

lemma reopenStale_effect:
  assumes run: "reopenStale now ids u = (Inr x, v)" and ok: "booksOk L u"
  shows "booksOk L v \<and> evolves born u v"
proof -
  let ?P = "\<lambda>s. ss_id s \<in> set ids \<and> ss_state s = FINALIZING \<and> (case ss_leaseExpiresAt s of None \<Rightarrow> False | Some z \<Rightarrow> z \<le> now)"
  let ?f = "\<lambda>s. s\<lparr> ss_state := OPEN, ss_leaseToken := None, ss_leaseExpiresAt := None, ss_updatedAt := now \<rparr>"
  have "v = u\<lparr> u_sessions := updateRows ?P ?f (u_sessions u) \<rparr>"
    using run unfolding reopenStale_def by (auto dest: updateSessions_run)
  with touch_sessions [OF ok, of ?f ?P] show ?thesis by simp
qed

end
