(* ===== verification/UploadParts.thy ===== *)
theory UploadParts
  imports UploadMoves
begin

text \<open>
  The methods of the upload repository that move parts and tombstones keep the books and evolve the
  rows in the allowed way.
\<close>

section \<open>Parts that keep their charge\<close>

lemma touch_parts:
  assumes "booksOk L u" and "\<And>p. up_sessionId (f p) = up_sessionId p" "\<And>p. up_partIndex (f p) = up_partIndex p"
    and "\<And>p. P p \<Longrightarrow> partCharge (f p) = partCharge p \<and> (up_state (f p) = RESERVED \<longrightarrow> up_state p = RESERVED)"
  shows "booksOk L (u\<lparr> u_parts := updateRows P f (u_parts u) \<rparr>) \<and> evolves born u (u\<lparr> u_parts := updateRows P f (u_parts u) \<rparr>)"
proof
  from assms(4) show "booksOk L (u\<lparr> u_parts := updateRows P f (u_parts u) \<rparr>)"
    using owed_parts_same [OF ok_owed [OF assms(1)] assms(2,3)] unfolding owed_zero by blast
  have "partsEvolve (u_sessions u) (u_parts u) (updateRows P f (u_parts u))"
    using assms(4) by (intro partsEvolve_update [OF assms(2)]) blast
  then show "evolves born u (u\<lparr> u_parts := updateRows P f (u_parts u) \<rparr>)"
    by (simp add: evolves_def evolve_rules uploadsOk_keys [OF assms(1)])
qed

lemma evolves_trans_same:
  assumes "evolves born u v" and "evolves born v w" and "u_parts v = u_parts u" and "u_tombstones v = u_tombstones u"
    and "\<forall>s\<in>set (u_sessions v). \<not> terminal (ss_state s) \<longrightarrow> (\<exists>q\<in>set (u_sessions u). ss_id q = ss_id s \<and> \<not> terminal (ss_state q))"
    and "u_sessions w = u_sessions v"
  shows "evolves born u w"
proof -
  have "partsEvolve (u_sessions u) (u_parts u) (u_parts w)"
    using assms(2,3,5) by (fastforce simp: evolves_def partsEvolve_def)
  then show ?thesis using assms by (simp add: evolves_def)
qed

section \<open>Reserving and committing\<close>

lemma admitPart_effect:
  assumes run: "admitPart c k amount key caps usage now lease u = (Inr x, v)" and ok: "booksOk L u"
    and c: "c \<in> set (u_sessions u)" "\<not> terminal (ss_state c)" and l: "lockedRows usage (ss_namespaceId c) u"
  shows "booksOk L v \<and> evolves born u v"
proof (cases "v = u")
  case True
  then show ?thesis using ok evolves_refl by blast
next
  case False
  let ?ns = "ss_namespaceId c" and ?new = "newPart (ss_id c) k amount key now lease"
  let ?P = "\<lambda>p. up_sessionId p = ss_id c \<and> up_partIndex p = k \<and> up_state p = PART_DELETED"
  from run False obtain n u1 y u2 z where
      del: "(if findPart (ss_id c) k (u_parts u) = None then ret 0 else deleteParts ?P) u = (Inr n, u1)"
      and ins: "insertPart ?new u1 = (Inr y, u2)" and ch: "changeUsage usage StagedBytes amount u2 = (Inr z, v)"
    by (auto simp: admitPart_def monad_simps simp del: if_prog_iff split: bool.splits part_admission.splits if_splits)
  have own: "owner (u_sessions u) (ss_id c) = Some ?ns" using part_owner [OF ok c(1)] .
  have d: "u_sessions u1 = u_sessions u" "u_usage u1 = u_usage u" "u_tombstones u1 = u_tombstones u" "owed L u1 ?ns 0 0"
    "partsEvolve (u_sessions u) (u_parts u) (u_parts u1)"
  proof -
    have "u1 = u \<or> (\<exists>p. u1 = u\<lparr> u_parts := deleteRows ?P (u_parts u) \<rparr> \<and> filter ?P (u_parts u) = [p] \<and> ?P p)"
    proof (cases "findPart (ss_id c) k (u_parts u) = None")
      case True
      with del show ?thesis by (simp add: monad_simps)
    next
      case False
      with del have "deleteParts ?P u = (Inr n, u1)" by simp
      then show ?thesis by (rule deleteParts_cases [OF _ ok, where i = "ss_id c" and k = k]) blast+
    qed
    then consider "u1 = u" | p where "u1 = u\<lparr> u_parts := deleteRows ?P (u_parts u) \<rparr>" "filter ?P (u_parts u) = [p]" "?P p" by blast
    then have "u_sessions u1 = u_sessions u \<and> u_usage u1 = u_usage u \<and> u_tombstones u1 = u_tombstones u \<and> owed L u1 ?ns 0 0 \<and>
      partsEvolve (u_sessions u) (u_parts u) (u_parts u1)"
    proof cases
      case 1
      then show ?thesis using ok_owed [OF ok] by (simp add: evolve_rules)
    next
      case 2
      from owed_part_delete [OF ok_owed [OF ok] 2(2)] own 2 show ?thesis by (simp add: partCharge_def evolve_rules)
    qed
    then show "u_sessions u1 = u_sessions u" "u_usage u1 = u_usage u" "u_tombstones u1 = u_tombstones u" "owed L u1 ?ns 0 0"
      "partsEvolve (u_sessions u) (u_parts u) (u_parts u1)" by blast+
  qed
  note u2 = insertPart_run [OF ins]
  have "owed L u2 ?ns 0 (0 + partCharge ?new)"
    unfolding u2(1) by (rule owed_part_insert [OF d(4) _ u2(2)]) (simp add: newPart_def own d(1))
  then have o: "owed L u2 ?ns 0 amount" by (simp add: newPart_def partCharge_def)
  have "partsEvolve (u_sessions u) (u_parts u) (insertRow ?new (u_parts u1))"
    by (rule partsEvolve_insert [OF d(5) c(1) _ c(2)]) (simp add: newPart_def)
  then have e: "evolves born u u2"
    by (simp add: u2(1) evolves_def d evolve_rules uploadsOk_keys [OF ok])
  show ?thesis using settle_bytes [OF ch l _ o e] by (simp add: u2(1) d(2))
qed

lemma sessionClosed_live: "\<not> sessionClosed s now \<Longrightarrow> \<not> terminal (ss_state s)"
  by (simp add: sessionClosed_def)

lemma reservePart_effect:
  assumes run: "reservePart i k amount key caps now lease u = (Inr x, v)" and ok: "booksOk L u"
  shows "booksOk L v \<and> evolves born u v"
proof (cases "v = u")
  case True
  then show ?thesis using ok evolves_refl by blast
next
  case False
  with run obtain s where s: "findSession i (u_sessions u) = Some s"
    by (cases "findSession i (u_sessions u)") (auto simp: reservePart_def transaction_ok bind_iff gets_iff ret_iff split: if_splits)
  with run False obtain usage u1 y u2 where l: "lockUsage (ss_namespaceId s) u = (Inr usage, u1)" and act: "uploadNamespaceActive (ss_namespaceId s) u1 = (Inr y, u2)"
    and rest: "(case findSession i (u_sessions u2) of None \<Rightarrow> ret ReserveClosed
      | Some c \<Rightarrow> if sessionClosed c now then ret ReserveClosed else admitPart c k amount key caps usage now lease) u2 = (Inr x, v)"
    unfolding reservePart_def
    by (simp add: transaction_ok bind_iff [of "gets f" for f] bind_iff [of "lockUsage n" for n] andThen_iff gets_iff ret_iff split: if_splits) blast
  note lo = lockUsage_ok [OF l ok]
  have u2: "u2 = u1" using act by (rule uploadNamespaceActive_run)
  have f: "findSession i (u_sessions u1) = Some s" using s lo(3) by simp
  have "booksOk L v \<and> evolves born u1 v"
  proof (cases "sessionClosed s now")
    case True
    with rest f u2 lo(1) evolves_refl show ?thesis by (simp add: monad_simps)
  next
    case False
    with rest f u2 have a: "admitPart s k amount key caps usage now lease u1 = (Inr x, v)" by simp
    show ?thesis by (rule admitPart_effect [OF a lo(1) _ sessionClosed_live [OF False] lo(2)]) (use findSession_SomeD [OF f] in simp)
  qed
  with l ok show ?thesis by (rule locked_effect)
qed

lemma storePart_run:
  assumes "storePart i k digest iv key now exp u = (Inr x, v)"
  obtains f where "v = u\<lparr> u_parts := updateRows (\<lambda>p. up_sessionId p = i \<and> up_partIndex p = k \<and> up_state p = RESERVED \<and> keyMatches key p) f (u_parts u) \<rparr>"
    "f = (\<lambda>p. p\<lparr> up_state := STORED, up_digest := Some digest, up_encryptionIv := iv, up_updatedAt := now \<rparr>)"
  using assms by (auto simp: storePart_def monad_simps dest: updateParts_run)

lemma storePart_effect:
  assumes run: "storePart i k digest iv key now exp u = (Inr x, v)" and ok: "booksOk L u"
  shows "booksOk L v \<and> evolves born u v \<and> u_sessions v = u_sessions u"
proof (rule storePart_run [OF run])
  fix f :: "upload_part \<Rightarrow> upload_part"
  let ?P = "\<lambda>p. up_sessionId p = i \<and> up_partIndex p = k \<and> up_state p = RESERVED \<and> keyMatches key p"
  assume v: "v = u\<lparr> u_parts := updateRows ?P f (u_parts u) \<rparr>"
    "f = (\<lambda>p. p\<lparr> up_state := STORED, up_digest := Some digest, up_encryptionIv := iv, up_updatedAt := now \<rparr>)"
  with touch_parts [OF ok, of f ?P] show ?thesis by (simp add: partCharge_def)
qed

lemma commitReserved_effect:
  assumes run: "commitReserved c k digest iv key secs now u = (Inr x, v)" and ok: "booksOk L u"
  shows "booksOk L v \<and> evolves born u v"
proof (cases "v = u")
  case True
  then show ?thesis using ok evolves_refl by blast
next
  case False
  let ?i = "ss_id c"
  from False run show ?thesis
  proof (cases secs)
    case None
    with run False have "storePart ?i k digest iv key now (ss_expiresAt c) u = (Inr x, v)"
      by (auto simp: commitReserved_def bind_iff gets_iff ret_iff split: option.splits if_splits)
    from storePart_effect [OF this ok] show ?thesis by blast
  next
    case (Some z)
    let ?f = "\<lambda>r. r\<lparr> ss_expiresAt := renewedExpiry c now z, ss_updatedAt := now \<rparr>"
    from run False Some obtain n u2 where up: "updateSessions (openAt ?i now) ?f u = (Inr n, u2)"
      and rest: "(if n \<noteq> 1 then ret None else storePart ?i k digest iv key now (renewedExpiry c now z)) u2 = (Inr x, v)"
      by (auto simp: commitReserved_def bind_iff [of "gets f" for f] gets_iff ret_iff elim!: bindE split: option.splits if_splits)
    from up have u2: "u2 = u\<lparr> u_sessions := updateRows (openAt ?i now) ?f (u_sessions u) \<rparr>" by (auto dest: updateSessions_run)
    with touch_sessions [OF ok, of ?f "openAt ?i now"] have e2: "booksOk L u2" "evolves born u u2" by (auto simp: openAt_def)
    show ?thesis
    proof (cases "n = 1")
      case True
      with rest have st: "storePart ?i k digest iv key now (renewedExpiry c now z) u2 = (Inr x, v)" by simp
      note e3 = storePart_effect [OF st e2(1), of born]
      have "evolves born u v" by (rule evolves_trans_same [OF e2(2)]) (use e3 in \<open>auto simp: u2 set_updateRows\<close>)
      with e3 show ?thesis by blast
    next
      case False
      with rest e2 show ?thesis by (simp add: ret_iff)
    qed
  qed
qed

lemma commitPart_effect:
  assumes run: "commitPart i k digest iv key secs now u = (Inr x, v)" and ok: "booksOk L u"
  shows "booksOk L v \<and> evolves born u v"
proof (cases "v = u")
  case True
  then show ?thesis using ok evolves_refl by blast
next
  case False
  with run obtain s where s: "findSession i (u_sessions u) = Some s"
    by (cases "findSession i (u_sessions u)") (auto simp: commitPart_def transaction_ok bind_iff gets_iff ret_iff)
  with run obtain usage u1 where l: "lockUsage (ss_namespaceId s) u = (Inr usage, u1)"
    and rest: "(case findSession i (u_sessions u1) of None \<Rightarrow> ret None
      | Some c \<Rightarrow> if sessionClosed c now then ret None else commitReserved c k digest iv key secs now) u1 = (Inr x, v)"
    unfolding commitPart_def by (simp add: transaction_ok bind_iff [of "gets f" for f] andThen_iff gets_iff ret_iff) blast
  note lo = lockUsage_ok [OF l ok]
  have "booksOk L v \<and> evolves born u1 v"
  proof (cases "sessionClosed s now")
    case True
    with rest s lo(1,3) evolves_refl show ?thesis by (simp add: monad_simps)
  next
    case False
    with rest s lo(3) have a: "commitReserved s k digest iv key secs now u1 = (Inr x, v)" by simp
    then show ?thesis using lo(1) by (rule commitReserved_effect)
  qed
  with l ok show ?thesis by (rule locked_effect)
qed

lemma renewPartLease_effect:
  assumes run: "renewPartLease i k key secs now u = (Inr x, v)" and ok: "booksOk L u"
  shows "booksOk L v \<and> evolves born u v"
proof (cases "v = u")
  case True
  then show ?thesis using ok evolves_refl by blast
next
  case False
  let ?P = "\<lambda>q. up_sessionId q = i \<and> up_partIndex q = k \<and> up_stagingKey q = key \<and> up_state q = RESERVED \<and>
    partLeaseAfter now q"
  let ?f = "\<lambda>q. q\<lparr> up_leaseExpiresAt := Some (now + secs * 1000), up_updatedAt := now \<rparr>"
  from run False obtain n where "updateParts ?P ?f u = (Inr n, v)"
    unfolding renewPartLease_def transaction_ok
    by (auto simp: bind_iff gets_iff ret_iff split: option.splits if_splits)
  then have "v = u\<lparr> u_parts := updateRows ?P ?f (u_parts u) \<rparr>" by (auto dest: updateParts_run)
  with touch_parts [OF ok, of ?f ?P] show ?thesis by (simp add: partCharge_def)
qed


section \<open>Retiring and releasing\<close>

lemma retireExpiredPartReservation_effect:
  assumes run: "retireExpiredPartReservation i k key now u = (Inr x, v)" and ok: "booksOk L u"
  shows "booksOk L v \<and> evolves born u v"
proof (cases "v = u")
  case True
  then show ?thesis using ok evolves_refl by blast
next
  case False
  let ?Q = "\<lambda>p. up_sessionId p = i \<and> up_partIndex p = k \<and> up_stagingKey p = key"
  let ?P = "\<lambda>q. up_sessionId q = i \<and> up_partIndex q = k \<and> up_stagingKey q = key \<and> up_state q = RESERVED \<and> \<not> partLeaseAfter now q"
  from run False obtain s where s: "findSession i (u_sessions u) = Some s"
    by (cases "findSession i (u_sessions u)") (auto simp: retireExpiredPartReservation_def transaction_ok bind_iff gets_iff ret_iff)
  let ?t = "\<lambda>p. \<lparr> sc_stagingKey = key, sc_sessionId = i, sc_partIndex = k, sc_namespaceId = ss_namespaceId s,
    sc_sizeBytes = up_sizeBytes p, sc_deletedAt = None, sc_putSettledAt = None, sc_createdAt = now \<rparr>"
  from run s obtain usage u1 where l: "lockUsage (ss_namespaceId s) u = (Inr usage, u1)"
    and rest: "(case findRow ?Q (u_parts u1) of None \<Rightarrow> ret False
      | Some p \<Rightarrow> if up_stagingKey p = key \<longrightarrow> up_state p = RESERVED \<longrightarrow> partLeaseAfter now p then ret False
        else bind (deleteParts ?P) (\<lambda>removed. if removed \<noteq> 1 then ret False else andThen (insertTombstone (?t p)) (ret True))) u1 = (Inr x, v)"
    unfolding retireExpiredPartReservation_def
    by (simp add: transaction_ok bind_iff [of "gets f" for f] andThen_iff [of "lockUsage n" for n] gets_iff ret_iff) blast
  note lo = lockUsage_ok [OF l ok]
  have "booksOk L v \<and> evolves born u1 v"
  proof (cases "v = u1")
    case False
    with rest obtain p n u2 where p: "findRow ?Q (u_parts u1) = Some p" and del: "deleteParts ?P u1 = (Inr n, u2)"
      and rest2: "(if n \<noteq> 1 then ret False else andThen (insertTombstone (?t p)) (ret True)) u2 = (Inr x, v)"
      by (auto simp: ret_iff elim!: bindE split: option.splits if_splits)
    show ?thesis
    proof (rule deleteParts_cases [OF del lo(1), where i = i and k = k])
      fix q
      assume n: "n = 1" and u2: "u2 = u1\<lparr> u_parts := deleteRows ?P (u_parts u1) \<rparr>" and q: "filter ?P (u_parts u1) = [q]" "q \<in> set (u_parts u1)" "?P q"
      have pq: "q = p"
      proof -
        from findRow_SomeD [OF p] have "p \<in> set (u_parts u1)" "up_sessionId p = i" "up_partIndex p = k" by blast+
        with q(2,3) uploadsOk_part_keys [OF lo(1)] show ?thesis by (auto simp: distinct_map inj_on_def)
      qed
      from rest2 n obtain y where ins: "insertTombstone (?t p) u2 = (Inr y, v)" by (auto simp: monad_simps)
      note v = insertTombstone_run [OF ins]
      have own: "owner (u_sessions u1) i = Some (ss_namespaceId s)"
        using part_owner [OF lo(1), of s] findSession_SomeD [OF s] lo(3) by auto
      have o2: "owed L u2 (ss_namespaceId s) 0 (0 - partCharge q)"
        unfolding u2 by (rule owed_part_delete [OF ok_owed [OF lo(1)] q(1)]) (use own q in simp)
      have "owed L v (ss_namespaceId s) 0 (0 - partCharge q + sc_sizeBytes (?t p))"
        unfolding v(1) by (rule owed_tombstone_insert [OF o2 _ _ v(2)]) (simp_all add: u2 own)
      then have "booksOk L v" using q(3) pq by (simp add: partCharge_def owed_zero)
      moreover have "evolves born u1 v"
        using tombstonesEvolve_insert [of q "u_parts u1" "?t p" "u_tombstones u1"] q
        by (simp add: v(1) u2 evolves_def evolve_rules uploadsOk_keys [OF lo(1)])
      ultimately show ?thesis ..
    next
      assume "n \<noteq> 1" "u2 = u1"
      with rest2 False show ?thesis by (simp add: ret_iff)
    qed blast
  qed (use lo(1) evolves_refl in blast)
  with l ok show ?thesis by (rule locked_effect)
qed

lemma releaseTombstone_effect:
  assumes run: "releaseTombstone i k may key usage now u = (Inr x, v)" and ok: "booksOk L u"
    and l: "lockedRows usage ns u" and own: "owner (u_sessions u) i = Some ns"
  shows "booksOk L v \<and> evolves born u v"
proof -
  let ?f = "\<lambda>r. r\<lparr> sc_putSettledAt := Some now \<rparr>" and ?K = "\<lambda>t. sc_stagingKey t = key"
  from run consider "v = u" | "v = u\<lparr> u_tombstones := updateRows ?K ?f (u_tombstones u) \<rparr>"
    | t y where "t \<in> set (u_tombstones u)" "sc_stagingKey t = key" "sc_sessionId t = i"
      "changeUsage usage StagedBytes (- sc_sizeBytes t) (u\<lparr> u_tombstones := deleteRows ?K (u_tombstones u) \<rparr>) = (Inr y, v)"
    by (auto simp: releaseTombstone_def updateTombstone_def deleteTombstone_def monad_simps dest!: findRow_SomeD
        split: option.splits if_splits)
  then show ?thesis
  proof cases
    case 1
    then show ?thesis using ok evolves_refl by blast
  next
    case 2
    from owed_tombstone_update [OF ok_owed [OF ok, of ns], of ?f ?K] 2 show ?thesis
      by (simp add: owed_zero evolves_def evolve_rules uploadsOk_keys [OF ok])
  next
    case 3
    let ?u2 = "u\<lparr> u_tombstones := deleteRows ?K (u_tombstones u) \<rparr>"
    have one: "filter ?K (u_tombstones u) = [t]" using filter_tombstone [OF ok 3(1)] 3(2) by simp
    have "sc_namespaceId t = ns" using tombstone_owner [OF ok 3(1)] own 3(3) by simp
    from owed_tombstone_delete [OF ok_owed [OF ok] one this] have o: "owed L ?u2 ns 0 (- sc_sizeBytes t)" by simp
    have e: "evolves born u ?u2" by (simp add: evolves_def evolve_rules uploadsOk_keys [OF ok])
    show ?thesis using settle_bytes [OF 3(4) l _ o e] by simp
  qed
qed

lemma releaseDeletedPart_effect:
  assumes run: "releaseDeletedPart p may key usage now u = (Inr x, v)" and ok: "booksOk L u"
    and l: "lockedRows usage ns u" and own: "owner (u_sessions u) (up_sessionId p) = Some ns"
    and p: "p \<in> set (u_parts u)" "up_state p = PART_DELETED"
  shows "booksOk L v \<and> evolves born u v"
proof (cases "v = u")
  case True
  then show ?thesis using ok evolves_refl by blast
next
  case False
  let ?f = "\<lambda>q. q\<lparr> up_state := CLEANUP, up_objectDeletedAt := None, up_updatedAt := now \<rparr>"
  let ?P = "\<lambda>z q. up_sessionId q = up_sessionId p \<and> up_partIndex q = up_partIndex p \<and> up_stagingKey q = z \<and> up_state q = PART_DELETED"
  from run False obtain z n u2 where up: "updateParts (?P z) ?f u = (Inr n, u2)"
    and rest: "(if n \<noteq> 1 then ret unapplied else andThen (changeUsage usage StagedBytes (up_sizeBytes p))
      (ret \<lparr> ac_applied = True, ac_refundedBytes = 0 \<rparr>)) u2 = (Inr x, v)"
    by (auto simp: releaseDeletedPart_def ret_iff elim!: bindE split: option.splits if_splits)
  show ?thesis
  proof (rule updateParts_cases [OF up ok, where i = "up_sessionId p" and k = "up_partIndex p"])
    fix q
    assume n: "n = 1" and u2: "u2 = u\<lparr> u_parts := updateRows (?P z) ?f (u_parts u) \<rparr>" and q: "filter (?P z) (u_parts u) = [q]" "q \<in> set (u_parts u)" "?P z q"
    have pq: "q = p" using q(2,3) p(1) uploadsOk_part_keys [OF ok] by (auto simp: distinct_map inj_on_def)
    from rest n obtain y where ch: "changeUsage usage StagedBytes (up_sizeBytes p) u2 = (Inr y, v)" by (auto simp: monad_simps)
    have "owed L u2 ns 0 (0 - partCharge q + partCharge (?f q))"
      unfolding u2 by (rule owed_part_update [OF ok_owed [OF ok] _ _ q(1)]) (use own pq in simp_all)
    then have o: "owed L u2 ns 0 (up_sizeBytes p)" using q(3) pq by (simp add: partCharge_def)
    have "partsEvolve (u_sessions u) (u_parts u) (updateRows (?P z) ?f (u_parts u))" by (rule partsEvolve_update) simp_all
    then have e: "evolves born u u2" by (simp add: u2 evolves_def evolve_rules uploadsOk_keys [OF ok])
    show ?thesis using settle_bytes [OF ch l _ o e] by (simp add: u2)
  next
    assume "n \<noteq> 1" "u2 = u"
    with rest False show ?thesis by (simp add: ret_iff)
  qed blast
qed

lemma releaseReserved_effect:
  assumes ok: "booksOk L u" and l: "lockedRows usage ns u" and own: "owner (u_sessions u) (up_sessionId p) = Some ns"
    and p: "p \<in> set (u_parts u)" "up_state p = RESERVED"
    and ch: "changeUsage usage StagedBytes (- up_sizeBytes p)
      (u\<lparr> u_parts := deleteRows (\<lambda>q. up_sessionId q = up_sessionId p \<and> up_partIndex q = up_partIndex p) (u_parts u) \<rparr>) = (Inr y, v)"
  shows "booksOk L v \<and> evolves born u v"
proof -
  let ?P = "\<lambda>q. up_sessionId q = up_sessionId p \<and> up_partIndex q = up_partIndex p"
  let ?u2 = "u\<lparr> u_parts := deleteRows ?P (u_parts u) \<rparr>"
  have one: "filter ?P (u_parts u) = [p]" by (rule filter_part [OF ok p(1)]) simp_all
  from owed_part_delete [OF ok_owed [OF ok] one own] p(2) have o: "owed L ?u2 ns 0 (- up_sizeBytes p)" by (simp add: partCharge_def)
  have e: "evolves born u ?u2" by (simp add: evolves_def evolve_rules uploadsOk_keys [OF ok])
  show ?thesis using settle_bytes [OF ch l _ o e] by simp
qed

lemma releasePartReservationAccounting_effect:
  assumes run: "releasePartReservationAccounting i k may key now u = (Inr x, v)" and ok: "booksOk L u"
  shows "booksOk L v \<and> evolves born u v"
proof (cases "v = u")
  case True
  then show ?thesis using ok evolves_refl by blast
next
  case False
  let ?P = "\<lambda>q. up_sessionId q = i \<and> up_partIndex q = k"
  let ?f = "\<lambda>q. q\<lparr> up_state := CLEANUP, up_updatedAt := now \<rparr>"
  from run False obtain s where s: "findSession i (u_sessions u) = Some s"
    by (cases "findSession i (u_sessions u)") (auto simp: releasePartReservationAccounting_def transaction_ok bind_iff gets_iff ret_iff)
  let ?sel = "\<lambda>u1. case findPart i k (u_parts u1) of None \<Rightarrow> None | Some p \<Rightarrow> if keyMatches key p then Some p else None"
  from run s obtain usage u1 where l: "lockUsage (ss_namespaceId s) u = (Inr usage, u1)"
    and rest: "(case ?sel u1 of
           None \<Rightarrow> (case key of None \<Rightarrow> ret unapplied | Some z \<Rightarrow> releaseTombstone i k may z usage now)
         | Some p \<Rightarrow>
             if up_state p = PART_DELETED then releaseDeletedPart p may key usage now
             else if up_state p \<noteq> RESERVED then ret unapplied
             else if may then bind (updateParts ?P ?f) (\<lambda>_. ret \<lparr> ac_applied = True, ac_refundedBytes = 0 \<rparr>)
             else bind (deleteParts ?P) (\<lambda>_. andThen (changeUsage usage StagedBytes (- up_sizeBytes p))
               (ret \<lparr> ac_applied = True, ac_refundedBytes = up_sizeBytes p \<rparr>))) u1 = (Inr x, v)"
    unfolding releasePartReservationAccounting_def
    by (simp add: transaction_ok bind_iff [of "gets f" for f] bind_iff [of "lockUsage n" for n] gets_iff ret_iff) blast
  note lo = lockUsage_ok [OF l ok]
  have own: "owner (u_sessions u1) i = Some (ss_namespaceId s)"
    using part_owner [OF lo(1), of s] findSession_SomeD [OF s] lo(3) by auto
  have "booksOk L v \<and> evolves born u1 v"
  proof (cases "?sel u1")
    case None
    with rest lo(1) evolves_refl releaseTombstone_effect [OF _ lo(1,2) own] show ?thesis
      by (cases key) (auto simp: ret_iff)
  next
    case (Some p)
    then have fp: "findPart i k (u_parts u1) = Some p" by (auto split: option.splits if_splits)
    note p = findPart_SomeD [OF fp]
    have ownp: "owner (u_sessions u1) (up_sessionId p) = Some (ss_namespaceId s)" using own p by simp
    consider "up_state p = PART_DELETED" | "up_state p = RESERVED" may | "up_state p = RESERVED" "\<not> may"
      | "up_state p \<noteq> PART_DELETED" "up_state p \<noteq> RESERVED" by blast
    then show ?thesis
    proof cases
      case 1
      with rest Some have "releaseDeletedPart p may key usage now u1 = (Inr x, v)" by simp
      then show ?thesis using lo(1,2) ownp p 1 by (intro releaseDeletedPart_effect) simp_all
    next
      case 2
      with rest Some have v: "v = u1\<lparr> u_parts := updateRows ?P ?f (u_parts u1) \<rparr>" by (auto simp: monad_simps dest: updateParts_run)
      have one: "filter ?P (u_parts u1) = [p]" using filter_part [OF lo(1), of p ?P] p by simp
      have "owed L v (ss_namespaceId s) 0 (0 - partCharge p + partCharge (?f p))"
        unfolding v by (rule owed_part_update [OF ok_owed [OF lo(1)] _ _ one]) (use ownp in simp_all)
      then have "booksOk L v" using 2 by (simp add: partCharge_def owed_zero)
      moreover have "partsEvolve (u_sessions u1) (u_parts u1) (updateRows ?P ?f (u_parts u1))" by (rule partsEvolve_update) simp_all
      ultimately show ?thesis by (simp add: v evolves_def evolve_rules uploadsOk_keys [OF lo(1)])
    next
      case 3
      with rest Some p obtain y where "changeUsage usage StagedBytes (- up_sizeBytes p)
        (u1\<lparr> u_parts := deleteRows (\<lambda>q. up_sessionId q = up_sessionId p \<and> up_partIndex q = up_partIndex p) (u_parts u1) \<rparr>) = (Inr y, v)"
        by (auto simp: monad_simps dest!: deleteParts_run)
      with 3 p show ?thesis by (intro releaseReserved_effect [OF lo(1,2) ownp]) simp_all
    next
      case 4
      with rest Some lo(1) evolves_refl show ?thesis by (simp add: ret_iff)
    qed
  qed
  with l ok show ?thesis by (rule locked_effect)
qed

end
