(* ===== verification/UploadHistory.thy ===== *)
theory UploadHistory
  imports UploadParts
begin

text \<open>
  The clean-up of staging objects, the pruning of sessions, and histories of the upload repository:
  sequences of its transactions in which a pruning run, which lists sessions first and deletes them
  one by one later, is interleaved with every other method.
\<close>

section \<open>Clean-up\<close>

lemma markTombstoneDeletedDetailed_effect:
  assumes run: "markTombstoneDeletedDetailed key obs now u = (Inr x, v)" and ok: "booksOk L u"
  shows "booksOk L v \<and> evolves born u v"
proof (cases "v = u")
  case True
  then show ?thesis using ok evolves_refl by blast
next
  case False
  let ?f = "\<lambda>r. r\<lparr> sc_deletedAt := Some now \<rparr>" and ?K = "\<lambda>t. sc_stagingKey t = key"
  from run False obtain t where t: "findTombstone key (u_tombstones u) = Some t"
    by (cases "findTombstone key (u_tombstones u)") (auto simp: markTombstoneDeletedDetailed_def transaction_ok bind_iff gets_iff ret_iff)
  let ?ns = "sc_namespaceId t"
  from run t obtain usage u1 where l: "lockUsage ?ns u = (Inr usage, u1)"
    and rest: "(case findTombstone key (u_tombstones u1) of None \<Rightarrow> ret unapplied
         | Some c \<Rightarrow> if obs \<noteq> None \<and> sc_putSettledAt c = obs
             then andThen (deleteTombstone key) (andThen (changeUsage usage StagedBytes (- sc_sizeBytes c))
               (ret \<lparr> ac_applied = True, ac_refundedBytes = sc_sizeBytes c \<rparr>))
             else andThen (updateTombstone key ?f) (ret \<lparr> ac_applied = True, ac_refundedBytes = 0 \<rparr>)) u1 = (Inr x, v)"
    unfolding markTombstoneDeletedDetailed_def transaction_ok
    by (simp add: bind_iff [of "gets f" for f] bind_iff [of "lockUsage n" for n] gets_iff ret_iff del: not_None_eq) blast
  note lo = lockUsage_ok [OF l ok]
  have t1: "findTombstone key (u_tombstones u1) = Some t" using t lo(5) by simp
  note ts = findTombstone_SomeD [OF t1]
  have "booksOk L v \<and> evolves born u1 v"
  proof (cases "obs \<noteq> None \<and> sc_putSettledAt t = obs")
    case True
    let ?u2 = "u1\<lparr> u_tombstones := deleteRows ?K (u_tombstones u1) \<rparr>"
    from True rest t1 obtain y where ch: "changeUsage usage StagedBytes (- sc_sizeBytes t) ?u2 = (Inr y, v)"
      by (auto simp: deleteTombstone_def monad_simps)
    have one: "filter ?K (u_tombstones u1) = [t]" using filter_tombstone [OF lo(1), of t] ts by auto
    from owed_tombstone_delete [OF ok_owed [OF lo(1)] one refl] have o: "owed L ?u2 ?ns 0 (- sc_sizeBytes t)" by simp
    have e: "evolves born u1 ?u2" by (simp add: evolves_def evolve_rules uploadsOk_keys [OF lo(1)])
    show ?thesis using settle_bytes [OF ch lo(2) _ o e] by simp
  next
    case False
    with rest t1 have v: "v = u1\<lparr> u_tombstones := updateRows ?K ?f (u_tombstones u1) \<rparr>"
      by (auto simp: updateTombstone_def monad_simps)
    from owed_tombstone_update [OF ok_owed [OF lo(1), of ?ns], of ?f ?K] show ?thesis
      by (simp add: v owed_zero evolves_def evolve_rules uploadsOk_keys [OF lo(1)])
  qed
  with l ok show ?thesis by (rule locked_effect)
qed

lemma deleteStagedPart_effect:
  assumes run: "deleteStagedPart c k key st usage now u = (Inr x, v)" and ok: "booksOk L u" and st: "st \<noteq> PART_DELETED"
    and l: "lockedRows usage (ss_namespaceId c) u" and c: "c \<in> set (u_sessions u)"
  shows "booksOk L v \<and> evolves born u v"
proof (cases "v = u")
  case True
  then show ?thesis using ok evolves_refl by blast
next
  case False
  let ?i = "ss_id c" and ?ns = "ss_namespaceId c"
  let ?P = "\<lambda>q. up_sessionId q = ?i \<and> up_partIndex q = k \<and> up_stagingKey q = key \<and> up_state q = st"
  let ?f = "\<lambda>q. q\<lparr> up_state := PART_DELETED, up_objectDeletedAt := Some now, up_updatedAt := now \<rparr>"
  from run False obtain p n u2 where p: "findPart ?i k (u_parts u) = Some p" and up: "updateParts ?P ?f u = (Inr n, u2)"
    and rest: "(if n \<noteq> 1 then ret unapplied else andThen (changeUsage usage StagedBytes (- up_sizeBytes p))
         (ret \<lparr> ac_applied = True, ac_refundedBytes = up_sizeBytes p \<rparr>)) u2 = (Inr x, v)"
    by (auto simp: deleteStagedPart_def bind_iff [of "gets f" for f] gets_iff ret_iff elim!: bindE split: option.splits if_splits)
  show ?thesis
  proof (rule updateParts_cases [OF up ok, where i = ?i and k = k])
    fix q
    assume n: "n = 1" and u2: "u2 = u\<lparr> u_parts := updateRows ?P ?f (u_parts u) \<rparr>"
      and q: "filter ?P (u_parts u) = [q]" "q \<in> set (u_parts u)" "?P q"
    have pq: "q = p"
      using q(2,3) findPart_SomeD [OF p] uploadsOk_part_keys [OF ok] by (auto simp: distinct_map inj_on_def)
    from rest n obtain y where ch: "changeUsage usage StagedBytes (- up_sizeBytes p) u2 = (Inr y, v)" by (auto simp: monad_simps)
    have "owed L u2 ?ns 0 (0 - partCharge q + partCharge (?f q))"
      unfolding u2 by (rule owed_part_update [OF ok_owed [OF ok] _ _ q(1)]) (use part_owner [OF ok c] q in simp_all)
    then have o: "owed L u2 ?ns 0 (- up_sizeBytes p)" using q(3) pq st by (simp add: partCharge_def)
    have "partsEvolve (u_sessions u) (u_parts u) (updateRows ?P ?f (u_parts u))" by (rule partsEvolve_update) simp_all
    then have e: "evolves born u u2" by (simp add: u2 evolves_def evolve_rules uploadsOk_keys [OF ok])
    show ?thesis using settle_bytes [OF ch l _ o e] by (simp add: u2)
  next
    assume "n \<noteq> 1" "u2 = u"
    with rest False show ?thesis by (simp add: ret_iff)
  qed blast
qed

lemma markStagingObjectDeletedDetailed_effect:
  assumes run: "markStagingObjectDeletedDetailed i k key st now u = (Inr x, v)" and ok: "booksOk L u"
  shows "booksOk L v \<and> evolves born u v"
proof (cases "v = u")
  case True
  then show ?thesis using ok evolves_refl by blast
next
  case False
  from run False have st: "st \<noteq> PART_DELETED" by (auto simp: markStagingObjectDeletedDetailed_def ret_iff)
  from run False obtain s where s: "findSession i (u_sessions u) = Some s"
    by (cases "findSession i (u_sessions u)")
      (auto simp: markStagingObjectDeletedDetailed_def transaction_ok bind_iff gets_iff ret_iff split: if_splits)
  from run False s obtain usage u1 where l: "lockUsage (ss_namespaceId s) u = (Inr usage, u1)"
    and rest: "(case findSession i (u_sessions u1) of None \<Rightarrow> ret unapplied
      | Some c \<Rightarrow> deleteStagedPart c k key st usage now) u1 = (Inr x, v)"
    unfolding markStagingObjectDeletedDetailed_def
    by (simp add: transaction_ok bind_iff [of "gets f" for f] bind_iff [of "lockUsage n" for n] gets_iff ret_iff split: if_splits) blast
  note lo = lockUsage_ok [OF l ok]
  have s1: "findSession i (u_sessions u1) = Some s" using s lo(3) by simp
  with rest have "deleteStagedPart s k key st usage now u1 = (Inr x, v)" by simp
  from deleteStagedPart_effect [OF this lo(1) st lo(2)] findSession_SomeD [OF s1]
  have "booksOk L v \<and> evolves born u1 v" by blast
  with l ok show ?thesis by (rule locked_effect)
qed

section \<open>Pruning\<close>

text \<open>A session that has ended, holds no reservation and left no tombstone never gets one again.\<close>

definition sealed :: "uploads \<Rightarrow> uuid \<Rightarrow> bool" where
  "sealed u i \<longleftrightarrow> (\<forall>s\<in>set (u_sessions u). ss_id s = i \<longrightarrow> terminal (ss_state s)) \<and>
     (\<forall>p\<in>set (u_parts u). up_sessionId p = i \<longrightarrow> up_state p \<noteq> RESERVED) \<and> (\<forall>t\<in>set (u_tombstones u). sc_sessionId t \<noteq> i)"

lemma evolves_sealed:
  assumes "evolves born u v" and "sealed u i" and "i \<notin> born"
  shows "sealed v i"
proof -
  from assms(1) have s: "\<And>s s'. s \<in> set (u_sessions u) \<Longrightarrow> terminal (ss_state s) \<Longrightarrow> s' \<in> set (u_sessions v) \<Longrightarrow> ss_id s' = ss_id s \<Longrightarrow> s' = s"
    "\<And>s'. s' \<in> set (u_sessions v) \<Longrightarrow> ss_id s' \<in> ss_id ` set (u_sessions u) \<union> born"
    unfolding evolves_def sessionsEvolve_def by blast+
  have "terminal (ss_state s')" if s': "s' \<in> set (u_sessions v)" "ss_id s' = i" for s'
  proof -
    from s(2) [OF s'(1)] s'(2) assms(3) obtain q where q: "q \<in> set (u_sessions u)" "ss_id q = i" by auto
    with assms(2) have t: "terminal (ss_state q)" by (simp add: sealed_def)
    have "s' = q" by (rule s(1) [OF q(1) t s'(1)]) (use q s' in simp)
    with t show ?thesis by simp
  qed
  moreover have "up_state p \<noteq> RESERVED" if "p \<in> set (u_parts v)" "up_sessionId p = i" for p
    using assms(1,2) that by (auto simp: evolves_def partsEvolve_def sealed_def)
  moreover have "sc_sessionId t \<noteq> i" if "t \<in> set (u_tombstones v)" for t
    using assms(1,2) that by (auto simp: evolves_def tombstonesEvolve_def sealed_def)
  ultimately show ?thesis by (simp add: sealed_def)
qed

lemma prunable_sealed: "i \<in> set (prunableSessions before n u) \<Longrightarrow> booksOk L u \<Longrightarrow> sealed u i"
proof -
  assume "i \<in> set (prunableSessions before n u)" "booksOk L u"
  then obtain s where s: "s \<in> set (u_sessions u)" "ss_id s = i" "terminal (ss_state s)" "unencumbered u i"
    by (auto simp: prunableSessions_def terminalBefore_def dest!: in_set_takeD)
  have "s' = s" if "s' \<in> set (u_sessions u)" "ss_id s' = i" for s'
    using that s uploadsOk_keys [OF \<open>booksOk L u\<close>] by (auto simp: distinct_map inj_on_def)
  then have "\<forall>s'\<in>set (u_sessions u). ss_id s' = i \<longrightarrow> terminal (ss_state s')" using s(3) by metis
  moreover from s(4) have "\<forall>p\<in>set (u_parts u). up_sessionId p = i \<longrightarrow> up_state p \<noteq> RESERVED" "\<forall>t\<in>set (u_tombstones u). sc_sessionId t \<noteq> i"
    unfolding unencumbered_def by (metis upload_part_state.distinct(5), blast)
  ultimately show "sealed u i" by (simp add: sealed_def)
qed

lemma deleteSessions_evolves:
  assumes "deleteSessions P u = (Inr n, v)" and "booksOk L u"
  shows "evolves born u v"
  using assms(1) by (auto simp: deleteSessions_def evolves_def evolve_rules uploadsOk_keys [OF assms(2)])

lemma pruneSession_effect:
  assumes run: "pruneSession before i u = (Inr x, v)" and ok: "booksOk L u" and sl: "sealed u i"
  shows "booksOk L v \<and> evolves born u v"
proof (cases "v = u")
  case True
  then show ?thesis using ok evolves_refl by blast
next
  case False
  let ?P = "\<lambda>s. ss_id s = i \<and> terminalBefore before s"
  let ?R = "\<lambda>p. up_sessionId p = i \<and> up_state p \<in> {RESERVED, STORED, CLEANUP}"
  from run False obtain n where none: "affectedRows ?R (u_parts u) = 0" and del: "deleteSessions ?P u = (Inr n, v)"
    unfolding pruneSession_def countRemaining_def deletePruned_def transaction_ok by (auto simp: bind_iff gets_iff ret_iff split: if_splits)
  have "unencumbered u i"
    unfolding unencumbered_def
  proof (intro conjI notI)
    assume "\<exists>p\<in>set (u_parts u). up_sessionId p = i \<and> up_state p \<noteq> PART_DELETED"
    then obtain p where p: "p \<in> set (u_parts u)" "up_sessionId p = i" "up_state p \<noteq> PART_DELETED" by blast
    then have "?R p" by (cases "up_state p") simp_all
    with p(1) none show False by (auto simp: affectedRows_def filter_empty_conv)
  qed (use sl in \<open>auto simp: sealed_def\<close>)
  then have "owed L v [] 0 0"
    by (intro owed_sessions_delete [OF ok_owed [OF ok] _ del]) (auto simp: terminalBefore_def)
  then show ?thesis using deleteSessions_evolves [OF del ok] by (simp add: owed_zero)
qed

text \<open>
  The second statement alone. By then a part of the session may be charged again; the cascade takes
  it, and no usage row gives its bytes back.
\<close>

definition droppedBy :: "time \<Rightarrow> uuid \<Rightarrow> uploads \<Rightarrow> (jstring \<times> int) list" where
  "droppedBy before i u =
     (case findSession i (u_sessions u) of
        None \<Rightarrow> []
      | Some s \<Rightarrow> if terminalBefore before s
          then map (\<lambda>p. (ss_namespaceId s, up_sizeBytes p)) (filter (\<lambda>p. up_sessionId p = i \<and> up_state p \<noteq> PART_DELETED) (u_parts u))
          else [])"

definition lostBytes :: "(jstring \<times> int) list \<Rightarrow> jstring option \<Rightarrow> int" where
  "lostBytes dropped sc = sum_list (map snd (filter (\<lambda>d. inScope sc (Some (fst d))) dropped))"

lemma lostBytes_append [simp]: "lostBytes (xs @ ys) sc = lostBytes xs sc + lostBytes ys sc"
  by (simp add: lostBytes_def)

lemma lostBytes_Nil [simp]: "lostBytes [] = (\<lambda>_. 0)"
  by (rule ext) (simp add: lostBytes_def)

lemma lostBytes_parts:
  assumes "\<And>p. p \<in> set ps \<Longrightarrow> up_sessionId p = i" and "owner ss i = Some ns"
  shows "weigh (chargedPart ss sc) ps = lostBytes (map (\<lambda>p. (ns, up_sizeBytes p)) (filter (\<lambda>p. up_state p \<noteq> PART_DELETED) ps)) sc"
  using assms(1) by (induction ps) (auto simp: lostBytes_def chargedPart_def weigh_def assms(2))

lemma deletePruned_effect:
  assumes run: "deletePruned before i u = (Inr n, v)" and ok: "booksOk L u" and sl: "sealed u i"
  shows "booksOk (\<lambda>sc. L sc + lostBytes (droppedBy before i u) sc) v \<and> evolves born u v"
proof -
  let ?P = "\<lambda>s. ss_id s = i \<and> terminalBefore before s"
  let ?Q = "\<lambda>p. \<exists>s\<in>set (u_sessions u). ?P s \<and> ss_id s = up_sessionId p"
  have k: "keysOk u" using ok by (simp add: booksOk_def)
  have del: "deleteSessions ?P u = (Inr n, v)" using run by (simp add: deletePruned_def)
  have e: "terminal (ss_state s) \<and> (\<forall>t\<in>set (u_tombstones u). sc_sessionId t \<noteq> ss_id s)" if "s \<in> set (u_sessions u)" "?P s" for s
    using that sl by (auto simp: terminalBefore_def sealed_def)
  note d = sessions_delete [OF k del e]
  have charge: "weigh (chargedPart (u_sessions u) sc) (filter ?Q (u_parts u)) = lostBytes (droppedBy before i u) sc" for sc
  proof (cases "\<exists>s\<in>set (u_sessions u). ?P s")
    case True
    then obtain s where s: "s \<in> set (u_sessions u)" "?P s" by blast
    have f: "findSession i (u_sessions u) = Some s"
      using session_rows.find_by_key [OF uploadsOk_keys [OF ok] s(1)] s(2) by (simp add: findSession_def)
    have q: "filter ?Q (u_parts u) = filter (\<lambda>p. up_sessionId p = i) (u_parts u)" using s by (intro filter_cong) auto
    have "owner (u_sessions u) i = Some (ss_namespaceId s)" by (simp add: owner_def f)
    from lostBytes_parts [OF _ this, of "filter (\<lambda>p. up_sessionId p = i) (u_parts u)" sc] s(2)
    show ?thesis unfolding q by (simp add: droppedBy_def f conj_commute)
  next
    case False
    then have "droppedBy before i u = []" by (auto simp: droppedBy_def findSession_def dest: findRow_SomeD split: option.splits)
    moreover have "filter ?Q (u_parts u) = []" using False by (auto simp: filter_empty_conv)
    ultimately show ?thesis by (simp add: weigh_def)
  qed
  have "booksOk (\<lambda>sc. L sc + lostBytes (droppedBy before i u) sc) v"
    using ok d(1,3) d(2,4) charge by (simp add: booksOk_def usedActive_def usedBytes_def)
  with deleteSessions_evolves [OF del ok] show ?thesis by blast
qed

lemma deleteSettledSessions_effect:
  assumes run: "deleteSettledSessions ns u = (Inr x, v)" and ok: "booksOk L u"
  shows "booksOk L v \<and> evolves born u v"
proof -
  from run obtain usage u1 where l: "lockUsage ns u = (Inr usage, u1)"
    and del: "deleteSessions (\<lambda>s. ss_namespaceId s = ns \<and> terminal (ss_state s) \<and> unencumbered u1 (ss_id s)) u1 = (Inr x, v)"
    unfolding deleteSettledSessions_def transaction_ok by (elim monad_elims) blast
  note lo = lockUsage_ok [OF l ok]
  have "owed L v ns 0 0" by (intro owed_sessions_delete [OF ok_owed [OF lo(1)] _ del]) auto
  then have "booksOk L v \<and> evolves born u1 v" using deleteSessions_evolves [OF del lo(1)] by (simp add: owed_zero)
  with l ok show ?thesis by (rule locked_effect)
qed


section \<open>The methods keep the contract\<close>

text \<open>The finalisation of an upload: both calls run in the transaction of one node mutation.\<close>

definition finalizeMutation :: "jstring \<Rightarrow> uuid \<Rightarrow> uuid \<Rightarrow> time \<Rightarrow> time \<Rightarrow> time \<Rightarrow> int \<Rightarrow> jstring \<Rightarrow> jstring \<Rightarrow> time \<Rightarrow> unit upl" where
  "finalizeMutation ns sessionId token now leaseExpiresAt lockedNow status body requestId completedAt = transaction (
     andThen (fenceFinalize ns sessionId token now leaseExpiresAt lockedNow)
       (completeFinalize ns sessionId token status body requestId completedAt))"

lemma sessionsEvolve_trans:
  assumes "sessionsEvolve born ss ss1" and "sessionsEvolve born ss1 ss2" and "ss_id ` set ss1 = ss_id ` set ss"
  shows "sessionsEvolve born ss ss2"
  unfolding sessionsEvolve_def
proof (intro conjI ballI impI)
  fix s s' assume s: "s \<in> set ss" "terminal (ss_state s)" "s' \<in> set ss2" "ss_id s' = ss_id s"
  from s(1) assms(3) obtain q where q: "q \<in> set ss1" "ss_id q = ss_id s" by (metis imageE imageI)
  have "q = s" using assms(1) s q unfolding sessionsEvolve_def by blast
  then show "s' = s" using assms(2) s q unfolding sessionsEvolve_def by blast
next
  fix s' assume "s' \<in> set ss2"
  then show "ss_id s' \<in> ss_id ` set ss \<union> born" using assms(2,3) unfolding sessionsEvolve_def by auto
qed

lemma lockUsage_tables: "lockUsage ns u = (Inr rows, v) \<Longrightarrow> u_sessions v = u_sessions u \<and> u_parts v = u_parts u \<and> u_tombstones v = u_tombstones u"
  unfolding lockUsage_def by (elim monad_elims, drule readLocked_run(1), erule ensureUsageRow_run, auto dest: readLocked_run)

lemma fenceFinalize_tables:
  assumes "fenceFinalize ns i token now exp lockedNow u = (Inr x, v)"
  shows "ss_id ` set (u_sessions v) = ss_id ` set (u_sessions u) \<and> u_parts v = u_parts u \<and> u_tombstones v = u_tombstones u"
proof -
  let ?P = "\<lambda>r. holdsClaim ns i token r \<and> leaseAfter lockedNow r"
  let ?f = "\<lambda>r. r\<lparr> ss_leaseExpiresAt := Some (lockedNow + (exp - now)), ss_updatedAt := lockedNow \<rparr>"
  from assms obtain usage u1 n where l: "lockUsage ns u = (Inr usage, u1)" and up: "updateSessions ?P ?f u1 = (Inr n, v)"
    unfolding fenceFinalize_def by (elim monad_elims) (auto simp: monad_simps)
  have "ss_id ` set (updateRows ?P ?f (u_sessions u1)) = ss_id ` set (u_sessions u1)"
    unfolding set_updateRows image_image by (rule image_cong) simp_all
  with lockUsage_tables [OF l] updateSessions_run [OF up] show ?thesis by simp
qed

lemma changeUsage_tables: "changeUsage rows f a u = (Inr x, v) \<Longrightarrow> u_sessions v = u_sessions u \<and> u_parts v = u_parts u \<and> u_tombstones v = u_tombstones u"
  by (auto simp: changeUsage_def changeUsageRow_def monad_simps)

lemma completeFinalize_tables:
  assumes "completeFinalize ns i token st body rid now u = (Inr x, v)"
  shows "u_parts v = u_parts u \<and> u_tombstones v = u_tombstones u"
  using assms unfolding completeFinalize_def
  by (elim monad_elims) (auto dest!: changeUsage_tables lockUsage_tables updateSessions_run)

lemma finalizeMutation_effect:
  assumes run: "finalizeMutation ns i token now exp lockedNow st body rid completedAt u = (Inr x, v)" and ok: "booksOk L u"
  shows "booksOk L v \<and> evolves born u v"
proof -
  from run obtain y u1 where f: "fenceFinalize ns i token now exp lockedNow u = (Inr y, u1)"
    and c: "completeFinalize ns i token st body rid completedAt u1 = (Inr x, v)"
    unfolding finalizeMutation_def transaction_ok by (elim monad_elims) blast
  note e1 = fenceFinalize_effect [OF f ok, where born = born] and t1 = fenceFinalize_tables [OF f]
  note e2 = completeFinalize_effect [OF c conjunct1 [OF e1], where born = born] and t2 = completeFinalize_tables [OF c]
  have "sessionsEvolve born (u_sessions u) (u_sessions v)"
    by (rule sessionsEvolve_trans [of born _ "u_sessions u1"]) (use e1 e2 t1 in \<open>simp_all add: evolves_def\<close>)
  then show ?thesis using e1 e2 t1 t2 by (simp add: evolves_def evolve_rules)
qed

text \<open>The methods of the repository, as requests.\<close>

datatype upload_request =
    CreateSession create_session_input upload_caps
  | ReservePart uuid int int jstring upload_caps time int
  | CommitPart uuid int jstring "jstring option" "jstring option" "int option" time
  | RenewPartLease uuid int jstring int time
  | RetireReservation uuid int jstring time
  | ReleaseReservation uuid int bool "jstring option" time
  | CancelSession jstring uuid time
  | ExpireSession jstring uuid time
  | ClaimFinalize jstring uuid int time time uuid
  | RenewFinalize jstring uuid uuid time time time
  | FinalizeMutation jstring uuid uuid time time time int jstring jstring time
  | FailFinalize jstring uuid uuid jstring jstring time
  | ReleaseFinalize jstring uuid uuid jstring time time
  | RenewSession jstring uuid int time
  | ReopenStale time "uuid list"
  | MarkTombstoneDeleted jstring "time option" time
  | MarkStagingDeleted uuid int jstring upload_part_state time
  | DeleteSettled jstring

definition silently :: "'a upl \<Rightarrow> unit upl" where
  "silently p = bind p (\<lambda>_. ret ())"

fun serveUpload :: "upload_request \<Rightarrow> unit upl" where
  "serveUpload (CreateSession input caps) = silently (createSession input caps)"
| "serveUpload (ReservePart i k amount key caps now lease) = silently (reservePart i k amount key caps now lease)"
| "serveUpload (CommitPart i k digest iv key secs now) = silently (commitPart i k digest iv key secs now)"
| "serveUpload (RenewPartLease i k key secs now) = silently (renewPartLease i k key secs now)"
| "serveUpload (RetireReservation i k key now) = silently (retireExpiredPartReservation i k key now)"
| "serveUpload (ReleaseReservation i k may key now) = silently (releasePartReservationAccounting i k may key now)"
| "serveUpload (CancelSession ns i now) = silently (claimTerminalTransition ns i CANCELLED now)"
| "serveUpload (ExpireSession ns i now) = silently (claimTerminalTransition ns i EXPIRED now)"
| "serveUpload (ClaimFinalize ns i ms now claimNow token) = silently (claimFinalize ns i ms now claimNow token)"
| "serveUpload (RenewFinalize ns i token now exp lockedNow) = silently (renewFinalize ns i token now exp lockedNow)"
| "serveUpload (FinalizeMutation ns i token now exp lockedNow st body rid t) = finalizeMutation ns i token now exp lockedNow st body rid t"
| "serveUpload (FailFinalize ns i token body rid now) = silently (failFinalize ns i token body rid now)"
| "serveUpload (ReleaseFinalize ns i token code failedAt now) = silently (releaseFinalize ns i token code failedAt now)"
| "serveUpload (RenewSession ns i secs now) = silently (renewSession ns i secs now)"
| "serveUpload (ReopenStale now ids) = silently (reopenStale now ids)"
| "serveUpload (MarkTombstoneDeleted key obs now) = silently (markTombstoneDeletedDetailed key obs now)"
| "serveUpload (MarkStagingDeleted i k key st now) = silently (markStagingObjectDeletedDetailed i k key st now)"
| "serveUpload (DeleteSettled ns) = silently (deleteSettledSessions ns)"

fun bornBy :: "upload_request \<Rightarrow> uuid set" where
  "bornBy (CreateSession input caps) = {ci_id input}"
| "bornBy _ = {}"

interpretation create_work: upload_work "createSession input caps" "{ci_id input}" for input caps
  by unfold_locales (rule createSession_effect)
interpretation reserve_work: upload_work "reservePart i k amount key caps now lease" born for i k amount key caps now lease born
  by unfold_locales (rule reservePart_effect)
interpretation commit_work: upload_work "commitPart i k digest iv key secs now" born for i k digest iv key secs now born
  by unfold_locales (rule commitPart_effect)
interpretation lease_work: upload_work "renewPartLease i k key secs now" born for i k key secs now born
  by unfold_locales (rule renewPartLease_effect)
interpretation retire_work: upload_work "retireExpiredPartReservation i k key now" born for i k key now born
  by unfold_locales (rule retireExpiredPartReservation_effect)
interpretation release_work: upload_work "releasePartReservationAccounting i k may key now" born for i k may key now born
  by unfold_locales (rule releasePartReservationAccounting_effect)
interpretation cancel_work: upload_work "claimTerminalTransition ns i CANCELLED now" born for ns i now born
  by unfold_locales (erule claimTerminalTransition_effect, assumption, simp add: terminal_def)
interpretation expire_work: upload_work "claimTerminalTransition ns i EXPIRED now" born for ns i now born
  by unfold_locales (erule claimTerminalTransition_effect, assumption, simp add: terminal_def)
interpretation claim_work: upload_work "claimFinalize ns i ms now claimNow token" born for ns i ms now claimNow token born
  by unfold_locales (rule claimFinalize_effect)
interpretation renew_work: upload_work "renewFinalize ns i token now exp lockedNow" born for ns i token now exp lockedNow born
  by unfold_locales (rule renewFinalize_effect)
interpretation finalize_work: upload_work "finalizeMutation ns i token now exp lockedNow st body rid t" born
  for ns i token now exp lockedNow st body rid t born
  by unfold_locales (rule finalizeMutation_effect)
interpretation fail_work: upload_work "failFinalize ns i token body rid now" born for ns i token body rid now born
  by unfold_locales (rule failFinalize_effect)
interpretation reopen_work: upload_work "releaseFinalize ns i token code failedAt now" born for ns i token code failedAt now born
  by unfold_locales (rule releaseFinalize_effect)
interpretation session_work: upload_work "renewSession ns i secs now" born for ns i secs now born
  by unfold_locales (rule renewSession_effect)
interpretation stale_work: upload_work "reopenStale now ids" born for now ids born
  by unfold_locales (rule reopenStale_effect)
interpretation tombstone_work: upload_work "markTombstoneDeletedDetailed key obs now" born for key obs now born
  by unfold_locales (rule markTombstoneDeletedDetailed_effect)
interpretation staging_work: upload_work "markStagingObjectDeletedDetailed i k key st now" born for i k key st now born
  by unfold_locales (rule markStagingObjectDeletedDetailed_effect)
interpretation settle_work: upload_work "deleteSettledSessions ns" born for ns born
  by unfold_locales (rule deleteSettledSessions_effect)

lemmas upload_effects = create_work.effect reserve_work.effect commit_work.effect lease_work.effect retire_work.effect
  release_work.effect cancel_work.effect expire_work.effect claim_work.effect renew_work.effect finalize_work.effect
  fail_work.effect reopen_work.effect session_work.effect stale_work.effect tombstone_work.effect staging_work.effect
  settle_work.effect

lemma silently_run: "silently p u = (Inr x, v) \<Longrightarrow> \<exists>y. p u = (Inr y, v)"
  by (auto simp: silently_def monad_simps)

lemma serveUpload_success:
  assumes "serveUpload r u = (Inr x, v)" and "booksOk L u"
  shows "booksOk L v \<and> evolves (bornBy r) u v"
  using assms by (cases r) (auto dest!: silently_run dest: upload_effects)

text \<open>A method that throws leaves the tables as they were.\<close>

lemma silently_fail: "silently p u = (Inl e, v) \<Longrightarrow> p u = (Inl e, v)"
  by (auto simp: silently_def bind_def ret_def split: prod.splits sum.splits)

lemma updates_never_fail:
  "releaseFinalize ns i token code failedAt now u \<noteq> (Inl e, v)" "reopenStale now ids u \<noteq> (Inl e, v)"
  by (simp_all add: releaseFinalize_def reopenStale_def updateSessions_def bind_def ret_def)

lemma serveUpload_rollback:
  assumes "serveUpload r u = (Inl e, v)"
  shows "v = u"
  using assms
  by (cases r)
    (auto dest!: silently_fail transaction_fail simp: createSession_def reservePart_def commitPart_def renewPartLease_def
      retireExpiredPartReservation_def releasePartReservationAccounting_def claimTerminalTransition_def claimFinalize_def
      renewFinalize_def finalizeMutation_def failFinalize_def renewSession_def markTombstoneDeletedDetailed_def
      markStagingObjectDeletedDetailed_def deleteSettledSessions_def updates_never_fail ret_def split: if_splits)

lemma serveUpload_effect:
  assumes "serveUpload r u = (res, v)" and "booksOk L u"
  shows "booksOk L v \<and> evolves (bornBy r) u v"
proof (cases res)
  case (Inl e)
  with assms serveUpload_rollback evolves_refl show ?thesis by blast
next
  case (Inr x)
  with assms serveUpload_success show ?thesis by blast
qed

section \<open>Histories\<close>

text \<open>
  A configuration is the tables, the sessions a pruning run has listed and not yet visited (the first
  of them perhaps already counted), the session ids drawn so far, since a new session draws a new one,
  and a record of the charged parts that pruning has dropped. A step is a method of the repository,
  with whatever outcome, or a statement of the pruning run; only on SQLite is the transaction for one
  session a single step.
\<close>

datatype prune_task = Listed uuid | Counted uuid

fun taskSession :: "prune_task \<Rightarrow> uuid" where
  "taskSession (Listed i) = i"
| "taskSession (Counted i) = i"

type_synonym upload_config = "uploads \<times> prune_task list \<times> uuid set \<times> (jstring \<times> int) list"

inductive uploadStep :: "bool \<Rightarrow> upload_request option \<Rightarrow> upload_config \<Rightarrow> upload_config \<Rightarrow> bool" for sqlite where
  request: "bornBy r \<inter> known = {} \<Longrightarrow> serveUpload r u = (res, v) \<Longrightarrow>
    uploadStep sqlite (Some r) (u, pending, known, dropped) (v, pending, bornBy r \<union> known, dropped)"
| listing: "uploadStep sqlite None (u, pending, known, dropped) (u, map Listed (prunableSessions before n u), known, dropped)"
| pruning: "pruneSession before i u = (res, v) \<Longrightarrow>
    uploadStep sqlite None (u, Listed i # pending, known, dropped) (v, pending, known, dropped)"
| counting: "\<not> sqlite \<Longrightarrow> countRemaining i u = (Inr remaining, v) \<Longrightarrow>
    uploadStep sqlite None (u, Listed i # pending, known, dropped) (v, (if remaining = 0 then [Counted i] else []) @ pending, known, dropped)"
| deleting: "\<not> sqlite \<Longrightarrow> deletePruned before i u = (Inr n, v) \<Longrightarrow>
    uploadStep sqlite None (u, Counted i # pending, known, dropped) (v, pending, known, dropped @ droppedBy before i u)"

inductive uploadHistory :: "bool \<Rightarrow> upload_config \<Rightarrow> upload_config \<Rightarrow> bool" for sqlite where
  start: "uploadHistory sqlite c c"
| step: "uploadHistory sqlite c c1 \<Longrightarrow> uploadStep sqlite label c1 c2 \<Longrightarrow> uploadHistory sqlite c c2"

definition configOk :: "upload_config \<Rightarrow> bool" where
  "configOk c = (case c of (u, pending, known, dropped) \<Rightarrow> booksOk (lostBytes dropped) u \<and> ss_id ` set (u_sessions u) \<subseteq> known \<and>
     (\<forall>task\<in>set pending. sealed u (taskSession task) \<and> taskSession task \<in> known))"

lemma evolves_known: "evolves born u v \<Longrightarrow> ss_id ` set (u_sessions u) \<subseteq> known \<Longrightarrow> ss_id ` set (u_sessions v) \<subseteq> born \<union> known"
  by (fastforce simp: evolves_def sessionsEvolve_def)

lemma pruneSession_any:
  assumes "pruneSession before i u = (res, v)" and "booksOk L u" and "sealed u i"
  shows "booksOk L v \<and> evolves born u v"
proof (cases res)
  case (Inl e)
  with assms(1) have "v = u" unfolding pruneSession_def by (auto dest: transaction_fail)
  with assms(2) evolves_refl show ?thesis by blast
next
  case (Inr x)
  with assms pruneSession_effect show ?thesis by blast
qed

lemma prunable_known: "i \<in> set (prunableSessions before n u) \<Longrightarrow> i \<in> ss_id ` set (u_sessions u)"
  by (auto simp: prunableSessions_def dest!: in_set_takeD)

text \<open>A step that keeps the books and evolves the rows keeps the configuration in order.\<close>

lemma configOk_evolves:
  assumes "configOk (u, pending, known, dropped)" and "booksOk (lostBytes dropped') v" and "evolves born u v" and "born \<inter> known = {}"
    and "taskSession ` set pending' \<subseteq> taskSession ` set pending"
  shows "configOk (v, pending', born \<union> known, dropped')"
proof -
  have c: "ss_id ` set (u_sessions u) \<subseteq> known" "\<And>t. t \<in> set pending \<Longrightarrow> sealed u (taskSession t) \<and> taskSession t \<in> known"
    using assms(1) by (auto simp: configOk_def)
  have "sealed v (taskSession t) \<and> taskSession t \<in> known" if "t \<in> set pending'" for t
  proof -
    from that assms(5) obtain q where q: "q \<in> set pending" "taskSession q = taskSession t" by (metis imageE imageI subsetD)
    with c(2) [OF q(1)] evolves_sealed [OF assms(3)] assms(4) show ?thesis by auto
  qed
  with assms(2) evolves_known [OF assms(3) c(1)] show ?thesis by (auto simp: configOk_def)
qed

text \<open>What a step does to the tables, whichever it is.\<close>

lemma uploadStep_effect:
  assumes "uploadStep sqlite label c c'" and "configOk c"
  shows "configOk c' \<and> (\<exists>born. evolves born (fst c) (fst c') \<and> born \<inter> fst (snd (snd c)) = {} \<and> fst (snd (snd c)) \<subseteq> fst (snd (snd c')))"
  using assms
proof cases
  case (request r known u res v pending dropped)
  with assms(2) have "booksOk (lostBytes dropped) v \<and> evolves (bornBy r) u v"
    using serveUpload_effect [of r u res v "lostBytes dropped"] by (simp add: configOk_def)
  with request assms(2) configOk_evolves [of u pending known dropped dropped v "bornBy r" pending] show ?thesis by auto
next
  case (listing u pending known dropped before n)
  with assms(2) have ok: "booksOk (lostBytes dropped) u" "ss_id ` set (u_sessions u) \<subseteq> known" by (simp_all add: configOk_def)
  then have "configOk (u, map Listed (prunableSessions before n u), known, dropped)"
    using prunable_sealed [OF _ ok(1)] prunable_known by (fastforce simp: configOk_def)
  moreover have "evolves {} u u" by (rule evolves_refl [OF ok(1)])
  ultimately show ?thesis using listing by auto
next
  case (pruning before i u res v pending known dropped)
  with assms(2) have "booksOk (lostBytes dropped) v \<and> evolves {} u v"
    using pruneSession_any [of before i u res v "lostBytes dropped"] by (simp add: configOk_def)
  with pruning assms(2) configOk_evolves [of u "Listed i # pending" known dropped dropped v "{}" pending] show ?thesis by auto
next
  case (counting i u remaining v pending known dropped)
  then have v: "v = u" by (simp add: countRemaining_def gets_def)
  with counting assms(2) have "configOk (v, (if remaining = 0 then [Counted i] else []) @ pending, known, dropped)"
    by (auto simp: configOk_def)
  moreover have "booksOk (lostBytes dropped) u" using assms(2) counting by (simp add: configOk_def)
  then have "evolves {} u u" by (rule evolves_refl)
  ultimately show ?thesis using counting v by auto
next
  case (deleting before i u n v pending known dropped)
  with assms(2) have "booksOk (\<lambda>sc. lostBytes dropped sc + lostBytes (droppedBy before i u) sc) v \<and> evolves {} u v"
    using deletePruned_effect [of before i u n v "lostBytes dropped"] by (simp add: configOk_def)
  then have "booksOk (lostBytes (dropped @ droppedBy before i u)) v \<and> evolves {} u v" by (simp add: booksOk_def)
  with deleting assms(2) configOk_evolves [of u "Counted i # pending" known dropped "dropped @ droppedBy before i u" v "{}" pending]
  show ?thesis by auto
qed

lemma uploadHistory_ok: "uploadHistory sqlite c c' \<Longrightarrow> configOk c \<Longrightarrow> configOk c'"
  by (induction rule: uploadHistory.induct) (auto dest: uploadStep_effect)

lemma uploadHistory_known:
  assumes "uploadHistory sqlite c c'" and "configOk c"
  shows "fst (snd (snd c)) \<subseteq> fst (snd (snd c'))"
  using assms
proof (induction rule: uploadHistory.induct)
  case (step c c1 label c2)
  then show ?case using uploadStep_effect [OF step.hyps(2) uploadHistory_ok [OF step.hyps(1) step.prems]] by blast
qed simp

text \<open>On SQLite pruning drops nothing that is charged.\<close>

lemma uploadStep_sqlite: "uploadStep True label c c' \<Longrightarrow> snd (snd (snd c')) = snd (snd (snd c))"
  by (erule uploadStep.cases) simp_all

lemma uploadHistory_sqlite: "uploadHistory True c c' \<Longrightarrow> snd (snd (snd c')) = snd (snd (snd c))"
  by (induction rule: uploadHistory.induct) (simp_all add: uploadStep_sqlite)

lemma evolves_settled:
  assumes "evolves born u v" and "\<And>q. q \<in> set (u_sessions u) \<Longrightarrow> ss_id q = ss_id s \<Longrightarrow> q = s" and "terminal (ss_state s)"
    and "ss_id s \<notin> born" and "s' \<in> set (u_sessions v)" and "ss_id s' = ss_id s"
  shows "s' = s"
proof -
  have "ss_id s' \<in> ss_id ` set (u_sessions u) \<union> born" using assms(1,5) by (simp add: evolves_def sessionsEvolve_def)
  with assms(4,6) obtain q where q: "q \<in> set (u_sessions u)" "ss_id q = ss_id s" by auto
  then have "q = s" by (rule assms(2))
  with q(1) assms(1,3,5,6) show ?thesis unfolding evolves_def sessionsEvolve_def by blast
qed

text \<open>A session that has ended keeps its row for as long as it exists.\<close>

lemma uploadHistory_settled:
  assumes "uploadHistory sqlite c c'" and "configOk c" and "s \<in> set (u_sessions (fst c))" and "terminal (ss_state s)"
    and "s' \<in> set (u_sessions (fst c'))" and "ss_id s' = ss_id s"
  shows "s' = s"
  using assms
proof (induction arbitrary: s' rule: uploadHistory.induct)
  case (start c)
  then have "distinct (map ss_id (u_sessions (fst c)))" by (cases c) (auto simp: configOk_def dest: uploadsOk_keys)
  with start show ?case by (auto simp: distinct_map inj_on_def)
next
  case (step c c1 label c2)
  have ok: "configOk c1" by (rule uploadHistory_ok [OF step.hyps(1) step.prems(1)])
  from uploadStep_effect [OF step.hyps(2) ok] obtain born where
    born: "evolves born (fst c1) (fst c2)" "born \<inter> fst (snd (snd c1)) = {}" by blast
  have "ss_id s \<in> fst (snd (snd c))" using step.prems(1,2) by (cases c) (auto simp: configOk_def)
  then have "ss_id s \<notin> born" using uploadHistory_known [OF step.hyps(1) step.prems(1)] born(2) by blast
  with born(1) show ?case
    using step.IH [OF step.prems(1,2,3)] step.prems(3,4,5) by (intro evolves_settled [of born "fst c1" "fst c2" s s']) simp_all
qed

end
