(* ===== verification/UploadFacts.thy ===== *)
theory UploadFacts
  imports UploadHistory
begin

text \<open>
  What the methods of the upload repository promise their callers: caps are respected, creation can
  be retried, one worker finalises a session, and a refund is exactly what the books lose.
\<close>

section \<open>Caps\<close>

lemma changeUsage_rows:
  assumes "changeUsage rows f a u2 = (Inr z, v)" and "lockedRows rows ns u" and "keysOk u" and "u_usage u2 = u_usage u"
  shows "usedBytes v sc = usedBytes u sc + (if f = StagedBytes \<and> inScope sc (Some ns) then a else 0)"
    "usedActive v sc = usedActive u sc + (if f = ActiveSessions \<and> inScope sc (Some ns) then a else 0)"
proof -
  let ?w = "u\<lparr> u_usage := u_usage v \<rparr>"
  have ch: "changeUsage rows f a u = (Inr z, ?w)"
    using assms(1) assms(4) by (auto simp: changeUsage_def changeUsageRow_def monad_simps)
  have same: "usedBytes v sc = usedBytes ?w sc" "usedActive v sc = usedActive ?w sc" for sc
    by (simp_all add: usedBytes_def usedActive_def)
  show "usedBytes v sc = usedBytes u sc + (if f = StagedBytes \<and> inScope sc (Some ns) then a else 0)"
    "usedActive v sc = usedActive u sc + (if f = ActiveSessions \<and> inScope sc (Some ns) then a else 0)"
    unfolding same by (rule changeUsage_run [OF ch assms(2,3)], simp)+
qed

text \<open>Staging bytes are admitted only within both caps, and are counted exactly.\<close>

lemma admitPart_caps:
  assumes run: "admitPart c k amount key caps usage now lease u = (Inr (PartReserved p), v)" and ok: "uploadsOk u"
    and l: "lockedRows usage (ss_namespaceId c) u"
  shows "usedBytes v None = usedBytes u None + amount \<and> usedBytes v (Some (ss_namespaceId c)) = usedBytes u (Some (ss_namespaceId c)) + amount \<and>
    usedBytes v None \<le> ul_maxStagedBytes (uc_global caps) \<and> usedBytes v (Some (ss_namespaceId c)) \<le> ul_maxStagedBytes (uc_namespace caps) \<and>
    p = newPart (ss_id c) k amount key now lease"
proof -
  let ?ns = "ss_namespaceId c" and ?new = "newPart (ss_id c) k amount key now lease"
  let ?P = "\<lambda>p. up_sessionId p = ss_id c \<and> up_partIndex p = k \<and> up_state p = PART_DELETED"
  from run obtain n u1 y u2 z where
      adm: "assessUploadPartAdmission (ss_sizeBytes c) amount caps (us_stagedBytes (fst usage)) (us_stagedBytes (snd usage)) = PartAllowed"
      and del: "(if findPart (ss_id c) k (u_parts u) = None then ret 0 else deleteParts ?P) u = (Inr n, u1)"
      and ins: "insertPart ?new u1 = (Inr y, u2)" and ch: "changeUsage usage StagedBytes amount u2 = (Inr z, v)" and p: "p = ?new"
    by (auto simp: admitPart_def monad_simps simp del: if_prog_iff split: bool.splits part_admission.splits if_splits)
  have "u_usage u1 = u_usage u" using del by (auto simp: ret_iff deleteParts_def split: if_splits)
  then have us: "u_usage u2 = u_usage u" using insertPart_run(1) [OF ins] by simp
  have "keysOk u" using ok by (simp add: booksOk_def)
  note val = lockedRows_values [OF l \<open>keysOk u\<close>]
  have used: "usedBytes v sc = usedBytes u sc + (if inScope sc (Some ?ns) then amount else 0)" for sc
    using changeUsage_rows(1) [OF ch l \<open>keysOk u\<close> us] by simp
  from adm val have "usedBytes u None + amount \<le> ul_maxStagedBytes (uc_global caps)"
    "usedBytes u (Some ?ns) + amount \<le> ul_maxStagedBytes (uc_namespace caps)"
    by (auto simp: assessUploadPartAdmission_def Let_def split: if_splits)
  with used p show ?thesis by (simp add: inScope_def)
qed


lemma reservePart_caps:
  assumes run: "reservePart i k amount key caps now lease u = (Inr (PartReserved p), v)" and ok: "uploadsOk u"
  obtains ns where "owner (u_sessions u) i = Some ns" "stagedIn v None = stagedIn u None + amount"
    "stagedIn v (Some ns) = stagedIn u (Some ns) + amount"
    "stagedIn v None \<le> ul_maxStagedBytes (uc_global caps)" "stagedIn v (Some ns) \<le> ul_maxStagedBytes (uc_namespace caps)"
proof -
  from run obtain s where s: "findSession i (u_sessions u) = Some s"
    by (cases "findSession i (u_sessions u)") (auto simp: reservePart_def transaction_ok bind_iff gets_iff ret_iff split: if_splits)
  with run obtain usage u1 y u2 where l: "lockUsage (ss_namespaceId s) u = (Inr usage, u1)"
    and act: "uploadNamespaceActive (ss_namespaceId s) u1 = (Inr y, u2)"
    and rest: "(case findSession i (u_sessions u2) of None \<Rightarrow> ret ReserveClosed
      | Some c \<Rightarrow> if sessionClosed c now then ret ReserveClosed else admitPart c k amount key caps usage now lease) u2 = (Inr (PartReserved p), v)"
    unfolding reservePart_def
    by (simp add: transaction_ok bind_iff [of "gets f" for f] bind_iff [of "lockUsage n" for n] andThen_iff gets_iff ret_iff split: if_splits) blast
  note lo = lockUsage_ok [OF l ok]
  have u2: "u2 = u1" using act by (rule uploadNamespaceActive_run)
  have f: "findSession i (u_sessions u1) = Some s" using s lo(3) by simp
  from rest f u2 have a: "admitPart s k amount key caps usage now lease u1 = (Inr (PartReserved p), v)"
    by (simp add: ret_iff split: if_splits)
  note caps = admitPart_caps [OF a lo(1,2)]
  have "uploadsOk v" using reserve_work.effect [OF run ok] by blast
  then have st: "usedBytes v sc = stagedIn v sc" "usedBytes u1 sc = stagedIn u sc" for sc
    using ok lo(8) [of sc] by (simp_all add: booksOk_def)
  have "owner (u_sessions u) i = Some (ss_namespaceId s)" by (simp add: owner_def s)
  with caps that [of "ss_namespaceId s"] show thesis by (simp add: st)
qed

section \<open>Creation\<close>

lemma createSession_parts:
  assumes run: "createSession input caps u = (Inr (SessionCreated s), v)"
  obtains usage u1 u3 y z where "lockUsage (ci_namespaceId input) u = (Inr usage, u1)"
    "uploadNamespaceActive (ci_namespaceId input) u1 = (Inr y, u1)"
    "us_activeSessions (fst usage) < ul_maxActiveSessions (uc_global caps)" "us_activeSessions (snd usage) < ul_maxActiveSessions (uc_namespace caps)"
    "findByCreationKey (ci_namespaceId input) (ci_scope input) (ci_creationKey input) (u_sessions u1) = None"
    "insertSession s u1 = (Inr z, u3)" "s = newSession input" "changeUsage usage ActiveSessions 1 u3 = (Inr (), v)"
proof -
  from run obtain usage u1 y u2 where l: "lockUsage (ci_namespaceId input) u = (Inr usage, u1)"
    and act: "uploadNamespaceActive (ci_namespaceId input) u1 = (Inr y, u2)"
    and rest: "(case findByCreationKey (ci_namespaceId input) (ci_scope input) (ci_creationKey input) (u_sessions u2) of
       Some s \<Rightarrow> ret (if ss_fingerprint s = ci_fingerprint input then SessionReplay s else SessionConflict)
     | None \<Rightarrow>
         if ul_maxActiveSessions (uc_global caps) \<le> us_activeSessions (fst usage) \<or>
            ul_maxActiveSessions (uc_namespace caps) \<le> us_activeSessions (snd usage) then ret SessionLimit
         else andThen (insertSession (newSession input))
           (andThen (changeUsage usage ActiveSessions 1) (ret (SessionCreated (newSession input))))) u2 = (Inr (SessionCreated s), v)"
    unfolding createSession_def transaction_ok by (elim monad_elims) blast
  have u2: "u2 = u1" using act by (rule uploadNamespaceActive_run)
  from rest that [OF l _ _ _ _ _ _, of y] act u2 show thesis
    by (auto simp: monad_simps split: option.splits if_splits)
qed

lemma createSession_caps:
  assumes run: "createSession input caps u = (Inr (SessionCreated s), v)" and ok: "uploadsOk u"
  shows "activeIn v None = activeIn u None + 1 \<and> activeIn v None \<le> ul_maxActiveSessions (uc_global caps) \<and>
    activeIn v (Some (ci_namespaceId input)) = activeIn u (Some (ci_namespaceId input)) + 1 \<and>
    activeIn v (Some (ci_namespaceId input)) \<le> ul_maxActiveSessions (uc_namespace caps)"
proof (rule createSession_parts [OF run])
  fix usage u1 u3 y z
  assume l: "lockUsage (ci_namespaceId input) u = (Inr usage, u1)"
    and cap: "us_activeSessions (fst usage) < ul_maxActiveSessions (uc_global caps)" "us_activeSessions (snd usage) < ul_maxActiveSessions (uc_namespace caps)"
    and ins: "insertSession s u1 = (Inr z, u3)" and ch: "changeUsage usage ActiveSessions 1 u3 = (Inr (), v)"
  note lo = lockUsage_ok [OF l ok]
  have k: "keysOk u1" using lo(1) by (simp add: booksOk_def)
  have us: "u_usage u3 = u_usage u1" using insertSession_run(1) [OF ins] by simp
  have "uploadsOk v" using create_work.effect [OF run ok] by blast
  then have "activeIn v sc = usedActive v sc" "activeIn u sc = usedActive u1 sc" for sc
    using ok lo(7) [of sc] by (simp_all add: booksOk_def)
  with changeUsage_rows(2) [OF ch lo(2) k us] cap lockedRows_values [OF lo(2) k] show ?thesis by (simp add: inScope_def)
qed


text \<open>With both usage rows in place the lock changes nothing.\<close>

lemma lockUsage_ready:
  assumes "js ''global'' \<in> us_id ` set (u_usage u)" and "usageKey ns \<in> us_id ` set (u_usage u)"
  shows "\<exists>rows. lockUsage ns u = (Inr rows, u)"
proof -
  have "findRow (\<lambda>r. us_id r = js ''global'') (u_usage u) \<noteq> None" "findRow (\<lambda>r. us_id r = usageKey ns) (u_usage u) \<noteq> None"
    using assms by (auto simp: findRow_None_iff image_iff)
  moreover from assms(2) have "\<exists>q\<in>set (u_usage u). us_id q = usageKey ns" by auto
  ultimately obtain g r where "findRow (\<lambda>r. us_id r = js ''global'') (u_usage u) = Some g"
    "findRow (\<lambda>r. us_id r = usageKey ns) (u_usage u) = Some r" "\<exists>q\<in>set (u_usage u). us_id q = usageKey ns" by blast
  then show ?thesis
    by (auto simp: lockUsage_def readLocked_def ensureUsageRow_def bind_def andThen_def gets_def ret_def)
qed

lemma lockedRows_ids: "lockedRows rows ns u \<Longrightarrow> js ''global'' \<in> us_id ` set (u_usage u) \<and> usageKey ns \<in> us_id ` set (u_usage u)"
  unfolding lockedRows_def scopeId_def by (auto intro: image_eqI [of _ us_id "fst rows"] image_eqI [of _ us_id "snd rows"])

lemma changeUsage_ids: "changeUsage rows f a u = (Inr x, v) \<Longrightarrow> us_id ` set (u_usage v) = us_id ` set (u_usage u) \<and> u_namespaces v = u_namespaces u"
proof -
  have one: "us_id ` set (updateRows P (addUsage f a) tbl) = us_id ` set tbl" for P tbl
    unfolding set_updateRows image_image by (rule image_cong) simp_all
  assume "changeUsage rows f a u = (Inr x, v)"
  then show ?thesis by (auto simp: changeUsage_def changeUsageRow_def monad_simps one)
qed

text \<open>The same request sent again: a new id and new clock readings, but the same key and fingerprint.\<close>

definition sameCreation :: "create_session_input \<Rightarrow> create_session_input \<Rightarrow> bool" where
  "sameCreation a b \<longleftrightarrow> ci_namespaceId b = ci_namespaceId a \<and> ci_scope b = ci_scope a \<and> ci_creationKey b = ci_creationKey a \<and>
     ci_fingerprint b = ci_fingerprint a"

lemma createSession_replay:
  assumes run: "createSession input caps u = (Inr (SessionCreated s), v)" and ok: "uploadsOk u" and again: "sameCreation input input'"
  shows "createSession input' caps' v = (Inr (SessionReplay s), v)"
proof (rule createSession_parts [OF run])
  fix usage u1 u3 y z
  let ?ns = "ci_namespaceId input"
  assume l: "lockUsage ?ns u = (Inr usage, u1)" and act: "uploadNamespaceActive ?ns u1 = (Inr y, u1)"
    and none: "findByCreationKey ?ns (ci_scope input) (ci_creationKey input) (u_sessions u1) = None"
    and ins: "insertSession s u1 = (Inr z, u3)" and s: "s = newSession input" and ch: "changeUsage usage ActiveSessions 1 u3 = (Inr (), v)"
  note lo = lockUsage_ok [OF l ok]
  have u3: "u3 = u1\<lparr> u_sessions := insertRow s (u_sessions u1) \<rparr>" using insertSession_run(1) [OF ins] .
  have ids: "us_id ` set (u_usage v) = us_id ` set (u_usage u1)" "u_namespaces v = u_namespaces u1" "u_sessions v = insertRow s (u_sessions u1)"
    using changeUsage_ids [OF ch] changeUsage_tables [OF ch] by (simp_all add: u3)
  from lockedRows_ids [OF lo(2)] ids(1) obtain rows where l2: "lockUsage ?ns v = (Inr rows, v)" using lockUsage_ready by metis
  have act2: "uploadNamespaceActive ?ns v = (Inr y, v)"
    using act ids(2) by (auto simp: uploadNamespaceActive_def bind_def gets_def throw_def throwIf_def ret_def split: option.splits if_splits)
  have f: "findByCreationKey ?ns (ci_scope input) (ci_creationKey input) (u_sessions v) = Some s"
    using none by (simp add: findByCreationKey_def ids(3) insertRow_def findRow_append s newSession_def) (simp add: findRow_def)
  have "ss_fingerprint s = ci_fingerprint input" by (simp add: s newSession_def)
  with l2 act2 f again [unfolded sameCreation_def] show ?thesis
    by (simp add: createSession_def transaction_def bind_def andThen_def gets_def ret_def)
qed

section \<open>One worker finalises\<close>

lemma claimFinalize_claimed:
  assumes run: "claimFinalize ns i ms now claimNow token u = (Inr (Claimed tok s parts), v)" and ok: "uploadsOk u"
  shows "tok = token \<and> partsComplete s parts \<and> parts = storedParts i (u_parts u) \<and>
    (\<forall>r\<in>set (u_sessions v). ss_id r = i \<longrightarrow> ss_namespaceId r = ns \<and> ss_state r = FINALIZING \<and> ss_leaseToken r = Some token \<and>
       ss_leaseExpiresAt r = Some (claimNow + ms)) \<and> i \<in> ss_id ` set (u_sessions v) \<and> uploadsOk v"
proof -
  let ?P = "\<lambda>r. ss_id r = i \<and> ss_namespaceId r = ns \<and> ss_state r = OPEN \<and> claimNow < ss_expiresAt r \<and> claimNow < ss_maxExpiresAt r"
  let ?f = "\<lambda>r. r\<lparr> ss_state := FINALIZING, ss_leaseToken := Some token, ss_leaseExpiresAt := Some (claimNow + ms),
    ss_lastCompleteFailureCode := None, ss_lastCompleteFailureAt := None, ss_updatedAt := claimNow \<rparr>"
  from run obtain usage u1 y u2 where l: "lockUsage ns u = (Inr usage, u1)" and act: "uploadNamespaceActive ns u1 = (Inr y, u2)"
    and f: "findSessionIn ns i (u_sessions u2) = Some s" and c: "partsComplete s parts" and p: "parts = storedParts i (u_parts u2)"
    and t: "tok = token" and up: "updateSessions ?P ?f u2 = (Inr 1, v)"
    unfolding claimFinalize_def transaction_ok
    by (elim monad_elims) (auto simp: monad_simps split: option.splits if_splits)
  note lo = lockUsage_ok [OF l ok]
  have u2: "u2 = u1" using act by (rule uploadNamespaceActive_run)
  note up' = updateSessions_run [OF up [unfolded u2]]
  then have one: "affectedRows ?P (u_sessions u1) = 1" by simp
  from one obtain q where q: "q \<in> set (u_sessions u1)" "?P q" by (auto elim: affectedRows_one)
  have uniq: "r = q" if "r \<in> set (u_sessions u1)" "ss_id r = i" for r
    using that q uploadsOk_keys [OF lo(1)] by (auto simp: distinct_map inj_on_def)
  have sv: "u_sessions v = updateRows ?P ?f (u_sessions u1)" using up' by simp
  have "ss_namespaceId r = ns \<and> ss_state r = FINALIZING \<and> ss_leaseToken r = Some token \<and> ss_leaseExpiresAt r = Some (claimNow + ms)"
    if r: "r \<in> set (u_sessions v)" "ss_id r = i" for r
  proof -
    from r(1) obtain r0 where r0: "r0 \<in> set (u_sessions u1)" "r = (if ?P r0 then ?f r0 else r0)" unfolding sv set_updateRows by blast
    then have "ss_id r0 = i" using r(2) by (simp split: if_splits)
    with uniq r0(1) have "r0 = q" by blast
    with q(2) r0(2) show ?thesis by simp
  qed
  moreover have "i \<in> ss_id ` set (u_sessions v)"
    using q unfolding sv set_updateRows image_image by (intro image_eqI [of _ _ q]) simp_all
  moreover have "uploadsOk v" using claim_work.effect [OF run ok] by blast
  ultimately show ?thesis using c p t lo(4) u2 by simp
qed

text \<open>A complete list of parts has the indexes of the session in order.\<close>

lemma partsComplete_indexes: "partsComplete s parts \<Longrightarrow> map up_partIndex parts = map int [0..<nat (ss_partCount s)]"
  by (auto simp: partsComplete_def intro: nth_equalityI)

section \<open>Refunds\<close>

text \<open>
  A tombstone is refunded, by exactly its size and to the scopes that paid, when the late write has
  settled at the time its caller has seen; otherwise only the deletion of the object is noted.
\<close>

lemma markTombstone_refund:
  assumes run: "markTombstoneDeletedDetailed key obs now u = (Inr a, v)" and ok: "uploadsOk u"
    and t: "findTombstone key (u_tombstones u) = Some t"
  defines "settled \<equiv> obs \<noteq> None \<and> sc_putSettledAt t = obs"
  shows "a = \<lparr> ac_applied = True, ac_refundedBytes = (if settled then sc_sizeBytes t else 0) \<rparr>"
    and "findTombstone key (u_tombstones v) = (if settled then None else Some (t\<lparr> sc_deletedAt := Some now \<rparr>))"
    and "stagedIn v sc = stagedIn u sc - (if settled \<and> inScope sc (Some (sc_namespaceId t)) then sc_sizeBytes t else 0)"
    and "usedBytes v sc = stagedIn v sc"
proof -
  let ?f = "\<lambda>r. r\<lparr> sc_deletedAt := Some now \<rparr>" and ?K = "\<lambda>r. sc_stagingKey r = key"
  have okv: "uploadsOk v" using tombstone_work.effect [OF run ok] by blast
  then have st: "stagedIn v sc = usedBytes v sc" "stagedIn u sc = usedBytes u sc" for sc using ok by (simp_all add: booksOk_def)
  from st show "usedBytes v sc = stagedIn v sc" by simp
  from run t obtain usage u1 where l: "lockUsage (sc_namespaceId t) u = (Inr usage, u1)"
    and rest: "(case findTombstone key (u_tombstones u1) of None \<Rightarrow> ret unapplied
         | Some c \<Rightarrow> if obs \<noteq> None \<and> sc_putSettledAt c = obs
             then andThen (deleteTombstone key) (andThen (changeUsage usage StagedBytes (- sc_sizeBytes c))
               (ret \<lparr> ac_applied = True, ac_refundedBytes = sc_sizeBytes c \<rparr>))
             else andThen (updateTombstone key ?f) (ret \<lparr> ac_applied = True, ac_refundedBytes = 0 \<rparr>)) u1 = (Inr a, v)"
    unfolding markTombstoneDeletedDetailed_def transaction_ok
    by (simp add: bind_iff [of "gets f" for f] bind_iff [of "lockUsage n" for n] gets_iff ret_iff del: not_None_eq) blast
  note lo = lockUsage_ok [OF l ok]
  have t1: "findTombstone key (u_tombstones u1) = Some t" using t lo(5) by simp
  have "a = \<lparr> ac_applied = True, ac_refundedBytes = (if settled then sc_sizeBytes t else 0) \<rparr> \<and>
    findTombstone key (u_tombstones v) = (if settled then None else Some (?f t)) \<and>
    usedBytes v sc = usedBytes u sc - (if settled \<and> inScope sc (Some (sc_namespaceId t)) then sc_sizeBytes t else 0)"
  proof (cases settled)
    case True
    let ?u2 = "u1\<lparr> u_tombstones := deleteRows ?K (u_tombstones u1) \<rparr>"
    from True rest t1 obtain y where ch: "changeUsage usage StagedBytes (- sc_sizeBytes t) ?u2 = (Inr y, v)"
      and a: "a = \<lparr> ac_applied = True, ac_refundedBytes = sc_sizeBytes t \<rparr>"
      by (auto simp: deleteTombstone_def settled_def monad_simps)
    have "keysOk u1" using lo(1) by (simp add: booksOk_def)
    from changeUsage_rows(1) [OF ch lo(2) this] lo(8) [of sc]
    have "usedBytes v sc = usedBytes u sc - (if inScope sc (Some (sc_namespaceId t)) then sc_sizeBytes t else 0)" by simp
    moreover have "findTombstone key (u_tombstones v) = None"
      using changeUsage_tables [OF ch] by (simp add: findTombstone_def findRow_None_iff)
    ultimately show ?thesis using a True by simp
  next
    case False
    with rest t1 have v: "v = u1\<lparr> u_tombstones := updateRows ?K ?f (u_tombstones u1) \<rparr>" "a = \<lparr> ac_applied = True, ac_refundedBytes = 0 \<rparr>"
      by (auto simp: updateTombstone_def settled_def monad_simps)
    have "findTombstone key (updateRows ?K ?f (u_tombstones u1)) = map_option (\<lambda>q. if ?K q then ?f q else q) (findTombstone key (u_tombstones u1))"
      unfolding findTombstone_def by (rule findRow_update) simp
    with t1 findTombstone_SomeD [OF t1] have "findTombstone key (u_tombstones v) = Some (?f t)" by (simp add: v(1))
    moreover have "usedBytes v sc = usedBytes u sc" using lo(8) [of sc] by (simp add: v(1))
    ultimately show ?thesis using v(2) False by simp
  qed
  with st show "a = \<lparr> ac_applied = True, ac_refundedBytes = (if settled then sc_sizeBytes t else 0) \<rparr>"
    "findTombstone key (u_tombstones v) = (if settled then None else Some (t\<lparr> sc_deletedAt := Some now \<rparr>))"
    "stagedIn v sc = stagedIn u sc - (if settled \<and> inScope sc (Some (sc_namespaceId t)) then sc_sizeBytes t else 0)" by simp_all
qed

end
