(* ===== verification/UploadClaims.thy ===== *)
theory UploadClaims
  imports UploadFacts
begin

text \<open>
  What happens to one session while everybody else goes on. The locale \<open>session_frame\<close> asks of a
  relation on the tables only how the statements on sessions behave, and derives it for every method
  and for every step of a history. It is interpreted twice: a claim stands until its holder or the
  recovery of stale leases ends it, and a session keeps its id and its creation key for life.
\<close>

definition follows :: "(uploads \<Rightarrow> uploads \<Rightarrow> bool) \<Rightarrow> 'a upl \<Rightarrow> bool" where
  "follows R m \<longleftrightarrow> (\<forall>u. R u (snd (m u)))"

named_theorems follow_rules \<open>programs whose runs stay within a relation on the tables\<close>

definition sessionIdentity :: "upload_session \<Rightarrow> uuid \<times> jstring \<times> jstring \<times> uuid \<times> jstring" where
  "sessionIdentity s = (ss_id s, ss_namespaceId s, ss_scope s, ss_creationKey s, ss_fingerprint s)"

lemma followsD: "follows R m \<Longrightarrow> m u = (r, v) \<Longrightarrow> R u v"
  by (auto simp: follows_def dest: spec [of _ u])

lemma followsI: "(\<And>u r v. m u = (r, v) \<Longrightarrow> R u v) \<Longrightarrow> follows R m"
  unfolding follows_def by (metis prod.collapse)

text \<open>The two ways back from a claim.\<close>

definition reopen :: "jstring \<Rightarrow> time \<Rightarrow> time \<Rightarrow> upload_session \<Rightarrow> upload_session" where
  "reopen code failedAt now r = r\<lparr> ss_state := OPEN, ss_leaseToken := None, ss_leaseExpiresAt := None,
     ss_lastCompleteFailureCode := Some code, ss_lastCompleteFailureAt := Some failedAt, ss_updatedAt := now \<rparr>"

definition reopenAt :: "time \<Rightarrow> upload_session \<Rightarrow> upload_session" where
  "reopenAt now s = s\<lparr> ss_state := OPEN, ss_leaseToken := None, ss_leaseExpiresAt := None, ss_updatedAt := now \<rparr>"

definition stale :: "time \<Rightarrow> upload_session \<Rightarrow> bool" where
  "stale now s \<longleftrightarrow> (case ss_leaseExpiresAt s of None \<Rightarrow> False | Some z \<Rightarrow> z \<le> now)"

text \<open>What a request may do: only a new session, the end of a claim and the recovery need a look.\<close>

fun admissible :: "(upload_session \<Rightarrow> upload_session \<Rightarrow> bool) \<Rightarrow> (upload_session \<Rightarrow> bool) \<Rightarrow> uploads \<Rightarrow> upload_request \<Rightarrow> bool" where
  "admissible ok fresh u (CreateSession input caps) \<longleftrightarrow> fresh (newSession input)"
| "admissible ok fresh u (FinalizeMutation ns i token now exp lockedNow st body rid t) \<longleftrightarrow>
     (\<forall>s. holdsClaim ns i token s \<longrightarrow> ok s (finishSession COMPLETED st body rid t s))"
| "admissible ok fresh u (FailFinalize ns i token body rid now) \<longleftrightarrow> (\<forall>s. holdsClaim ns i token s \<longrightarrow> ok s (finishSession FAILED 422 body rid now s))"
| "admissible ok fresh u (ReleaseFinalize ns i token code failedAt now) \<longleftrightarrow> (\<forall>s. holdsClaim ns i token s \<longrightarrow> ok s (reopen code failedAt now s))"
| "admissible ok fresh u (ReopenStale now ids) \<longleftrightarrow>
     (\<forall>s\<in>set (u_sessions u). ss_id s \<in> set ids \<and> ss_state s = FINALIZING \<and> stale now s \<longrightarrow> ok s (reopenAt now s))"
| "admissible ok fresh u _ \<longleftrightarrow> True"

locale session_frame =
  fixes R :: "uploads \<Rightarrow> uploads \<Rightarrow> bool" and ok :: "upload_session \<Rightarrow> upload_session \<Rightarrow> bool" and fresh :: "upload_session \<Rightarrow> bool"
  assumes refl: "R u u" and trans: "R u v \<Longrightarrow> R v w \<Longrightarrow> R u w"
    and still: "u_sessions v = u_sessions u \<Longrightarrow> R u v"
    and update: "(\<And>s. s \<in> set (u_sessions u) \<Longrightarrow> P s \<Longrightarrow> ok s (f s)) \<Longrightarrow> R u (u\<lparr> u_sessions := updateRows P f (u_sessions u) \<rparr>)"
    and delete: "(\<And>s. P s \<Longrightarrow> terminal (ss_state s)) \<Longrightarrow> follows R (deleteSessions P)"
    and insert: "fresh s \<Longrightarrow> follows R (insertSession s)"
    and open_ok: "ss_state s = OPEN \<Longrightarrow> sessionIdentity s' = sessionIdentity s \<Longrightarrow> ok s s'"
    and lease_ok: "ss_state s' = ss_state s \<Longrightarrow> ss_leaseToken s' = ss_leaseToken s \<Longrightarrow> sessionIdentity s' = sessionIdentity s \<Longrightarrow> ok s s'"
begin

lemma follows_basic [follow_rules]:
  "follows R (ret x)" "follows R (throw e)" "follows R (gets f)" "follows R (throwIf b e)"
  by (auto simp: follows_def ret_def throw_def gets_def throwIf_def intro: refl)

lemma follows_bind [follow_rules]:
  assumes "follows R m" and "\<And>x. follows R (f x)"
  shows "follows R (bind m f)"
proof (rule followsI)
  fix u r v assume "bind m f u = (r, v)"
  then show "R u v"
    using followsD [OF assms(1), of u] followsD [OF assms(2)]
    by (auto simp: bind_def split: prod.splits sum.splits intro: trans)
qed

lemma follows_andThen [follow_rules]: "follows R m \<Longrightarrow> follows R n \<Longrightarrow> follows R (andThen m n)"
  unfolding andThen_def by (intro follows_bind)

lemma follows_transaction [follow_rules]: "follows R m \<Longrightarrow> follows R (transaction m)"
  unfolding follows_def transaction_def by (auto split: prod.split sum.split intro: refl) (metis snd_conv)

lemma follows_modify: "(\<And>u. u_sessions (f u) = u_sessions u) \<Longrightarrow> follows R (modify f)"
  by (auto simp: follows_def modify_def intro: still)

lemma follows_updateSessions:
  "(\<And>s. P s \<Longrightarrow> ok s (f s)) \<Longrightarrow> follows R (updateSessions P f)"
  by (auto simp: follows_def updateSessions_def intro: update)

lemma follows_tables [follow_rules]:
  "follows R (updateParts P f)" "follows R (deleteParts P)" "follows R (updateTombstone k g)" "follows R (deleteTombstone k)"
  by (auto simp: follows_def updateParts_def deleteParts_def updateTombstone_def deleteTombstone_def modify_def intro: still)

lemma follows_inserts [follow_rules]: "follows R (insertPart p)" "follows R (insertTombstone t)"
  unfolding insertPart_def insertTombstone_def by (intro follow_rules follows_modify; simp)+

lemma follows_readLocked [follow_rules]: "follows R (readLocked i)"
  unfolding readLocked_def by (intro follow_rules) (simp split: option.split add: follow_rules)

lemma follows_lockUsage [follow_rules]: "follows R (lockUsage ns)"
  unfolding lockUsage_def ensureUsageRow_def
  by (intro follow_rules; simp add: follow_rules follows_modify)

lemma follows_active [follow_rules]: "follows R (uploadNamespaceActive ns)"
  unfolding uploadNamespaceActive_def by (intro follow_rules) (simp split: option.split add: follow_rules)

lemma follows_changeUsage [follow_rules]: "follows R (changeUsage rows f a)"
  unfolding changeUsage_def forEach.simps changeUsageRow_def by (intro follow_rules follows_modify; simp)+

lemma follows_open:
  "(\<And>s. P s \<Longrightarrow> ss_state s = OPEN) \<Longrightarrow> (\<And>s. sessionIdentity (f s) = sessionIdentity s) \<Longrightarrow> follows R (updateSessions P f)"
  by (rule follows_updateSessions) (blast intro: open_ok)

lemma follows_lease:
  "(\<And>s. ss_state (f s) = ss_state s \<and> ss_leaseToken (f s) = ss_leaseToken s \<and> sessionIdentity (f s) = sessionIdentity s) \<Longrightarrow>
   follows R (updateSessions P f)"
  by (rule follows_updateSessions) (blast intro: lease_ok)

lemma follows_case:
  "(\<And>x. o' = Some x \<Longrightarrow> follows R (f x)) \<Longrightarrow> follows R m \<Longrightarrow> follows R (case o' of None \<Rightarrow> m | Some x \<Rightarrow> f x)"
  by (cases o') simp_all

lemma follows_if: "follows R m \<Longrightarrow> follows R n \<Longrightarrow> follows R (if b then m else n)"
  by simp

lemmas follow_all = follow_rules follows_case follows_if

section \<open>The methods\<close>

lemma follows_createSession: "fresh (newSession input) \<Longrightarrow> follows R (createSession input caps)"
  unfolding createSession_def by (intro follow_all insert)

lemma follows_admitPart [follow_rules]: "follows R (admitPart c k amount key caps usage now lease)"
  unfolding admitPart_def by (intro follow_rules) (auto split: option.split part_admission.split bool.split intro!: follow_all)

lemma follows_reservePart: "follows R (reservePart i k amount key caps now lease)"
  unfolding reservePart_def by (intro follow_all follows_admitPart)

lemma follows_storePart [follow_rules]: "follows R (storePart i k digest iv key now exp)"
  unfolding storePart_def by (intro follow_all)

lemma follows_commitPart: "follows R (commitPart i k digest iv key secs now)"
  unfolding commitPart_def commitReserved_def
  by (intro follow_all follows_open follows_storePart) (simp_all add: openAt_def sessionIdentity_def)

lemma follows_renewPartLease: "follows R (renewPartLease i k key secs now)"
  unfolding renewPartLease_def by (intro follow_all)

lemma follows_retire: "follows R (retireExpiredPartReservation i k key now)"
  unfolding retireExpiredPartReservation_def by (intro follow_all)

lemma follows_release: "follows R (releasePartReservationAccounting i k may key now)"
  unfolding releasePartReservationAccounting_def releaseTombstone_def releaseDeletedPart_def by (intro follow_all)

lemma follows_terminal: "follows R (claimTerminalTransition ns i next now)"
  unfolding claimTerminalTransition_def
  by (intro follow_all follows_open) (simp_all add: endSession_def sessionIdentity_def)

lemma follows_claimFinalize: "follows R (claimFinalize ns i ms now claimNow token)"
  unfolding claimFinalize_def by (intro follow_all follows_open) (simp_all add: sessionIdentity_def)

lemma follows_renewFinalize: "follows R (renewFinalize ns i token now exp lockedNow)"
  unfolding renewFinalize_def by (intro follow_all follows_lease) (simp_all add: sessionIdentity_def)

lemma follows_fenceFinalize [follow_rules]: "follows R (fenceFinalize ns i token now exp lockedNow)"
  unfolding fenceFinalize_def by (intro follow_all follows_lease) (simp add: sessionIdentity_def)

lemma follows_finalizeMutation:
  "(\<And>s. holdsClaim ns i token s \<Longrightarrow> ok s (finishSession COMPLETED st body rid t s)) \<Longrightarrow>
   follows R (finalizeMutation ns i token now exp lockedNow st body rid t)"
  unfolding finalizeMutation_def completeFinalize_def by (intro follow_all follows_fenceFinalize follows_updateSessions) simp

lemma follows_failFinalize:
  "(\<And>s. holdsClaim ns i token s \<Longrightarrow> ok s (finishSession FAILED 422 body rid now s)) \<Longrightarrow> follows R (failFinalize ns i token body rid now)"
  unfolding failFinalize_def by (intro follow_all follows_updateSessions) simp

lemma follows_renewSession: "follows R (renewSession ns i secs now)"
  unfolding renewSession_def by (intro follow_all follows_open) (simp_all add: openAt_def sessionIdentity_def)

lemma follows_markTombstone: "follows R (markTombstoneDeletedDetailed key obs now)"
  unfolding markTombstoneDeletedDetailed_def by (intro follow_all)

lemma follows_markStaging: "follows R (markStagingObjectDeletedDetailed i k key st now)"
  unfolding markStagingObjectDeletedDetailed_def deleteStagedPart_def by (intro follow_all)

lemma follows_deleteSettled: "follows R (deleteSettledSessions ns)"
  unfolding deleteSettledSessions_def by (intro follow_all delete) simp

lemma follows_pruneSession: "follows R (pruneSession before i)"
  unfolding pruneSession_def countRemaining_def deletePruned_def by (intro follow_all delete) (simp add: terminalBefore_def)

lemma follows_deletePruned: "follows R (deletePruned before i)"
  unfolding deletePruned_def by (intro delete) (simp add: terminalBefore_def)

lemma follows_silently: "follows R m \<Longrightarrow> follows R (silently m)"
  unfolding silently_def by (intro follow_rules)

lemmas follow_methods = follows_reservePart follows_commitPart follows_renewPartLease follows_retire follows_release follows_terminal
  follows_claimFinalize follows_renewFinalize follows_renewSession follows_markTombstone follows_markStaging follows_deleteSettled

section \<open>Steps\<close>

lemma serve_follows:
  assumes "admissible ok fresh u r"
  shows "R u (snd (serveUpload r u))"
proof (cases r)
  case (ReopenStale now ids)
  let ?P = "\<lambda>s. ss_id s \<in> set ids \<and> ss_state s = FINALIZING \<and> stale now s"
  have "reopenStale now ids = updateSessions ?P (reopenAt now)"
    by (simp add: reopenStale_def stale_def [abs_def] reopenAt_def [abs_def])
  moreover have "R u (u\<lparr> u_sessions := updateRows ?P (reopenAt now) (u_sessions u) \<rparr>)"
    using assms ReopenStale by (intro update) simp
  ultimately show ?thesis using ReopenStale by (simp add: silently_def bind_def ret_def updateSessions_def)
next
  case (ReleaseFinalize ns i token code failedAt now)
  with assms have "follows R (releaseFinalize ns i token code failedAt now)"
    unfolding releaseFinalize_def by (intro follow_all follows_updateSessions) (simp add: reopen_def)
  from follows_silently [OF this] ReleaseFinalize show ?thesis by (simp add: follows_def)
next
  case (CreateSession input caps)
  with assms follows_silently [OF follows_createSession] show ?thesis by (simp add: follows_def)
next
  case (FinalizeMutation ns i token now exp lockedNow st body rid t)
  with assms follows_finalizeMutation [of ns i token st body rid t] show ?thesis by (simp add: follows_def)
next
  case (FailFinalize ns i token body rid now)
  with assms follows_silently [OF follows_failFinalize, of ns i token body rid now] show ?thesis by (simp add: follows_def)
qed (use follow_methods [THEN follows_silently] in \<open>simp_all add: follows_def\<close>)

lemma step_follows:
  assumes "uploadStep sqlite label c c'" and "\<And>r. label = Some r \<Longrightarrow> admissible ok fresh (fst c) r"
  shows "R (fst c) (fst c')"
  using assms
proof cases
  case (request r known u res v pending dropped)
  with assms(2) serve_follows [of u r] show ?thesis by simp
next
  case (counting i u remaining v pending known dropped)
  then show ?thesis by (simp add: countRemaining_def gets_def refl)
next
  case (deleting before i u n v pending known dropped)
  then show ?thesis using followsD [OF follows_deletePruned] by simp
next
  case (pruning before i u res v pending known dropped)
  then show ?thesis using followsD [OF follows_pruneSession] by simp
qed (simp add: refl)

end

section \<open>A claim stands\<close>

definition claimOn :: "jstring \<Rightarrow> uuid \<Rightarrow> uuid \<Rightarrow> uploads \<Rightarrow> bool" where
  "claimOn ns i token u \<longleftrightarrow> (\<exists>s\<in>set (u_sessions u). holdsClaim ns i token s)"

interpretation claims: session_frame "\<lambda>u v. claimOn ns i token u \<longrightarrow> claimOn ns i token v"
  "\<lambda>s s'. holdsClaim ns i token s \<longrightarrow> holdsClaim ns i token s'" "\<lambda>_. True" for ns i token
proof unfold_locales
  fix u :: uploads and P f
  assume ok: "\<And>s. s \<in> set (u_sessions u) \<Longrightarrow> P s \<Longrightarrow> holdsClaim ns i token s \<longrightarrow> holdsClaim ns i token (f s)"
  show "claimOn ns i token u \<longrightarrow> claimOn ns i token (u\<lparr> u_sessions := updateRows P f (u_sessions u) \<rparr>)"
  proof
    assume "claimOn ns i token u"
    then obtain s where s: "s \<in> set (u_sessions u)" "holdsClaim ns i token s" by (auto simp: claimOn_def)
    then have "(if P s then f s else s) \<in> set (updateRows P f (u_sessions u))" "holdsClaim ns i token (if P s then f s else s)"
      using ok by (auto simp: set_updateRows)
    then show "claimOn ns i token (u\<lparr> u_sessions := updateRows P f (u_sessions u) \<rparr>)" unfolding claimOn_def by auto
  qed
next
  fix P :: "upload_session \<Rightarrow> bool"
  assume t: "\<And>s. P s \<Longrightarrow> terminal (ss_state s)"
  have "\<not> P s" if "holdsClaim ns i token s" for s using that t [of s] by (auto simp: holdsClaim_def terminal_def)
  then show "follows (\<lambda>u v. claimOn ns i token u \<longrightarrow> claimOn ns i token v) (deleteSessions P)"
    by (auto simp: follows_def deleteSessions_def claimOn_def)
next
  fix s
  show "follows (\<lambda>u v. claimOn ns i token u \<longrightarrow> claimOn ns i token v) (insertSession s)"
    by (rule followsI) (auto simp: insertSession_def claimOn_def bind_def andThen_def gets_def throwIf_def throw_def ret_def modify_def split: if_splits)
qed (auto simp: claimOn_def holdsClaim_def sessionIdentity_def)

text \<open>
  What ends a claim: the holder completes, fails or gives back the session, or the recovery of stale
  leases runs at a time the lease is over.
\<close>

fun endsClaim :: "jstring \<Rightarrow> uuid \<Rightarrow> uuid \<Rightarrow> uploads \<Rightarrow> upload_request option \<Rightarrow> bool" where
  "endsClaim ns i token u (Some (FinalizeMutation ns' i' token' _ _ _ _ _ _ _)) \<longleftrightarrow> ns' = ns \<and> i' = i \<and> token' = token"
| "endsClaim ns i token u (Some (FailFinalize ns' i' token' _ _ _)) \<longleftrightarrow> ns' = ns \<and> i' = i \<and> token' = token"
| "endsClaim ns i token u (Some (ReleaseFinalize ns' i' token' _ _ _)) \<longleftrightarrow> ns' = ns \<and> i' = i \<and> token' = token"
| "endsClaim ns i token u (Some (ReopenStale now ids)) \<longleftrightarrow> i \<in> set ids \<and> (\<exists>s\<in>set (u_sessions u). ss_id s = i \<and> stale now s)"
| "endsClaim ns i token u _ \<longleftrightarrow> False"

inductive claimHistory :: "jstring \<Rightarrow> uuid \<Rightarrow> uuid \<Rightarrow> bool \<Rightarrow> upload_config \<Rightarrow> upload_config \<Rightarrow> bool" for ns i token sqlite where
  start: "claimHistory ns i token sqlite c c"
| step: "claimHistory ns i token sqlite c c1 \<Longrightarrow> uploadStep sqlite label c1 c2 \<Longrightarrow> \<not> endsClaim ns i token (fst c1) label \<Longrightarrow>
    claimHistory ns i token sqlite c c2"

lemma claimHistory_uploads: "claimHistory ns i token sqlite c c' \<Longrightarrow> uploadHistory sqlite c c'"
  by (induction rule: claimHistory.induct) (auto intro: uploadHistory.intros)

lemma claimHistory_stands: "claimHistory ns i token sqlite c c' \<Longrightarrow> claimOn ns i token (fst c) \<Longrightarrow> claimOn ns i token (fst c')"
proof (induction rule: claimHistory.induct)
  case (step c c1 label c2)
  have "admissible (\<lambda>s s'. holdsClaim ns i token s \<longrightarrow> holdsClaim ns i token s') (\<lambda>_. True) (fst c1) r" if "label = Some r" for r
    using step.hyps(3) that by (cases r) (auto simp: holdsClaim_def)
  from claims.step_follows [OF step.hyps(2) this] step show ?case by simp
qed

text \<open>While it stands, nobody else gets anywhere with the session.\<close>

lemma claimOn_row:
  assumes "claimOn ns i token u" and "booksOk L u" and "s \<in> set (u_sessions u)" and "ss_id s = i"
  shows "holdsClaim ns i token s"
proof -
  from assms(1) obtain q where q: "q \<in> set (u_sessions u)" "holdsClaim ns i token q" by (auto simp: claimOn_def)
  have "q = s" using q assms(3,4) uploadsOk_keys [OF assms(2)] by (auto simp: holdsClaim_def distinct_map inj_on_def)
  with q(2) show ?thesis by simp
qed

lemma claimOn_busy:
  assumes on: "claimOn ns i token w" and ok: "booksOk L w" and run: "claimFinalize ns i ms now claimNow token' w = (Inr r, x)"
  shows "r = ClaimBusy"
proof -
  from on obtain q where q: "q \<in> set (u_sessions w)" "holdsClaim ns i token q" by (auto simp: claimOn_def)
  then have "findSessionIn ns i (u_sessions w) \<noteq> None" by (auto simp: findSessionIn_def findRow_None_iff holdsClaim_def)
  with run obtain usage u1 y u2 where l: "lockUsage ns w = (Inr usage, u1)" and act: "uploadNamespaceActive ns u1 = (Inr y, u2)"
    and rest: "findSessionIn ns i (u_sessions u2) = None \<and> r = ClaimNotFound \<or>
      (\<exists>z. findSessionIn ns i (u_sessions u2) = Some z \<and> (ss_state z = FINALIZING \<longrightarrow> r = ClaimBusy))"
    unfolding claimFinalize_def transaction_ok
    by (elim monad_elims) (auto simp: monad_simps split: option.splits if_splits)
  have u2: "u_sessions u2 = u_sessions w" using uploadNamespaceActive_run [OF act] lockUsage_ok(3) [OF l ok] by simp
  have "findSessionIn ns i (u_sessions w) = Some q"
    unfolding findSessionIn_def
    by (rule findRow_unique) (use q uploadsOk_keys [OF ok] in \<open>auto simp: holdsClaim_def distinct_map inj_on_def\<close>)
  with rest u2 q(2) show ?thesis by (auto simp: holdsClaim_def)
qed

lemma claimOn_excludes:
  assumes on: "claimOn ns i token w" and ok: "booksOk L w" and other: "other \<noteq> token"
  shows "completeFinalize ns i other st body rid t w = (Inl (InternalError ''Upload finalize claim lost''), w)"
    and "releaseFinalize ns i other code failedAt now w = (Inr False, w)"
    and "failFinalize ns i other body rid now w = (Inr b, x) \<Longrightarrow> \<not> b"
proof -
  have none: "\<not> holdsClaim ns i other s" if "s \<in> set (u_sessions w)" for s
    using claimOn_row [OF on ok that] other by (auto simp: holdsClaim_def)
  then have "affectedRows (holdsClaim ns i other) (u_sessions w) = 0" "updateRows (holdsClaim ns i other) f (u_sessions w) = u_sessions w" for f
    by (auto simp: affectedRows_def filter_empty_conv updateRows_none)
  then show "completeFinalize ns i other st body rid t w = (Inl (InternalError ''Upload finalize claim lost''), w)"
    "releaseFinalize ns i other code failedAt now w = (Inr False, w)"
    by (simp_all add: completeFinalize_def releaseFinalize_def updateSessions_def bind_def andThen_def throwIf_def throw_def ret_def)
  assume "failFinalize ns i other body rid now w = (Inr b, x)"
  then obtain usage w1 n w2 where l: "lockUsage ns w = (Inr usage, w1)"
    and up: "updateSessions (\<lambda>r. holdsClaim ns i other r \<and> leaseAfter now r) (finishSession FAILED 422 body rid now) w1 = (Inr n, w2)"
    and rest: "n \<noteq> 1 \<longrightarrow> \<not> b"
    unfolding failFinalize_def transaction_ok by (elim monad_elims) (auto simp: monad_simps split: if_splits)
  have "u_sessions w1 = u_sessions w" using lockUsage_tables [OF l] by simp
  then have "affectedRows (\<lambda>r. holdsClaim ns i other r \<and> leaseAfter now r) (u_sessions w1) = 0"
    using none by (auto simp: affectedRows_def filter_empty_conv)
  with updateSessions_run [OF up] rest show "\<not> b" by simp
qed

lemma claim_exclusive:
  assumes claim: "claimFinalize ns i ms now claimNow token u = (Inr (Claimed tok s parts), v)" and ok: "uploadsOk u"
    and known: "ss_id ` set (u_sessions u) \<subseteq> known"
    and hist: "claimHistory ns i token sqlite (v, [], known, []) (w, pending, known', dropped)"
  shows "claimOn ns i token w" and "booksOk (lostBytes dropped) w"
proof -
  note c = claimFinalize_claimed [OF claim ok]
  from c have "claimOn ns i token v" by (auto simp: claimOn_def holdsClaim_def)
  with claimHistory_stands [OF hist] show "claimOn ns i token w" by simp
  have "evolves {} u v" using claim_work.effect [OF claim ok] by blast
  from evolves_known [OF this known] c have "configOk (v, [], known, [])" by (simp add: configOk_def)
  from uploadHistory_ok [OF claimHistory_uploads [OF hist] this] show "booksOk (lostBytes dropped) w" by (simp add: configOk_def)
qed

section \<open>A session keeps its creation key\<close>

definition creationKey :: "upload_session \<Rightarrow> jstring \<times> jstring \<times> uuid" where
  "creationKey s = (ss_namespaceId s, ss_scope s, ss_creationKey s)"

definition keysUnique :: "uploads \<Rightarrow> bool" where
  "keysUnique u \<longleftrightarrow> distinct (map creationKey (u_sessions u))"

definition keepsIdentity :: "uuid \<Rightarrow> uploads \<Rightarrow> uploads \<Rightarrow> bool" where
  "keepsIdentity i u v \<longleftrightarrow> (keysUnique u \<longrightarrow> keysUnique v) \<and>
     (\<forall>s'\<in>set (u_sessions v). ss_id s' = i \<longrightarrow> sessionIdentity s' \<in> sessionIdentity ` set (u_sessions u))"

lemma updateRows_identity:
  assumes "\<And>s. s \<in> set rows \<Longrightarrow> P s \<Longrightarrow> sessionIdentity (f s) = sessionIdentity s"
  shows "map sessionIdentity (updateRows P f rows) = map sessionIdentity rows"
  using assms by (induction rows) (auto simp: updateRows_def)

lemma keepsIdentity_same: "map sessionIdentity (u_sessions v) = map sessionIdentity (u_sessions u) \<Longrightarrow> keepsIdentity i u v"
proof -
  assume eq: "map sessionIdentity (u_sessions v) = map sessionIdentity (u_sessions u)"
  have "map creationKey ss = map (\<lambda>(j, a, b, c, d). (a, b, c)) (map sessionIdentity ss)" for ss
    by (simp add: creationKey_def sessionIdentity_def)
  then have "map creationKey (u_sessions v) = map creationKey (u_sessions u)" using eq by metis
  moreover have "sessionIdentity ` set (u_sessions v) = sessionIdentity ` set (u_sessions u)" using eq by (metis list.set_map)
  ultimately show ?thesis by (auto simp: keepsIdentity_def keysUnique_def)
qed

interpretation identities: session_frame "keepsIdentity i" "\<lambda>s s'. sessionIdentity s' = sessionIdentity s" "\<lambda>s. ss_id s \<noteq> i" for i
proof unfold_locales
  fix u v w assume uv: "keepsIdentity i u v" and vw: "keepsIdentity i v w"
  have "sessionIdentity s \<in> sessionIdentity ` set (u_sessions u)" if s: "s \<in> set (u_sessions w)" "ss_id s = i" for s
  proof -
    from vw s obtain q where q: "q \<in> set (u_sessions v)" "sessionIdentity q = sessionIdentity s" by (auto simp: keepsIdentity_def)
    then have "ss_id q = i" using s(2) by (simp add: sessionIdentity_def)
    with uv q(1) have "sessionIdentity q \<in> sessionIdentity ` set (u_sessions u)" by (simp add: keepsIdentity_def)
    with q(2) show ?thesis by simp
  qed
  with uv vw show "keepsIdentity i u w" by (auto simp: keepsIdentity_def)
next
  fix u :: uploads and P f
  assume "\<And>s. s \<in> set (u_sessions u) \<Longrightarrow> P s \<Longrightarrow> sessionIdentity (f s) = sessionIdentity s"
  then show "keepsIdentity i u (u\<lparr> u_sessions := updateRows P f (u_sessions u) \<rparr>)"
    by (intro keepsIdentity_same) (simp add: updateRows_identity)
next
  fix P :: "upload_session \<Rightarrow> bool"
  show "follows (keepsIdentity i) (deleteSessions P)"
    by (auto simp: follows_def deleteSessions_def keepsIdentity_def keysUnique_def deleteRows_def intro: distinct_map_filter)
next
  fix s :: upload_session assume "ss_id s \<noteq> i"
  then show "follows (keepsIdentity i) (insertSession s)"
    by (intro followsI)
      (auto simp: insertSession_def keepsIdentity_def keysUnique_def creationKey_def insertRow_def bind_def andThen_def gets_def throwIf_def throw_def
        ret_def modify_def split: if_splits)
qed (auto intro: keepsIdentity_same)

lemma uploadHistory_identity:
  assumes "uploadHistory sqlite c c'" and "configOk c" and "i \<in> fst (snd (snd c))"
  shows "keepsIdentity i (fst c) (fst c')"
  using assms
proof (induction rule: uploadHistory.induct)
  case (start c)
  show ?case by (rule identities.refl)
next
  case (step c c1 label c2)
  have "i \<in> fst (snd (snd c1))" using uploadHistory_known [OF step.hyps(1) step.prems(1)] step.prems(2) by blast
  then have "admissible (\<lambda>s s'. sessionIdentity s' = sessionIdentity s) (\<lambda>s. ss_id s \<noteq> i) (fst c1) r" if "label = Some r" for r
    using step.hyps(2) that
    by (cases r) (auto simp: sessionIdentity_def finishSession_def endSession_def reopen_def reopenAt_def newSession_def elim!: uploadStep.cases)
  from identities.step_follows [OF step.hyps(2) this] step.IH [OF step.prems] show ?case by (rule identities.trans [rotated])
qed

lemma createSession_found:
  assumes run: "createSession input caps w = (Inr out, x)" and u: "keysUnique w" and r: "r \<in> set (u_sessions w)"
    and key: "creationKey r = (ci_namespaceId input, ci_scope input, ci_creationKey input)" and fp: "ss_fingerprint r = ci_fingerprint input"
  shows "out = SessionReplay r \<and> u_sessions x = u_sessions w \<and> u_parts x = u_parts w \<and> u_tombstones x = u_tombstones w"
proof -
  from run obtain usage u1 y u2 where l: "lockUsage (ci_namespaceId input) w = (Inr usage, u1)"
    and act: "uploadNamespaceActive (ci_namespaceId input) u1 = (Inr y, u2)"
    and rest: "(case findByCreationKey (ci_namespaceId input) (ci_scope input) (ci_creationKey input) (u_sessions u2) of
       Some s \<Rightarrow> ret (if ss_fingerprint s = ci_fingerprint input then SessionReplay s else SessionConflict)
     | None \<Rightarrow>
         if ul_maxActiveSessions (uc_global caps) \<le> us_activeSessions (fst usage) \<or>
            ul_maxActiveSessions (uc_namespace caps) \<le> us_activeSessions (snd usage) then ret SessionLimit
         else andThen (insertSession (newSession input))
           (andThen (changeUsage usage ActiveSessions 1) (ret (SessionCreated (newSession input))))) u2 = (Inr out, x)"
    unfolding createSession_def transaction_ok by (elim monad_elims) blast
  have u2: "u2 = u1" using act by (rule uploadNamespaceActive_run)
  note same = lockUsage_tables [OF l]
  have "findByCreationKey (ci_namespaceId input) (ci_scope input) (ci_creationKey input) (u_sessions w) = Some r"
    unfolding findByCreationKey_def
    by (rule findRow_unique) (use r key u in \<open>auto simp: creationKey_def keysUnique_def distinct_map inj_on_def\<close>)
  with rest fp same show ?thesis by (simp add: u2 ret_def)
qed

lemma creation_retried:
  assumes run: "createSession input caps u = (Inr (SessionCreated s), v)" and ok: "uploadsOk u" "keysUnique u"
    and known: "ss_id ` set (u_sessions v) \<subseteq> known" and hist: "uploadHistory sqlite (v, [], known, []) (w, pending, known', dropped)"
    and r: "r \<in> set (u_sessions w)" "ss_id r = ss_id s" and again: "sameCreation input input'"
    and run': "createSession input' caps' w = (Inr out, x)"
  shows "out = SessionReplay r \<and> u_sessions x = u_sessions w \<and> u_parts x = u_parts w \<and> u_tombstones x = u_tombstones w"
proof (rule createSession_found [OF run' _ r(1)])
  have okv: "uploadsOk v" using create_work.effect [OF run ok(1)] by blast
  have "keepsIdentity (ci_id input @ [0]) u v"
    by (rule followsD [OF identities.follows_createSession run]) (simp add: newSession_def)
  then have "keysUnique v" using ok(2) by (simp add: keepsIdentity_def)
  have s: "s \<in> set (u_sessions v)" "s = newSession input"
    using run by (auto elim!: createSession_parts dest!: changeUsage_tables dest: insertSession_run(1))
  have "configOk (v, [], known, [])" using okv known by (simp add: configOk_def)
  from uploadHistory_identity [OF hist this, of "ss_id s"] s known
  have i: "keepsIdentity (ss_id s) v w" by auto
  with \<open>keysUnique v\<close> show "keysUnique w" by (simp add: keepsIdentity_def)
  from i r obtain q where q: "q \<in> set (u_sessions v)" "sessionIdentity q = sessionIdentity r" by (auto simp: keepsIdentity_def)
  then have "ss_id q = ss_id s" using r(2) by (simp add: sessionIdentity_def)
  then have "q = s" using q(1) s(1) uploadsOk_keys [OF okv] by (auto simp: distinct_map inj_on_def)
  then have "sessionIdentity r = sessionIdentity (newSession input)" using q(2) s(2) by simp
  with again show "creationKey r = (ci_namespaceId input', ci_scope input', ci_creationKey input')" "ss_fingerprint r = ci_fingerprint input'"
    by (simp_all add: sessionIdentity_def newSession_def sameCreation_def creationKey_def)
qed

end
