(* ===== verification/Feed.thy ===== *)
theory Feed
  imports Store
begin

text \<open>
  The change feed journal: \<open>persistence/vfs-change-feed-journal.ts\<close>. A transaction that may change
  a node captures its path and columns first; at commit the journal compares them with the final
  state and appends one event per node that differs, numbered without gaps.

  The source's caches (\<open>byId\<close>, \<open>states\<close>) only avoid reading a row twice in one transaction, so the
  model reads the table. The \<open>resolving\<close> set stops at a parent cycle; with it the recursion is
  never deeper than the table is long, which bounds the fuel.
\<close>

definition readChangeFeedState :: "jstring \<Rightarrow> feed_state list \<Rightarrow> feed_state option" where
  "readChangeFeedState ns tbl = findRow (\<lambda>f. f_namespaceId f = ns) tbl"

fun resolveFeedNode :: "jstring \<Rightarrow> node list \<Rightarrow> (uuid \<times> feed_node) list \<Rightarrow> nat \<Rightarrow> uuid list \<Rightarrow>
    node \<Rightarrow> feed_node result" where
  "resolveFeedNode ns tbl known 0 resolving n = Inl NoReturn"
| "resolveFeedNode ns tbl known (Suc fuel) resolving n =
     (case map_of known (n_id n) of
        Some st \<Rightarrow> Inr st
      | None \<Rightarrow>
          if n_id n \<in> set resolving then Inl (InternalError ''VFS node parent cycle'')
          else (case n_parentId n of
              None \<Rightarrow> Inr \<lparr> fn_node = n, fn_segments = [], fn_path = joinSegments [] \<rparr>
            | Some p \<Rightarrow>
                (case findNode ns p tbl of
                   None \<Rightarrow> Inl (InternalError ''VFS parent node missing'')
                 | Some parent \<Rightarrow>
                     (case resolveFeedNode ns tbl known fuel (n_id n # resolving) parent of
                        Inl e \<Rightarrow> Inl e
                      | Inr st \<Rightarrow>
                          (let segs = fn_segments st @ [n_name n] in
                           Inr \<lparr> fn_node = n, fn_segments = segs, fn_path = joinSegments segs \<rparr>)))))"

fun captureAll :: "(node \<Rightarrow> feed_node result) \<Rightarrow> node list \<Rightarrow> (uuid \<times> feed_node) list result" where
  "captureAll f [] = Inr []"
| "captureAll f (n # ns) =
     (case f n of
        Inl e \<Rightarrow> Inl e
      | Inr st \<Rightarrow> (case captureAll f ns of Inl e \<Rightarrow> Inl e | Inr m \<Rightarrow> Inr ((n_id n, st) # m)))"

definition captureChangeFeedNodes :: "jstring \<Rightarrow> node list \<Rightarrow> uuid list \<Rightarrow>
    (uuid \<times> feed_node) list \<Rightarrow> (uuid \<times> feed_node) list result" where
  "captureChangeFeedNodes ns tbl ids known =
     captureAll (resolveFeedNode ns tbl known (Suc (Suc (length tbl))) [])
       (concat (map (\<lambda>chunk. filter (\<lambda>n. n_namespaceId n = ns \<and> n_id n \<in> set chunk) tbl)
         (chunks 250 ids)))"

definition trackChangeFeedBefore :: "uuid list \<Rightarrow> unit txp" where
  "trackChangeFeedBefore ids = bind (gets (\<lambda>s. s)) (\<lambda>s.
     case x_feedBefore s of
       None \<Rightarrow> ret ()
     | Some before \<Rightarrow>
         (let missing = filter (\<lambda>i. map_of before i = None \<and> map_of (x_changed s) i = None) ids in
          bind (liftR (captureChangeFeedNodes (x_namespaceId s) (t_nodes s) missing before))
            (\<lambda>captured. modify (\<lambda>s. s\<lparr> x_feedBefore :=
                Some (fold (\<lambda>(i, st) m. AList.update i st m) captured before) \<rparr>))))"

definition sameNode :: "feed_node \<Rightarrow> feed_node \<Rightarrow> bool" where
  "sameNode before after \<longleftrightarrow>
     (let a = fn_node before; b = fn_node after in
      fn_path before = fn_path after \<and> n_type a = n_type b \<and> n_blobId a = n_blobId b \<and>
      n_size a = n_size b \<and> n_mimeType a = n_mimeType b \<and> n_version a = n_version b)"

text \<open>The \<open>while (parentId)\<close> loop over one snapshot of captured nodes.\<close>

fun ancestorsIn :: "(uuid \<times> feed_node) list \<Rightarrow> nat \<Rightarrow> uuid option \<Rightarrow> uuid list result" where
  "ancestorsIn snap fuel None = Inr []"
| "ancestorsIn snap 0 (Some p) = Inl NoReturn"
| "ancestorsIn snap (Suc fuel) (Some p) =
     (case ancestorsIn snap fuel (case map_of snap p of None \<Rightarrow> None | Some st \<Rightarrow> n_parentId (fn_node st)) of
        Inl e \<Rightarrow> Inl e | Inr ps \<Rightarrow> Inr (p # ps))"

definition feedAncestors :: "(uuid \<times> feed_node) list \<Rightarrow> uuid \<Rightarrow> uuid list result" where
  "feedAncestors snap i =
     ancestorsIn snap (Suc (length snap)) (case map_of snap i of None \<Rightarrow> None | Some st \<Rightarrow> n_parentId (fn_node st))"

fun collectAll :: "('a \<Rightarrow> 'b list result) \<Rightarrow> 'a list \<Rightarrow> 'b list result" where
  "collectAll f [] = Inr []"
| "collectAll f (x # xs) =
     (case f x of
        Inl e \<Rightarrow> Inl e
      | Inr ys \<Rightarrow> (case collectAll f xs of Inl e \<Rightarrow> Inl e | Inr zs \<Rightarrow> Inr (ys @ zs)))"

record change =
  c_kind :: change_kind
  c_nodeId :: uuid
  c_nodeType :: node_type
  c_path :: jstring
  c_previousPath :: "jstring option"
  c_revision :: "jstring option"
  c_segments :: "jstring list"

definition meaningfulChange :: "feed_node option \<Rightarrow> feed_node option \<Rightarrow> bool" where
  "meaningfulChange old new \<longleftrightarrow>
     (case (old, new) of (Some a, Some b) \<Rightarrow> \<not> sameNode a b | _ \<Rightarrow> True)"

text \<open>One entry of the loop that builds \<open>changes\<close>; the empty list is \<open>continue\<close>.\<close>

definition changeOf :: "feed_node option \<Rightarrow> feed_node option \<Rightarrow> bool \<Rightarrow> uuid \<Rightarrow> change list result" where
  "changeOf old new relevant i =
     (case (old, new) of
        (None, None) \<Rightarrow> Inr []
      | (Some a, Some b) \<Rightarrow>
          if sameNode a b \<or> \<not> relevant then Inr []
          else (case encodeRevision (n_id (fn_node b)) (n_version (fn_node b)) of
              Inl e \<Rightarrow> Inl e
            | Inr tok \<Rightarrow> (let kind = (if fn_path a \<noteq> fn_path b then Moved else Updated) in
                Inr [\<lparr> c_kind = kind, c_nodeId = i, c_nodeType = n_type (fn_node b), c_path = fn_path b,
                  c_previousPath = (if kind = Moved then Some (fn_path a) else None),
                  c_revision = Some tok, c_segments = fn_segments b \<rparr>]))
      | (None, Some b) \<Rightarrow>
          (case encodeRevision (n_id (fn_node b)) (n_version (fn_node b)) of
             Inl e \<Rightarrow> Inl e
           | Inr tok \<Rightarrow> Inr [\<lparr> c_kind = Created, c_nodeId = i, c_nodeType = n_type (fn_node b),
               c_path = fn_path b, c_previousPath = None, c_revision = Some tok,
               c_segments = fn_segments b \<rparr>])
      | (Some a, None) \<Rightarrow>
          Inr [\<lparr> c_kind = Deleted, c_nodeId = i, c_nodeType = n_type (fn_node a), c_path = fn_path a,
            c_previousPath = None, c_revision = None, c_segments = fn_segments a \<rparr>])"

definition changeCmp :: "change \<Rightarrow> change \<Rightarrow> int" where
  "changeCmp a b =
     (let k = compareSegments (c_segments a) (c_segments b) in
      if k \<noteq> 0 then k else js_cmp (c_nodeId a) (c_nodeId b))"

definition feedChanges :: "(uuid \<times> feed_node) list \<Rightarrow> (uuid \<times> feed_node) list \<Rightarrow> change list result" where
  "feedChanges before after =
     (let ids = js_set (map fst before @ map fst after);
          meaningful = filter (\<lambda>i. meaningfulChange (map_of before i) (map_of after i)) ids in
      case collectAll (\<lambda>i. collectAll (\<lambda>snap. feedAncestors snap i) [before, after]) meaningful of
        Inl e \<Rightarrow> Inl e
      | Inr changedAncestors \<Rightarrow>
          collectAll (\<lambda>i. changeOf (map_of before i) (map_of after i)
            (i \<in> set meaningful \<or> i \<in> set changedAncestors) i) ids)"

definition feedEvents :: "env \<Rightarrow> jstring \<Rightarrow> int \<Rightarrow> uuid \<Rightarrow> change list \<Rightarrow> change_event list" where
  "feedEvents env ns first operationId changes =
     map (\<lambda>(k, c). \<lparr> v_namespaceId = ns, v_sequence = first + int k + 1, v_operationId = operationId,
       v_operationIndex = k, v_operationCount = length changes, v_kind = c_kind c,
       v_nodeId = c_nodeId c, v_nodeType = c_nodeType c, v_path = c_path c,
       v_previousPath = c_previousPath c, v_revision = c_revision c, v_occurredAt = env_dbNow env \<rparr>)
       (enumerate 0 changes)"

text \<open>
  The journal's primary key is \<open>(namespace_id, sequence)\<close>. The inserts of 250 rows at a time are
  one insert of all rows.
\<close>

definition appendChangeFeedEvents :: "env \<Rightarrow> jstring \<Rightarrow> (uuid \<times> feed_node) list \<Rightarrow> uuid list \<Rightarrow> unit txp" where
  "appendChangeFeedEvents env ns before changedIds = bind (gets (\<lambda>s. s)) (\<lambda>s.
     bind (liftR (captureChangeFeedNodes ns (t_nodes s) (js_set (map fst before @ changedIds)) [])) (\<lambda>after.
     bind (liftR (feedChanges before after)) (\<lambda>changes.
     if changes = [] then ret ()
     else (let ordered = sortBy changeCmp changes in
       case readChangeFeedState ns (feedStates (x_db s)) of
         None \<Rightarrow> throw (InternalError ''Change feed checkpoint missing'')
       | Some state \<Rightarrow>
           andThen (throwIf (\<not> f_hasCheckpoint state) (InternalError ''Change feed checkpoint missing''))
           (let first = f_lastSequence state; final = first + int (length changes) in
            andThen (throwIf (MAX_INT64 < final) (InternalError ''Change feed sequence exhausted''))
            (bind (freshId env) (\<lambda>operationId.
             let evs = feedEvents env ns first operationId ordered in
             andThen (throwIf (\<exists>e\<in>set evs. \<exists>v\<in>set (events (x_db s)). v_namespaceId v = ns \<and>
                 v_sequence v = v_sequence e) (DbConstraint PrimaryKey))
             (modify (\<lambda>s. s\<lparr> x_db := (x_db s)\<lparr> events := events (x_db s) @ evs,
                feedStates := updateRows (\<lambda>f. f_namespaceId f = ns) (\<lambda>f. f\<lparr> f_lastSequence := final \<rparr>)
                  (feedStates (x_db s)) \<rparr> \<rparr>)))))))))"

end
