(* ===== verification/Core.thy ===== *)
theory Core
  imports Feed
begin

text \<open>
  The transaction of a mutation: \<open>persistence/vfs-node.repository.core.ts\<close>. \<open>withMutation\<close> locks
  the namespace root, runs the work, applies the counters and the quota, raises the versions of the
  changed nodes and appends the change feed; an error anywhere leaves the database as it was.
\<close>

section \<open>Deltas\<close>

definition recordLiveByteDelta :: "int \<Rightarrow> unit txp" where
  "recordLiveByteDelta delta = modify (\<lambda>s. s\<lparr> x_liveFileByteDelta := x_liveFileByteDelta s + delta,
     x_logicalByteDelta := x_logicalByteDelta s + delta \<rparr>)"

definition folderDelta :: "(uuid \<times> int) list \<Rightarrow> uuid \<Rightarrow> int" where
  "folderDelta m i = (case map_of m i of None \<Rightarrow> 0 | Some d \<Rightarrow> d)"

definition recordFolderFileDelta :: "uuid \<Rightarrow> int \<Rightarrow> unit txp" where
  "recordFolderFileDelta parentId delta =
     (if delta = 0 then ret ()
      else modify (\<lambda>s. s\<lparr> x_folderFileDeltas :=
        AList.update parentId (folderDelta (x_folderFileDeltas s) parentId + delta) (x_folderFileDeltas s) \<rparr>))"

definition recordLiveNodeDelta :: "int \<Rightarrow> unit txp" where
  "recordLiveNodeDelta delta = modify (\<lambda>s. s\<lparr> x_liveNodeDelta := x_liveNodeDelta s + delta \<rparr>)"

section \<open>Counters and quota at commit\<close>

definition effectiveLimit :: "int option \<Rightarrow> int \<Rightarrow> int \<Rightarrow> int" where
  "effectiveLimit own ceiling dflt =
     (case own of None \<Rightarrow> dflt | Some v \<Rightarrow> if v < ceiling then v else ceiling)"

definition applyFolderDelta :: "jstring \<Rightarrow> int \<Rightarrow> uuid \<times> int \<Rightarrow> unit txp" where
  "applyFolderDelta ns limit = (\<lambda>(parentId, delta). bind (gets t_nodes) (\<lambda>tbl.
     case findRow (\<lambda>n. n_id n = parentId \<and> n_namespaceId n = ns \<and> n_type n = DIRECTORY) tbl of
       None \<Rightarrow> if delta < 0 then ret ()
               else throw (InternalError ''folder child FILE counter parent is missing'')
     | Some parent \<Rightarrow>
         (let next = n_childFileCount parent + delta in
          andThen (throwIf (next < 0) (InternalError ''folder child FILE counter became negative''))
          (andThen (throwIf (0 < delta \<and> limit < next) (Limit (VfsFolderFileLimitExceededError limit next)))
          (setNodes (updateRows (\<lambda>n. n_id n = parentId) (\<lambda>n. n\<lparr> n_childFileCount := next \<rparr>)))))))"

definition applyLiveNodes :: "env \<Rightarrow> jstring \<Rightarrow> namespace \<Rightarrow> int \<Rightarrow> unit txp" where
  "applyLiveNodes env ns namespace delta =
     (if delta = 0 then ret ()
      else (let next = ns_liveNodeCount namespace + delta;
                nodeLimit = effectiveLimit (ns_maxLiveNodes namespace) (env_maxLiveNodes env)
                  (env_defaultMaxLiveNodes env) in
        andThen (throwIf (next < 0) (InternalError ''namespace live node counter became negative''))
        (andThen (throwIf (0 < delta \<and> nodeLimit < next) (Limit (VfsNamespaceNodeLimitExceededError nodeLimit next)))
        (updateNamespace ns (\<lambda>n. n\<lparr> ns_liveNodeCount := next \<rparr>)))))"

definition applyNodeCounters :: "env \<Rightarrow> unit txp" where
  "applyNodeCounters env = bind (gets (\<lambda>s. s)) (\<lambda>s.
     let deltas = filter (\<lambda>(_, d). d \<noteq> 0) (x_folderFileDeltas s); ns = x_namespaceId s in
     if deltas = [] \<and> x_liveNodeDelta s = 0 then ret ()
     else bind (getNamespaceOrFail ns) (\<lambda>namespace.
       andThen (applyLiveNodes env ns namespace (x_liveNodeDelta s))
       (let limit = effectiveLimit (ns_maxFilesPerFolder namespace) (env_maxFilesPerFolder env)
              (env_defaultMaxFilesPerFolder env) in
        forEach deltas (applyFolderDelta ns limit))))"

definition applyLogicalByteQuota :: "env \<Rightarrow> unit txp" where
  "applyLogicalByteQuota env = bind (gets (\<lambda>s. s)) (\<lambda>s.
     if x_liveFileByteDelta s = 0 \<and> x_trashByteDelta s = 0 \<and> x_snapshotByteDelta s = 0 then ret ()
     else bind (getNamespaceOrFail (x_namespaceId s)) (\<lambda>namespace.
       let liveBytes = ns_liveFileByteCount namespace + x_liveFileByteDelta s;
           enforcedBytes = resolveEnforcedLogicalBytes liveBytes (ns_retainedTrashByteCount namespace)
             (ns_retainedSnapshotByteCount namespace) (ns_excludeTrashFromQuota namespace)
             (ns_excludeSnapshotsFromQuota namespace);
           enforcedDelta = x_liveFileByteDelta s
             + (if ns_excludeTrashFromQuota namespace then 0 else x_trashByteDelta s)
             + (if ns_excludeSnapshotsFromQuota namespace then 0 else x_snapshotByteDelta s) in
       andThen (throwIf (liveBytes < 0 \<or> MAX_INT64 < liveBytes)
         (InternalError ''namespace live file byte counter out of int64 range''))
       (andThen
         (if 0 < enforcedDelta
          then bind (liftR (resolveNamespaceQuota (map_option show_int (ns_maxTotalLogicalBytes namespace))
                  (env_maxTotalLogicalBytes env) (env_defaultMaxTotalLogicalBytes env)))
                (\<lambda>limit. throwIf (limit < enforcedBytes) (Limit (VfsQuotaExceededError limit enforcedBytes)))
          else ret ())
         (if x_liveFileByteDelta s \<noteq> 0
          then updateNamespace (x_namespaceId s) (\<lambda>n. n\<lparr> ns_liveFileByteCount := liveBytes \<rparr>)
          else ret ()))))"

section \<open>Changed nodes\<close>

text \<open>The first mark of a node decides whether its version is raised at commit.\<close>

definition markChanged :: "uuid \<Rightarrow> bool \<Rightarrow> unit txp" where
  "markChanged i increment = modify (\<lambda>s.
     case map_of (x_changed s) i of
       None \<Rightarrow> s\<lparr> x_changed := AList.update i increment (x_changed s) \<rparr>
     | Some _ \<Rightarrow> s)"

fun markWalk :: "nat \<Rightarrow> uuid option \<Rightarrow> uuid list \<Rightarrow> uuid list txp" where
  "markWalk fuel None walked = ret walked"
| "markWalk 0 (Some i) walked = bind (gets x_ancestorChainMarked) (\<lambda>marked.
     if i \<in> set marked then ret walked else throw NoReturn)"
| "markWalk (Suc fuel) (Some i) walked = bind (gets (\<lambda>s. s)) (\<lambda>s.
     if i \<in> set (x_ancestorChainMarked s) then ret walked
     else (case findNode (x_namespaceId s) i (t_nodes s) of
         None \<Rightarrow> throw (nodeNotFound [slash])
       | Some current \<Rightarrow> andThen (markChanged i True) (markWalk fuel (n_parentId current) (walked @ [i]))))"

definition markAncestorChain :: "uuid \<Rightarrow> unit txp" where
  "markAncestorChain i = bind (gets (\<lambda>s. Suc (length (t_nodes s)))) (\<lambda>k.
     bind (markWalk k (Some i) []) (\<lambda>walked.
     andThen (trackChangeFeedBefore walked)
     (modify (\<lambda>s. s\<lparr> x_ancestorChainMarked := x_ancestorChainMarked s @ walked \<rparr>))))"

definition bumpChunk :: "env \<Rightarrow> uuid list \<Rightarrow> unit txp" where
  "bumpChunk env ids = bind (gets t_nodes) (\<lambda>tbl.
     let hit = (\<lambda>n. n_id n \<in> set ids \<and> n_version n < MAX_VFS_VERSION) in
     andThen (setNodes (updateRows hit (\<lambda>n. n\<lparr> n_version := n_version n + 1, n_updatedAt := env_dbNow env \<rparr>)))
     (throwIf (length (filter hit tbl) \<noteq> length ids) revisionExhausted))"

fun affectedOf :: "(uuid \<times> feed_node) list \<Rightarrow> affected_revision list result" where
  "affectedOf [] = Inr []"
| "affectedOf ((i, st) # m) =
     (case encodeRevision (n_id (fn_node st)) (n_version (fn_node st)) of
        Inl e \<Rightarrow> Inl e
      | Inr r \<Rightarrow> (case affectedOf m of Inl e \<Rightarrow> Inl e
          | Inr rest \<Rightarrow> Inr (\<lparr> a_path = fn_path st, a_revision = r \<rparr> # rest)))"

definition bumpAndReadChangedNodes :: "env \<Rightarrow> affected_revision list txp" where
  "bumpAndReadChangedNodes env = bind (gets (\<lambda>s. s)) (\<lambda>s.
     andThen (forEach (chunks 500 (map fst (filter snd (x_changed s)))) (bumpChunk env))
     (bind (gets t_nodes) (\<lambda>tbl.
      bind (liftR (captureChangeFeedNodes (x_namespaceId s) tbl (map fst (x_changed s)) [])) (\<lambda>states.
      bind (liftR (affectedOf states)) (\<lambda>res.
      ret (sortBy (\<lambda>a b. js_cmp (a_path a) (a_path b)) res))))))"

section \<open>Walking a path\<close>

fun resolveFrom :: "jstring \<Rightarrow> node list \<Rightarrow> node option \<Rightarrow> jstring list \<Rightarrow> node option" where
  "resolveFrom ns tbl n [] = n"
| "resolveFrom ns tbl None (seg # segs) = None"
| "resolveFrom ns tbl (Some n) (seg # segs) =
     (if n_type n \<noteq> DIRECTORY then None
      else resolveFrom ns tbl (findChild ns (n_id n) seg tbl) segs)"

definition resolvePathInManager :: "jstring \<Rightarrow> uuid \<Rightarrow> jstring list \<Rightarrow> node list \<Rightarrow> node option" where
  "resolvePathInManager ns rootId segs tbl = resolveFrom ns tbl (findNode ns rootId tbl) segs"

definition lockTargetNode :: "jstring \<Rightarrow> uuid \<Rightarrow> jstring \<Rightarrow> node option txp" where
  "lockTargetNode ns parentId name = bind (gets (\<lambda>s. findChild ns parentId name (t_nodes s))) (\<lambda>r.
     case r of None \<Rightarrow> ret None
     | Some n \<Rightarrow> andThen (trackChangeFeedBefore [n_id n]) (ret (Some n)))"

text \<open>
  The loop of \<open>lockParentChain\<close> over \<open>segments[0 .. length - 2]\<close>. \<open>done\<close> holds the segments
  before the current one, so the paths of the errors are \<open>done\<close> and \<open>done @ [name]\<close>.
\<close>

fun lockParentLoop :: "env \<Rightarrow> jstring \<Rightarrow> bool \<Rightarrow> uuid \<Rightarrow> node_type \<Rightarrow> jstring list \<Rightarrow> jstring list \<Rightarrow>
    (uuid \<times> node_type) txp" where
  "lockParentLoop env ns parents parentId parentType done [] = ret (parentId, parentType)"
| "lockParentLoop env ns parents parentId parentType done (name # rest) =
     andThen (throwIf (parentType \<noteq> DIRECTORY) (notDirectory (joinSegments done)))
     (andThen (trackChangeFeedBefore [parentId])
     (bind (gets (\<lambda>s. findChild ns parentId name (t_nodes s))) (\<lambda>found.
      case found of
        Some child \<Rightarrow> lockParentLoop env ns parents (n_id child) (n_type child) (done @ [name]) rest
      | None \<Rightarrow>
          andThen (throwIf (\<not> parents) (nodeNotFound (joinSegments (done @ [name]))))
          (bind (createNode env ns parentId DIRECTORY name None None None None) (\<lambda>child.
           andThen (recordLiveNodeDelta 1)
           (andThen (markAncestorChain parentId)
           (andThen (markChanged (n_id child) False)
           (lockParentLoop env ns parents (n_id child) (n_type child) (done @ [name]) rest))))))))"

definition lockParentChain :: "env \<Rightarrow> jstring \<Rightarrow> uuid \<Rightarrow> jstring list \<Rightarrow> bool \<Rightarrow> bool \<Rightarrow> uuid txp" where
  "lockParentChain env ns rootId segs parents markAncestors =
     bind (lockParentLoop env ns parents rootId DIRECTORY [] (butlast segs)) (\<lambda>(parentId, parentType).
     andThen (throwIf (parentType \<noteq> DIRECTORY) (notDirectory (joinSegments (butlast segs))))
     (andThen (trackChangeFeedBefore [parentId])
     (andThen (if markAncestors then markAncestorChain parentId else ret ())
     (ret parentId))))"

section \<open>The transaction\<close>

definition assertNamespaceActive :: "jstring \<Rightarrow> db \<Rightarrow> unit result" where
  "assertNamespaceActive ns d =
     (case findNamespace ns (namespaces d) of
        Some n \<Rightarrow> if ns_status n = ACTIVE then Inr () else Inl (Node (VfsNamespaceNotFoundError ns))
      | None \<Rightarrow> Inl (Node (VfsNamespaceNotFoundError ns)))"

definition lockNamespaceRoot :: "jstring \<Rightarrow> bool \<Rightarrow> db \<Rightarrow> node result" where
  "lockNamespaceRoot ns allowInactive d =
     (let missing = (if allowInactive then Inl (nodeNotFound [slash])
        else (case assertNamespaceActive ns d of Inl e \<Rightarrow> Inl e | Inr _ \<Rightarrow> Inl (nodeNotFound [slash]))) in
      case findRoot ns (nodes d) of
        None \<Rightarrow> missing
      | Some root \<Rightarrow> if n_type root \<noteq> DIRECTORY then missing else Inr root)"

text \<open>The checks before the work; the result says whether the feed has a checkpoint.\<close>

definition openMutation :: "jstring \<Rightarrow> uuid \<Rightarrow> bool \<Rightarrow> db \<Rightarrow> bool result" where
  "openMutation ns rootId allowInactive d =
     (case lockNamespaceRoot ns allowInactive d of
        Inl e \<Rightarrow> Inl e
      | Inr root \<Rightarrow>
          (case (if allowInactive then Inr () else assertNamespaceActive ns d) of
             Inl e \<Rightarrow> Inl e
           | Inr _ \<Rightarrow>
               (let feed = (case readChangeFeedState ns (feedStates d) of
                              None \<Rightarrow> False | Some st \<Rightarrow> f_hasCheckpoint st) in
                if n_id root = rootId then Inr feed
                else (case findNode ns rootId (nodes d) of
                    None \<Rightarrow> Inl (nodeNotFound [slash])
                  | Some start \<Rightarrow> if n_type start = DIRECTORY then Inr feed
                                  else Inl (nodeNotFound [slash])))))"

definition initTx :: "jstring \<Rightarrow> uuid \<Rightarrow> bool \<Rightarrow> db \<Rightarrow> nat \<Rightarrow> tx" where
  "initTx ns rootId feed d k = \<lparr> x_db = d, x_next = k, x_namespaceId = ns, x_rootId = rootId,
     x_changed = [], x_ancestorChainMarked = [], x_feedBefore = (if feed then Some [] else None),
     x_liveFileByteDelta = 0, x_logicalByteDelta = 0, x_liveNodeDelta = 0, x_trashByteDelta = 0,
     x_snapshotByteDelta = 0, x_folderFileDeltas = [] \<rparr>"

definition commitMutation :: "env \<Rightarrow> 'a \<Rightarrow> ('a \<times> affected_revision list \<Rightarrow> unit txp) \<Rightarrow>
    ('a \<times> affected_revision list) txp" where
  "commitMutation env value afterBump =
     andThen (applyNodeCounters env)
     (andThen (applyLogicalByteQuota env)
     (bind (bumpAndReadChangedNodes env) (\<lambda>affected.
      andThen (afterBump (value, affected))
      (bind (gets (\<lambda>s. s)) (\<lambda>s.
       andThen (case x_feedBefore s of
                  None \<Rightarrow> ret ()
                | Some before \<Rightarrow> appendChangeFeedEvents env (x_namespaceId s) before (map fst (x_changed s)))
       (ret (value, affected)))))))"

type_synonym store = "db \<times> nat"

definition withMutation :: "env \<Rightarrow> jstring \<Rightarrow> uuid \<Rightarrow> bool \<Rightarrow> 'a txp \<Rightarrow>
    ('a \<times> affected_revision list \<Rightarrow> unit txp) \<Rightarrow> (store, vfs_error, 'a \<times> affected_revision list) prog" where
  "withMutation env ns rootId allowInactive work afterBump = (\<lambda>(d, k).
     case openMutation ns rootId allowInactive d of
       Inl e \<Rightarrow> (Inl e, (d, k))
     | Inr feed \<Rightarrow>
         (case bind work (\<lambda>v. commitMutation env v afterBump) (initTx ns rootId feed d k) of
            (Inl e, t) \<Rightarrow> (Inl e, (d, x_next t))
          | (Inr r, t) \<Rightarrow> (Inr r, (x_db t, x_next t))))"

text \<open>\<open>createChangeFeedCheckpoint\<close>: \<open>secret\<close> stands for the 32 random bytes in hex.\<close>

definition createChangeFeedCheckpoint :: "jstring \<Rightarrow> uuid \<Rightarrow> jstring \<Rightarrow> (db, vfs_error, int) prog" where
  "createChangeFeedCheckpoint ns rootId secret d =
     (case lockNamespaceRoot ns False d of
        Inl e \<Rightarrow> (Inl e, d)
      | Inr root \<Rightarrow>
          (case assertNamespaceActive ns d of
             Inl e \<Rightarrow> (Inl e, d)
           | Inr _ \<Rightarrow>
               if n_id root \<noteq> rootId then (Inl (nodeNotFound [slash]), d)
               else (case readChangeFeedState ns (feedStates d) of
                   None \<Rightarrow> (Inr 0, d\<lparr> feedStates := insertRow \<lparr> f_namespaceId = ns, f_lastSequence = 0,
                       f_prunedThrough = 0, f_hasCheckpoint = True, f_signingSecret = secret \<rparr> (feedStates d) \<rparr>)
                 | Some st \<Rightarrow>
                     (Inr (f_lastSequence st),
                      if f_hasCheckpoint st then d
                      else d\<lparr> feedStates := updateRows (\<lambda>f. f_namespaceId f = ns)
                             (\<lambda>f. f\<lparr> f_hasCheckpoint := True \<rparr>) (feedStates d) \<rparr>))))"

end
