(* ===== verification/Tables.thy ===== *)
theory Tables
  imports Core
begin

text \<open>
  The constraints of the node table as one invariant, and how each statement keeps it. The
  laws of tables addressed by a key are interpreted here for the node, Blob and namespace tables.
\<close>

interpretation nodeKey: keyed_table n_id .
interpretation blobKey: keyed_table b_id .
interpretation namespaceKey: keyed_table ns_id .

section \<open>Constraints\<close>

definition clash :: "node \<Rightarrow> node \<Rightarrow> bool" where
  "clash q r \<longleftrightarrow> n_namespaceId q = n_namespaceId r \<and> n_parentId q = n_parentId r \<and>
     (n_parentId r = None \<or> n_name q = n_name r)"

definition parentOk :: "node \<Rightarrow> node list \<Rightarrow> bool" where
  "parentOk r tbl \<longleftrightarrow>
     (\<forall>p. n_parentId r = Some p \<longrightarrow> (\<exists>q\<in>set tbl. n_id q = p \<and> n_namespaceId q = n_namespaceId r))"

definition blobOk :: "node \<Rightarrow> blob list \<Rightarrow> bool" where
  "blobOk r bl \<longleftrightarrow>
     (\<forall>b. n_blobId r = Some b \<longrightarrow> (\<exists>q\<in>set bl. b_id q = b \<and> b_namespaceId q = n_namespaceId r))"

definition validNodes :: "node list \<Rightarrow> blob list \<Rightarrow> bool" where
  "validNodes tbl bl \<longleftrightarrow> distinct (map n_id tbl) \<and>
     (\<forall>r\<in>set tbl. typeContent r \<and> rootShape r \<and> parentOk r tbl \<and> blobOk r bl) \<and>
     (\<forall>q\<in>set tbl. \<forall>r\<in>set tbl. clash q r \<longrightarrow> q = r)"

lemma clash_sym: "clash q r \<longleftrightarrow> clash r q"
  by (auto simp: clash_def)

lemma checkNodeRow_None:
  "checkNodeRow r others bl = None \<longleftrightarrow>
     (\<forall>q\<in>set others. n_id q \<noteq> n_id r) \<and> typeContent r \<and> rootShape r \<and> (\<forall>q\<in>set others. \<not> clash q r) \<and>
     parentOk r (r # others) \<and> blobOk r bl"
  unfolding checkNodeRow_def clash_def parentOk_def blobOk_def
  by (cases "n_parentId r"; cases "n_blobId r") (auto split: if_splits)

lemma valid_distinct: "validNodes tbl bl \<Longrightarrow> distinct (map n_id tbl)"
  by (simp add: validNodes_def)

lemma valid_id_eq: "validNodes tbl bl \<Longrightarrow> q \<in> set tbl \<Longrightarrow> r \<in> set tbl \<Longrightarrow> n_id q = n_id r \<Longrightarrow> q = r"
  by (auto simp: validNodes_def distinct_map inj_on_def)

lemma valid_row:
  assumes "validNodes tbl bl" and "r \<in> set tbl"
  shows "typeContent r" and "rootShape r" and "parentOk r tbl" and "blobOk r bl"
  using assms by (auto simp: validNodes_def)

lemma valid_parent:
  assumes "validNodes tbl bl" and "r \<in> set tbl" and "n_parentId r = Some p"
  obtains q where "q \<in> set tbl" "n_id q = p" "n_namespaceId q = n_namespaceId r"
  using valid_row(3) [OF assms(1,2)] assms(3) by (auto simp: parentOk_def)

lemma parentOk_mono: "parentOk r tbl \<Longrightarrow> set tbl \<subseteq> set tbl' \<Longrightarrow> parentOk r tbl'"
  by (fastforce simp: parentOk_def)

section \<open>Statements keep the constraints\<close>

lemma valid_insert:
  assumes "validNodes tbl bl" and "checkNodeRow r tbl bl = None"
  shows "validNodes (insertRow r tbl) bl"
proof -
  have c: "\<forall>q\<in>set tbl. n_id q \<noteq> n_id r" "typeContent r" "rootShape r" "\<forall>q\<in>set tbl. \<not> clash q r"
      "parentOk r (r # tbl)" "blobOk r bl"
    using assms(2) by (simp_all add: checkNodeRow_None)
  have "\<forall>q\<in>set (insertRow r tbl). typeContent q \<and> rootShape q \<and> parentOk q (insertRow r tbl) \<and> blobOk q bl"
    using assms(1) c parentOk_mono [of _ tbl "insertRow r tbl"] parentOk_mono [of r "r # tbl" "insertRow r tbl"]
    by (auto simp: validNodes_def)
  moreover have "\<forall>q\<in>set (insertRow r tbl). \<forall>q'\<in>set (insertRow r tbl). clash q q' \<longrightarrow> q = q'"
    using assms(1) c(4) by (auto simp: validNodes_def clash_sym)
  ultimately show ?thesis
    using assms(1) c(1) by (auto simp: validNodes_def nodeKey.distinct_insert image_iff)
qed

lemma updateRows_const_set:
  "set (updateRows (\<lambda>n. n_id n = i) (\<lambda>_. r) tbl) =
     {q \<in> set tbl. n_id q \<noteq> i} \<union> (if i \<in> n_id ` set tbl then {r} else {})"
  by (auto simp: updateRows_def image_iff)

lemma distinct_update_const:
  assumes "distinct (map n_id tbl)" and "n_id r = i"
  shows "distinct (map n_id (updateRows (\<lambda>n. n_id n = i) (\<lambda>_. r) tbl))"
proof -
  have "map n_id (updateRows (\<lambda>n. n_id n = i) (\<lambda>_. r) tbl) = map n_id tbl"
    using assms(2) by (auto simp: updateRows_def)
  with assms(1) show ?thesis by simp
qed

lemma valid_replace:
  assumes v: "validNodes tbl bl" and r0: "r0 \<in> set tbl" "n_id r0 = i"
    and r: "n_id r = i" "n_namespaceId r = n_namespaceId r0"
    and c: "checkNodeRow r (deleteRows (\<lambda>n. n_id n = i) tbl) bl = None"
  shows "validNodes (updateRows (\<lambda>n. n_id n = i) (\<lambda>_. r) tbl) bl"
proof -
  let ?new = "updateRows (\<lambda>n. n_id n = i) (\<lambda>_. r) tbl"
  have set_new: "set ?new = insert r {q \<in> set tbl. n_id q \<noteq> i}"
    using r0 by (auto simp: updateRows_const_set)
  have c': "typeContent r" "rootShape r" "\<forall>q\<in>set tbl. n_id q \<noteq> i \<longrightarrow> \<not> clash q r"
      "parentOk r (r # deleteRows (\<lambda>n. n_id n = i) tbl)" "blobOk r bl"
    using c by (auto simp: checkNodeRow_None)
  have par: "parentOk q ?new" if q: "q \<in> set tbl" for q
    unfolding parentOk_def
  proof (intro allI impI)
    fix p assume "n_parentId q = Some p"
    with v q obtain q' where q': "q' \<in> set tbl" "n_id q' = p" "n_namespaceId q' = n_namespaceId q"
      by (rule valid_parent)
    show "\<exists>x\<in>set ?new. n_id x = p \<and> n_namespaceId x = n_namespaceId q"
    proof (cases "p = i")
      case True
      with v r0 q' have "q' = r0" by (auto intro: valid_id_eq)
      with True q' r show ?thesis by (auto simp: set_new)
    next
      case False
      with q' show ?thesis by (auto simp: set_new)
    qed
  qed
  have "parentOk r ?new"
    using c'(4) by (rule parentOk_mono) (auto simp: set_new)
  moreover have "\<forall>q\<in>set ?new. \<forall>q'\<in>set ?new. clash q q' \<longrightarrow> q = q'"
    using v c'(3) by (auto simp: set_new validNodes_def clash_sym)
  ultimately show ?thesis
    using v c' par distinct_update_const [OF valid_distinct [OF v] r(1)]
    by (auto simp: validNodes_def set_new)
qed

text \<open>An update that leaves the constrained columns alone.\<close>

lemma valid_update:
  assumes v: "validNodes tbl bl"
    and f: "\<And>n. n_id (f n) = n_id n \<and> n_namespaceId (f n) = n_namespaceId n \<and> n_parentId (f n) = n_parentId n \<and>
      n_type (f n) = n_type n \<and> n_name (f n) = n_name n \<and> n_blobId (f n) = n_blobId n \<and> n_size (f n) = n_size n"
  shows "validNodes (updateRows P f tbl) bl"
proof -
  let ?g = "\<lambda>n. if P n then f n else n"
  have g: "n_id (?g n) = n_id n" "n_namespaceId (?g n) = n_namespaceId n" "n_parentId (?g n) = n_parentId n"
      "n_type (?g n) = n_type n" "n_name (?g n) = n_name n" "n_blobId (?g n) = n_blobId n"
      "n_size (?g n) = n_size n" for n
    using f [of n] by auto
  have d: "distinct (map n_id (updateRows P f tbl))"
    using v f by (intro nodeKey.distinct_update) (auto simp: validNodes_def)
  have cols: "typeContent (?g n) = typeContent n" "rootShape (?g n) = rootShape n"
      "blobOk (?g n) bl = blobOk n bl" for n
    unfolding typeContent_def rootShape_def blobOk_def g by simp_all
  have par: "parentOk (?g n) (updateRows P f tbl) = parentOk n tbl" for n
    unfolding parentOk_def g set_updateRows bex_simps(7) ..
  have cl: "clash (?g q) (?g r) = clash q r" for q r
    unfolding clash_def g by simp
  from v show ?thesis
    using d unfolding validNodes_def set_updateRows ball_simps(9) cols par cl by blast
qed

lemma valid_delete:
  assumes "validNodes tbl bl" and "\<forall>n\<in>set (deleteRows P tbl). \<forall>q\<in>set tbl. P q \<longrightarrow> n_parentId n \<noteq> Some (n_id q)"
  shows "validNodes (deleteRows P tbl) bl"
proof -
  have "parentOk r (deleteRows P tbl)" if r: "r \<in> set tbl" "\<not> P r" for r
    unfolding parentOk_def
  proof (intro allI impI)
    fix p assume p: "n_parentId r = Some p"
    with assms(1) r(1) obtain q where "q \<in> set tbl" "n_id q = p" "n_namespaceId q = n_namespaceId r"
      by (rule valid_parent)
    with assms(2) r p show "\<exists>q\<in>set (deleteRows P tbl). n_id q = p \<and> n_namespaceId q = n_namespaceId r"
      by auto
  qed
  with assms(1) show ?thesis
    by (auto simp: validNodes_def nodeKey.distinct_delete)
qed

lemma valid_more_blobs: "validNodes tbl bl \<Longrightarrow> set bl \<subseteq> set bl' \<Longrightarrow> validNodes tbl bl'"
  by (fastforce simp: validNodes_def blobOk_def)

lemma valid_update_blobs:
  assumes "validNodes tbl bl" and "\<And>b. b_id (f b) = b_id b \<and> b_namespaceId (f b) = b_namespaceId b"
  shows "validNodes tbl (updateRows P f bl)"
proof -
  let ?g = "\<lambda>b. if P b then f b else b"
  have g: "b_id (?g b) = b_id b" "b_namespaceId (?g b) = b_namespaceId b" for b
    using assms(2) [of b] by auto
  have "blobOk r (updateRows P f bl) = blobOk r bl" for r
    unfolding blobOk_def set_updateRows bex_simps(7) g ..
  with assms(1) show ?thesis by (auto simp: validNodes_def)
qed

section \<open>The parent relation is a forest\<close>

text \<open>
  No constraint of the database keeps a node from being its own ancestor. \<open>grounded\<close> says that the
  nodes can be ranked with every parent below its children, so every walk towards the root ends.
\<close>

definition ranked :: "(uuid \<Rightarrow> nat) \<Rightarrow> node list \<Rightarrow> bool" where
  "ranked h tbl \<longleftrightarrow> (\<forall>n\<in>set tbl. \<forall>p. n_parentId n = Some p \<longrightarrow> h p < h (n_id n))"

definition grounded :: "node list \<Rightarrow> bool" where
  "grounded tbl \<longleftrightarrow> (\<exists>h. ranked h tbl)"

lemma grounded_subset: "grounded tbl \<Longrightarrow> set tbl' \<subseteq> set tbl \<Longrightarrow> grounded tbl'"
  by (auto simp: grounded_def ranked_def)

lemma grounded_insert:
  assumes g: "grounded tbl" and v: "validNodes tbl bl" and new: "\<forall>q\<in>set tbl. n_id q \<noteq> n_id r"
    and par: "n_parentId r \<noteq> Some (n_id r)"
  shows "grounded (insertRow r tbl)"
proof -
  from g obtain h where h: "ranked h tbl" by (auto simp: grounded_def)
  let ?h = "h(n_id r := (case n_parentId r of None \<Rightarrow> 0 | Some p \<Rightarrow> Suc (h p)))"
  have "ranked ?h (insertRow r tbl)"
    unfolding ranked_def
  proof (intro ballI allI impI)
    fix n p assume n: "n \<in> set (insertRow r tbl)" and p: "n_parentId n = Some p"
    show "?h p < ?h (n_id n)"
    proof (cases "n = r")
      case True
      with p par show ?thesis by auto
    next
      case False
      with n have n': "n \<in> set tbl" by simp
      with v p obtain q where "q \<in> set tbl" "n_id q = p" by (metis valid_parent)
      with new n' p h show ?thesis by (auto simp: ranked_def)
    qed
  qed
  then show ?thesis by (auto simp: grounded_def)
qed

lemma grounded_update:
  assumes "grounded tbl" and "\<And>n. n \<in> set tbl \<Longrightarrow> P n \<Longrightarrow> n_id (f n) = n_id n \<and> n_parentId (f n) = n_parentId n"
  shows "grounded (updateRows P f tbl)"
proof -
  from assms(1) obtain h where "ranked h tbl" by (auto simp: grounded_def)
  then have "ranked h (updateRows P f tbl)"
    using assms(2) by (auto simp: ranked_def set_updateRows)
  then show ?thesis by (auto simp: grounded_def)
qed

text \<open>A subtree may hang below any node outside it.\<close>

lemma grounded_move:
  assumes g: "grounded tbl" and d: "distinct (map n_id tbl)" and n: "n \<in> set tbl" and r: "n_id r = n_id n" "n_parentId r = Some f"
    and D: "n_id n \<in> D" "f \<notin> D"
    and closed: "\<And>c p. c \<in> set tbl \<Longrightarrow> c \<noteq> n \<Longrightarrow> n_parentId c = Some p \<Longrightarrow> n_id c \<in> D \<longleftrightarrow> p \<in> D"
  shows "grounded (updateRows (\<lambda>q. n_id q = n_id n) (\<lambda>_. r) tbl)"
proof -
  from g obtain h where h: "ranked h tbl" by (auto simp: grounded_def)
  let ?h = "\<lambda>i. if i \<in> D then h i + Suc (h f) else h i"
  have "ranked ?h (updateRows (\<lambda>q. n_id q = n_id n) (\<lambda>_. r) tbl)"
    unfolding ranked_def
  proof (intro ballI allI impI)
    fix c p assume c: "c \<in> set (updateRows (\<lambda>q. n_id q = n_id n) (\<lambda>_. r) tbl)" and p: "n_parentId c = Some p"
    show "?h p < ?h (n_id c)"
    proof (cases "c = r")
      case True
      with p r D show ?thesis by auto
    next
      case False
      with c have c': "c \<in> set tbl" "n_id c \<noteq> n_id n" by (auto simp: set_updateRows split: if_splits)
      then have "c \<noteq> n" by auto
      with closed [OF c'(1) this p] c' p h show ?thesis by (auto simp: ranked_def)
    qed
  qed
  then show ?thesis by (auto simp: grounded_def)
qed

end
