(* ===== verification/Ledger.thy ===== *)
theory Ledger
  imports Tables
begin

text \<open>
  The books of a transaction. A counter column plus the delta the transaction has recorded must
  equal what the rows add up to: live nodes and live bytes of the namespace, FILE children of each
  directory, references to each Blob. Between two statements of an operation the two sides differ;
  \<open>ledger\<close> carries the differences (\<open>dn\<close>, \<open>db\<close>, \<open>df\<close>, \<open>own\<close>), every statement changes
  them by a known amount, and an operation is correct when it ends with no difference.
\<close>

section \<open>Weights\<close>

definition liveNode :: "jstring \<Rightarrow> node \<Rightarrow> int" where
  "liveNode ns n = (if n_namespaceId n = ns \<and> n_parentId n \<noteq> None then 1 else 0)"

definition liveByte :: "jstring \<Rightarrow> node \<Rightarrow> int" where
  "liveByte ns n = (if n_namespaceId n = ns \<and> n_type n = FILE
     then (case n_size n of None \<Rightarrow> 0 | Some z \<Rightarrow> z) else 0)"

definition fileChild :: "uuid \<Rightarrow> node \<Rightarrow> int" where
  "fileChild p n = (if n_type n = FILE \<and> n_parentId n = Some p then 1 else 0)"

definition holds :: "uuid \<Rightarrow> uuid option \<Rightarrow> int" where
  "holds b x = (if x = Some b then 1 else 0)"

abbreviation nodeRef :: "uuid \<Rightarrow> node \<Rightarrow> int" where "nodeRef b n \<equiv> holds b (n_blobId n)"

definition refs :: "uuid \<Rightarrow> db \<Rightarrow> int" where
  "refs b d = weigh (nodeRef b) (nodes d) + weigh (\<lambda>e. holds b (e_blobId e)) (trashEntries d)
     + weigh (\<lambda>q. holds b (q_blobId q)) (snapshotEntries d)"

lemmas weights = liveNode_def liveByte_def fileChild_def holds_def

section \<open>The parts of the ledger\<close>

text \<open>
  Keys, constraints, the foreign keys of the entry tables to \<open>blob\<close>, and only FILE entries of the
  trash hold a Blob.
\<close>

definition rowsOk :: "db \<Rightarrow> bool" where
  "rowsOk d \<longleftrightarrow> validNodes (nodes d) (blobs d) \<and> distinct (map b_id (blobs d)) \<and>
     distinct (map ns_id (namespaces d)) \<and>
     (\<forall>e\<in>set (trashEntries d). \<forall>b. e_blobId e = Some b \<longrightarrow> e_type e = FILE \<and> b \<in> b_id ` set (blobs d)) \<and>
     (\<forall>q\<in>set (snapshotEntries d). \<forall>b. q_blobId q = Some b \<longrightarrow> b \<in> b_id ` set (blobs d))"

definition namespaceOk :: "jstring \<Rightarrow> db \<Rightarrow> int \<Rightarrow> int \<Rightarrow> bool" where
  "namespaceOk ns d dn db \<longleftrightarrow> (\<forall>z\<in>set (namespaces d). ns_id z = ns \<longrightarrow>
     ns_liveNodeCount z = weigh (liveNode ns) (nodes d) + dn \<and>
     ns_liveFileByteCount z = weigh (liveByte ns) (nodes d) + db)"

definition foldersOk :: "jstring \<Rightarrow> db \<Rightarrow> (uuid \<Rightarrow> int) \<Rightarrow> bool" where
  "foldersOk ns d df \<longleftrightarrow> (\<forall>q\<in>set (nodes d). n_namespaceId q = ns \<longrightarrow> n_type q = DIRECTORY \<longrightarrow>
     n_childFileCount q = weigh (fileChild (n_id q)) (nodes d) + df (n_id q))"

definition refsOk :: "db \<Rightarrow> (uuid \<Rightarrow> int) \<Rightarrow> bool" where
  "refsOk d own \<longleftrightarrow> (\<forall>b\<in>set (blobs d). b_referenceCount b = refs (b_id b) d + own (b_id b))"

definition trashOk :: "jstring \<Rightarrow> db \<Rightarrow> bool" where
  "trashOk ns d \<longleftrightarrow> (\<forall>z\<in>set (namespaces d). ns_id z = ns \<longrightarrow>
     ns_retainedTrashNodeCount z = weigh (\<lambda>t. if t_namespaceId t = ns then t_nodeCount t else 0) (trashes d) \<and>
     ns_retainedTrashByteCount z = weigh (\<lambda>t. if t_namespaceId t = ns then t_logicalBytes t else 0) (trashes d))"

text \<open>A committed database whose counters are exact for one namespace.\<close>

definition consistent :: "jstring \<Rightarrow> db \<Rightarrow> bool" where
  "consistent ns d \<longleftrightarrow> rowsOk d \<and> grounded (nodes d) \<and> namespaceOk ns d 0 0 \<and> foldersOk ns d (\<lambda>_. 0) \<and> refsOk d (\<lambda>_. 0) \<and> trashOk ns d"

text \<open>
  The generator's contract: its ids are pairwise different and those not yet drawn name no node,
  neither a live one nor one in the trash.
\<close>

definition freshIds :: "env \<Rightarrow> nat \<Rightarrow> db \<Rightarrow> bool" where
  "freshIds env k d \<longleftrightarrow> inj (env_uuid env) \<and>
     (\<forall>j\<ge>k. env_uuid env j \<notin> n_id ` set (nodes d) \<and> env_uuid env j \<notin> e_sourceNodeId ` set (trashEntries d))"

lemma freshIds_frame [simp]:
  "freshIds env k (d\<lparr> blobs := bl \<rparr>) = freshIds env k d"
  "freshIds env k (d\<lparr> namespaces := nss \<rparr>) = freshIds env k d"
  "freshIds env k (d\<lparr> trashes := tr \<rparr>) = freshIds env k d"
  "freshIds env k (d\<lparr> feedStates := fs \<rparr>) = freshIds env k d"
  "freshIds env k (d\<lparr> events := es \<rparr>) = freshIds env k d"
  by (simp_all add: freshIds_def)

definition ledger :: "env \<Rightarrow> tx \<Rightarrow> int \<Rightarrow> int \<Rightarrow> (uuid \<Rightarrow> int) \<Rightarrow> (uuid \<Rightarrow> int) \<Rightarrow> bool" where
  "ledger env s dn db df own \<longleftrightarrow> rowsOk (x_db s) \<and> grounded (t_nodes s) \<and>
     namespaceOk (x_namespaceId s) (x_db s) (dn - x_liveNodeDelta s) (db - x_liveFileByteDelta s) \<and>
     foldersOk (x_namespaceId s) (x_db s) (\<lambda>i. df i - folderDelta (x_folderFileDeltas s) i) \<and>
     refsOk (x_db s) own \<and> trashOk (x_namespaceId s) (x_db s) \<and>
     freshIds env (x_next s) (x_db s) \<and>
     distinct (map fst (x_folderFileDeltas s)) \<and>
     (\<forall>j\<ge>x_next s. env_uuid env j \<notin> fst ` set (x_folderFileDeltas s) \<and> df (env_uuid env j) = 0)"

abbreviation books :: "env \<Rightarrow> tx \<Rightarrow> bool" where
  "books env s \<equiv> ledger env s 0 0 (\<lambda>_. 0) (\<lambda>_. 0)"

lemma ledger_rows: "ledger env s dn db df own \<Longrightarrow> rowsOk (x_db s)"
  by (simp add: ledger_def)

lemma ledger_valid: "ledger env s dn db df own \<Longrightarrow> validNodes (t_nodes s) (t_blobs s)"
  by (simp add: ledger_def rowsOk_def)

lemma ledger_grounded: "ledger env s dn db df own \<Longrightarrow> grounded (t_nodes s)"
  by (simp add: ledger_def)

lemma ledger_past: "ledger env s dn db df own \<Longrightarrow> q \<in> set (t_nodes s) \<Longrightarrow> x_next s \<le> j \<Longrightarrow> env_uuid env j \<noteq> n_id q"
  by (auto simp: ledger_def freshIds_def)

section \<open>Statements on the node table\<close>

definition withNodes :: "tx \<Rightarrow> node list \<Rightarrow> tx" where
  "withNodes s tbl = s\<lparr> x_db := (x_db s)\<lparr> nodes := tbl \<rparr> \<rparr>"

lemma withNodes_sel [simp]:
  "x_db (withNodes s tbl) = (x_db s)\<lparr> nodes := tbl \<rparr>" "x_next (withNodes s tbl) = x_next s"
  "x_namespaceId (withNodes s tbl) = x_namespaceId s" "x_rootId (withNodes s tbl) = x_rootId s"
  "x_changed (withNodes s tbl) = x_changed s" "x_ancestorChainMarked (withNodes s tbl) = x_ancestorChainMarked s"
  "x_feedBefore (withNodes s tbl) = x_feedBefore s" "x_liveFileByteDelta (withNodes s tbl) = x_liveFileByteDelta s"
  "x_liveNodeDelta (withNodes s tbl) = x_liveNodeDelta s" "x_trashByteDelta (withNodes s tbl) = x_trashByteDelta s"
  "x_snapshotByteDelta (withNodes s tbl) = x_snapshotByteDelta s"
  "x_folderFileDeltas (withNodes s tbl) = x_folderFileDeltas s"
  by (simp_all add: withNodes_def)

lemma setNodes_run [simp]: "setNodes f s = (Inr (), withNodes s (f (t_nodes s)))"
  by (simp add: setNodes_def modify_def withNodes_def)

text \<open>
  Replacing the node table: the ledger moves by the difference of the weights. What has to be shown
  of the new table is its constraints, its ids, and the directories' own columns.
\<close>

lemma ledger_withNodes:
  assumes l: "ledger env s dn db df own" and v: "validNodes new (t_blobs s)" and g: "grounded new"
    and ids: "\<And>q j. q \<in> set new \<Longrightarrow> x_next s \<le> j \<Longrightarrow> env_uuid env j \<noteq> n_id q"
    and dirs: "\<And>q. q \<in> set new \<Longrightarrow> n_namespaceId q = x_namespaceId s \<Longrightarrow> n_type q = DIRECTORY \<Longrightarrow>
      n_childFileCount q = weigh (fileChild (n_id q)) (t_nodes s) + df (n_id q)
        - folderDelta (x_folderFileDeltas s) (n_id q)"
    and fut: "\<And>i. weigh (fileChild i) new \<noteq> weigh (fileChild i) (t_nodes s) \<Longrightarrow> i \<in> n_id ` set new \<union> n_id ` set (t_nodes s)"
  shows "ledger env (withNodes s new)
    (dn + weigh (liveNode (x_namespaceId s)) (t_nodes s) - weigh (liveNode (x_namespaceId s)) new)
    (db + weigh (liveByte (x_namespaceId s)) (t_nodes s) - weigh (liveByte (x_namespaceId s)) new)
    (\<lambda>i. df i + weigh (fileChild i) (t_nodes s) - weigh (fileChild i) new)
    (\<lambda>b. own b + weigh (nodeRef b) (t_nodes s) - weigh (nodeRef b) new)"
proof -
  have "df (env_uuid env j) + weigh (fileChild (env_uuid env j)) (t_nodes s)
      - weigh (fileChild (env_uuid env j)) new = 0" if "x_next s \<le> j" for j
    using fut [of "env_uuid env j"] ids l that by (fastforce simp: ledger_def freshIds_def)
  moreover have "freshIds env (x_next s) ((x_db s)\<lparr> nodes := new \<rparr>)"
    using l ids by (fastforce simp: ledger_def freshIds_def)
  moreover have "namespaceOk (x_namespaceId s) ((x_db s)\<lparr> nodes := new \<rparr>)
    (dn + weigh (liveNode (x_namespaceId s)) (t_nodes s) - weigh (liveNode (x_namespaceId s)) new - x_liveNodeDelta s)
    (db + weigh (liveByte (x_namespaceId s)) (t_nodes s) - weigh (liveByte (x_namespaceId s)) new - x_liveFileByteDelta s)"
    using l by (auto simp: ledger_def namespaceOk_def)
  moreover have "foldersOk (x_namespaceId s) ((x_db s)\<lparr> nodes := new \<rparr>)
     (\<lambda>i. df i + weigh (fileChild i) (t_nodes s) - weigh (fileChild i) new - folderDelta (x_folderFileDeltas s) i)"
    using dirs by (auto simp: foldersOk_def)
  moreover have "refsOk ((x_db s)\<lparr> nodes := new \<rparr>) (\<lambda>b. own b + weigh (nodeRef b) (t_nodes s) - weigh (nodeRef b) new)"
    using l by (auto simp: ledger_def refsOk_def refs_def)
  ultimately show ?thesis
    using l v g by (auto simp: ledger_def rowsOk_def trashOk_def)
qed

lemma no_children:
  assumes "validNodes tbl bl" and "\<forall>q\<in>set tbl. n_id q \<noteq> i"
  shows "weigh (fileChild i) tbl = 0"
proof (rule weigh_zero)
  fix r assume r: "r \<in> set tbl"
  have "n_parentId r \<noteq> Some i"
  proof
    assume "n_parentId r = Some i"
    with assms(1) r obtain q where "q \<in> set tbl" "n_id q = i" by (rule valid_parent)
    with assms(2) show False by simp
  qed
  then show "fileChild i r = 0" by (simp add: fileChild_def)
qed

lemma insertNode_iff [monad_simps]:
  "insertNode r s = (Inr u, t) \<longleftrightarrow>
     checkNodeRow r (t_nodes s) (t_blobs s) = None \<and> t = withNodes s (insertRow r (t_nodes s))"
  by (auto simp: insertNode_def bind_def gets_def throw_def split: option.splits)

lemma ledger_insert:
  assumes l: "ledger env s dn db df own" and c: "checkNodeRow r (t_nodes s) (t_blobs s) = None"
    and r: "n_namespaceId r = x_namespaceId s" "n_parentId r \<noteq> None" "n_parentId r \<noteq> Some (n_id r)"
    and id: "\<And>j. x_next s \<le> j \<Longrightarrow> env_uuid env j \<noteq> n_id r"
    and dir: "n_type r = DIRECTORY \<Longrightarrow> n_childFileCount r = df (n_id r) - folderDelta (x_folderFileDeltas s) (n_id r)"
  shows "ledger env (withNodes s (insertRow r (t_nodes s))) (dn - 1) (db - liveByte (x_namespaceId s) r)
    (\<lambda>i. df i - fileChild i r) (\<lambda>b. own b - nodeRef b r)"
proof -
  note v = ledger_valid [OF l]
  have c': "\<forall>q\<in>set (t_nodes s). n_id q \<noteq> n_id r" "parentOk r (r # t_nodes s)"
    using c by (auto simp: checkNodeRow_None)
  have "ledger env (withNodes s (insertRow r (t_nodes s)))
    (dn + weigh (liveNode (x_namespaceId s)) (t_nodes s) - weigh (liveNode (x_namespaceId s)) (insertRow r (t_nodes s)))
    (db + weigh (liveByte (x_namespaceId s)) (t_nodes s) - weigh (liveByte (x_namespaceId s)) (insertRow r (t_nodes s)))
    (\<lambda>i. df i + weigh (fileChild i) (t_nodes s) - weigh (fileChild i) (insertRow r (t_nodes s)))
    (\<lambda>b. own b + weigh (nodeRef b) (t_nodes s) - weigh (nodeRef b) (insertRow r (t_nodes s)))"
  proof (rule ledger_withNodes [OF l valid_insert [OF v c] grounded_insert [OF ledger_grounded [OF l] v c'(1) r(3)]])
    show "env_uuid env j \<noteq> n_id q" if "q \<in> set (insertRow r (t_nodes s))" "x_next s \<le> j" for q j
      using that id ledger_past [OF l] by auto
    show "n_childFileCount q = weigh (fileChild (n_id q)) (t_nodes s) + df (n_id q)
        - folderDelta (x_folderFileDeltas s) (n_id q)"
      if "q \<in> set (insertRow r (t_nodes s))" "n_namespaceId q = x_namespaceId s" "n_type q = DIRECTORY" for q
      using that dir l no_children [OF v c'(1)] by (auto simp: ledger_def foldersOk_def)
    show "i \<in> n_id ` set (insertRow r (t_nodes s)) \<union> n_id ` set (t_nodes s)"
      if "weigh (fileChild i) (insertRow r (t_nodes s)) \<noteq> weigh (fileChild i) (t_nodes s)" for i
      using that c'(2) by (auto simp: table_simps fileChild_def parentOk_def split: if_splits)
  qed
  moreover have "liveNode (x_namespaceId s) r = 1" using r by (simp add: liveNode_def)
  ultimately show ?thesis by (simp add: table_simps algebra_simps)
qed

section \<open>Drawing ids and recording deltas\<close>

lemma freshId_iff [monad_simps]:
  "freshId env s = (Inr i, t) \<longleftrightarrow> i = env_uuid env (x_next s) \<and> t = s\<lparr> x_next := Suc (x_next s) \<rparr>"
  by (auto simp: freshId_def bind_def andThen_def gets_def modify_def ret_def)

lemma ledger_next: "ledger env s dn db df own \<Longrightarrow> ledger env (s\<lparr> x_next := Suc (x_next s) \<rparr>) dn db df own"
  by (auto simp: ledger_def freshIds_def)

lemma map_of_fst: "i \<notin> fst ` set m \<Longrightarrow> folderDelta m i = 0"
  by (auto simp: folderDelta_def map_of_eq_None_iff [symmetric])

lemma createNode_ledger:
  assumes run: "createNode env ns p ty name bl sz mime ex s = (Inr r, t)" and l: "ledger env s dn db df own"
    and ns: "ns = x_namespaceId s" and p: "p \<in> n_id ` set (t_nodes s)"
  shows "ledger env t (dn - 1) (db - liveByte ns r) (\<lambda>i. df i - fileChild i r) (\<lambda>b. own b - nodeRef b r)"
    and "r = newNode env (env_uuid env (x_next s)) ns p ty name bl sz mime ex"
    and "t = withNodes (s\<lparr> x_next := Suc (x_next s) \<rparr>) (insertRow r (t_nodes s))"
    and "checkNodeRow r (t_nodes s) (t_blobs s) = None"
proof -
  let ?s = "s\<lparr> x_next := Suc (x_next s) \<rparr>"
  show r: "r = newNode env (env_uuid env (x_next s)) ns p ty name bl sz mime ex"
    and t: "t = withNodes (s\<lparr> x_next := Suc (x_next s) \<rparr>) (insertRow r (t_nodes s))"
    and c: "checkNodeRow r (t_nodes s) (t_blobs s) = None"
    using run by (auto simp: createNode_def Let_def monad_simps)
  have z: "df (n_id r) = 0" "folderDelta (x_folderFileDeltas s) (n_id r) = 0"
    using l by (auto simp: r newNode_def ledger_def intro!: map_of_fst)
  have "n_parentId r \<noteq> Some (n_id r)"
    using p c by (auto simp: r newNode_def checkNodeRow_None)
  moreover have "env_uuid env j \<noteq> n_id r" if "Suc (x_next s) \<le> j" for j
    using that l by (auto simp: r newNode_def ledger_def freshIds_def dest: injD)
  ultimately have "ledger env (withNodes ?s (insertRow r (t_nodes ?s))) (dn - 1) (db - liveByte (x_namespaceId ?s) r)
    (\<lambda>i. df i - fileChild i r) (\<lambda>b. own b - nodeRef b r)"
    using c z ns by (intro ledger_insert ledger_next l) (auto simp: r newNode_def)
  then show "ledger env t (dn - 1) (db - liveByte ns r) (\<lambda>i. df i - fileChild i r) (\<lambda>b. own b - nodeRef b r)"
    by (simp add: t ns)
qed

lemma recordLiveNodeDelta_iff [monad_simps]:
  "recordLiveNodeDelta k s = (Inr u, t) \<longleftrightarrow> t = s\<lparr> x_liveNodeDelta := x_liveNodeDelta s + k \<rparr>"
  by (auto simp: recordLiveNodeDelta_def modify_def)

lemma recordLiveByteDelta_iff [monad_simps]:
  "recordLiveByteDelta k s = (Inr u, t) \<longleftrightarrow>
     t = s\<lparr> x_liveFileByteDelta := x_liveFileByteDelta s + k, x_logicalByteDelta := x_logicalByteDelta s + k \<rparr>"
  by (auto simp: recordLiveByteDelta_def modify_def)

lemma recordLiveNodeDelta_ledger:
  "recordLiveNodeDelta k s = (Inr u, t) \<Longrightarrow> ledger env s dn db df own \<Longrightarrow> ledger env t (dn + k) db df own"
  by (auto simp: monad_simps ledger_def)

lemma recordLiveByteDelta_ledger:
  "recordLiveByteDelta k s = (Inr u, t) \<Longrightarrow> ledger env s dn db df own \<Longrightarrow> ledger env t dn (db + k) df own"
  by (auto simp: monad_simps ledger_def)

lemma folderDelta_update: "folderDelta (AList.update p d m) i = (if i = p then d else folderDelta m i)"
  by (simp add: folderDelta_def update_conv)

lemma recordFolderFileDelta_iff [monad_simps]:
  "recordFolderFileDelta p k s = (Inr u, t) \<longleftrightarrow> t = (if k = 0 then s else s\<lparr> x_folderFileDeltas :=
     AList.update p (folderDelta (x_folderFileDeltas s) p + k) (x_folderFileDeltas s) \<rparr>)"
  by (auto simp: recordFolderFileDelta_def modify_def ret_def)

lemma recordFolderFileDelta_ledger:
  assumes "recordFolderFileDelta p k s = (Inr u, t)" and l: "ledger env s dn db df own"
    and p: "\<And>j. x_next s \<le> j \<Longrightarrow> env_uuid env j \<noteq> p"
  shows "ledger env t dn db (df(p := df p + k)) own"
proof (cases "k = 0")
  case True
  with assms show ?thesis by (simp add: monad_simps)
next
  case False
  let ?F = "AList.update p (folderDelta (x_folderFileDeltas s) p + k) (x_folderFileDeltas s)"
  have t: "t = s\<lparr> x_folderFileDeltas := ?F \<rparr>" using assms(1) False by (simp add: monad_simps)
  have "(df(p := df p + k)) i - folderDelta ?F i = df i - folderDelta (x_folderFileDeltas s) i" for i
    by (simp add: folderDelta_update)
  moreover have "distinct (map fst ?F)"
    using l by (intro distinct_update) (simp add: ledger_def)
  moreover have "\<forall>j\<ge>x_next s. env_uuid env j \<notin> fst ` set ?F \<and> (df(p := df p + k)) (env_uuid env j) = 0"
    using l p by (auto simp: ledger_def dom_update)
  ultimately show ?thesis
    using l unfolding ledger_def t by simp
qed

section \<open>Replacing and deleting rows\<close>

lemma ledger_replace:
  assumes l: "ledger env s dn db df own" and r0: "r0 \<in> set (t_nodes s)" "n_id r0 = n_id r"
    and c: "checkNodeRow r (deleteRows (\<lambda>n. n_id n = n_id r) (t_nodes s)) (t_blobs s) = None"
    and same: "n_namespaceId r = n_namespaceId r0" "n_type r = n_type r0" "n_childFileCount r = n_childFileCount r0"
    and g: "grounded (updateRows (\<lambda>n. n_id n = n_id r) (\<lambda>_. r) (t_nodes s))"
  shows "ledger env (withNodes s (updateRows (\<lambda>n. n_id n = n_id r) (\<lambda>_. r) (t_nodes s)))
    (dn + liveNode (x_namespaceId s) r0 - liveNode (x_namespaceId s) r)
    (db + liveByte (x_namespaceId s) r0 - liveByte (x_namespaceId s) r)
    (\<lambda>i. df i + fileChild i r0 - fileChild i r) (\<lambda>b. own b + nodeRef b r0 - nodeRef b r)"
proof -
  note v = ledger_valid [OF l]
  let ?new = "updateRows (\<lambda>n. n_id n = n_id r) (\<lambda>_. r) (t_nodes s)"
  have vn: "validNodes ?new (t_blobs s)"
    by (rule valid_replace [OF v r0 refl same(1) c])
  have set_new: "set ?new = insert r {q \<in> set (t_nodes s). n_id q \<noteq> n_id r}"
    using r0 imageI [of r0 "set (t_nodes s)" n_id] by (auto simp: updateRows_const_set)
  have w: "weigh h ?new = weigh h (t_nodes s) - h r0 + h r" for h
    using nodeKey.update_by_key_weigh [OF valid_distinct [OF v] r0(1), of h "\<lambda>_. r"] r0(2) by simp
  have "ledger env (withNodes s ?new)
    (dn + weigh (liveNode (x_namespaceId s)) (t_nodes s) - weigh (liveNode (x_namespaceId s)) ?new)
    (db + weigh (liveByte (x_namespaceId s)) (t_nodes s) - weigh (liveByte (x_namespaceId s)) ?new)
    (\<lambda>i. df i + weigh (fileChild i) (t_nodes s) - weigh (fileChild i) ?new)
    (\<lambda>b. own b + weigh (nodeRef b) (t_nodes s) - weigh (nodeRef b) ?new)"
  proof (rule ledger_withNodes [OF l vn g])
    show "env_uuid env j \<noteq> n_id q" if "q \<in> set ?new" "x_next s \<le> j" for q j
      using that ledger_past [OF l] ledger_past [OF l r0(1)] r0(2) by (auto simp: set_new)
    show "n_childFileCount q = weigh (fileChild (n_id q)) (t_nodes s) + df (n_id q)
        - folderDelta (x_folderFileDeltas s) (n_id q)"
      if "q \<in> set ?new" "n_namespaceId q = x_namespaceId s" "n_type q = DIRECTORY" for q
      using that r0 same l by (auto simp: set_new ledger_def foldersOk_def)
    show "i \<in> n_id ` set ?new \<union> n_id ` set (t_nodes s)"
      if "weigh (fileChild i) ?new \<noteq> weigh (fileChild i) (t_nodes s)" for i
    proof -
      have "n_parentId r0 = Some i \<or> n_parentId r = Some i"
        using that by (auto simp: w fileChild_def split: if_splits)
      then show ?thesis
        using valid_row(3) [OF v r0(1)] valid_row(3) [OF vn, of r]
        by (fastforce simp: parentOk_def set_new)
    qed
  qed
  then show ?thesis by (simp add: w algebra_simps)
qed

lemma saveNode_ledger:
  assumes run: "saveNode env r s = (Inr q, t)" and l: "ledger env s dn db df own"
    and r0: "r0 \<in> set (t_nodes s)" "n_id r0 = n_id r"
    and same: "n_namespaceId r = n_namespaceId r0" "n_type r = n_type r0" "n_childFileCount r = n_childFileCount r0"
    and g: "\<And>q. n_id q = n_id r \<Longrightarrow> n_parentId q = n_parentId r \<Longrightarrow>
      grounded (updateRows (\<lambda>n. n_id n = n_id r) (\<lambda>_. q) (t_nodes s))"
  shows "ledger env t (dn + liveNode (x_namespaceId s) r0 - liveNode (x_namespaceId s) r)
    (db + liveByte (x_namespaceId s) r0 - liveByte (x_namespaceId s) r)
    (\<lambda>i. df i + fileChild i r0 - fileChild i r) (\<lambda>b. own b + nodeRef b r0 - nodeRef b r)"
    and "t = withNodes s (t_nodes t)" and "n_id q = n_id r"
proof -
  let ?q = "r\<lparr> n_version := n_version r + 1, n_updatedAt := env_dbNow env \<rparr>"
  have cases: "findRow (\<lambda>n. n_id n = n_id r) (t_nodes s) = Some r \<and> q = r \<and> t = s \<or>
      q = ?q \<and> t = withNodes s (updateRows (\<lambda>n. n_id n = n_id ?q) (\<lambda>_. ?q) (t_nodes s)) \<and>
      checkNodeRow ?q (deleteRows (\<lambda>n. n_id n = n_id ?q) (t_nodes s)) (t_blobs s) = None"
    using run by (auto simp: saveNode_def Let_def monad_simps split: if_splits option.splits)
  have eq: "liveNode ns ?q = liveNode ns r" "liveByte ns ?q = liveByte ns r" "fileChild i ?q = fileChild i r"
    "nodeRef b ?q = nodeRef b r" for ns i b by (simp_all add: weights)
  show "ledger env t (dn + liveNode (x_namespaceId s) r0 - liveNode (x_namespaceId s) r)
    (db + liveByte (x_namespaceId s) r0 - liveByte (x_namespaceId s) r)
    (\<lambda>i. df i + fileChild i r0 - fileChild i r) (\<lambda>b. own b + nodeRef b r0 - nodeRef b r)"
    using cases
  proof
    assume a: "findRow (\<lambda>n. n_id n = n_id r) (t_nodes s) = Some r \<and> q = r \<and> t = s"
    then have "r = r0" using findRow_SomeD r0 valid_id_eq [OF ledger_valid [OF l]] by metis
    with a l show ?thesis by simp
  next
    assume "q = ?q \<and> t = withNodes s (updateRows (\<lambda>n. n_id n = n_id ?q) (\<lambda>_. ?q) (t_nodes s)) \<and>
      checkNodeRow ?q (deleteRows (\<lambda>n. n_id n = n_id ?q) (t_nodes s)) (t_blobs s) = None"
    with ledger_replace [OF l r0(1), of ?q] g [of ?q] r0(2) same show ?thesis unfolding eq by simp
  qed
  show "t = withNodes s (t_nodes t)" "n_id q = n_id r" using cases by (auto simp: withNodes_def)
qed

text \<open>Version and time columns are in no book.\<close>

lemma ledger_touch:
  assumes l: "ledger env s dn db df own"
    and f: "\<And>n. n_id (f n) = n_id n \<and> n_namespaceId (f n) = n_namespaceId n \<and> n_parentId (f n) = n_parentId n \<and>
      n_type (f n) = n_type n \<and> n_name (f n) = n_name n \<and> n_blobId (f n) = n_blobId n \<and> n_size (f n) = n_size n \<and>
      n_childFileCount (f n) = n_childFileCount n"
  shows "ledger env (withNodes s (updateRows P f (t_nodes s))) dn db df own"
proof -
  let ?new = "updateRows P f (t_nodes s)"
  have w: "weigh (liveNode ns) ?new = weigh (liveNode ns) (t_nodes s)"
    "weigh (liveByte ns) ?new = weigh (liveByte ns) (t_nodes s)"
    "weigh (fileChild i) ?new = weigh (fileChild i) (t_nodes s)"
    "weigh (nodeRef b) ?new = weigh (nodeRef b) (t_nodes s)" for ns i b
    using f by (auto intro!: weigh_update_same simp: weights)
  have row: "\<exists>n\<in>set (t_nodes s). n_id q = n_id n \<and> n_namespaceId q = n_namespaceId n \<and> n_type q = n_type n \<and>
      n_childFileCount q = n_childFileCount n" if "q \<in> set ?new" for q
    using that f by (auto simp: set_updateRows split: if_splits)
  have "ledger env (withNodes s ?new)
    (dn + weigh (liveNode (x_namespaceId s)) (t_nodes s) - weigh (liveNode (x_namespaceId s)) ?new)
    (db + weigh (liveByte (x_namespaceId s)) (t_nodes s) - weigh (liveByte (x_namespaceId s)) ?new)
    (\<lambda>i. df i + weigh (fileChild i) (t_nodes s) - weigh (fileChild i) ?new)
    (\<lambda>b. own b + weigh (nodeRef b) (t_nodes s) - weigh (nodeRef b) ?new)"
  proof (rule ledger_withNodes [OF l valid_update [OF ledger_valid [OF l]] grounded_update [OF ledger_grounded [OF l]]])
    show "env_uuid env j \<noteq> n_id q" if "q \<in> set ?new" "x_next s \<le> j" for q j
      using row [OF that(1)] that(2) ledger_past [OF l] by auto
    show "n_childFileCount q = weigh (fileChild (n_id q)) (t_nodes s) + df (n_id q)
        - folderDelta (x_folderFileDeltas s) (n_id q)"
      if "q \<in> set ?new" "n_namespaceId q = x_namespaceId s" "n_type q = DIRECTORY" for q
      using row [OF that(1)] that l by (auto simp: ledger_def foldersOk_def)
  qed (use f w in auto)
  then show ?thesis by (simp add: w)
qed

lemma deleteNodesById_iff [monad_simps]:
  "deleteNodesById ids s = (Inr u, t) \<longleftrightarrow>
     (\<forall>n\<in>set (t_nodes s). n_id n \<notin> set ids \<longrightarrow> (\<forall>i\<in>set ids. n_parentId n \<noteq> Some i)) \<and>
     t = withNodes s (deleteRows (\<lambda>n. n_id n \<in> set ids) (t_nodes s))"
  by (auto simp: deleteNodesById_def bind_def gets_def throw_def split: if_splits)

lemma deleteNodesById_ledger:
  assumes run: "deleteNodesById ids s = (Inr u, t)" and l: "ledger env s dn db df own"
  defines "gone \<equiv> filter (\<lambda>n. n_id n \<in> set ids) (t_nodes s)"
  shows "ledger env t (dn + weigh (liveNode (x_namespaceId s)) gone) (db + weigh (liveByte (x_namespaceId s)) gone)
    (\<lambda>i. df i + weigh (fileChild i) gone) (\<lambda>b. own b + weigh (nodeRef b) gone)"
proof -
  let ?new = "deleteRows (\<lambda>n. n_id n \<in> set ids) (t_nodes s)"
  note v = ledger_valid [OF l]
  have t: "t = withNodes s ?new" using run by (simp add: monad_simps)
  have vn: "validNodes ?new (t_blobs s)"
    using run by (intro valid_delete v) (auto simp: monad_simps)
  have "ledger env (withNodes s ?new)
    (dn + weigh (liveNode (x_namespaceId s)) (t_nodes s) - weigh (liveNode (x_namespaceId s)) ?new)
    (db + weigh (liveByte (x_namespaceId s)) (t_nodes s) - weigh (liveByte (x_namespaceId s)) ?new)
    (\<lambda>i. df i + weigh (fileChild i) (t_nodes s) - weigh (fileChild i) ?new)
    (\<lambda>b. own b + weigh (nodeRef b) (t_nodes s) - weigh (nodeRef b) ?new)"
  proof (rule ledger_withNodes [OF l vn grounded_subset [OF ledger_grounded [OF l]]])
    show "env_uuid env j \<noteq> n_id q" if "q \<in> set ?new" "x_next s \<le> j" for q j
      using that ledger_past [OF l] by auto
    show "n_childFileCount q = weigh (fileChild (n_id q)) (t_nodes s) + df (n_id q)
        - folderDelta (x_folderFileDeltas s) (n_id q)"
      if "q \<in> set ?new" "n_namespaceId q = x_namespaceId s" "n_type q = DIRECTORY" for q
      using that l by (auto simp: ledger_def foldersOk_def)
    show "i \<in> n_id ` set ?new \<union> n_id ` set (t_nodes s)"
      if "weigh (fileChild i) ?new \<noteq> weigh (fileChild i) (t_nodes s)" for i
    proof (rule ccontr)
      assume "\<not> ?thesis"
      then have "weigh (fileChild i) (t_nodes s) = 0" "weigh (fileChild i) ?new = 0"
        by (auto intro!: no_children [OF v] no_children [OF vn])
      with that show False by simp
    qed
  qed auto
  then show ?thesis by (simp add: t table_simps gone_def)
qed

lemma grounded_same_parent:
  assumes "ledger env s dn db df own" and "r0 \<in> set (t_nodes s)" and "n_id r0 = n_id r" and "n_parentId r = n_parentId r0"
    and "n_id q = n_id r" and "n_parentId q = n_parentId r"
  shows "grounded (updateRows (\<lambda>n. n_id n = n_id r) (\<lambda>_. q) (t_nodes s))"
proof (rule grounded_update [OF ledger_grounded [OF assms(1)]])
  fix n assume "n \<in> set (t_nodes s)" and "n_id n = n_id r"
  then have "n = r0" using valid_id_eq [OF ledger_valid [OF assms(1)] _ assms(2)] assms(3) by simp
  with assms(3-6) show "n_id q = n_id n \<and> n_parentId q = n_parentId n" by simp
qed

end
