(* ===== verification/Files.thy ===== *)
theory Files
  imports Core
begin

text \<open>
  The file and directory operations of \<open>persistence/vfs-node.repository.file-mutations.ts\<close>:
  mkdir, touch, put and move, and where a move or a copy puts its source. Each is the method's
  branch for a given transaction \<open>tx\<close>; \<open>withMutation\<close> of \<open>Core\<close> opens it.
\<close>

text \<open>
  \<open>segments[segments.length - 1]\<close>. For no segments the source gets \<open>undefined\<close>, which no stored
  name equals; the empty name has the same effect, since \<open>CHK_vfs_node_root_shape\<close> keeps it out.
\<close>

definition lastSegment :: "jstring list \<Rightarrow> jstring" where
  "lastSegment segs = (case segs of [] \<Rightarrow> [] | s # rest \<Rightarrow> last segs)"

section \<open>mkdir\<close>

text \<open>
  The loop of \<open>ensureDirectory\<close>: \<open>done\<close> holds the segments before index \<open>i\<close>, \<open>current\<close> and
  \<open>created\<close> are the method's locals.
\<close>

fun ensureLoop :: "env \<Rightarrow> jstring \<Rightarrow> bool \<Rightarrow> jstring list \<Rightarrow> uuid \<Rightarrow> node_type \<Rightarrow> node option \<Rightarrow> bool \<Rightarrow>
    jstring list \<Rightarrow> (node option \<times> bool) txp" where
  "ensureLoop env ns parents done parentId parentType current created [] = ret (current, created)"
| "ensureLoop env ns parents done parentId parentType current created (name # rest) =
     andThen (throwIf (parentType \<noteq> DIRECTORY) (notDirectory (joinSegments done)))
     (andThen (trackChangeFeedBefore [parentId])
     (bind (gets (\<lambda>s. findChild ns parentId name (t_nodes s))) (\<lambda>found.
      case found of
        Some child \<Rightarrow>
          andThen (throwIf (rest = [] \<and> (n_type child = FILE \<or> \<not> parents))
            (alreadyExists (joinSegments (done @ name # rest))))
          (ensureLoop env ns parents (done @ [name]) (n_id child) (n_type child) (Some child) created rest)
      | None \<Rightarrow>
          andThen (throwIf (rest \<noteq> [] \<and> \<not> parents) (nodeNotFound (joinSegments (done @ [name]))))
          (bind (createNode env ns parentId DIRECTORY name None None None None) (\<lambda>child.
           andThen (recordLiveNodeDelta 1)
           (andThen (markAncestorChain parentId)
           (andThen (markChanged (n_id child) False)
           (ensureLoop env ns parents (done @ [name]) (n_id child) (n_type child) (Some child)
              (created \<or> rest = []) rest))))))))"

text \<open>With no segments the source dereferences \<open>null\<close>; the services refuse \<open>/\<close> before.\<close>

definition ensureDirectory :: "env \<Rightarrow> jstring \<Rightarrow> uuid \<Rightarrow> jstring list \<Rightarrow> bool \<Rightarrow> (node_record \<times> bool) txp" where
  "ensureDirectory env ns rootId segs parents =
     bind (ensureLoop env ns parents [] rootId DIRECTORY None False segs) (\<lambda>(current, created).
       case current of
         None \<Rightarrow> throw (InternalError ''TypeError'')
       | Some n \<Rightarrow> ret (toRecord n, created))"

section \<open>touch and put\<close>

text \<open>The bump of an existing file: version and \<open>updatedAt\<close> only, refused at the last version.\<close>

definition touchRow :: "env \<Rightarrow> uuid \<Rightarrow> unit txp" where
  "touchRow env i = bind (gets t_nodes) (\<lambda>tbl.
     let hit = (\<lambda>n. n_id n = i \<and> n_version n < MAX_VFS_VERSION) in
     andThen (setNodes (updateRows hit (\<lambda>n. n\<lparr> n_version := n_version n + 1, n_updatedAt := env_appNow env \<rparr>)))
     (throwIf (length (filter hit tbl) \<noteq> 1) revisionExhausted))"

text \<open>The tail \<open>touchFile\<close>, \<open>putFileContent\<close>, \<open>copyNode\<close> and \<open>restoreBlob\<close> share: a new FILE row.\<close>

definition addFile :: "env \<Rightarrow> jstring \<Rightarrow> uuid \<Rightarrow> jstring \<Rightarrow> uuid \<Rightarrow> int option \<Rightarrow> jstring option \<Rightarrow>
    time option \<Rightarrow> node txp" where
  "addFile env ns parentId name blobId sz mime expiresAt =
     bind (createNode env ns parentId FILE name (Some blobId) sz mime expiresAt) (\<lambda>created.
     andThen (markChanged (n_id created) False)
     (case sz of
        None \<Rightarrow> throw (InternalError ''FILE node without size'')
      | Some z \<Rightarrow>
          andThen (recordLiveByteDelta z)
          (andThen (recordFolderFileDelta parentId 1)
          (andThen (recordLiveNodeDelta 1)
          (ret created)))))"

definition touchFile :: "env \<Rightarrow> jstring \<Rightarrow> uuid \<Rightarrow> jstring list \<Rightarrow> bool \<Rightarrow> blob_data option \<Rightarrow> put_file_outcome txp" where
  "touchFile env ns rootId segs parents emptyBlob =
     bind (lockParentChain env ns rootId segs parents True) (\<lambda>parentId.
     bind (lockTargetNode ns parentId (lastSegment segs)) (\<lambda>existing.
     case existing of
       Some old \<Rightarrow>
         andThen (throwIf (n_type old = DIRECTORY) (isDirectory (joinSegments segs)))
         (andThen (touchRow env (n_id old))
         (bind (gets (\<lambda>s. findNode ns (n_id old) (t_nodes s))) (\<lambda>r.
          case r of
            None \<Rightarrow> throw (InternalError ''EntityNotFoundError'')
          | Some touched \<Rightarrow>
              andThen (markChanged (n_id touched) False) (ret (ReplacedNode (toRecord touched))))))
     | None \<Rightarrow>
         (case emptyBlob of
            None \<Rightarrow> ret AbsentNode
          | Some d \<Rightarrow>
              bind (createBlob env ns d) (\<lambda>blob.
              bind (addFile env ns parentId (lastSegment segs) (b_id blob) (Some (d_size d)) (Some (d_mimeType d)) None)
                (\<lambda>created. ret (CreatedNode (toRecord created)))))))"

text \<open>The replacing branch of \<open>putFileContent\<close>: the new Blob first, the old reference last.\<close>

definition replaceContent :: "env \<Rightarrow> jstring \<Rightarrow> node \<Rightarrow> blob_data \<Rightarrow> put_file_outcome txp" where
  "replaceContent env ns existing newBlob =
     bind (createBlob env ns newBlob) (\<lambda>createdBlob.
     case (n_blobId existing, n_size existing) of
       (None, _) \<Rightarrow> throw (InternalError ''FILE node without blobId'')
     | (Some _, None) \<Rightarrow> throw (InternalError ''FILE node without size'')
     | (Some previousBlobId, Some previousSize) \<Rightarrow>
         bind (saveNode env (existing\<lparr> n_blobId := Some (b_id createdBlob), n_size := Some (d_size newBlob),
                 n_mimeType := Some (d_mimeType newBlob) \<rparr>)) (\<lambda>saved.
         andThen (markChanged (n_id saved) False)
         (andThen (recordLiveByteDelta (d_size newBlob - previousSize))
         (andThen (decrementReferenceCount env previousBlobId 1)
         (ret (ReplacedNode (toRecord saved)))))))"

definition putFileContent :: "env \<Rightarrow> jstring \<Rightarrow> uuid \<Rightarrow> jstring list \<Rightarrow> bool \<Rightarrow> blob_data \<Rightarrow> int option \<Rightarrow>
    bool \<Rightarrow> time option \<Rightarrow> put_file_outcome txp" where
  "putFileContent env ns rootId segs parents newBlob ifMatchVersion force expiresAt =
     bind (lockParentChain env ns rootId segs parents True) (\<lambda>parentId.
     bind (lockTargetNode ns parentId (lastSegment segs)) (\<lambda>existing.
     case existing of
       Some old \<Rightarrow>
         andThen (throwIf (n_type old = DIRECTORY) (isDirectory (joinSegments segs)))
         (andThen (throwIf (MAX_VFS_VERSION \<le> n_version old) revisionExhausted)
         (andThen (throwIf (\<not> (case ifMatchVersion of Some v \<Rightarrow> v = n_version old | None \<Rightarrow> force))
            (Node (VfsVersionConflictError (joinSegments segs))))
         (replaceContent env ns old newBlob)))
     | None \<Rightarrow>
         andThen (throwIf (ifMatchVersion \<noteq> None) (Node (VfsVersionConflictError (joinSegments segs))))
         (bind (createBlob env ns newBlob) (\<lambda>createdBlob.
          bind (addFile env ns parentId (lastSegment segs) (b_id createdBlob) (Some (d_size newBlob))
                  (Some (d_mimeType newBlob)) expiresAt)
            (\<lambda>created. ret (CreatedNode (toRecord created)))))))"

section \<open>Where a move or a copy goes\<close>

record placement =
  pl_source :: node
  pl_parentId :: uuid
  pl_name :: jstring
  pl_segments :: "jstring list"

definition ownSubtree :: "node \<Rightarrow> jstring list \<Rightarrow> jstring list \<Rightarrow> bool" where
  "ownSubtree source sourceSegs segs \<longleftrightarrow>
     n_type source = DIRECTORY \<and> length sourceSegs \<le> length segs \<and> take (length sourceSegs) segs = sourceSegs"

definition resolveSource :: "env \<Rightarrow> jstring \<Rightarrow> uuid \<Rightarrow> jstring list \<Rightarrow> bool \<Rightarrow> node txp" where
  "resolveSource env ns rootId sourceSegs markSourceAncestors =
     bind (lockParentChain env ns rootId sourceSegs False markSourceAncestors) (\<lambda>parentId.
     bind (lockTargetNode ns parentId (lastSegment sourceSegs)) (\<lambda>node.
     case node of None \<Rightarrow> throw (nodeNotFound (joinSegments sourceSegs)) | Some n \<Rightarrow> ret n))"

text \<open>Both paths are locked in the order of \<open>compareSegments\<close>.\<close>

definition lockBothPaths :: "env \<Rightarrow> jstring \<Rightarrow> uuid \<Rightarrow> jstring list \<Rightarrow> jstring list \<Rightarrow> bool \<Rightarrow> bool \<Rightarrow>
    (node \<times> uuid) txp" where
  "lockBothPaths env ns rootId sourceSegs destSegs destParents markSourceAncestors =
     (if compareSegments sourceSegs destSegs \<le> 0
      then bind (resolveSource env ns rootId sourceSegs markSourceAncestors) (\<lambda>source.
           andThen (throwIf (ownSubtree source sourceSegs destSegs) (invalidOperation (joinSegments sourceSegs)))
           (bind (lockParentChain env ns rootId destSegs destParents True) (\<lambda>destParent.
            ret (source, destParent))))
      else bind (lockParentChain env ns rootId destSegs destParents True) (\<lambda>destParent.
           bind (resolveSource env ns rootId sourceSegs markSourceAncestors) (\<lambda>source.
           ret (source, destParent))))"

text \<open>
  The rest of \<open>resolveDestinationPlacement\<close>, once the source, the destination's parent and the
  destination itself are known: inside an existing directory unless \<open>exact\<close>, never inside the
  source's own subtree, never over an existing node.
\<close>

definition placeAt :: "env \<Rightarrow> jstring \<Rightarrow> jstring list \<Rightarrow> jstring list \<Rightarrow> bool \<Rightarrow> node \<Rightarrow> uuid \<Rightarrow> node option \<Rightarrow>
    placement txp" where
  "placeAt env ns sourceSegs destSegs exact source destParent target =
     andThen (throwIf (exact \<and> destSegs = []) (alreadyExists (joinSegments destSegs)))
     (let nest = (\<not> exact \<and> (destSegs = [] \<or> (case target of Some q \<Rightarrow> n_type q = DIRECTORY | None \<Rightarrow> False)));
          finalParentId = (if nest \<and> destSegs \<noteq> [] then (case target of Some q \<Rightarrow> n_id q | None \<Rightarrow> destParent)
            else destParent);
          finalName = (if nest then lastSegment sourceSegs else lastSegment destSegs);
          finalSegs = (if nest then destSegs @ [lastSegment sourceSegs] else destSegs) in
      andThen (liftR (assertPathSegments (env_nfc env) finalSegs))
      (andThen (case target of Some q \<Rightarrow> if nest then markChanged (n_id q) True else ret () | None \<Rightarrow> ret ())
      (andThen (throwIf (ownSubtree source sourceSegs finalSegs) (invalidOperation (joinSegments sourceSegs)))
      (andThen
        (if nest
         then bind (lockTargetNode ns finalParentId finalName) (\<lambda>collision.
              throwIf (collision \<noteq> None) (alreadyExists (joinSegments finalSegs)))
         else throwIf (target \<noteq> None) (alreadyExists (joinSegments destSegs)))
      (ret \<lparr> pl_source = source, pl_parentId = finalParentId, pl_name = finalName, pl_segments = finalSegs \<rparr>)))))"

definition resolveDestinationPlacement :: "env \<Rightarrow> jstring \<Rightarrow> uuid \<Rightarrow> jstring list \<Rightarrow> jstring list \<Rightarrow>
    bool \<Rightarrow> bool \<Rightarrow> bool \<Rightarrow> placement txp" where
  "resolveDestinationPlacement env ns rootId sourceSegs destSegs destParents markSourceAncestors exact =
     bind (lockBothPaths env ns rootId sourceSegs destSegs destParents markSourceAncestors)
       (\<lambda>(source, destParent).
     bind (if lastSegment destSegs = [] then ret None
           else lockTargetNode ns destParent (lastSegment destSegs))
       (\<lambda>target. placeAt env ns sourceSegs destSegs exact source destParent target))"

section \<open>Subtree queries\<close>

text \<open>
  \<open>WITH RECURSIVE ... LIMIT n\<close>: the database takes rows from a queue that starts with the initial
  rows, appends the rows each one joins, and stops after \<open>n\<close> rows. On a cyclic table the limit is
  what ends it, so the number of rows still wanted is the recursion's measure.
\<close>

fun cteRows :: "('r \<Rightarrow> 'r list) \<Rightarrow> nat \<Rightarrow> 'r list \<Rightarrow> 'r list" where
  "cteRows step 0 queue = []"
| "cteRows step (Suc k) [] = []"
| "cteRows step (Suc k) (r # queue) = r # cteRows step k (queue @ step r)"

definition childrenOf :: "jstring \<Rightarrow> node list \<Rightarrow> uuid \<Rightarrow> node list" where
  "childrenOf ns tbl p = filter (\<lambda>n. n_namespaceId n = ns \<and> n_parentId n = Some p) tbl"

definition namedRow :: "node \<Rightarrow> named_row" where
  "namedRow n = (n_id n, n_parentId n, n_name n)"

section \<open>move\<close>

text \<open>The folder counters of a moved FILE.\<close>

definition recordMove :: "node \<Rightarrow> uuid \<Rightarrow> unit txp" where
  "recordMove source finalParentId =
     (if n_type source = FILE \<and> n_parentId source \<noteq> Some finalParentId
      then (case n_parentId source of
              None \<Rightarrow> throw (InternalError ''FILE parent is missing'')
            | Some previousParentId \<Rightarrow>
                andThen (recordFolderFileDelta previousParentId (- 1)) (recordFolderFileDelta finalParentId 1))
      else ret ())"

definition moveNode :: "env \<Rightarrow> jstring \<Rightarrow> uuid \<Rightarrow> jstring list \<Rightarrow> jstring list \<Rightarrow> bool \<Rightarrow> int \<Rightarrow> bool \<Rightarrow>
    (node_record \<times> jstring) txp" where
  "moveNode env ns rootId sourceSegs destSegs destParents maxSyncMoveNodes exact =
     bind (resolveDestinationPlacement env ns rootId sourceSegs destSegs destParents True exact) (\<lambda>pl.
     let source = pl_source pl; finalParentId = pl_parentId pl in
     andThen (throwIf (MAX_VFS_VERSION \<le> n_version source) revisionExhausted)
     (bind (gets (\<lambda>s. cteRows (\<lambda>r. childrenOf ns (t_nodes s) (n_id r)) (nat maxSyncMoveNodes)
              (childrenOf ns (t_nodes s) (n_id source)))) (\<lambda>descendants.
      andThen (throwIf (maxSyncMoveNodes < int (length descendants) + 1)
        (Limit (VfsMoveLimitExceededError maxSyncMoveNodes)))
      (andThen (trackChangeFeedBefore (map n_id descendants))
      (andThen (liftR (assertSubtreeDestinationPaths (env_nfc env) (n_id source) (pl_segments pl)
                 (map namedRow descendants)))
      (bind (saveNode env (source\<lparr> n_parentId := Some finalParentId, n_name := pl_name pl \<rparr>)) (\<lambda>saved.
       andThen (recordMove source finalParentId)
       (andThen (markChanged (n_id saved) False)
       (andThen (forEach descendants (\<lambda>d. markChanged (n_id d) True))
       (ret (toRecord saved, joinSegments (pl_segments pl))))))))))))"

text \<open>\<open>getBlobStorageInfo\<close>: the storage key and the initialisation vector of a Blob.\<close>

definition getBlobStorageInfo :: "jstring \<Rightarrow> uuid \<Rightarrow> db \<Rightarrow> (jstring \<times> 8 word list option) option" where
  "getBlobStorageInfo ns blobId d =
     map_option (\<lambda>b. (b_storageKey b, b_encryptionIv b))
       (findRow (\<lambda>b. b_id b = blobId \<and> b_namespaceId b = ns) (blobs d))"

end
