(* ===== verification/Steps.thy ===== *)
theory Steps
  imports Ledger Files
begin

text \<open>
  The remaining steps of a mutation against the ledger: statements on Blobs, the bookkeeping of
  changed nodes (which touches no row and no delta), and the walk down a path that may create
  directories.
\<close>

section \<open>Blobs\<close>

definition withBlobs :: "tx \<Rightarrow> blob list \<Rightarrow> tx" where
  "withBlobs s bl = s\<lparr> x_db := (x_db s)\<lparr> blobs := bl \<rparr> \<rparr>"

lemma withBlobs_sel [simp]:
  "x_db (withBlobs s bl) = (x_db s)\<lparr> blobs := bl \<rparr>" "x_next (withBlobs s bl) = x_next s"
  "x_namespaceId (withBlobs s bl) = x_namespaceId s" "x_rootId (withBlobs s bl) = x_rootId s"
  "x_liveFileByteDelta (withBlobs s bl) = x_liveFileByteDelta s"
  "x_liveNodeDelta (withBlobs s bl) = x_liveNodeDelta s" "x_trashByteDelta (withBlobs s bl) = x_trashByteDelta s"
  "x_snapshotByteDelta (withBlobs s bl) = x_snapshotByteDelta s"
  "x_folderFileDeltas (withBlobs s bl) = x_folderFileDeltas s"
  by (simp_all add: withBlobs_def)

lemma setBlobs_run [simp]: "setBlobs f s = (Inr (), withBlobs s (f (t_blobs s)))"
  by (simp add: setBlobs_def modify_def withBlobs_def)

lemma refs_blobs [simp]: "refs b (d\<lparr> blobs := bl \<rparr>) = refs b d"
  by (simp add: refs_def)

lemma ledger_withBlobs:
  assumes l: "ledger env s dn db df own"
    and ids: "b_id ` set (t_blobs s) \<subseteq> b_id ` set bl" and d: "distinct (map b_id bl)"
    and v: "validNodes (t_nodes s) bl"
    and r: "\<And>b. b \<in> set bl \<Longrightarrow> b_referenceCount b = refs (b_id b) (x_db s) + own' (b_id b)"
  shows "ledger env (withBlobs s bl) dn db df own'"
  using assms by (auto simp: ledger_def rowsOk_def namespaceOk_def foldersOk_def refsOk_def trashOk_def)

lemma no_refs:
  assumes "rowsOk d" and "b \<notin> b_id ` set (blobs d)"
  shows "refs b d = 0"
proof -
  have "nodeRef b n = 0" if "n \<in> set (nodes d)" for n
    using assms that valid_row(4) [of "nodes d" "blobs d" n] by (auto simp: rowsOk_def holds_def blobOk_def)
  moreover have "holds b (e_blobId e) = 0" if "e \<in> set (trashEntries d)" for e
    using assms that by (auto simp: rowsOk_def holds_def)
  moreover have "holds b (q_blobId q) = 0" if "q \<in> set (snapshotEntries d)" for q
    using assms that by (auto simp: rowsOk_def holds_def)
  ultimately show ?thesis by (simp add: refs_def weigh_zero)
qed

lemma createBlob_iff:
  "createBlob env ns d s = (Inr b, t) \<longleftrightarrow>
     (\<forall>q\<in>set (t_blobs s). b_id q \<noteq> env_uuid env (x_next s) \<and> b_storageKey q \<noteq> d_storageKey d) \<and>
     0 \<le> d_size d \<and> (\<forall>iv. d_encryptionIv d = Some iv \<longrightarrow> length iv = 16) \<and>
     b = \<lparr> b_id = env_uuid env (x_next s), b_namespaceId = ns, b_storageKey = d_storageKey d, b_size = d_size d,
       b_mimeType = d_mimeType d, b_sha256 = d_sha256 d, b_encryptionIv = d_encryptionIv d,
       b_referenceCount = 1, b_zeroSince = None, b_createdAt = env_dbNow env \<rparr> \<and>
     t = withBlobs (s\<lparr> x_next := Suc (x_next s) \<rparr>) (insertRow b (t_blobs s))"
  by (auto simp: createBlob_def Let_def bind_def andThen_def gets_def throw_def ret_def freshId_def modify_def
      split: option.splits)

lemma createBlob_ledger:
  assumes run: "createBlob env ns d s = (Inr b, t)" and l: "ledger env s dn db df own"
  shows "ledger env t dn db df (own(b_id b := 1))"
    and "b \<in> set (t_blobs t)" and "b_namespaceId b = ns" and "b_id b \<notin> b_id ` set (t_blobs s)"
    and "t_nodes t = t_nodes s" and "x_namespaceId t = x_namespaceId s"
proof -
  let ?s = "s\<lparr> x_next := Suc (x_next s) \<rparr>"
  have t: "t = withBlobs ?s (insertRow b (t_blobs s))" and ns: "b_namespaceId b = ns"
    and rc: "b_referenceCount b = 1" and new: "b_id b \<notin> b_id ` set (t_blobs s)"
    using run by (auto simp: createBlob_iff)
  have z: "refs (b_id b) (x_db s) = 0" by (rule no_refs [OF ledger_rows [OF l] new])
  have "ledger env (withBlobs ?s (insertRow b (t_blobs s))) dn db df (own(b_id b := 1))"
  proof (rule ledger_withBlobs [OF ledger_next [OF l]])
    show "distinct (map b_id (insertRow b (t_blobs s)))"
      using new ledger_rows [OF l] by (simp add: blobKey.distinct_insert rowsOk_def)
    show "validNodes (t_nodes ?s) (insertRow b (t_blobs s))"
      using valid_more_blobs [OF ledger_valid [OF l], of "insertRow b (t_blobs s)"] by auto
    fix q assume q: "q \<in> set (insertRow b (t_blobs s))"
    show "b_referenceCount q = refs (b_id q) (x_db ?s) + (own(b_id b := 1)) (b_id q)"
    proof (cases "q = b")
      case True
      then show ?thesis using z rc by simp
    next
      case False
      with q have "q \<in> set (t_blobs s)" by simp
      moreover from this new have "b_id q \<noteq> b_id b" by (metis image_eqI)
      ultimately show ?thesis using l by (simp add: ledger_def refsOk_def)
    qed
  qed auto
  with t show "ledger env t dn db df (own(b_id b := 1))" by simp
  from t show "b \<in> set (t_blobs t)" "t_nodes t = t_nodes s" "x_namespaceId t = x_namespaceId s" by simp_all
  from ns new show "b_namespaceId b = ns" "b_id b \<notin> b_id ` set (t_blobs s)" by simp_all
qed

lemma ledger_count:
  assumes l: "ledger env s dn db df own"
    and f: "\<And>b. b_id (f b) = b_id b \<and> b_namespaceId (f b) = b_namespaceId b \<and>
      b_referenceCount (f b) = b_referenceCount b + c"
  shows "ledger env (withBlobs s (updateRows (\<lambda>b. b_id b = i) f (t_blobs s))) dn db df (own(i := own i + c))"
proof (rule ledger_withBlobs [OF l])
  show "b_id ` set (t_blobs s) \<subseteq> b_id ` set (updateRows (\<lambda>b. b_id b = i) f (t_blobs s))"
    unfolding set_updateRows image_image by (auto simp: if_distrib [of b_id] f)
  show "distinct (map b_id (updateRows (\<lambda>b. b_id b = i) f (t_blobs s)))"
    using f ledger_rows [OF l] by (intro blobKey.distinct_update) (auto simp: rowsOk_def)
  show "validNodes (t_nodes s) (updateRows (\<lambda>b. b_id b = i) f (t_blobs s))"
    using f by (intro valid_update_blobs ledger_valid [OF l]) auto
  show "b_referenceCount b = refs (b_id b) (x_db s) + (own(i := own i + c)) (b_id b)"
    if "b \<in> set (updateRows (\<lambda>b. b_id b = i) f (t_blobs s))" for b
    using that f l by (auto simp: set_updateRows ledger_def refsOk_def split: if_splits)
qed

lemma incrementReferenceCount_ledger:
  assumes "incrementReferenceCount i c s = (Inr u, t)" and "ledger env s dn db df own"
  shows "ledger env t dn db df (own(i := own i + c))"
  using ledger_count [OF assms(2), of "\<lambda>b. b\<lparr> b_referenceCount := b_referenceCount b + c \<rparr>" c i] assms(1)
  by (simp add: incrementReferenceCount_def)

lemma decrementReferenceCount_ledger:
  assumes "decrementReferenceCount env i c s = (Inr u, t)" and "ledger env s dn db df own"
  shows "ledger env t dn db df (own(i := own i - c))"
  using ledger_count [OF assms(2), of "decrementBlob env c" "- c" i] assms(1)
  by (auto simp: decrementReferenceCount_def decrementBlob_def monad_simps)

lemma incrementLiveReferenceCount_ledger:
  assumes run: "incrementLiveReferenceCount ns i c s = (Inr True, t)" and l: "ledger env s dn db df own"
  shows "ledger env t dn db df (own(i := own i + c))"
    and "\<exists>b\<in>set (t_blobs t). b_id b = i \<and> b_namespaceId b = ns"
proof -
  let ?hit = "\<lambda>b. b_id b = i \<and> b_namespaceId b = ns \<and> 0 < b_referenceCount b"
  let ?f = "\<lambda>b. b\<lparr> b_referenceCount := b_referenceCount b + c \<rparr>"
  have one: "length (filter ?hit (t_blobs s)) = 1" and t: "t = withBlobs s (updateRows ?hit ?f (t_blobs s))"
    using run by (auto simp: incrementLiveReferenceCount_def monad_simps)
  then obtain b where "filter ?hit (t_blobs s) = [b]"
    by (cases "filter ?hit (t_blobs s)") auto
  then have "b \<in> set (filter ?hit (t_blobs s))" by simp
  then have b: "b \<in> set (t_blobs s)" "?hit b" by simp_all
  have hit: "?hit q \<longleftrightarrow> b_id q = i" if "q \<in> set (t_blobs s)" for q
    using that b ledger_rows [OF l] by (auto simp: rowsOk_def distinct_map inj_on_def)
  then have "updateRows ?hit ?f (t_blobs s) = updateRows (\<lambda>b. b_id b = i) ?f (t_blobs s)"
    by (auto simp: updateRows_def)
  with t ledger_count [OF l, of ?f c i] show "ledger env t dn db df (own(i := own i + c))" by simp
  show "\<exists>b\<in>set (t_blobs t). b_id b = i \<and> b_namespaceId b = ns"
    using b by (auto simp: t set_updateRows intro!: bexI [of _ "?f b"] image_eqI [of _ _ b])
qed

section \<open>Quiet steps\<close>

text \<open>
  Marking changed nodes and capturing the change feed's before-images leave the database, the drawn
  ids and the deltas alone.
\<close>

definition core :: "tx \<Rightarrow> tx" where
  "core s = s\<lparr> x_changed := [], x_ancestorChainMarked := [], x_feedBefore := None \<rparr>"

definition quiet :: "'a txp \<Rightarrow> bool" where
  "quiet m \<longleftrightarrow> (\<forall>s x t. m s = (Inr x, t) \<longrightarrow> core t = core s)"

lemma core_sel:
  assumes "core t = core s"
  shows "x_db t = x_db s" "x_next t = x_next s" "x_namespaceId t = x_namespaceId s" "x_rootId t = x_rootId s"
    "x_liveFileByteDelta t = x_liveFileByteDelta s" "x_logicalByteDelta t = x_logicalByteDelta s"
    "x_liveNodeDelta t = x_liveNodeDelta s" "x_trashByteDelta t = x_trashByteDelta s"
    "x_snapshotByteDelta t = x_snapshotByteDelta s" "x_folderFileDeltas t = x_folderFileDeltas s"
  using arg_cong [OF assms, of x_db] arg_cong [OF assms, of x_next] arg_cong [OF assms, of x_namespaceId]
    arg_cong [OF assms, of x_rootId] arg_cong [OF assms, of x_liveFileByteDelta]
    arg_cong [OF assms, of x_logicalByteDelta] arg_cong [OF assms, of x_liveNodeDelta]
    arg_cong [OF assms, of x_trashByteDelta] arg_cong [OF assms, of x_snapshotByteDelta]
    arg_cong [OF assms, of x_folderFileDeltas]
  by (simp_all add: core_def)

lemma quietD: "quiet m \<Longrightarrow> m s = (Inr x, t) \<Longrightarrow> core t = core s"
  by (auto simp: quiet_def)

lemma ledger_core: "core t = core s \<Longrightarrow> ledger env t dn db df own \<longleftrightarrow> ledger env s dn db df own"
  proof -
  assume "core t = core s"
  from core_sel [OF this] show ?thesis by (simp add: ledger_def)
qed

lemma quiet_basic [intro, simp]: "quiet (ret x)" "quiet (throw e)" "quiet (gets f)" "quiet (throwIf b e)" "quiet (liftR r)"
  by (auto simp: quiet_def monad_simps)

lemma quiet_bind [intro]: "quiet m \<Longrightarrow> (\<And>x. quiet (f x)) \<Longrightarrow> quiet (bind m f)"
  unfolding quiet_def by (intro allI impI) (elim bindE, metis)

lemma quiet_andThen [intro]: "quiet m \<Longrightarrow> quiet n \<Longrightarrow> quiet (andThen m n)"
  unfolding andThen_def by (rule quiet_bind)

lemma quiet_forEach [intro]: "(\<And>x. quiet (f x)) \<Longrightarrow> quiet (forEach xs f)"
  by (induction xs) auto

lemma quiet_track [intro, simp]: "quiet (trackChangeFeedBefore ids)"
  by (auto simp: quiet_def trackChangeFeedBefore_def monad_simps core_def Let_def split: option.splits)

lemma quiet_markChanged [intro, simp]: "quiet (markChanged i inc)"
  by (auto simp: quiet_def markChanged_def monad_simps core_def split: option.splits)

lemma quiet_markWalk [intro, simp]: "quiet (markWalk fuel i walked)"
proof (induction fuel i walked rule: markWalk.induct)
  case (3 fuel i walked)
  then show ?case
    by (auto intro!: quiet_bind quiet_andThen split: option.splits)
qed auto

lemma quiet_markAncestorChain [intro, simp]: "quiet (markAncestorChain i)"
proof -
  have "quiet (modify (\<lambda>s. s\<lparr> x_ancestorChainMarked := x_ancestorChainMarked s @ walked \<rparr>))" for walked
    by (auto simp: quiet_def monad_simps core_def)
  then show ?thesis by (auto simp: markAncestorChain_def)
qed

lemma quiet_lockTargetNode [intro, simp]: "quiet (lockTargetNode ns p name)"
  unfolding lockTargetNode_def by (rule quiet_bind) (auto split: option.split)

lemma lockTargetNode_result: "lockTargetNode ns p name s = (Inr r, t) \<Longrightarrow> r = findChild ns p name (t_nodes s)"
  by (auto simp: lockTargetNode_def monad_simps split: option.splits)

section \<open>Walking down a path\<close>

lemma newNode_directory:
  assumes "r = newNode env i ns p DIRECTORY name None None None None"
  shows "liveByte ns' r = 0" "fileChild j r = 0" "nodeRef b r = 0" "n_type r = DIRECTORY" "n_id r = i"
    "n_namespaceId r = ns" "n_parentId r = Some p" "n_name r = name"
  by (simp_all add: assms newNode_def weights)

lemma createDirectory_ledger:
  assumes "createNode env ns p DIRECTORY name None None None None s = (Inr r, t)"
    and "recordLiveNodeDelta 1 t = (Inr u, t')" and l: "ledger env s dn db df own" and ns: "ns = x_namespaceId s"
    and p: "p \<in> n_id ` set (t_nodes s)"
  shows "ledger env t' dn db df own" and "x_namespaceId t' = ns" and "x_rootId t' = x_rootId s"
    and "n_id r \<in> n_id ` set (t_nodes t')"
proof -
  note c = createNode_ledger [OF assms(1) l ns p]
  from c(1) have "ledger env t (dn - 1) db df own"
    unfolding newNode_directory [OF c(2)] by simp
  from recordLiveNodeDelta_ledger [OF assms(2) this] show "ledger env t' dn db df own" by simp
  show "x_namespaceId t' = ns" "x_rootId t' = x_rootId s"
    using assms(2) ns by (simp_all add: monad_simps c(3))
  show "n_id r \<in> n_id ` set (t_nodes t')"
    using assms(2) by (simp add: monad_simps c(3))
qed

lemma findChild_SomeD:
  "findChild ns p name tbl = Some n \<Longrightarrow>
     n \<in> set tbl \<and> n_namespaceId n = ns \<and> n_parentId n = Some p \<and> n_name n = name"
  by (auto simp: findChild_def dest: findRow_SomeD)

lemma lockParentLoop_ledger:
  assumes "lockParentLoop env ns parents p ty pre segs s = (Inr r, t)" and "ledger env s dn db df own"
    and "ns = x_namespaceId s" and "p \<in> n_id ` set (t_nodes s)"
  shows "ledger env t dn db df own \<and> x_namespaceId t = ns \<and> x_rootId t = x_rootId s \<and> fst r \<in> n_id ` set (t_nodes t)"
  using assms
proof (induction env ns parents p ty pre segs arbitrary: s rule: lockParentLoop.induct)
  case (1 env ns parents p ty pre)
  then show ?case by (simp add: monad_simps)
next
  case (2 env ns parents p ty pre name rest)
  from "2.prems"(1) obtain s1 v1 where s1: "trackChangeFeedBefore [p] s = (Inr v1, s1)"
    and go: "(case findChild ns p name (t_nodes s1) of
        Some child \<Rightarrow> lockParentLoop env ns parents (n_id child) (n_type child) (pre @ [name]) rest
      | None \<Rightarrow>
          andThen (throwIf (\<not> parents) (nodeNotFound (joinSegments (pre @ [name]))))
          (bind (createNode env ns p DIRECTORY name None None None None) (\<lambda>child.
           andThen (recordLiveNodeDelta 1)
           (andThen (markAncestorChain p)
           (andThen (markChanged (n_id child) False)
           (lockParentLoop env ns parents (n_id child) (n_type child) (pre @ [name]) rest)))))) s1 = (Inr r, t)"
    unfolding lockParentLoop.simps by (elim monad_elims) blast
  note q1 = quietD [OF quiet_track s1]
  have l1: "ledger env s1 dn db df own" "ns = x_namespaceId s1" "p \<in> n_id ` set (t_nodes s1)"
    using "2.prems" by (simp_all add: ledger_core [OF q1] core_sel [OF q1])
  show ?case
  proof (cases "findChild ns p name (t_nodes s1)")
    case (Some child)
    with go have "lockParentLoop env ns parents (n_id child) (n_type child) (pre @ [name]) rest s1 = (Inr r, t)"
      by simp
    from "2.IH"(2) [OF this l1(1,2)] findChild_SomeD [OF Some] show ?thesis by (simp add: core_sel [OF q1])
  next
    case None
    with go obtain child s2 s3 s4 s5 u v where
      c: "createNode env ns p DIRECTORY name None None None None s1 = (Inr child, s2)"
        "recordLiveNodeDelta 1 s2 = (Inr u, s3)"
      and m: "markAncestorChain p s3 = (Inr v, s4)" "markChanged (n_id child) False s4 = (Inr u, s5)"
      and rest: "lockParentLoop env ns parents (n_id child) (n_type child) (pre @ [name]) rest s5 = (Inr r, t)"
      by (auto simp: monad_simps)
    note l3 = createDirectory_ledger [OF c l1]
    have q5: "core s5 = core s3" using quietD [OF quiet_markAncestorChain m(1)] quietD [OF quiet_markChanged m(2)] by simp
    have "ledger env s5 dn db df own" "ns = x_namespaceId s5" "n_id child \<in> n_id ` set (t_nodes s5)"
      using l3 by (simp_all add: ledger_core [OF q5] core_sel [OF q5])
    from "2.IH"(1) [OF rest this] l3 show ?thesis
      by (simp add: core_sel [OF q1] core_sel [OF q5])
  qed
qed

end
