(* ===== verification/Walk.thy ===== *)
theory Walk
  imports Steps
begin

text \<open>
  What walking a path means: \<open>lockParentChain\<close> ends at the node the path's parent resolves to,
  and changes the node table only by appending the directories it had to create.
\<close>

lemma findChild_append:
  "findChild ns p name (xs @ ys) = (case findChild ns p name xs of None \<Rightarrow> findChild ns p name ys | Some r \<Rightarrow> Some r)"
  unfolding findChild_def by (rule findRow_append)

lemma findNode_SomeD: "findNode ns i tbl = Some n \<Longrightarrow> n \<in> set tbl \<and> n_namespaceId n = ns \<and> n_id n = i"
  by (auto simp: findNode_def dest: findRow_SomeD)

text \<open>A path that resolves keeps resolving to the same node when rows are appended.\<close>

lemma resolveFrom_append:
  "resolveFrom ns xs (Some n) segs = Some q \<Longrightarrow> resolveFrom ns (xs @ ys) (Some n) segs = Some q"
proof (induction segs arbitrary: n)
  case (Cons a segs)
  then obtain c where "n_type n = DIRECTORY" "findChild ns (n_id n) a xs = Some c"
      "resolveFrom ns xs (Some c) segs = Some q"
    by (cases "findChild ns (n_id n) a xs"; cases segs) (auto split: if_splits)
  with Cons.IH show ?case by (simp add: findChild_append)
qed simp

lemma resolveFrom_snoc:
  "resolveFrom ns tbl n (segs @ [a]) =
     (case resolveFrom ns tbl n segs of
        None \<Rightarrow> None
      | Some q \<Rightarrow> if n_type q \<noteq> DIRECTORY then None else findChild ns (n_id q) a tbl)"
proof (induction ns tbl n segs rule: resolveFrom.induct)
  case (1 ns tbl n)
  then show ?case by (cases n) auto
qed auto

lemma resolveFrom_None [simp]: "resolveFrom ns tbl None segs = None"
  by (cases segs) auto

lemma resolveFrom_appendSegs:
  "resolveFrom ns tbl n (a @ b) = resolveFrom ns tbl (resolveFrom ns tbl n a) b"
  by (induction ns tbl n a rule: resolveFrom.induct) auto

text \<open>The table after a step: the old rows and then new directories of the namespace.\<close>

definition grown :: "jstring \<Rightarrow> tx \<Rightarrow> tx \<Rightarrow> bool" where
  "grown ns s t \<longleftrightarrow> (\<exists>new. x_db t = (x_db s)\<lparr> nodes := t_nodes s @ new \<rparr> \<and>
     (\<forall>r\<in>set new. n_type r = DIRECTORY \<and> n_namespaceId r = ns)) \<and>
     x_namespaceId t = x_namespaceId s \<and> x_rootId t = x_rootId s \<and> x_liveFileByteDelta t = x_liveFileByteDelta s"

lemma grown_refl: "core t = core s \<Longrightarrow> grown ns s t"
  using core_sel [of t s] by (auto simp: grown_def intro!: exI [of _ "[]"])

lemma grown_trans: "grown ns s t \<Longrightarrow> grown ns t u \<Longrightarrow> grown ns s u"
  by (fastforce simp: grown_def)

lemma grownE:
  assumes "grown ns s t"
  obtains new where "t_nodes t = t_nodes s @ new" "\<forall>r\<in>set new. n_type r = DIRECTORY \<and> n_namespaceId r = ns"
    "t_blobs t = t_blobs s" "x_namespaceId t = x_namespaceId s" "x_rootId t = x_rootId s"
  using assms by (auto simp: grown_def)

lemma grown_keeps: "grown ns s t \<Longrightarrow> q \<in> set (t_nodes s) \<Longrightarrow> q \<in> set (t_nodes t)"
  by (auto simp: grown_def)

lemma createNode_run:
  assumes "createNode env ns p ty name bl sz mime ex s = (Inr r, t)"
  shows "r = newNode env (env_uuid env (x_next s)) ns p ty name bl sz mime ex"
    and "t = withNodes (s\<lparr> x_next := Suc (x_next s) \<rparr>) (t_nodes s @ [r])"
    and "checkNodeRow r (t_nodes s) (t_blobs s) = None"
  using assms by (auto simp: createNode_def Let_def monad_simps insertRow_def)

lemma createDirectory_grown:
  assumes c: "createNode env ns p DIRECTORY name None None None None s = (Inr r, t)"
    and d: "recordLiveNodeDelta 1 t = (Inr u, t')"
  shows "grown ns s t'" and "t_nodes t' = t_nodes s @ [r]"
  using createNode_run [OF c] d by (auto simp: monad_simps grown_def newNode_def)

lemma lockParentLoop_spec:
  assumes "lockParentLoop env ns parents p ty pre segs s = (Inr r, t)" and "n_id pn = p" and "n_type pn = ty"
  shows "grown ns s t \<and> (\<not> parents \<longrightarrow> t_nodes t = t_nodes s) \<and>
    (\<exists>qn. resolveFrom ns (t_nodes t) (Some pn) segs = Some qn \<and> r = (n_id qn, n_type qn))"
  using assms
proof (induction env ns parents p ty pre segs arbitrary: s pn rule: lockParentLoop.induct)
  case (1 env ns parents p ty pre)
  then show ?case by (auto simp: monad_simps grown_refl)
next
  case (2 env ns parents p ty pre name rest)
  from "2.prems"(1) obtain s1 v1 where dir: "ty = DIRECTORY" and s1: "trackChangeFeedBefore [p] s = (Inr v1, s1)"
    and go: "(case findChild ns p name (t_nodes s1) of
        Some child \<Rightarrow> lockParentLoop env ns parents (n_id child) (n_type child) (pre @ [name]) rest
      | None \<Rightarrow>
          andThen (throwIf (\<not> parents) (nodeNotFound (joinSegments (pre @ [name]))))
          (bind (createNode env ns p DIRECTORY name None None None None) (\<lambda>child.
           andThen (recordLiveNodeDelta 1)
           (andThen (markAncestorChain p)
           (andThen (markChanged (n_id child) False)
           (lockParentLoop env ns parents (n_id child) (n_type child) (pre @ [name]) rest)))))) s1 = (Inr r, t)"
    unfolding lockParentLoop.simps by (elim monad_elims) blast
  note q1 = quietD [OF quiet_track s1]
  show ?case
  proof (cases "findChild ns p name (t_nodes s1)")
    case (Some child)
    with go have "lockParentLoop env ns parents (n_id child) (n_type child) (pre @ [name]) rest s1 = (Inr r, t)"
      by simp
    from "2.IH"(2) [OF this refl refl] have ih: "grown ns s1 t" "\<not> parents \<longrightarrow> t_nodes t = t_nodes s1"
      "\<exists>qn. resolveFrom ns (t_nodes t) (Some child) rest = Some qn \<and> r = (n_id qn, n_type qn)" by auto
    from ih(1) obtain new where "t_nodes t = t_nodes s1 @ new" by (rule grownE)
    with Some have "findChild ns p name (t_nodes t) = Some child" by (simp add: findChild_append)
    with ih dir "2.prems" show ?thesis
      using grown_trans [OF grown_refl [OF q1] ih(1)] by (simp add: core_sel [OF q1])
  next
    case None
    from go [unfolded None option.case] obtain child s2 s3 s4 s5 u v w where par: "parents"
      and c: "createNode env ns p DIRECTORY name None None None None s1 = (Inr child, s2)"
        "recordLiveNodeDelta 1 s2 = (Inr u, s3)"
      and m: "markAncestorChain p s3 = (Inr v, s4)" "markChanged (n_id child) False s4 = (Inr w, s5)"
      and rest: "lockParentLoop env ns parents (n_id child) (n_type child) (pre @ [name]) rest s5 = (Inr r, t)"
      by (elim monad_elims) blast
    have q5: "core s5 = core s3"
      using quietD [OF quiet_markAncestorChain m(1)] quietD [OF quiet_markChanged m(2)] by simp
    note g = createDirectory_grown [OF c]
    from "2.IH"(1) [OF rest refl refl] have ih: "grown ns s5 t"
      "\<exists>qn. resolveFrom ns (t_nodes t) (Some child) rest = Some qn \<and> r = (n_id qn, n_type qn)" by auto
    from ih(1) obtain new where "t_nodes t = t_nodes s5 @ new" by (rule grownE)
    then have "t_nodes t = t_nodes s1 @ child # new" by (simp add: core_sel [OF q5] g(2))
    moreover have "findChild ns p name (child # new) = Some child"
      using createNode_run(1) [OF c(1)] by (simp add: findChild_def findRow_def newNode_def)
    ultimately have "findChild ns p name (t_nodes t) = Some child"
      using None by (simp add: findChild_append)
    moreover have "grown ns s t"
      using grown_refl [OF q1] g(1) grown_refl [OF q5] ih(1) by (blast intro: grown_trans)
    ultimately show ?thesis using ih(2) dir par "2.prems" by simp
  qed
qed

lemma lockParentChain_spec:
  assumes run: "lockParentChain env ns rootId segs parents mark s = (Inr p, t)"
    and pn: "n_id pn = rootId" "n_type pn = DIRECTORY"
  shows "grown ns s t" and "\<not> parents \<Longrightarrow> t_nodes t = t_nodes s"
    and "\<exists>qn. resolveFrom ns (t_nodes t) (Some pn) (butlast segs) = Some qn \<and> n_id qn = p \<and> n_type qn = DIRECTORY"
proof -
  obtain q ty s1 where loop: "lockParentLoop env ns parents rootId DIRECTORY [] (butlast segs) s = (Inr (q, ty), s1)"
    and tail: "andThen (throwIf (ty \<noteq> DIRECTORY) (notDirectory (joinSegments (butlast segs))))
      (andThen (trackChangeFeedBefore [q]) (andThen (if mark then markAncestorChain q else ret ()) (ret q))) s1 = (Inr p, t)"
    using run unfolding lockParentChain_def by (elim bindE) (auto split: prod.splits)
  have quiet: "quiet (andThen (throwIf (ty \<noteq> DIRECTORY) (notDirectory (joinSegments (butlast segs))))
      (andThen (trackChangeFeedBefore [q]) (andThen (if mark then markAncestorChain q else ret ()) (ret q))))"
    by auto
  note c = quietD [OF this tail]
  have q: "q = p" "ty = DIRECTORY" using tail by (auto elim!: andThenE throwIfE retE)
  note sp = lockParentLoop_spec [OF loop pn]
  from sp show "grown ns s t" using grown_refl [OF c] by (blast intro: grown_trans)
  from sp show "\<not> parents \<Longrightarrow> t_nodes t = t_nodes s" by (simp add: core_sel [OF c])
  from sp q show "\<exists>qn. resolveFrom ns (t_nodes t) (Some pn) (butlast segs) = Some qn \<and> n_id qn = p \<and> n_type qn = DIRECTORY"
    by (auto simp: core_sel [OF c])
qed

lemma lockParentChain_grown:
  assumes "lockParentChain env ns rootId segs parents mark s = (Inr p, t)"
  shows "grown ns s t"
  using lockParentChain_spec(1) [OF assms, of "newNode env rootId ns rootId DIRECTORY [] None None None None"]
  by (simp add: newNode_def)

end
