(* ===== verification/FileBooks.thy ===== *)
theory FileBooks
  imports Walk
begin

text \<open>
  The books balance after mkdir, touch, put and move: each operation, run on a transaction whose
  ledger is balanced, leaves it balanced.
\<close>

lemma lockParentChain_ledger:
  assumes run: "lockParentChain env ns rootId segs parents mark s = (Inr p, t)"
    and l: "ledger env s dn db df own" and ns: "ns = x_namespaceId s" and root: "rootId \<in> n_id ` set (t_nodes s)"
  shows "ledger env t dn db df own" and "x_namespaceId t = ns" and "x_rootId t = x_rootId s"
    and "p \<in> n_id ` set (t_nodes t)"
proof -
  obtain q ty s1 where loop: "lockParentLoop env ns parents rootId DIRECTORY [] (butlast segs) s = (Inr (q, ty), s1)"
    and tail: "andThen (throwIf (ty \<noteq> DIRECTORY) (notDirectory (joinSegments (butlast segs))))
      (andThen (trackChangeFeedBefore [q]) (andThen (if mark then markAncestorChain q else ret ()) (ret q))) s1 = (Inr p, t)"
    using run unfolding lockParentChain_def by (elim bindE) (auto split: prod.splits)
  have "quiet (andThen (throwIf (ty \<noteq> DIRECTORY) (notDirectory (joinSegments (butlast segs))))
      (andThen (trackChangeFeedBefore [q]) (andThen (if mark then markAncestorChain q else ret ()) (ret q))))"
    by auto
  note c = quietD [OF this tail]
  have "q = p" using tail by (auto elim!: andThenE retE)
  with lockParentLoop_ledger [OF loop l ns root]
  show "ledger env t dn db df own" "x_namespaceId t = ns" "x_rootId t = x_rootId s" "p \<in> n_id ` set (t_nodes t)"
    by (simp_all add: ledger_core [OF c] core_sel [OF c])
qed

text \<open>What the walk and the lookup of the last segment leave behind.\<close>

lemma lookup_ledger:
  assumes "lockTargetNode ns p name s = (Inr r, t)" and "ledger env s dn db df own" and "ns = x_namespaceId s"
  shows "ledger env t dn db df own" and "x_namespaceId t = ns" and "r = findChild ns p name (t_nodes t)"
    and "x_rootId t = x_rootId s" and "t_nodes t = t_nodes s"
proof -
  note c = quietD [OF quiet_lockTargetNode assms(1)]
  show "ledger env t dn db df own" "x_namespaceId t = ns" "x_rootId t = x_rootId s" "t_nodes t = t_nodes s"
    using assms(2,3) by (simp_all add: ledger_core [OF c] core_sel [OF c])
  show "r = findChild ns p name (t_nodes t)"
    using lockTargetNode_result [OF assms(1)] by (simp add: core_sel [OF c])
qed

section \<open>mkdir\<close>

lemma ensureLoop_ledger:
  assumes "ensureLoop env ns parents pre p ty current created segs s = (Inr r, t)"
    and "ledger env s dn db df own" and "ns = x_namespaceId s" and "p \<in> n_id ` set (t_nodes s)"
  shows "ledger env t dn db df own \<and> x_namespaceId t = ns \<and> x_rootId t = x_rootId s"
  using assms
proof (induction env ns parents pre p ty current created segs arbitrary: s rule: ensureLoop.induct)
  case (1 env ns parents pre p ty current created)
  then show ?case by (simp add: monad_simps)
next
  case (2 env ns parents pre p ty current created name rest)
  from "2.prems"(1) obtain s1 v1 where s1: "trackChangeFeedBefore [p] s = (Inr v1, s1)"
    and go: "(case findChild ns p name (t_nodes s1) of
        Some child \<Rightarrow>
          andThen (throwIf (rest = [] \<and> (n_type child = FILE \<or> \<not> parents))
            (alreadyExists (joinSegments (pre @ name # rest))))
          (ensureLoop env ns parents (pre @ [name]) (n_id child) (n_type child) (Some child) created rest)
      | None \<Rightarrow>
          andThen (throwIf (rest \<noteq> [] \<and> \<not> parents) (nodeNotFound (joinSegments (pre @ [name]))))
          (bind (createNode env ns p DIRECTORY name None None None None) (\<lambda>child.
           andThen (recordLiveNodeDelta 1)
           (andThen (markAncestorChain p)
           (andThen (markChanged (n_id child) False)
           (ensureLoop env ns parents (pre @ [name]) (n_id child) (n_type child) (Some child)
              (created \<or> rest = []) rest)))))) s1 = (Inr r, t)"
    unfolding ensureLoop.simps by (elim monad_elims) blast
  note q1 = quietD [OF quiet_track s1]
  have l1: "ledger env s1 dn db df own" "ns = x_namespaceId s1" "p \<in> n_id ` set (t_nodes s1)"
    using "2.prems" by (simp_all add: ledger_core [OF q1] core_sel [OF q1])
  show ?case
  proof (cases "findChild ns p name (t_nodes s1)")
    case (Some child)
    with go have "ensureLoop env ns parents (pre @ [name]) (n_id child) (n_type child) (Some child) created rest s1 = (Inr r, t)"
      by (auto elim!: andThenE throwIfE)
    from "2.IH"(2) [OF this l1(1,2)] findChild_SomeD [OF Some] show ?thesis by (simp add: core_sel [OF q1])
  next
    case None
    from go [unfolded None option.case] obtain child s2 s3 s4 s5 u v w where
      c: "createNode env ns p DIRECTORY name None None None None s1 = (Inr child, s2)"
        "recordLiveNodeDelta 1 s2 = (Inr u, s3)"
      and m: "markAncestorChain p s3 = (Inr v, s4)" "markChanged (n_id child) False s4 = (Inr w, s5)"
      and rest: "ensureLoop env ns parents (pre @ [name]) (n_id child) (n_type child) (Some child)
        (created \<or> rest = []) rest s5 = (Inr r, t)"
      by (elim monad_elims) blast
    note l3 = createDirectory_ledger [OF c l1]
    have q5: "core s5 = core s3"
      using quietD [OF quiet_markAncestorChain m(1)] quietD [OF quiet_markChanged m(2)] by simp
    have "ledger env s5 dn db df own" "ns = x_namespaceId s5" "n_id child \<in> n_id ` set (t_nodes s5)"
      using l3 by (simp_all add: ledger_core [OF q5] core_sel [OF q5])
    from "2.IH"(1) [OF rest this] l3 show ?thesis
      by (simp add: core_sel [OF q1] core_sel [OF q5])
  qed
qed

lemma ensureDirectory_ledger:
  assumes "ensureDirectory env ns rootId segs parents s = (Inr r, t)" and "ledger env s dn db df own"
    and "ns = x_namespaceId s" and "rootId \<in> n_id ` set (t_nodes s)"
  shows "ledger env t dn db df own" and "x_namespaceId t = ns" and "x_rootId t = x_rootId s"
proof -
  obtain current created where
    "ensureLoop env ns parents [] rootId DIRECTORY None False segs s = (Inr (current, created), t)"
    using assms(1) unfolding ensureDirectory_def
    by (elim bindE) (auto split: option.splits prod.splits simp: monad_simps)
  from ensureLoop_ledger [OF this assms(2-4)]
  show "ledger env t dn db df own" "x_namespaceId t = ns" "x_rootId t = x_rootId s" by simp_all
qed

section \<open>Adding and replacing files\<close>

lemma addFile_ledger:
  assumes run: "addFile env ns p name b sz mime ex s = (Inr r, t)" and l: "ledger env s dn db df own"
    and ns: "ns = x_namespaceId s" and parent: "p \<in> n_id ` set (t_nodes s)"
  shows "ledger env t dn db df (own(b := own b - 1))" and "x_namespaceId t = ns" and "x_rootId t = x_rootId s"
proof -
  obtain z s1 s2 s3 s4 u where sz: "sz = Some z"
    and c: "createNode env ns p FILE name (Some b) sz mime ex s = (Inr r, s1)"
    and m: "markChanged (n_id r) False s1 = (Inr u, s2)"
    and d: "recordLiveByteDelta z s2 = (Inr u, s3)" "recordFolderFileDelta p 1 s3 = (Inr u, s4)"
      "recordLiveNodeDelta 1 s4 = (Inr u, t)"
    using run unfolding addFile_def by (cases sz) (auto elim!: monad_elims)
  note cr = createNode_ledger [OF c l ns parent]
  note q = quietD [OF quiet_markChanged m]
  have r: "liveByte ns r = z" "fileChild i r = (if i = p then 1 else 0)" "nodeRef i r = (if i = b then 1 else 0)" for i
    by (simp_all add: cr(2) newNode_def weights sz)
  have p: "\<exists>n\<in>set (t_nodes s1). n_id n = p"
    using cr(3,4) by (auto simp: checkNodeRow_None parentOk_def cr(2) newNode_def)
  have l2: "ledger env s2 (dn - 1) (db - z) (\<lambda>i. df i - fileChild i r) (\<lambda>b. own b - nodeRef b r)"
    using cr(1) by (simp add: ledger_core [OF q] r(1))
  note l3 = recordLiveByteDelta_ledger [OF d(1) l2]
  have "env_uuid env j \<noteq> p" if "x_next s3 \<le> j" for j
    using p ledger_past [OF l3 _ that] d(1) by (auto simp: monad_simps core_sel [OF q])
  from recordLiveNodeDelta_ledger [OF d(3) recordFolderFileDelta_ledger [OF d(2) l3 this]]
  have "ledger env t dn db ((\<lambda>i. df i - fileChild i r)(p := df p - fileChild p r + 1)) (\<lambda>b. own b - nodeRef b r)"
    by simp
  moreover have "(\<lambda>i. df i - fileChild i r)(p := df p - fileChild p r + 1) = df"
    by (simp add: fun_eq_iff r)
  moreover have "(\<lambda>b. own b - nodeRef b r) = own(b := own b - 1)"
    by (simp add: fun_eq_iff r)
  ultimately show "ledger env t dn db df (own(b := own b - 1))" by simp
  show "x_namespaceId t = ns" "x_rootId t = x_rootId s"
    using d ns cr(3) by (simp_all add: monad_simps core_sel [OF q])
qed

lemma newBlobFile_ledger:
  assumes "createBlob env ns d s = (Inr b, s1)" and "addFile env ns p name (b_id b) sz mime ex s1 = (Inr r, t)"
    and l: "books env s" and ns: "ns = x_namespaceId s" and parent: "p \<in> n_id ` set (t_nodes s)"
  shows "books env t" and "x_namespaceId t = ns" and "x_rootId t = x_rootId s"
proof -
  note c = createBlob_ledger [OF assms(1) l]
  have root: "x_rootId s1 = x_rootId s" using assms(1) by (auto simp: createBlob_iff)
  have ns1: "ns = x_namespaceId s1" using c(6) ns by simp
  have "p \<in> n_id ` set (t_nodes s1)" using c(5) parent by simp
  note a = addFile_ledger [OF assms(2) c(1) ns1 this]
  have "((\<lambda>_. 0::int)(b_id b := 1))(b_id b := ((\<lambda>_. 0)(b_id b := 1)) (b_id b) - 1) = (\<lambda>_. 0)" by auto
  with a(1) show "books env t" by (simp only:)
  show "x_namespaceId t = ns" "x_rootId t = x_rootId s" using a(2,3) root by simp_all
qed

lemma touchRow_ledger:
  assumes "touchRow env i s = (Inr u, t)" and "ledger env s dn db df own"
  shows "ledger env t dn db df own" and "x_namespaceId t = x_namespaceId s" and "x_rootId t = x_rootId s"
  using ledger_touch [OF assms(2), of "\<lambda>n. n\<lparr> n_version := n_version n + 1, n_updatedAt := env_appNow env \<rparr>"] assms(1)
  by (auto simp: touchRow_def Let_def monad_simps)

lemma touchFile_ledger:
  assumes run: "touchFile env ns rootId segs parents d s = (Inr r, t)" and l: "books env s" and ns: "ns = x_namespaceId s"
    and root: "rootId \<in> n_id ` set (t_nodes s)"
  shows "books env t" and "x_namespaceId t = ns" and "x_rootId t = x_rootId s"
proof -
  from run obtain p s1 existing s2 where walk: "lockParentChain env ns rootId segs parents True s = (Inr p, s1)"
    and look: "lockTargetNode ns p (lastSegment segs) s1 = (Inr existing, s2)"
    and go: "(case existing of
       Some old \<Rightarrow>
         andThen (throwIf (n_type old = DIRECTORY) (isDirectory (joinSegments segs)))
         (andThen (touchRow env (n_id old))
         (bind (gets (\<lambda>s. findNode ns (n_id old) (t_nodes s))) (\<lambda>r.
          case r of
            None \<Rightarrow> throw (InternalError ''EntityNotFoundError'')
          | Some touched \<Rightarrow>
              andThen (markChanged (n_id touched) False) (ret (ReplacedNode (toRecord touched))))))
     | None \<Rightarrow>
         (case d of
            None \<Rightarrow> ret AbsentNode
          | Some d \<Rightarrow>
              bind (createBlob env ns d) (\<lambda>blob.
              bind (addFile env ns p (lastSegment segs) (b_id blob) (Some (d_size d)) (Some (d_mimeType d)) None)
                (\<lambda>created. ret (CreatedNode (toRecord created)))))) s2 = (Inr r, t)"
    unfolding touchFile_def by (elim bindE)
  note w = lockParentChain_ledger [OF walk l ns root]
  note k = lookup_ledger [OF look w(1) w(2) [symmetric]]
  have parent: "p \<in> n_id ` set (t_nodes s2)" using w(4) k(5) by simp
  have "books env t \<and> x_namespaceId t = ns \<and> x_rootId t = x_rootId s"
  proof (cases existing)
    case None
    show ?thesis
    proof (cases d)
      case None
      with go \<open>existing = None\<close> k w show ?thesis by (simp add: monad_simps)
    next
      case (Some e)
      from go [unfolded None Some option.case] obtain b s3 f where
        "createBlob env ns e s2 = (Inr b, s3)"
        "addFile env ns p (lastSegment segs) (b_id b) (Some (d_size e)) (Some (d_mimeType e)) None s3 = (Inr f, t)"
        by (elim monad_elims) blast
      from newBlobFile_ledger [OF this k(1) k(2) [symmetric] parent] k w show ?thesis by simp
    qed
  next
    case (Some old)
    from go [unfolded Some option.case] obtain u s3 where touch: "touchRow env (n_id old) s2 = (Inr u, s3)"
      and last: "(case findNode ns (n_id old) (t_nodes s3) of None \<Rightarrow> throw (InternalError ''EntityNotFoundError'')
        | Some touched \<Rightarrow> andThen (markChanged (n_id touched) False) (ret (ReplacedNode (toRecord touched)))) s3 = (Inr r, t)"
      by (elim monad_elims) blast
    then have "\<exists>touched :: node. markChanged (n_id touched) False s3 = (Inr (), t)"
      by (cases "findNode ns (n_id old) (t_nodes s3)") (auto simp: monad_simps)
    then obtain touched :: node where m: "markChanged (n_id touched) False s3 = (Inr (), t)" ..
    note c = quietD [OF quiet_markChanged m]
    from touchRow_ledger [OF touch k(1)] k w show ?thesis
      by (simp add: ledger_core [OF c] core_sel [OF c])
  qed
  then show "books env t" "x_namespaceId t = ns" "x_rootId t = x_rootId s" by auto
qed

lemma replaceContent_ledger:
  assumes run: "replaceContent env ns old d s = (Inr r, t)" and l: "books env s" and ns: "ns = x_namespaceId s"
    and old: "old \<in> set (t_nodes s)" "n_namespaceId old = ns" "n_type old = FILE"
  shows "books env t" and "x_namespaceId t = ns" and "x_rootId t = x_rootId s"
proof -
  define new where "new b = old\<lparr> n_blobId := Some (b_id b), n_size := Some (d_size d), n_mimeType := Some (d_mimeType d) \<rparr>" for b :: blob
  from run obtain b s1 pb pz saved s2 s3 s4 u v w where c: "createBlob env ns d s = (Inr b, s1)"
    and prev: "n_blobId old = Some pb" "n_size old = Some pz"
    and save: "saveNode env (new b) s1 = (Inr saved, s2)"
    and m: "markChanged (n_id saved) False s2 = (Inr u, s3)"
    and rec: "recordLiveByteDelta (d_size d - pz) s3 = (Inr v, s4)"
    and dec: "decrementReferenceCount env pb 1 s4 = (Inr w, t)"
    unfolding replaceContent_def new_def
    by (elim bindE) (auto split: option.splits elim!: monad_elims)
  note cr = createBlob_ledger [OF c l]
  have old1: "old \<in> set (t_nodes s1)" using old cr(5) by simp
  have pb: "pb \<noteq> b_id b"
    using valid_row(4) [OF ledger_valid [OF l] old(1)] prev(1) cr(4)
    by (auto simp: blobOk_def) (metis image_eqI)
  have "n_id old = n_id (new b)" "n_parentId (new b) = n_parentId old" by (simp_all add: new_def)
  note sv = saveNode_ledger [OF save cr(1) old1 this(1) _ _ _ grounded_same_parent [OF cr(1) old1 this]]
  have "ledger env s2 0 (pz - d_size d) (\<lambda>_. 0) ((\<lambda>_. 0)(pb := 1))"
  proof -
    have "(\<lambda>x. (if x = b_id b then 1 else 0 :: int) + nodeRef x old - nodeRef x (new b)) = (\<lambda>_. 0)(pb := 1)"
      using pb prev by (auto simp: fun_eq_iff holds_def new_def)
    with sv(1) ns cr(6) old prev show ?thesis
      by (simp add: new_def weights fun_upd_def if_distrib cong: if_cong)
  qed
  moreover note q = quietD [OF quiet_markChanged m]
  ultimately have "ledger env s3 0 (pz - d_size d) (\<lambda>_. 0) ((\<lambda>_. 0)(pb := 1))" by (simp add: ledger_core [OF q])
  from decrementReferenceCount_ledger [OF dec recordLiveByteDelta_ledger [OF rec this]]
  show "books env t" by (simp add: fun_upd_def if_distrib cong: if_cong)
  have s2: "x_namespaceId s2 = x_namespaceId s1" "x_rootId s2 = x_rootId s1"
    using arg_cong [OF sv(2), of x_namespaceId] arg_cong [OF sv(2), of x_rootId] by (simp_all add: new_def)
  have "x_namespaceId t = x_namespaceId s4" "x_rootId t = x_rootId s4"
    using dec by (auto simp: decrementReferenceCount_def monad_simps split: if_splits)
  with s2 rec cr(6) ns c show "x_namespaceId t = ns" "x_rootId t = x_rootId s"
    by (auto simp: monad_simps core_sel [OF q] createBlob_iff)
qed

lemma putFileContent_ledger:
  assumes run: "putFileContent env ns rootId segs parents d ifMatch force ex s = (Inr r, t)" and l: "books env s"
    and ns: "ns = x_namespaceId s" and root: "rootId \<in> n_id ` set (t_nodes s)"
  shows "books env t" and "x_namespaceId t = ns" and "x_rootId t = x_rootId s"
proof -
  from run obtain p s1 existing s2 where walk: "lockParentChain env ns rootId segs parents True s = (Inr p, s1)"
    and look: "lockTargetNode ns p (lastSegment segs) s1 = (Inr existing, s2)"
    and go: "(case existing of
       Some old \<Rightarrow>
         andThen (throwIf (n_type old = DIRECTORY) (isDirectory (joinSegments segs)))
         (andThen (throwIf (MAX_VFS_VERSION \<le> n_version old) revisionExhausted)
         (andThen (throwIf (\<not> (case ifMatch of Some v \<Rightarrow> v = n_version old | None \<Rightarrow> force))
            (Node (VfsVersionConflictError (joinSegments segs))))
         (replaceContent env ns old d)))
     | None \<Rightarrow>
         andThen (throwIf (ifMatch \<noteq> None) (Node (VfsVersionConflictError (joinSegments segs))))
         (bind (createBlob env ns d) (\<lambda>createdBlob.
          bind (addFile env ns p (lastSegment segs) (b_id createdBlob) (Some (d_size d)) (Some (d_mimeType d)) ex)
            (\<lambda>created. ret (CreatedNode (toRecord created)))))) s2 = (Inr r, t)"
    unfolding putFileContent_def by (elim bindE)
  note w = lockParentChain_ledger [OF walk l ns root]
  note k = lookup_ledger [OF look w(1) w(2) [symmetric]]
  have parent: "p \<in> n_id ` set (t_nodes s2)" using w(4) k(5) by simp
  have "books env t \<and> x_namespaceId t = ns \<and> x_rootId t = x_rootId s"
  proof (cases existing)
    case None
    from go [unfolded None option.case] obtain b s3 f where
      "createBlob env ns d s2 = (Inr b, s3)"
      "addFile env ns p (lastSegment segs) (b_id b) (Some (d_size d)) (Some (d_mimeType d)) ex s3 = (Inr f, t)"
      by (elim monad_elims) blast
    from newBlobFile_ledger [OF this k(1) k(2) [symmetric] parent] k w show ?thesis by simp
  next
    case (Some old)
    from go [unfolded Some option.case] have isFile: "n_type old = FILE"
      and rep: "replaceContent env ns old d s2 = (Inr r, t)"
      by (auto elim!: andThenE throwIfE intro: node_type.exhaust)
    have old: "old \<in> set (t_nodes s2)" "n_namespaceId old = ns"
      using k(3) Some findChild_SomeD by metis+
    from replaceContent_ledger [OF rep k(1) k(2) [symmetric] old isFile] k w show ?thesis by simp
  qed
  then show "books env t" "x_namespaceId t = ns" "x_rootId t = x_rootId s" by auto
qed

section \<open>move\<close>

lemma grown_root: "grown ns s t \<Longrightarrow> i \<in> n_id ` set (t_nodes s) \<Longrightarrow> i \<in> n_id ` set (t_nodes t)"
  by (auto dest: grown_keeps)

lemma resolveSource_spec:
  assumes run: "resolveSource env ns rootId segs mark s = (Inr n, t)" and l: "ledger env s dn db df own" and ns: "ns = x_namespaceId s"
    and root: "rootId \<in> n_id ` set (t_nodes s)"
  shows "ledger env t dn db df own" and "x_namespaceId t = ns" and "x_rootId t = x_rootId s" and "grown ns s t"
    and "n \<in> set (t_nodes t)" and "n_namespaceId n = ns" and "n_parentId n \<noteq> None"
proof -
  from run obtain p s1 r where walk: "lockParentChain env ns rootId segs False mark s = (Inr p, s1)"
    and look: "lockTargetNode ns p (lastSegment segs) s1 = (Inr (Some n), t)"
    unfolding resolveSource_def by (elim bindE) (auto split: option.splits simp: monad_simps)
  note w = lockParentChain_ledger [OF walk l ns root]
  note k = lookup_ledger [OF look w(1) w(2) [symmetric]]
  show "ledger env t dn db df own" "x_namespaceId t = ns" "x_rootId t = x_rootId s" using k w by simp_all
  show "grown ns s t"
    using lockParentChain_grown [OF walk] grown_refl [OF quietD [OF quiet_lockTargetNode look]] by (rule grown_trans)
  show "n \<in> set (t_nodes t)" "n_namespaceId n = ns" "n_parentId n \<noteq> None"
    using findChild_SomeD [OF k(3) [symmetric]] by simp_all
qed

lemma lockBothPaths_spec:
  assumes run: "lockBothPaths env ns rootId src dst parents mark s = (Inr (n, p), t)" and l: "ledger env s dn db df own"
    and ns: "ns = x_namespaceId s" and root: "rootId \<in> n_id ` set (t_nodes s)"
  shows "ledger env t dn db df own" and "x_namespaceId t = ns" and "x_rootId t = x_rootId s" and "grown ns s t"
    and "n \<in> set (t_nodes t)" and "n_namespaceId n = ns" and "n_parentId n \<noteq> None"
proof -
  have "ledger env t dn db df own \<and> x_namespaceId t = ns \<and> x_rootId t = x_rootId s \<and> grown ns s t \<and>
    n \<in> set (t_nodes t) \<and> n_namespaceId n = ns \<and> n_parentId n \<noteq> None"
  proof (cases "compareSegments src dst \<le> 0")
    case True
    with run obtain s1 where a: "resolveSource env ns rootId src mark s = (Inr n, s1)"
      and b: "lockParentChain env ns rootId dst parents True s1 = (Inr p, t)"
      unfolding lockBothPaths_def by (auto elim!: bindE andThenE throwIfE retE)
    note a' = resolveSource_spec [OF a l ns root]
    note b' = lockParentChain_ledger(1-3) [OF b a'(1) a'(2) [symmetric] grown_root [OF a'(4) root]] lockParentChain_grown [OF b]
    from a' b' show ?thesis using grown_trans [OF a'(4) b'(4)] grown_keeps [OF b'(4) a'(5)] by simp
  next
    case False
    with run obtain s1 where a: "lockParentChain env ns rootId dst parents True s = (Inr p, s1)"
      and b: "resolveSource env ns rootId src mark s1 = (Inr n, t)"
      unfolding lockBothPaths_def by (auto elim!: bindE retE)
    note a' = lockParentChain_ledger(1-3) [OF a l ns root] lockParentChain_grown [OF a]
    note b' = resolveSource_spec [OF b a'(1) a'(2) [symmetric] grown_root [OF a'(4) root]]
    from a' b' show ?thesis using grown_trans [OF a'(4) b'(4)] by simp
  qed
  then show "ledger env t dn db df own" "x_namespaceId t = ns" "x_rootId t = x_rootId s" "grown ns s t"
    "n \<in> set (t_nodes t)" "n_namespaceId n = ns" "n_parentId n \<noteq> None" by simp_all
qed

text \<open>After both paths are locked the placement is computed without touching a row.\<close>

lemma placeAt_quiet: "quiet (placeAt env ns src dst exact n p target)"
  unfolding placeAt_def Let_def by (auto intro!: quiet_bind quiet_andThen split: option.split)

lemma placement_cases:
  assumes "resolveDestinationPlacement env ns rootId src dst parents mark exact s = (Inr pl, t)"
  obtains n p s1 target s2 where "lockBothPaths env ns rootId src dst parents mark s = (Inr (n, p), s1)"
    "core s2 = core s1" "target = (if lastSegment dst = [] then None else findChild ns p (lastSegment dst) (t_nodes s1))"
    "placeAt env ns src dst exact n p target s2 = (Inr pl, t)" "core t = core s1"
proof -
  from assms obtain n p s1 target s2 where both: "lockBothPaths env ns rootId src dst parents mark s = (Inr (n, p), s1)"
    and look: "(if lastSegment dst = [] then ret None else lockTargetNode ns p (lastSegment dst)) s1 = (Inr target, s2)"
    and place: "placeAt env ns src dst exact n p target s2 = (Inr pl, t)"
    unfolding resolveDestinationPlacement_def by (elim bindE) (auto elim!: bindE)
  have "core s2 = core s1" using look by (auto split: if_splits simp: monad_simps intro: quietD [OF quiet_lockTargetNode])
  moreover have "target = (if lastSegment dst = [] then None else findChild ns p (lastSegment dst) (t_nodes s1))"
    using look by (auto split: if_splits simp: monad_simps intro: lockTargetNode_result)
  moreover have "core t = core s2" by (rule quietD [OF placeAt_quiet place])
  ultimately show ?thesis using both place by (intro that) auto
qed

lemma placeAt_source: "placeAt env ns src dst exact n p target s = (Inr pl, t) \<Longrightarrow> pl_source pl = n"
  by (auto simp: placeAt_def Let_def elim!: andThenE retE)

lemma saveNode_cases:
  assumes "saveNode env r s = (Inr q, t)"
  obtains (same) "findRow (\<lambda>n. n_id n = n_id r) (t_nodes s) = Some r" "q = r" "t = s"
  | (changed) "q = r\<lparr> n_version := n_version r + 1, n_updatedAt := env_dbNow env \<rparr>"
      "t = withNodes s (updateRows (\<lambda>n. n_id n = n_id r) (\<lambda>_. q) (t_nodes s))"
      "checkNodeRow q (deleteRows (\<lambda>n. n_id n = n_id r) (t_nodes s)) (t_blobs s) = None"
  using assms by (auto simp: saveNode_def Let_def monad_simps split: if_splits option.splits)

lemma saveNode_row:
  assumes "saveNode env r s = (Inr q, t)" and "r0 \<in> set (t_nodes s)" and "n_id r0 = n_id r"
  shows "q \<in> set (t_nodes t)" and "n_parentId q = n_parentId r" and "n_name q = n_name r" and "n_id q = n_id r"
    and "n_namespaceId q = n_namespaceId r" and "n_type q = n_type r" and "x_next t = x_next s"
    and "x_namespaceId t = x_namespaceId s" and "x_rootId t = x_rootId s"
proof -
  have "q \<in> set (t_nodes t) \<and> n_parentId q = n_parentId r \<and> n_name q = n_name r \<and> n_id q = n_id r \<and>
    n_namespaceId q = n_namespaceId r \<and> n_type q = n_type r \<and> x_next t = x_next s \<and>
    x_namespaceId t = x_namespaceId s \<and> x_rootId t = x_rootId s"
    using assms(1)
  proof (cases rule: saveNode_cases)
    case same
    with findRow_SomeD [OF same(1)] show ?thesis by simp
  next
    case changed
    have "n_id r \<in> n_id ` set (t_nodes s)" using assms(2,3) by (metis imageI)
    with changed show ?thesis by (simp add: updateRows_const_set)
  qed
  then show "q \<in> set (t_nodes t)" "n_parentId q = n_parentId r" "n_name q = n_name r" "n_id q = n_id r"
    "n_namespaceId q = n_namespaceId r" "n_type q = n_type r" "x_next t = x_next s"
    "x_namespaceId t = x_namespaceId s" "x_rootId t = x_rootId s" by simp_all
qed

lemma recordMove_ledger:
  assumes run: "recordMove n f s = (Inr u, t)"
    and l: "ledger env s 0 0 (\<lambda>i. fileChild i n - fileChild i (n\<lparr> n_parentId := Some f, n_name := name \<rparr>)) (\<lambda>_. 0)"
    and past: "\<And>j p. x_next s \<le> j \<Longrightarrow> n_parentId n = Some p \<Longrightarrow> env_uuid env j \<noteq> p"
      "\<And>j. x_next s \<le> j \<Longrightarrow> env_uuid env j \<noteq> f"
  shows "books env t" and "x_namespaceId t = x_namespaceId s" and "x_rootId t = x_rootId s"
proof -
  let ?n = "n\<lparr> n_parentId := Some f, n_name := name \<rparr>"
  let ?df = "\<lambda>i. fileChild i n - fileChild i ?n"
  have "books env t \<and> x_namespaceId t = x_namespaceId s \<and> x_rootId t = x_rootId s"
  proof (cases "n_type n = FILE \<and> n_parentId n \<noteq> Some f")
    case True
    with run obtain p s1 v where p: "n_parentId n = Some p" "p \<noteq> f"
      and a: "recordFolderFileDelta p (- 1) s = (Inr v, s1)" and b: "recordFolderFileDelta f 1 s1 = (Inr u, t)"
      by (auto simp: recordMove_def split: option.splits elim!: monad_elims)
    have past1: "env_uuid env j \<noteq> f" if "x_next s1 \<le> j" for j
      using a that past(2) by (auto simp: monad_simps)
    note l1 = recordFolderFileDelta_ledger [OF a l past(1) [OF _ p(1)]]
    have "ledger env t 0 0 ((?df(p := ?df p + - 1))(f := (?df(p := ?df p + - 1)) f + 1)) (\<lambda>_. 0)"
      by (rule recordFolderFileDelta_ledger [OF b l1 past1])
    moreover have "(?df(p := ?df p + - 1))(f := (?df(p := ?df p + - 1)) f + 1) = (\<lambda>_. 0)"
      using True p by (auto simp: fun_eq_iff fileChild_def)
    ultimately show ?thesis using a b by (auto simp: monad_simps)
  next
    case False
    then have "?df = (\<lambda>_. 0)" by (auto simp: fun_eq_iff fileChild_def)
    with l have "books env s" by (simp only:)
    with False run show ?thesis by (auto simp: recordMove_def monad_simps)
  qed
  then show "books env t" "x_namespaceId t = x_namespaceId s" "x_rootId t = x_rootId s" by simp_all
qed

end
