(* ===== verification/Moving.thy ===== *)
theory Moving
  imports FileBooks
begin

text \<open>
  A move never makes a node its own ancestor. The source refuses destinations by comparing
  segments; here the comparison is shown to be the right one: a node's path is unique, so the
  destination lies inside the moved subtree exactly when the source's path is a prefix of it.
\<close>

section \<open>Paths determine nodes and nodes determine paths\<close>

lemma resolve_in: "resolveFrom ns tbl (Some r) segs = Some n \<Longrightarrow> r \<in> set tbl \<Longrightarrow> n \<in> set tbl"
proof (induction segs arbitrary: n rule: rev_induct)
  case (snoc a segs)
  then show ?case
    by (auto simp: resolveFrom_snoc split: option.splits if_splits dest: findChild_SomeD)
qed auto

lemma resolve_snocE:
  assumes "resolveFrom ns tbl n0 (segs @ [a]) = Some n"
  obtains q where "resolveFrom ns tbl n0 segs = Some q" "n_type q = DIRECTORY" "findChild ns (n_id q) a tbl = Some n"
    "n_parentId n = Some (n_id q)" "n_name n = a" "n_namespaceId n = ns" "n \<in> set tbl"
proof -
  from assms obtain q where q: "resolveFrom ns tbl n0 segs = Some q" "n_type q = DIRECTORY" "findChild ns (n_id q) a tbl = Some n"
    by (auto simp: resolveFrom_snoc split: option.splits if_splits)
  from findChild_SomeD [OF q(3)] show ?thesis using q by (intro that) auto
qed

lemma resolve_rank:
  assumes "ranked h tbl" and "resolveFrom ns tbl (Some r) segs = Some n" and "segs \<noteq> []"
  shows "h (n_id r) < h (n_id n)"
  using assms(2,3)
proof (induction segs arbitrary: n rule: rev_induct)
  case (snoc a segs)
  from snoc.prems(1) obtain q where q: "resolveFrom ns tbl (Some r) segs = Some q" "n_parentId n = Some (n_id q)" "n \<in> set tbl"
    by (rule resolve_snocE)
  then have "h (n_id q) < h (n_id n)" using assms(1) by (auto simp: ranked_def)
  moreover have "h (n_id r) \<le> h (n_id q)"
    using snoc.IH [OF q(1)] q(1) by (cases "segs = []") auto
  ultimately show ?case by simp
qed simp

lemma resolve_inj:
  assumes v: "validNodes tbl bl" and h: "ranked h tbl" and r: "r \<in> set tbl"
    and "resolveFrom ns tbl (Some r) a = Some n" and "resolveFrom ns tbl (Some r) b = Some n"
  shows "a = b"
  using assms(4,5)
proof (induction a arbitrary: n b rule: rev_induct)
  case Nil
  then show ?case using resolve_rank [OF h, of ns r b n] by auto
next
  case (snoc x a)
  have "b \<noteq> []" using snoc.prems resolve_rank [OF h snoc.prems(1)] by auto
  then obtain b' y where b: "b = b' @ [y]" by (cases b rule: rev_cases) auto
  from snoc.prems(1) obtain q where q: "resolveFrom ns tbl (Some r) a = Some q" "n_parentId n = Some (n_id q)" "n_name n = x"
    by (rule resolve_snocE)
  from snoc.prems(2) [unfolded b] obtain q' where q': "resolveFrom ns tbl (Some r) b' = Some q'"
      "n_parentId n = Some (n_id q')" "n_name n = y"
    by (rule resolve_snocE)
  have "q = q'"
    using valid_id_eq [OF v resolve_in [OF q(1) r] resolve_in [OF q'(1) r]] q(2) q'(2) by simp
  with snoc.IH [OF q(1)] q q' b show ?case by simp
qed

section \<open>Subtrees\<close>

inductive below :: "node list \<Rightarrow> uuid \<Rightarrow> uuid \<Rightarrow> bool" for tbl apex where
  below_top: "below tbl apex apex"
| below_child: "below tbl apex p \<Longrightarrow> c \<in> set tbl \<Longrightarrow> n_parentId c = Some p \<Longrightarrow> below tbl apex (n_id c)"

lemma below_rank: "below tbl apex i \<Longrightarrow> ranked h tbl \<Longrightarrow> h apex \<le> h i"
proof (induction rule: below.induct)
  case (below_child p c)
  then have "h p < h (n_id c)" by (auto simp: ranked_def)
  with below_child show ?case by simp
qed simp

lemma below_step:
  assumes d: "distinct (map n_id tbl)" and c: "c \<in> set tbl" "n_parentId c = Some p" "n_id c \<noteq> apex"
  shows "below tbl apex (n_id c) \<longleftrightarrow> below tbl apex p"
proof
  assume "below tbl apex (n_id c)"
  then show "below tbl apex p"
  proof cases
    case (below_child q e)
    then have "e = c" using d c(1) by (auto simp: distinct_map inj_on_def)
    with below_child c show ?thesis by simp
  qed (use c in auto)
qed (use c in \<open>auto intro: below_child\<close>)

text \<open>The path to a node of the subtree goes through the subtree's apex.\<close>

lemma below_prefix:
  assumes v: "validNodes tbl bl" and h: "ranked h tbl" and r: "r \<in> set tbl" and n: "n \<in> set tbl" "h (n_id r) < h (n_id n)"
    and "resolveFrom ns tbl (Some r) segs = Some f" and "below tbl (n_id n) (n_id f)"
  obtains pre suf where "segs = pre @ suf" "resolveFrom ns tbl (Some r) pre = Some n"
proof -
  have "\<exists>pre suf. segs = pre @ suf \<and> resolveFrom ns tbl (Some r) pre = Some n"
    using assms(6,7)
  proof (induction segs arbitrary: f rule: rev_induct)
    case Nil
    then have "f = r" by simp
    with below_rank [OF Nil.prems(2) h] n(2) show ?case by simp
  next
    case (snoc a segs)
    from snoc.prems(1) obtain q where q: "resolveFrom ns tbl (Some r) segs = Some q" "n_parentId f = Some (n_id q)" "f \<in> set tbl"
      by (rule resolve_snocE)
    show ?case
    proof (cases "n_id f = n_id n")
      case True
      with valid_id_eq [OF v q(3) n(1)] snoc.prems(1) show ?thesis
        by (intro exI [of _ "segs @ [a]"] exI [of _ "[]"]) simp
    next
      case False
      with below_step [OF valid_distinct [OF v] q(3,2)] snoc.prems(2) have "below tbl (n_id n) (n_id q)" by simp
      from snoc.IH [OF q(1) this] show ?thesis by (metis append_assoc)
    qed
  qed
  then show ?thesis using that by blast
qed

lemma resolve_through_directory:
  "resolveFrom ns tbl (Some n) suf = Some f \<Longrightarrow> n_type f = DIRECTORY \<Longrightarrow> n_type n = DIRECTORY"
  by (cases suf) (auto split: if_splits)

text \<open>The destination's parent is outside the source's subtree.\<close>

lemma destination_outside:
  assumes v: "validNodes tbl bl" and h: "ranked h tbl" and r: "r \<in> set tbl"
    and n: "resolveFrom ns tbl (Some r) src = Some n" "src \<noteq> []"
    and f: "resolveFrom ns tbl (Some r) (butlast fin) = Some f" "n_type f = DIRECTORY"
    and own: "\<not> ownSubtree n src fin"
  shows "\<not> below tbl (n_id n) (n_id f)"
proof
  assume b: "below tbl (n_id n) (n_id f)"
  have "n \<in> set tbl" by (rule resolve_in [OF n(1) r])
  from below_prefix [OF v h r this resolve_rank [OF h n] f(1) b]
  obtain pre suf where pre: "butlast fin = pre @ suf" "resolveFrom ns tbl (Some r) pre = Some n" .
  then have "pre = src" using resolve_inj [OF v h r] n(1) by blast
  moreover from f pre have "n_type n = DIRECTORY"
    using resolve_through_directory by (metis resolveFrom_appendSegs)
  moreover have "\<exists>rest. fin = src @ rest"
    using pre(1) \<open>pre = src\<close> by (cases fin rule: rev_cases) auto
  ultimately show False using own by (auto simp: ownSubtree_def)
qed

section \<open>What the placement knows\<close>

lemma lastSegment_snoc: "segs \<noteq> [] \<Longrightarrow> segs = butlast segs @ [lastSegment segs]"
  by (cases segs) (auto simp: lastSegment_def)

lemma lookup_path:
  assumes q: "resolveFrom ns tbl (Some r) (butlast segs) = Some q" "n_type q = DIRECTORY"
    and n: "findChild ns (n_id q) (lastSegment segs) tbl = Some n" and v: "validNodes tbl bl"
  shows "segs \<noteq> []" and "resolveFrom ns tbl (Some r) segs = Some n"
proof -
  have "rootShape n" "n_parentId n \<noteq> None" "n_name n = lastSegment segs"
    using findChild_SomeD [OF n] valid_row(2) [OF v] by auto
  then show ne: "segs \<noteq> []" by (auto simp: rootShape_def lastSegment_def)
  show "resolveFrom ns tbl (Some r) segs = Some n"
    using q n by (subst lastSegment_snoc [OF ne]) (simp add: resolveFrom_snoc)
qed

lemma resolveSource_path:
  assumes run: "resolveSource env ns rootId segs mark s = (Inr n, t)" and l: "ledger env s dn db df own"
    and ns: "ns = x_namespaceId s" and r: "r \<in> set (t_nodes s)" "n_id r = rootId" "n_type r = DIRECTORY"
  shows "segs \<noteq> []" and "resolveFrom ns (t_nodes t) (Some r) segs = Some n"
proof -
  from run obtain p s1 where walk: "lockParentChain env ns rootId segs False mark s = (Inr p, s1)"
    and look: "lockTargetNode ns p (lastSegment segs) s1 = (Inr (Some n), t)"
    unfolding resolveSource_def by (elim bindE) (auto split: option.splits simp: monad_simps)
  have root: "rootId \<in> n_id ` set (t_nodes s)" using r by auto
  note w = lockParentChain_ledger [OF walk l ns root]
  note k = lookup_ledger [OF look w(1) w(2) [symmetric]]
  from lockParentChain_spec(3) [OF walk r(2,3)] obtain q where
    q: "resolveFrom ns (t_nodes s1) (Some r) (butlast segs) = Some q" "n_id q = p" "n_type q = DIRECTORY" by blast
  have "findChild ns (n_id q) (lastSegment segs) (t_nodes t) = Some n" using k(3) q(2) by simp
  from lookup_path [OF _ q(3) this ledger_valid [OF k(1)]] q(1) k(5)
  show "segs \<noteq> []" "resolveFrom ns (t_nodes t) (Some r) segs = Some n" by simp_all
qed

lemma lockBothPaths_paths:
  assumes run: "lockBothPaths env ns rootId src dst parents mark s = (Inr (n, p), t)" and l: "ledger env s dn db df own"
    and ns: "ns = x_namespaceId s" and r: "r \<in> set (t_nodes s)" "n_id r = rootId" "n_type r = DIRECTORY"
  shows "src \<noteq> []" and "resolveFrom ns (t_nodes t) (Some r) src = Some n"
    and "\<exists>q. resolveFrom ns (t_nodes t) (Some r) (butlast dst) = Some q \<and> n_id q = p \<and> n_type q = DIRECTORY"
proof -
  have root: "rootId \<in> n_id ` set (t_nodes s)" using r by auto
  have "src \<noteq> [] \<and> resolveFrom ns (t_nodes t) (Some r) src = Some n \<and>
    (\<exists>q. resolveFrom ns (t_nodes t) (Some r) (butlast dst) = Some q \<and> n_id q = p \<and> n_type q = DIRECTORY)"
  proof (cases "compareSegments src dst \<le> 0")
    case True
    with run obtain s1 where a: "resolveSource env ns rootId src mark s = (Inr n, s1)"
      and b: "lockParentChain env ns rootId dst parents True s1 = (Inr p, t)"
      unfolding lockBothPaths_def by (auto elim!: bindE andThenE throwIfE retE)
    note a' = resolveSource_path [OF a l ns r]
    note b' = lockParentChain_spec [OF b r(2,3)]
    from b'(1) obtain new where "t_nodes t = t_nodes s1 @ new" by (rule grownE)
    with a' b'(3) show ?thesis by (auto simp: resolveFrom_append)
  next
    case False
    with run obtain s1 where a: "lockParentChain env ns rootId dst parents True s = (Inr p, s1)"
      and b: "resolveSource env ns rootId src mark s1 = (Inr n, t)"
      unfolding lockBothPaths_def by (auto elim!: bindE retE)
    note a' = lockParentChain_ledger [OF a l ns root] and g = lockParentChain_spec [OF a r(2,3)]
    note b' = resolveSource_spec [OF b a'(1) a'(2) [symmetric] grown_root [OF g(1) root]]
      resolveSource_path [OF b a'(1) a'(2) [symmetric] grown_keeps [OF g(1) r(1)] r(2,3)]
    from b'(4) obtain new where "t_nodes t = t_nodes s1 @ new" by (rule grownE)
    with g(3) b'(8,9) show ?thesis using resolveFrom_append by metis
  qed
  then show "src \<noteq> []" "resolveFrom ns (t_nodes t) (Some r) src = Some n"
    "\<exists>q. resolveFrom ns (t_nodes t) (Some r) (butlast dst) = Some q \<and> n_id q = p \<and> n_type q = DIRECTORY" by simp_all
qed

lemma placeAt_facts:
  assumes "placeAt env ns src dst exact n p target s = (Inr pl, t)"
  obtains (nested) q where "dst \<noteq> []" "target = Some q" "n_type q = DIRECTORY" "pl_parentId pl = n_id q"
      "pl_name pl = lastSegment src" "pl_segments pl = dst @ [lastSegment src]" "\<not> ownSubtree n src (pl_segments pl)"
      "findChild ns (n_id q) (lastSegment src) (t_nodes s) = None" "goodSegments (env_nfc env) (pl_segments pl)" "\<not> exact"
  | (root) "dst = []" "pl_parentId pl = p" "pl_name pl = lastSegment src" "pl_segments pl = [lastSegment src]"
      "\<not> ownSubtree n src (pl_segments pl)" "findChild ns p (lastSegment src) (t_nodes s) = None"
      "goodSegments (env_nfc env) (pl_segments pl)" "\<not> exact"
  | (plain) "dst \<noteq> []" "target = None" "pl_parentId pl = p" "pl_name pl = lastSegment dst" "pl_segments pl = dst"
      "\<not> ownSubtree n src dst" "goodSegments (env_nfc env) dst"
proof -
  define nest where "nest = (\<not> exact \<and> (dst = [] \<or> (case target of Some q \<Rightarrow> n_type q = DIRECTORY | None \<Rightarrow> False)))"
  define f where "f = (if nest \<and> dst \<noteq> [] then (case target of Some q \<Rightarrow> n_id q | None \<Rightarrow> p) else p)"
  define fin where "fin = (if nest then dst @ [lastSegment src] else dst)"
  from assms obtain s2 u v w s3 where ex: "\<not> (exact \<and> dst = [])" and good: "assertPathSegments (env_nfc env) fin = Inr u"
    and m: "(case target of Some q \<Rightarrow> if nest then markChanged (n_id q) True else ret () | None \<Rightarrow> ret ()) s = (Inr v, s2)"
    and own: "\<not> ownSubtree n src fin"
    and coll: "(if nest
         then bind (lockTargetNode ns f (if nest then lastSegment src else lastSegment dst)) (\<lambda>collision.
              throwIf (collision \<noteq> None) (alreadyExists (joinSegments fin)))
         else throwIf (target \<noteq> None) (alreadyExists (joinSegments dst))) s2 = (Inr w, s3)"
    and pl: "pl = \<lparr> pl_source = n, pl_parentId = f, pl_name = (if nest then lastSegment src else lastSegment dst),
      pl_segments = fin \<rparr>"
    unfolding placeAt_def Let_def nest_def [symmetric] f_def [symmetric] fin_def [symmetric]
    by (elim andThenE throwIfE liftRE retE) blast
  have "quiet (case target of Some q \<Rightarrow> if nest then markChanged (n_id q) True else ret () | None \<Rightarrow> ret ())"
    by (auto split: option.split)
  from quietD [OF this m] have c: "core s2 = core s" .
  have g: "goodSegments (env_nfc env) fin" using good by (simp add: assertPathSegments_iff)
  show ?thesis
  proof (cases nest)
    case True
    with coll obtain s4 where "lockTargetNode ns f (lastSegment src) s2 = (Inr None, s4)"
      by (auto elim!: bindE throwIfE)
    then have "findChild ns f (lastSegment src) (t_nodes s) = None"
      using lockTargetNode_result core_sel(1) [OF c] by metis
    with True own g pl show ?thesis
      using root nested by (cases "dst = []"; cases target) (auto simp: nest_def f_def fin_def)
  next
    case False
    with coll have "target = None" by (auto simp: monad_simps)
    with False own g pl ex show ?thesis
      using plain by (auto simp: nest_def f_def fin_def)
  qed
qed

text \<open>Where the source is, where it goes, and that nothing is there yet.\<close>

lemma placement_spec:
  assumes run: "resolveDestinationPlacement env ns rootId src dst parents mark exact s = (Inr pl, t)"
    and l: "ledger env s dn db df own" and ns: "ns = x_namespaceId s"
    and r: "r \<in> set (t_nodes s)" "n_id r = rootId" "n_type r = DIRECTORY"
  shows "ledger env t dn db df own" and "x_namespaceId t = ns" and "x_rootId t = x_rootId s" and "grown ns s t"
    and "pl_source pl \<in> set (t_nodes t)" and "n_namespaceId (pl_source pl) = ns" and "n_parentId (pl_source pl) \<noteq> None"
    and "src \<noteq> []" and "resolveFrom ns (t_nodes t) (Some r) src = Some (pl_source pl)"
    and "\<exists>f. resolveFrom ns (t_nodes t) (Some r) (butlast (pl_segments pl)) = Some f \<and> n_id f = pl_parentId pl \<and> n_type f = DIRECTORY"
    and "pl_segments pl \<noteq> []" and "last (pl_segments pl) = pl_name pl" and "\<not> ownSubtree (pl_source pl) src (pl_segments pl)"
    and "findChild ns (pl_parentId pl) (pl_name pl) (t_nodes t) = None" and "goodSegments (env_nfc env) (pl_segments pl)"
proof -
  from run obtain n p s1 target s2 where both: "lockBothPaths env ns rootId src dst parents mark s = (Inr (n, p), s1)"
    and c2: "core s2 = core s1"
    and tg: "target = (if lastSegment dst = [] then None else findChild ns p (lastSegment dst) (t_nodes s1))"
    and place: "placeAt env ns src dst exact n p target s2 = (Inr pl, t)" and c: "core t = core s1"
    by (rule placement_cases)
  have root: "rootId \<in> n_id ` set (t_nodes s)" using r by auto
  note b = lockBothPaths_spec [OF both l ns root] and pt = lockBothPaths_paths [OF both l ns r]
  have src: "pl_source pl = n" by (rule placeAt_source [OF place])
  note eqs = ledger_core [OF c] core_sel [OF c]
  from b show "ledger env t dn db df own" "x_namespaceId t = ns" "x_rootId t = x_rootId s"
    "pl_source pl \<in> set (t_nodes t)" "n_namespaceId (pl_source pl) = ns" "n_parentId (pl_source pl) \<noteq> None"
    by (simp_all add: eqs src)
  show "grown ns s t" by (rule grown_trans [OF b(4) grown_refl [OF c]])
  from pt show "src \<noteq> []" "resolveFrom ns (t_nodes t) (Some r) src = Some (pl_source pl)" by (simp_all add: eqs src)
  from pt(3) obtain q where q: "resolveFrom ns (t_nodes t) (Some r) (butlast dst) = Some q" "n_id q = p" "n_type q = DIRECTORY"
    by (auto simp: eqs)
  have empty: "findChild ns (n_id q) [] (t_nodes t) = None"
  proof (cases "findChild ns (n_id q) [] (t_nodes t)")
    case (Some x)
    note x = findChild_SomeD [OF Some]
    then have "rootShape x" using valid_row(2) [OF ledger_valid [OF b(1)], of x] by (simp add: eqs)
    with x show ?thesis by (simp add: rootShape_def)
  qed simp
  have "(\<exists>f. resolveFrom ns (t_nodes t) (Some r) (butlast (pl_segments pl)) = Some f \<and> n_id f = pl_parentId pl \<and> n_type f = DIRECTORY) \<and>
    pl_segments pl \<noteq> [] \<and> last (pl_segments pl) = pl_name pl \<and> \<not> ownSubtree n src (pl_segments pl) \<and>
    findChild ns (pl_parentId pl) (pl_name pl) (t_nodes t) = None \<and> goodSegments (env_nfc env) (pl_segments pl)"
    using place
  proof (cases rule: placeAt_facts)
    case (nested x)
    then have "findChild ns p (lastSegment dst) (t_nodes t) = Some x" using tg by (auto simp: eqs split: if_splits)
    with lookup_path(2) [OF q(1,3), of x] ledger_valid [OF b(1)] q(2)
    have "resolveFrom ns (t_nodes t) (Some r) dst = Some x" by (auto simp: eqs)
    with nested show ?thesis by (auto simp: eqs core_sel [OF c2])
  next
    case root
    with q show ?thesis by (auto simp: eqs core_sel [OF c2])
  next
    case plain
    then have "findChild ns p (lastSegment dst) (t_nodes t) = None" using tg empty q(2) by (auto simp: eqs split: if_splits)
    moreover have "last dst = lastSegment dst" using plain(1) by (cases dst) (auto simp: lastSegment_def)
    ultimately show ?thesis using plain q by auto
  qed
  then show "\<exists>f. resolveFrom ns (t_nodes t) (Some r) (butlast (pl_segments pl)) = Some f \<and> n_id f = pl_parentId pl \<and> n_type f = DIRECTORY"
    "pl_segments pl \<noteq> []" "last (pl_segments pl) = pl_name pl" "\<not> ownSubtree (pl_source pl) src (pl_segments pl)"
    "findChild ns (pl_parentId pl) (pl_name pl) (t_nodes t) = None" "goodSegments (env_nfc env) (pl_segments pl)"
    by (simp_all add: src)
qed

lemma moved_grounded:
  assumes l: "ledger env s dn db df own" and r: "r \<in> set (t_nodes s)"
    and n: "resolveFrom ns (t_nodes s) (Some r) src = Some n" "src \<noteq> []"
    and f: "resolveFrom ns (t_nodes s) (Some r) (butlast fin) = Some f" "n_type f = DIRECTORY"
    and own: "\<not> ownSubtree n src fin"
    and q: "n_id q = n_id n" "n_parentId q = Some (n_id f)"
  shows "grounded (updateRows (\<lambda>x. n_id x = n_id n) (\<lambda>_. q) (t_nodes s))"
proof -
  note v = ledger_valid [OF l]
  from ledger_grounded [OF l] obtain h where h: "ranked h (t_nodes s)" by (auto simp: grounded_def)
  have nn: "n \<in> set (t_nodes s)" by (rule resolve_in [OF n(1) r])
  show ?thesis
  proof (rule grounded_move [OF ledger_grounded [OF l] valid_distinct [OF v] nn q, of "{i. below (t_nodes s) (n_id n) i}"])
    show "n_id n \<in> {i. below (t_nodes s) (n_id n) i}" by (simp add: below_top)
    show "n_id f \<notin> {i. below (t_nodes s) (n_id n) i}"
      using destination_outside [OF v h r n f own] by simp
    show "n_id c \<in> {i. below (t_nodes s) (n_id n) i} \<longleftrightarrow> p \<in> {i. below (t_nodes s) (n_id n) i}"
      if "c \<in> set (t_nodes s)" "c \<noteq> n" "n_parentId c = Some p" for c p
      using that valid_id_eq [OF v that(1) nn] below_step [OF valid_distinct [OF v] that(1,3)] by auto
  qed
qed

lemma moveNode_ledger:
  assumes run: "moveNode env ns rootId src dst parents limit exact s = (Inr r, t)" and l: "books env s"
    and ns: "ns = x_namespaceId s" and r: "root \<in> set (t_nodes s)" "n_id root = rootId" "n_type root = DIRECTORY"
  shows "books env t" and "x_namespaceId t = ns" and "x_rootId t = x_rootId s"
proof -
  from run [unfolded moveNode_def Let_def] obtain pl s1 ds s2 s3 s4 s5 u1 u2 u3 u4 saved where
    place: "resolveDestinationPlacement env ns rootId src dst parents True exact s = (Inr pl, s1)"
    and track: "trackChangeFeedBefore (map n_id (ds :: node list)) s1 = (Inr u1, s2)"
    and save: "saveNode env ((pl_source pl)\<lparr> n_parentId := Some (pl_parentId pl), n_name := pl_name pl \<rparr>) s2 = (Inr saved, s3)"
    and rec: "recordMove (pl_source pl) (pl_parentId pl) s3 = (Inr u2, s4)"
    and m: "markChanged (n_id saved) False s4 = (Inr u3, s5)"
      "forEach ds (\<lambda>d. markChanged (n_id d) True) s5 = (Inr u4, t)"
    by (elim bindE andThenE getsE liftRE retE throwIfE) blast
  define n where "n = pl_source pl"
  define n' where "n' = n\<lparr> n_parentId := Some (pl_parentId pl), n_name := pl_name pl \<rparr>"
  note save = save [folded n_def, folded n'_def] and rec = rec [folded n_def]
  note b = placement_spec [OF place l ns r]
  note c2 = quietD [OF quiet_track track]
  have l2: "books env s2" and n: "n \<in> set (t_nodes s2)" and ns2: "x_namespaceId s2 = ns" and r2: "x_rootId s2 = x_rootId s"
    using b by (simp_all add: ledger_core [OF c2] core_sel [OF c2] n_def)
  have r': "root \<in> set (t_nodes s2)" using grown_keeps [OF b(4) r(1)] by (simp add: core_sel [OF c2])
  from b(10) obtain f where f: "resolveFrom ns (t_nodes s2) (Some root) (butlast (pl_segments pl)) = Some f"
      "n_id f = pl_parentId pl" "n_type f = DIRECTORY" by (auto simp: core_sel [OF c2])
  have g: "grounded (updateRows (\<lambda>x. n_id x = n_id n') (\<lambda>_. q) (t_nodes s2))"
    if "n_id q = n_id n'" "n_parentId q = n_parentId n'" for q
    using moved_grounded [OF l2 r' _ b(8) f(1,3), of n q] b(9,13) that f(2)
    by (simp add: core_sel [OF c2] n_def n'_def)
  have id: "n_id n = n_id n'" by (simp add: n'_def)
  note sv = saveNode_ledger [OF save l2 n id _ _ _ g] and row = saveNode_row [OF save n id]
  have l3: "ledger env s3 0 0 (\<lambda>i. fileChild i n - fileChild i n') (\<lambda>_. 0)"
  proof -
    have "liveByte ns n' = liveByte ns n" "liveNode ns n' = liveNode ns n" "nodeRef i n' = nodeRef i n" for i
      using b(7) by (simp_all add: n_def n'_def weights cong: if_cong)
    with sv(1) ns2 show ?thesis by (simp add: n'_def)
  qed
  have past: "env_uuid env j \<noteq> i" if "x_next s3 \<le> j" "i = pl_parentId pl \<or> n_parentId n = Some i" for j i
    using that(2)
  proof
    assume "i = pl_parentId pl"
    with row(1,2) have "n_parentId saved = Some i" by (simp add: n'_def)
    with ledger_valid [OF l3] row(1) obtain x where x: "x \<in> set (t_nodes s3)" "n_id x = i" by (rule valid_parent)
    from ledger_past [OF l3 x(1) that(1)] x(2) show ?thesis by simp
  next
    assume "n_parentId n = Some i"
    with ledger_valid [OF l2] n obtain x where x: "x \<in> set (t_nodes s2)" "n_id x = i" by (rule valid_parent)
    from ledger_past [OF l2 x(1), of j] x(2) that(1) row(7) show ?thesis by simp
  qed
  have l4: "books env s4" "x_namespaceId s4 = x_namespaceId s3" "x_rootId s4 = x_rootId s3"
    by (rule recordMove_ledger [OF rec l3 [unfolded n'_def]]; use past in metis)+
  have c5: "core t = core s4"
    using quietD [OF quiet_markChanged m(1)] quietD [OF quiet_forEach m(2)] by simp
  show "books env t" "x_namespaceId t = ns" "x_rootId t = x_rootId s"
    using l4 row ns2 r2 by (simp_all add: ledger_core [OF c5] core_sel [OF c5])
qed

end
