(* ===== verification/Commit.thy ===== *)
theory Commit
  imports Moving
begin

text \<open>
  The end of a mutation: the deltas go into the counter columns, the quota is enforced, versions
  rise and the change feed is written. A transaction whose books balance commits a database whose
  counters are exact.
\<close>

definition settled :: "tx \<Rightarrow> tx" where
  "settled s = s\<lparr> x_liveNodeDelta := 0, x_liveFileByteDelta := 0, x_folderFileDeltas := [] \<rparr>"

lemma books_settled:
  "books env (settled s) \<longleftrightarrow> consistent (x_namespaceId s) (x_db s) \<and> freshIds env (x_next s) (x_db s)"
  by (auto simp: ledger_def settled_def consistent_def folderDelta_def)

lemma books_init:
  assumes "consistent ns d" and "freshIds env k d"
  shows "books env (initTx ns rootId feed d k)"
  using assms by (auto simp: initTx_def ledger_def consistent_def folderDelta_def)

section \<open>Counters\<close>

lemma findNamespace_SomeD: "findNamespace ns tbl = Some z \<Longrightarrow> z \<in> set tbl \<and> ns_id z = ns"
  by (auto simp: findNamespace_def dest: findRow_SomeD)

lemma namespace_unique:
  assumes "distinct (map ns_id tbl)" and "findNamespace ns tbl = Some z" and "y \<in> set tbl" and "ns_id y = ns"
  shows "y = z"
  using assms findNamespace_SomeD [OF assms(2)] by (auto simp: distinct_map inj_on_def)

lemma getNamespaceOrFail_iff [monad_simps]:
  "getNamespaceOrFail ns s = (Inr z, t) \<longleftrightarrow> findNamespace ns (namespaces (x_db s)) = Some z \<and> t = s"
  by (auto simp: getNamespaceOrFail_def bind_def gets_def throw_def ret_def split: option.splits)

lemma updateNamespace_run [simp]:
  "updateNamespace ns f s = (Inr (), s\<lparr> x_db := (x_db s)\<lparr>
     namespaces := updateRows (\<lambda>n. ns_id n = ns) f (namespaces (x_db s)) \<rparr> \<rparr>)"
  by (simp add: updateNamespace_def modify_def)

text \<open>What an update of the namespace's row has to establish; nothing else refers to its counters.\<close>

lemma ledger_namespace:
  assumes l: "ledger env s dn db df own" and z: "findNamespace (x_namespaceId s) (namespaces (x_db s)) = Some z"
    and f: "\<And>n. ns_id (f n) = ns_id n"
      "ns_retainedTrashNodeCount (f z) = ns_retainedTrashNodeCount z" "ns_retainedTrashByteCount (f z) = ns_retainedTrashByteCount z"
  shows "ledger env (s\<lparr> x_db := (x_db s)\<lparr> namespaces := updateRows (\<lambda>n. ns_id n = x_namespaceId s) f (namespaces (x_db s)) \<rparr> \<rparr>)
    (dn + ns_liveNodeCount (f z) - ns_liveNodeCount z) (db + ns_liveFileByteCount (f z) - ns_liveFileByteCount z) df own"
proof -
  let ?tbl = "namespaces (x_db s)" and ?ns = "x_namespaceId s"
  have d: "distinct (map ns_id ?tbl)" using l by (simp add: ledger_def rowsOk_def)
  have row: "y = f z" if "y \<in> set (updateRows (\<lambda>n. ns_id n = ?ns) f ?tbl)" "ns_id y = ?ns" for y
    using that f(1) namespace_unique [OF d z] by (auto simp: set_updateRows split: if_splits)
  have zz: "z \<in> set ?tbl" "ns_id z = ?ns" using findNamespace_SomeD [OF z] by auto
  have "distinct (map ns_id (updateRows (\<lambda>n. ns_id n = ?ns) f ?tbl))"
    using d f(1) by (intro namespaceKey.distinct_update) auto
  moreover have "ns_liveNodeCount z = weigh (liveNode ?ns) (t_nodes s) + (dn - x_liveNodeDelta s)"
      "ns_liveFileByteCount z = weigh (liveByte ?ns) (t_nodes s) + (db - x_liveFileByteDelta s)"
      "trashOk ?ns (x_db s)"
    using l zz by (auto simp: ledger_def namespaceOk_def)
  ultimately show ?thesis
    using l row zz f(2,3)
    by (auto simp: ledger_def rowsOk_def namespaceOk_def foldersOk_def refsOk_def refs_def trashOk_def)
qed

lemma applyLiveNodes_ledger:
  assumes run: "applyLiveNodes env ns z (x_liveNodeDelta s) s = (Inr u, t)" and l: "books env s" and ns: "ns = x_namespaceId s"
    and z: "findNamespace ns (namespaces (x_db s)) = Some z"
  shows "books env (t\<lparr> x_liveNodeDelta := 0 \<rparr>)" and "x_folderFileDeltas t = x_folderFileDeltas s"
    and "x_liveFileByteDelta t = x_liveFileByteDelta s" and "x_namespaceId t = ns" and "t_nodes t = t_nodes s"
proof -
  have "books env (t\<lparr> x_liveNodeDelta := 0 \<rparr>) \<and> x_folderFileDeltas t = x_folderFileDeltas s \<and>
    x_liveFileByteDelta t = x_liveFileByteDelta s \<and> x_namespaceId t = ns \<and> t_nodes t = t_nodes s"
  proof (cases "x_liveNodeDelta s = 0")
    case True
    then have "t = s" using run by (simp add: applyLiveNodes_def monad_simps)
    moreover have "s\<lparr> x_liveNodeDelta := 0 \<rparr> = s" using True by simp
    ultimately show ?thesis using l ns by simp
  next
    case False
    let ?f = "\<lambda>n. n\<lparr> ns_liveNodeCount := ns_liveNodeCount z + x_liveNodeDelta s \<rparr>"
    from False run have t: "t = s\<lparr> x_db := (x_db s)\<lparr>
        namespaces := updateRows (\<lambda>n. ns_id n = x_namespaceId s) ?f (namespaces (x_db s)) \<rparr> \<rparr>"
      by (auto simp: applyLiveNodes_def Let_def monad_simps ns)
    from ledger_namespace [OF l z [unfolded ns], of ?f] have "ledger env t (x_liveNodeDelta s) 0 (\<lambda>_. 0) (\<lambda>_. 0)"
      by (simp add: t)
    then have "books env (t\<lparr> x_liveNodeDelta := 0 \<rparr>)" by (simp add: ledger_def t)
    then show ?thesis using ns by (simp add: t)
  qed
  then show "books env (t\<lparr> x_liveNodeDelta := 0 \<rparr>)" "x_folderFileDeltas t = x_folderFileDeltas s"
    "x_liveFileByteDelta t = x_liveFileByteDelta s" "x_namespaceId t = ns" "t_nodes t = t_nodes s" by simp_all
qed

text \<open>One folder: its row takes the delta, or, when the folder is gone, nobody misses it.\<close>

lemma ledger_folder:
  assumes l: "ledger env s dn db df own" and q: "q \<in> set (t_nodes s)" "n_id q = p"
  shows "ledger env (withNodes s (updateRows (\<lambda>n. n_id n = p) (\<lambda>n. n\<lparr> n_childFileCount := n_childFileCount q + k \<rparr>) (t_nodes s)))
    dn db (df(p := df p + k)) own"
proof -
  let ?f = "\<lambda>n :: node. n\<lparr> n_childFileCount := n_childFileCount q + k \<rparr>"
  let ?new = "updateRows (\<lambda>n. n_id n = p) ?f (t_nodes s)"
  note v = ledger_valid [OF l]
  have w: "weigh (liveNode ns) ?new = weigh (liveNode ns) (t_nodes s)"
    "weigh (liveByte ns) ?new = weigh (liveByte ns) (t_nodes s)"
    "weigh (fileChild i) ?new = weigh (fileChild i) (t_nodes s)"
    "weigh (nodeRef b) ?new = weigh (nodeRef b) (t_nodes s)" for ns i b
    by (auto intro!: weigh_update_same simp: weights cong: if_cong)
  have row: "\<exists>n\<in>set (t_nodes s). n_id x = n_id n \<and> n_namespaceId x = n_namespaceId n \<and> n_type x = n_type n \<and>
      n_childFileCount x = n_childFileCount n + (if n_id n = p then k else 0)" if "x \<in> set ?new" for x
  proof -
    from that obtain n where n: "n \<in> set (t_nodes s)" "x = (if n_id n = p then ?f n else n)"
      by (auto simp: set_updateRows)
    have "n = q" if "n_id n = p" using valid_id_eq [OF v n(1) q(1)] that q(2) by simp
    with n show ?thesis by (intro bexI [of _ n]) auto
  qed
  have g: "grounded ?new" by (rule grounded_update [OF ledger_grounded [OF l]]) auto
  have vn: "validNodes ?new (t_blobs s)" by (rule valid_update [OF v]) auto
  have fo: "foldersOk (x_namespaceId s) ((x_db s)\<lparr> nodes := ?new \<rparr>) (\<lambda>i. (df(p := df p + k)) i - folderDelta (x_folderFileDeltas s) i)"
    unfolding foldersOk_def
  proof (intro ballI impI)
    fix x assume xin: "x \<in> set (nodes ((x_db s)\<lparr> nodes := ?new \<rparr>))" and x: "n_namespaceId x = x_namespaceId s" "n_type x = DIRECTORY"
    from xin have "x \<in> set ?new" by simp
    from row [OF this] obtain n where n: "n \<in> set (t_nodes s)" "n_id x = n_id n" "n_namespaceId x = n_namespaceId n" "n_type x = n_type n"
      "n_childFileCount x = n_childFileCount n + (if n_id n = p then k else 0)" by blast
    with x l have "n_childFileCount n = weigh (fileChild (n_id n)) (t_nodes s) + (df (n_id n) - folderDelta (x_folderFileDeltas s) (n_id n))"
      by (auto simp: ledger_def foldersOk_def)
    with n show "n_childFileCount x = weigh (fileChild (n_id x)) (nodes ((x_db s)\<lparr> nodes := ?new \<rparr>))
        + ((df(p := df p + k)) (n_id x) - folderDelta (x_folderFileDeltas s) (n_id x))"
      by (simp add: w)
  qed
  have fresh: "freshIds env (x_next s) ((x_db s)\<lparr> nodes := ?new \<rparr>)"
    using l row by (fastforce simp: ledger_def freshIds_def)
  have "\<forall>j\<ge>x_next s. (df(p := df p + k)) (env_uuid env j) = 0"
    using l q by (auto simp: ledger_def freshIds_def)
  with l vn g fo fresh show ?thesis
    by (auto simp: ledger_def rowsOk_def namespaceOk_def refsOk_def refs_def trashOk_def w)
qed

lemma applyFolderDelta_ledger:
  assumes run: "applyFolderDelta ns limit (p, k) s = (Inr u, t)" and l: "ledger env s dn db df own" and ns: "ns = x_namespaceId s"
  shows "ledger env t dn db (df(p := df p + k)) own \<or>
      (\<forall>q\<in>set (t_nodes s). n_id q = p \<longrightarrow> n_namespaceId q = ns \<longrightarrow> n_type q \<noteq> DIRECTORY) \<and> t = s"
    and "x_namespaceId t = ns" and "x_folderFileDeltas t = x_folderFileDeltas s" and "x_next t = x_next s"
    and "x_liveFileByteDelta t = x_liveFileByteDelta s" and "x_liveNodeDelta t = x_liveNodeDelta s"
    and "n_id ` set (t_nodes t) = n_id ` set (t_nodes s)"
proof -
  let ?find = "findRow (\<lambda>n. n_id n = p \<and> n_namespaceId n = ns \<and> n_type n = DIRECTORY) (t_nodes s)"
  have "(ledger env t dn db (df(p := df p + k)) own \<or>
      (\<forall>q\<in>set (t_nodes s). n_id q = p \<longrightarrow> n_namespaceId q = ns \<longrightarrow> n_type q \<noteq> DIRECTORY) \<and> t = s) \<and>
    x_namespaceId t = ns \<and> x_folderFileDeltas t = x_folderFileDeltas s \<and> x_next t = x_next s \<and>
    x_liveFileByteDelta t = x_liveFileByteDelta s \<and> x_liveNodeDelta t = x_liveNodeDelta s \<and>
    n_id ` set (t_nodes t) = n_id ` set (t_nodes s)"
  proof (cases ?find)
    case None
    with run have "t = s" by (auto simp: applyFolderDelta_def monad_simps split: if_splits)
    moreover have "\<forall>q\<in>set (t_nodes s). n_id q = p \<longrightarrow> n_namespaceId q = ns \<longrightarrow> n_type q \<noteq> DIRECTORY"
      using None by (auto simp: findRow_None_iff)
    ultimately show ?thesis using ns by simp
  next
    case (Some q)
    then have q: "q \<in> set (t_nodes s)" "n_id q = p" by (auto dest: findRow_SomeD)
    from run Some have t: "t = withNodes s (updateRows (\<lambda>n. n_id n = p)
        (\<lambda>n. n\<lparr> n_childFileCount := n_childFileCount q + k \<rparr>) (t_nodes s))"
      by (auto simp: applyFolderDelta_def Let_def monad_simps)
    moreover have "n_id ` set (updateRows (\<lambda>n. n_id n = p) (\<lambda>n. n\<lparr> n_childFileCount := n_childFileCount q + k \<rparr>) (t_nodes s))
        = n_id ` set (t_nodes s)"
      unfolding set_updateRows image_image by (rule image_cong) auto
    ultimately show ?thesis using ledger_folder [OF l q, of k] ns by simp
  qed
  then show "ledger env t dn db (df(p := df p + k)) own \<or>
      (\<forall>q\<in>set (t_nodes s). n_id q = p \<longrightarrow> n_namespaceId q = ns \<longrightarrow> n_type q \<noteq> DIRECTORY) \<and> t = s"
    "x_namespaceId t = ns" "x_folderFileDeltas t = x_folderFileDeltas s" "x_next t = x_next s"
    "x_liveFileByteDelta t = x_liveFileByteDelta s" "x_liveNodeDelta t = x_liveNodeDelta s"
    "n_id ` set (t_nodes t) = n_id ` set (t_nodes s)" by simp_all
qed

lemma ledger_cong_folder:
  assumes "ledger env s dn db df own"
    and "\<And>q. q \<in> set (t_nodes s) \<Longrightarrow> n_namespaceId q = x_namespaceId s \<Longrightarrow> n_type q = DIRECTORY \<Longrightarrow> df' (n_id q) = df (n_id q)"
    and "\<And>j. x_next s \<le> j \<Longrightarrow> df' (env_uuid env j) = 0"
  shows "ledger env s dn db df' own"
  using assms by (auto simp: ledger_def foldersOk_def)

text \<open>The loop over the recorded deltas adds each of them to its folder.\<close>

lemma applyFolders_ledger:
  assumes "forEach deltas (applyFolderDelta ns limit) s = (Inr u, t)" and "ledger env s dn db df own"
    and "ns = x_namespaceId s" and "distinct (map fst deltas)"
    and "\<And>j. x_next s \<le> j \<Longrightarrow> env_uuid env j \<notin> fst ` set deltas"
  shows "ledger env t dn db (\<lambda>i. df i + folderDelta deltas i) own \<and> x_namespaceId t = ns \<and>
    x_liveFileByteDelta t = x_liveFileByteDelta s \<and> x_liveNodeDelta t = x_liveNodeDelta s \<and>
    x_folderFileDeltas t = x_folderFileDeltas s"
  using assms
proof (induction deltas arbitrary: s df)
  case Nil
  then show ?case by (simp add: monad_simps folderDelta_def)
next
  case (Cons x deltas)
  obtain p k where x: "x = (p, k)" by force
  from Cons.prems(1) obtain v s1 where step: "applyFolderDelta ns limit (p, k) s = (Inr v, s1)"
    and rest: "forEach deltas (applyFolderDelta ns limit) s1 = (Inr u, t)"
    by (auto simp: x monad_simps)
  note f = applyFolderDelta_ledger [OF step Cons.prems(2,3)]
  have "ledger env s1 dn db (df(p := df p + k)) own"
    using f(1)
  proof
    assume "(\<forall>q\<in>set (t_nodes s). n_id q = p \<longrightarrow> n_namespaceId q = ns \<longrightarrow> n_type q \<noteq> DIRECTORY) \<and> s1 = s"
    then have s1: "s1 = s" and no: "\<forall>q\<in>set (t_nodes s). n_id q = p \<longrightarrow> n_namespaceId q = ns \<longrightarrow> n_type q \<noteq> DIRECTORY"
      by auto
    have "(df(p := df p + k)) (env_uuid env j) = 0" if "x_next s \<le> j" for j
      using Cons.prems(2) Cons.prems(5) [OF that] that by (auto simp: x ledger_def)
    then show ?thesis
      unfolding s1 by (intro ledger_cong_folder [OF Cons.prems(2)]) (use no Cons.prems(3) in auto)
  qed
  from Cons.IH [OF rest this f(2) [symmetric]] Cons.prems(4,5) f(3-6)
  have ih: "ledger env t dn db (\<lambda>i. (df(p := df p + k)) i + folderDelta deltas i) own \<and> x_namespaceId t = ns \<and>
    x_liveFileByteDelta t = x_liveFileByteDelta s \<and> x_liveNodeDelta t = x_liveNodeDelta s \<and>
    x_folderFileDeltas t = x_folderFileDeltas s"
    by (simp add: x)
  have "p \<notin> fst ` set deltas" using Cons.prems(4) by (simp add: x)
  then have "(\<lambda>i. (df(p := df p + k)) i + folderDelta deltas i) = (\<lambda>i. df i + folderDelta (x # deltas) i)"
    using map_of_fst [of p deltas] by (auto simp: fun_eq_iff x folderDelta_def)
  with ih show ?case by simp
qed

lemma folderDelta_Nil [simp]: "folderDelta [] i = 0"
  by (simp add: folderDelta_def)

lemma folderDelta_nonzero:
  "distinct (map fst m) \<Longrightarrow> folderDelta (filter (\<lambda>(_, d). d \<noteq> 0) m) i = folderDelta m i"
  by (induction m) (auto simp: folderDelta_def map_of_eq_None_iff [symmetric] split: option.splits dest: map_of_SomeD)

lemma applyNodeCounters_ledger:
  assumes run: "applyNodeCounters env s = (Inr u, t)" and l: "books env s"
  shows "books env (t\<lparr> x_liveNodeDelta := 0, x_folderFileDeltas := [] \<rparr>)" and "x_namespaceId t = x_namespaceId s"
    and "x_liveFileByteDelta t = x_liveFileByteDelta s"
proof -
  define deltas where "deltas = filter (\<lambda>(_, d). d \<noteq> 0) (x_folderFileDeltas s)"
  have dist: "distinct (map fst (x_folderFileDeltas s))" using l by (simp add: ledger_def)
  then have dd: "distinct (map fst deltas)" by (simp add: deltas_def distinct_map_filter)
  have fd: "folderDelta deltas i = folderDelta (x_folderFileDeltas s) i" for i
    unfolding deltas_def by (rule folderDelta_nonzero [OF dist])
  have past: "env_uuid env j \<notin> fst ` set deltas" if "x_next s \<le> j" for j
    using l that by (auto simp: ledger_def deltas_def)
  have "books env (t\<lparr> x_liveNodeDelta := 0, x_folderFileDeltas := [] \<rparr>) \<and> x_namespaceId t = x_namespaceId s \<and>
    x_liveFileByteDelta t = x_liveFileByteDelta s"
  proof (cases "deltas = [] \<and> x_liveNodeDelta s = 0")
    case True
    then have "t = s" using run by (simp add: applyNodeCounters_def Let_def deltas_def [symmetric] monad_simps)
    moreover have "folderDelta (x_folderFileDeltas s) i = 0" for i using True fd [of i] by (simp add: folderDelta_def)
    ultimately show ?thesis using l True by (auto simp: ledger_def folderDelta_def)
  next
    case False
    with run obtain z s1 v where z: "findNamespace (x_namespaceId s) (namespaces (x_db s)) = Some z"
      and a: "applyLiveNodes env (x_namespaceId s) z (x_liveNodeDelta s) s = (Inr v, s1)"
      and b: "forEach deltas (applyFolderDelta (x_namespaceId s) (effectiveLimit (ns_maxFilesPerFolder z)
        (env_maxFilesPerFolder env) (env_defaultMaxFilesPerFolder env))) s1 = (Inr u, t)"
      by (auto simp: applyNodeCounters_def Let_def deltas_def [symmetric] monad_simps)
    note a' = applyLiveNodes_ledger [OF a l refl z]
    have n1: "x_next s1 = x_next s"
      using a by (auto simp: applyLiveNodes_def Let_def monad_simps split: if_splits)
    have l1: "ledger env s1 (x_liveNodeDelta s1) 0 (\<lambda>_. 0) (\<lambda>_. 0)"
      using a'(1) by (simp add: ledger_def)
    from applyFolders_ledger [OF b l1 a'(4) [symmetric] dd] past n1
    have lt: "ledger env t (x_liveNodeDelta s1) 0 (\<lambda>i. folderDelta deltas i) (\<lambda>_. 0)" "x_namespaceId t = x_namespaceId s"
        "x_liveFileByteDelta t = x_liveFileByteDelta s1" "x_liveNodeDelta t = x_liveNodeDelta s1"
        "x_folderFileDeltas t = x_folderFileDeltas s1" by auto
    then show ?thesis using a'(2,3) by (auto simp: ledger_def fd)
  qed
  then show "books env (t\<lparr> x_liveNodeDelta := 0, x_folderFileDeltas := [] \<rparr>)" "x_namespaceId t = x_namespaceId s"
    "x_liveFileByteDelta t = x_liveFileByteDelta s" by simp_all
qed

section \<open>Quota\<close>

lemma applyLogicalByteQuota_ledger:
  assumes run: "applyLogicalByteQuota env s = (Inr u, t)"
    and l: "books env (s\<lparr> x_liveNodeDelta := 0, x_folderFileDeltas := [] \<rparr>)"
  shows "books env (settled t)" and "x_namespaceId t = x_namespaceId s"
proof -
  let ?s = "s\<lparr> x_liveNodeDelta := 0, x_folderFileDeltas := [] \<rparr>"
  have "books env (settled t) \<and> x_namespaceId t = x_namespaceId s"
  proof (cases "x_liveFileByteDelta s = 0")
    case True
    then have "t = s"
      using run by (auto simp: applyLogicalByteQuota_def Let_def monad_simps split: if_splits)
    with True l show ?thesis by (auto simp: ledger_def settled_def)
  next
    case False
    with run obtain z where z: "findNamespace (x_namespaceId s) (namespaces (x_db s)) = Some z"
      and t: "t = s\<lparr> x_db := (x_db s)\<lparr> namespaces := updateRows (\<lambda>n. ns_id n = x_namespaceId s)
        (\<lambda>n. n\<lparr> ns_liveFileByteCount := ns_liveFileByteCount z + x_liveFileByteDelta s \<rparr>) (namespaces (x_db s)) \<rparr> \<rparr>"
      by (auto simp: applyLogicalByteQuota_def Let_def monad_simps split: if_splits)
    from ledger_namespace [OF l, of z "\<lambda>n. n\<lparr> ns_liveFileByteCount := ns_liveFileByteCount z + x_liveFileByteDelta s \<rparr>"] z
    show ?thesis by (auto simp: ledger_def settled_def t)
  qed
  then show "books env (settled t)" "x_namespaceId t = x_namespaceId s" by simp_all
qed

section \<open>Versions and the change feed\<close>

lemma settled_touch:
  assumes "books env (settled s)"
    and "\<And>n. n_id (f n) = n_id n \<and> n_namespaceId (f n) = n_namespaceId n \<and> n_parentId (f n) = n_parentId n \<and>
      n_type (f n) = n_type n \<and> n_name (f n) = n_name n \<and> n_blobId (f n) = n_blobId n \<and> n_size (f n) = n_size n \<and>
      n_childFileCount (f n) = n_childFileCount n"
  shows "books env (settled (withNodes s (updateRows P f (t_nodes s))))"
proof -
  have "settled (withNodes s (updateRows P f (t_nodes s))) = withNodes (settled s) (updateRows P f (t_nodes (settled s)))"
    by (simp add: settled_def withNodes_def)
  with ledger_touch [OF assms] show ?thesis by simp
qed

lemma bumpChunk_settled:
  assumes "bumpChunk env ids s = (Inr u, t)" and "books env (settled s)"
  shows "books env (settled t) \<and> x_namespaceId t = x_namespaceId s"
  using settled_touch [OF assms(2)] assms(1) by (auto simp: bumpChunk_def Let_def monad_simps)

lemma bump_settled:
  assumes run: "bumpAndReadChangedNodes env s = (Inr r, t)" and l: "books env (settled s)"
  shows "books env (settled t)" and "x_namespaceId t = x_namespaceId s"
proof -
  from run obtain u s1 where loop: "forEach (chunks 500 (map fst (filter snd (x_changed s)))) (bumpChunk env) s = (Inr u, s1)"
    and t: "t = s1"
    by (auto simp: bumpAndReadChangedNodes_def monad_simps)
  have "books env (settled t) \<and> x_namespaceId t = x_namespaceId s"
    unfolding t
    by (rule forEach_invariant [OF _ loop]) (use l bumpChunk_settled in fastforce)+
  then show "books env (settled t)" "x_namespaceId t = x_namespaceId s" by simp_all
qed

lemma append_db:
  assumes "appendChangeFeedEvents env ns before ids s = (Inr u, t)"
  shows "x_db t = (x_db s)\<lparr> events := events (x_db t), feedStates := feedStates (x_db t) \<rparr>"
    and "x_namespaceId t = x_namespaceId s" and "x_next s \<le> x_next t"
  using assms by (auto simp: appendChangeFeedEvents_def Let_def monad_simps split: if_splits option.splits)

lemma consistent_feed [simp]: "consistent ns (d\<lparr> events := evs, feedStates := fs \<rparr>) = consistent ns d"
  by (simp add: consistent_def rowsOk_def namespaceOk_def foldersOk_def refsOk_def refs_def trashOk_def)

lemma freshIds_mono: "freshIds env k d \<Longrightarrow> k \<le> j \<Longrightarrow> freshIds env j d"
  by (auto simp: freshIds_def)

lemma commitMutation_consistent:
  assumes run: "commitMutation env v (\<lambda>_. ret ()) s = (Inr r, t)" and l: "books env s"
  shows "consistent (x_namespaceId s) (x_db t)" and "freshIds env (x_next t) (x_db t)"
proof -
  from run obtain s1 s2 s3 u1 u2 u3 aff where
    a: "applyNodeCounters env s = (Inr u1, s1)" "applyLogicalByteQuota env s1 = (Inr u2, s2)"
      "bumpAndReadChangedNodes env s2 = (Inr aff, s3)"
    and feed: "(case x_feedBefore s3 of None \<Rightarrow> ret ()
        | Some before \<Rightarrow> appendChangeFeedEvents env (x_namespaceId s3) before (map fst (x_changed s3))) s3 = (Inr u3, t)"
    unfolding commitMutation_def by (elim monad_elims) blast
  note c = applyNodeCounters_ledger [OF a(1) l]
  note q = applyLogicalByteQuota_ledger [OF a(2) c(1)]
  note b = bump_settled [OF a(3) q(1)]
  have s3: "consistent (x_namespaceId s3) (x_db s3)" "freshIds env (x_next s3) (x_db s3)"
    using b(1) by (simp_all add: books_settled)
  have ns: "x_namespaceId s3 = x_namespaceId s" using b(2) q(2) c(2) by simp
  have "consistent (x_namespaceId s3) (x_db t) \<and> freshIds env (x_next t) (x_db t)"
  proof (cases "x_feedBefore s3")
    case None
    with feed s3 show ?thesis by (simp add: monad_simps)
  next
    case (Some before)
    with feed have "appendChangeFeedEvents env (x_namespaceId s3) before (map fst (x_changed s3)) s3 = (Inr u3, t)" by simp
    note f = append_db [OF this]
    have "consistent (x_namespaceId s3) (x_db t)" by (subst f(1)) (simp add: s3)
    moreover have "freshIds env (x_next s3) (x_db t)" by (subst f(1)) (simp add: s3)
    ultimately show ?thesis using f(3) by (auto intro: freshIds_mono)
  qed
  then show "consistent (x_namespaceId s) (x_db t)" "freshIds env (x_next t) (x_db t)" by (simp_all add: ns)
qed

section \<open>Mutations keep the database consistent\<close>

text \<open>What \<open>withMutation\<close> hands to its work.\<close>

definition ready :: "env \<Rightarrow> jstring \<Rightarrow> uuid \<Rightarrow> tx \<Rightarrow> bool" where
  "ready env ns rootId s \<longleftrightarrow> books env s \<and> x_namespaceId s = ns \<and> x_rootId s = rootId \<and>
     x_folderFileDeltas s = [] \<and>
     (\<exists>r\<in>set (t_nodes s). n_id r = rootId \<and> n_namespaceId r = ns \<and> n_type r = DIRECTORY)"

lemma readyE:
  assumes "ready env ns rootId s"
  obtains r where "books env s" "ns = x_namespaceId s" "x_rootId s = rootId" "r \<in> set (t_nodes s)" "n_id r = rootId"
    "n_namespaceId r = ns" "n_type r = DIRECTORY" "rootId \<in> n_id ` set (t_nodes s)"
  using assms by (auto simp: ready_def)

lemma openMutation_root:
  assumes "openMutation ns rootId ai d = Inr feed"
  shows "\<exists>r\<in>set (nodes d). n_id r = rootId \<and> n_namespaceId r = ns \<and> n_type r = DIRECTORY"
  using assms
  by (auto simp: openMutation_def lockNamespaceRoot_def findRoot_def findNode_def Let_def
      split: sum.splits option.splits if_splits dest!: findRow_SomeD)

locale balanced_work =
  fixes env :: env and ns :: jstring and rootId :: uuid and work :: "'a txp"
  assumes balanced: "work s = (Inr v, t) \<Longrightarrow> ready env ns rootId s \<Longrightarrow> books env t \<and> x_namespaceId t = ns"
begin

lemma commit_consistent:
  assumes run: "withMutation env ns rootId ai work (\<lambda>_. ret ()) (d, k) = (Inr r, (d', k'))"
    and c: "consistent ns d" and f: "freshIds env k d"
  shows "consistent ns d'" and "freshIds env k' d'"
proof -
  from run obtain feed v s t where o: "openMutation ns rootId ai d = Inr feed"
    and w: "work (initTx ns rootId feed d k) = (Inr v, s)"
    and cm: "commitMutation env v (\<lambda>_. ret ()) s = (Inr r, t)" and d': "d' = x_db t" "k' = x_next t"
    by (auto simp: withMutation_def bind_def split: sum.splits prod.splits)
  have "ready env ns rootId (initTx ns rootId feed d k)"
    using books_init [OF c f] openMutation_root [OF o] by (auto simp: ready_def initTx_def)
  from balanced [OF w this] commitMutation_consistent [OF cm] d'
  show "consistent ns d'" "freshIds env k' d'" by auto
qed

end

interpretation mkdir: balanced_work env ns rootId "ensureDirectory env ns rootId segs parents" for env ns rootId segs parents
  by unfold_locales (auto elim!: readyE dest: ensureDirectory_ledger)

interpretation touch: balanced_work env ns rootId "touchFile env ns rootId segs parents d" for env ns rootId segs parents d
  by unfold_locales (auto elim!: readyE dest: touchFile_ledger)

interpretation put: balanced_work env ns rootId "putFileContent env ns rootId segs parents d ifMatch force ex"
  for env ns rootId segs parents d ifMatch force ex
  by unfold_locales (auto elim!: readyE dest: putFileContent_ledger)

interpretation move: balanced_work env ns rootId "moveNode env ns rootId src dst parents limit exact"
  for env ns rootId src dst parents limit exact
  by unfold_locales (auto elim!: readyE dest: moveNode_ledger)

end
