(* ===== verification/Copying.thy ===== *)
theory Copying
  imports Files
begin

text \<open>
  Copying: \<open>copyNode\<close> of \<open>persistence/vfs-node.repository.tree-mutations.ts\<close>. A file is copied by
  one more reference to its Blob; a directory by building the rows of the whole subtree in memory,
  breadth first, and inserting them.
\<close>

text \<open>
  A \<open>Map<K, number>\<close> filled by \<open>m.set(k, (m.get(k) ?? 0) + 1)\<close> over a list: the keys in the order
  of their first occurrence.
\<close>

definition tally :: "'k list \<Rightarrow> ('k \<times> int) list" where
  "tally ks = foldl (\<lambda>m k. AList.update k ((case map_of m k of None \<Rightarrow> 0 | Some c \<Rightarrow> c) + 1) m) [] ks"

definition byKey :: "(jstring \<times> int) \<Rightarrow> (jstring \<times> int) \<Rightarrow> int" where
  "byKey a b = js_cmp (fst a) (fst b)"

text \<open>One child of the copied subtree: its new id, the byte delta of a FILE, the queue of a DIRECTORY.\<close>

definition copyChild :: "env \<Rightarrow> jstring \<Rightarrow> time option \<Rightarrow> uuid \<Rightarrow> (uuid \<times> uuid) list \<times> node list \<Rightarrow> node \<Rightarrow>
    ((uuid \<times> uuid) list \<times> node list) txp" where
  "copyChild env ns expiresAt newParentId = (\<lambda>(queue, rows) child.
     bind (freshId env) (\<lambda>newId.
     bind (case n_type child of
             FILE \<Rightarrow> (case (n_blobId child, n_size child) of
                 (None, _) \<Rightarrow> throw (InternalError ''FILE node without blobId'')
               | (Some _, None) \<Rightarrow> throw (InternalError ''FILE node without size'')
               | (Some _, Some z) \<Rightarrow> andThen (recordLiveByteDelta z) (ret queue))
           | DIRECTORY \<Rightarrow> ret (queue @ [(n_id child, newId)])) (\<lambda>queue'.
     ret (queue', rows @ [newNode env newId ns newParentId (n_type child) (n_name child) (n_blobId child)
       (n_size child) (n_mimeType child) (if n_type child = FILE then expiresAt else None)]))))"

text \<open>
  The \<open>while (queue.length > 0)\<close> loop. Every turn takes one directory of the subtree, so one more
  than the number of rows is enough fuel.
\<close>

fun copyLoop :: "env \<Rightarrow> jstring \<Rightarrow> time option \<Rightarrow> (uuid \<Rightarrow> node list) \<Rightarrow> nat \<Rightarrow> (uuid \<times> uuid) list \<Rightarrow>
    node list \<Rightarrow> node list txp" where
  "copyLoop env ns expiresAt childrenByParent fuel [] rows = ret rows"
| "copyLoop env ns expiresAt childrenByParent 0 (q # queue) rows = throw NoReturn"
| "copyLoop env ns expiresAt childrenByParent (Suc fuel) ((oldParentId, newParentId) # queue) rows =
     bind (foldProg (copyChild env ns expiresAt newParentId) (queue, rows) (childrenByParent oldParentId))
       (\<lambda>(queue', rows'). copyLoop env ns expiresAt childrenByParent fuel queue' rows')"

text \<open>The counters of the copied rows, and the references to their Blobs in the order of the ids.\<close>

definition bookCopies :: "node list \<Rightarrow> unit txp" where
  "bookCopies rows =
     andThen (forEach rows (\<lambda>r. markChanged (n_id r) False))
     (andThen (recordLiveNodeDelta (int (length rows) + 1))
     (andThen (forEach (tally (List.map_filter (\<lambda>r. if n_type r = FILE then n_parentId r else None) rows))
        (\<lambda>(p, c). recordFolderFileDelta p c))
     (forEach (sortBy byKey (tally (List.map_filter (\<lambda>r. if n_type r = FILE then n_blobId r else None) rows)))
        (\<lambda>(b, c). incrementReferenceCount b c))))"

definition copyDirectory :: "env \<Rightarrow> jstring \<Rightarrow> placement \<Rightarrow> int \<Rightarrow> time option \<Rightarrow> (node_record \<times> jstring) txp" where
  "copyDirectory env ns pl maxSyncCopyNodes expiresAt =
     (let source = pl_source pl in
      bind (gets (\<lambda>s. cteRows (\<lambda>r. childrenOf ns (t_nodes s) (n_id r)) (nat (maxSyncCopyNodes + 1))
              (case findNode ns (n_id source) (t_nodes s) of None \<Rightarrow> [] | Some r \<Rightarrow> [r]))) (\<lambda>subtree.
      andThen (throwIf (maxSyncCopyNodes < int (length subtree)) (Limit (VfsCopyLimitExceededError maxSyncCopyNodes)))
      (andThen (liftR (assertSubtreeDestinationPaths (env_nfc env) (n_id source) (pl_segments pl)
                 (map namedRow subtree)))
      (bind (createNode env ns (pl_parentId pl) DIRECTORY (pl_name pl) None None None None) (\<lambda>newRoot.
       andThen (markChanged (n_id newRoot) False)
       (bind (copyLoop env ns expiresAt
                (\<lambda>p. filter (\<lambda>r. n_id r \<noteq> n_id source \<and> n_parentId r = Some p) subtree)
                (Suc (length subtree)) [(n_id source, n_id newRoot)] []) (\<lambda>rows.
        andThen (forEach rows insertNode)
        (andThen (bookCopies rows)
        (ret (toRecord newRoot, joinSegments (pl_segments pl)))))))))))"

definition copyNode :: "env \<Rightarrow> jstring \<Rightarrow> uuid \<Rightarrow> jstring list \<Rightarrow> jstring list \<Rightarrow> bool \<Rightarrow> int \<Rightarrow> bool \<Rightarrow>
    time option \<Rightarrow> (node_record \<times> jstring) txp" where
  "copyNode env ns rootId sourceSegs destSegs destParents maxSyncCopyNodes exact expiresAt =
     bind (resolveDestinationPlacement env ns rootId sourceSegs destSegs destParents False exact) (\<lambda>pl.
     let source = pl_source pl in
     if n_type source = FILE
     then (case n_blobId source of
             None \<Rightarrow> throw (InternalError ''FILE node without blobId'')
           | Some b \<Rightarrow>
               andThen (incrementReferenceCount b 1)
               (bind (addFile env ns (pl_parentId pl) (pl_name pl) b (n_size source) (n_mimeType source) expiresAt)
                 (\<lambda>created. ret (toRecord created, joinSegments (pl_segments pl)))))
     else copyDirectory env ns pl maxSyncCopyNodes expiresAt)"

end
