(* ===== verification/Trash.thy ===== *)
theory Trash
  imports Copying
begin

text \<open>
  Removal and the trash: \<open>captureSnapshotRows\<close> (\<open>vfs-node.repository.snapshots.ts\<close>), the trash
  table (\<open>vfs-trash.repository.ts\<close>) and the operations of \<open>vfs-node.repository.trash.ts\<close>. A
  removed subtree moves to a manifest of entries that keep the Blobs alive, or, with the trash
  disabled, is gone at once.
\<close>

section \<open>Capturing a subtree\<close>

text \<open>\<open>Buffer.from(s, 'utf8')\<close>; a lone surrogate is U+FFFD.\<close>

definition utf8_bytes :: "nat \<Rightarrow> nat list" where
  "utf8_bytes p =
     (if p < 0x80 then [p]
      else if p < 0x800 then [0xC0 + p div 64, 0x80 + p mod 64]
      else if 0xD800 \<le> p \<and> p \<le> 0xDFFF then [0xEF, 0xBF, 0xBD]
      else if p < 0x10000 then [0xE0 + p div 4096, 0x80 + p div 64 mod 64, 0x80 + p mod 64]
      else [0xF0 + p div 262144, 0x80 + p div 4096 mod 64, 0x80 + p div 64 mod 64, 0x80 + p mod 64])"

definition utf8 :: "jstring \<Rightarrow> nat list" where
  "utf8 s = concat (map utf8_bytes (code_points s))"

text \<open>\<open>Buffer.compare\<close>.\<close>

fun compareBytes :: "nat list \<Rightarrow> nat list \<Rightarrow> int" where
  "compareBytes [] [] = 0"
| "compareBytes [] (y # ys) = -1"
| "compareBytes (x # xs) [] = 1"
| "compareBytes (x # xs) (y # ys) = (if x < y then -1 else if y < x then 1 else compareBytes xs ys)"

definition dot :: jstring where "dot = js ''.''"

definition relativePathCmp :: "jstring \<Rightarrow> jstring \<Rightarrow> int" where
  "relativePathCmp l r =
     (if l = r then 0 else if l = dot then -1 else if r = dot then 1 else compareBytes (utf8 l) (utf8 r))"

fun sourceRows :: "(node \<times> jstring) list \<Rightarrow> source_row list result" where
  "sourceRows [] = Inr []"
| "sourceRows ((n, rel) # rest) =
     (case encodeRevision (n_id n) (n_version n) of
        Inl e \<Rightarrow> Inl e
      | Inr tok \<Rightarrow>
          (case sourceRows rest of
             Inl e \<Rightarrow> Inl e
           | Inr rows \<Rightarrow> Inr (\<lparr> s_id = n_id n, s_parentId = n_parentId n, s_name = n_name n, s_type = n_type n,
               s_revision = tok, s_relativePath = rel, s_blobId = n_blobId n, s_size = n_size n,
               s_mimeType = n_mimeType n, s_createdAt = n_createdAt n \<rparr> # rows)))"

definition childPaths :: "jstring \<Rightarrow> node list \<Rightarrow> node \<times> jstring \<Rightarrow> (node \<times> jstring) list" where
  "childPaths ns tbl = (\<lambda>(t, rel).
     map (\<lambda>n. (n, if rel = dot then n_name n else rel @ slash # n_name n)) (childrenOf ns tbl (n_id t)))"

definition captureSnapshotRows :: "jstring list \<Rightarrow> int \<Rightarrow> source_row list txp" where
  "captureSnapshotRows segs maxNodes =
     andThen (throwIf (maxNodes < 1 \<or> MAX_SAFE_INTEGER < maxNodes) (InternalError ''Invalid snapshot node limit''))
     (bind (gets (\<lambda>s. s)) (\<lambda>s.
      case resolvePathInManager (x_namespaceId s) (x_rootId s) segs (t_nodes s) of
        None \<Rightarrow> throw (nodeNotFound (joinSegments segs))
      | Some source \<Rightarrow>
          liftR (sourceRows (sortBy (\<lambda>a b. relativePathCmp (snd a) (snd b))
            (cteRows (childPaths (x_namespaceId s) (t_nodes s)) (nat (maxNodes + 1))
              (map (\<lambda>n. (n, dot)) (filter (\<lambda>n. n_namespaceId n = x_namespaceId s \<and> n_id n = n_id source)
                (t_nodes s))))))))"

section \<open>The trash table\<close>

record locked_trash_item =
  k_trash :: trash
  k_entries :: "trash_entry list"
  k_expired :: bool

definition findForMutation :: "env \<Rightarrow> uuid \<Rightarrow> locked_trash_item txp" where
  "findForMutation env trashId = bind (gets (\<lambda>s. s)) (\<lambda>s.
     case findRow (\<lambda>t. t_id t = trashId \<and> t_namespaceId t = x_namespaceId s) (trashes (x_db s)) of
       None \<Rightarrow> throw (Limit (VfsTrashItemNotFoundError trashId))
     | Some trash \<Rightarrow>
         (let entries = filter (\<lambda>e. e_trashId e = trashId \<and> e_namespaceId e = x_namespaceId s)
                (trashEntries (x_db s)) in
          andThen (throwIf (int (length entries) \<noteq> t_nodeCount trash)
            (InternalError ''Trash manifest node count mismatch''))
          (ret \<lparr> k_trash = trash, k_entries = entries, k_expired = (t_expiresAt trash \<le> env_clockNow env) \<rparr>)))"

text \<open>\<open>consume\<close>: deleting a \<open>vfs_trash\<close> row cascades to its entries.\<close>

definition consume :: "locked_trash_item \<Rightarrow> unit txp" where
  "consume item = bind (gets (\<lambda>s. s)) (\<lambda>s.
     let namespace = findNamespace (x_namespaceId s) (namespaces (x_db s));
         trash = k_trash item;
         nodeCount = (case namespace of None \<Rightarrow> - 1 | Some n \<Rightarrow> ns_retainedTrashNodeCount n) - t_nodeCount trash;
         byteCount = (case namespace of None \<Rightarrow> - 1 | Some n \<Rightarrow> ns_retainedTrashByteCount n) - t_logicalBytes trash;
         gone = (\<lambda>t. t_id t = t_id trash \<and> t_namespaceId t = x_namespaceId s) in
     andThen (throwIf (nodeCount < 0 \<or> byteCount < 0) (InternalError ''Trash namespace counter mismatch''))
     (andThen (updateNamespace (x_namespaceId s)
        (\<lambda>n. n\<lparr> ns_retainedTrashNodeCount := nodeCount, ns_retainedTrashByteCount := byteCount \<rparr>))
     (andThen (throwIf (length (filter gone (trashes (x_db s))) \<noteq> 1) (InternalError ''Trash item changed during mutation''))
     (modify (\<lambda>s. s\<lparr> x_db := (x_db s)\<lparr> trashes := deleteRows gone (trashes (x_db s)),
          trashEntries := deleteRows (\<lambda>e. e_trashId e = t_id trash \<and> e_namespaceId e = x_namespaceId s)
            (trashEntries (x_db s)) \<rparr>,
        x_trashByteDelta := x_trashByteDelta s - t_logicalBytes trash,
        x_logicalByteDelta := x_logicalByteDelta s - t_logicalBytes trash \<rparr>)))))"

text \<open>The loop of \<open>capture\<close> that checks the rows and adds up the byteCount.\<close>

fun captureBytes :: "source_row list \<Rightarrow> int result" where
  "captureBytes [] = Inr 0"
| "captureBytes (r # rows) =
     (case s_type r of
        FILE \<Rightarrow>
          if s_blobId r = None \<or> s_size r = None \<or> s_mimeType r = None
          then Inl (InternalError ''FILE trash source missing Blob metadata'')
          else (case captureBytes rows of Inl e \<Rightarrow> Inl e
                | Inr b \<Rightarrow> Inr ((case s_size r of Some z \<Rightarrow> z | None \<Rightarrow> 0) + b))
      | DIRECTORY \<Rightarrow>
          if s_blobId r \<noteq> None \<or> s_size r \<noteq> None \<or> s_mimeType r \<noteq> None
          then Inl (InternalError ''DIRECTORY trash source has Blob metadata'')
          else captureBytes rows)"

definition RETENTION_MS :: int where "RETENTION_MS = 30 * 24 * 60 * 60 * 1000"

text \<open>The limits of \<open>capture\<close>; the byte limit applies when the trash is not part of the quota.\<close>

definition checkTrashLimits :: "env \<Rightarrow> namespace \<Rightarrow> int \<Rightarrow> int \<Rightarrow> unit result" where
  "checkTrashLimits env namespace rowCount byteCount =
     (case resolveTrashRetentionNodeLimit (env_maxRetainedTrashNodes env) of
        Inl e \<Rightarrow> Inl e
      | Inr limit \<Rightarrow>
          if limit < ns_retainedTrashNodeCount namespace + rowCount then Inl (Limit (VfsTrashLimitExceededError limit))
          else (case (if ns_excludeTrashFromQuota namespace
                 then (case resolveNamespaceQuota (map_option show_int (ns_maxTotalLogicalBytes namespace))
                         (env_maxTotalLogicalBytes env) (env_defaultMaxTotalLogicalBytes env) of
                         Inl e \<Rightarrow> Inl e
                       | Inr quotaLimit \<Rightarrow>
                           (let trashByteLimit = effectiveLimit (ns_maxRetainedTrashBytes namespace)
                                  (env_maxTotalLogicalBytes env) quotaLimit in
                            if 0 < byteCount \<and> trashByteLimit < ns_retainedTrashByteCount namespace + byteCount
                            then Inl (Limit (VfsTrashLimitExceededError trashByteLimit)) else Inr ()))
                 else Inr ()) of
              Inl e \<Rightarrow> Inl e
            | Inr _ \<Rightarrow>
                if MAX_INT64 < ns_retainedTrashByteCount namespace + byteCount
                then Inl (InternalError ''namespace trash byte counter out of int64 range'') else Inr ()))"

definition insertEntry :: "env \<Rightarrow> jstring \<Rightarrow> uuid \<Rightarrow> source_row \<Rightarrow> unit txp" where
  "insertEntry env ns trashId r = bind (freshId env) (\<lambda>i.
     modify (\<lambda>s. s\<lparr> x_db := (x_db s)\<lparr> trashEntries := insertRow
       \<lparr> e_id = i, e_namespaceId = ns, e_trashId = trashId, e_relativePath = s_relativePath r,
         e_type = s_type r, e_sourceNodeId = s_id r, e_sourceRevision = s_revision r, e_blobId = s_blobId r,
         e_size = s_size r, e_mimeType = s_mimeType r, e_createdAt = Some (s_createdAt r) \<rparr>
       (trashEntries (x_db s)) \<rparr> \<rparr>))"

definition capture :: "env \<Rightarrow> jstring \<Rightarrow> source_row list \<Rightarrow> uuid txp" where
  "capture env originalPath rows =
     (case rows of
        [] \<Rightarrow> throw (InternalError ''Invalid trash subtree'')
      | root # _ \<Rightarrow>
          andThen (throwIf (s_relativePath root \<noteq> dot) (InternalError ''Invalid trash subtree''))
          (bind (liftR (captureBytes rows)) (\<lambda>byteCount.
           bind (gets (\<lambda>s. s)) (\<lambda>s.
           case findNamespace (x_namespaceId s) (namespaces (x_db s)) of
             None \<Rightarrow> throw (InternalError ''Trash namespace missing'')
           | Some namespace \<Rightarrow>
               andThen (liftR (checkTrashLimits env namespace (int (length rows)) byteCount))
               (bind (freshId env) (\<lambda>trashId.
                andThen (modify (\<lambda>s. s\<lparr> x_db := (x_db s)\<lparr> trashes := insertRow
                    \<lparr> t_id = trashId, t_namespaceId = x_namespaceId s, t_rootType = s_type root,
                      t_originalPath = originalPath, t_rootNodeId = s_id root, t_rootRevision = s_revision root,
                      t_nodeCount = int (length rows), t_logicalBytes = byteCount, t_deletedAt = env_dbNow env,
                      t_expiresAt = env_dbNow env + RETENTION_MS \<rparr> (trashes (x_db s)) \<rparr> \<rparr>))
                (andThen (forEach rows (insertEntry env (x_namespaceId s) trashId))
                (andThen (updateNamespace (x_namespaceId s) (\<lambda>n. n\<lparr>
                    ns_retainedTrashNodeCount := ns_retainedTrashNodeCount namespace + int (length rows),
                    ns_retainedTrashByteCount := ns_retainedTrashByteCount namespace + byteCount \<rparr>))
                (andThen (modify (\<lambda>s. s\<lparr> x_trashByteDelta := x_trashByteDelta s + byteCount,
                    x_logicalByteDelta := x_logicalByteDelta s + byteCount \<rparr>))
                (ret trashId))))))))))"

section \<open>Removing\<close>

definition deleteNodes :: "source_row list \<Rightarrow> unit txp" where
  "deleteNodes rows = forEach (chunks 500 (rev (map s_id rows))) deleteNodesById"

text \<open>The loop of \<open>moveToTrash\<close> over the rows: bytes and folder counters.\<close>

definition bookRemoval :: "int \<Rightarrow> source_row \<Rightarrow> int txp" where
  "bookRemoval removed r =
     (case s_type r of
        DIRECTORY \<Rightarrow> ret removed
      | FILE \<Rightarrow>
          (case s_size r of
             None \<Rightarrow> throw (InternalError ''TypeError'')
           | Some z \<Rightarrow>
               (case s_parentId r of
                  None \<Rightarrow> throw (InternalError ''FILE parent missing in trash manifest'')
                | Some p \<Rightarrow> andThen (recordFolderFileDelta p (- 1)) (ret (removed + z)))))"

definition blobCounts :: "source_row list \<Rightarrow> (uuid \<times> int) list" where
  "blobCounts rows = sortBy byKey (tally (List.map_filter (\<lambda>r. if s_type r = FILE then s_blobId r else None) rows))"

definition moveToTrash :: "env \<Rightarrow> jstring list \<Rightarrow> source_row list \<Rightarrow> uuid option txp" where
  "moveToTrash env segs rows =
     andThen (trackChangeFeedBefore (map s_id rows))
     (bind (gets x_namespaceId) (\<lambda>ns.
      bind (getNamespaceOrFail ns) (\<lambda>namespace.
      bind (foldProg bookRemoval 0 rows) (\<lambda>removedBytes.
      andThen (recordLiveNodeDelta (- int (length rows)))
      (if \<not> ns_trashEnabled namespace
       then andThen (deleteNodes rows)
            (andThen (recordLiveByteDelta (- removedBytes))
            (andThen (forEach (blobCounts rows) (\<lambda>(b, c). decrementReferenceCount env b c))
            (ret None)))
       else bind (capture env (joinSegments segs) rows) (\<lambda>trashId.
            andThen (forEach (blobCounts rows) (\<lambda>(b, c). bind (incrementLiveReferenceCount ns b c)
              (\<lambda>live. throwIf (\<not> live) (InternalError ''Trash source Blob is not live''))))
            (andThen (deleteNodes rows)
            (andThen (recordLiveByteDelta (- removedBytes))
            (andThen (forEach (blobCounts rows) (\<lambda>(b, c). decrementReferenceCount env b c))
            (ret (Some trashId)))))))))))"

definition removeNode :: "env \<Rightarrow> jstring \<Rightarrow> uuid \<Rightarrow> jstring list \<Rightarrow> bool \<Rightarrow> int \<Rightarrow> uuid option txp" where
  "removeNode env ns rootId segs recursive maxSyncDeleteNodes =
     bind (lockParentChain env ns rootId segs False True) (\<lambda>parentId.
     bind (lockTargetNode ns parentId (lastSegment segs)) (\<lambda>found.
     case found of
       None \<Rightarrow> throw (nodeNotFound (joinSegments segs))
     | Some target \<Rightarrow>
         bind (gets (\<lambda>s. countChildren ns (n_id target) (t_nodes s))) (\<lambda>children.
         andThen (throwIf (n_type target = DIRECTORY \<and> \<not> recursive \<and> 0 < children)
           (Limit (VfsDirectoryNotEmptyError (joinSegments segs))))
         (bind (captureSnapshotRows segs (if n_type target = FILE then 1 else maxSyncDeleteNodes)) (\<lambda>rows.
          andThen (throwIf (maxSyncDeleteNodes < int (length rows) \<and> n_type target = DIRECTORY)
            (Limit (VfsDeleteLimitExceededError maxSyncDeleteNodes)))
          (moveToTrash env segs rows))))))"

definition removeEmptyDirectory :: "env \<Rightarrow> jstring \<Rightarrow> uuid \<Rightarrow> jstring list \<Rightarrow> uuid option txp" where
  "removeEmptyDirectory env ns rootId segs =
     bind (lockParentChain env ns rootId segs False True) (\<lambda>parentId.
     bind (lockTargetNode ns parentId (lastSegment segs)) (\<lambda>found.
     case found of
       None \<Rightarrow> throw (nodeNotFound (joinSegments segs))
     | Some target \<Rightarrow>
         andThen (throwIf (n_type target = FILE) (notDirectory (joinSegments segs)))
         (bind (gets (\<lambda>s. countChildren ns (n_id target) (t_nodes s))) (\<lambda>children.
          andThen (throwIf (0 < children) (Limit (VfsDirectoryNotEmptyError (joinSegments segs))))
          (bind (captureSnapshotRows segs 1) (\<lambda>rows. moveToTrash env segs rows))))))"

section \<open>Restoring and purging\<close>

text \<open>\<open>toPreconditionCurrent\<close> and \<open>currentOf\<close>: the node a 412 answer shows.\<close>

definition toPreconditionCurrent :: "node_record \<Rightarrow> jstring \<Rightarrow> precondition_current result" where
  "toPreconditionCurrent r path =
     (case encodeRevision (r_id r) (r_version r) of
        Inl e \<Rightarrow> Inl e
      | Inr tok \<Rightarrow> Inr (node_response.extend (toNodeResponse r path) (precondition_current.fields tok)))"

definition currentOf :: "node option \<Rightarrow> jstring \<Rightarrow> precondition_current option result" where
  "currentOf node path =
     (case node of
        None \<Rightarrow> Inr None
      | Some n \<Rightarrow> (case toPreconditionCurrent (toRecord n) path of Inl e \<Rightarrow> Inl e | Inr c \<Rightarrow> Inr (Some c)))"

text \<open>\<open>throw new VfsPreconditionFailedError(path, this.currentOf(node, path))\<close>.\<close>

definition throwPrecondition :: "node option \<Rightarrow> jstring \<Rightarrow> 'a txp" where
  "throwPrecondition node path = bind (liftR (currentOf node path)) (\<lambda>c. throw (preconditionFailed path c))"

definition splitRelative :: "jstring \<Rightarrow> jstring list" where
  "splitRelative rel = (if rel = dot then [] else js_split slash rel)"

definition entryCmp :: "trash_entry \<Rightarrow> trash_entry \<Rightarrow> int" where
  "entryCmp l r =
     (let d = int (length (splitRelative (e_relativePath l))) - int (length (splitRelative (e_relativePath r))) in
      if d \<noteq> 0 then d else js_cmp (e_relativePath l) (e_relativePath r))"

definition parentRelative :: "jstring list \<Rightarrow> jstring" where
  "parentRelative relative = (let p = js_join slash (butlast relative) in if p = [] then dot else p)"

definition restoredNode :: "env \<Rightarrow> jstring \<Rightarrow> uuid \<Rightarrow> jstring \<Rightarrow> int \<Rightarrow> trash_entry \<Rightarrow> node" where
  "restoredNode env ns p name version entry = \<lparr> n_id = e_sourceNodeId entry, n_namespaceId = ns,
     n_parentId = Some p, n_type = e_type entry, n_name = name, n_blobId = e_blobId entry,
     n_size = e_size entry, n_mimeType = e_mimeType entry, n_childFileCount = 0, n_expiresAt = None,
     n_createdAt = (case e_createdAt entry of None \<Rightarrow> env_dbNow env | Some c \<Rightarrow> c),
     n_updatedAt = env_dbNow env, n_version = version \<rparr>"

text \<open>One turn of the restoring loop; the accumulator is \<open>restored\<close> and \<open>bytes\<close>.\<close>

definition restoreEntry :: "env \<Rightarrow> jstring \<Rightarrow> jstring list \<Rightarrow> uuid \<Rightarrow> (jstring \<times> uuid) list \<times> int \<Rightarrow> trash_entry \<Rightarrow>
    ((jstring \<times> uuid) list \<times> int) txp" where
  "restoreEntry env ns segs parentId = (\<lambda>(restored, total) entry.
     let relative = splitRelative (e_relativePath entry) in
     andThen (liftR (assertPathSegments (env_nfc env) (segs @ relative)))
     (case (if relative = [] then Some parentId else map_of restored (parentRelative relative)) of
        None \<Rightarrow> throw (InternalError ''Trash manifest parent missing'')
      | Some nodeParentId \<Rightarrow>
          bind (liftR (decodeRevision (e_sourceRevision entry))) (\<lambda>(sourceId, sourceVersion).
          andThen (throwIf (sourceId \<noteq> e_sourceNodeId entry \<or> MAX_VFS_VERSION \<le> sourceVersion) revisionExhausted)
          (andThen (throwIf (e_type entry = FILE \<and> (e_blobId entry = None \<or> e_size entry = None \<or> e_mimeType entry = None))
             (InternalError ''Trash FILE metadata missing''))
          (andThen (insertNode (restoredNode env ns nodeParentId (lastSegment (if relative = [] then segs else relative))
             (sourceVersion + 1) entry))
          (andThen (if e_type entry = FILE then recordFolderFileDelta nodeParentId 1 else ret ())
          (andThen (recordLiveNodeDelta 1)
          (andThen (markChanged (e_sourceNodeId entry) False)
          (ret (AList.update (e_relativePath entry) (e_sourceNodeId entry) restored,
             if e_type entry = FILE then total + (case e_size entry of Some z \<Rightarrow> z | None \<Rightarrow> 0) else total))))))))))"

definition restoreTrashItem :: "env \<Rightarrow> jstring \<Rightarrow> uuid \<Rightarrow> jstring option \<Rightarrow> (uuid \<times> node_record \<times> jstring) txp" where
  "restoreTrashItem env ns trashId targetPath =
     bind (findForMutation env trashId) (\<lambda>item.
     andThen (throwIf (k_expired item) (Limit (VfsTrashItemExpiredError trashId)))
     (let path = (case targetPath of None \<Rightarrow> t_originalPath (k_trash item) | Some p \<Rightarrow> p);
          segs = filter (\<lambda>s. s \<noteq> []) (js_split slash path) in
      andThen (liftR (assertPathSegments (env_nfc env) segs))
      (andThen (throwIf (segs = []) (nodeNotFound path))
      (bind (gets x_rootId) (\<lambda>rootId.
       bind (lockParentChain env ns rootId segs False True) (\<lambda>parentId.
       bind (lockTargetNode ns parentId (lastSegment segs)) (\<lambda>collision.
       andThen (case collision of None \<Rightarrow> ret () | Some n \<Rightarrow> throwPrecondition (Some n) path)
       (let entries = sortBy entryCmp (k_entries item) in
        andThen (throwIf (case entries of [] \<Rightarrow> True | e # _ \<Rightarrow> e_relativePath e \<noteq> dot)
          (InternalError ''Trash manifest root missing''))
        (bind (foldProg (restoreEntry env ns segs parentId) ([], 0) entries) (\<lambda>(restored, total).
         andThen (throwIf (total \<noteq> t_logicalBytes (k_trash item)) (InternalError ''Trash manifest byte count mismatch''))
         (andThen (consume item)
         (andThen (recordLiveByteDelta total)
         (bind (gets (\<lambda>s. findNode ns (t_rootNodeId (k_trash item)) (t_nodes s))) (\<lambda>root.
          case root of
            None \<Rightarrow> throw (InternalError ''EntityNotFoundError'')
          | Some r \<Rightarrow> ret (trashId, toRecord r, path)))))))))))))))"

text \<open>
  The counting loop of \<open>purgeTrashItem\<close>. \<open>localeCompare\<close> orders lower-case uuids, whose hyphens
  stand at the same places, like the code units.
\<close>

fun purgeBytes :: "trash_entry list \<Rightarrow> int result" where
  "purgeBytes [] = Inr 0"
| "purgeBytes (e # es) =
     (case e_type e of
        DIRECTORY \<Rightarrow> purgeBytes es
      | FILE \<Rightarrow>
          (case (e_blobId e, e_size e) of
             (Some _, Some z) \<Rightarrow> (case purgeBytes es of Inl err \<Rightarrow> Inl err | Inr b \<Rightarrow> Inr (z + b))
           | _ \<Rightarrow> Inl (InternalError ''Trash FILE metadata missing'')))"

definition purgeTrashItem :: "env \<Rightarrow> uuid \<Rightarrow> uuid txp" where
  "purgeTrashItem env trashId =
     bind (findForMutation env trashId) (\<lambda>item.
     bind (liftR (purgeBytes (k_entries item))) (\<lambda>total.
     andThen (throwIf (total \<noteq> t_logicalBytes (k_trash item)) (InternalError ''Trash manifest byte count mismatch''))
     (andThen (consume item)
     (andThen (forEach (sortBy byKey (tally (List.map_filter
          (\<lambda>e. if e_type e = FILE then e_blobId e else None) (k_entries item))))
        (\<lambda>(b, c). decrementReferenceCount env b c))
     (ret trashId)))))"

section \<open>Expiry\<close>

text \<open>The \<open>while (current.parentId)\<close> loop of \<open>expireNode\<close>: the segments of a node and its root's id.\<close>

fun pathToRoot :: "jstring \<Rightarrow> node list \<Rightarrow> nat \<Rightarrow> node \<Rightarrow> jstring list \<Rightarrow> (jstring list \<times> uuid) result" where
  "pathToRoot ns tbl fuel current segs =
     (case n_parentId current of
        None \<Rightarrow> Inr (segs, n_id current)
      | Some p \<Rightarrow>
          (case fuel of
             0 \<Rightarrow> Inl NoReturn
           | Suc k \<Rightarrow>
               (case findNode ns p tbl of
                  None \<Rightarrow> Inl (InternalError ''VFS parent node missing'')
                | Some parent \<Rightarrow> pathToRoot ns tbl k parent (n_name current # segs))))"

declare pathToRoot.simps [simp del]

definition expireWork :: "env \<Rightarrow> jstring \<Rightarrow> uuid \<Rightarrow> uuid \<Rightarrow> time \<Rightarrow> int option option txp" where
  "expireWork env ns rootId nodeId cutoff = bind (gets (\<lambda>s. s)) (\<lambda>s.
     case findNamespace ns (namespaces (x_db s)) of
       None \<Rightarrow> ret None
     | Some namespace \<Rightarrow>
         if ns_status namespace \<noteq> ACTIVE then ret None
         else (case findNode ns nodeId (t_nodes s) of
             None \<Rightarrow> ret None
           | Some node \<Rightarrow>
               bind (liftR (pathToRoot ns (t_nodes s) (Suc (length (t_nodes s))) node [])) (\<lambda>(segs, top).
               andThen (throwIf (top \<noteq> rootId) (InternalError ''VFS root node mismatch''))
               (bind (lockParentChain env ns rootId segs False False) (\<lambda>parentId.
                bind (lockTargetNode ns parentId (lastSegment segs)) (\<lambda>found.
                case found of
                  None \<Rightarrow> ret None
                | Some target \<Rightarrow>
                    if n_id target \<noteq> nodeId \<or> n_type target \<noteq> FILE then ret None
                    else (case n_expiresAt target of
                        None \<Rightarrow> ret None
                      | Some expiry \<Rightarrow>
                          if cutoff < expiry then ret None
                          else andThen (removeNode env ns rootId segs False 1) (ret (Some (n_size target))))))))))"

definition expireNode :: "env \<Rightarrow> jstring \<Rightarrow> uuid \<Rightarrow> time \<Rightarrow> (store, vfs_error, int option option) prog" where
  "expireNode env ns nodeId cutoff = (\<lambda>(d, k).
     case findRoot ns (nodes d) of
       None \<Rightarrow> (Inr None, (d, k))
     | Some root \<Rightarrow>
         bind (withMutation env ns (n_id root) True (expireWork env ns (n_id root) nodeId cutoff) (\<lambda>_. ret ()))
           (\<lambda>(removed, _). ret removed) (d, k))"

end
