(* ===== verification/Subtree.thy ===== *)
theory Subtree
  imports Commit Trash
begin

text \<open>
  The rows a recursive query returns. On a forest every node of a subtree is met once, and when the
  query's limit is not reached it has met them all.
\<close>

section \<open>Weights of a subtree\<close>

lemma weigh_set: "distinct xs \<Longrightarrow> weigh w xs = (\<Sum>x\<in>set xs. w x)"
  by (simp add: weigh_def sum_list_distinct_conv_sum_set)

text \<open>Rows picked by key weigh what the rows with those keys weigh in the table.\<close>

lemma weigh_picked:
  fixes xs tbl :: "node list"
  assumes "distinct (map n_id tbl)" and "distinct (map n_id xs)" and "set xs \<subseteq> set tbl"
  shows "weigh w (filter (\<lambda>n. n_id n \<in> n_id ` set xs) tbl) = weigh w xs"
proof -
  have "set (filter (\<lambda>n. n_id n \<in> n_id ` set xs) tbl) = set xs"
    using assms by (auto simp: distinct_map inj_on_def)
  with assms(1,2) show ?thesis by (simp add: weigh_set distinct_map)
qed

lemma weigh_filter_split:
  "weigh w (filter (\<lambda>n. P n \<or> Q n) tbl) = weigh w (filter P tbl) + weigh w (filter Q (deleteRows P tbl))"
  by (induction tbl) (auto simp: deleteRows_def)

section \<open>Breadth-first rows\<close>

text \<open>
  A query over rows that carry a node (\<open>key\<close>) and whose recursive term joins a row with the
  children of its node.
\<close>

locale subtree_query =
  fixes key :: "'r \<Rightarrow> node" and step :: "'r \<Rightarrow> 'r list" and ns :: jstring and tbl :: "node list"
  assumes step_rows: "map key (step r) = childrenOf ns tbl (n_id (key r))"
begin

lemma step_child:
  "c \<in> set (step r) \<Longrightarrow> key c \<in> set tbl \<and> n_namespaceId (key c) = ns \<and> n_parentId (key c) = Some (n_id (key r))"
proof -
  assume "c \<in> set (step r)"
  then have "key c \<in> set (map key (step r))" by simp
  then show ?thesis unfolding step_rows by (simp add: childrenOf_def)
qed

lemma step_distinct:
  assumes keys: "distinct (map n_id tbl)"
  shows "distinct (map (\<lambda>r. n_id (key r)) (step r))"
proof -
  have "distinct (map n_id (map key (step r)))"
    unfolding step_rows childrenOf_def using keys by (rule distinct_map_filter)
  then show ?thesis by (simp add: comp_def)
qed

lemma rows_all:
  assumes "\<forall>q\<in>set queue. P (key q)" and "\<And>c r. c \<in> set (step r) \<Longrightarrow> P (key c)"
  shows "\<forall>r\<in>set (cteRows step k queue). P (key r)"
  using assms(1)
proof (induction k arbitrary: queue)
  case (Suc k)
  show ?case
  proof (cases queue)
    case (Cons q rest)
    with Suc.prems assms(2) have "\<forall>c\<in>set (rest @ step q). P (key c)" by auto
    from Suc.IH [OF this] Suc.prems Cons show ?thesis by simp
  qed simp
qed simp

lemma rows_below:
  assumes "\<forall>q\<in>set queue. below tbl apex (n_id (key q))"
  shows "\<forall>r\<in>set (cteRows step k queue). below tbl apex (n_id (key r))"
  using assms
proof (induction k arbitrary: queue)
  case (Suc k)
  show ?case
  proof (cases queue)
    case (Cons q rest)
    have "below tbl apex (n_id (key c))" if "c \<in> set (step q)" for c
      using step_child [OF that] Suc.prems Cons by (auto intro: below_child)
    with Suc.prems Cons have "\<forall>c\<in>set (rest @ step q). below tbl apex (n_id (key c))" by auto
    from Suc.IH [OF this] Suc.prems Cons show ?thesis by simp
  qed simp
qed simp

text \<open>
  A node waits in the queue or has been returned only if its parent has been returned, or it is the
  first; so none is met twice.
\<close>

definition frontier :: "uuid \<Rightarrow> 'r list \<Rightarrow> 'r list \<Rightarrow> bool" where
  "frontier apex past queue \<longleftrightarrow> distinct (map (\<lambda>r. n_id (key r)) (past @ queue)) \<and>
     (\<forall>c\<in>set (past @ queue). key c \<in> set tbl \<and>
       (n_id (key c) = apex \<or> (\<exists>p\<in>set past. n_parentId (key c) = Some (n_id (key p)))))"

lemma frontier_step:
  assumes keys: "distinct (map n_id tbl)" and h: "ranked h tbl" and f: "frontier apex past (r # queue)"
    and low: "\<forall>c\<in>set (past @ r # queue). h apex \<le> h (n_id (key c))"
  shows "frontier apex (past @ [r]) (queue @ step r)"
    and "\<forall>c\<in>set ((past @ [r]) @ queue @ step r). h apex \<le> h (n_id (key c))"
proof -
  have up: "h (n_id (key r)) < h (n_id (key c))" if "c \<in> set (step r)" for c
    using step_child [OF that] h by (auto simp: ranked_def)
  have "h apex \<le> h (n_id (key c))" if "c \<in> set (step r)" for c
    using up [OF that] low by force
  with low show "\<forall>c\<in>set ((past @ [r]) @ queue @ step r). h apex \<le> h (n_id (key c))" by auto
  have new: "n_id (key c) \<noteq> n_id (key d)" if c: "c \<in> set (step r)" and d: "d \<in> set (past @ r # queue)" for c d
  proof
    assume eq: "n_id (key c) = n_id (key d)"
    have "h apex \<le> h (n_id (key r))" using low by simp
    then have "n_id (key d) \<noteq> apex" using up [OF c] eq by auto
    with f d obtain p where p: "p \<in> set past" "n_parentId (key d) = Some (n_id (key p))" and "key d \<in> set tbl"
      by (auto simp: frontier_def)
    with eq step_child [OF c] keys have "key c = key d" by (metis distinct_map inj_onD)
    with p step_child [OF c] have "n_id (key p) = n_id (key r)" by simp
    moreover have "n_id (key r) \<notin> (\<lambda>r. n_id (key r)) ` set past" using f by (simp add: frontier_def)
    ultimately show False using p(1) by (metis imageI)
  qed
  have "(\<lambda>r. n_id (key r)) ` set (past @ r # queue) \<inter> (\<lambda>r. n_id (key r)) ` set (step r) = {}"
  proof (rule equals0I)
    fix i assume "i \<in> (\<lambda>r. n_id (key r)) ` set (past @ r # queue) \<inter> (\<lambda>r. n_id (key r)) ` set (step r)"
    then obtain c d where "c \<in> set (step r)" "d \<in> set (past @ r # queue)" "n_id (key c) = n_id (key d)" by auto
    with new show False by blast
  qed
  with f step_distinct [OF keys, of r] have "distinct (map (\<lambda>r. n_id (key r)) ((past @ [r]) @ queue @ step r))"
    by (auto simp: frontier_def)
  moreover have "key c \<in> set tbl \<and> (n_id (key c) = apex \<or> (\<exists>p\<in>set (past @ [r]). n_parentId (key c) = Some (n_id (key p))))"
    if "c \<in> set ((past @ [r]) @ queue @ step r)" for c
    using that f step_child [of c r] unfolding frontier_def by auto
  ultimately show "frontier apex (past @ [r]) (queue @ step r)" by (simp only: frontier_def) blast
qed

lemma rows_frontier:
  assumes keys: "distinct (map n_id tbl)" and h: "ranked h tbl" and "frontier apex past queue" and "\<forall>c\<in>set (past @ queue). h apex \<le> h (n_id (key c))"
  shows "distinct (map (\<lambda>r. n_id (key r)) (past @ cteRows step k queue))"
  using assms(3,4)
proof (induction k arbitrary: past queue)
  case (Suc k)
  show ?case
  proof (cases queue)
    case (Cons r rest)
    with Suc.prems have "frontier apex past (r # rest)" "\<forall>c\<in>set (past @ r # rest). h apex \<le> h (n_id (key c))" by auto
    from Suc.IH [OF frontier_step [OF keys h this]] Cons show ?thesis by simp
  qed (use Suc.prems in \<open>simp add: frontier_def\<close>)
qed (simp add: frontier_def)

lemma rows_distinct:
  assumes keys: "distinct (map n_id tbl)" and g: "grounded tbl" and r: "key r \<in> set tbl"
  shows "distinct (map (\<lambda>r. n_id (key r)) (cteRows step k [r]))"
proof -
  from g obtain h where "ranked h tbl" by (auto simp: grounded_def)
  from rows_frontier [OF keys this, of "n_id (key r)" "[]" "[r]" k] r show ?thesis
    by (simp add: frontier_def)
qed

end

interpretation byNode: subtree_query "\<lambda>n. n" "\<lambda>r. childrenOf ns tbl (n_id r)" ns tbl for ns tbl
  by unfold_locales simp

interpretation byPath: subtree_query fst "childPaths ns tbl" ns tbl for ns tbl
  by unfold_locales (auto simp: childPaths_def comp_def split: prod.split)

end
