(* ===== verification/Removal.thy ===== *)
theory Removal
  imports Subtree
begin

text \<open>
  The books of removal: the rows captured for a removed subtree stand for distinct live nodes, so
  what the transaction records for them, what the trash keeps and what the deletion takes away add
  up. Both branches of \<open>moveToTrash\<close> leave the ledger balanced.
\<close>

section \<open>Captured rows stand for nodes\<close>

definition standsFor :: "source_row \<Rightarrow> node \<Rightarrow> bool" where
  "standsFor r n \<longleftrightarrow> s_id r = n_id n \<and> s_parentId r = n_parentId n \<and> s_name r = n_name n \<and> s_type r = n_type n \<and>
     s_blobId r = n_blobId n \<and> s_size r = n_size n \<and> s_mimeType r = n_mimeType n \<and>
     encodeRevision (n_id n) (n_version n) = Inr (s_revision r)"

lemma distinct_sortBy: "distinct xs \<Longrightarrow> distinct (sortBy cmp xs)"
  by (metis card_distinct distinct_card length_sortBy set_sortBy)

lemma distinct_map_sortBy: "distinct (map f xs) \<Longrightarrow> distinct (map f (sortBy cmp xs))"
  by (simp add: distinct_map distinct_sortBy)

lemma sourceRows_standsFor:
  "sourceRows ps = Inr rows \<Longrightarrow> list_all2 standsFor rows (map fst ps)"
proof (induction ps arbitrary: rows rule: sourceRows.induct)
  case (2 n rel rest)
  then show ?case by (auto simp: standsFor_def split: sum.splits)
qed simp

lemma only_row:
  assumes "validNodes tbl bl" and "n \<in> set tbl" and "n_namespaceId n = ns"
  shows "filter (\<lambda>q. n_namespaceId q = ns \<and> n_id q = n_id n) tbl = [n]"
proof -
  have "filter (\<lambda>q. n_namespaceId q = ns \<and> n_id q = n_id n) tbl = filter (\<lambda>q. q = n) tbl"
    using assms by (intro filter_cong) (auto dest: valid_id_eq)
  also have "\<dots> = [n]"
    using assms(2) distinct_filter [of tbl "\<lambda>q. q = n"] valid_distinct [OF assms(1)]
    by (induction tbl) (auto simp: filter_empty_conv)
  finally show ?thesis .
qed

lemma captureSnapshotRows_spec:
  assumes run: "captureSnapshotRows segs limit s = (Inr rows, t)" and l: "ledger env s dn db df own"
    and src: "resolvePathInManager (x_namespaceId s) (x_rootId s) segs (t_nodes s) = Some n"
      "n_namespaceId n = x_namespaceId s" "n_parentId n \<noteq> None" "n \<in> set (t_nodes s)"
  obtains ns where "t = s" "list_all2 standsFor rows ns" "distinct (map n_id ns)" "set ns \<subseteq> set (t_nodes s)"
    "\<forall>q\<in>set ns. n_namespaceId q = x_namespaceId s \<and> n_parentId q \<noteq> None"
    "n \<in> set ns" "\<forall>q\<in>set ns. below (t_nodes s) (n_id n) (n_id q)"
proof -
  note v = ledger_valid [OF l]
  let ?step = "childPaths (x_namespaceId s) (t_nodes s)"
  let ?cte = "cteRows ?step (nat (limit + 1)) [(n, dot)]"
  let ?ps = "sortBy (\<lambda>a b. relativePathCmp (snd a) (snd b)) ?cte"
  have t: "t = s" and rows: "sourceRows ?ps = Inr rows" and one: "1 \<le> limit"
    using run src only_row [OF v src(4) src(2)] by (auto simp: captureSnapshotRows_def monad_simps)
  have "nat (limit + 1) = Suc (nat limit)" using one by (simp add: Suc_nat_eq_nat_zadd1)
  then have first: "(n, dot) \<in> set ?cte" by simp
  have down: "\<forall>r\<in>set ?cte. below (t_nodes s) (n_id n) (n_id (fst r))"
    by (rule byPath.rows_below) (simp add: below_top)
  have all: "\<forall>r\<in>set ?cte. fst r \<in> set (t_nodes s) \<and> n_namespaceId (fst r) = x_namespaceId s \<and> n_parentId (fst r) \<noteq> None"
    using src(2-4) byPath.step_child by (intro byPath.rows_all) auto
  have "distinct (map (\<lambda>r. n_id (fst r)) ?cte)"
    using src(4) by (intro byPath.rows_distinct valid_distinct [OF v] ledger_grounded [OF l]) auto
  then have "distinct (map (\<lambda>r. n_id (fst r)) ?ps)" by (rule distinct_map_sortBy)
  then have "distinct (map n_id (map fst ?ps))" by (simp add: comp_def)
  with t sourceRows_standsFor [OF rows] all first down show ?thesis by (intro that [of "map fst ?ps"]) force+
qed

section \<open>Recording a removal\<close>

lemma bookRemoval_ledger:
  assumes "foldProg bookRemoval z rows s = (Inr z', t)" and "list_all2 standsFor rows xs"
    and "ledger env s dn db df own" and "set xs \<subseteq> set (t_nodes s)" and "\<forall>q\<in>set xs. n_namespaceId q = x_namespaceId s"
  shows "ledger env t dn db (\<lambda>i. df i - weigh (fileChild i) xs) own \<and> z' = z + weigh (liveByte (x_namespaceId s)) xs \<and>
    x_db t = x_db s \<and> x_namespaceId t = x_namespaceId s \<and> x_next t = x_next s \<and> x_rootId t = x_rootId s"
  using assms
proof (induction rows arbitrary: z s df xs)
  case Nil
  then show ?case by (simp add: monad_simps)
next
  case (Cons r rows)
  from Cons.prems(2) obtain n ns where xs: "xs = n # ns" and n: "standsFor r n" and ns: "list_all2 standsFor rows ns"
    by (auto simp: list_all2_Cons1)
  from Cons.prems(1) obtain z1 s1 where b: "bookRemoval z r s = (Inr z1, s1)"
    and rest: "foldProg bookRemoval z1 rows s1 = (Inr z', t)" by (auto simp: monad_simps)
  have in_tbl: "n \<in> set (t_nodes s)" "n_namespaceId n = x_namespaceId s" using Cons.prems(4,5) by (simp_all add: xs)
  have one: "ledger env s1 dn db (\<lambda>i. df i - fileChild i n) own \<and> z1 = z + liveByte (x_namespaceId s) n \<and>
      x_db s1 = x_db s \<and> x_namespaceId s1 = x_namespaceId s \<and> x_next s1 = x_next s \<and> x_rootId s1 = x_rootId s"
  proof (cases "n_type n")
    case DIRECTORY
    then show ?thesis using b n Cons.prems(3)
      by (simp add: bookRemoval_def standsFor_def monad_simps weights)
  next
    case FILE
    with b n obtain sz p u where f: "n_size n = Some sz" "n_parentId n = Some p"
      "recordFolderFileDelta p (- 1) s = (Inr u, s1)" "z1 = z + sz"
      by (auto simp: bookRemoval_def standsFor_def monad_simps split: option.splits)
    from ledger_valid [OF Cons.prems(3)] in_tbl(1) f(2) obtain q where "q \<in> set (t_nodes s)" "n_id q = p"
      by (rule valid_parent)
    with ledger_past [OF Cons.prems(3)] have "env_uuid env j \<noteq> p" if "x_next s \<le> j" for j using that by auto
    from recordFolderFileDelta_ledger [OF f(3) Cons.prems(3) this]
    have "ledger env s1 dn db (df(p := df p + - 1)) own" .
    moreover have "df(p := df p + - 1) = (\<lambda>i. df i - fileChild i n)"
      using FILE f(2) by (auto simp: weights)
    ultimately show ?thesis using f FILE in_tbl(2) by (auto simp: monad_simps weights)
  qed
  then have "ledger env s1 dn db (\<lambda>i. df i - fileChild i n) own" "set ns \<subseteq> set (t_nodes s1)"
    "\<forall>q\<in>set ns. n_namespaceId q = x_namespaceId s1" using Cons.prems(4,5) by (simp_all add: xs)
  from Cons.IH [OF rest ns this] one show ?case by (simp add: xs algebra_simps)
qed

section \<open>Deleting in chunks\<close>

lemma deleteChunks_ledger:
  assumes "forEach cs deleteNodesById s = (Inr u, t)" and "ledger env s dn db df own"
  shows "ledger env t (dn + weigh (liveNode (x_namespaceId s)) (filter (\<lambda>n. n_id n \<in> set (concat cs)) (t_nodes s)))
      (db + weigh (liveByte (x_namespaceId s)) (filter (\<lambda>n. n_id n \<in> set (concat cs)) (t_nodes s)))
      (\<lambda>i. df i + weigh (fileChild i) (filter (\<lambda>n. n_id n \<in> set (concat cs)) (t_nodes s)))
      (\<lambda>b. own b + weigh (nodeRef b) (filter (\<lambda>n. n_id n \<in> set (concat cs)) (t_nodes s))) \<and>
    x_namespaceId t = x_namespaceId s \<and> x_rootId t = x_rootId s \<and>
    t_nodes t = filter (\<lambda>n. n_id n \<notin> set (concat cs)) (t_nodes s)"
  using assms
proof (induction cs arbitrary: s dn db df own)
  case Nil
  then show ?case by (simp add: monad_simps)
next
  case (Cons c cs)
  from Cons.prems(1) obtain v s1 where d: "deleteNodesById c s = (Inr v, s1)"
    and rest: "forEach cs deleteNodesById s1 = (Inr u, t)" by (auto simp: monad_simps)
  have s1: "t_nodes s1 = deleteRows (\<lambda>n. n_id n \<in> set c) (t_nodes s)" "x_namespaceId s1 = x_namespaceId s" "x_rootId s1 = x_rootId s"
    using d by (simp_all add: monad_simps)
  have w: "weigh w (filter (\<lambda>n. n_id n \<in> set (concat (c # cs))) (t_nodes s)) =
      weigh w (filter (\<lambda>n. n_id n \<in> set c) (t_nodes s)) + weigh w (filter (\<lambda>n. n_id n \<in> set (concat cs)) (t_nodes s1))" for w
    using weigh_filter_split [of w "\<lambda>n. n_id n \<in> set c" "\<lambda>n. n_id n \<in> set (concat cs)" "t_nodes s"] by (simp add: s1)
  from Cons.IH [OF rest deleteNodesById_ledger [OF d Cons.prems(2)]] show ?case
    unfolding w by (auto simp: s1 deleteRows_def algebra_simps intro: filter_cong)
qed

lemma deleteNodes_ledger:
  assumes run: "deleteNodes rows s = (Inr u, t)" and l: "ledger env s dn db df own"
    and xs: "list_all2 standsFor rows xs" "distinct (map n_id xs)" "set xs \<subseteq> set (t_nodes s)"
      "\<forall>q\<in>set xs. n_namespaceId q = x_namespaceId s \<and> n_parentId q \<noteq> None"
  shows "ledger env t (dn + int (length rows)) (db + weigh (liveByte (x_namespaceId s)) xs)
      (\<lambda>i. df i + weigh (fileChild i) xs) (\<lambda>b. own b + weigh (nodeRef b) xs)"
    and "x_namespaceId t = x_namespaceId s" and "x_rootId t = x_rootId s"
    and "t_nodes t = filter (\<lambda>n. n_id n \<notin> n_id ` set xs) (t_nodes s)"
proof -
  let ?cs = "chunks 500 (rev (map s_id rows))"
  have "map s_id rows = map n_id xs" using xs(1) by (induction) (auto simp: standsFor_def)
  then have ids: "set (concat ?cs) = n_id ` set xs" by (simp only: concat_chunks) (metis concat_chunks set_map set_rev zero_less_numeral)
  have "weigh (liveNode (x_namespaceId s)) xs = (\<Sum>x\<leftarrow>xs. 1)"
    using xs(4) unfolding weigh_def by (intro arg_cong [of _ _ sum_list] map_cong) (auto simp: liveNode_def)
  also have "\<dots> = int (length rows)" using list_all2_lengthD [OF xs(1)] by (simp add: sum_list_triv)
  finally have n: "weigh (liveNode (x_namespaceId s)) xs = int (length rows)" .
  have w: "weigh w (filter (\<lambda>n. n_id n \<in> n_id ` set xs) (t_nodes s)) = weigh w xs" for w
    by (rule weigh_picked [OF valid_distinct [OF ledger_valid [OF l]] xs(2,3)])
  from deleteChunks_ledger [OF run [unfolded deleteNodes_def] l, unfolded ids, unfolded w n]
  show "ledger env t (dn + int (length rows)) (db + weigh (liveByte (x_namespaceId s)) xs)
      (\<lambda>i. df i + weigh (fileChild i) xs) (\<lambda>b. own b + weigh (nodeRef b) xs)"
    "x_namespaceId t = x_namespaceId s" "x_rootId t = x_rootId s"
    "t_nodes t = filter (\<lambda>n. n_id n \<notin> n_id ` set xs) (t_nodes s)" by simp_all
qed

section \<open>References of a list of Blobs\<close>

lemma tally_weigh:
  fixes ks :: "'k list"
  shows "weigh (\<lambda>(k, c). if k = b then c else 0) (tally ks) = int (count_list ks b)"
    and "distinct (map fst (tally ks))"
proof -
  have "distinct (map fst (tally ks)) \<and> (\<forall>b. (case map_of (tally ks) b of None \<Rightarrow> 0 | Some c \<Rightarrow> c) = int (count_list ks b))"
  proof (induction ks rule: rev_induct)
    case (snoc k ks)
    then show ?case
      by (auto simp: tally_def update_conv distinct_update count_list_append)
  qed (simp add: tally_def)
  moreover have "weigh (\<lambda>(k, c). if k = b then c else 0) m = (case map_of m b of None \<Rightarrow> 0 | Some c \<Rightarrow> c)"
    if "distinct (map fst m)" for m :: "('k \<times> int) list"
    using that
  proof (induction m)
    case (Cons x m)
    have "weigh (\<lambda>(k, c). if k = fst x then c else 0) m = 0"
    proof (rule weigh_zero)
      fix r assume "r \<in> set m"
      then have "fst r \<in> fst ` set m" by simp
      moreover have "fst x \<notin> fst ` set m" using Cons.prems by simp
      ultimately have "fst r \<noteq> fst x" by metis
      then show "(case r of (k, c) \<Rightarrow> if k = fst x then c else 0) = 0" by (cases r) simp
    qed
    with Cons show ?case by (cases x) auto
  qed simp
  ultimately show "weigh (\<lambda>(k, c). if k = b then c else 0) (tally ks) = int (count_list ks b)"
    "distinct (map fst (tally ks))" by auto
qed

lemma count_holds: "int (count_list (List.map_filter f xs) b) = weigh (\<lambda>x. holds b (f x)) xs"
  by (induction xs) (auto simp: List.map_filter_simps holds_def split: option.splits)

text \<open>A loop over reference counts moves the ownership of each Blob by what the list adds up to.\<close>

lemma references_loop:
  assumes step: "\<And>i c s u t own. f (i, c) s = (Inr u, t) \<Longrightarrow> ledger env s dn db df own \<Longrightarrow> P s \<Longrightarrow>
      ledger env t dn db df (own(i := own i + k * c)) \<and> P t"
    and run: "forEach xs f s = (Inr u, t)" and l: "ledger env s dn db df own" and P: "P s"
  shows "ledger env t dn db df (\<lambda>b. own b + k * weigh (\<lambda>(i, c). if i = b then c else 0) xs) \<and> P t"
  using run l P
proof (induction xs arbitrary: s own)
  case Nil
  then show ?case by (simp add: monad_simps)
next
  case (Cons x xs)
  obtain i c where x: "x = (i, c)" by (cases x)
  from Cons.prems(1) obtain v s1 where a: "f (i, c) s = (Inr v, s1)" and rest: "forEach xs f s1 = (Inr u, t)"
    by (auto simp: monad_simps x)
  from step [OF a Cons.prems(2,3)] have s1: "ledger env s1 dn db df (own(i := own i + k * c))" "P s1" by auto
  have "(\<lambda>b. (own(i := own i + k * c)) b + k * weigh (\<lambda>(i, c). if i = b then c else 0) xs) =
      (\<lambda>b. own b + k * weigh (\<lambda>(i, c). if i = b then c else 0) (x # xs))"
    by (auto simp: x algebra_simps)
  with Cons.IH [OF rest s1] show ?case by simp
qed

definition sameTables :: "tx \<Rightarrow> tx \<Rightarrow> bool" where
  "sameTables s t \<longleftrightarrow> t_nodes t = t_nodes s \<and> x_namespaceId t = x_namespaceId s \<and> x_rootId t = x_rootId s \<and>
     x_next t = x_next s \<and> trashEntries (x_db t) = trashEntries (x_db s)"

lemma decrement_loop:
  assumes "forEach (sortBy byKey (tally (List.map_filter f xs))) (\<lambda>(b, c). decrementReferenceCount env b c) s = (Inr u, t)"
    and "ledger env s dn db df own"
  shows "ledger env t dn db df (\<lambda>b. own b - weigh (\<lambda>x. holds b (f x)) xs) \<and> sameTables s t"
proof -
  have "ledger env t dn db df (\<lambda>b. own b + - 1 * weigh (\<lambda>(i, c). if i = b then c else 0)
      (sortBy byKey (tally (List.map_filter f xs)))) \<and> sameTables s t"
    by (rule references_loop [OF _ assms(1,2)])
      (auto simp: sameTables_def dest: decrementReferenceCount_ledger,
        auto simp: decrementReferenceCount_def monad_simps split: if_splits)
  then show ?thesis by (simp add: weigh_sortBy tally_weigh count_holds)
qed

lemma pin_loop:
  assumes "forEach (sortBy byKey (tally (List.map_filter f xs))) (\<lambda>(b, c). bind (incrementLiveReferenceCount ns b c)
      (\<lambda>live. throwIf (\<not> live) e)) s = (Inr u, t)" and "ledger env s dn db df own"
  shows "ledger env t dn db df (\<lambda>b. own b + weigh (\<lambda>x. holds b (f x)) xs) \<and> sameTables s t"
proof -
  have "ledger env t dn db df (\<lambda>b. own b + 1 * weigh (\<lambda>(i, c). if i = b then c else 0)
      (sortBy byKey (tally (List.map_filter f xs)))) \<and> sameTables s t"
    by (rule references_loop [OF _ assms(1,2)])
      (auto simp: sameTables_def monad_simps dest: incrementLiveReferenceCount_ledger(1),
        auto simp: incrementLiveReferenceCount_def monad_simps)
  then show ?thesis by (simp add: weigh_sortBy tally_weigh count_holds)
qed

section \<open>Moving rows to the trash table\<close>

definition keeps :: "jstring \<Rightarrow> uuid \<Rightarrow> trash_entry \<Rightarrow> source_row \<Rightarrow> bool" where
  "keeps ns trashId e r \<longleftrightarrow> e_namespaceId e = ns \<and> e_trashId e = trashId \<and> e_relativePath e = s_relativePath r \<and>
     e_type e = s_type r \<and> e_sourceNodeId e = s_id r \<and> e_sourceRevision e = s_revision r \<and>
     e_blobId e = s_blobId r \<and> e_size e = s_size r \<and> e_mimeType e = s_mimeType r \<and> e_createdAt e = Some (s_createdAt r)"

definition entryOf :: "env \<Rightarrow> jstring \<Rightarrow> uuid \<Rightarrow> tx \<Rightarrow> source_row \<Rightarrow> trash_entry" where
  "entryOf env ns i s r = \<lparr> e_id = env_uuid env (x_next s), e_namespaceId = ns, e_trashId = i, e_relativePath = s_relativePath r,
     e_type = s_type r, e_sourceNodeId = s_id r, e_sourceRevision = s_revision r, e_blobId = s_blobId r,
     e_size = s_size r, e_mimeType = s_mimeType r, e_createdAt = Some (s_createdAt r) \<rparr>"

lemma keeps_entryOf [simp]: "keeps ns i (entryOf env ns i s r) r"
  by (simp add: keeps_def entryOf_def)

lemma insertEntry_iff:
  "insertEntry env ns i r s = (Inr u, t) \<longleftrightarrow> t = s\<lparr> x_next := Suc (x_next s),
     x_db := (x_db s)\<lparr> trashEntries := trashEntries (x_db s) @ [entryOf env ns i s r] \<rparr> \<rparr>"
  by (auto simp: insertEntry_def monad_simps insertRow_def entryOf_def)

lemma insertEntries_run:
  assumes "forEach rows (insertEntry env ns i) s = (Inr u, t)"
  shows "\<exists>es. list_all2 (keeps ns i) es rows \<and> t = s\<lparr> x_next := x_next s + length rows,
    x_db := (x_db s)\<lparr> trashEntries := trashEntries (x_db s) @ es \<rparr> \<rparr>"
  using assms
proof (induction rows arbitrary: s)
  case Nil
  then show ?case by (simp add: monad_simps)
next
  case (Cons r rows)
  let ?e = "entryOf env ns i s r"
  let ?s = "s\<lparr> x_next := Suc (x_next s), x_db := (x_db s)\<lparr> trashEntries := trashEntries (x_db s) @ [?e] \<rparr> \<rparr>"
  from Cons.prems have "forEach rows (insertEntry env ns i) ?s = (Inr u, t)"
    by (simp add: monad_simps insertEntry_iff)
  from Cons.IH [OF this] obtain es where "list_all2 (keeps ns i) es rows"
    "t = ?s\<lparr> x_next := x_next ?s + length rows, x_db := (x_db ?s)\<lparr> trashEntries := trashEntries (x_db ?s) @ es \<rparr> \<rparr>"
    by blast
  then show ?case by (intro exI [of _ "?e # es"]) simp
qed

lemma capture_run:
  assumes "capture env path rows s = (Inr i, t)"
  obtains es namespace tr total where "list_all2 (keeps (x_namespaceId s) i) es rows"
    "findNamespace (x_namespaceId s) (namespaces (x_db s)) = Some namespace"
    "t_id tr = i" "t_namespaceId tr = x_namespaceId s" "t_nodeCount tr = int (length rows)" "t_logicalBytes tr = total"
    "captureBytes rows = Inr total" "i = env_uuid env (x_next s)"
    "t = s\<lparr> x_next := Suc (x_next s) + length rows, x_trashByteDelta := x_trashByteDelta s + total,
       x_logicalByteDelta := x_logicalByteDelta s + total,
       x_db := (x_db s)\<lparr> trashes := trashes (x_db s) @ [tr], trashEntries := trashEntries (x_db s) @ es,
         namespaces := updateRows (\<lambda>n. ns_id n = x_namespaceId s) (\<lambda>n. n\<lparr>
           ns_retainedTrashNodeCount := ns_retainedTrashNodeCount namespace + int (length rows),
           ns_retainedTrashByteCount := ns_retainedTrashByteCount namespace + total \<rparr>) (namespaces (x_db s)) \<rparr> \<rparr>"
proof -
  from assms obtain root rest where rows: "rows = root # rest"
    by (cases rows) (auto simp: capture_def monad_simps)
  from assms obtain total namespace where total: "captureBytes rows = Inr total"
    and namespace: "findNamespace (x_namespaceId s) (namespaces (x_db s)) = Some namespace"
    by (auto simp: capture_def rows monad_simps simp del: forEach.simps captureBytes.simps list.size split: option.splits)
  let ?i = "env_uuid env (x_next s)"
  let ?tr = "\<lparr> t_id = ?i, t_namespaceId = x_namespaceId s, t_rootType = s_type root,
                      t_originalPath = path, t_rootNodeId = s_id root, t_rootRevision = s_revision root,
                      t_nodeCount = int (length rows), t_logicalBytes = total, t_deletedAt = env_dbNow env,
                      t_expiresAt = env_dbNow env + RETENTION_MS \<rparr>"
  let ?s = "s\<lparr> x_next := Suc (x_next s), x_db := (x_db s)\<lparr> trashes := trashes (x_db s) @ [?tr] \<rparr> \<rparr>"
  let ?f = "\<lambda>n. n\<lparr> ns_retainedTrashNodeCount := ns_retainedTrashNodeCount namespace + int (length rows),
           ns_retainedTrashByteCount := ns_retainedTrashByteCount namespace + total \<rparr>"
  from assms obtain u s1 where loop: "forEach rows (insertEntry env (x_namespaceId s) ?i) ?s = (Inr u, s1)"
    and t: "t = s1\<lparr> x_trashByteDelta := x_trashByteDelta s1 + total, x_logicalByteDelta := x_logicalByteDelta s1 + total,
       x_db := (x_db s1)\<lparr> namespaces := updateRows (\<lambda>n. ns_id n = x_namespaceId s) ?f (namespaces (x_db s1)) \<rparr> \<rparr>"
    and i: "i = ?i"
    using total namespace
    by (auto simp: capture_def rows monad_simps updateNamespace_def insertRow_def simp del: forEach.simps captureBytes.simps list.size)
  from insertEntries_run [OF loop] obtain es where "list_all2 (keeps (x_namespaceId s) ?i) es rows"
    "s1 = ?s\<lparr> x_next := x_next ?s + length rows, x_db := (x_db ?s)\<lparr> trashEntries := trashEntries (x_db ?s) @ es \<rparr> \<rparr>"
    by blast
  with namespace total t i show ?thesis by (intro that [of es namespace ?tr total]) simp_all
qed

lemma entry_weights:
  assumes "list_all2 (keeps ns i) es rows" and "list_all2 standsFor rows xs"
  shows "weigh (\<lambda>e. holds b (e_blobId e)) es = weigh (nodeRef b) xs"
    and "e \<in> set es \<Longrightarrow> \<exists>n\<in>set xs. e_type e = n_type n \<and> e_blobId e = n_blobId n \<and> e_sourceNodeId e = n_id n"
proof -
  have "map (\<lambda>e. (e_type e, e_blobId e, e_sourceNodeId e)) es = map (\<lambda>r. (s_type r, s_blobId r, s_id r)) rows"
    using assms(1) by induction (auto simp: keeps_def)
  also have "\<dots> = map (\<lambda>n. (n_type n, n_blobId n, n_id n)) xs"
    using assms(2) by induction (auto simp: standsFor_def)
  finally have m: "map (\<lambda>e. (e_type e, e_blobId e, e_sourceNodeId e)) es = map (\<lambda>n. (n_type n, n_blobId n, n_id n)) xs" .
  from arg_cong [OF m, of "map (\<lambda>(_, x, _). holds b x)"]
  show "weigh (\<lambda>e. holds b (e_blobId e)) es = weigh (nodeRef b) xs" by (simp add: weigh_def comp_def)
  assume "e \<in> set es"
  then have "(e_type e, e_blobId e, e_sourceNodeId e) \<in> set (map (\<lambda>n. (n_type n, n_blobId n, n_id n)) xs)"
    unfolding m [symmetric] by simp
  then show "\<exists>n\<in>set xs. e_type e = n_type n \<and> e_blobId e = n_blobId n \<and> e_sourceNodeId e = n_id n" by auto
qed

lemma capture_ledger:
  assumes run: "capture env path rows s = (Inr i, t)" and l: "ledger env s dn db df own"
    and xs: "list_all2 standsFor rows xs" "set xs \<subseteq> set (t_nodes s)"
  shows "ledger env t dn db df (\<lambda>b. own b - weigh (nodeRef b) xs)"
    and "t_nodes t = t_nodes s" and "x_namespaceId t = x_namespaceId s" and "x_rootId t = x_rootId s"
proof -
  from run obtain es namespace tr total where e: "list_all2 (keeps (x_namespaceId s) i) es rows"
    and ns: "findNamespace (x_namespaceId s) (namespaces (x_db s)) = Some namespace"
    and tr: "t_namespaceId tr = x_namespaceId s" "t_nodeCount tr = int (length rows)" "t_logicalBytes tr = total"
    and t: "t = s\<lparr> x_next := Suc (x_next s) + length rows, x_trashByteDelta := x_trashByteDelta s + total,
       x_logicalByteDelta := x_logicalByteDelta s + total,
       x_db := (x_db s)\<lparr> trashes := trashes (x_db s) @ [tr], trashEntries := trashEntries (x_db s) @ es,
         namespaces := updateRows (\<lambda>n. ns_id n = x_namespaceId s) (\<lambda>n. n\<lparr>
           ns_retainedTrashNodeCount := ns_retainedTrashNodeCount namespace + int (length rows),
           ns_retainedTrashByteCount := ns_retainedTrashByteCount namespace + total \<rparr>) (namespaces (x_db s)) \<rparr> \<rparr>"
    by (rule capture_run)
  from ns have nsIn: "namespace \<in> set (namespaces (x_db s))" "ns_id namespace = x_namespaceId s"
    by (auto dest: findNamespace_SomeD)
  note w = entry_weights [OF e xs(1)]
  note v = ledger_valid [OF l]
  have ent: "e_type e = FILE \<and> b \<in> b_id ` set (t_blobs s)" if "e \<in> set es" and eb: "e_blobId e = Some b" for e b
  proof -
    from w(2) [OF that(1)] xs(2) obtain n where n: "n \<in> set (t_nodes s)" "e_type e = n_type n" "n_blobId n = Some b"
      using eb by auto
    with valid_row(1,4) [OF v n(1)] show ?thesis
      by (auto simp: typeContent_def blobOk_def split: node_type.splits)
  qed
  have src: "env_uuid env j \<noteq> e_sourceNodeId e" if "e \<in> set es" "x_next s \<le> j" for e j
    using w(2) [OF that(1)] xs(2) ledger_past [OF l _ that(2)] by (metis subsetD)
  have "rowsOk (x_db t)"
    using l ent unfolding t ledger_def rowsOk_def by (auto simp: namespaceKey.distinct_update)
  moreover have "namespaceOk (x_namespaceId t) (x_db t) (dn - x_liveNodeDelta t) (db - x_liveFileByteDelta t)"
    using l unfolding t ledger_def namespaceOk_def by (auto simp: set_updateRows split: if_splits)
  moreover have "refsOk (x_db t) (\<lambda>b. own b - weigh (nodeRef b) xs)"
    using l unfolding t ledger_def refsOk_def refs_def by (simp add: w(1))
  moreover have "trashOk (x_namespaceId t) (x_db t)"
    using l nsIn unfolding t ledger_def trashOk_def by (auto simp: set_updateRows tr split: if_splits)
  moreover have "freshIds env (x_next t) (x_db t)"
    using l src unfolding t ledger_def freshIds_def by (auto simp: image_iff)
  ultimately show "ledger env t dn db df (\<lambda>b. own b - weigh (nodeRef b) xs)"
    using l unfolding ledger_def foldersOk_def by (simp add: t)
  show "t_nodes t = t_nodes s" "x_namespaceId t = x_namespaceId s" "x_rootId t = x_rootId s" by (simp_all add: t)
qed

lemma blobCounts_weigh:
  assumes "list_all2 standsFor rows xs" and "\<forall>q\<in>set xs. typeContent q"
  shows "weigh (\<lambda>r. holds b (if s_type r = FILE then s_blobId r else None)) rows = weigh (nodeRef b) xs"
  using assms by induction (auto simp: standsFor_def typeContent_def weights split: node_type.splits)

lemma moveToTrash_ledger:
  assumes run: "moveToTrash env segs rows s = (Inr r, t)" and l: "books env s"
    and xs: "list_all2 standsFor rows xs" "distinct (map n_id xs)" "set xs \<subseteq> set (t_nodes s)"
      "\<forall>q\<in>set xs. n_namespaceId q = x_namespaceId s \<and> n_parentId q \<noteq> None"
  shows "books env t" and "x_namespaceId t = x_namespaceId s" and "x_rootId t = x_rootId s"
    and "t_nodes t = filter (\<lambda>n. n_id n \<notin> n_id ` set xs) (t_nodes s)"
proof -
  from run obtain u1 u2 s1 s1' s2 s3 ns namespace bytes where
    track: "trackChangeFeedBefore (map s_id rows) s = (Inr u1, s1)"
    and namespace: "getNamespaceOrFail ns s1 = (Inr namespace, s1')"
    and book: "foldProg bookRemoval 0 rows s1' = (Inr bytes, s2)"
    and rec: "recordLiveNodeDelta (- int (length rows)) s2 = (Inr u2, s3)"
    and go: "(if \<not> ns_trashEnabled namespace
       then andThen (deleteNodes rows)
            (andThen (recordLiveByteDelta (- bytes))
            (andThen (forEach (blobCounts rows) (\<lambda>(b, c). decrementReferenceCount env b c))
            (ret None)))
       else bind (capture env (joinSegments segs) rows) (\<lambda>trashId.
            andThen (forEach (blobCounts rows) (\<lambda>(b, c). bind (incrementLiveReferenceCount ns b c)
              (\<lambda>live. throwIf (\<not> live) (InternalError ''Trash source Blob is not live''))))
            (andThen (deleteNodes rows)
            (andThen (recordLiveByteDelta (- bytes))
            (andThen (forEach (blobCounts rows) (\<lambda>(b, c). decrementReferenceCount env b c))
            (ret (Some trashId))))))) s3 = (Inr r, t)"
    unfolding moveToTrash_def
    by (elim bindE andThenE getsE) blast
  have s1': "s1' = s1" using namespace by (simp add: monad_simps)
  note q1 = quietD [OF quiet_track track]
  have l1: "books env s1" using l by (simp add: ledger_core [OF q1])
  note x1 = core_sel [OF q1]
  from bookRemoval_ledger [OF book [unfolded s1'] xs(1) l1] xs(3,4) rec have l3:
    "ledger env s3 (- int (length rows)) 0 (\<lambda>i. - weigh (fileChild i) xs) (\<lambda>_. 0)"
    and bytes: "bytes = weigh (liveByte (x_namespaceId s)) xs" and x3: "x_db s3 = x_db s" "x_namespaceId s3 = x_namespaceId s" "x_rootId s3 = x_rootId s"
    using recordLiveNodeDelta_ledger [OF rec] by (force simp: x1 monad_simps)+
  have tc: "\<forall>q\<in>set xs. typeContent q" using xs(3) valid_row(1) [OF ledger_valid [OF l]] by blast
  have finish: "books env t \<and> x_namespaceId t = x_namespaceId s \<and> x_rootId t = x_rootId s \<and>
      t_nodes t = filter (\<lambda>n. n_id n \<notin> n_id ` set xs) (t_nodes s)"
    if tail: "andThen (deleteNodes rows) (andThen (recordLiveByteDelta (- bytes))
        (andThen (forEach (blobCounts rows) (\<lambda>(b, c). decrementReferenceCount env b c)) (ret out))) s4 = (Inr r, t)"
      and l4: "ledger env s4 (- int (length rows)) 0 (\<lambda>i. - weigh (fileChild i) xs) (\<lambda>_. 0)"
      and x4: "t_nodes s4 = t_nodes s" "x_namespaceId s4 = x_namespaceId s" "x_rootId s4 = x_rootId s" for out s4
  proof -
    from tail obtain v1 v2 v3 s5 s6 where del: "deleteNodes rows s4 = (Inr v1, s5)"
      and byte: "recordLiveByteDelta (- bytes) s5 = (Inr v2, s6)"
      and dec: "forEach (blobCounts rows) (\<lambda>(b, c). decrementReferenceCount env b c) s6 = (Inr v3, t)"
      by (elim monad_elims) blast
    have "set xs \<subseteq> set (t_nodes s4)" "\<forall>q\<in>set xs. n_namespaceId q = x_namespaceId s4 \<and> n_parentId q \<noteq> None"
      using xs(3,4) x4 by simp_all
    note d = deleteNodes_ledger [OF del l4 xs(1,2) this]
    from d(1) have "ledger env s5 0 bytes (\<lambda>_. 0) (\<lambda>b. weigh (nodeRef b) xs)" by (simp add: bytes x4)
    from recordLiveByteDelta_ledger [OF byte this]
    have "ledger env s6 0 0 (\<lambda>_. 0) (\<lambda>b. weigh (nodeRef b) xs)" by simp
    from decrement_loop [OF dec [unfolded blobCounts_def] this] blobCounts_weigh [OF xs(1) tc]
    have "books env t" "sameTables s6 t" by simp_all
    with byte d(2-4) x4 show ?thesis by (auto simp: sameTables_def monad_simps)
  qed
  have "books env t \<and> x_namespaceId t = x_namespaceId s \<and> x_rootId t = x_rootId s \<and>
      t_nodes t = filter (\<lambda>n. n_id n \<notin> n_id ` set xs) (t_nodes s)"
  proof (cases "ns_trashEnabled namespace")
    case False
    with go have "andThen (deleteNodes rows) (andThen (recordLiveByteDelta (- bytes))
        (andThen (forEach (blobCounts rows) (\<lambda>(b, c). decrementReferenceCount env b c)) (ret None))) s3 = (Inr r, t)" by simp
    from finish [OF this l3] x3 show ?thesis by simp
  next
    case True
    with go obtain i v s4 s5 where cap: "capture env (joinSegments segs) rows s3 = (Inr i, s4)"
      and pin: "forEach (blobCounts rows) (\<lambda>(b, c). bind (incrementLiveReferenceCount ns b c)
              (\<lambda>live. throwIf (\<not> live) (InternalError ''Trash source Blob is not live''))) s4 = (Inr v, s5)"
      and tail: "andThen (deleteNodes rows) (andThen (recordLiveByteDelta (- bytes))
        (andThen (forEach (blobCounts rows) (\<lambda>(b, c). decrementReferenceCount env b c)) (ret (Some i)))) s5 = (Inr r, t)"
      by (simp only: if_not_P if_False not_not simp_thms if_True) (elim bindE andThenE [of "forEach _ _"], blast)
    have "set xs \<subseteq> set (t_nodes s3)" using xs(3) x3 by simp
    note c = capture_ledger [OF cap l3 xs(1) this]
    from pin_loop [OF pin [unfolded blobCounts_def] c(1)] blobCounts_weigh [OF xs(1) tc]
    have l5: "ledger env s5 (- int (length rows)) 0 (\<lambda>i. - weigh (fileChild i) xs) (\<lambda>_. 0)" "sameTables s4 s5" by simp_all
    from finish [OF tail l5(1)] l5(2) c(2-4) x3 show ?thesis by (simp add: sameTables_def)
  qed
  then show "books env t" "x_namespaceId t = x_namespaceId s" "x_rootId t = x_rootId s"
    "t_nodes t = filter (\<lambda>n. n_id n \<notin> n_id ` set xs) (t_nodes s)" by simp_all
qed

section \<open>Removing a node\<close>

lemma findNode_row:
  assumes "validNodes tbl bl" and "r \<in> set tbl" and "n_namespaceId r = ns"
  shows "findNode ns (n_id r) tbl = Some r"
  unfolding findNode_def by (rule findRow_unique) (use assms in \<open>auto dest: valid_id_eq\<close>)

text \<open>The node a walk without new directories ends at is the node its path names.\<close>

lemma locked_target:
  assumes walk: "lockParentChain env ns rootId segs False mark s = (Inr p, s1)"
    and look: "lockTargetNode ns p (lastSegment segs) s1 = (Inr (Some n), s2)" and r: "ready env ns rootId s"
  shows "books env s2" and "x_namespaceId s2 = ns" and "x_rootId s2 = rootId" and "t_nodes s2 = t_nodes s"
    and "resolvePathInManager ns rootId segs (t_nodes s) = Some n" and "n \<in> set (t_nodes s)"
    and "n_namespaceId n = ns" and "n_parentId n = Some p" and "n_name n = lastSegment segs" and "segs \<noteq> []"
proof -
  from r obtain root where b: "books env s" and ns: "ns = x_namespaceId s" and rid: "x_rootId s = rootId"
    and root: "root \<in> set (t_nodes s)" "n_id root = rootId" "n_namespaceId root = ns" "n_type root = DIRECTORY"
    and rin: "rootId \<in> n_id ` set (t_nodes s)" by (rule readyE)
  note w = lockParentChain_ledger [OF walk b ns rin]
  note sp = lockParentChain_spec [OF walk root(2,4)]
  note k = lookup_ledger [OF look w(1) w(2) [symmetric]]
  show "books env s2" "x_namespaceId s2 = ns" "x_rootId s2 = rootId" using k w rid by simp_all
  have same: "t_nodes s1 = t_nodes s" using sp(2) by simp
  then show same2: "t_nodes s2 = t_nodes s" using k(5) by simp
  have child: "findChild ns p (lastSegment segs) (t_nodes s) = Some n" using k(3) same2 by simp
  from findChild_SomeD [OF this] show "n \<in> set (t_nodes s)" "n_namespaceId n = ns" "n_parentId n = Some p"
    "n_name n = lastSegment segs" by simp_all
  obtain q where "resolveFrom ns (t_nodes s) (Some root) (butlast segs) = Some q" "n_id q = p" "n_type q = DIRECTORY"
    using sp(3) same by auto
  from lookup_path [OF this(1,3) _ ledger_valid [OF b]] child this(2)
  have "segs \<noteq> []" "resolveFrom ns (t_nodes s) (Some root) segs = Some n" by auto
  with findNode_row [OF ledger_valid [OF b] root(1,3)] root(2)
  show "resolvePathInManager ns rootId segs (t_nodes s) = Some n" "segs \<noteq> []"
    by (simp_all add: resolvePathInManager_def)
qed

text \<open>What is removed: a list of distinct nodes of the namespace, none of them a root.\<close>

text \<open>The table without a node and rows below it.\<close>

definition cut :: "node \<Rightarrow> node list \<Rightarrow> node list \<Rightarrow> bool" where
  "cut n tbl tbl' \<longleftrightarrow> (\<exists>gone. n_id n \<in> gone \<and> (\<forall>i\<in>gone. below tbl (n_id n) i) \<and> tbl' = filter (\<lambda>x. n_id x \<notin> gone) tbl)"

lemma cut_subset: "cut n tbl tbl' \<Longrightarrow> set tbl' \<subseteq> set tbl"
  by (auto simp: cut_def)

lemma remove_captured:
  assumes cap: "captureSnapshotRows segs limit s = (Inr rows, s')" and mv: "moveToTrash env segs rows s' = (Inr r, t)"
    and b: "books env s" and n: "resolvePathInManager (x_namespaceId s) (x_rootId s) segs (t_nodes s) = Some n"
      "n_namespaceId n = x_namespaceId s" "n_parentId n \<noteq> None" "n \<in> set (t_nodes s)"
  shows "books env t \<and> x_namespaceId t = x_namespaceId s \<and> x_rootId t = x_rootId s \<and> cut n (t_nodes s) (t_nodes t)"
proof -
  from cap b n obtain xs where xs: "s' = s" "list_all2 standsFor rows xs" "distinct (map n_id xs)" "set xs \<subseteq> set (t_nodes s)"
    "\<forall>q\<in>set xs. n_namespaceId q = x_namespaceId s \<and> n_parentId q \<noteq> None"
    and down: "n \<in> set xs" "\<forall>q\<in>set xs. below (t_nodes s) (n_id n) (n_id q)" by (rule captureSnapshotRows_spec)
  note mt = moveToTrash_ledger [OF mv [unfolded xs(1)] b xs(2-5)]
  have "cut n (t_nodes s) (t_nodes t)" unfolding cut_def by (rule exI [of _ "n_id ` set xs"]) (use mt(4) down in auto)
  with mt show ?thesis by simp
qed

lemma removeNode_ledger:
  assumes run: "removeNode env ns rootId segs recursive limit s = (Inr r, t)" and ready: "ready env ns rootId s"
  shows "books env t" and "x_namespaceId t = ns" and "x_rootId t = rootId" and "set (t_nodes t) \<subseteq> set (t_nodes s)"
    and "\<exists>n. resolvePathInManager ns rootId segs (t_nodes s) = Some n \<and> segs \<noteq> [] \<and> cut n (t_nodes s) (t_nodes t)"
proof -
  from run obtain p n s1 s2 s3 rows where walk: "lockParentChain env ns rootId segs False True s = (Inr p, s1)"
    and look: "lockTargetNode ns p (lastSegment segs) s1 = (Inr (Some n), s2)"
    and cap: "captureSnapshotRows segs (if n_type n = FILE then 1 else limit) s2 = (Inr rows, s3)"
    and mv: "moveToTrash env segs rows s3 = (Inr r, t)"
    unfolding removeNode_def by (elim bindE) (auto simp: monad_simps split: option.splits)
  note k = locked_target [OF walk look ready]
  have "books env t \<and> x_namespaceId t = ns \<and> x_rootId t = rootId \<and> cut n (t_nodes s) (t_nodes t)"
    using remove_captured [OF cap mv k(1)] k by simp
  with cut_subset k(5,10)
  show "books env t" "x_namespaceId t = ns" "x_rootId t = rootId" "set (t_nodes t) \<subseteq> set (t_nodes s)"
    "\<exists>n. resolvePathInManager ns rootId segs (t_nodes s) = Some n \<and> segs \<noteq> [] \<and> cut n (t_nodes s) (t_nodes t)" by blast+
qed

lemma removeEmptyDirectory_ledger:
  assumes run: "removeEmptyDirectory env ns rootId segs s = (Inr r, t)" and ready: "ready env ns rootId s"
  shows "books env t" and "x_namespaceId t = ns" and "x_rootId t = rootId" and "set (t_nodes t) \<subseteq> set (t_nodes s)"
    and "\<exists>n. resolvePathInManager ns rootId segs (t_nodes s) = Some n \<and> segs \<noteq> [] \<and> cut n (t_nodes s) (t_nodes t)"
proof -
  from run obtain p n s1 s2 s3 rows where walk: "lockParentChain env ns rootId segs False True s = (Inr p, s1)"
    and look: "lockTargetNode ns p (lastSegment segs) s1 = (Inr (Some n), s2)"
    and cap: "captureSnapshotRows segs 1 s2 = (Inr rows, s3)"
    and mv: "moveToTrash env segs rows s3 = (Inr r, t)"
    unfolding removeEmptyDirectory_def by (elim bindE) (auto simp: monad_simps split: option.splits)
  note k = locked_target [OF walk look ready]
  have "books env t \<and> x_namespaceId t = ns \<and> x_rootId t = rootId \<and> cut n (t_nodes s) (t_nodes t)"
    using remove_captured [OF cap mv k(1)] k by simp
  with cut_subset k(5,10)
  show "books env t" "x_namespaceId t = ns" "x_rootId t = rootId" "set (t_nodes t) \<subseteq> set (t_nodes s)"
    "\<exists>n. resolvePathInManager ns rootId segs (t_nodes s) = Some n \<and> segs \<noteq> [] \<and> cut n (t_nodes s) (t_nodes t)" by blast+
qed

interpretation remove: balanced_work env ns rootId "removeNode env ns rootId segs recursive limit"
  for env ns rootId segs recursive limit
  by unfold_locales (auto dest: removeNode_ledger)

interpretation rmdir: balanced_work env ns rootId "removeEmptyDirectory env ns rootId segs" for env ns rootId segs
  by unfold_locales (auto dest: removeEmptyDirectory_ledger)

end
