(* ===== verification/CopyBooks.thy ===== *)
theory CopyBooks
  imports Removal
begin

text \<open>
  The books of copy. A copied FILE shares its source's Blob; a copied directory is built in memory
  with fresh ids, inserted, and then recorded: bytes, nodes, FILE children by directory, references
  by Blob.
\<close>

section \<open>Building the rows\<close>

definition copied :: "env \<Rightarrow> jstring \<Rightarrow> nat \<Rightarrow> nat \<Rightarrow> node \<Rightarrow> bool" where
  "copied env ns k k' r \<longleftrightarrow> n_namespaceId r = ns \<and> n_childFileCount r = 0 \<and>
     (\<exists>j p. k \<le> j \<and> j < k' \<and> n_id r = env_uuid env j \<and> n_parentId r = Some p \<and> p \<noteq> n_id r)"

lemma copied_mono: "copied env ns k k' r \<Longrightarrow> k' \<le> k'' \<Longrightarrow> copied env ns k k'' r"
  by (fastforce simp: copied_def)

definition framed :: "tx \<Rightarrow> tx \<Rightarrow> bool" where
  "framed s t \<longleftrightarrow> x_db t = x_db s \<and> x_namespaceId t = x_namespaceId s \<and> x_rootId t = x_rootId s \<and>
     x_folderFileDeltas t = x_folderFileDeltas s \<and> x_next s \<le> x_next t"

lemma framed_refl [simp]: "framed s s"
  by (simp add: framed_def)

lemma framed_trans: "framed s t \<Longrightarrow> framed t u \<Longrightarrow> framed s u"
  by (auto simp: framed_def)

definition drawn :: "env \<Rightarrow> nat \<Rightarrow> uuid \<Rightarrow> bool" where
  "drawn env k i \<longleftrightarrow> (\<exists>j<k. i = env_uuid env j)"

lemma drawn_Suc [simp]: "drawn env (Suc k) i \<longleftrightarrow> i = env_uuid env k \<or> drawn env k i"
  by (auto simp: drawn_def less_Suc_eq)

lemma drawn_mono: "drawn env k i \<Longrightarrow> k \<le> k' \<Longrightarrow> drawn env k' i"
  unfolding drawn_def by (elim exE conjE) (rule exI, auto)

text \<open>What a turn of the loops keeps of its queue and its rows.\<close>

definition building :: "env \<Rightarrow> jstring \<Rightarrow> nat \<Rightarrow> tx \<Rightarrow> (uuid \<times> uuid) list \<Rightarrow> node list \<Rightarrow> bool" where
  "building env ns k s queue rows \<longleftrightarrow> k \<le> x_next s \<and> (\<forall>q\<in>set queue. drawn env (x_next s) (snd q)) \<and>
     (\<forall>r\<in>set rows. copied env ns k (x_next s) r)"

lemma copyChild_ledger:
  assumes run: "copyChild env ns ex p (queue, rows) child s = (Inr (queue', rows'), t)"
    and l: "ledger env s dn db df own" and ns: "ns = x_namespaceId s"
    and b: "building env ns k s queue rows" and p: "drawn env (x_next s) p"
  shows "ledger env t dn (db + weigh (liveByte ns) rows' - weigh (liveByte ns) rows) df own"
    and "building env ns k t queue' rows'" and "framed s t"
proof -
  let ?i = "env_uuid env (x_next s)" and ?s = "s\<lparr> x_next := Suc (x_next s) \<rparr>"
  let ?r = "newNode env ?i ns p (n_type child) (n_name child) (n_blobId child)
       (n_size child) (n_mimeType child) (if n_type child = FILE then ex else None)"
  have inj: "inj (env_uuid env)" using l by (simp add: ledger_def freshIds_def)
  have "p \<noteq> ?i" using p inj by (auto simp: drawn_def dest: injD)
  then have new: "copied env ns k (Suc (x_next s)) ?r"
    using b by (auto simp: copied_def newNode_def building_def)
  have rows': "rows' = rows @ [?r]" using run by (auto simp: copyChild_def monad_simps)
  have "(n_type child = DIRECTORY \<and> queue' = queue @ [(n_id child, ?i)] \<and> t = ?s) \<or>
     (\<exists>u z. n_type child = FILE \<and> n_size child = Some z \<and> queue' = queue \<and> recordLiveByteDelta z ?s = (Inr u, t))"
    using run by (cases "n_type child") (auto simp: copyChild_def monad_simps split: option.splits)
  then have "ledger env t dn (db + liveByte ns ?r) df own \<and> framed s t \<and> x_next t = Suc (x_next s) \<and>
      (queue' = queue \<or> queue' = queue @ [(n_id child, ?i)])"
  proof (elim disjE exE conjE)
    assume "n_type child = DIRECTORY" "queue' = queue @ [(n_id child, ?i)]" "t = ?s"
    then show ?thesis using ledger_next [OF l] by (simp add: framed_def liveByte_def newNode_def)
  next
    fix u z assume "n_type child = FILE" "n_size child = Some z" "queue' = queue" and z: "recordLiveByteDelta z ?s = (Inr u, t)"
    moreover from this ns have "liveByte ns ?r = z" by (simp add: liveByte_def newNode_def)
    ultimately show ?thesis
      using recordLiveByteDelta_ledger [OF z ledger_next [OF l]] by (simp add: framed_def monad_simps)
  qed
  then have c: "ledger env t dn (db + liveByte ns ?r) df own" "framed s t" "x_next t = Suc (x_next s)"
    "queue' = queue \<or> queue' = queue @ [(n_id child, ?i)]" by blast+
  show "ledger env t dn (db + weigh (liveByte ns) rows' - weigh (liveByte ns) rows) df own"
    using c(1) by (simp add: rows')
  show "framed s t" by (rule c(2))
  have "\<forall>r\<in>set rows. copied env ns k (Suc (x_next s)) r" using b copied_mono by (auto simp: building_def)
  then show "building env ns k t queue' rows'"
    using b new c(3,4) unfolding building_def rows' by auto
qed

lemma copyChildren_ledger:
  assumes "foldProg (copyChild env ns ex p) (queue, rows) cs s = (Inr (queue', rows'), t)"
    and "ledger env s dn db df own" and "ns = x_namespaceId s" and "building env ns k s queue rows" and "drawn env (x_next s) p"
  shows "ledger env t dn (db + weigh (liveByte ns) rows' - weigh (liveByte ns) rows) df own \<and>
    building env ns k t queue' rows' \<and> framed s t"
  using assms
proof (induction cs arbitrary: queue rows s db)
  case Nil
  then show ?case by (simp add: monad_simps)
next
  case (Cons c cs)
  from Cons.prems(1) obtain q1 r1 s1 where one: "copyChild env ns ex p (queue, rows) c s = (Inr (q1, r1), s1)"
    and rest: "foldProg (copyChild env ns ex p) (q1, r1) cs s1 = (Inr (queue', rows'), t)" by (auto simp: monad_simps)
  note a = copyChild_ledger [OF one Cons.prems(2-5)]
  have "ns = x_namespaceId s1" "drawn env (x_next s1) p" using a(3) Cons.prems(3,5) by (auto simp: framed_def intro: drawn_mono)
  from Cons.IH [OF rest a(1) this(1) a(2) this(2)] a(3) show ?case by (auto intro: framed_trans simp: algebra_simps)
qed

lemma copyLoop_ledger:
  assumes "copyLoop env ns ex ch fuel queue rows s = (Inr rows', t)"
    and "ledger env s dn db df own" and "ns = x_namespaceId s" and "building env ns k s queue rows"
  shows "ledger env t dn (db + weigh (liveByte ns) rows' - weigh (liveByte ns) rows) df own \<and>
    building env ns k t [] rows' \<and> framed s t"
  using assms
proof (induction env ns ex ch fuel queue rows arbitrary: s db rule: copyLoop.induct)
  case (1 env ns ex ch fuel rows)
  then show ?case by (simp add: monad_simps)
next
  case (2 env ns ex ch q queue rows)
  then show ?case by (simp add: monad_simps)
next
  case (3 env ns ex ch fuel old new queue rows)
  from "3.prems"(1) obtain q1 r1 s1 where turn: "foldProg (copyChild env ns ex new) (queue, rows) (ch old) s = (Inr (q1, r1), s1)"
    and rest: "copyLoop env ns ex ch fuel q1 r1 s1 = (Inr rows', t)"
    by (auto simp: monad_simps)
  have "building env ns k s queue rows" "drawn env (x_next s) new" using "3.prems"(4) by (auto simp: building_def)
  note a = copyChildren_ledger [OF turn "3.prems"(2,3) this]
  then have "ns = x_namespaceId s1" using "3.prems"(3) by (auto simp: framed_def)
  from "3.IH" [OF rest conjunct1 [OF a] this conjunct1 [OF conjunct2 [OF a]]] a
  show ?case by (auto intro: framed_trans simp: algebra_simps)
qed

section \<open>Inserting and recording the rows\<close>

lemma insertCopies_ledger:
  assumes "forEach rows insertNode s = (Inr u, t)" and "ledger env s dn db (\<lambda>i. - weigh (fileChild i) past) own"
    and "set past \<subseteq> set (t_nodes s)" and "\<forall>r\<in>set rows. copied env (x_namespaceId s) k (x_next s) r"
    and "\<forall>r\<in>set rows. n_id r \<notin> fst ` set (x_folderFileDeltas s)"
  shows "ledger env t (dn - int (length rows)) (db - weigh (liveByte (x_namespaceId s)) rows)
      (\<lambda>i. - weigh (fileChild i) (past @ rows)) (\<lambda>b. own b - weigh (nodeRef b) rows) \<and>
    set (past @ rows) \<subseteq> set (t_nodes t) \<and> x_namespaceId t = x_namespaceId s \<and> x_rootId t = x_rootId s \<and>
    set (t_nodes s) \<subseteq> set (t_nodes t)"
  using assms
proof (induction rows arbitrary: s dn db own past)
  case Nil
  then show ?case by (simp add: monad_simps)
next
  case (Cons r rows)
  let ?s = "withNodes s (insertRow r (t_nodes s))"
  from Cons.prems(1) have c: "checkNodeRow r (t_nodes s) (t_blobs s) = None"
    and rest: "forEach rows insertNode ?s = (Inr u, t)" by (auto simp: monad_simps)
  from Cons.prems(4) obtain j p where r: "n_namespaceId r = x_namespaceId s" "n_childFileCount r = 0" "j < x_next s"
    "n_id r = env_uuid env j" "n_parentId r = Some p" "p \<noteq> n_id r" by (auto simp: copied_def)
  note l = Cons.prems(2)
  have inj: "inj (env_uuid env)" using l by (simp add: ledger_def freshIds_def)
  have new: "\<forall>q\<in>set (t_nodes s). n_id q \<noteq> n_id r" using c by (simp add: checkNodeRow_None)
  have "weigh (fileChild (n_id r)) past = 0"
  proof (rule weigh_zero)
    fix q assume "q \<in> set past"
    then have q: "q \<in> set (t_nodes s)" using Cons.prems(3) by blast
    have "n_parentId q \<noteq> Some (n_id r)"
    proof
      assume "n_parentId q = Some (n_id r)"
      with ledger_valid [OF l] q obtain y where "y \<in> set (t_nodes s)" "n_id y = n_id r" by (rule valid_parent)
      with new show False by simp
    qed
    then show "fileChild (n_id r) q = 0" by (simp add: fileChild_def)
  qed
  moreover have "folderDelta (x_folderFileDeltas s) (n_id r) = 0" using Cons.prems(5) by (intro map_of_fst) simp
  ultimately have "ledger env ?s (dn - 1) (db - liveByte (x_namespaceId s) r)
      (\<lambda>i. - weigh (fileChild i) past - fileChild i r) (\<lambda>b. own b - nodeRef b r)"
    using r inj by (intro ledger_insert [OF l c]) (auto dest: injD)
  then have "ledger env ?s (dn - 1) (db - liveByte (x_namespaceId s) r)
      (\<lambda>i. - weigh (fileChild i) (past @ [r])) (\<lambda>b. own b - nodeRef b r)"
    by (simp add: minus_add_distrib)
  from Cons.IH [OF rest this] Cons.prems(3-5) show ?case by (auto simp: algebra_simps)
qed

lemma tally_keys: "fst ` set (tally ks) \<subseteq> set ks"
proof (induction ks rule: rev_induct)
  case (snoc k ks)
  have "fst ` set (tally (ks @ [k])) = insert k (fst ` set (tally ks))" by (simp add: tally_def dom_update)
  with snoc show ?case by auto
qed (simp add: tally_def)

lemma folders_loop:
  assumes "forEach xs (\<lambda>(p, c). recordFolderFileDelta p c) s = (Inr u, t)" and "ledger env s dn db df own"
    and "\<forall>x\<in>set xs. fst x \<in> n_id ` set (t_nodes s)"
  shows "ledger env t dn db (\<lambda>i. df i + weigh (\<lambda>(p, c). if p = i then c else 0) xs) own \<and> x_db t = x_db s \<and>
    x_namespaceId t = x_namespaceId s \<and> x_rootId t = x_rootId s"
  using assms
proof (induction xs arbitrary: s df)
  case Nil
  then show ?case by (simp add: monad_simps)
next
  case (Cons x xs)
  obtain p c where x: "x = (p, c)" by (cases x)
  from Cons.prems(1) obtain v s1 where a: "recordFolderFileDelta p c s = (Inr v, s1)"
    and rest: "forEach xs (\<lambda>(p, c). recordFolderFileDelta p c) s1 = (Inr u, t)" by (auto simp: monad_simps x)
  have "env_uuid env j \<noteq> p" if "x_next s \<le> j" for j
    using Cons.prems(3) ledger_past [OF Cons.prems(2) _ that] by (auto simp: x)
  note l1 = recordFolderFileDelta_ledger [OF a Cons.prems(2) this]
  have s1: "x_db s1 = x_db s" "x_namespaceId s1 = x_namespaceId s" "x_rootId s1 = x_rootId s"
    using a by (simp_all add: monad_simps)
  have "(\<lambda>i. (df(p := df p + c)) i + weigh (\<lambda>(p, c). if p = i then c else 0) xs) =
      (\<lambda>i. df i + weigh (\<lambda>(p, c). if p = i then c else 0) (x # xs))" by (auto simp: x)
  with Cons.IH [OF rest l1] Cons.prems(3) s1 show ?case by simp
qed

lemma increment_loop:
  assumes "forEach (sortBy byKey (tally (List.map_filter f xs))) (\<lambda>(b, c). incrementReferenceCount b c) s = (Inr u, t)"
    and "ledger env s dn db df own"
  shows "ledger env t dn db df (\<lambda>b. own b + weigh (\<lambda>x. holds b (f x)) xs) \<and> sameTables s t"
proof -
  have "ledger env t dn db df (\<lambda>b. own b + 1 * weigh (\<lambda>(i, c). if i = b then c else 0)
      (sortBy byKey (tally (List.map_filter f xs)))) \<and> sameTables s t"
    by (rule references_loop [OF _ assms(1,2)])
      (auto simp: sameTables_def dest: incrementReferenceCount_ledger, auto simp: incrementReferenceCount_def)
  then show ?thesis by (simp add: weigh_sortBy tally_weigh count_holds)
qed

lemma bookCopies_ledger:
  assumes run: "bookCopies rows s = (Inr u, t)"
    and l: "ledger env s (- 1 - int (length rows)) 0 (\<lambda>i. - weigh (fileChild i) rows) (\<lambda>b. - weigh (nodeRef b) rows)"
    and rows: "set rows \<subseteq> set (t_nodes s)" "\<forall>r\<in>set rows. n_parentId r \<noteq> None"
  shows "books env t" and "x_namespaceId t = x_namespaceId s" and "x_rootId t = x_rootId s"
proof -
  let ?f = "\<lambda>r. if n_type r = FILE then n_parentId r else None"
  let ?g = "\<lambda>r. if n_type r = FILE then n_blobId r else None"
  from run obtain u1 u2 u3 s1 s2 s3 where m: "forEach rows (\<lambda>r. markChanged (n_id r) False) s = (Inr u1, s1)"
    and n: "recordLiveNodeDelta (int (length rows) + 1) s1 = (Inr u2, s2)"
    and fo: "forEach (tally (List.map_filter ?f rows)) (\<lambda>(p, c). recordFolderFileDelta p c) s2 = (Inr u3, s3)"
    and re: "forEach (sortBy byKey (tally (List.map_filter ?g rows))) (\<lambda>(b, c). incrementReferenceCount b c) s3 = (Inr u, t)"
    unfolding bookCopies_def by (elim monad_elims) blast
  have "quiet (forEach rows (\<lambda>r. markChanged (n_id r) False))" by auto
  note q = quietD [OF this m]
  have "ledger env s1 (- 1 - int (length rows)) 0 (\<lambda>i. - weigh (fileChild i) rows) (\<lambda>b. - weigh (nodeRef b) rows)"
    using l by (simp add: ledger_core [OF q])
  from recordLiveNodeDelta_ledger [OF n this]
  have l2: "ledger env s2 0 0 (\<lambda>i. - weigh (fileChild i) rows) (\<lambda>b. - weigh (nodeRef b) rows)" by simp
  have v: "validNodes (t_nodes s2) (t_blobs s2)" by (rule ledger_valid [OF l2])
  have s2: "t_nodes s2 = t_nodes s" using n by (simp add: monad_simps core_sel [OF q])
  have par: "fst x \<in> n_id ` set (t_nodes s2)" if "x \<in> set (tally (List.map_filter ?f rows))" for x
  proof -
    have "fst x \<in> set (List.map_filter ?f rows)"
      using that tally_keys by (meson imageI subsetD)
    then obtain r where r: "r \<in> set rows" "n_parentId r = Some (fst x)"
      by (auto simp: List.map_filter_def split: if_splits)
    then have "r \<in> set (t_nodes s2)" using rows(1) s2 by auto
    from v this r(2) obtain y where "y \<in> set (t_nodes s2)" "n_id y = fst x" by (rule valid_parent)
    then show ?thesis by (metis imageI)
  qed
  then have "\<forall>x\<in>set (tally (List.map_filter ?f rows)). fst x \<in> n_id ` set (t_nodes s2)" by blast
  note fl = folders_loop [OF fo l2 this]
  have "weigh (\<lambda>x. holds i (?f x)) rows = weigh (fileChild i) rows" for i
    by (intro weigh_cong) (auto simp: weights)
  then have l3: "ledger env s3 0 0 (\<lambda>_. 0) (\<lambda>b. - weigh (nodeRef b) rows)"
    using fl by (simp add: tally_weigh count_holds)
  have "weigh (\<lambda>x. holds b (?g x)) rows = weigh (nodeRef b) rows" for b
  proof (rule weigh_cong)
    fix r assume "r \<in> set rows"
    then have "typeContent r" using rows(1) s2 by (intro valid_row(1) [OF v]) auto
    then show "holds b (?g r) = nodeRef b r" by (cases "n_type r") (simp_all add: typeContent_def)
  qed
  with increment_loop [OF re l3] have "books env t" "sameTables s3 t" by simp_all
  then show "books env t" "x_namespaceId t = x_namespaceId s" "x_rootId t = x_rootId s"
    using fl n by (auto simp: sameTables_def monad_simps core_sel [OF q])
qed

section \<open>copy\<close>

lemma copyDirectory_ledger:
  assumes run: "copyDirectory env ns pl limit ex s = (Inr r, t)" and l: "books env s" and ns: "ns = x_namespaceId s"
    and p: "pl_parentId pl \<in> n_id ` set (t_nodes s)"
  shows "books env t" and "x_namespaceId t = ns" and "x_rootId t = x_rootId s"
proof -
  from run obtain root s1 s2 s3 s4 rows subtree u1 u2 u3 where
    c: "createNode env ns (pl_parentId pl) DIRECTORY (pl_name pl) None None None None s = (Inr root, s1)"
    and m: "markChanged (n_id root) False s1 = (Inr u1, s2)"
    and loop: "copyLoop env ns ex (\<lambda>p. filter (\<lambda>r. n_id r \<noteq> n_id (pl_source pl) \<and> n_parentId r = Some p) subtree)
        (Suc (length subtree)) [(n_id (pl_source pl), n_id root)] [] s2 = (Inr rows, s3)"
    and ins: "forEach rows insertNode s3 = (Inr u2, s4)" and book: "bookCopies rows s4 = (Inr u3, t)"
    unfolding copyDirectory_def Let_def by (elim monad_elims) blast
  note cr = createNode_ledger [OF c l ns p]
  note q = quietD [OF quiet_markChanged m]
  note x = core_sel [OF q]
  have l2: "ledger env s2 (- 1) 0 (\<lambda>_. 0) (\<lambda>_. 0)"
    using cr(1) by (simp add: ledger_core [OF q] newNode_directory [OF cr(2)])
  have ns2: "ns = x_namespaceId s2" using ns by (simp add: x cr(3))
  have root: "n_id root = env_uuid env (x_next s)" by (simp add: cr(2) newNode_def)
  have "building env ns (x_next s2) s2 [(n_id (pl_source pl), n_id root)] []"
    by (simp add: building_def x root cr(3))
  note lp = copyLoop_ledger [OF loop l2 ns2 this]
  then have l3: "ledger env s3 (- 1) (weigh (liveByte ns) rows) (\<lambda>i. - weigh (fileChild i) []) (\<lambda>_. 0)"
    and bl: "building env ns (x_next s2) s3 [] rows" and fr: "framed s2 s3" by simp_all
  have ns3: "x_namespaceId s3 = ns" using fr ns2 by (simp add: framed_def)
  have fresh: "\<forall>r\<in>set rows. n_id r \<notin> fst ` set (x_folderFileDeltas s3)"
  proof
    fix r assume "r \<in> set rows"
    then obtain j where j: "x_next s2 \<le> j" "n_id r = env_uuid env j"
      using bl by (auto simp: building_def copied_def)
    have "env_uuid env j \<notin> fst ` set (x_folderFileDeltas s2)" using l2 j(1) unfolding ledger_def by blast
    then show "n_id r \<notin> fst ` set (x_folderFileDeltas s3)" using fr j(2) by (simp add: framed_def)
  qed
  have cop: "\<forall>r\<in>set rows. copied env (x_namespaceId s3) (x_next s2) (x_next s3) r"
    using bl ns3 by (simp add: building_def)
  from insertCopies_ledger [OF ins l3 _ cop fresh]
  have l4: "ledger env s4 (- 1 - int (length rows)) 0 (\<lambda>i. - weigh (fileChild i) rows) (\<lambda>b. - weigh (nodeRef b) rows)"
    and in4: "set rows \<subseteq> set (t_nodes s4)" "x_namespaceId s4 = ns" "x_rootId s4 = x_rootId s3"
    using ns3 by simp_all
  have "\<forall>r\<in>set rows. n_parentId r \<noteq> None" using cop by (auto simp: copied_def)
  from bookCopies_ledger [OF book l4 in4(1) this] in4 fr
  show "books env t" "x_namespaceId t = ns" "x_rootId t = x_rootId s" by (simp_all add: framed_def x cr(3))
qed

lemma copyNode_ledger:
  assumes run: "copyNode env ns rootId src dst parents limit exact ex s = (Inr r, t)" and ready: "ready env ns rootId s"
  shows "books env t" and "x_namespaceId t = ns" and "x_rootId t = rootId"
proof -
  from ready obtain root where b: "books env s" and ns: "ns = x_namespaceId s" and rid: "x_rootId s = rootId"
    and root: "root \<in> set (t_nodes s)" "n_id root = rootId" "n_type root = DIRECTORY" by (rule readyE)
  from run obtain pl s1 where place: "resolveDestinationPlacement env ns rootId src dst parents False exact s = (Inr pl, s1)"
    and go: "(if n_type (pl_source pl) = FILE
     then (case n_blobId (pl_source pl) of
             None \<Rightarrow> throw (InternalError ''FILE node without blobId'')
           | Some b \<Rightarrow>
               andThen (incrementReferenceCount b 1)
               (bind (addFile env ns (pl_parentId pl) (pl_name pl) b (n_size (pl_source pl)) (n_mimeType (pl_source pl)) ex)
                 (\<lambda>created. ret (toRecord created, joinSegments (pl_segments pl)))))
     else copyDirectory env ns pl limit ex) s1 = (Inr r, t)"
    unfolding copyNode_def Let_def by (elim bindE) blast
  note sp = placement_spec [OF place b ns root]
  obtain f where f: "resolveFrom ns (t_nodes s1) (Some root) (butlast (pl_segments pl)) = Some f" "n_id f = pl_parentId pl"
    using sp(10) by blast
  have "f \<in> set (t_nodes s1)" using resolve_in [OF f(1)] grown_keeps [OF sp(4) root(1)] by simp
  then have p: "pl_parentId pl \<in> n_id ` set (t_nodes s1)" using f(2) by (metis imageI)
  have "books env t \<and> x_namespaceId t = ns \<and> x_rootId t = x_rootId s1"
  proof (cases "n_type (pl_source pl)")
    case DIRECTORY
    with go have "copyDirectory env ns pl limit ex s1 = (Inr r, t)" by simp
    from copyDirectory_ledger [OF this sp(1) sp(2) [symmetric] p] show ?thesis by simp
  next
    case FILE
    with go obtain bl u s2 made where inc: "incrementReferenceCount bl 1 s1 = (Inr u, s2)"
      and add: "addFile env ns (pl_parentId pl) (pl_name pl) bl (n_size (pl_source pl)) (n_mimeType (pl_source pl)) ex s2 = (Inr made, t)"
      by (auto simp: monad_simps split: option.splits)
    have l2: "ledger env s2 0 0 (\<lambda>_. 0) ((\<lambda>_. 0)(bl := 0 + 1))"
      using incrementReferenceCount_ledger [OF inc sp(1)] by simp
    have s2: "t_nodes s2 = t_nodes s1" "x_namespaceId s2 = ns" "x_rootId s2 = x_rootId s1"
      using inc sp(2) by (auto simp: incrementReferenceCount_def)
    have own: "((\<lambda>_. 0 :: int)(bl := 0 + 1))(bl := ((\<lambda>_. 0 :: int)(bl := 0 + 1)) bl - 1) = (\<lambda>_. 0)" by auto
    have "pl_parentId pl \<in> n_id ` set (t_nodes s2)" using p s2(1) by simp
    note a = addFile_ledger [OF add l2 s2(2) [symmetric] this]
    from a(1) have "books env t" by (simp only: own)
    with a(2,3) s2 show ?thesis by simp
  qed
  then show "books env t" "x_namespaceId t = ns" "x_rootId t = rootId" using sp(3) rid by simp_all
qed

interpretation copy: balanced_work env ns rootId "copyNode env ns rootId src dst parents limit exact ex"
  for env ns rootId src dst parents limit exact ex
  by unfold_locales (auto dest: copyNode_ledger)

end
