(* ===== verification/Restoring.thy ===== *)
theory Restoring
  imports Removal
begin

text \<open>
  The books of the trash: taking an item out of the trash table releases its references and its
  share of the counters; purging gives the references back to the Blobs, restoring gives them to
  the nodes it inserts. Expiry removes a file the same way a client would.
\<close>

section \<open>Quiet walks\<close>

lemma quiet_stop: "quiet (andThen (throwIf True e) m)"
  by (auto simp: quiet_def monad_simps)

lemma quiet_lockParentLoop: "quiet (lockParentLoop env ns False p ty pre segs)"
  by (induction segs arbitrary: p ty pre)
    (auto intro!: quiet_andThen quiet_bind quiet_stop [simplified] split: option.splits)

lemma quiet_lockParentChain: "quiet (lockParentChain env ns rootId segs False mark)"
  unfolding lockParentChain_def by (auto intro!: quiet_bind quiet_andThen quiet_lockParentLoop split: prod.splits)

lemma ready_core: "core t = core s \<Longrightarrow> ready env ns rootId t \<longleftrightarrow> ready env ns rootId s"
proof -
  assume c: "core t = core s"
  show ?thesis unfolding ready_def ledger_core [OF c] core_sel [OF c] ..
qed

section \<open>Taking an item out of the trash\<close>

definition isItem :: "tx \<Rightarrow> locked_trash_item \<Rightarrow> bool" where
  "isItem s item \<longleftrightarrow> k_trash item \<in> set (trashes (x_db s)) \<and> t_namespaceId (k_trash item) = x_namespaceId s \<and>
     k_entries item = filter (\<lambda>e. e_trashId e = t_id (k_trash item) \<and> e_namespaceId e = x_namespaceId s) (trashEntries (x_db s))"

lemma findForMutation_item:
  assumes "findForMutation env i s = (Inr item, t)"
  shows "t = s" and "isItem s item" and "t_id (k_trash item) = i" and "int (length (k_entries item)) = t_nodeCount (k_trash item)"
    and "k_expired item \<longleftrightarrow> t_expiresAt (k_trash item) \<le> env_clockNow env"
  using assms by (auto simp: findForMutation_def isItem_def Let_def monad_simps split: option.splits dest: findRow_SomeD)

lemma consume_ledger:
  assumes run: "consume item s = (Inr u, t)" and l: "ledger env s dn db df own" and item: "isItem s item"
  shows "ledger env t dn db df (\<lambda>b. own b + weigh (\<lambda>e. holds b (e_blobId e)) (k_entries item))"
    and "t_nodes t = t_nodes s" and "x_namespaceId t = x_namespaceId s" and "x_rootId t = x_rootId s"
    and "x_next t = x_next s" and "x_folderFileDeltas t = x_folderFileDeltas s"
proof -
  let ?ns = "x_namespaceId s" and ?trash = "k_trash item"
  let ?gone = "\<lambda>x. t_id x = t_id ?trash \<and> t_namespaceId x = ?ns"
  let ?ent = "\<lambda>e. e_trashId e = t_id ?trash \<and> e_namespaceId e = ?ns"
  let ?z = "findNamespace ?ns (namespaces (x_db s))"
  let ?n = "(case ?z of None \<Rightarrow> - 1 | Some n \<Rightarrow> ns_retainedTrashNodeCount n) - t_nodeCount ?trash"
  let ?b = "(case ?z of None \<Rightarrow> - 1 | Some n \<Rightarrow> ns_retainedTrashByteCount n) - t_logicalBytes ?trash"
  let ?nss = "updateRows (\<lambda>n. ns_id n = ?ns) (\<lambda>n. n\<lparr> ns_retainedTrashNodeCount := ?n, ns_retainedTrashByteCount := ?b \<rparr>) (namespaces (x_db s))"
  have one: "length (filter ?gone (trashes (x_db s))) = 1"
    and t: "t = s\<lparr> x_db := (x_db s)\<lparr> namespaces := ?nss, trashes := deleteRows ?gone (trashes (x_db s)),
        trashEntries := deleteRows ?ent (trashEntries (x_db s)) \<rparr>,
      x_trashByteDelta := x_trashByteDelta s - t_logicalBytes ?trash,
      x_logicalByteDelta := x_logicalByteDelta s - t_logicalBytes ?trash \<rparr>"
    using run by (auto simp: consume_def Let_def monad_simps)
  have "?trash \<in> set (filter ?gone (trashes (x_db s)))" using item by (simp add: isItem_def)
  with one have g: "filter ?gone (trashes (x_db s)) = [?trash]"
    by (cases "filter ?gone (trashes (x_db s))") auto
  have z: "?z = Some x" if "x \<in> set (namespaces (x_db s))" "ns_id x = ?ns" for x
    using that ledger_rows [OF l] unfolding findNamespace_def
    by (intro findRow_unique) (auto simp: rowsOk_def distinct_map inj_on_def)
  have "rowsOk (x_db t)"
    using l unfolding t ledger_def rowsOk_def by (auto simp: namespaceKey.distinct_update)
  moreover have "namespaceOk (x_namespaceId t) (x_db t) (dn - x_liveNodeDelta t) (db - x_liveFileByteDelta t)"
    using l unfolding t ledger_def namespaceOk_def by (auto simp: set_updateRows split: if_splits)
  moreover have "refsOk (x_db t) (\<lambda>b. own b + weigh (\<lambda>e. holds b (e_blobId e)) (k_entries item))"
    using l item unfolding t ledger_def refsOk_def refs_def by (simp add: table_simps isItem_def)
  moreover have "trashOk (x_namespaceId t) (x_db t)"
    using l item z unfolding t ledger_def trashOk_def
    by (auto simp: set_updateRows table_simps g isItem_def split: if_splits)
  moreover have "freshIds env (x_next t) (x_db t)"
    using l unfolding t ledger_def freshIds_def by auto
  ultimately show "ledger env t dn db df (\<lambda>b. own b + weigh (\<lambda>e. holds b (e_blobId e)) (k_entries item))"
    using l unfolding ledger_def foldersOk_def by (simp add: t)
  show "t_nodes t = t_nodes s" "x_namespaceId t = x_namespaceId s" "x_rootId t = x_rootId s"
    "x_next t = x_next s" "x_folderFileDeltas t = x_folderFileDeltas s" by (simp_all add: t)
qed

section \<open>Purging\<close>

lemma entry_file:
  assumes "ledger env s dn db df own" and "isItem s item"
  shows "weigh (\<lambda>e. holds b (if e_type e = FILE then e_blobId e else None)) (k_entries item) =
    weigh (\<lambda>e. holds b (e_blobId e)) (k_entries item)"
  using assms by (intro weigh_cong) (auto simp: ledger_def rowsOk_def isItem_def holds_def)

lemma purgeTrashItem_ledger:
  assumes run: "purgeTrashItem env i s = (Inr r, t)" and l: "books env s"
  shows "books env t" and "x_namespaceId t = x_namespaceId s" and "t_nodes t = t_nodes s"
proof -
  from run obtain item s1 s2 u v where find: "findForMutation env i s = (Inr item, s1)"
    and eat: "consume item s1 = (Inr u, s2)"
    and dec: "forEach (sortBy byKey (tally (List.map_filter (\<lambda>e. if e_type e = FILE then e_blobId e else None) (k_entries item))))
        (\<lambda>(b, c). decrementReferenceCount env b c) s2 = (Inr v, t)"
    unfolding purgeTrashItem_def by (elim monad_elims) blast
  note f = findForMutation_item [OF find]
  have item: "isItem s1 item" and l1: "books env s1" using f l by simp_all
  note c = consume_ledger [OF eat l1 item]
  from decrement_loop [OF dec c(1)] entry_file [OF l1 item] c(2,3) f(1)
  show "books env t" "x_namespaceId t = x_namespaceId s" "t_nodes t = t_nodes s"
    by (simp_all add: sameTables_def)
qed

interpretation purge: balanced_work env ns rootId "purgeTrashItem env i" for env ns rootId i
  by unfold_locales (auto simp: ready_def dest: purgeTrashItem_ledger)

section \<open>Restoring\<close>

text \<open>What the restoring loop keeps: it hangs every node below one that exists.\<close>

definition restoring :: "uuid \<Rightarrow> (jstring \<times> uuid) list \<Rightarrow> tx \<Rightarrow> bool" where
  "restoring parentId restored s \<longleftrightarrow> parentId \<in> n_id ` set (t_nodes s) \<and> snd ` set restored \<subseteq> n_id ` set (t_nodes s) \<and>
     fst ` set (x_folderFileDeltas s) \<subseteq> n_id ` set (t_nodes s)"

lemma snd_update: "snd ` set (AList.update k v m) \<subseteq> insert v (snd ` set m)"
  by (induction m) auto

lemma restoreEntry_ledger:
  assumes run: "restoreEntry env ns segs parentId (restored, tot) e s = (Inr (restored', tot'), t)"
    and l: "ledger env s dn db (\<lambda>_. 0) own" and ns: "ns = x_namespaceId s" and r: "restoring parentId restored s"
    and e: "e \<in> set (trashEntries (x_db s))"
  shows "ledger env t dn (db - (tot' - tot)) (\<lambda>_. 0) (\<lambda>b. own b - holds b (e_blobId e))"
    and "restoring parentId restored' t" and "x_namespaceId t = ns" and "x_rootId t = x_rootId s"
    and "x_db t = (x_db s)\<lparr> nodes := t_nodes t \<rparr>"
proof -
  let ?rel = "splitRelative (e_relativePath e)"
  from run obtain p sid sv where p: "(if ?rel = [] then Some parentId else map_of restored (parentRelative ?rel)) = Some p"
    by (auto simp: restoreEntry_def Let_def monad_simps split: option.splits)
  from run obtain u1 u2 u3 u4 s1 s2 s3 v where ins: "insertNode (restoredNode env ns p
        (lastSegment (if ?rel = [] then segs else ?rel)) (v + 1) e) s = (Inr u1, s1)"
    and fold: "(if e_type e = FILE then recordFolderFileDelta p 1 else ret ()) s1 = (Inr u2, s2)"
    and live: "recordLiveNodeDelta 1 s2 = (Inr u3, s3)"
    and mark: "markChanged (e_sourceNodeId e) False s3 = (Inr u4, t)"
    and out: "restored' = AList.update (e_relativePath e) (e_sourceNodeId e) restored"
      "tot' = (if e_type e = FILE then tot + (case e_size e of Some z \<Rightarrow> z | None \<Rightarrow> 0) else tot)"
    unfolding restoreEntry_def Let_def case_prod_beta fst_conv snd_conv p option.case
    by (elim monad_elims) blast
  let ?r = "restoredNode env ns p (lastSegment (if ?rel = [] then segs else ?rel)) (v + 1) e"
  have c: "checkNodeRow ?r (t_nodes s) (t_blobs s) = None" and s1: "s1 = withNodes s (insertRow ?r (t_nodes s))"
    using ins by (simp_all add: monad_simps)
  have pin: "p \<in> n_id ` set (t_nodes s)"
    using p r by (auto simp: restoring_def split: if_splits dest!: map_of_SomeD)
  have new: "\<forall>q\<in>set (t_nodes s). n_id q \<noteq> e_sourceNodeId e"
    using c by (simp add: checkNodeRow_None restoredNode_def)
  then have nid: "e_sourceNodeId e \<notin> n_id ` set (t_nodes s)" by auto
  have pne: "p \<noteq> e_sourceNodeId e" using pin nid by metis
  have past: "env_uuid env j \<noteq> n_id ?r" if "x_next s \<le> j" for j
    using l e that by (auto simp: ledger_def freshIds_def restoredNode_def)
  have zero: "folderDelta (x_folderFileDeltas s) (n_id ?r) = 0"
    using r nid by (intro map_of_fst) (auto simp: restoring_def restoredNode_def)
  have par: "n_parentId ?r = Some p" "n_namespaceId ?r = ns" "n_id ?r = e_sourceNodeId e" "n_blobId ?r = e_blobId e"
    "n_type ?r = e_type e" "n_size ?r = e_size e" "n_childFileCount ?r = 0" by (simp_all add: restoredNode_def)
  have l1: "ledger env s1 (dn - 1) (db - liveByte ns ?r) (\<lambda>i. 0 - fileChild i ?r) (\<lambda>b. own b - nodeRef b ?r)"
    unfolding s1 ns
    by (rule ledger_insert [OF l c [unfolded ns]]) (use par pne past zero ns in \<open>simp_all\<close>)
  have past': "env_uuid env j \<noteq> p" if "x_next s1 \<le> j" for j
    using pin that ledger_past [OF l] by (auto simp: s1)
  have l2: "ledger env s2 (dn - 1) (db - liveByte ns ?r) (\<lambda>_. 0) (\<lambda>b. own b - nodeRef b ?r)"
  proof (cases "e_type e")
    case FILE
    with fold have "recordFolderFileDelta p 1 s1 = (Inr u2, s2)" by simp
    from recordFolderFileDelta_ledger [OF this l1 past'] have
      "ledger env s2 (dn - 1) (db - liveByte ns ?r) ((\<lambda>i. 0 - fileChild i ?r)(p := 0 - fileChild p ?r + 1)) (\<lambda>b. own b - nodeRef b ?r)" .
    moreover have "(\<lambda>i. 0 - fileChild i ?r)(p := 0 - fileChild p ?r + 1) = (\<lambda>_. 0)"
      using FILE par by (auto simp: weights)
    ultimately show ?thesis by simp
  next
    case DIRECTORY
    then have "(\<lambda>i. 0 - fileChild i ?r) = (\<lambda>_. 0)" using par by (auto simp: weights)
    with DIRECTORY fold l1 show ?thesis by (simp add: monad_simps)
  qed
  from recordLiveNodeDelta_ledger [OF live l2]
  have l3: "ledger env s3 dn (db - liveByte ns ?r) (\<lambda>_. 0) (\<lambda>b. own b - nodeRef b ?r)" by simp
  note q = quietD [OF quiet_markChanged mark]
  have "liveByte ns ?r = tot' - tot" using par out(2) by (simp add: weights)
  with l3 show "ledger env t dn (db - (tot' - tot)) (\<lambda>_. 0) (\<lambda>b. own b - holds b (e_blobId e))"
    by (simp add: ledger_core [OF q] par)
  have x: "x_db s3 = (x_db s)\<lparr> nodes := insertRow ?r (t_nodes s) \<rparr>" "x_namespaceId s3 = ns" "x_rootId s3 = x_rootId s"
    using fold live ns by (cases "e_type e"; simp add: monad_simps s1)+
  have keys: "fst ` set (x_folderFileDeltas s3) \<subseteq> insert p (fst ` set (x_folderFileDeltas s))"
    using fold live by (cases "e_type e") (simp_all add: monad_simps s1 dom_update subset_insertI)
  show "x_namespaceId t = ns" "x_rootId t = x_rootId s" "x_db t = (x_db s)\<lparr> nodes := t_nodes t \<rparr>"
    using x by (simp_all add: core_sel [OF q])
  have ids: "n_id ` set (t_nodes t) = insert (e_sourceNodeId e) (n_id ` set (t_nodes s))"
    using x(1) by (simp add: core_sel [OF q] par)
  have "snd ` set restored' \<subseteq> insert (e_sourceNodeId e) (n_id ` set (t_nodes s))"
    using r snd_update [of "e_relativePath e" "e_sourceNodeId e" restored]
    unfolding restoring_def out(1) by (meson insert_mono order_trans)
  moreover have "fst ` set (x_folderFileDeltas s3) \<subseteq> insert (e_sourceNodeId e) (n_id ` set (t_nodes s))"
    using r keys pin unfolding restoring_def by (meson insert_subset order_trans subset_insertI)
  ultimately show "restoring parentId restored' t"
    using r unfolding restoring_def ids core_sel(10) [OF q] by simp
qed

lemma restoreEntries_ledger:
  assumes "foldProg (restoreEntry env ns segs parentId) (restored, tot) es s = (Inr (restored', tot'), t)"
    and "ledger env s dn db (\<lambda>_. 0) own" and "ns = x_namespaceId s" and "restoring parentId restored s"
    and "set es \<subseteq> set (trashEntries (x_db s))"
  shows "ledger env t dn (db - (tot' - tot)) (\<lambda>_. 0) (\<lambda>b. own b - weigh (\<lambda>e. holds b (e_blobId e)) es) \<and>
    x_namespaceId t = ns \<and> x_rootId t = x_rootId s \<and> x_db t = (x_db s)\<lparr> nodes := t_nodes t \<rparr>"
  using assms
proof (induction es arbitrary: restored tot s db own)
  case Nil
  then show ?case by (simp add: monad_simps)
next
  case (Cons e es)
  from Cons.prems(1) obtain restored1 tot1 s1 where
    one: "restoreEntry env ns segs parentId (restored, tot) e s = (Inr (restored1, tot1), s1)"
    and rest: "foldProg (restoreEntry env ns segs parentId) (restored1, tot1) es s1 = (Inr (restored', tot'), t)"
    by (auto simp: monad_simps)
  have "e \<in> set (trashEntries (x_db s))" using Cons.prems(5) by simp
  note r = restoreEntry_ledger [OF one Cons.prems(2-4) this]
  have "trashEntries (x_db s1) = trashEntries (x_db s)" by (subst r(5)) simp
  then have "set es \<subseteq> set (trashEntries (x_db s1))" using Cons.prems(5) by simp
  note ih = Cons.IH [OF rest r(1) r(3) [symmetric] r(2) this]
  have "x_db t = (x_db s1)\<lparr> nodes := t_nodes t \<rparr>" using ih by blast
  also have "\<dots> = (x_db s)\<lparr> nodes := t_nodes s1, nodes := t_nodes t \<rparr>"
    using r(5) by (rule arg_cong [of _ _ "\<lambda>d. d\<lparr> nodes := t_nodes t \<rparr>"])
  finally have "x_db t = (x_db s)\<lparr> nodes := t_nodes t \<rparr>" by simp
  moreover have "db - (tot1 - tot) - (tot' - tot1) = db - (tot' - tot)" by simp
  ultimately show ?case using ih r(3,4) by (simp add: algebra_simps)
qed

lemma restoreTrashItem_ledger:
  assumes run: "restoreTrashItem env ns i target s = (Inr r, t)" and ready: "ready env ns rootId s"
  shows "books env t" and "x_namespaceId t = ns" and "x_rootId t = rootId"
proof -
  from ready obtain root where b: "books env s" and ns: "ns = x_namespaceId s" and rid: "x_rootId s = rootId"
    and root: "root \<in> set (t_nodes s)" "n_id root = rootId" "n_type root = DIRECTORY"
    and rin: "rootId \<in> n_id ` set (t_nodes s)" by (rule readyE)
  from run obtain item s1 s2 s3 s4 s5 s6 p collision path segs restored tot u1 u2 u3 where
    find: "findForMutation env i s = (Inr item, s1)"
    and walk: "lockParentChain env ns (x_rootId s1) segs False True s1 = (Inr p, s2)"
    and look: "lockTargetNode ns p (lastSegment segs) s2 = (Inr collision, s3)"
    and clear: "(case collision of None \<Rightarrow> ret () | Some n \<Rightarrow> throwPrecondition (Some n) path) s3 = (Inr u1, s4)"
    and loop: "foldProg (restoreEntry env ns segs p) ([], 0) (sortBy entryCmp (k_entries item)) s4 = (Inr (restored, tot), s5)"
    and tot: "tot = t_logicalBytes (k_trash item)"
    and eat: "consume item s5 = (Inr u2, s6)" and byte: "recordLiveByteDelta tot s6 = (Inr u3, t)"
    unfolding restoreTrashItem_def Let_def case_prod_beta
    by (elim monad_elims) (auto simp: monad_simps split: option.splits)
  note f = findForMutation_item [OF find]
  have q: "core s4 = core s"
    using clear quietD [OF quiet_lockTargetNode look] quietD [OF quiet_lockParentChain walk] f(1)
    by (auto simp: monad_simps throwPrecondition_def split: option.splits)
  note x = core_sel [OF q]
  have b4: "books env s4" using b by (simp add: ledger_core [OF q])
  have "p \<in> n_id ` set (t_nodes s1)"
    using lockParentChain_ledger(4) [OF walk] b ns rin rid f(1) core_sel(1) [OF quietD [OF quiet_lockParentChain walk]] by simp
  then have res: "restoring p [] s4" using ready f(1) by (simp add: restoring_def x ready_def)
  have item: "isItem s4 item" using f(1,2) by (simp add: isItem_def x)
  then have "set (sortBy entryCmp (k_entries item)) \<subseteq> set (trashEntries (x_db s4))" by (auto simp: isItem_def)
  note lp = restoreEntries_ledger [OF loop b4 _ res this]
  have lp': "ledger env s5 0 (- tot) (\<lambda>_. 0) (\<lambda>b. - weigh (\<lambda>e. holds b (e_blobId e)) (k_entries item))"
    "x_namespaceId s5 = ns" "x_rootId s5 = rootId" "x_db s5 = (x_db s4)\<lparr> nodes := t_nodes s5 \<rparr>"
    using lp ns rid by (simp_all add: x weigh_sortBy)
  have "trashes (x_db s5) = trashes (x_db s4)" "trashEntries (x_db s5) = trashEntries (x_db s4)"
    by (subst lp'(4), simp)+
  with item lp'(2) ns have "isItem s5 item" by (simp add: isItem_def x)
  note c = consume_ledger [OF eat lp'(1) this]
  from c(1) have "ledger env s6 0 (- tot) (\<lambda>_. 0) (\<lambda>_. 0)" by simp
  from recordLiveByteDelta_ledger [OF byte this] show "books env t" by simp
  show "x_namespaceId t = ns" "x_rootId t = rootId" using byte c(3,4) lp' by (simp_all add: monad_simps)
qed

interpretation restore: balanced_work env ns rootId "restoreTrashItem env ns i target" for env ns rootId i target
  by unfold_locales (auto dest: restoreTrashItem_ledger)

section \<open>Expiry\<close>

lemma expireWork_cases:
  assumes "expireWork env ns rootId nodeId cutoff s = (Inr r, t)"
  obtains (idle) "r = None" "core t = core s"
  | (removed) segs p n u s1 s2 expiry where "lockParentChain env ns rootId segs False False s = (Inr p, s1)"
      "lockTargetNode ns p (lastSegment segs) s1 = (Inr (Some n), s2)" "n_id n = nodeId" "n_type n = FILE"
      "n_expiresAt n = Some expiry" "expiry \<le> cutoff" "removeNode env ns rootId segs False 1 s2 = (Inr u, t)" "r = Some (n_size n)"
proof -
  show thesis
  proof (cases "findNamespace ns (namespaces (x_db s))")
    case None
    with assms show thesis by (intro idle) (simp_all add: expireWork_def monad_simps)
  next
    case (Some z)
    show thesis
    proof (cases "ns_status z = ACTIVE \<and> findNode ns nodeId (t_nodes s) \<noteq> None")
      case False
      with Some assms show thesis by (intro idle) (auto simp: expireWork_def monad_simps)
    next
      case True
      then obtain node where "findNode ns nodeId (t_nodes s) = Some node" by blast
      with assms Some True obtain segs p found s1 s2 where
        walk: "lockParentChain env ns rootId segs False False s = (Inr p, s1)"
        and look: "lockTargetNode ns p (lastSegment segs) s1 = (Inr found, s2)"
        and go: "(case found of
                  None \<Rightarrow> ret None
                | Some target \<Rightarrow>
                    if n_id target = nodeId \<longrightarrow> n_type target \<noteq> FILE then ret None
                    else (case n_expiresAt target of
                        None \<Rightarrow> ret None
                      | Some expiry \<Rightarrow>
                          if cutoff < expiry then ret None
                          else andThen (removeNode env ns rootId segs False 1) (ret (Some (n_size target))))) s2 = (Inr r, t)"
        by (auto simp: expireWork_def monad_simps split: prod.splits simp del: if_prog_iff)
      have "core s2 = core s"
        using quietD [OF quiet_lockParentChain walk] quietD [OF quiet_lockTargetNode look] by simp
      with go look show thesis
        by (auto simp: monad_simps not_less split: option.splits if_splits intro: idle dest: removed [OF walk])
    qed
  qed
qed

lemma expireWork_ledger:
  assumes run: "expireWork env ns rootId nodeId cutoff s = (Inr r, t)" and ready: "ready env ns rootId s"
  shows "books env t \<and> x_namespaceId t = ns"
  using run
proof (cases rule: expireWork_cases)
  case idle
  then show ?thesis using ready by (simp add: ready_def ledger_core [OF idle(2)] core_sel [OF idle(2)])
next
  case (removed segs p n u s1 s2 expiry)
  have "core s2 = core s"
    using quietD [OF quiet_lockParentChain removed(1)] quietD [OF quiet_lockTargetNode removed(2)] by simp
  then have "ready env ns rootId s2" using ready ready_core by blast
  from removeNode_ledger [OF removed(7) this] show ?thesis by simp
qed

interpretation expire: balanced_work env ns rootId "expireWork env ns rootId nodeId cutoff" for env ns rootId nodeId cutoff
  by unfold_locales (auto dest: expireWork_ledger)

end
