(* ===== verification/Conditionals.thy ===== *)
theory Conditionals
  imports Trash
begin

text \<open>
  The conditional operations of \<open>persistence/vfs-node.repository.conditionals.ts\<close>: every one
  compares the caller's revision or expected absence with the node at the path before it changes
  anything.
\<close>

text \<open>\<open>ConditionalMutation\<close> of \<open>dto/conditional-mutation-request.dto.ts\<close>.\<close>

datatype conditional_mutation =
    MkdirCommand jstring "jstring list"
  | DeleteCommand jstring "jstring list" jstring bool
  | PersistCommand jstring "jstring list" jstring
  | SetMimeTypeCommand jstring "jstring list" jstring jstring
  | MoveCommand jstring "jstring list" jstring "jstring list" jstring bool
  | CopyCommand jstring "jstring list" jstring "jstring list" jstring bool "int option"

record conditional_result =
  cr_status :: nat
  cr_resource :: "node_response option"
  cr_trashId :: "uuid option"

definition assertRevision :: "node \<Rightarrow> jstring \<Rightarrow> jstring \<Rightarrow> unit txp" where
  "assertRevision node tok path =
     bind (liftR (decodeRevision tok)) (\<lambda>(i, v).
     if n_id node \<noteq> i \<or> n_version node \<noteq> v then throwPrecondition (Some node) path else ret ())"

text \<open>What \<open>persistNode\<close> and \<open>setMimeTypeNode\<close> do first: the FILE at the path, at the revision.\<close>

definition lockFileAt :: "env \<Rightarrow> jstring \<Rightarrow> jstring list \<Rightarrow> jstring \<Rightarrow> (uuid \<times> node) txp" where
  "lockFileAt env path segs ifRevision = bind (gets (\<lambda>s. s)) (\<lambda>s.
     bind (lockParentChain env (x_namespaceId s) (x_rootId s) segs False False) (\<lambda>parentId.
     bind (lockTargetNode (x_namespaceId s) parentId (lastSegment segs)) (\<lambda>found.
     case found of
       None \<Rightarrow> throw (nodeNotFound path)
     | Some target \<Rightarrow>
         andThen (throwIf (n_type target = DIRECTORY) (isDirectory path))
         (andThen (assertRevision target ifRevision path)
         (ret (parentId, target))))))"

definition okResource :: "node \<Rightarrow> jstring \<Rightarrow> conditional_result" where
  "okResource n path = \<lparr> cr_status = 200, cr_resource = Some (toNodeResponse (toRecord n) path), cr_trashId = None \<rparr>"

definition persistNode :: "env \<Rightarrow> jstring \<Rightarrow> jstring list \<Rightarrow> jstring \<Rightarrow> conditional_result txp" where
  "persistNode env path segs ifRevision =
     bind (lockFileAt env path segs ifRevision) (\<lambda>(parentId, target).
     if n_expiresAt target = None then ret (okResource target path)
     else andThen (throwIf (MAX_VFS_VERSION \<le> n_version target) revisionExhausted)
          (andThen (markAncestorChain parentId)
          (bind (saveNode env (target\<lparr> n_expiresAt := None \<rparr>)) (\<lambda>saved.
           andThen (markChanged (n_id saved) False) (ret (okResource saved path))))))"

definition setMimeTypeNode :: "env \<Rightarrow> jstring \<Rightarrow> jstring list \<Rightarrow> jstring \<Rightarrow> jstring \<Rightarrow> conditional_result txp" where
  "setMimeTypeNode env path segs ifRevision mimeType =
     bind (lockFileAt env path segs ifRevision) (\<lambda>(parentId, target).
     if n_mimeType target = Some mimeType then ret (okResource target path)
     else andThen (throwIf (MAX_VFS_VERSION \<le> n_version target) revisionExhausted)
          (andThen (markAncestorChain parentId)
          (bind (saveNode env (target\<lparr> n_mimeType := Some mimeType \<rparr>)) (\<lambda>saved.
           andThen (markChanged (n_id saved) False) (ret (okResource saved path))))))"

text \<open>
  The \<open>catch\<close> of the move and the copy: a name collision becomes a failed precondition that
  shows the node in the way.
\<close>

definition orPrecondition :: "'a txp \<Rightarrow> 'a txp" where
  "orPrecondition m s =
     (case m s of
        (Inl (Node (VfsAlreadyExistsError path)), t) \<Rightarrow>
          throwPrecondition (resolvePathInManager (x_namespaceId t) (x_rootId t)
            (filter (\<lambda>seg. seg \<noteq> []) (js_split slash path)) (t_nodes t)) path t
      | r \<Rightarrow> r)"

definition syncLimit :: "int option \<Rightarrow> jstring option \<Rightarrow> int \<Rightarrow> int result" where
  "syncLimit own raw dflt =
     (case parsePositiveInt raw dflt None of Inl e \<Rightarrow> Inl e | Inr limit \<Rightarrow> Inr (resolveEffectiveLimit own limit limit))"

definition conditionalMkdir :: "env \<Rightarrow> jstring \<Rightarrow> jstring list \<Rightarrow> conditional_result txp" where
  "conditionalMkdir env path segs = bind (gets (\<lambda>s. s)) (\<lambda>s.
     case resolvePathInManager (x_namespaceId s) (x_rootId s) segs (t_nodes s) of
       Some existing \<Rightarrow> throwPrecondition (Some existing) path
     | None \<Rightarrow>
         bind (ensureDirectory env (x_namespaceId s) (x_rootId s) segs False) (\<lambda>(r, _).
         ret \<lparr> cr_status = 201, cr_resource = Some (toNodeResponse r path), cr_trashId = None \<rparr>))"

definition conditionalDelete :: "env \<Rightarrow> jstring \<Rightarrow> jstring list \<Rightarrow> jstring \<Rightarrow> bool \<Rightarrow> conditional_result txp" where
  "conditionalDelete env path segs ifRevision recursive = bind (gets (\<lambda>s. s)) (\<lambda>s.
     bind (getNamespaceOrFail (x_namespaceId s)) (\<lambda>namespace.
     case resolvePathInManager (x_namespaceId s) (x_rootId s) segs (t_nodes s) of
       None \<Rightarrow> throw (nodeNotFound path)
     | Some target \<Rightarrow>
         andThen (assertRevision target ifRevision path)
         (bind (liftR (syncLimit (ns_maxSyncDeleteNodes namespace) (env_maxSyncDeleteNodes env) 1000)) (\<lambda>limit.
          bind (if n_type target = DIRECTORY \<and> \<not> recursive
                then removeEmptyDirectory env (x_namespaceId s) (x_rootId s) segs
                else removeNode env (x_namespaceId s) (x_rootId s) segs recursive limit) (\<lambda>trashId.
          ret \<lparr> cr_status = 200, cr_resource = None, cr_trashId = trashId \<rparr>)))))"

text \<open>The source of a move or a copy, at the caller's revision, with the namespace's row.\<close>

definition conditionalSource :: "jstring \<Rightarrow> jstring list \<Rightarrow> jstring \<Rightarrow> namespace txp" where
  "conditionalSource path segs tok = bind (gets (\<lambda>s. s)) (\<lambda>s.
     bind (getNamespaceOrFail (x_namespaceId s)) (\<lambda>namespace.
     case resolvePathInManager (x_namespaceId s) (x_rootId s) segs (t_nodes s) of
       None \<Rightarrow> throw (nodeNotFound path)
     | Some source \<Rightarrow> andThen (assertRevision source tok path) (ret namespace)))"

definition conditionalMove :: "env \<Rightarrow> jstring \<Rightarrow> jstring list \<Rightarrow> jstring list \<Rightarrow> jstring \<Rightarrow> bool \<Rightarrow>
    conditional_result txp" where
  "conditionalMove env source sourceSegs destSegs tok exact =
     bind (conditionalSource source sourceSegs tok) (\<lambda>namespace.
     orPrecondition
       (bind (liftR (syncLimit (ns_maxSyncMoveNodes namespace) (env_maxSyncMoveNodes env) 10000)) (\<lambda>limit.
        bind (gets (\<lambda>s. s)) (\<lambda>s.
        bind (moveNode env (x_namespaceId s) (x_rootId s) sourceSegs destSegs False limit exact) (\<lambda>(r, finalPath).
        ret \<lparr> cr_status = 200, cr_resource = Some (toNodeResponse r finalPath), cr_trashId = None \<rparr>)))))"

definition conditionalCopy :: "env \<Rightarrow> jstring \<Rightarrow> jstring list \<Rightarrow> jstring list \<Rightarrow> jstring \<Rightarrow> bool \<Rightarrow> int option \<Rightarrow>
    conditional_result txp" where
  "conditionalCopy env source sourceSegs destSegs tok exact expiresInSeconds =
     bind (conditionalSource source sourceSegs tok) (\<lambda>namespace.
     orPrecondition
       (bind (liftR (syncLimit (ns_maxSyncCopyNodes namespace) (env_maxSyncCopyNodes env) 1000)) (\<lambda>limit.
        bind (gets (\<lambda>s. s)) (\<lambda>s.
        bind (copyNode env (x_namespaceId s) (x_rootId s) sourceSegs destSegs False limit exact
                (map_option (\<lambda>k. env_dbNow env + k * 1000) expiresInSeconds)) (\<lambda>(r, finalPath).
        ret \<lparr> cr_status = 201, cr_resource = Some (toNodeResponse r finalPath), cr_trashId = None \<rparr>)))))"

fun commandSegments :: "conditional_mutation \<Rightarrow> jstring list list" where
  "commandSegments (MkdirCommand _ segs) = [segs]"
| "commandSegments (DeleteCommand _ segs _ _) = [segs]"
| "commandSegments (PersistCommand _ segs _) = [segs]"
| "commandSegments (SetMimeTypeCommand _ segs _ _) = [segs]"
| "commandSegments (MoveCommand _ source _ dest _ _) = [source, dest]"
| "commandSegments (CopyCommand _ source _ dest _ _ _) = [source, dest]"

fun runCommand :: "env \<Rightarrow> conditional_mutation \<Rightarrow> conditional_result txp" where
  "runCommand env (MkdirCommand path segs) = conditionalMkdir env path segs"
| "runCommand env (DeleteCommand path segs tok recursive) = conditionalDelete env path segs tok recursive"
| "runCommand env (PersistCommand path segs tok) = persistNode env path segs tok"
| "runCommand env (SetMimeTypeCommand path segs tok mime) = setMimeTypeNode env path segs tok mime"
| "runCommand env (MoveCommand source sourceSegs _ destSegs tok exact) =
     conditionalMove env source sourceSegs destSegs tok exact"
| "runCommand env (CopyCommand source sourceSegs _ destSegs tok exact expires) =
     conditionalCopy env source sourceSegs destSegs tok exact expires"

definition applyConditionalMutation :: "env \<Rightarrow> conditional_mutation \<Rightarrow> conditional_result txp" where
  "applyConditionalMutation env command =
     andThen (forEach (commandSegments command) (\<lambda>segs. liftR (assertPathSegments (env_nfc env) segs)))
     (runCommand env command)"

section \<open>Content\<close>

text \<open>The part \<open>putConditionalContent\<close> and \<open>restoreBlob\<close> share: the condition on the node at the path.\<close>

fun checkContentCondition :: "content_precondition \<Rightarrow> node option \<Rightarrow> jstring \<Rightarrow> unit txp" where
  "checkContentCondition (IfAbsent _) existing path =
     (case existing of None \<Rightarrow> ret () | Some n \<Rightarrow> throwPrecondition (Some n) path)"
| "checkContentCondition (IfRevision tok) existing path =
     (case existing of None \<Rightarrow> throw (nodeNotFound path) | Some n \<Rightarrow> assertRevision n tok path)"

fun expiryOf :: "env \<Rightarrow> content_precondition \<Rightarrow> time option" where
  "expiryOf env (IfAbsent (Some k)) = Some (env_dbNow env + k * 1000)"
| "expiryOf env _ = None"

definition toConditionalContentResponse :: "node_record \<Rightarrow> jstring \<Rightarrow> jstring \<Rightarrow> conditional_content result" where
  "toConditionalContentResponse r path sha =
     (case toPreconditionCurrent r path of
        Inl e \<Rightarrow> Inl e
      | Inr c \<Rightarrow> Inr (precondition_current.extend c (conditional_content.fields sha)))"

fun outcomeNode :: "put_file_outcome \<Rightarrow> (nat \<times> node_record) option" where
  "outcomeNode (CreatedNode r) = Some (201, r)"
| "outcomeNode (ReplacedNode r) = Some (200, r)"
| "outcomeNode AbsentNode = None"

definition putConditionalContent :: "env \<Rightarrow> jstring list \<Rightarrow> content_precondition \<Rightarrow> blob_data \<Rightarrow>
    (nat \<times> conditional_content) txp" where
  "putConditionalContent env segs condition d =
     andThen (liftR (assertPathSegments (env_nfc env) segs))
     (bind (gets (\<lambda>s. s)) (\<lambda>s.
      let path = joinSegments segs;
          existing = resolvePathInManager (x_namespaceId s) (x_rootId s) segs (t_nodes s) in
      andThen (checkContentCondition condition existing path)
      (bind (putFileContent env (x_namespaceId s) (x_rootId s) segs False d (map_option n_version existing) False
               (expiryOf env condition)) (\<lambda>outcome.
       case outcomeNode outcome of
         None \<Rightarrow> throw (InternalError ''TypeError'')
       | Some (status, r) \<Rightarrow>
           bind (liftR (toConditionalContentResponse r path (d_sha256 d))) (\<lambda>resource. ret (status, resource))))))"

text \<open>\<open>restoreBlob\<close>: put an existing Blob at a path. The increment comes before the decrement.\<close>

definition swapReference :: "env \<Rightarrow> jstring \<Rightarrow> jstring \<Rightarrow> uuid option \<Rightarrow> uuid \<Rightarrow> unit txp" where
  "swapReference env ns path old new =
     (if old = Some new then ret ()
      else bind (incrementLiveReferenceCount ns new 1) (\<lambda>live.
           andThen (throwIf (\<not> live) (invalidOperation path))
           (case old of None \<Rightarrow> ret () | Some b \<Rightarrow> decrementReferenceCount env b 1)))"

definition restoreBlob :: "env \<Rightarrow> jstring list \<Rightarrow> content_precondition \<Rightarrow> restorable_blob \<Rightarrow> put_file_outcome txp" where
  "restoreBlob env segs condition blob = bind (gets (\<lambda>s. s)) (\<lambda>s.
     let path = joinSegments segs; ns = x_namespaceId s in
     bind (lockParentChain env ns (x_rootId s) segs False True) (\<lambda>parentId.
     bind (lockTargetNode ns parentId (lastSegment segs)) (\<lambda>existing.
     andThen (throwIf (case existing of Some n \<Rightarrow> n_type n = DIRECTORY | None \<Rightarrow> False) (isDirectory path))
     (andThen (checkContentCondition condition existing path)
     (andThen (throwIf (case existing of Some n \<Rightarrow> MAX_VFS_VERSION \<le> n_version n | None \<Rightarrow> False) revisionExhausted)
     (andThen (swapReference env ns path (case existing of None \<Rightarrow> None | Some n \<Rightarrow> n_blobId n) (rb_blobId blob))
     (case existing of
        Some old \<Rightarrow>
          (let f = (\<lambda>n. n\<lparr> n_blobId := Some (rb_blobId blob), n_size := Some (rb_size blob),
                          n_mimeType := Some (rb_mimeType blob) \<rparr>) in
           andThen (updateNode (n_id old) f)
           (andThen (markChanged (n_id old) True)
           (case n_size old of
              None \<Rightarrow> throw (InternalError ''SyntaxError'')
            | Some z \<Rightarrow>
                andThen (recordLiveByteDelta (rb_size blob - z))
                (ret (ReplacedNode (toRecord (f old)))))))
      | None \<Rightarrow>
          bind (addFile env ns parentId (lastSegment segs) (rb_blobId blob) (Some (rb_size blob))
                  (Some (rb_mimeType blob)) None)
            (\<lambda>created. ret (CreatedNode (toRecord created))))))))))"

end
