(* ===== verification/ConditionalBooks.thy ===== *)
theory ConditionalBooks
  imports CopyBooks Restoring Conditionals
begin

text \<open>
  The books of the conditional operations. Each checks its condition without touching a row and
  then does what the unconditional operation does, so most of the work is to peel the checks off.
\<close>

section \<open>The checks\<close>

lemma throwPrecondition_iff [monad_simps]: "throwPrecondition n path s = (Inr y, t) \<longleftrightarrow> False"
  by (auto simp: throwPrecondition_def liftR_def throw_def bind_def split: option.splits sum.splits)

lemma orPrecondition_Inr: "orPrecondition m s = (Inr v, t) \<longleftrightarrow> m s = (Inr v, t)"
  by (auto simp: orPrecondition_def monad_simps split: sum.splits prod.splits vfs_error.splits node_error.splits)

lemma assertRevision_iff [monad_simps]:
  "assertRevision n tok path s = (Inr u, t) \<longleftrightarrow> decodeRevision tok = Inr (n_id n, n_version n) \<and> t = s"
  by (auto simp: assertRevision_def monad_simps split: if_splits)

lemma checkContentCondition_same:
  "checkContentCondition c existing path s = (Inr u, t) \<Longrightarrow> t = s"
  by (cases c) (auto simp: monad_simps split: option.splits)

lemma lockFileAt_file:
  assumes run: "lockFileAt env path segs tok s = (Inr (p, n), t)"
  shows "core t = core s" and "n \<in> set (t_nodes s)" and "n_type n = FILE" and "n_namespaceId n = x_namespaceId s"
    and "decodeRevision tok = Inr (n_id n, n_version n)"
proof -
  from run obtain s1 found where walk: "lockParentChain env (x_namespaceId s) (x_rootId s) segs False False s = (Inr p, s1)"
    and look: "lockTargetNode (x_namespaceId s) p (lastSegment segs) s1 = (Inr (Some n), t)"
    and n: "n_type n \<noteq> DIRECTORY" "decodeRevision tok = Inr (n_id n, n_version n)"
    unfolding lockFileAt_def by (elim bindE getsE) (auto simp: monad_simps split: option.splits)
  note c1 = quietD [OF quiet_lockParentChain walk] and c2 = quietD [OF quiet_lockTargetNode look]
  show "core t = core s" using c1 c2 by simp
  show "n \<in> set (t_nodes s)" "n_namespaceId n = x_namespaceId s"
    using findChild_SomeD [OF lockTargetNode_result [OF look, symmetric]] by (simp_all add: core_sel [OF c1])
  show "n_type n = FILE" using n(1) by (cases "n_type n") simp_all
  show "decodeRevision tok = Inr (n_id n, n_version n)" by (rule n(2))
qed

section \<open>Attributes of one file\<close>

text \<open>\<open>persistNode\<close> and \<open>setMimeTypeNode\<close> end alike: mark the ancestors, save the row, mark it.\<close>

lemma saveAttributes_ledger:
  assumes run: "andThen (markAncestorChain p) (bind (saveNode env n') (\<lambda>saved.
      andThen (markChanged (n_id saved) False) (ret (f saved)))) s = (Inr r, t)"
    and l: "books env s" and n: "n \<in> set (t_nodes s)"
    and same: "n_id n' = n_id n" "n_namespaceId n' = n_namespaceId n" "n_type n' = n_type n" "n_parentId n' = n_parentId n"
      "n_childFileCount n' = n_childFileCount n" "n_size n' = n_size n" "n_blobId n' = n_blobId n"
  shows "books env t" and "x_namespaceId t = x_namespaceId s"
proof -
  from run obtain s1 s2 saved u v where m: "markAncestorChain p s = (Inr u, s1)"
    and save: "saveNode env n' s1 = (Inr saved, s2)" and m2: "markChanged (n_id saved) False s2 = (Inr v, t)"
    by (elim monad_elims) blast
  note c1 = quietD [OF quiet_markAncestorChain m] and c2 = quietD [OF quiet_markChanged m2]
  have l1: "books env s1" and n1: "n \<in> set (t_nodes s1)" using l n by (simp_all add: ledger_core [OF c1] core_sel [OF c1])
  note id = same(1) [symmetric]
  note sv = saveNode_ledger(1) [OF save l1 n1 id same(2,3,5) grounded_same_parent [OF l1 n1 id same(4)]]
  note row = saveNode_row [OF save n1 id]
  have "liveNode ns n' = liveNode ns n" "liveByte ns n' = liveByte ns n" "fileChild i n' = fileChild i n" for ns i
    by (simp_all add: weights same)
  with sv same have "books env s2" by simp
  then show "books env t" by (simp add: ledger_core [OF c2])
  show "x_namespaceId t = x_namespaceId s" using row by (simp add: core_sel [OF c1] core_sel [OF c2])
qed

lemma attribute_ledger:
  assumes run: "bind (lockFileAt env path segs tok) (\<lambda>(p, n).
      if C n then ret (g n)
      else andThen (throwIf (MAX_VFS_VERSION \<le> n_version n) revisionExhausted)
           (andThen (markAncestorChain p)
           (bind (saveNode env (f n)) (\<lambda>saved. andThen (markChanged (n_id saved) False) (ret (g saved)))))) s = (Inr r, t)"
    and l: "books env s"
    and same: "\<And>n. n_id (f n) = n_id n" "\<And>n. n_namespaceId (f n) = n_namespaceId n" "\<And>n. n_type (f n) = n_type n"
      "\<And>n. n_parentId (f n) = n_parentId n" "\<And>n. n_childFileCount (f n) = n_childFileCount n"
      "\<And>n. n_size (f n) = n_size n" "\<And>n. n_blobId (f n) = n_blobId n"
  shows "books env t" and "x_namespaceId t = x_namespaceId s"
proof -
  from run obtain p n s1 where look: "lockFileAt env path segs tok s = (Inr (p, n), s1)"
    and go: "(if C n then ret (g n)
      else andThen (throwIf (MAX_VFS_VERSION \<le> n_version n) revisionExhausted)
           (andThen (markAncestorChain p)
           (bind (saveNode env (f n)) (\<lambda>saved. andThen (markChanged (n_id saved) False) (ret (g saved)))))) s1 = (Inr r, t)"
    by (elim bindE) (auto split: prod.splits)
  note q = lockFileAt_file [OF look]
  have l1: "books env s1" and n1: "n \<in> set (t_nodes s1)" using l q by (simp_all add: ledger_core [OF q(1)] core_sel [OF q(1)])
  have "books env t \<and> x_namespaceId t = x_namespaceId s1"
  proof (cases "C n")
    case True
    with go l1 show ?thesis by (simp add: monad_simps)
  next
    case False
    with go have "andThen (throwIf (MAX_VFS_VERSION \<le> n_version n) revisionExhausted)
        (andThen (markAncestorChain p) (bind (saveNode env (f n)) (\<lambda>saved.
          andThen (markChanged (n_id saved) False) (ret (g saved))))) s1 = (Inr r, t)" by simp
    then have "andThen (markAncestorChain p) (bind (saveNode env (f n)) (\<lambda>saved.
        andThen (markChanged (n_id saved) False) (ret (g saved)))) s1 = (Inr r, t)"
      by (rule andThenE) (elim throwIfE, simp)
    from saveAttributes_ledger [OF this l1 n1] show ?thesis by (simp add: same)
  qed
  then show "books env t" "x_namespaceId t = x_namespaceId s" by (simp_all add: core_sel [OF q(1)])
qed

interpretation persist: balanced_work env ns rootId "persistNode env path segs tok" for env ns rootId path segs tok
  by unfold_locales (auto simp: persistNode_def ready_def dest: attribute_ledger)

interpretation setMimeType: balanced_work env ns rootId "setMimeTypeNode env path segs tok mime" for env ns rootId path segs tok mime
  by unfold_locales (auto simp: setMimeTypeNode_def ready_def dest: attribute_ledger)

section \<open>The command\<close>

lemma conditionalMkdir_balanced:
  assumes "conditionalMkdir env path segs s = (Inr r, t)" and ready: "ready env ns rootId s"
  shows "books env t \<and> x_namespaceId t = ns"
proof -
  have ids: "x_namespaceId s = ns" "x_rootId s = rootId" using ready by (simp_all add: ready_def)
  obtain v where "ensureDirectory env ns rootId segs False s = (Inr v, t)"
    using assms(1) unfolding conditionalMkdir_def
    by (elim bindE getsE) (auto simp: monad_simps ids split: option.splits prod.splits)
  from mkdir.balanced [OF this ready] show ?thesis .
qed

lemma conditionalDelete_balanced:
  assumes "conditionalDelete env path segs tok rec s = (Inr r, t)" and ready: "ready env ns rootId s"
  shows "books env t \<and> x_namespaceId t = ns"
proof -
  have ids: "x_namespaceId s = ns" "x_rootId s = rootId" using ready by (simp_all add: ready_def)
  from assms(1) consider v where "removeEmptyDirectory env ns rootId segs s = (Inr v, t)"
    | v limit where "removeNode env ns rootId segs rec limit s = (Inr v, t)"
    unfolding conditionalDelete_def
    by (elim bindE getsE) (auto simp: monad_simps ids split: option.splits if_splits)
  then show ?thesis by cases (auto dest: rmdir.balanced [OF _ ready] remove.balanced [OF _ ready])
qed

lemma conditionalSource_iff:
  "conditionalSource path segs tok s = (Inr z, t) \<Longrightarrow> t = s"
  by (auto simp: conditionalSource_def monad_simps split: option.splits)

lemma conditionalMove_balanced:
  assumes "conditionalMove env src srcSegs dstSegs tok exact s = (Inr r, t)" and ready: "ready env ns rootId s"
  shows "books env t \<and> x_namespaceId t = ns"
proof -
  have ids: "x_namespaceId s = ns" "x_rootId s = rootId" using ready by (simp_all add: ready_def)
  obtain v limit where "moveNode env ns rootId srcSegs dstSegs False limit exact s = (Inr v, t)"
    using assms(1) unfolding conditionalMove_def
    by (elim bindE) (auto simp: orPrecondition_Inr monad_simps ids dest!: conditionalSource_iff split: prod.splits)
  from move.balanced [OF this ready] show ?thesis .
qed

lemma conditionalCopy_balanced:
  assumes "conditionalCopy env src srcSegs dstSegs tok exact secs s = (Inr r, t)" and ready: "ready env ns rootId s"
  shows "books env t \<and> x_namespaceId t = ns"
proof -
  have ids: "x_namespaceId s = ns" "x_rootId s = rootId" using ready by (simp_all add: ready_def)
  obtain v limit ex where "copyNode env ns rootId srcSegs dstSegs False limit exact ex s = (Inr v, t)"
    using assms(1) unfolding conditionalCopy_def
    by (elim bindE) (auto simp: orPrecondition_Inr monad_simps ids dest!: conditionalSource_iff split: prod.splits)
  from copy.balanced [OF this ready] show ?thesis .
qed

lemma assertAll_same: "forEach xs (\<lambda>x. liftR (f x)) s = (Inr u, t) \<Longrightarrow> t = s"
  by (induction xs arbitrary: u) (auto simp: monad_simps)

lemma applyConditionalMutation_balanced:
  assumes "applyConditionalMutation env command s = (Inr r, t)" and ready: "ready env ns rootId s"
  shows "books env t \<and> x_namespaceId t = ns"
proof -
  from assms(1) have "runCommand env command s = (Inr r, t)"
    unfolding applyConditionalMutation_def by (elim andThenE) (auto dest: assertAll_same)
  then show ?thesis
    using ready
    by (cases command)
      (auto dest: conditionalMkdir_balanced conditionalDelete_balanced conditionalMove_balanced conditionalCopy_balanced
        persist.balanced setMimeType.balanced)
qed

interpretation command: balanced_work env ns rootId "applyConditionalMutation env command" for env ns rootId command
  by unfold_locales (rule applyConditionalMutation_balanced)

section \<open>Content\<close>

lemma putConditionalContent_balanced:
  assumes run: "putConditionalContent env segs c d s = (Inr r, t)" and ready: "ready env ns rootId s"
  shows "books env t \<and> x_namespaceId t = ns"
proof -
  have ids: "x_namespaceId s = ns" "x_rootId s = rootId" using ready by (simp_all add: ready_def)
  from run obtain s1 u v where "checkContentCondition c (resolvePathInManager ns rootId segs (t_nodes s)) (joinSegments segs) s = (Inr u, s1)"
    and put: "putFileContent env ns rootId segs False d
        (map_option n_version (resolvePathInManager ns rootId segs (t_nodes s))) False (expiryOf env c) s1 = (Inr v, t)"
    unfolding putConditionalContent_def Let_def
    by (elim bindE andThenE getsE liftRE) (auto simp: monad_simps ids split: option.splits prod.splits)
  then have "s1 = s" by (auto dest: checkContentCondition_same)
  with put have "putFileContent env ns rootId segs False d
      (map_option n_version (resolvePathInManager ns rootId segs (t_nodes s))) False (expiryOf env c) s = (Inr v, t)" by simp
  from put.balanced [OF this ready] show ?thesis .
qed

interpretation putConditional: balanced_work env ns rootId "putConditionalContent env segs c d" for env ns rootId segs c d
  by unfold_locales (rule putConditionalContent_balanced)

text \<open>\<open>restoreBlob\<close>: after the exchange of references the transaction owns the new one and misses the old.\<close>

lemma swapReference_ledger:
  assumes run: "swapReference env ns path old new s = (Inr u, t)" and l: "books env s"
  shows "ledger env t 0 0 (\<lambda>_. 0) (\<lambda>b. holds b (Some new) - holds b old)" and "t_nodes t = t_nodes s"
    and "x_namespaceId t = x_namespaceId s" and "x_rootId t = x_rootId s"
proof -
  have "ledger env t 0 0 (\<lambda>_. 0) (\<lambda>b. holds b (Some new) - holds b old) \<and> t_nodes t = t_nodes s \<and>
    x_namespaceId t = x_namespaceId s \<and> x_rootId t = x_rootId s"
  proof (cases "old = Some new")
    case True
    with run l show ?thesis by (simp add: swapReference_def monad_simps)
  next
    case False
    with run obtain s1 where inc: "incrementLiveReferenceCount ns new 1 s = (Inr True, s1)"
      and dec: "(case old of None \<Rightarrow> ret () | Some b \<Rightarrow> decrementReferenceCount env b 1) s1 = (Inr u, t)"
      by (auto simp: swapReference_def monad_simps)
    have tab: "t_nodes s1 = t_nodes s" "x_namespaceId s1 = x_namespaceId s" "x_rootId s1 = x_rootId s"
      using inc by (auto simp: incrementLiveReferenceCount_def monad_simps)
    have l1: "ledger env s1 0 0 (\<lambda>_. 0) ((\<lambda>_. 0)(new := 0 + 1))"
      by (rule incrementLiveReferenceCount_ledger [OF inc l])
    show ?thesis
    proof (cases old)
      case None
      have "(\<lambda>_. 0)(new := 0 + 1) = (\<lambda>b. holds b (Some new) - holds b old)"
        by (auto simp: fun_eq_iff holds_def None)
      with dec None l1 tab show ?thesis by (simp add: monad_simps)
    next
      case (Some b)
      with dec have d: "decrementReferenceCount env b 1 s1 = (Inr u, t)" by simp
      have "((\<lambda>_. 0)(new := 0 + 1))(b := ((\<lambda>_. 0)(new := 0 + 1)) b - 1) = (\<lambda>b. holds b (Some new) - holds b old)"
        using False by (auto simp: fun_eq_iff holds_def Some)
      with decrementReferenceCount_ledger [OF d l1] have "ledger env t 0 0 (\<lambda>_. 0) (\<lambda>b. holds b (Some new) - holds b old)"
        by (simp only:)
      moreover have "t_nodes t = t_nodes s1" "x_namespaceId t = x_namespaceId s1" "x_rootId t = x_rootId s1"
        using d by (auto simp: decrementReferenceCount_def monad_simps)
      ultimately show ?thesis using tab by simp
    qed
  qed
  then show "ledger env t 0 0 (\<lambda>_. 0) (\<lambda>b. holds b (Some new) - holds b old)" "t_nodes t = t_nodes s"
    "x_namespaceId t = x_namespaceId s" "x_rootId t = x_rootId s" by simp_all
qed

lemma updateNode_ledger:
  assumes run: "updateNode (n_id n) f s = (Inr u, t)" and l: "ledger env s dn db df own" and n: "n \<in> set (t_nodes s)"
    and same: "n_id (f n) = n_id n" "n_namespaceId (f n) = n_namespaceId n" "n_type (f n) = n_type n"
      "n_parentId (f n) = n_parentId n" "n_childFileCount (f n) = n_childFileCount n"
  shows "ledger env t dn (db + liveByte (x_namespaceId s) n - liveByte (x_namespaceId s) (f n)) df
      (\<lambda>b. own b + nodeRef b n - nodeRef b (f n))"
    and "x_namespaceId t = x_namespaceId s"
proof -
  have "findRow (\<lambda>x. n_id x = n_id n) (t_nodes s) = Some n"
    using n valid_id_eq [OF ledger_valid [OF l]] by (intro findRow_unique) auto
  with run have c: "checkNodeRow (f n) (deleteRows (\<lambda>x. n_id x = n_id (f n)) (t_nodes s)) (t_blobs s) = None"
    and t: "t = withNodes s (updateRows (\<lambda>x. n_id x = n_id (f n)) (\<lambda>_. f n) (t_nodes s))"
    by (auto simp: updateNode_def monad_simps same split: option.splits)
  note id = same(1) [symmetric]
  have "liveNode ns (f n) = liveNode ns n" "fileChild i (f n) = fileChild i n" for ns i by (simp_all add: weights same)
  with ledger_replace [OF l n id c same(2,3,5) grounded_same_parent [OF l n id same(4) refl refl]]
  show "ledger env t dn (db + liveByte (x_namespaceId s) n - liveByte (x_namespaceId s) (f n)) df
      (\<lambda>b. own b + nodeRef b n - nodeRef b (f n))"
    by (simp add: t)
  show "x_namespaceId t = x_namespaceId s" by (simp add: t)
qed

lemma restoreBlob_balanced:
  assumes run: "restoreBlob env segs c rb s = (Inr r, t)" and ready: "ready env ns rootId s"
  shows "books env t \<and> x_namespaceId t = ns"
proof -
  have ids: "x_namespaceId s = ns" "x_rootId s = rootId" using ready by (simp_all add: ready_def)
  have l: "books env s" and root: "rootId \<in> n_id ` set (t_nodes s)" using ready by (auto elim: readyE)
  let ?f = "\<lambda>n. n\<lparr> n_blobId := Some (rb_blobId rb), n_size := Some (rb_size rb), n_mimeType := Some (rb_mimeType rb) \<rparr>"
  from run obtain p s1 existing s2 s3 s4 u v where walk: "lockParentChain env ns rootId segs False True s = (Inr p, s1)"
    and look: "lockTargetNode ns p (lastSegment segs) s1 = (Inr existing, s2)"
    and dir: "\<not> (case existing of Some n \<Rightarrow> n_type n = DIRECTORY | None \<Rightarrow> False)"
    and check: "checkContentCondition c existing (joinSegments segs) s2 = (Inr u, s3)"
    and swap: "swapReference env ns (joinSegments segs) (case existing of None \<Rightarrow> None | Some n \<Rightarrow> n_blobId n) (rb_blobId rb) s3 = (Inr v, s4)"
    and go: "(case existing of
        Some old \<Rightarrow> andThen (updateNode (n_id old) ?f) (andThen (markChanged (n_id old) True)
           (case n_size old of None \<Rightarrow> throw (InternalError ''SyntaxError'')
            | Some z \<Rightarrow> andThen (recordLiveByteDelta (rb_size rb - z)) (ret (ReplacedNode (toRecord (?f old))))))
      | None \<Rightarrow> bind (addFile env ns p (lastSegment segs) (rb_blobId rb) (Some (rb_size rb)) (Some (rb_mimeType rb)) None)
            (\<lambda>created. ret (CreatedNode (toRecord created)))) s4 = (Inr r, t)"
    unfolding restoreBlob_def Let_def ids by (elim bindE andThenE getsE throwIfE) (simp add: ids cong: option.case_cong)
  note w = lockParentChain_ledger [OF walk l ids(1) [symmetric] root]
  note k = lookup_ledger [OF look w(1) w(2) [symmetric]]
  have "s3 = s2" by (rule checkContentCondition_same [OF check])
  with k(1) have "books env s3" by simp
  note sw = swapReference_ledger [OF swap this]
  have t4: "t_nodes s4 = t_nodes s2" "x_namespaceId s4 = ns" using sw(2,3) \<open>s3 = s2\<close> k(2) by simp_all
  show ?thesis
  proof (cases existing)
    case None
    with go obtain n where add: "addFile env ns p (lastSegment segs) (rb_blobId rb) (Some (rb_size rb)) (Some (rb_mimeType rb)) None s4 = (Inr n, t)"
      by (auto simp: monad_simps)
    have "p \<in> n_id ` set (t_nodes s4)" using w(4) k(5) t4 by simp
    note a = addFile_ledger [OF add sw(1) t4(2) [symmetric] this]
    have "(\<lambda>b. holds b (Some (rb_blobId rb)) - holds b (case existing of None \<Rightarrow> None | Some n \<Rightarrow> n_blobId n))
      (rb_blobId rb := holds (rb_blobId rb) (Some (rb_blobId rb)) - holds (rb_blobId rb) (case existing of None \<Rightarrow> None | Some n \<Rightarrow> n_blobId n) - 1) = (\<lambda>_. 0)"
      by (auto simp: fun_eq_iff holds_def None)
    with a(1) have "books env t" by (simp only:)
    with a(2) show ?thesis by simp
  next
    case (Some old)
    from go [unfolded Some option.case] obtain s5 s6 z a b where upd: "updateNode (n_id old) ?f s4 = (Inr a, s5)"
      and m: "markChanged (n_id old) True s5 = (Inr b, s6)" and z: "n_size old = Some z"
      and rec: "recordLiveByteDelta (rb_size rb - z) s6 = (Inr (), t)"
      by (elim andThenE) (auto simp: monad_simps split: option.splits)
    have old: "old \<in> set (t_nodes s4)" "n_namespaceId old = ns"
      using k(3) Some findChild_SomeD t4 by metis+
    note up = updateNode_ledger [OF upd sw(1) old(1)] and q = quietD [OF quiet_markChanged m]
    have "n_type old = FILE" using dir Some by (cases "n_type old") simp_all
    with up(1) old(2) t4(2) z have "ledger env s5 0 (z - rb_size rb) (\<lambda>_. 0) (\<lambda>_. 0)"
      by (simp add: Some liveByte_def)
    then have "ledger env s6 0 (z - rb_size rb) (\<lambda>_. 0) (\<lambda>_. 0)" by (simp add: ledger_core [OF q])
    from recordLiveByteDelta_ledger [OF rec this] have "books env t" by simp
    moreover have "x_namespaceId t = ns" using rec up(2) t4(2) by (simp add: monad_simps core_sel [OF q])
    ultimately show ?thesis ..
  qed
qed

interpretation restoreBlob: balanced_work env ns rootId "restoreBlob env segs c rb" for env ns rootId segs c rb
  by unfold_locales (rule restoreBlob_balanced)

end
