(* ===== verification/Passing.thy ===== *)
theory Passing
  imports Conditionals
begin

text \<open>
  What every program of the node repository does to the transaction, whether it returns or throws.
  \<open>passes R m\<close> says that the state before and the state after a run of \<open>m\<close> are related by \<open>R\<close>. The
  locale \<open>passing\<close> asks of a reflexive and transitive \<open>R\<close> only what the statements do (those that
  leave the Blobs alone, and the three that change them) and derives the claim for every operation
  composed of them. It is interpreted twice: ids are only ever drawn forward, and a Blob without
  references never gains one.
\<close>

definition passes :: "(tx \<Rightarrow> tx \<Rightarrow> bool) \<Rightarrow> 'a txp \<Rightarrow> bool" where
  "passes R m \<longleftrightarrow> (\<forall>s. R s (snd (m s)))"

named_theorems passing_rules \<open>programs whose runs stay within a relation on states\<close>

lemma passesD: "passes R m \<Longrightarrow> m s = (r, t) \<Longrightarrow> R s t"
  by (auto simp: passes_def dest: spec [of _ s])

lemma passesI: "(\<And>s r t. m s = (r, t) \<Longrightarrow> R s t) \<Longrightarrow> passes R m"
  unfolding passes_def by (metis prod.collapse)

lemma update_values: "x \<in> set (AList.update k v al) \<Longrightarrow> x = (k, v) \<or> x \<in> set al"
  by (induction al) (auto split: if_splits)

lemma tally_pos: "x \<in> set (tally ks) \<Longrightarrow> 0 \<le> snd x"
proof (induction ks arbitrary: x rule: rev_induct)
  case (snoc k ks)
  have "0 \<le> (case map_of (tally ks) k of None \<Rightarrow> 0 | Some c \<Rightarrow> c)"
    using snoc.IH by (auto split: option.splits dest!: map_of_SomeD)
  then show ?case using snoc.IH [of x] snoc.prems by (auto simp: tally_def dest!: update_values)
qed (simp add: tally_def)

lemma counts_pos [simp]:
  "x \<in> set (sortBy cmp (tally ks)) \<Longrightarrow> 0 \<le> snd x" "(b, c) \<in> set (sortBy cmp (tally ks)) \<Longrightarrow> 0 \<le> c"
  "(b, c) \<in> set (blobCounts rows) \<Longrightarrow> 0 \<le> c"
  using tally_pos by (fastforce simp: blobCounts_def)+

locale passing =
  fixes R :: "tx \<Rightarrow> tx \<Rightarrow> bool"
  assumes refl: "R s s" and trans: "R s t \<Longrightarrow> R t u \<Longrightarrow> R s u"
    and still: "t_blobs t = t_blobs s \<Longrightarrow> x_next s \<le> x_next t \<Longrightarrow> R s t"
    and create: "passes R (createBlob env ns d)"
    and revive: "passes R (incrementLiveReferenceCount ns b c)"
    and release: "0 \<le> c \<Longrightarrow> passes R (decrementReferenceCount env b c)"
begin

lemma passes_basic [passing_rules, simp]:
  "passes R (ret x)" "passes R (throw e)" "passes R (gets f)" "passes R (throwIf b e)" "passes R (liftR r)"
  by (auto simp: passes_def ret_def throw_def gets_def throwIf_def liftR_def intro: refl)

lemma passes_bind [passing_rules]:
  assumes "passes R m" and "\<And>x. passes R (f x)"
  shows "passes R (bind m f)"
proof (rule passesI)
  fix s r t assume "bind m f s = (r, t)"
  then show "R s t"
    using passesD [OF assms(1), of s] passesD [OF assms(2)]
    by (auto simp: bind_def split: prod.splits sum.splits intro: trans)
qed

lemma passes_andThen [passing_rules]: "passes R m \<Longrightarrow> passes R n \<Longrightarrow> passes R (andThen m n)"
  unfolding andThen_def by (rule passes_bind)

lemma passes_forEach [passing_rules]: "(\<And>x. x \<in> set xs \<Longrightarrow> passes R (f x)) \<Longrightarrow> passes R (forEach xs f)"
  by (induction xs) (auto intro: passes_andThen)

lemma passes_foldProg [passing_rules]: "(\<And>b x. passes R (f b x)) \<Longrightarrow> passes R (foldProg f b xs)"
  by (induction xs arbitrary: b) (auto intro: passes_bind)

lemma passes_modify [passing_rules]:
  "(\<And>s. t_blobs (f s) = t_blobs s) \<Longrightarrow> (\<And>s. x_next s \<le> x_next (f s)) \<Longrightarrow> passes R (modify f)"
  by (auto simp: passes_def modify_def intro: still)

lemma passes_if [passing_rules]: "passes R m \<Longrightarrow> passes R n \<Longrightarrow> passes R (if b then m else n)"
  by simp

lemma passes_option [passing_rules]:
  "passes R m \<Longrightarrow> (\<And>x. passes R (f x)) \<Longrightarrow> passes R (case r of None \<Rightarrow> m | Some x \<Rightarrow> f x)"
  by (cases r) auto

lemma passes_prod [passing_rules]: "(\<And>x y. passes R (f x y)) \<Longrightarrow> passes R (case p of (x, y) \<Rightarrow> f x y)"
  by (cases p) auto

lemma passes_list [passing_rules]:
  "passes R m \<Longrightarrow> (\<And>x ys. passes R (f x ys)) \<Longrightarrow> passes R (case xs of [] \<Rightarrow> m | x # ys \<Rightarrow> f x ys)"
  by (cases xs) auto

lemma passes_type [passing_rules]:
  "passes R m \<Longrightarrow> passes R n \<Longrightarrow> passes R (case ty of FILE \<Rightarrow> m | DIRECTORY \<Rightarrow> n)"
  by (cases ty) auto

section \<open>The statements\<close>

lemma passes_statements [passing_rules]:
  "passes R (setNodes f)" "passes R (updateNamespace ns h)" "passes R (freshId env)"
  unfolding setNodes_def updateNamespace_def freshId_def by (auto intro!: passing_rules)

lemmas passes_blobs [passing_rules] = create revive release

lemma passes_rows [passing_rules]:
  "passes R (getNamespaceOrFail ns)" "passes R (insertNode n)" "passes R (createNode env ns p ty name bl sz mime ex)"
  "passes R (saveNode env n)" "passes R (updateNode i f)" "passes R (deleteNodesById ids)"
  unfolding getNamespaceOrFail_def insertNode_def createNode_def saveNode_def updateNode_def deleteNodesById_def Let_def
  by (auto intro!: passing_rules)

lemma passes_marks [passing_rules]:
  "passes R (trackChangeFeedBefore ids)" "passes R (markChanged i inc)" "passes R (recordLiveByteDelta k)"
  "passes R (recordFolderFileDelta p k)" "passes R (recordLiveNodeDelta k)" "passes R (lockTargetNode ns p name)"
  unfolding trackChangeFeedBefore_def markChanged_def recordLiveByteDelta_def recordFolderFileDelta_def recordLiveNodeDelta_def
    lockTargetNode_def Let_def
  by (auto intro!: passing_rules split: option.split)

lemma passes_markWalk [passing_rules]: "passes R (markWalk fuel i walked)"
proof (induction fuel arbitrary: i walked)
  case 0
  show ?case by (cases i) (auto intro!: passing_rules)
next
  case (Suc fuel)
  then show ?case by (cases i) (auto intro!: passing_rules)
qed

lemma passes_markAncestorChain [passing_rules]: "passes R (markAncestorChain i)"
  unfolding markAncestorChain_def by (auto intro!: passing_rules)

lemma passes_lockParentLoop [passing_rules]: "passes R (lockParentLoop env ns parents p ty pre segs)"
  by (induction segs arbitrary: p ty pre) (auto intro!: passing_rules)

lemma passes_lockParentChain [passing_rules]: "passes R (lockParentChain env ns rootId segs parents mark)"
  unfolding lockParentChain_def by (auto intro!: passing_rules)

lemma passes_commit [passing_rules]: "passes R (commitMutation env v (\<lambda>_. ret ()))"
  unfolding commitMutation_def applyNodeCounters_def applyLogicalByteQuota_def bumpAndReadChangedNodes_def
    applyLiveNodes_def applyFolderDelta_def bumpChunk_def appendChangeFeedEvents_def Let_def
  by (auto intro!: passing_rules)

section \<open>The operations\<close>

lemma passes_ensureLoop [passing_rules]: "passes R (ensureLoop env ns parents pre p ty current created segs)"
  by (induction segs arbitrary: pre p ty current created) (auto intro!: passing_rules)

lemma passes_files [passing_rules]:
  "passes R (ensureDirectory env ns rootId segs parents)" "passes R (addFile env ns p name b sz mime ex)"
  "passes R (touchRow env i)" "passes R (resolveSource env ns rootId segs mark)" "passes R (recordMove n f)"
  unfolding ensureDirectory_def addFile_def touchRow_def resolveSource_def recordMove_def Let_def
  by (auto intro!: passing_rules)

lemma passes_content [passing_rules]:
  "passes R (touchFile env ns rootId segs parents d)" "passes R (replaceContent env ns old new)"
  unfolding touchFile_def replaceContent_def by (auto intro!: passing_rules)

lemma passes_put [passing_rules]: "passes R (putFileContent env ns rootId segs parents new ifMatch force ex)"
  unfolding putFileContent_def by (auto intro!: passing_rules)

lemma passes_placement [passing_rules]:
  "passes R (resolveDestinationPlacement env ns rootId src dst parents mark exact)"
  unfolding resolveDestinationPlacement_def lockBothPaths_def placeAt_def Let_def by (auto intro!: passing_rules)

lemma passes_move [passing_rules]: "passes R (moveNode env ns rootId src dst parents limit exact)"
  unfolding moveNode_def Let_def by (auto intro!: passing_rules)

lemma passes_copyLoop [passing_rules]: "passes R (copyLoop env ns ex kids fuel queue rows)"
proof (induction fuel arbitrary: queue rows)
  case 0
  show ?case by (cases queue) (auto intro!: passing_rules)
next
  case (Suc fuel)
  then show ?case by (cases queue) (auto simp: copyChild_def intro!: passing_rules)
qed

lemma passes_trash [passing_rules]:
  "passes R (findForMutation env i)" "passes R (consume item)" "passes R (captureSnapshotRows segs m)"
  "passes R (capture env path rows)" "passes R (throwPrecondition n path)"
  unfolding findForMutation_def consume_def captureSnapshotRows_def capture_def insertEntry_def throwPrecondition_def Let_def
  by (auto intro!: passing_rules)

lemma passes_moveToTrash [passing_rules]: "passes R (moveToTrash env segs rows)"
  unfolding moveToTrash_def deleteNodes_def bookRemoval_def by (auto intro!: passing_rules)

lemma passes_remove [passing_rules]:
  "passes R (removeNode env ns rootId segs rec limit)" "passes R (removeEmptyDirectory env ns rootId segs)"
  unfolding removeNode_def removeEmptyDirectory_def by (auto intro!: passing_rules)

lemma passes_restore [passing_rules]:
  "passes R (restoreTrashItem env ns i path)" "passes R (purgeTrashItem env i)" "passes R (expireWork env ns rootId i cutoff)"
  unfolding restoreTrashItem_def restoreEntry_def purgeTrashItem_def expireWork_def Let_def by (auto intro!: passing_rules)

lemma passes_conditions [passing_rules]:
  "passes R (assertRevision n tok path)" "passes R (swapReference env ns path old new)"
  unfolding assertRevision_def swapReference_def by (auto intro!: passing_rules)

lemma passes_checkContentCondition [passing_rules]: "passes R (checkContentCondition c existing path)"
  by (cases c) (auto intro!: passing_rules passes_conditions)

lemma passes_orPrecondition [passing_rules]:
  assumes "passes R m"
  shows "passes R (orPrecondition m)"
proof (rule passesI)
  fix s r t assume run: "orPrecondition m s = (r, t)"
  obtain r' t' where m: "m s = (r', t')" by fastforce
  note tp = trans [OF passesD [OF assms m] passesD [OF passes_trash(5)]]
  show "R s t" using passesD [OF assms m] run
    by (auto simp: orPrecondition_def m split: sum.splits vfs_error.splits node_error.splits intro: tp)
qed

lemma passes_segments [passing_rules]:
  "passes R (forEach xs (\<lambda>segs. liftR (assertPathSegments nfc segs)))"
  by (auto intro!: passing_rules)

lemma passes_conditionalSource [passing_rules]: "passes R (conditionalSource path segs tok)"
  unfolding conditionalSource_def by (auto intro!: passing_rules)

lemma passes_command [passing_rules]:
  assumes "\<nexists>p ss q ds t e k. command = CopyCommand p ss q ds t e k"
  shows "passes R (applyConditionalMutation env command)"
  unfolding applyConditionalMutation_def using assms
  by (cases command)
    (auto simp: conditionalMkdir_def conditionalDelete_def persistNode_def setMimeTypeNode_def lockFileAt_def
      conditionalMove_def intro!: passing_rules)

lemma passes_conditionalContent [passing_rules]:
  "passes R (putConditionalContent env segs c d)" "passes R (restoreBlob env segs c rb)"
  unfolding putConditionalContent_def restoreBlob_def Let_def by (auto intro!: passing_rules)

end

text \<open>With the plain increment of a copy as well, nothing is left out.\<close>

locale passing_increments = passing +
  assumes increment: "passes R (incrementReferenceCount b c)"
begin

lemma passes_copy [passing_rules]: "passes R (copyNode env ns rootId src dst parents limit exact ex)"
  unfolding copyNode_def copyDirectory_def bookCopies_def Let_def by (auto intro!: passing_rules increment)

lemma passes_everyCommand [passing_rules]: "passes R (applyConditionalMutation env command)"
proof (cases command)
  case (CopyCommand p ss q ds t e k)
  then show ?thesis
    unfolding applyConditionalMutation_def by (auto simp: conditionalCopy_def intro!: passing_rules)
qed (auto intro: passes_command)

end

section \<open>Ids are drawn forward\<close>

definition forward :: "'a txp \<Rightarrow> bool" where
  "forward = passes (\<lambda>s t. x_next s \<le> x_next t)"

interpretation ids: passing_increments "\<lambda>s t. x_next s \<le> x_next t"
  by unfold_locales
    (auto simp: passes_def createBlob_def incrementLiveReferenceCount_def decrementReferenceCount_def incrementReferenceCount_def
      setBlobs_def freshId_def bind_def gets_def ret_def modify_def throw_def throwIf_def andThen_def Let_def)

end
