(* ===== verification/History.thy ===== *)
theory History
  imports ConditionalBooks Passing
begin

text \<open>
  Histories of the node repository: any sequence of its mutations, successful or refused, keeps the
  database consistent. A failed mutation rolls back, but the ids it drew are spent, so beside the
  books a mutation must only ever move forward in the sequence of ids.
\<close>

section \<open>One request\<close>

text \<open>\<open>(await this.withMutation(namespaceId, rootId, (inner) => ...)).value\<close>.\<close>

definition mutate :: "env \<Rightarrow> jstring \<Rightarrow> uuid \<Rightarrow> 'a txp \<Rightarrow> (store, vfs_error, 'a) prog" where
  "mutate env ns rootId work =
     bind (withMutation env ns rootId False work (\<lambda>_. ret ())) (\<lambda>(v, _). ret v)"

text \<open>The trash operations look the namespace's root up first.\<close>

definition mutateAtRoot :: "env \<Rightarrow> jstring \<Rightarrow> 'a txp \<Rightarrow> (store, vfs_error, 'a) prog" where
  "mutateAtRoot env ns work = (\<lambda>(d, k).
     case findRoot ns (nodes d) of
       None \<Rightarrow> (Inl (nodeNotFound [slash]), (d, k))
     | Some root \<Rightarrow> mutate env ns (n_id root) work (d, k))"

text \<open>The mutations of the repository, called outside a transaction.\<close>

datatype request =
    EnsureDirectory "jstring list" bool
  | TouchFile "jstring list" bool "blob_data option"
  | PutFileContent "jstring list" bool blob_data "int option" bool "time option"
  | MoveNode "jstring list" "jstring list" bool int bool
  | CopyNode "jstring list" "jstring list" bool int bool "time option"
  | RemoveNode "jstring list" bool int
  | RemoveEmptyDirectory "jstring list"
  | RestoreTrashItem uuid "jstring option"
  | PurgeTrashItem uuid
  | ExpireNode uuid time
  | ApplyConditionalMutation conditional_mutation
  | PutConditionalContent "jstring list" content_precondition blob_data
  | RestoreBlob "jstring list" content_precondition restorable_blob
  | CreateChangeFeedCheckpoint jstring

definition unitP :: "('s, 'e, 'a) prog \<Rightarrow> ('s, 'e, unit) prog" where
  "unitP m = bind m (\<lambda>_. ret ())"

fun serve :: "env \<Rightarrow> jstring \<Rightarrow> uuid \<Rightarrow> request \<Rightarrow> (store, vfs_error, unit) prog" where
  "serve env ns rootId (EnsureDirectory segs parents) = unitP (mutate env ns rootId (ensureDirectory env ns rootId segs parents))"
| "serve env ns rootId (TouchFile segs parents d) = unitP (mutate env ns rootId (touchFile env ns rootId segs parents d))"
| "serve env ns rootId (PutFileContent segs parents d ifMatch force ex) =
     unitP (mutate env ns rootId (putFileContent env ns rootId segs parents d ifMatch force ex))"
| "serve env ns rootId (MoveNode src dst parents limit exact) =
     unitP (mutate env ns rootId (moveNode env ns rootId src dst parents limit exact))"
| "serve env ns rootId (CopyNode src dst parents limit exact ex) =
     unitP (mutate env ns rootId (copyNode env ns rootId src dst parents limit exact ex))"
| "serve env ns rootId (RemoveNode segs recursive limit) =
     unitP (mutate env ns rootId (removeNode env ns rootId segs recursive limit))"
| "serve env ns rootId (RemoveEmptyDirectory segs) = unitP (mutate env ns rootId (removeEmptyDirectory env ns rootId segs))"
| "serve env ns rootId (RestoreTrashItem i path) = unitP (mutateAtRoot env ns (restoreTrashItem env ns i path))"
| "serve env ns rootId (PurgeTrashItem i) = unitP (mutateAtRoot env ns (purgeTrashItem env i))"
| "serve env ns rootId (ExpireNode i cutoff) = unitP (expireNode env ns i cutoff)"
| "serve env ns rootId (ApplyConditionalMutation command) = unitP (mutate env ns rootId (applyConditionalMutation env command))"
| "serve env ns rootId (PutConditionalContent segs c d) = unitP (mutate env ns rootId (putConditionalContent env segs c d))"
| "serve env ns rootId (RestoreBlob segs c rb) = unitP (mutate env ns rootId (restoreBlob env segs c rb))"
| "serve env ns rootId (CreateChangeFeedCheckpoint secret) = (\<lambda>(d, k).
     case createChangeFeedCheckpoint ns rootId secret d of (r, d') \<Rightarrow> (map_sum id (\<lambda>_. ()) r, (d', k)))"

text \<open>What holds of the database between requests.\<close>

fun sound :: "env \<Rightarrow> jstring \<Rightarrow> store \<Rightarrow> bool" where
  "sound env ns (d, k) \<longleftrightarrow> consistent ns d \<and> freshIds env k d"

definition safe :: "env \<Rightarrow> jstring \<Rightarrow> (store, vfs_error, 'a) prog \<Rightarrow> bool" where
  "safe env ns m \<longleftrightarrow> (\<forall>st. sound env ns st \<longrightarrow> sound env ns (snd (m st)))"

lemma snd_ret_after: "snd (bind m (\<lambda>x. ret (f x)) s) = snd (m s)"
  by (auto simp: bind_def ret_def split: prod.split sum.split)

lemma safe_unitP [intro]: "safe env ns m \<Longrightarrow> safe env ns (unitP m)"
  by (simp add: safe_def unitP_def snd_ret_after)

locale steady_work = balanced_work env ns rootId work for env ns rootId and work :: "'a txp" +
  assumes forward: "forward work"
begin

lemma with_safe: "safe env ns (withMutation env ns rootId ai work (\<lambda>_. ret ()))"
  unfolding safe_def
proof (intro allI impI)
  fix st assume "sound env ns st"
  then obtain d k where st: "st = (d, k)" and c: "consistent ns d" "freshIds env k d" by (cases st) auto
  obtain r d' k' where run: "withMutation env ns rootId ai work (\<lambda>_. ret ()) (d, k) = (r, (d', k'))"
    by (metis prod.collapse)
  have "consistent ns d' \<and> freshIds env k' d'"
  proof (cases r)
    case (Inr v)
    with commit_consistent [OF _ c] run show ?thesis by blast
  next
    case (Inl e)
    have "forward (bind work (\<lambda>v. commitMutation env v (\<lambda>_. ret ())))"
      using forward unfolding forward_def by (intro ids.passes_bind ids.passes_commit)
    note f = passesD [OF this [unfolded forward_def]]
    have "d' = d \<and> k \<le> k'"
      using run Inl by (auto simp: withMutation_def initTx_def split: sum.splits prod.splits dest: f)
    with c show ?thesis by (auto intro: freshIds_mono)
  qed
  then show "sound env ns (snd (withMutation env ns rootId ai work (\<lambda>_. ret ()) st))" by (simp add: st run)
qed

lemma mutate_safe: "safe env ns (mutate env ns rootId work)"
  using with_safe unfolding safe_def mutate_def case_prod_unfold snd_ret_after by blast

end

interpretation mkdirReq: steady_work env ns rootId "ensureDirectory env ns rootId segs parents" for env ns rootId segs parents
  by unfold_locales (simp add: forward_def passing_rules)

interpretation touchReq: steady_work env ns rootId "touchFile env ns rootId segs parents d" for env ns rootId segs parents d
  by unfold_locales (simp add: forward_def passing_rules)

interpretation putReq: steady_work env ns rootId "putFileContent env ns rootId segs parents d ifMatch force ex"
  for env ns rootId segs parents d ifMatch force ex
  by unfold_locales (simp add: forward_def passing_rules)

interpretation moveReq: steady_work env ns rootId "moveNode env ns rootId src dst parents limit exact"
  for env ns rootId src dst parents limit exact
  by unfold_locales (simp add: forward_def passing_rules)

interpretation copyReq: steady_work env ns rootId "copyNode env ns rootId src dst parents limit exact ex"
  for env ns rootId src dst parents limit exact ex
  by unfold_locales (simp add: forward_def passing_rules)

interpretation removeReq: steady_work env ns rootId "removeNode env ns rootId segs recursive limit"
  for env ns rootId segs recursive limit
  by unfold_locales (simp add: forward_def passing_rules)

interpretation rmdirReq: steady_work env ns rootId "removeEmptyDirectory env ns rootId segs" for env ns rootId segs
  by unfold_locales (simp add: forward_def passing_rules)

interpretation restoreReq: steady_work env ns rootId "restoreTrashItem env ns i path" for env ns rootId i path
  by unfold_locales (simp add: forward_def passing_rules)

interpretation purgeReq: steady_work env ns rootId "purgeTrashItem env i" for env ns rootId i
  by unfold_locales (simp add: forward_def passing_rules)

interpretation expireReq: steady_work env ns rootId "expireWork env ns rootId i cutoff" for env ns rootId i cutoff
  by unfold_locales (simp add: forward_def passing_rules)

interpretation commandReq: steady_work env ns rootId "applyConditionalMutation env command" for env ns rootId command
  by unfold_locales (simp add: forward_def passing_rules)

interpretation putConditionalReq: steady_work env ns rootId "putConditionalContent env segs c d" for env ns rootId segs c d
  by unfold_locales (simp add: forward_def passing_rules)

interpretation restoreBlobReq: steady_work env ns rootId "restoreBlob env segs c rb" for env ns rootId segs c rb
  by unfold_locales (simp add: forward_def passing_rules)

lemmas requests_safe = mkdirReq.mutate_safe touchReq.mutate_safe putReq.mutate_safe moveReq.mutate_safe
  copyReq.mutate_safe removeReq.mutate_safe rmdirReq.mutate_safe commandReq.mutate_safe putConditionalReq.mutate_safe
  restoreBlobReq.mutate_safe

lemma mutateAtRoot_safe:
  "(\<And>rootId. safe env ns (mutate env ns rootId work)) \<Longrightarrow> safe env ns (mutateAtRoot env ns work)"
  by (auto simp: safe_def mutateAtRoot_def split: option.split)

lemma expireNode_safe: "safe env ns (expireNode env ns i cutoff)"
  using expireReq.with_safe
  by (auto simp: safe_def expireNode_def case_prod_unfold snd_ret_after split: option.split)

lemma consistent_feedStates: "consistent ns (d\<lparr> feedStates := fs \<rparr>) = consistent ns d"
  by (simp add: consistent_def rowsOk_def namespaceOk_def foldersOk_def refsOk_def refs_def trashOk_def)

lemma checkpoint_safe:
  "consistent ns (snd (createChangeFeedCheckpoint ns rootId secret d)) = consistent ns d"
  "freshIds env k (snd (createChangeFeedCheckpoint ns rootId secret d)) = freshIds env k d"
  by (auto simp: createChangeFeedCheckpoint_def Let_def consistent_feedStates split: sum.split option.split)

lemma serve_safe: "safe env ns (serve env ns rootId req)"
proof (cases req)
  case (CreateChangeFeedCheckpoint secret)
  then show ?thesis
    by (auto simp: safe_def checkpoint_safe split: prod.split) (metis checkpoint_safe snd_conv)+
next
  case (RestoreTrashItem i path)
  then show ?thesis by (simp add: safe_unitP mutateAtRoot_safe restoreReq.mutate_safe)
next
  case (PurgeTrashItem i)
  then show ?thesis by (simp add: safe_unitP mutateAtRoot_safe purgeReq.mutate_safe)
next
  case (ExpireNode i cutoff)
  then show ?thesis using expireNode_safe by auto
qed (auto intro: requests_safe)

section \<open>Histories\<close>

text \<open>
  The clocks and the configured limits may differ from request to request, and so may the directory
  a request starts from; the generator of ids is the same throughout.
\<close>

inductive history :: "(nat \<Rightarrow> uuid) \<Rightarrow> jstring \<Rightarrow> store \<Rightarrow> store \<Rightarrow> bool" for gen ns st where
  start: "history gen ns st st"
| step: "history gen ns st st' \<Longrightarrow> env_uuid env = gen \<Longrightarrow> serve env ns rootId req st' = (r, st'') \<Longrightarrow> history gen ns st st''"

inductive_cases historyE: "history gen ns st st'"

lemma sound_env: "env_uuid env' = env_uuid env \<Longrightarrow> sound env' ns st = sound env ns st"
  by (cases st) (simp add: freshIds_def)

lemma history_sound:
  assumes "history gen ns st st'" and "env_uuid env = gen" and "sound env ns st"
  shows "sound env ns st'"
  using assms
proof (induction rule: history.induct)
  case (step st' env' rootId req r st'')
  then have "sound env' ns st'" using sound_env [of env' env] by simp
  then have "sound env' ns st''" using serve_safe [of env' ns rootId req] step.hyps(3) by (metis safe_def snd_conv)
  then show ?case using sound_env [of env' env] step by simp
qed

end
