(* ===== verification/Views.thy ===== *)
theory Views
  imports History "HOL-Library.Sublist"
begin

text \<open>
  The file tree a client sees, and what the operations promise of it. The abstract state is a map
  from paths to folders and documents; mkdir, put, move and remove are simple updates of that map,
  and each operation of the repository refines its update.
\<close>

section \<open>The abstract file tree\<close>

datatype item = Folder | Document "uuid option" "int option" "jstring option" "time option"

type_synonym tree = "jstring list \<Rightarrow> item option"

text \<open>Every missing folder on the way to a path.\<close>

definition mkdirs :: "jstring list \<Rightarrow> tree \<Rightarrow> tree" where
  "mkdirs segs v = (\<lambda>p. if v p = None \<and> prefix p segs then Some Folder else v p)"

definition prune :: "jstring list \<Rightarrow> tree \<Rightarrow> tree" where
  "prune segs v = (\<lambda>p. if prefix segs p then None else v p)"

definition relocate :: "jstring list \<Rightarrow> jstring list \<Rightarrow> tree \<Rightarrow> tree" where
  "relocate src dst v = (\<lambda>p. if prefix dst p then v (src @ drop (length dst) p) else prune src v p)"

lemma mkdirs_idle: "(\<And>p. prefix p segs \<Longrightarrow> v p \<noteq> None) \<Longrightarrow> mkdirs segs v = v"
  by (auto simp: mkdirs_def fun_eq_iff)

lemma mkdirs_snoc:
  assumes "\<And>p. prefix p segs \<Longrightarrow> v p \<noteq> None" and "v (segs @ [a]) = None"
  shows "mkdirs (segs @ [a]) v = v(segs @ [a] \<mapsto> Folder)"
proof
  fix p
  show "mkdirs (segs @ [a]) v p = (v(segs @ [a] \<mapsto> Folder)) p"
    using assms(1) [of p] assms(2) by (auto simp: mkdirs_def prefix_snoc)
qed

lemma mkdirs_mkdirs: "mkdirs (a @ b) (mkdirs a v) = mkdirs (a @ b) v"
  by (auto simp: mkdirs_def fun_eq_iff intro: prefix_prefix)

section \<open>The tree of a node table\<close>

definition itemOf :: "node \<Rightarrow> item" where
  "itemOf n = (case n_type n of DIRECTORY \<Rightarrow> Folder
     | FILE \<Rightarrow> Document (n_blobId n) (n_size n) (n_mimeType n) (n_expiresAt n))"

definition treeAt :: "jstring \<Rightarrow> node list \<Rightarrow> node \<Rightarrow> tree" where
  "treeAt ns tbl r = (\<lambda>segs. map_option itemOf (resolveFrom ns tbl (Some r) segs))"

definition viewOf :: "jstring \<Rightarrow> uuid \<Rightarrow> db \<Rightarrow> tree" where
  "viewOf ns rootId d = (\<lambda>segs. map_option itemOf (resolvePathInManager ns rootId segs (nodes d)))"

lemma viewOf_tree:
  assumes "validNodes (nodes d) bl" and "r \<in> set (nodes d)" and "n_id r = rootId" and "n_namespaceId r = ns"
  shows "viewOf ns rootId d = treeAt ns (nodes d) r"
proof -
  have "findNode ns rootId (nodes d) = Some r"
    unfolding findNode_def
  proof (rule findRow_unique)
    show "q = r" if "q \<in> set (nodes d)" "n_id q = rootId \<and> n_namespaceId q = ns" for q
      using that assms(3) valid_id_eq [OF assms(1) that(1) assms(2)] by simp
  qed (use assms in simp_all)
  then show ?thesis by (simp add: viewOf_def treeAt_def resolvePathInManager_def)
qed

lemma findChild_iff:
  assumes "validNodes tbl bl"
  shows "findChild ns p a tbl = Some n \<longleftrightarrow>
    n \<in> set tbl \<and> n_namespaceId n = ns \<and> n_parentId n = Some p \<and> n_name n = a"
proof
  assume "n \<in> set tbl \<and> n_namespaceId n = ns \<and> n_parentId n = Some p \<and> n_name n = a"
  with assms show "findChild ns p a tbl = Some n"
    unfolding findChild_def by (intro findRow_unique) (auto simp: validNodes_def clash_def)
qed (auto dest: findChild_SomeD)

text \<open>A path resolves only when all its prefixes do.\<close>

lemma resolve_prefix:
  assumes "resolveFrom ns tbl n segs \<noteq> None" and "prefix p segs"
  shows "resolveFrom ns tbl n p \<noteq> None"
  using assms by (cases "resolveFrom ns tbl n p") (auto simp: prefix_def resolveFrom_appendSegs)

lemma tree_prefix:
  assumes "resolveFrom ns tbl (Some r) segs = Some q" and "prefix p segs"
  shows "treeAt ns tbl r p \<noteq> None"
  using resolve_prefix [of ns tbl "Some r" segs p] assms by (simp add: treeAt_def)

section \<open>One more row\<close>

lemma resolve_insert:
  assumes v: "validNodes tbl bl" and h: "ranked h tbl" and r: "r \<in> set tbl"
    and q: "resolveFrom ns tbl (Some r) pre = Some q" "n_type q = DIRECTORY"
    and c: "n_id c \<notin> n_id ` set tbl" "n_namespaceId c = ns" "n_parentId c = Some (n_id q)"
    and free: "findChild ns (n_id q) (n_name c) tbl = None"
  shows "resolveFrom ns (tbl @ [c]) (Some r) segs =
    (if segs = pre @ [n_name c] then Some c else resolveFrom ns tbl (Some r) segs)"
proof (induction segs rule: rev_induct)
  case (snoc x segs)
  have qin: "q \<in> set tbl" by (rule resolve_in [OF q(1) r])
  show ?case
  proof (cases "segs = pre @ [n_name c]")
    case True
    have "n_parentId n \<noteq> Some (n_id c)" if "n \<in> set tbl" for n
      using valid_row(3) [OF v that] c(1) by (auto simp: parentOk_def) (metis imageI)
    moreover have "n_id q \<noteq> n_id c" using c(1) qin by (metis imageI)
    ultimately have "findChild ns (n_id c) x (tbl @ [c]) = None"
      using c(3) by (auto simp: findChild_def findRow_None_iff)
    moreover have "resolveFrom ns tbl (Some r) segs = None" unfolding True by (simp add: resolveFrom_snoc q free)
    moreover have "resolveFrom ns (tbl @ [c]) (Some r) segs = Some c" using snoc.IH True by simp
    moreover have "segs \<noteq> pre" using True by simp
    ultimately show ?thesis by (simp add: resolveFrom_snoc)
  next
    case False
    have eq: "segs = pre" if "resolveFrom ns tbl (Some r) segs = Some q'" "n_id q' = n_id q" for q'
    proof -
      have "q' = q" by (rule valid_id_eq [OF v resolve_in [OF that(1) r] qin that(2)])
      with that(1) q(1) show ?thesis by (auto intro: resolve_inj [OF v h r])
    qed
    show ?thesis
    proof (cases "resolveFrom ns tbl (Some r) segs")
      case None
      then have "segs \<noteq> pre" using q by auto
      with None snoc.IH False show ?thesis by (simp add: resolveFrom_snoc)
    next
      case (Some q')
      have "findChild ns (n_id q') x [c] = (if n_id q' = n_id q \<and> x = n_name c then Some c else None)"
        using c by (auto simp: findChild_def findRow_def)
      moreover have same: "segs = pre \<longleftrightarrow> n_id q' = n_id q" using eq [OF Some] Some q(1) by auto
      moreover have "resolveFrom ns (tbl @ [c]) (Some r) segs = Some q'" using snoc.IH False Some by simp
      moreover have "n_type q' = DIRECTORY \<and> findChild ns (n_id q') (n_name c) tbl = None" if "segs = pre"
        using that Some q free by simp
      ultimately show ?thesis
        using Some by (auto simp: resolveFrom_snoc findChild_append split: option.split)
    qed
  qed
qed simp

lemma tree_insert:
  assumes "validNodes tbl bl" and "grounded tbl" and "r \<in> set tbl"
    and "resolveFrom ns tbl (Some r) pre = Some q" "n_type q = DIRECTORY"
    and "checkNodeRow c tbl bl = None" "n_namespaceId c = ns" "n_parentId c = Some (n_id q)"
  shows "treeAt ns (tbl @ [c]) r = (treeAt ns tbl r)(pre @ [n_name c] \<mapsto> itemOf c)"
    and "resolveFrom ns (tbl @ [c]) (Some r) (pre @ [n_name c]) = Some c"
    and "treeAt ns tbl r (pre @ [n_name c]) = None"
proof -
  from assms(2) obtain h where h: "ranked h tbl" by (auto simp: grounded_def)
  have id: "n_id c \<notin> n_id ` set tbl" using assms(6) by (auto simp: checkNodeRow_None)
  have free: "findChild ns (n_id q) (n_name c) tbl = None"
    using assms(6-8) by (auto simp: checkNodeRow_None clash_def findChild_def findRow_None_iff)
  note i = resolve_insert [OF assms(1) h assms(3-5) id assms(7,8) free]
  show "treeAt ns (tbl @ [c]) r = (treeAt ns tbl r)(pre @ [n_name c] \<mapsto> itemOf c)"
    by (simp add: fun_eq_iff treeAt_def i)
  show "resolveFrom ns (tbl @ [c]) (Some r) (pre @ [n_name c]) = Some c" by (simp add: i)
  show "treeAt ns tbl r (pre @ [n_name c]) = None" using assms(4,5) free by (simp add: treeAt_def resolveFrom_snoc)
qed

section \<open>Walks\<close>

lemma mkdirs_resolved:
  assumes "resolveFrom ns tbl (Some r) pre = Some q"
  shows "mkdirs pre (treeAt ns tbl r) = treeAt ns tbl r"
  by (rule mkdirs_idle) (rule tree_prefix [OF assms])

lemma createDirectory_tree:
  assumes c: "createNode env ns p DIRECTORY name None None None None s = (Inr child, t)"
    and l: "ledger env s dn db df own" and r: "r \<in> set (t_nodes s)"
    and q: "resolveFrom ns (t_nodes s) (Some r) pre = Some q" "n_id q = p" "n_type q = DIRECTORY"
  shows "treeAt ns (t_nodes t) r = mkdirs (pre @ [name]) (treeAt ns (t_nodes s) r)"
    and "resolveFrom ns (t_nodes t) (Some r) (pre @ [name]) = Some child" and "r \<in> set (t_nodes t)"
proof -
  note cr = createNode_run [OF c]
  have child: "n_namespaceId child = ns" "n_parentId child = Some (n_id q)" "n_name child = name" "itemOf child = Folder"
    by (simp_all add: cr(1) newNode_def q(2) itemOf_def)
  note i = tree_insert [OF ledger_valid [OF l] ledger_grounded [OF l] r q(1,3) cr(3) child(1,2), unfolded child(3)]
  have "mkdirs (pre @ [name]) (treeAt ns (t_nodes s) r) = (treeAt ns (t_nodes s) r)(pre @ [name] \<mapsto> Folder)"
    by (rule mkdirs_snoc) (use tree_prefix [OF q(1)] i(3) in simp_all)
  with i(1,2) r
  show "treeAt ns (t_nodes t) r = mkdirs (pre @ [name]) (treeAt ns (t_nodes s) r)"
    "resolveFrom ns (t_nodes t) (Some r) (pre @ [name]) = Some child" "r \<in> set (t_nodes t)"
    by (simp_all add: cr(2) child(4))
qed

lemma lockParentLoop_tree:
  assumes "lockParentLoop env ns parents p ty pre segs s = (Inr res, t)" and "ledger env s dn db df own"
    and "ns = x_namespaceId s" and "r \<in> set (t_nodes s)"
    and "resolveFrom ns (t_nodes s) (Some r) pre = Some pn" and "n_id pn = p" and "n_type pn = ty"
  shows "treeAt ns (t_nodes t) r = mkdirs (pre @ segs) (treeAt ns (t_nodes s) r)"
  using assms
proof (induction env ns parents p ty pre segs arbitrary: s pn rule: lockParentLoop.induct)
  case (1 env ns parents p ty pre)
  then show ?case by (simp add: monad_simps mkdirs_resolved)
next
  case (2 env ns parents p ty pre name rest)
  from "2.prems"(1) obtain s1 v1 where dir: "ty = DIRECTORY" and s1: "trackChangeFeedBefore [p] s = (Inr v1, s1)"
    and go: "(case findChild ns p name (t_nodes s1) of
        Some child \<Rightarrow> lockParentLoop env ns parents (n_id child) (n_type child) (pre @ [name]) rest
      | None \<Rightarrow>
          andThen (throwIf (\<not> parents) (nodeNotFound (joinSegments (pre @ [name]))))
          (bind (createNode env ns p DIRECTORY name None None None None) (\<lambda>child.
           andThen (recordLiveNodeDelta 1)
           (andThen (markAncestorChain p)
           (andThen (markChanged (n_id child) False)
           (lockParentLoop env ns parents (n_id child) (n_type child) (pre @ [name]) rest)))))) s1 = (Inr res, t)"
    unfolding lockParentLoop.simps by (elim monad_elims) blast
  note q1 = quietD [OF quiet_track s1]
  have l1: "ledger env s1 dn db df own" "ns = x_namespaceId s1" "r \<in> set (t_nodes s1)"
    and pn: "resolveFrom ns (t_nodes s1) (Some r) pre = Some pn" "n_id pn = p" "n_type pn = DIRECTORY"
    using "2.prems" dir by (simp_all add: ledger_core [OF q1] core_sel [OF q1])
  show ?case
  proof (cases "findChild ns p name (t_nodes s1)")
    case (Some child)
    with go have "lockParentLoop env ns parents (n_id child) (n_type child) (pre @ [name]) rest s1 = (Inr res, t)" by simp
    from "2.IH"(2) [OF this l1] pn Some show ?thesis by (simp add: resolveFrom_snoc core_sel [OF q1])
  next
    case None
    from go [unfolded None option.case] obtain child s2 s3 s4 s5 u v w where
      c: "createNode env ns p DIRECTORY name None None None None s1 = (Inr child, s2)" "recordLiveNodeDelta 1 s2 = (Inr u, s3)"
      and m: "markAncestorChain p s3 = (Inr v, s4)" "markChanged (n_id child) False s4 = (Inr w, s5)"
      and rest: "lockParentLoop env ns parents (n_id child) (n_type child) (pre @ [name]) rest s5 = (Inr res, t)"
      by (elim monad_elims) blast
    have q5: "core s5 = core s3"
      using quietD [OF quiet_markAncestorChain m(1)] quietD [OF quiet_markChanged m(2)] by simp
    have s3: "t_nodes s3 = t_nodes s2" using c(2) by (simp add: monad_simps)
    have "p \<in> n_id ` set (t_nodes s1)" using resolve_in [OF pn(1) l1(3)] pn(2) by (metis imageI)
    note l3 = createDirectory_ledger [OF c l1(1,2) this] and tr = createDirectory_tree [OF c(1) l1(1,3) pn]
    have "ledger env s5 dn db df own" "ns = x_namespaceId s5" "r \<in> set (t_nodes s5)"
      and "resolveFrom ns (t_nodes s5) (Some r) (pre @ [name]) = Some child"
      using l3 tr by (simp_all add: ledger_core [OF q5] core_sel [OF q5] s3)
    from "2.IH"(1) [OF rest this refl refl] tr(1) mkdirs_mkdirs [of "pre @ [name]" rest]
    show ?thesis by (simp add: core_sel [OF q5] core_sel [OF q1] s3)
  qed
qed

lemma lockParentChain_tree:
  assumes run: "lockParentChain env ns rootId segs parents mark s = (Inr p, t)" and l: "ledger env s dn db df own"
    and ns: "ns = x_namespaceId s" and r: "r \<in> set (t_nodes s)" "n_id r = rootId" "n_type r = DIRECTORY"
  shows "treeAt ns (t_nodes t) r = mkdirs (butlast segs) (treeAt ns (t_nodes s) r)"
proof -
  obtain q ty s1 where loop: "lockParentLoop env ns parents rootId DIRECTORY [] (butlast segs) s = (Inr (q, ty), s1)"
    and tail: "andThen (throwIf (ty \<noteq> DIRECTORY) (notDirectory (joinSegments (butlast segs))))
      (andThen (trackChangeFeedBefore [q]) (andThen (if mark then markAncestorChain q else ret ()) (ret q))) s1 = (Inr p, t)"
    using run unfolding lockParentChain_def by (elim bindE) (auto split: prod.splits)
  have "quiet (andThen (throwIf (ty \<noteq> DIRECTORY) (notDirectory (joinSegments (butlast segs))))
      (andThen (trackChangeFeedBefore [q]) (andThen (if mark then markAncestorChain q else ret ()) (ret q))))" by auto
  note c = quietD [OF this tail]
  from lockParentLoop_tree [OF loop l ns r(1) _ r(2,3)] show ?thesis by (simp add: core_sel [OF c])
qed

text \<open>The walks only add rows.\<close>

definition additive :: "'a txp \<Rightarrow> bool" where
  "additive m \<longleftrightarrow> (\<forall>s x t. m s = (Inr x, t) \<longrightarrow> set (t_nodes s) \<subseteq> set (t_nodes t))"

lemma additive_quiet: "quiet m \<Longrightarrow> additive m"
  unfolding additive_def by (metis core_sel(1) order_refl quietD)

lemma additive_bind: "additive m \<Longrightarrow> (\<And>x. additive (f x)) \<Longrightarrow> additive (bind m f)"
  unfolding additive_def by (intro allI impI) (elim bindE, meson order_trans)

lemma additive_andThen: "additive m \<Longrightarrow> additive n \<Longrightarrow> additive (andThen m n)"
  unfolding andThen_def by (rule additive_bind)

lemmas additive_quiets = quiet_basic [THEN additive_quiet] quiet_track [THEN additive_quiet]
  quiet_markChanged [THEN additive_quiet] quiet_markAncestorChain [THEN additive_quiet]

lemma additive_steps: "additive (createNode env ns p ty name bl sz mime ex)" "additive (recordLiveNodeDelta k)"
  unfolding additive_def by (auto dest: createNode_run(2) simp: monad_simps)

lemma additive_ensureLoop: "additive (ensureLoop env ns parents pre p ty current created segs)"
  by (induction segs arbitrary: pre p ty current created)
    (auto intro!: additive_bind additive_andThen additive_steps additive_quiets split: option.split)

lemma ensureLoop_tree:
  assumes "ensureLoop env ns parents pre p ty current created segs s = (Inr res, t)" and "ledger env s dn db df own"
    and "ns = x_namespaceId s" and "r \<in> set (t_nodes s)"
    and "resolveFrom ns (t_nodes s) (Some r) pre = Some pn" and "n_id pn = p" and "n_type pn = ty"
    and "pre \<noteq> [] \<Longrightarrow> current = Some pn"
  shows "treeAt ns (t_nodes t) r = mkdirs (pre @ segs) (treeAt ns (t_nodes s) r) \<and>
    (pre @ segs \<noteq> [] \<longrightarrow> fst res = resolveFrom ns (t_nodes t) (Some r) (pre @ segs)) \<and>
    (segs \<noteq> [] \<longrightarrow> treeAt ns (t_nodes t) r (pre @ segs) = Some Folder \<and>
      snd res = (created \<or> treeAt ns (t_nodes s) r (pre @ segs) = None) \<and>
      (\<not> parents \<longrightarrow> treeAt ns (t_nodes s) r (pre @ segs) = None))"
  using assms
proof (induction env ns parents pre p ty current created segs arbitrary: s pn rule: ensureLoop.induct)
  case (1 env ns parents pre p ty current created)
  then show ?case by (auto simp: monad_simps mkdirs_resolved)
next
  case (2 env ns parents pre p ty current created name rest)
  from "2.prems"(1) obtain s1 v1 where dir: "ty = DIRECTORY" and s1: "trackChangeFeedBefore [p] s = (Inr v1, s1)"
    and go: "(case findChild ns p name (t_nodes s1) of
        Some child \<Rightarrow>
          andThen (throwIf (rest = [] \<and> (n_type child = FILE \<or> \<not> parents))
            (alreadyExists (joinSegments (pre @ name # rest))))
          (ensureLoop env ns parents (pre @ [name]) (n_id child) (n_type child) (Some child) created rest)
      | None \<Rightarrow>
          andThen (throwIf (rest \<noteq> [] \<and> \<not> parents) (nodeNotFound (joinSegments (pre @ [name]))))
          (bind (createNode env ns p DIRECTORY name None None None None) (\<lambda>child.
           andThen (recordLiveNodeDelta 1)
           (andThen (markAncestorChain p)
           (andThen (markChanged (n_id child) False)
           (ensureLoop env ns parents (pre @ [name]) (n_id child) (n_type child) (Some child)
              (created \<or> rest = []) rest)))))) s1 = (Inr res, t)"
    unfolding ensureLoop.simps by (elim monad_elims) blast
  note q1 = quietD [OF quiet_track s1]
  have l1: "ledger env s1 dn db df own" "ns = x_namespaceId s1" "r \<in> set (t_nodes s1)"
    and pn: "resolveFrom ns (t_nodes s1) (Some r) pre = Some pn" "n_id pn = p" "n_type pn = DIRECTORY"
    using "2.prems" dir by (simp_all add: ledger_core [OF q1] core_sel [OF q1])
  show ?case
  proof (cases "findChild ns p name (t_nodes s1)")
    case (Some child)
    with go have sub: "ensureLoop env ns parents (pre @ [name]) (n_id child) (n_type child) (Some child) created rest s1 = (Inr res, t)"
      and ch: "rest = [] \<longrightarrow> n_type child = DIRECTORY \<and> parents"
      by (auto elim!: andThenE throwIfE intro: node_type.exhaust)
    have found: "resolveFrom ns (t_nodes s1) (Some r) (pre @ [name]) = Some child" using pn Some by (simp add: resolveFrom_snoc)
    note ih = "2.IH"(2) [OF sub l1 found refl refl refl]
    have s: "treeAt ns (t_nodes s1) r = treeAt ns (t_nodes s) r" by (simp add: core_sel [OF q1])
    have "treeAt ns (t_nodes t) r (pre @ [name]) = Some Folder \<and> snd res = created \<and> parents \<and>
        treeAt ns (t_nodes s1) r (pre @ [name]) \<noteq> None" if "rest = []"
      using that sub ch found by (auto simp: monad_simps treeAt_def itemOf_def)
    moreover have "rest \<noteq> [] \<longrightarrow> treeAt ns (t_nodes t) r ((pre @ [name]) @ rest) = Some Folder \<and>
        snd res = (created \<or> treeAt ns (t_nodes s1) r ((pre @ [name]) @ rest) = None) \<and>
        (\<not> parents \<longrightarrow> treeAt ns (t_nodes s1) r ((pre @ [name]) @ rest) = None)" by (rule conjunct2 [OF conjunct2 [OF ih]])
    ultimately have "treeAt ns (t_nodes t) r (pre @ name # rest) = Some Folder \<and>
        snd res = (created \<or> treeAt ns (t_nodes s) r (pre @ name # rest) = None) \<and>
        (\<not> parents \<longrightarrow> treeAt ns (t_nodes s) r (pre @ name # rest) = None)"
      unfolding s by (cases "rest = []") auto
    moreover have "treeAt ns (t_nodes t) r = mkdirs (pre @ name # rest) (treeAt ns (t_nodes s) r)"
      "fst res = resolveFrom ns (t_nodes t) (Some r) (pre @ name # rest)" using ih by (simp_all add: core_sel [OF q1])
    ultimately show ?thesis by blast
  next
    case None
    from go [unfolded None option.case] obtain child s2 s3 s4 s5 u v w where
      c: "createNode env ns p DIRECTORY name None None None None s1 = (Inr child, s2)" "recordLiveNodeDelta 1 s2 = (Inr u, s3)"
      and m: "markAncestorChain p s3 = (Inr v, s4)" "markChanged (n_id child) False s4 = (Inr w, s5)"
      and sub: "ensureLoop env ns parents (pre @ [name]) (n_id child) (n_type child) (Some child)
        (created \<or> rest = []) rest s5 = (Inr res, t)"
      by (elim monad_elims) blast
    have q5: "core s5 = core s3"
      using quietD [OF quiet_markAncestorChain m(1)] quietD [OF quiet_markChanged m(2)] by simp
    have s3: "t_nodes s3 = t_nodes s2" using c(2) by (simp add: monad_simps)
    have "p \<in> n_id ` set (t_nodes s1)" using resolve_in [OF pn(1) l1(3)] pn(2) by (metis imageI)
    note l3 = createDirectory_ledger [OF c l1(1,2) this] and tr = createDirectory_tree [OF c(1) l1(1,3) pn]
    have l5: "ledger env s5 dn db df own" "ns = x_namespaceId s5" "r \<in> set (t_nodes s5)"
      and found: "resolveFrom ns (t_nodes s5) (Some r) (pre @ [name]) = Some child"
      using l3 tr by (simp_all add: ledger_core [OF q5] core_sel [OF q5] s3)
    note ih = "2.IH"(1) [OF sub l5 found refl refl refl]
    have s: "treeAt ns (t_nodes s1) r = treeAt ns (t_nodes s) r" by (simp add: core_sel [OF q1])
    have none: "treeAt ns (t_nodes s) r (pre @ [name]) = None"
      using pn None unfolding s [symmetric] by (simp add: treeAt_def resolveFrom_snoc)
    have "treeAt ns (t_nodes t) r (pre @ [name]) = Some Folder \<and> snd res" if "rest = []"
      using that sub found createNode_run(1) [OF c(1)] by (auto simp: monad_simps treeAt_def itemOf_def newNode_def)
    moreover have "treeAt ns (t_nodes s) r (pre @ name # rest) = None"
    proof (rule ccontr)
      assume "treeAt ns (t_nodes s) r (pre @ name # rest) \<noteq> None"
      then have "resolveFrom ns (t_nodes s) (Some r) ((pre @ [name]) @ rest) \<noteq> None" by (simp add: treeAt_def)
      from resolve_prefix [OF this prefixI [OF refl]] none show False by (simp add: treeAt_def)
    qed
    moreover have "treeAt ns (t_nodes s5) r (pre @ name # rest) = treeAt ns (t_nodes s) r (pre @ name # rest)" if "rest \<noteq> []"
      using that tr(1) by (simp add: mkdirs_def core_sel [OF q5] s3 s prefix_def)
    moreover have "rest \<noteq> [] \<longrightarrow> treeAt ns (t_nodes t) r ((pre @ [name]) @ rest) = Some Folder \<and>
        snd res = ((created \<or> rest = []) \<or> treeAt ns (t_nodes s5) r ((pre @ [name]) @ rest) = None) \<and>
        (\<not> parents \<longrightarrow> treeAt ns (t_nodes s5) r ((pre @ [name]) @ rest) = None)" by (rule conjunct2 [OF conjunct2 [OF ih]])
    ultimately have "treeAt ns (t_nodes t) r (pre @ name # rest) = Some Folder \<and>
        snd res = (created \<or> treeAt ns (t_nodes s) r (pre @ name # rest) = None) \<and>
        (\<not> parents \<longrightarrow> treeAt ns (t_nodes s) r (pre @ name # rest) = None)"
      by (cases "rest = []") simp_all
    moreover have "treeAt ns (t_nodes t) r = mkdirs (pre @ name # rest) (treeAt ns (t_nodes s) r)"
      using ih tr(1) mkdirs_mkdirs [of "pre @ [name]" rest] by (simp add: core_sel [OF q5] core_sel [OF q1] s3)
    moreover have "fst res = resolveFrom ns (t_nodes t) (Some r) (pre @ name # rest)" using ih by simp
    ultimately show ?thesis by blast
  qed
qed

section \<open>Commit keeps the tree\<close>

definition sameShape :: "node \<Rightarrow> node \<Rightarrow> bool" where
  "sameShape a b \<longleftrightarrow> n_id a = n_id b \<and> n_namespaceId a = n_namespaceId b \<and> n_parentId a = n_parentId b \<and>
     n_type a = n_type b \<and> n_name a = n_name b \<and> n_blobId a = n_blobId b \<and> n_size a = n_size b \<and>
     n_mimeType a = n_mimeType b \<and> n_expiresAt a = n_expiresAt b"

definition reshaped :: "node list \<Rightarrow> node list \<Rightarrow> bool" where
  "reshaped tbl tbl' \<longleftrightarrow> (\<exists>f. tbl' = map f tbl \<and> (\<forall>n. sameShape (f n) n))"

lemma reshaped_refl [simp]: "reshaped tbl tbl"
  unfolding reshaped_def by (rule exI [of _ "\<lambda>n. n"]) (simp add: sameShape_def)

lemma reshaped_trans:
  assumes "reshaped a b" and "reshaped b c"
  shows "reshaped a c"
proof -
  from assms obtain f g where "b = map f a" "c = map g b" "\<forall>n. sameShape (f n) n" "\<forall>n. sameShape (g n) n"
    unfolding reshaped_def by blast
  then show ?thesis unfolding reshaped_def by (intro exI [of _ "\<lambda>n. g (f n)"]) (simp add: sameShape_def)
qed

lemma reshaped_update: "(\<And>n. sameShape (f n) n) \<Longrightarrow> reshaped tbl (updateRows P f tbl)"
  unfolding reshaped_def updateRows_def
  by (rule exI [of _ "\<lambda>n. if P n then f n else n"]) (auto simp: sameShape_def)

lemma resolve_map:
  assumes "\<And>n. sameShape (f n) n"
  shows "resolveFrom ns (map f tbl) (map_option f n) segs = map_option f (resolveFrom ns tbl n segs)"
proof (induction ns tbl n segs rule: resolveFrom.induct)
  case (3 ns tbl n a segs)
  have "findChild ns (n_id (f n)) a (map f tbl) = map_option f (findChild ns (n_id n) a tbl)"
    using assms by (induction tbl) (auto simp: findChild_def findRow_def sameShape_def)
  with 3 show ?case using assms by (simp add: sameShape_def)
qed simp_all

lemma view_reshaped:
  assumes "reshaped (nodes d) (nodes d')"
  shows "viewOf ns rootId d' = viewOf ns rootId d"
proof -
  from assms obtain f where f: "nodes d' = map f (nodes d)" "\<And>n. sameShape (f n) n" by (auto simp: reshaped_def)
  have "findNode ns rootId (map f tbl) = map_option f (findNode ns rootId tbl)" for tbl
    using f(2) by (induction tbl) (auto simp: findNode_def findRow_def sameShape_def)
  moreover have "itemOf (f n) = itemOf n" for n using f(2) [of n] by (cases "n_type n") (simp_all add: itemOf_def sameShape_def)
  ultimately show ?thesis
    by (simp add: viewOf_def fun_eq_iff resolvePathInManager_def f(1) resolve_map [OF f(2)] option.map_comp o_def)
qed

text \<open>The counters and the versions are the only columns a commit writes.\<close>

lemma applyFolderDelta_reshaped:
  assumes "applyFolderDelta ns limit x s = (Inr u, t)"
  shows "reshaped (t_nodes s) (t_nodes t)" and "t_blobs t = t_blobs s"
  using assms
  by (auto simp: applyFolderDelta_def Let_def monad_simps sameShape_def split: prod.splits option.splits if_splits
      intro!: reshaped_update)

lemma forEach_reshaped:
  assumes "forEach xs f s = (Inr u, t)" and "\<And>x s u t. f x s = (Inr u, t) \<Longrightarrow> reshaped (t_nodes s) (t_nodes t) \<and> t_blobs t = t_blobs s"
  shows "reshaped (t_nodes s) (t_nodes t) \<and> t_blobs t = t_blobs s"
  using assms
proof (induction xs arbitrary: s)
  case (Cons x xs)
  from Cons.prems(1) obtain s1 v where a: "f x s = (Inr v, s1)" and b: "forEach xs f s1 = (Inr u, t)"
    unfolding forEach.simps by (rule andThenE)
  from Cons.prems(2) [OF a] Cons.IH [OF b Cons.prems(2)] show ?case by (auto intro: reshaped_trans)
qed (auto simp: monad_simps)

lemma applyNodeCounters_reshaped:
  assumes "applyNodeCounters env s = (Inr u, t)"
  shows "reshaped (t_nodes s) (t_nodes t) \<and> t_blobs t = t_blobs s"
proof (cases "filter (\<lambda>(_, d). d \<noteq> 0) (x_folderFileDeltas s) = [] \<and> x_liveNodeDelta s = 0")
  case True
  with assms show ?thesis by (auto simp: applyNodeCounters_def Let_def monad_simps)
next
  case False
  with assms obtain z s1 v limit where a: "applyLiveNodes env (x_namespaceId s) z (x_liveNodeDelta s) s = (Inr v, s1)"
    and b: "forEach (filter (\<lambda>(_, d). d \<noteq> 0) (x_folderFileDeltas s)) (applyFolderDelta (x_namespaceId s) limit) s1 = (Inr u, t)"
    unfolding applyNodeCounters_def Let_def by (auto simp: monad_simps)
  have "t_nodes s1 = t_nodes s \<and> t_blobs s1 = t_blobs s"
    using a by (auto simp: applyLiveNodes_def Let_def monad_simps split: if_splits)
  with forEach_reshaped [OF b] applyFolderDelta_reshaped show ?thesis by fastforce
qed

lemma commitMutation_reshaped:
  assumes run: "commitMutation env v (\<lambda>_. ret ()) s = (Inr r, t)"
  shows "reshaped (t_nodes s) (t_nodes t)" and "t_blobs t = t_blobs s"
proof -
  from run obtain s1 s2 s3 u1 u2 u3 aff where
    a: "applyNodeCounters env s = (Inr u1, s1)" "applyLogicalByteQuota env s1 = (Inr u2, s2)"
      "bumpAndReadChangedNodes env s2 = (Inr aff, s3)"
    and feed: "(case x_feedBefore s3 of None \<Rightarrow> ret ()
        | Some before \<Rightarrow> appendChangeFeedEvents env (x_namespaceId s3) before (map fst (x_changed s3))) s3 = (Inr u3, t)"
    unfolding commitMutation_def by (elim monad_elims) blast
  have s2: "t_nodes s2 = t_nodes s1 \<and> t_blobs s2 = t_blobs s1"
    using a(2) by (auto simp: applyLogicalByteQuota_def Let_def monad_simps split: if_splits)
  from a(3) obtain u where loop: "forEach (chunks 500 (map fst (filter snd (x_changed s2)))) (bumpChunk env) s2 = (Inr u, s3)"
    unfolding bumpAndReadChangedNodes_def by (auto elim!: bindE getsE andThenE liftRE retE)
  have "reshaped (t_nodes s) (t_nodes t) \<and> t_blobs t = t_blobs s" if "bumpChunk env ids s = (Inr u, t)" for ids s u t
    using that by (auto simp: bumpChunk_def Let_def monad_simps sameShape_def intro!: reshaped_update)
  note s3 = forEach_reshaped [OF loop this]
  have t: "t_nodes t = t_nodes s3 \<and> t_blobs t = t_blobs s3"
  proof (cases "x_feedBefore s3")
    case None
    with feed show ?thesis by (simp add: monad_simps)
  next
    case (Some before)
    with feed have "appendChangeFeedEvents env (x_namespaceId s3) before (map fst (x_changed s3)) s3 = (Inr u3, t)" by simp
    note d = append_db(1) [OF this]
    show ?thesis by (subst d, subst (2) d) simp
  qed
  show "reshaped (t_nodes s) (t_nodes t)" "t_blobs t = t_blobs s"
    using applyNodeCounters_reshaped [OF a(1)] s2 s3 t reshaped_trans by auto
qed

text \<open>A successful mutation: its work ran on a balanced transaction, and the commit shows the tree it left.\<close>

lemma mutateE:
  assumes run: "mutate env ns rootId work (d, k) = (Inr v, (d', k'))" and c: "consistent ns d" and f: "freshIds env k d"
  obtains s t r where "ready env ns rootId s" "x_db s = d" "work s = (Inr v, t)"
    "\<And>i. viewOf ns i d' = viewOf ns i (x_db t)" "blobs d' = blobs (x_db t)"
    "r \<in> set (nodes d)" "n_id r = rootId" "n_namespaceId r = ns" "n_type r = DIRECTORY"
    "viewOf ns rootId d = treeAt ns (nodes d) r"
proof -
  from run obtain aff feed s t where o: "openMutation ns rootId False d = Inr feed"
    and w: "work (initTx ns rootId feed d k) = (Inr v, s)"
    and cm: "commitMutation env v (\<lambda>_. ret ()) s = (Inr (v, aff), t)" and d': "d' = x_db t"
    by (auto simp: mutate_def withMutation_def bind_def ret_def commitMutation_def andThen_def split: sum.splits prod.splits)
  have rd: "ready env ns rootId (initTx ns rootId feed d k)"
    using books_init [OF c f] openMutation_root [OF o] by (auto simp: ready_def initTx_def)
  from openMutation_root [OF o] obtain r where r: "r \<in> set (nodes d)" "n_id r = rootId" "n_namespaceId r = ns" "n_type r = DIRECTORY"
    by blast
  have v: "validNodes (nodes d) (blobs d)" using c by (simp add: consistent_def rowsOk_def)
  show ?thesis
    using that [OF rd _ w _ _ r viewOf_tree [OF v r(1-3)]] commitMutation_reshaped [OF cm]
    by (simp add: d' view_reshaped initTx_def)
qed

end
