(* ===== verification/Refinement.thy ===== *)
theory Refinement
  imports Views
begin

text \<open>
  The operations of the repository refine the updates of the abstract file tree: what a client sees
  after a successful mutation is the abstract update of what it saw before.
\<close>

section \<open>mkdir\<close>

lemma ensureDirectory_tree:
  assumes run: "ensureDirectory env ns rootId segs parents s = (Inr (rec, created), t)" and l: "books env s"
    and ns: "ns = x_namespaceId s" and r: "r \<in> set (t_nodes s)" "n_id r = rootId" "n_type r = DIRECTORY"
  shows "treeAt ns (t_nodes t) r = mkdirs segs (treeAt ns (t_nodes s) r)" and "treeAt ns (t_nodes t) r segs = Some Folder"
    and "created \<longleftrightarrow> treeAt ns (t_nodes s) r segs = None" and "\<not> parents \<Longrightarrow> created" and "r \<in> set (t_nodes t)"
proof -
  from run obtain n where loop: "ensureLoop env ns parents [] rootId DIRECTORY None False segs s = (Inr (Some n, created), t)"
    unfolding ensureDirectory_def by (elim bindE) (auto split: option.splits prod.splits simp: monad_simps)
  have ne: "segs \<noteq> []" using loop by (auto simp: monad_simps)
  have r0: "resolveFrom ns (t_nodes s) (Some r) [] = Some r" by simp
  note e = ensureLoop_tree [OF loop l ns r(1) r0 r(2,3)]
  show "treeAt ns (t_nodes t) r = mkdirs segs (treeAt ns (t_nodes s) r)" using e by simp
  show "treeAt ns (t_nodes t) r segs = Some Folder" "created \<longleftrightarrow> treeAt ns (t_nodes s) r segs = None" "\<not> parents \<Longrightarrow> created"
    using e ne unfolding append_Nil fst_conv snd_conv by metis+
  show "r \<in> set (t_nodes t)" using additive_ensureLoop loop r(1) by (fastforce simp: additive_def)
qed

lemma view_after:
  assumes "ledger env t dn db df own" and "r \<in> set (t_nodes t)" and "n_id r = rootId" and "n_namespaceId r = ns"
  shows "viewOf ns rootId (x_db t) = treeAt ns (t_nodes t) r"
  by (rule viewOf_tree [OF ledger_valid [OF assms(1)] assms(2-4)])

lemma mkdir_view:
  assumes run: "mutate env ns rootId (ensureDirectory env ns rootId segs parents) (d, k) = (Inr (rec, created), (d', k'))"
    and c: "consistent ns d" "freshIds env k d"
  shows "viewOf ns rootId d' = mkdirs segs (viewOf ns rootId d)" and "viewOf ns rootId d' segs = Some Folder"
    and "created \<longleftrightarrow> viewOf ns rootId d segs = None" and "\<not> parents \<Longrightarrow> created"
proof -
  from mutateE [OF run c] obtain s t r where rd: "ready env ns rootId s" and s: "x_db s = d"
    and w: "ensureDirectory env ns rootId segs parents s = (Inr (rec, created), t)"
    and d': "viewOf ns rootId d' = viewOf ns rootId (x_db t)"
    and r: "r \<in> set (nodes d)" "n_id r = rootId" "n_namespaceId r = ns" "n_type r = DIRECTORY"
    and d: "viewOf ns rootId d = treeAt ns (nodes d) r" by metis
  from rd have b: "books env s" and ns: "ns = x_namespaceId s" by (auto simp: ready_def)
  have rs: "r \<in> set (t_nodes s)" using r s by simp
  note e = ensureDirectory_tree [OF w b ns rs r(2,4)]
  have "viewOf ns rootId (x_db t) = treeAt ns (t_nodes t) r"
    using mkdir.balanced [OF w rd] by (intro view_after [OF _ e(5) r(2,3)]) blast
  with e d d' s show "viewOf ns rootId d' = mkdirs segs (viewOf ns rootId d)" "viewOf ns rootId d' segs = Some Folder"
    "created \<longleftrightarrow> viewOf ns rootId d segs = None" "\<not> parents \<Longrightarrow> created" by simp_all
qed

section \<open>put\<close>

lemma resolve_map_on:
  assumes "\<And>n. n \<in> set tbl \<Longrightarrow> n_id (f n) = n_id n \<and> n_namespaceId (f n) = n_namespaceId n \<and> n_parentId (f n) = n_parentId n \<and>
      n_type (f n) = n_type n \<and> n_name (f n) = n_name n" and "n \<in> set tbl"
  shows "resolveFrom ns (map f tbl) (Some (f n)) segs = map_option f (resolveFrom ns tbl (Some n) segs)"
  using assms(2)
proof (induction segs arbitrary: n)
  case (Cons a segs)
  have "findChild ns p a (map f xs) = map_option f (findChild ns p a xs)" if "set xs \<subseteq> set tbl" for p xs
    using that assms(1) by (induction xs) (auto simp: findChild_def findRow_def)
  then have child: "findChild ns (n_id n) a (map f tbl) = map_option f (findChild ns (n_id n) a tbl)" by simp
  show ?case
  proof (cases "findChild ns (n_id n) a tbl")
    case None
    then show ?thesis using child assms(1) [OF Cons.prems] by simp
  next
    case (Some c)
    then have "c \<in> set tbl" by (auto dest: findChild_SomeD)
    from Cons.IH [OF this] show ?thesis using Some child assms(1) [OF Cons.prems] by simp
  qed
qed simp

text \<open>New content under the same name.\<close>

lemma tree_replace:
  assumes v: "validNodes tbl bl" and g: "grounded tbl" and r: "r \<in> set tbl"
    and old: "resolveFrom ns tbl (Some r) segs = Some old" "segs \<noteq> []"
    and q: "n_id q = n_id old" "n_namespaceId q = n_namespaceId old" "n_parentId q = n_parentId old"
      "n_type q = n_type old" "n_name q = n_name old"
  shows "treeAt ns (updateRows (\<lambda>n. n_id n = n_id old) (\<lambda>_. q) tbl) r = (treeAt ns tbl r)(segs \<mapsto> itemOf q)"
    and "r \<in> set (updateRows (\<lambda>n. n_id n = n_id old) (\<lambda>_. q) tbl)"
proof -
  let ?f = "\<lambda>n. if n_id n = n_id old then q else n"
  from g obtain h where h: "ranked h tbl" by (auto simp: grounded_def)
  have oin: "old \<in> set tbl" by (rule resolve_in [OF old(1) r])
  have same: "n = old" if "n \<in> set tbl" "n_id n = n_id old" for n by (rule valid_id_eq [OF v that(1) oin that(2)])
  have ne: "n_id r \<noteq> n_id old" using resolve_rank [OF h old] by auto
  have upd: "updateRows (\<lambda>n. n_id n = n_id old) (\<lambda>_. q) tbl = map ?f tbl" by (simp add: updateRows_def)
  have f: "n_id (?f n) = n_id n \<and> n_namespaceId (?f n) = n_namespaceId n \<and> n_parentId (?f n) = n_parentId n \<and>
      n_type (?f n) = n_type n \<and> n_name (?f n) = n_name n" if "n \<in> set tbl" for n
    using q same [OF that] by auto
  have res: "resolveFrom ns (map ?f tbl) (Some r) p = map_option ?f (resolveFrom ns tbl (Some r) p)" for p
    using resolve_map_on [of tbl ?f r ns p, OF f r] ne by simp
  have "map_option (\<lambda>n. itemOf (?f n)) (resolveFrom ns tbl (Some r) p) = ((treeAt ns tbl r)(segs \<mapsto> itemOf q)) p" for p
  proof (cases "resolveFrom ns tbl (Some r) p")
    case None
    then show ?thesis using old by (auto simp: treeAt_def)
  next
    case (Some n)
    have "p = segs" if "n_id n = n_id old"
      using same [OF resolve_in [OF Some r] that] Some old(1) by (auto intro: resolve_inj [OF v h r])
    then show ?thesis using Some old(1) by (auto simp: treeAt_def)
  qed
  then show "treeAt ns (updateRows (\<lambda>n. n_id n = n_id old) (\<lambda>_. q) tbl) r = (treeAt ns tbl r)(segs \<mapsto> itemOf q)"
    unfolding upd by (intro ext) (simp add: treeAt_def res option.map_comp o_def)
  show "r \<in> set (updateRows (\<lambda>n. n_id n = n_id old) (\<lambda>_. q) tbl)"
    unfolding upd using r ne by (auto intro!: image_eqI [of _ _ r])
qed

lemma addFile_tree:
  assumes run: "addFile env ns p name b sz mime ex s = (Inr n, t)" and l: "ledger env s dn db df own"
    and r: "r \<in> set (t_nodes s)" and q: "resolveFrom ns (t_nodes s) (Some r) pre = Some q" "n_id q = p" "n_type q = DIRECTORY"
  shows "treeAt ns (t_nodes t) r = (treeAt ns (t_nodes s) r)(pre @ [name] \<mapsto> Document (Some b) sz mime ex)"
    and "r \<in> set (t_nodes t)" and "t_blobs t = t_blobs s"
proof -
  from run obtain s1 s2 u where c: "createNode env ns p FILE name (Some b) sz mime ex s = (Inr n, s1)"
    and m: "markChanged (n_id n) False s1 = (Inr u, s2)" and t: "t_nodes t = t_nodes s2" "t_blobs t = t_blobs s2"
    unfolding addFile_def by (cases sz) (auto elim!: monad_elims simp: monad_simps)
  note cr = createNode_run [OF c] and x = core_sel [OF quietD [OF quiet_markChanged m]]
  have n: "n_namespaceId n = ns" "n_parentId n = Some (n_id q)" "n_name n = name" "itemOf n = Document (Some b) sz mime ex"
    by (simp_all add: cr(1) newNode_def q(2) itemOf_def)
  note i = tree_insert [OF ledger_valid [OF l] ledger_grounded [OF l] r q(1,3) cr(3) n(1,2), unfolded n(3,4)]
  show "treeAt ns (t_nodes t) r = (treeAt ns (t_nodes s) r)(pre @ [name] \<mapsto> Document (Some b) sz mime ex)"
    "r \<in> set (t_nodes t)" "t_blobs t = t_blobs s"
    using i r by (simp_all add: t x cr(2))
qed

text \<open>A Blob row that stores the content a client sent.\<close>

definition stores :: "blob \<Rightarrow> blob_data \<Rightarrow> bool" where
  "stores b c \<longleftrightarrow> b_storageKey b = d_storageKey c \<and> b_size b = d_size c \<and> b_mimeType b = d_mimeType c \<and>
     b_sha256 b = d_sha256 c \<and> b_encryptionIv b = d_encryptionIv c \<and> b_referenceCount b = 1"

lemma createBlob_stores:
  assumes "createBlob env ns c s = (Inr b, t)"
  shows "stores b c" and "b \<in> set (t_blobs t)" and "t_nodes t = t_nodes s" and "b_id b \<notin> b_id ` set (t_blobs s)"
  using assms by (auto simp: createBlob_iff stores_def)

lemma replaceContent_tree:
  assumes run: "replaceContent env ns old c s = (Inr out, t)" and l: "books env s" and ns: "ns = x_namespaceId s"
    and r: "r \<in> set (t_nodes s)" and old: "resolveFrom ns (t_nodes s) (Some r) segs = Some old" "segs \<noteq> []" "n_type old = FILE"
  shows "\<exists>b\<in>set (t_blobs t). stores b c \<and>
      treeAt ns (t_nodes t) r = (treeAt ns (t_nodes s) r)(segs \<mapsto> Document (Some (b_id b)) (Some (d_size c)) (Some (d_mimeType c)) (n_expiresAt old))"
    and "r \<in> set (t_nodes t)" and "\<exists>rec. out = ReplacedNode rec"
proof -
  define new where "new b = old\<lparr> n_blobId := Some (b_id b), n_size := Some (d_size c), n_mimeType := Some (d_mimeType c) \<rparr>" for b :: blob
  from run obtain b s1 pb pz saved s2 s3 s4 u v w where cb: "createBlob env ns c s = (Inr b, s1)"
    and prev: "n_blobId old = Some pb" and out: "out = ReplacedNode (toRecord saved)"
    and save: "saveNode env (new b) s1 = (Inr saved, s2)"
    and m: "markChanged (n_id saved) False s2 = (Inr u, s3)" and rec: "recordLiveByteDelta (d_size c - pz) s3 = (Inr v, s4)"
    and dec: "decrementReferenceCount env pb 1 s4 = (Inr w, t)"
    unfolding replaceContent_def new_def by (elim bindE) (auto split: option.splits elim!: monad_elims)
  note b = createBlob_stores [OF cb] and x = core_sel [OF quietD [OF quiet_markChanged m]]
  have oin: "old \<in> set (t_nodes s)" by (rule resolve_in [OF old(1) r])
  have pb: "pb \<noteq> b_id b"
    using valid_row(4) [OF ledger_valid [OF l] oin] prev b(4) by (auto simp: blobOk_def) (metis image_eqI)
  have t: "t_nodes t = t_nodes s2" "t_blobs t = updateRows (\<lambda>x. b_id x = pb) (decrementBlob env 1) (t_blobs s2)"
    using rec dec by (auto simp: decrementReferenceCount_def monad_simps x)
  have s2: "t_blobs s2 = t_blobs s1" "t_nodes s2 = updateRows (\<lambda>n. n_id n = n_id old) (\<lambda>_. saved) (t_nodes s)"
    and sv: "n_id saved = n_id old" "n_namespaceId saved = n_namespaceId old" "n_parentId saved = n_parentId old" "n_type saved = n_type old"
      "n_name saved = n_name old" "itemOf saved = Document (Some (b_id b)) (Some (d_size c)) (Some (d_mimeType c)) (n_expiresAt old)"
  proof -
    have "findRow (\<lambda>n. n_id n = n_id old) (t_nodes s) = Some old"
      using oin valid_id_eq [OF ledger_valid [OF l]] by (intro findRow_unique) auto
    moreover have "new b \<noteq> old" using prev pb by (auto simp: new_def dest: arg_cong [where f = n_blobId])
    ultimately have "findRow (\<lambda>n. n_id n = n_id (new b)) (t_nodes s1) \<noteq> Some (new b)" using b(3) by (simp add: new_def)
    with saveNode_cases [OF save] have "saved = (new b)\<lparr> n_version := n_version (new b) + 1, n_updatedAt := env_dbNow env \<rparr> \<and>
        s2 = withNodes s1 (updateRows (\<lambda>n. n_id n = n_id (new b)) (\<lambda>_. saved) (t_nodes s1))" by metis
    then have "saved = (new b)\<lparr> n_version := n_version old + 1, n_updatedAt := env_dbNow env \<rparr> \<and>
        s2 = withNodes s1 (updateRows (\<lambda>n. n_id n = n_id old) (\<lambda>_. saved) (t_nodes s))"
      using b(3) by (simp add: new_def)
    then show "t_blobs s2 = t_blobs s1" "t_nodes s2 = updateRows (\<lambda>n. n_id n = n_id old) (\<lambda>_. saved) (t_nodes s)"
      "n_id saved = n_id old" "n_namespaceId saved = n_namespaceId old" "n_parentId saved = n_parentId old" "n_type saved = n_type old"
      "n_name saved = n_name old" "itemOf saved = Document (Some (b_id b)) (Some (d_size c)) (Some (d_mimeType c)) (n_expiresAt old)"
      using old(3) by (simp_all add: new_def itemOf_def)
  qed
  note tr = tree_replace [OF ledger_valid [OF l] ledger_grounded [OF l] r old(1,2) sv(1-5)]
  have "b \<in> set (t_blobs t)" using b(2) pb by (auto simp: t s2 set_updateRows intro!: image_eqI [of _ _ b])
  with tr b(1) out show "\<exists>b\<in>set (t_blobs t). stores b c \<and>
      treeAt ns (t_nodes t) r = (treeAt ns (t_nodes s) r)(segs \<mapsto> Document (Some (b_id b)) (Some (d_size c)) (Some (d_mimeType c)) (n_expiresAt old))"
    "r \<in> set (t_nodes t)" "\<exists>rec. out = ReplacedNode rec" by (auto simp: t s2 sv)
qed

text \<open>The document a put leaves at its path: a replaced file keeps its expiry.\<close>

definition written :: "tree \<Rightarrow> jstring list \<Rightarrow> blob \<Rightarrow> time option \<Rightarrow> item" where
  "written v segs b ex = Document (Some (b_id b)) (Some (b_size b)) (Some (b_mimeType b))
     (case v segs of Some (Document _ _ _ e) \<Rightarrow> e | _ \<Rightarrow> ex)"

lemma mkdirs_at: "mkdirs (butlast segs) v segs = v segs" if "segs \<noteq> []"
proof -
  have "\<not> prefix segs (butlast segs)" using that by (cases segs rule: rev_cases) (auto dest: prefix_length_le)
  then show ?thesis by (simp add: mkdirs_def)
qed

lemma putFileContent_tree:
  assumes run: "putFileContent env ns rootId segs parents c ifMatch force ex s = (Inr out, t)" and l: "books env s"
    and ns: "ns = x_namespaceId s" and r: "r \<in> set (t_nodes s)" "n_id r = rootId" "n_type r = DIRECTORY"
  defines "v \<equiv> treeAt ns (t_nodes s) r"
  shows "segs \<noteq> [] \<and> (\<exists>b\<in>set (t_blobs t). stores b c \<and>
      treeAt ns (t_nodes t) r = (mkdirs (butlast segs) v)(segs \<mapsto> written v segs b ex)) \<and> r \<in> set (t_nodes t) \<and>
      (case out of CreatedNode _ \<Rightarrow> v segs = None \<and> ifMatch = None
       | ReplacedNode _ \<Rightarrow> v segs \<noteq> None \<and> v segs \<noteq> Some Folder \<and> (ifMatch \<noteq> None \<or> force) | AbsentNode \<Rightarrow> False)"
proof -
  from run obtain p s1 existing s2 where walk: "lockParentChain env ns rootId segs parents True s = (Inr p, s1)"
    and look: "lockTargetNode ns p (lastSegment segs) s1 = (Inr existing, s2)"
    and go: "(case existing of
       Some old \<Rightarrow>
         andThen (throwIf (n_type old = DIRECTORY) (isDirectory (joinSegments segs)))
         (andThen (throwIf (MAX_VFS_VERSION \<le> n_version old) revisionExhausted)
         (andThen (throwIf (\<not> (case ifMatch of Some v \<Rightarrow> v = n_version old | None \<Rightarrow> force))
            (Node (VfsVersionConflictError (joinSegments segs))))
         (replaceContent env ns old c)))
     | None \<Rightarrow>
         andThen (throwIf (ifMatch \<noteq> None) (Node (VfsVersionConflictError (joinSegments segs))))
         (bind (createBlob env ns c) (\<lambda>createdBlob.
          bind (addFile env ns p (lastSegment segs) (b_id createdBlob) (Some (d_size c)) (Some (d_mimeType c)) ex)
            (\<lambda>created. ret (CreatedNode (toRecord created)))))) s2 = (Inr out, t)"
    unfolding putFileContent_def by (elim bindE)
  have root: "rootId \<in> n_id ` set (t_nodes s)" using r by auto
  note w = lockParentChain_ledger [OF walk l ns root]
  note k = lookup_ledger [OF look w(1) w(2) [symmetric]]
  have r2: "r \<in> set (t_nodes s2)" using grown_keeps [OF lockParentChain_grown [OF walk] r(1)] k(5) by simp
  obtain q where q: "resolveFrom ns (t_nodes s2) (Some r) (butlast segs) = Some q" "n_id q = p" "n_type q = DIRECTORY"
    using lockParentChain_spec(3) [OF walk r(2,3)] k(5) by auto
  have tree: "treeAt ns (t_nodes s2) r = mkdirs (butlast segs) v"
    using lockParentChain_tree [OF walk l ns r] k(5) by (simp add: v_def)
  show ?thesis
  proof (cases existing)
    case None
    from go [unfolded None option.case] obtain b s3 f where im: "ifMatch = None" and cb: "createBlob env ns c s2 = (Inr b, s3)"
      and add: "addFile env ns p (lastSegment segs) (b_id b) (Some (d_size c)) (Some (d_mimeType c)) ex s3 = (Inr f, t)"
      and out: "out = CreatedNode (toRecord f)" by (elim monad_elims) blast
    have "segs \<noteq> []"
    proof
      assume "segs = []"
      with add show False
        by (auto simp: addFile_def lastSegment_def createNode_def Let_def monad_simps checkNodeRow_None rootShape_def newNode_def)
    qed
    then have segs: "butlast segs @ [lastSegment segs] = segs" by (simp add: lastSegment_snoc [symmetric])
    have "treeAt ns (t_nodes s2) r segs = None"
      using None k(3) q by (subst segs [symmetric]) (simp add: treeAt_def resolveFrom_snoc)
    then have v: "v segs = None" using tree mkdirs_at [OF \<open>segs \<noteq> []\<close>] by simp
    note bs = createBlob_stores [OF cb]
    have "r \<in> set (t_nodes s3)" "resolveFrom ns (t_nodes s3) (Some r) (butlast segs) = Some q" using r2 q bs(3) by simp_all
    note a = addFile_tree [OF add createBlob_ledger(1) [OF cb k(1)] this q(2,3), unfolded segs]
    have "itm = written v segs b ex" if "itm = Document (Some (b_id b)) (Some (d_size c)) (Some (d_mimeType c)) ex" for itm
      using that bs(1) by (simp add: written_def v stores_def)
    with a bs tree out v im \<open>segs \<noteq> []\<close> show ?thesis by (auto intro!: bexI [of _ b])
  next
    case (Some old)
    from go [unfolded Some option.case] have isFile: "n_type old = FILE" and im: "ifMatch \<noteq> None \<or> force"
      and rep: "replaceContent env ns old c s2 = (Inr out, t)"
      by (auto elim!: andThenE throwIfE intro: node_type.exhaust split: option.splits)
    have child: "findChild ns (n_id q) (lastSegment segs) (t_nodes s2) = Some old" using k(3) Some q(2) by simp
    note path = lookup_path [OF q(1,3) child ledger_valid [OF k(1)]]
    have old: "treeAt ns (t_nodes s2) r segs = Some (itemOf old)" using path(2) by (simp add: treeAt_def)
    then have v: "v segs = Some (Document (n_blobId old) (n_size old) (n_mimeType old) (n_expiresAt old))"
      using tree mkdirs_at [OF path(1)] isFile by (simp add: itemOf_def)
    note rp = replaceContent_tree [OF rep k(1) k(2) [symmetric] r2 path(2,1) isFile]
    from rp(1) obtain b where b: "b \<in> set (t_blobs t)" "stores b c"
      "treeAt ns (t_nodes t) r = (mkdirs (butlast segs) v)(segs \<mapsto> Document (Some (b_id b)) (Some (d_size c)) (Some (d_mimeType c)) (n_expiresAt old))"
      unfolding tree by blast
    then have "treeAt ns (t_nodes t) r = (mkdirs (butlast segs) v)(segs \<mapsto> written v segs b ex)"
      by (simp add: written_def v stores_def)
    with b(1,2) rp(2,3) im v path(1) show ?thesis by auto
  qed
qed

lemma put_view:
  assumes run: "mutate env ns rootId (putFileContent env ns rootId segs parents c ifMatch force ex) (d, k) = (Inr out, (d', k'))"
    and c: "consistent ns d" "freshIds env k d"
  shows "(\<exists>b\<in>set (blobs d'). stores b c \<and>
      viewOf ns rootId d' = (mkdirs (butlast segs) (viewOf ns rootId d))(segs \<mapsto> written (viewOf ns rootId d) segs b ex)) \<and>
    (case out of CreatedNode _ \<Rightarrow> viewOf ns rootId d segs = None \<and> ifMatch = None
     | ReplacedNode _ \<Rightarrow> viewOf ns rootId d segs \<notin> {None, Some Folder} \<and> (ifMatch \<noteq> None \<or> force) | AbsentNode \<Rightarrow> False)"
proof -
  from mutateE [OF run c] obtain s t r where rd: "ready env ns rootId s" and s: "x_db s = d"
    and w: "putFileContent env ns rootId segs parents c ifMatch force ex s = (Inr out, t)"
    and d': "viewOf ns rootId d' = viewOf ns rootId (x_db t)" "blobs d' = blobs (x_db t)"
    and r: "r \<in> set (nodes d)" "n_id r = rootId" "n_namespaceId r = ns" "n_type r = DIRECTORY"
    and d: "viewOf ns rootId d = treeAt ns (nodes d) r" by metis
  from rd have b: "books env s" and ns: "ns = x_namespaceId s" by (auto simp: ready_def)
  have rs: "r \<in> set (t_nodes s)" using r s by simp
  note e = putFileContent_tree [OF w b ns rs r(2,4), unfolded s, folded d]
  have "viewOf ns rootId (x_db t) = treeAt ns (t_nodes t) r"
    using put.balanced [OF w rd] e by (intro view_after [OF _ _ r(2,3)]) blast+
  with e d' show ?thesis by (auto split: put_file_outcome.splits)
qed

section \<open>touch\<close>

lemma resolve_smaller:
  assumes v: "validNodes tbl bl" and sub: "set tbl' \<subseteq> set tbl"
  shows "resolveFrom ns tbl' (Some r) p = Some q \<Longrightarrow> resolveFrom ns tbl (Some r) p = Some q"
proof (induction p arbitrary: q rule: rev_induct)
  case (snoc a p)
  from snoc.prems obtain x where x: "resolveFrom ns tbl' (Some r) p = Some x" "n_type x = DIRECTORY"
    "n_parentId q = Some (n_id x)" "n_name q = a" "n_namespaceId q = ns" "q \<in> set tbl'" by (rule resolve_snocE)
  then have "findChild ns (n_id x) a tbl = Some q" using sub by (auto simp: findChild_iff [OF v])
  with snoc.IH [OF x(1)] x(2) show ?case by (simp add: resolveFrom_snoc)
qed simp

text \<open>The bump changes one row, and nothing of it that a path shows.\<close>

lemma touchRow_tree:
  assumes run: "touchRow env (n_id old) s = (Inr u, t)" and l: "books env s" and r: "r \<in> set (t_nodes s)"
    and old: "resolveFrom ns (t_nodes s) (Some r) segs = Some old" "segs \<noteq> []" "n_namespaceId old = ns"
  defines "new \<equiv> old\<lparr> n_version := n_version old + 1, n_updatedAt := env_appNow env \<rparr>"
  shows "treeAt ns (t_nodes t) r = treeAt ns (t_nodes s) r" and "r \<in> set (t_nodes t)" and "findNode ns (n_id old) (t_nodes t) = Some new"
proof -
  let ?hit = "\<lambda>n. n_id n = n_id old \<and> n_version n < MAX_VFS_VERSION"
  let ?f = "\<lambda>n. n\<lparr> n_version := n_version n + 1, n_updatedAt := env_appNow env \<rparr>"
  from run have t: "t_nodes t = updateRows ?hit ?f (t_nodes s)" and one: "length (filter ?hit (t_nodes s)) = 1"
    by (auto simp: touchRow_def Let_def monad_simps)
  have oin: "old \<in> set (t_nodes s)" by (rule resolve_in [OF old(1) r])
  have same: "n = old" if "n \<in> set (t_nodes s)" "n_id n = n_id old" for n by (rule valid_id_eq [OF ledger_valid [OF l] that(1) oin that(2)])
  from one obtain q where "q \<in> set (t_nodes s)" "?hit q" by (cases "filter ?hit (t_nodes s)") (fastforce simp: filter_eq_Cons_iff)+
  then have "n_version old < MAX_VFS_VERSION" using same by blast
  then have t': "t_nodes t = updateRows (\<lambda>n. n_id n = n_id old) (\<lambda>_. new) (t_nodes s)"
    using same by (auto simp: t updateRows_def new_def)
  note tr = tree_replace [OF ledger_valid [OF l] ledger_grounded [OF l] r old(1,2), of new, folded t']
  have "itemOf new = itemOf old" by (cases "n_type old") (simp_all add: new_def itemOf_def)
  moreover have "treeAt ns (t_nodes s) r segs = Some (itemOf old)" using old(1) by (simp add: treeAt_def)
  ultimately show "treeAt ns (t_nodes t) r = treeAt ns (t_nodes s) r" "r \<in> set (t_nodes t)"
    using tr by (simp_all add: new_def fun_upd_idem)
  have "new \<in> set (t_nodes t)" using oin by (auto simp: t' set_updateRows intro!: image_eqI [of _ _ old])
  from findNode_row [OF ledger_valid [OF touchRow_ledger(1) [OF run l]] this] old(3)
  show "findNode ns (n_id old) (t_nodes t) = Some new" by (simp add: new_def)
qed

text \<open>
  What a touch answers and leaves, by the item at its path: a new document with the content given, a
  new version of a document that shows as before, or, without content, only the folders above the path.
\<close>

definition touchShows :: "env \<Rightarrow> jstring list \<Rightarrow> blob_data option \<Rightarrow> blob list \<Rightarrow> node option \<Rightarrow> tree \<Rightarrow> put_file_outcome \<Rightarrow> tree \<Rightarrow> bool" where
  "touchShows env segs content bs at v out v' = (case out of
     CreatedNode _ \<Rightarrow> at = None \<and> (\<exists>c. content = Some c \<and> (\<exists>b\<in>set bs. stores b c \<and> v' = (mkdirs (butlast segs) v)(segs \<mapsto> written v segs b None)))
   | ReplacedNode rec \<Rightarrow> v' = v \<and> (\<exists>old. at = Some old \<and> n_type old = FILE \<and>
       rec = toRecord (old\<lparr> n_version := n_version old + 1, n_updatedAt := env_appNow env \<rparr>))
   | AbsentNode \<Rightarrow> at = None \<and> content = None \<and> v' = mkdirs (butlast segs) v)"

lemma touchFile_tree:
  assumes run: "touchFile env ns rootId segs parents content s = (Inr out, t)" and l: "books env s" and ne: "segs \<noteq> []"
    and ns: "ns = x_namespaceId s" and r: "r \<in> set (t_nodes s)" "n_id r = rootId" "n_type r = DIRECTORY"
  shows "touchShows env segs content (t_blobs t) (resolveFrom ns (t_nodes s) (Some r) segs) (treeAt ns (t_nodes s) r) out (treeAt ns (t_nodes t) r) \<and>
    r \<in> set (t_nodes t)"
proof -
  let ?v = "treeAt ns (t_nodes s) r" and ?at = "resolveFrom ns (t_nodes s) (Some r) segs"
  from run obtain p s1 existing s2 where walk: "lockParentChain env ns rootId segs parents True s = (Inr p, s1)"
    and look: "lockTargetNode ns p (lastSegment segs) s1 = (Inr existing, s2)"
    and go: "(case existing of
       Some old \<Rightarrow>
         andThen (throwIf (n_type old = DIRECTORY) (isDirectory (joinSegments segs)))
         (andThen (touchRow env (n_id old))
         (bind (gets (\<lambda>s. findNode ns (n_id old) (t_nodes s))) (\<lambda>r.
          case r of
            None \<Rightarrow> throw (InternalError ''EntityNotFoundError'')
          | Some touched \<Rightarrow>
              andThen (markChanged (n_id touched) False) (ret (ReplacedNode (toRecord touched))))))
     | None \<Rightarrow>
         (case content of
            None \<Rightarrow> ret AbsentNode
          | Some d \<Rightarrow>
              bind (createBlob env ns d) (\<lambda>blob.
              bind (addFile env ns p (lastSegment segs) (b_id blob) (Some (d_size d)) (Some (d_mimeType d)) None)
                (\<lambda>created. ret (CreatedNode (toRecord created)))))) s2 = (Inr out, t)"
    unfolding touchFile_def by (elim bindE)
  have root: "rootId \<in> n_id ` set (t_nodes s)" using r by auto
  note w = lockParentChain_ledger [OF walk l ns root]
  note k = lookup_ledger [OF look w(1) w(2) [symmetric]]
  have g: "grown ns s s1" by (rule lockParentChain_grown [OF walk])
  have r2: "r \<in> set (t_nodes s2)" using grown_keeps [OF g r(1)] k(5) by simp
  obtain q where q: "resolveFrom ns (t_nodes s2) (Some r) (butlast segs) = Some q" "n_id q = p" "n_type q = DIRECTORY"
    using lockParentChain_spec(3) [OF walk r(2,3)] k(5) by auto
  have tree: "treeAt ns (t_nodes s2) r = mkdirs (butlast segs) ?v"
    using lockParentChain_tree [OF walk l ns r] k(5) by simp
  then have seen: "treeAt ns (t_nodes s2) r segs = ?v segs" using mkdirs_at [OF ne] by simp
  have segs: "butlast segs @ [lastSegment segs] = segs" using ne by (simp add: lastSegment_snoc [symmetric])
  show ?thesis
  proof (cases existing)
    case None
    have "treeAt ns (t_nodes s2) r segs = None"
      using None k(3) q by (subst segs [symmetric]) (simp add: treeAt_def resolveFrom_snoc)
    then have v: "?v segs = None" "?at = None" using seen by (simp_all add: treeAt_def)
    show ?thesis
    proof (cases content)
      case None
      with go [unfolded \<open>existing = None\<close> None option.case] v tree r2 show ?thesis by (simp add: ret_iff touchShows_def)
    next
      case (Some c)
      from go [unfolded None Some option.case] obtain b s3 f where cb: "createBlob env ns c s2 = (Inr b, s3)"
        and add: "addFile env ns p (lastSegment segs) (b_id b) (Some (d_size c)) (Some (d_mimeType c)) None s3 = (Inr f, t)"
        and out: "out = CreatedNode (toRecord f)" by (elim monad_elims) blast
      note bs = createBlob_stores [OF cb]
      have "r \<in> set (t_nodes s3)" "resolveFrom ns (t_nodes s3) (Some r) (butlast segs) = Some q" using r2 q bs(3) by simp_all
      note a = addFile_tree [OF add createBlob_ledger(1) [OF cb k(1)] this q(2,3), unfolded segs]
      have "written ?v segs b None = Document (Some (b_id b)) (Some (d_size c)) (Some (d_mimeType c)) None"
        using bs(1) by (simp add: written_def v stores_def)
      with a bs tree out v Some show ?thesis by (auto simp: touchShows_def intro!: bexI [of _ b])
    qed
  next
    case (Some old)
    from go [unfolded Some option.case] obtain u s3 where isFile: "n_type old = FILE" and bump: "touchRow env (n_id old) s2 = (Inr u, s3)"
      and last: "(case findNode ns (n_id old) (t_nodes s3) of None \<Rightarrow> throw (InternalError ''EntityNotFoundError'')
        | Some touched \<Rightarrow> andThen (markChanged (n_id touched) False) (ret (ReplacedNode (toRecord touched)))) s3 = (Inr out, t)"
      by (elim monad_elims) (auto intro: node_type.exhaust)
    have child: "findChild ns (n_id q) (lastSegment segs) (t_nodes s2) = Some old" using k(3) Some q(2) by simp
    note path = lookup_path [OF q(1,3) child ledger_valid [OF k(1)]]
    have "treeAt ns (t_nodes s2) r segs = Some (itemOf old)" using path(2) by (simp add: treeAt_def)
    with seen obtain n where n: "?at = Some n" by (auto simp: treeAt_def)
    have "set (t_nodes s) \<subseteq> set (t_nodes s2)" using grown_keeps [OF g] k(5) by auto
    from resolve_smaller [OF ledger_valid [OF k(1)] this n] path(2) have at: "?at = Some old" using n by simp
    have "n_namespaceId old = ns" using findChild_SomeD [OF child] by simp
    note tr = touchRow_tree [OF bump k(1) r2 path(2,1) this]
    from last [unfolded tr(3) option.case] obtain z where m: "markChanged (n_id old) False s3 = (Inr z, t)"
      and out: "out = ReplacedNode (toRecord (old\<lparr> n_version := n_version old + 1, n_updatedAt := env_appNow env \<rparr>))"
      by (auto simp: monad_simps)
    have t: "t_nodes t = t_nodes s3" using core_sel [OF quietD [OF quiet_markChanged m]] by simp
    have "mkdirs (butlast segs) ?v = ?v"
    proof (rule mkdirs_idle)
      fix pre assume "prefix pre (butlast segs)"
      then have "prefix pre segs" using prefixeq_butlast prefix_order.trans by blast
      from resolve_prefix [OF _ this, of ns "t_nodes s" "Some r"] at show "?v pre \<noteq> None" by (auto simp: treeAt_def)
    qed
    with tr tree at isFile out t show ?thesis by (simp add: touchShows_def)
  qed
qed

lemma touch_view:
  assumes run: "mutate env ns rootId (touchFile env ns rootId segs parents content) (d, k) = (Inr out, (d', k'))"
    and c: "consistent ns d" "freshIds env k d" and ne: "segs \<noteq> []"
  shows "touchShows env segs content (blobs d') (resolvePathInManager ns rootId segs (nodes d)) (viewOf ns rootId d) out (viewOf ns rootId d')"
proof -
  from mutateE [OF run c] obtain s t r where rd: "ready env ns rootId s" and s: "x_db s = d"
    and w: "touchFile env ns rootId segs parents content s = (Inr out, t)"
    and d': "viewOf ns rootId d' = viewOf ns rootId (x_db t)" "blobs d' = blobs (x_db t)"
    and r: "r \<in> set (nodes d)" "n_id r = rootId" "n_namespaceId r = ns" "n_type r = DIRECTORY"
    and d: "viewOf ns rootId d = treeAt ns (nodes d) r" by metis
  from rd have b: "books env s" and ns: "ns = x_namespaceId s" by (auto simp: ready_def)
  have rs: "r \<in> set (t_nodes s)" using r s by simp
  note e = touchFile_tree [OF w b ne ns rs r(2,4), unfolded s, folded d]
  have "viewOf ns rootId (x_db t) = treeAt ns (t_nodes t) r"
    using touch.balanced [OF w rd] e by (intro view_after [OF _ _ r(2,3)]) blast+
  moreover have "resolvePathInManager ns rootId segs (nodes d) = resolveFrom ns (nodes d) (Some r) segs"
    using findNode_row [OF ledger_valid [OF b, unfolded s] r(1,3)] r(2) by (simp add: resolvePathInManager_def)
  ultimately show ?thesis using e d' by simp
qed

section \<open>remove\<close>

lemma resolve_larger:
  assumes v: "validNodes tbl bl" and v': "validNodes tbl' bl'"
    and stay: "\<And>pre q. prefix pre p \<Longrightarrow> resolveFrom ns tbl (Some r) pre = Some q \<Longrightarrow> pre \<noteq> [] \<Longrightarrow> q \<in> set tbl'"
  shows "resolveFrom ns tbl (Some r) p = Some q \<Longrightarrow> resolveFrom ns tbl' (Some r) p = Some q"
  using stay
proof (induction p arbitrary: q rule: rev_induct)
  case (snoc a p)
  from snoc.prems(1) obtain x where x: "resolveFrom ns tbl (Some r) p = Some x" "n_type x = DIRECTORY"
    "n_parentId q = Some (n_id x)" "n_name q = a" "n_namespaceId q = ns" by (rule resolve_snocE)
  have "q \<in> set tbl'" by (rule snoc.prems(2) [OF _ snoc.prems(1)]) simp_all
  then have "findChild ns (n_id x) a tbl' = Some q" using x by (simp add: findChild_iff [OF v'])
  moreover have "resolveFrom ns tbl' (Some r) p = Some x"
    by (rule snoc.IH [OF x(1)]) (use snoc.prems(2) in \<open>auto simp: prefix_snoc\<close>)
  ultimately show ?case using x(2) by (simp add: resolveFrom_snoc)
qed simp

lemma tree_cut:
  assumes v: "validNodes tbl bl" and v': "validNodes tbl' bl'" and g: "grounded tbl" and r: "r \<in> set tbl"
    and n: "resolveFrom ns tbl (Some r) segs = Some n" "segs \<noteq> []" and cut: "cut n tbl tbl'"
  shows "treeAt ns tbl' r = prune segs (treeAt ns tbl r)" and "r \<in> set tbl'"
proof -
  from g obtain h where h: "ranked h tbl" by (auto simp: grounded_def)
  from cut obtain gone where gone: "n_id n \<in> gone" "\<And>i. i \<in> gone \<Longrightarrow> below tbl (n_id n) i" "tbl' = filter (\<lambda>x. n_id x \<notin> gone) tbl"
    by (auto simp: cut_def)
  have nin: "n \<in> set tbl" by (rule resolve_in [OF n(1) r])
  have low: "h (n_id r) < h (n_id n)" by (rule resolve_rank [OF h n])
  show "r \<in> set tbl'" using below_rank [OF gone(2) h] low r gone(3) by (auto simp: not_le [symmetric])
  have stays: "q \<in> set tbl'" if q: "resolveFrom ns tbl (Some r) p = Some q" and "\<not> prefix segs p" for p q
  proof (rule ccontr)
    assume "q \<notin> set tbl'"
    then have "below tbl (n_id n) (n_id q)" using gone resolve_in [OF q r] by auto
    from below_prefix [OF v h r nin low q this] obtain pre suf where "p = pre @ suf" "resolveFrom ns tbl (Some r) pre = Some n" .
    with resolve_inj [OF v h r n(1)] that(2) show False by (auto simp: prefix_def)
  qed
  have "resolveFrom ns tbl' (Some r) p = (if prefix segs p then None else resolveFrom ns tbl (Some r) p)" for p
  proof (cases "prefix segs p")
    case True
    have "resolveFrom ns tbl' (Some r) segs = None"
    proof (rule ccontr)
      assume "resolveFrom ns tbl' (Some r) segs \<noteq> None"
      then obtain q where q: "resolveFrom ns tbl' (Some r) segs = Some q" by blast
      with resolve_smaller [OF v _ q] n(1) have "q = n" by (simp add: gone(3))
      with resolve_in [OF q \<open>r \<in> set tbl'\<close>] gone show False by simp
    qed
    with True resolve_prefix [of ns tbl' "Some r" p segs] show ?thesis by (cases "resolveFrom ns tbl' (Some r) p") simp_all
  next
    case False
    show ?thesis
    proof (cases "resolveFrom ns tbl (Some r) p")
      case None
      with resolve_smaller [OF v, of tbl' ns r p] False show ?thesis
        by (cases "resolveFrom ns tbl' (Some r) p") (auto simp: gone(3))
    next
      case (Some q)
      have "resolveFrom ns tbl' (Some r) p = Some q"
        by (rule resolve_larger [OF v v' _ Some]) (use stays False in \<open>metis prefix_order.trans\<close>)
      with Some False show ?thesis by simp
    qed
  qed
  then show "treeAt ns tbl' r = prune segs (treeAt ns tbl r)" by (auto simp: fun_eq_iff treeAt_def prune_def)
qed

lemma remove_view:
  assumes run: "mutate env ns rootId (removeNode env ns rootId segs recursive limit) (d, k) = (Inr trashId, (d', k'))"
    and c: "consistent ns d" "freshIds env k d"
  shows "viewOf ns rootId d' = prune segs (viewOf ns rootId d)" and "viewOf ns rootId d segs \<noteq> None" and "segs \<noteq> []"
proof -
  from mutateE [OF run c] obtain s t r where rd: "ready env ns rootId s" and s: "x_db s = d"
    and w: "removeNode env ns rootId segs recursive limit s = (Inr trashId, t)"
    and d': "viewOf ns rootId d' = viewOf ns rootId (x_db t)"
    and r: "r \<in> set (nodes d)" "n_id r = rootId" "n_namespaceId r = ns" "n_type r = DIRECTORY"
    and d: "viewOf ns rootId d = treeAt ns (nodes d) r" by metis
  from rd have b: "books env s" by (simp add: ready_def)
  note v = ledger_valid [OF b, unfolded s] and g = ledger_grounded [OF b, unfolded s]
  note e = removeNode_ledger [OF w rd]
  note v' = ledger_valid [OF e(1)]
  from e(5) obtain n where n: "resolvePathInManager ns rootId segs (nodes d) = Some n" "segs \<noteq> []" "cut n (nodes d) (t_nodes t)"
    unfolding s by blast
  have path: "resolveFrom ns (nodes d) (Some r) segs = Some n"
    using n(1) findNode_row [OF v r(1,3)] r(2) by (simp add: resolvePathInManager_def)
  note tc = tree_cut [OF v v' g r(1) path n(2,3)]
  have "viewOf ns rootId (x_db t) = treeAt ns (t_nodes t) r" by (rule view_after [OF e(1) tc(2) r(2,3)])
  with tc(1) d d' show "viewOf ns rootId d' = prune segs (viewOf ns rootId d)" by simp
  show "viewOf ns rootId d segs \<noteq> None" "segs \<noteq> []" using path n(2) d by (simp_all add: treeAt_def)
qed

section \<open>move\<close>

text \<open>Below a node the paths do not notice that its own row changed.\<close>

lemma descend:
  assumes v: "validNodes tbl2 bl" and h: "ranked h tbl1" and sub: "set tbl1 - {a} \<subseteq> set tbl2"
    and ab: "n_id b = n_id a" "n_type b = n_type a" and "resolveFrom ns tbl1 (Some a) s = Some x" and "s \<noteq> []"
  shows "resolveFrom ns tbl2 (Some b) s = Some x"
  using assms(6,7)
proof (induction s arbitrary: x rule: rev_induct)
  case (snoc c s)
  have "h (n_id a) < h (n_id x)" by (rule resolve_rank [OF h snoc.prems])
  moreover from snoc.prems(1) obtain y where y: "resolveFrom ns tbl1 (Some a) s = Some y" "n_type y = DIRECTORY"
    "n_parentId x = Some (n_id y)" "n_name x = c" "n_namespaceId x = ns" "x \<in> set tbl1" by (rule resolve_snocE)
  ultimately have "x \<in> set tbl2" using sub by auto
  then have child: "findChild ns (n_id y) c tbl2 = Some x" using y by (simp add: findChild_iff [OF v])
  show ?case
  proof (cases "s = []")
    case True
    with y(1,2) child ab show ?thesis by simp
  next
    case False
    with snoc.IH [OF y(1)] y(2) child show ?thesis by (simp add: resolveFrom_snoc)
  qed
qed simp

lemma tree_move:
  assumes v: "validNodes tbl bl" and v': "validNodes tbl' bl'" and g: "grounded tbl" and g': "grounded tbl'" and r: "r \<in> set tbl"
    and n: "resolveFrom ns tbl (Some r) src = Some n" "src \<noteq> []"
    and f: "resolveFrom ns tbl (Some r) (butlast fin) = Some f" "n_type f = DIRECTORY" "fin \<noteq> []" "\<not> prefix src (butlast fin)"
    and q: "n_id q = n_id n" "n_namespaceId q = ns" "n_parentId q = Some (n_id f)" "n_type q = n_type n" "n_name q = last fin" "itemOf q = itemOf n"
    and tbl': "set tbl' = insert q (set tbl - {n})"
  shows "treeAt ns tbl' r = relocate src fin (treeAt ns tbl r)" and "r \<in> set tbl'"
proof -
  from g obtain h where h: "ranked h tbl" by (auto simp: grounded_def)
  from g' obtain h' where h': "ranked h' tbl'" by (auto simp: grounded_def)
  have nr: "n \<noteq> r" using resolve_rank [OF h n] by auto
  with r tbl' show r': "r \<in> set tbl'" by auto
  have nin: "n \<in> set tbl" by (rule resolve_in [OF n(1) r])
  have fwd: "resolveFrom ns tbl' (Some r) p = Some x" if x: "resolveFrom ns tbl (Some r) p = Some x" and p: "\<not> prefix src p" for p x
  proof (rule resolve_larger [OF v v' _ x])
    fix pre y assume "prefix pre p" and y: "resolveFrom ns tbl (Some r) pre = Some y"
    then have "y \<noteq> n" using resolve_inj [OF v h r n(1)] p by auto
    with resolve_in [OF y r] tbl' show "y \<in> set tbl'" by simp
  qed
  have "findChild ns (n_id f) (last fin) tbl' = Some q" using q tbl' by (simp add: findChild_iff [OF v'])
  then have "resolveFrom ns tbl' (Some r) (butlast fin @ [last fin]) = Some q"
    using fwd [OF f(1,4)] f(2) by (simp add: resolveFrom_snoc)
  then have fin: "resolveFrom ns tbl' (Some r) fin = Some q" using f(3) by simp
  have bwd: "resolveFrom ns tbl (Some r) p = Some x \<and> \<not> prefix src p"
    if x: "resolveFrom ns tbl' (Some r) p = Some x" and p: "\<not> prefix fin p" for p x
  proof
    show x1: "resolveFrom ns tbl (Some r) p = Some x"
    proof (rule resolve_larger [OF v' v _ x])
      fix pre y assume "prefix pre p" and y: "resolveFrom ns tbl' (Some r) pre = Some y"
      then have "y \<noteq> q" using resolve_inj [OF v' h' r' fin] p by auto
      with resolve_in [OF y r'] tbl' show "y \<in> set tbl" by auto
    qed
    show "\<not> prefix src p"
    proof
      assume src: "prefix src p"
      with resolve_prefix [of ns tbl' "Some r" p src] x obtain y where y: "resolveFrom ns tbl' (Some r) src = Some y" by auto
      have "resolveFrom ns tbl (Some r) src = Some y"
      proof (rule resolve_larger [OF v' v _ y])
        fix pre z assume "prefix pre src" and z: "resolveFrom ns tbl' (Some r) pre = Some z"
        then have "z \<noteq> q" using resolve_inj [OF v' h' r' fin] p src by (metis prefix_order.trans)
        with resolve_in [OF z r'] tbl' show "z \<in> set tbl" by auto
      qed
      with n(1) have "y = n" by simp
      with resolve_in [OF y r'] q(1) fin tbl' have "y = q" by auto
      with resolve_inj [OF v' h' r' fin] y src p show False by auto
    qed
  qed
  have down: "map_option itemOf (resolveFrom ns tbl' (Some q) s) = map_option itemOf (resolveFrom ns tbl (Some n) s)" for s
  proof (cases "s = []")
    case False
    have sub: "set tbl - {n} \<subseteq> set tbl'" "set tbl' - {q} \<subseteq> set tbl" using tbl' by auto
    have there: "resolveFrom ns tbl (Some n) s = Some x \<Longrightarrow> resolveFrom ns tbl' (Some q) s = Some x" for x
      by (rule descend [OF v' h sub(1) q(1,4) _ False])
    have again: "resolveFrom ns tbl' (Some q) s = Some x \<Longrightarrow> resolveFrom ns tbl (Some n) s = Some x" for x
      by (rule descend [OF v h' sub(2) q(1,4) [symmetric] _ False])
    have "resolveFrom ns tbl' (Some q) s = resolveFrom ns tbl (Some n) s"
      by (cases "resolveFrom ns tbl (Some n) s") (metis again not_None_eq, metis there)
    then show ?thesis by simp
  qed (use q in simp)
  have "treeAt ns tbl' r p = relocate src fin (treeAt ns tbl r) p" for p
  proof (cases "prefix fin p")
    case True
    then obtain s where "p = fin @ s" by (auto simp: prefix_def)
    with down [of s] fin n(1) show ?thesis by (simp add: treeAt_def relocate_def resolveFrom_appendSegs)
  next
    case False
    have "resolveFrom ns tbl' (Some r) p = (if prefix src p then None else resolveFrom ns tbl (Some r) p)"
    proof (cases "resolveFrom ns tbl' (Some r) p")
      case None
      with fwd [of p] show ?thesis by (cases "resolveFrom ns tbl (Some r) p") auto
    next
      case (Some x)
      with bwd [OF Some False] show ?thesis by simp
    qed
    then have "treeAt ns tbl' r p = prune src (treeAt ns tbl r) p" by (simp add: treeAt_def prune_def)
    with False show ?thesis by (simp add: relocate_def)
  qed
  then show "treeAt ns tbl' r = relocate src fin (treeAt ns tbl r)" by (rule ext)
qed

text \<open>Locking both paths creates the missing folders above the destination, nothing else.\<close>

lemma resolveSource_nodes:
  assumes "resolveSource env ns rootId src mark s = (Inr n, t)"
  shows "t_nodes t = t_nodes s"
proof -
  from assms obtain p s1 where walk: "lockParentChain env ns rootId src False mark s = (Inr p, s1)"
    and look: "lockTargetNode ns p (lastSegment src) s1 = (Inr (Some n), t)"
    unfolding resolveSource_def by (elim bindE) (auto split: option.splits simp: monad_simps)
  from core_sel(1) [OF quietD [OF quiet_lockParentChain walk]] core_sel(1) [OF quietD [OF quiet_lockTargetNode look]]
  show ?thesis by simp
qed

lemma lockBothPaths_tree:
  assumes run: "lockBothPaths env ns rootId src dst parents mark s = (Inr (n, p), t)" and l: "ledger env s dn db df own"
    and ns: "ns = x_namespaceId s" and r: "r \<in> set (t_nodes s)" "n_id r = rootId" "n_type r = DIRECTORY"
  shows "treeAt ns (t_nodes t) r = mkdirs (butlast dst) (treeAt ns (t_nodes s) r)"
proof (cases "compareSegments src dst \<le> 0")
  case True
  with run obtain s1 where a: "resolveSource env ns rootId src mark s = (Inr n, s1)"
    and b: "lockParentChain env ns rootId dst parents True s1 = (Inr p, t)"
    unfolding lockBothPaths_def by (auto elim!: bindE andThenE throwIfE retE)
  have root: "rootId \<in> n_id ` set (t_nodes s)" using r by auto
  note a' = resolveSource_spec [OF a l ns root] and eq = resolveSource_nodes [OF a]
  have "r \<in> set (t_nodes s1)" using r eq by simp
  from lockParentChain_tree [OF b a'(1) a'(2) [symmetric] this r(2,3)] eq show ?thesis by simp
next
  case False
  with run obtain s1 where a: "lockParentChain env ns rootId dst parents True s = (Inr p, s1)"
    and b: "resolveSource env ns rootId src mark s1 = (Inr n, t)"
    unfolding lockBothPaths_def by (auto elim!: bindE retE)
  from lockParentChain_tree [OF a l ns r] resolveSource_nodes [OF b] show ?thesis by simp
qed

text \<open>Inside an existing folder unless the caller asked for the exact path.\<close>

definition landing :: "tree \<Rightarrow> jstring list \<Rightarrow> jstring list \<Rightarrow> bool \<Rightarrow> jstring list" where
  "landing v src dst exact = (if \<not> exact \<and> v dst = Some Folder then dst @ [lastSegment src] else dst)"

lemma placement_tree:
  assumes run: "resolveDestinationPlacement env ns rootId src dst parents mark exact s = (Inr pl, t)"
    and l: "ledger env s dn db df own" and ns: "ns = x_namespaceId s"
    and r: "r \<in> set (t_nodes s)" "n_id r = rootId" "n_type r = DIRECTORY"
  defines "v \<equiv> treeAt ns (t_nodes s) r"
  shows "treeAt ns (t_nodes t) r = mkdirs (butlast dst) v" and "pl_segments pl = landing v src dst exact"
proof -
  from run obtain n p s1 target s2 where both: "lockBothPaths env ns rootId src dst parents mark s = (Inr (n, p), s1)"
    and c2: "core s2 = core s1"
    and tg: "target = (if lastSegment dst = [] then None else findChild ns p (lastSegment dst) (t_nodes s1))"
    and place: "placeAt env ns src dst exact n p target s2 = (Inr pl, t)" and c: "core t = core s1"
    by (rule placement_cases)
  have root: "rootId \<in> n_id ` set (t_nodes s)" using r by auto
  note b = lockBothPaths_spec [OF both l ns root] and tr = lockBothPaths_tree [OF both l ns r, folded v_def]
  from lockBothPaths_paths(3) [OF both l ns r] obtain q where
    q: "resolveFrom ns (t_nodes s1) (Some r) (butlast dst) = Some q" "n_id q = p" "n_type q = DIRECTORY" by blast
  from tr show "treeAt ns (t_nodes t) r = mkdirs (butlast dst) v" by (simp add: core_sel [OF c])
  show "pl_segments pl = landing v src dst exact"
    using place
  proof (cases rule: placeAt_facts)
    case (nested x)
    then have "findChild ns (n_id q) (lastSegment dst) (t_nodes s1) = Some x" using tg q(2) by (auto split: if_splits)
    from lookup_path(2) [OF q(1,3) this ledger_valid [OF b(1)]] nested(3)
    have "treeAt ns (t_nodes s1) r dst = Some Folder" by (simp add: treeAt_def itemOf_def)
    then have "v dst = Some Folder" unfolding tr using mkdirs_at [OF nested(1)] by simp
    with nested show ?thesis by (simp add: landing_def)
  next
    case root
    then have "v dst = Some Folder" using r(3) by (simp add: v_def treeAt_def itemOf_def)
    with root show ?thesis by (simp add: landing_def)
  next
    case plain
    have "lastSegment dst \<in> set dst" using plain(1) by (cases dst) (simp_all add: lastSegment_def)
    with good_nonempty [OF plain(7)] have "lastSegment dst \<noteq> []" by blast
    then have "treeAt ns (t_nodes s1) r (butlast dst @ [lastSegment dst]) = None"
      using plain(2) tg q by (simp add: treeAt_def resolveFrom_snoc)
    then have "mkdirs (butlast dst) v dst = None" unfolding tr lastSegment_snoc [OF plain(1), symmetric] .
    then have "v dst = None" unfolding mkdirs_at [OF plain(1)] .
    with plain show ?thesis by (simp add: landing_def)
  qed
qed

lemma outside_prefix:
  assumes "resolveFrom ns tbl (Some r) src = Some n" and "resolveFrom ns tbl (Some r) (butlast fin) = Some f"
    and "n_type f = DIRECTORY" and "\<not> ownSubtree n src fin"
  shows "\<not> prefix src (butlast fin)"
proof
  assume "prefix src (butlast fin)"
  then obtain suf where suf: "butlast fin = src @ suf" by (auto simp: prefix_def)
  with assms(1,2) have "resolveFrom ns tbl (Some n) suf = Some f" by (simp add: resolveFrom_appendSegs)
  then have "n_type n = DIRECTORY" using assms(3) by (rule resolve_through_directory)
  moreover have "length src \<le> length (butlast fin)" using suf by simp
  moreover have "take (length src) fin = src" using suf by (cases fin rule: rev_cases) auto
  ultimately show False using assms(4) by (auto simp: ownSubtree_def)
qed

lemma moveNode_tree:
  assumes run: "moveNode env ns rootId src dst parents limit exact s = (Inr (rec, path), t)" and l: "books env s"
    and ns: "ns = x_namespaceId s" and r: "r \<in> set (t_nodes s)" "n_id r = rootId" "n_type r = DIRECTORY"
  defines "v \<equiv> treeAt ns (t_nodes s) r"
  defines "fin \<equiv> landing v src dst exact"
  shows "treeAt ns (t_nodes t) r = relocate src fin (mkdirs (butlast dst) v)" and "r \<in> set (t_nodes t)"
    and "path = joinSegments fin" and "mkdirs (butlast dst) v src \<noteq> None" and "mkdirs (butlast dst) v fin = None"
    and "\<not> prefix src (butlast fin)"
proof -
  from run [unfolded moveNode_def Let_def] obtain pl s1 ds s2 s3 s4 s5 u1 u2 u3 u4 saved where
    place: "resolveDestinationPlacement env ns rootId src dst parents True exact s = (Inr pl, s1)"
    and track: "trackChangeFeedBefore (map n_id (ds :: node list)) s1 = (Inr u1, s2)"
    and save: "saveNode env ((pl_source pl)\<lparr> n_parentId := Some (pl_parentId pl), n_name := pl_name pl \<rparr>) s2 = (Inr saved, s3)"
    and rec: "recordMove (pl_source pl) (pl_parentId pl) s3 = (Inr u2, s4)"
    and m: "markChanged (n_id saved) False s4 = (Inr u3, s5)" "forEach ds (\<lambda>d. markChanged (n_id d) True) s5 = (Inr u4, t)"
    and path: "path = joinSegments (pl_segments pl)"
    by (elim bindE andThenE getsE liftRE retE throwIfE) blast
  define n where "n = pl_source pl"
  let ?n = "n\<lparr> n_parentId := Some (pl_parentId pl), n_name := pl_name pl \<rparr>"
  note b = placement_spec [OF place l ns r] and pt = placement_tree [OF place l ns r, folded v_def]
  have fin: "pl_segments pl = fin" using pt(2) by (simp add: fin_def)
  note x2 = core_sel [OF quietD [OF quiet_track track]]
  have tbl: "t_nodes s2 = t_nodes s1" by (simp add: x2)
  have c5: "core t = core s4" using quietD [OF quiet_markChanged m(1)] quietD [OF quiet_forEach m(2)] by simp
  have "t_nodes s4 = t_nodes s3" using rec by (auto simp: recordMove_def monad_simps split: if_splits option.splits)
  then have t: "t_nodes t = t_nodes s3" by (simp add: core_sel [OF c5])
  note vv = ledger_valid [OF b(1)]
  have nin: "n \<in> set (t_nodes s1)" using b(5) by (simp add: n_def)
  have uniq: "x = n" if "x \<in> set (t_nodes s1)" "n_id x = n_id n" for x by (rule valid_id_eq [OF vv that(1) nin that(2)])
  have sv: "set (t_nodes t) = insert saved (set (t_nodes s1) - {n}) \<and> n_id saved = n_id n \<and> n_namespaceId saved = ns \<and>
      n_parentId saved = Some (pl_parentId pl) \<and> n_type saved = n_type n \<and> n_name saved = pl_name pl \<and> itemOf saved = itemOf n"
    using save [folded n_def]
  proof (cases rule: saveNode_cases)
    case same
    then have "?n \<in> set (t_nodes s1)" using findRow_SomeD [OF same(1)] tbl by simp
    with uniq [of ?n] have eq: "?n = n" by simp
    from eq have "n_parentId n = Some (pl_parentId pl)" "n_name n = pl_name pl"
      by (metis node.select_convs(3) node.surjective node.update_convs(3,5), metis node.select_convs(5) node.surjective node.update_convs(5))
    with same eq nin t tbl b(6) show ?thesis by (auto simp: n_def)
  next
    case changed
    have "set (t_nodes t) = insert saved {x \<in> set (t_nodes s1). n_id x \<noteq> n_id n}"
      using changed nin t tbl by (auto simp: updateRows_const_set)
    then show ?thesis using changed(1) uniq b(6) by (auto simp: itemOf_def n_def split: node_type.splits)
  qed
  from b(10) obtain f where f: "resolveFrom ns (t_nodes s1) (Some r) (butlast fin) = Some f" "n_id f = pl_parentId pl" "n_type f = DIRECTORY"
    unfolding fin by blast
  have src: "resolveFrom ns (t_nodes s1) (Some r) src = Some n" using b(9) by (simp add: n_def)
  show np: "\<not> prefix src (butlast fin)" by (rule outside_prefix [OF src f(1,3)]) (use b(13) fin n_def in simp)
  have rin: "r \<in> set (t_nodes s1)" using grown_keeps [OF b(4) r(1)] .
  note ml = moveNode_ledger(1) [OF run l ns r]
  have lf: "last fin = pl_name pl" "fin \<noteq> []" using b(11,12) fin by simp_all
  have "treeAt ns (t_nodes t) r = relocate src fin (treeAt ns (t_nodes s1) r) \<and> r \<in> set (t_nodes t)"
    using tree_move [OF vv ledger_valid [OF ml] ledger_grounded [OF b(1)] ledger_grounded [OF ml] rin src b(8) f(1,3) lf(2) np, of saved]
      sv f(2) lf(1) by metis
  with pt(1) show "treeAt ns (t_nodes t) r = relocate src fin (mkdirs (butlast dst) v)" "r \<in> set (t_nodes t)" by simp_all
  show "path = joinSegments fin" using path fin by simp
  show "mkdirs (butlast dst) v src \<noteq> None" using src by (simp add: pt(1) [symmetric] treeAt_def)
  have "treeAt ns (t_nodes s1) r (butlast fin @ [last fin]) = None"
    using b(14) f lf(1) by (simp add: treeAt_def resolveFrom_snoc)
  then show "mkdirs (butlast dst) v fin = None" using pt(1) lf(2) by simp
qed

lemma move_view:
  assumes run: "mutate env ns rootId (moveNode env ns rootId src dst parents limit exact) (d, k) = (Inr (rec, path), (d', k'))"
    and c: "consistent ns d" "freshIds env k d"
  defines "v \<equiv> viewOf ns rootId d"
  defines "fin \<equiv> landing v src dst exact"
  shows "viewOf ns rootId d' = relocate src fin (mkdirs (butlast dst) v)" and "path = joinSegments fin"
    and "mkdirs (butlast dst) v src \<noteq> None" and "mkdirs (butlast dst) v fin = None" and "\<not> prefix src (butlast fin)"
proof -
  from mutateE [OF run c] obtain s t r where rd: "ready env ns rootId s" and s: "x_db s = d"
    and w: "moveNode env ns rootId src dst parents limit exact s = (Inr (rec, path), t)"
    and d': "viewOf ns rootId d' = viewOf ns rootId (x_db t)"
    and r: "r \<in> set (nodes d)" "n_id r = rootId" "n_namespaceId r = ns" "n_type r = DIRECTORY"
    and d: "viewOf ns rootId d = treeAt ns (nodes d) r" by metis
  from rd have b: "books env s" and ns: "ns = x_namespaceId s" by (auto simp: ready_def)
  have rs: "r \<in> set (t_nodes s)" using r s by simp
  note e = moveNode_tree [OF w b ns rs r(2,4), unfolded s, folded d, folded v_def, folded fin_def]
  have "viewOf ns rootId (x_db t) = treeAt ns (t_nodes t) r"
    using move.balanced [OF w rd] by (intro view_after [OF _ e(2) r(2,3)]) blast
  with e d' show "viewOf ns rootId d' = relocate src fin (mkdirs (butlast dst) v)" "path = joinSegments fin"
    "mkdirs (butlast dst) v src \<noteq> None" "mkdirs (butlast dst) v fin = None" "\<not> prefix src (butlast fin)" by simp_all
qed

end
