(* ===== verification/Example.thy ===== *)
theory Example
  imports Refinement
begin

text \<open>
  A small database on which the hypotheses of the theorems hold: one namespace with its root
  directory. Ids are drawn as the uuids \<open>00000000-0000-4000-8000-1000000000NN\<close>.
\<close>

definition uuidNo :: "nat \<Rightarrow> uuid" where
  "uuidNo k = js_join 45 [js ''00000000'', js ''0000'', js ''4000'', js ''8000'', show_nat (100000000000 + k)]"

lemma uuidNo_inj: "inj uuidNo"
proof (rule injI)
  fix j k assume "uuidNo j = uuidNo k"
  then have "dec_value (show_nat (100000000000 + j)) = dec_value (show_nat (100000000000 + k))"
    by (simp add: uuidNo_def js_def)
  then show "j = k" unfolding dec_value_show by simp
qed

lemma uuidNo_eq [simp]: "uuidNo j = uuidNo k \<longleftrightarrow> j = k"
  using uuidNo_inj by (auto dest: injD)

lemma length_show_nat: "10 ^ m \<le> n \<Longrightarrow> n < 10 ^ Suc m \<Longrightarrow> length (show_nat n) = Suc m"
proof (induction m arbitrary: n)
  case 0
  then show ?case by (simp add: show_nat.simps [of n])
next
  case (Suc m)
  then have "\<not> n < 10" by (auto simp: not_less intro: order_trans [OF _ Suc.prems(1)])
  moreover have "10 ^ m \<le> n div 10" "n div 10 < 10 ^ Suc m"
    using Suc.prems by (simp_all add: less_mult_imp_div_less div_le_mono less_eq_div_iff_mult_less_eq mult.commute)
  ultimately show ?case using Suc.IH [of "n div 10"] by (simp add: show_nat.simps [of n])
qed

lemma uuidNo_pattern:
  assumes "k < 1000"
  shows "uuid_pattern (uuidNo k)"
proof -
  let ?n = "show_nat (100000000000 + k)"
  have len: "length ?n = 12" using length_show_nat [of 11 "100000000000 + k"] assms by simp
  have dig: "is_hex c \<and> c \<noteq> 45" if "c \<in> set ?n" for c
    using show_nat_digits [OF that] minus_not_digit by (auto simp: is_digit_def is_hex_def)
  have split: "js_split 45 (uuidNo k) = [js ''00000000'', js ''0000'', js ''4000'', js ''8000'', ?n]"
    unfolding uuidNo_def by (rule js_split_join) (use dig in \<open>auto simp: js_def\<close>)
  show ?thesis
    using len dig unfolding uuid_pattern_def split by (auto simp: js_def is_hex_def is_digit_def)
qed

definition tokenNo :: "nat \<Rightarrow> int \<Rightarrow> jstring" where
  "tokenNo k v = projr (encodeRevision (uuidNo k) v)"

lemma tokens [simp]:
  assumes "k < 1000" and "1 \<le> v" and "v \<le> 1000"
  shows "encodeRevision (uuidNo k) v = Inr (tokenNo k v)"
  using assms uuidNo_pattern [OF assms(1)] uuid_pattern_lower [OF uuidNo_pattern [OF assms(1)]]
  by (simp add: tokenNo_def encodeRevision_def Let_def MAX_VFS_VERSION_def MAX_SAFE_INTEGER_def)

definition exEnv :: env where
  "exEnv = \<lparr> env_nfc = (\<lambda>s. s), env_uuid = uuidNo, env_dbNow = 1000, env_clockNow = 1000, env_appNow = 1000,
     env_defaultMaxTotalLogicalBytes = 1000, env_maxTotalLogicalBytes = 1000, env_defaultMaxFilesPerFolder = 10,
     env_maxFilesPerFolder = 10, env_defaultMaxLiveNodes = 10, env_maxLiveNodes = 10, env_maxSyncDeleteNodes = None,
     env_maxSyncCopyNodes = None, env_maxSyncMoveNodes = None, env_maxRetainedTrashNodes = None \<rparr>"

definition exNs :: jstring where "exNs = js ''n''"
definition exRootId :: uuid where "exRootId = uuidNo 0"

definition exRoot :: node where
  "exRoot = \<lparr> n_id = exRootId, n_namespaceId = exNs, n_parentId = None, n_type = DIRECTORY, n_name = [],
     n_blobId = None, n_size = None, n_mimeType = None, n_childFileCount = 0, n_expiresAt = None,
     n_createdAt = 0, n_updatedAt = 0, n_version = 1 \<rparr>"

definition exNamespace :: namespace where
  "exNamespace = \<lparr> ns_id = exNs, ns_status = ACTIVE, ns_encryptionPolicy = NONE, ns_accessPolicy = PRIVATE,
     ns_trashEnabled = True, ns_maxFileSizeBytes = None, ns_maxSyncDeleteNodes = None, ns_maxSyncCopyNodes = None,
     ns_maxSyncMoveNodes = None, ns_retainedSnapshotByteCount = 0, ns_retainedTrashNodeCount = 0,
     ns_retainedTrashByteCount = 0, ns_maxTotalLogicalBytes = None, ns_liveFileByteCount = 0,
     ns_maxFilesPerFolder = None, ns_liveNodeCount = 0, ns_maxLiveNodes = None, ns_excludeTrashFromQuota = False,
     ns_excludeSnapshotsFromQuota = False, ns_maxRetainedTrashBytes = None \<rparr>"

definition exDb :: db where
  "exDb = \<lparr> nodes = [exRoot], blobs = [], namespaces = [exNamespace], trashes = [], trashEntries = [],
     snapshotEntries = [], feedStates = [], events = [] \<rparr>"

lemma exDb_consistent: "consistent exNs exDb"
proof -
  have "validNodes [exRoot] []"
    by (simp add: validNodes_def exRoot_def typeContent_def rootShape_def parentOk_def blobOk_def)
  moreover have "grounded [exRoot]" by (simp add: grounded_def ranked_def exRoot_def)
  ultimately show ?thesis
    by (simp add: consistent_def exDb_def rowsOk_def namespaceOk_def foldersOk_def refsOk_def trashOk_def
        exNamespace_def exRoot_def weights)
qed

lemma exDb_fresh: "freshIds exEnv 1 exDb"
  using uuidNo_inj by (auto simp: freshIds_def exEnv_def exDb_def exRoot_def exRootId_def dest: injD)

text \<open>The same namespace with a folder \<open>/a\<close>.\<close>

definition exFolder :: node where
  "exFolder = \<lparr> n_id = uuidNo 1, n_namespaceId = exNs, n_parentId = Some exRootId, n_type = DIRECTORY, n_name = js ''a'',
     n_blobId = None, n_size = None, n_mimeType = None, n_childFileCount = 0, n_expiresAt = None,
     n_createdAt = 0, n_updatedAt = 0, n_version = 1 \<rparr>"

definition exDb1 :: db where
  "exDb1 = exDb\<lparr> nodes := [exRoot, exFolder], namespaces := [exNamespace\<lparr> ns_liveNodeCount := 1 \<rparr>] \<rparr>"

lemma exDb1_consistent: "consistent exNs exDb1"
proof -
  have "validNodes [exRoot, exFolder] []"
    by (auto simp: validNodes_def exRoot_def exFolder_def exRootId_def typeContent_def rootShape_def parentOk_def blobOk_def
        clash_def js_def)
  moreover have "ranked (\<lambda>i. if i = uuidNo 1 then 1 else 0) [exRoot, exFolder]"
    by (simp add: ranked_def exRoot_def exFolder_def exRootId_def)
  then have "grounded [exRoot, exFolder]" by (auto simp: grounded_def)
  ultimately show ?thesis
    by (simp add: consistent_def exDb1_def exDb_def rowsOk_def namespaceOk_def foldersOk_def refsOk_def trashOk_def
        exNamespace_def exRoot_def exFolder_def weights)
qed

lemma exDb1_fresh: "freshIds exEnv 2 exDb1"
  using uuidNo_inj by (auto simp: freshIds_def exEnv_def exDb1_def exDb_def exRoot_def exFolder_def exRootId_def dest: injD)

definition exContent :: blob_data where
  "exContent = \<lparr> d_storageKey = js ''k'', d_size = 5, d_mimeType = js ''t'', d_sha256 = js ''s'', d_encryptionIv = None \<rparr>"

text \<open>
  Running a program by rewriting: ids stay folded, since only their identity and their revision
  tokens matter.
\<close>

lemma names_eq [simp]: "js ''a'' \<noteq> []" "js ''b'' \<noteq> []" "js ''a'' \<noteq> js ''b''" "js ''b'' \<noteq> js ''a''"
  by (simp_all add: js_def)

lemma chunks_numeral [simp]:
  "chunks (numeral k) (x # xs) = (x # take (pred_numeral k) xs) # chunks (numeral k) (drop (pred_numeral k) xs)"
  by (simp add: numeral_eq_Suc)

lemma cteRows_numeral [simp]:
  "cteRows step (numeral k) [] = []"
  "cteRows step (numeral k) (r # queue) = r # cteRows step (pred_numeral k) (queue @ step r)"
  by (simp_all add: numeral_eq_Suc)

lemma names_good [simp]: "assertPathSegments (\<lambda>s. s) [js ''b''] = Inr ()"
  by (simp add: assertPathSegments_def badSegment_def invalidSegment_def js_def byteLength_def utf8_size_def joinSegments_def
      slash_def control_char_def bidi_control_def lone_surrogate_def hi_surrogate_def lo_surrogate_def)

named_theorems run_simps \<open>definitions that let a closed program run under the simplifier\<close>

lemmas [run_simps] = bind_def andThen_def gets_def modify_def ret_def throw_def throwIf_def liftR_def Let_def
  withMutation_def openMutation_def lockNamespaceRoot_def assertNamespaceActive_def findRoot_def findNode_def findRow_def
  findChild_def findNamespace_def readChangeFeedState_def initTx_def commitMutation_def applyNodeCounters_def
  applyLogicalByteQuota_def bumpAndReadChangedNodes_def applyLiveNodes_def updateNamespace_def updateRows_def
  insertRow_def createNode_def insertNode_iff checkNodeRow_def newNode_def freshId_def markChanged_def
  markAncestorChain_def trackChangeFeedBefore_def recordLiveNodeDelta_def typeContent_def rootShape_def
  withNodes_def insertNode_def setNodes_def bumpChunk_def captureChangeFeedNodes_def js_set_def effectiveLimit_def
  getNamespaceOrFail_def MAX_VFS_VERSION_def MAX_SAFE_INTEGER_def
  exDb_def exRoot_def exNs_def exRootId_def exEnv_def exNamespace_def

lemmas [run_simps] = mutate_def lockParentChain_def lockTargetNode_def createBlob_def addFile_def lastSegment_def
  recordLiveByteDelta_def recordFolderFileDelta_def setBlobs_def resolveNamespaceQuota_def resolveEnforcedLogicalBytes_def
  MAX_INT64_def applyFolderDelta_def folderDelta_def exDb1_def exFolder_def exContent_def

lemma mkdir_run:
  "\<exists>rec d' k'. mutate exEnv exNs exRootId (ensureDirectory exEnv exNs exRootId [js ''a''] False) (exDb, 1) = (Inr (rec, True), (d', k'))"
  by (simp add: run_simps ensureDirectory_def)

lemma put_run:
  "\<exists>rec d' k'. mutate exEnv exNs exRootId (putFileContent exEnv exNs exRootId [js ''a''] False exContent None False None) (exDb, 1)
     = (Inr (CreatedNode rec), (d', k'))"
  by (simp add: run_simps putFileContent_def)

lemma touch_run:
  "\<exists>d' k'. mutate exEnv exNs exRootId (touchFile exEnv exNs exRootId [js ''a'', js ''b''] True None) (exDb, 1)
     = (Inr AbsentNode, (d', k'))"
  by (simp add: run_simps touchFile_def)

lemma move_run:
  "\<exists>rec d' k'. mutate exEnv exNs exRootId (moveNode exEnv exNs exRootId [js ''a''] [js ''b''] False 10 False) (exDb1, 2)
     = (Inr (rec, joinSegments [js ''b'']), (d', k'))"
  by (simp add: run_simps moveNode_def resolveDestinationPlacement_def lockBothPaths_def resolveSource_def placeAt_def ownSubtree_def
      childrenOf_def assertSubtreeDestinationPaths_def childRows_def saveNode_def recordMove_def deleteRows_def)

lemma remove_run:
  "\<exists>i d' k'. mutate exEnv exNs exRootId (removeNode exEnv exNs exRootId [js ''a''] False 10) (exDb1, 2) = (Inr (Some i), (d', k'))"
  by (force simp: run_simps removeNode_def captureSnapshotRows_def moveToTrash_def capture_def countChildren_def
      resolvePathInManager_def childrenOf_def childPaths_def dot_def sortBy_def bookRemoval_def deleteNodes_def
      checkTrashLimits_def resolveTrashRetentionNodeLimit_def parsePositiveInt_def blobCounts_def tally_def insertEntry_def
      deleteNodesById_def deleteRows_def List.map_filter_def RETENTION_MS_def)

text \<open>A change feed that stands at 7.\<close>

definition exFeed :: feed_state where
  "exFeed = \<lparr> f_namespaceId = exNs, f_lastSequence = 7, f_prunedThrough = 0, f_hasCheckpoint = True, f_signingSecret = [] \<rparr>"

lemmas feed_simps = exFeed_def appendChangeFeedEvents_def feedChanges_def feedEvents_def changeOf_def meaningfulChange_def
  feedAncestors_def sortBy_def

end
