(* ===== verification/UploadExample.thy ===== *)
theory UploadExample
  imports UploadClaims Example
begin

text \<open>
  A small upload database, on which the properties of uploads are exercised: one namespace, the usage
  row of the server, and a session that is created, filled and claimed.
\<close>

definition exUploads :: uploads where
  "exUploads = \<lparr> u_namespaces = [exNamespace],
     u_usage = [\<lparr> us_id = js ''global'', us_namespaceId = None, us_activeSessions = 0, us_stagedBytes = 0 \<rparr>],
     u_sessions = [], u_parts = [], u_tombstones = [] \<rparr>"

definition exInput :: "int \<Rightarrow> create_session_input" where
  "exInput z = \<lparr> ci_id = uuidNo 7, ci_namespaceId = exNs, ci_scope = js ''s'', ci_creationKey = uuidNo 8, ci_fingerprint = js ''f'',
     ci_targetPath = js ''/a'', ci_sizeBytes = z, ci_sha256 = None, ci_mimeType = js ''t'', ci_conditionType = ABSENT,
     ci_conditionRevision = None, ci_fileExpiresInSeconds = None, ci_partSizeBytes = 10, ci_partCount = (z + 9) div 10,
     ci_now = 1000, ci_expiresAt = 5000, ci_maxExpiresAt = 9000, ci_requestId = None \<rparr>"

definition exCaps :: upload_caps where
  "exCaps = \<lparr> uc_global = \<lparr> ul_maxStagedBytes = 100, ul_maxActiveSessions = 2 \<rparr>,
     uc_namespace = \<lparr> ul_maxStagedBytes = 50, ul_maxActiveSessions = 1 \<rparr> \<rparr>"

text \<open>The state after the session has been created.\<close>

definition exOpen :: "int \<Rightarrow> uploads" where
  "exOpen z = exUploads\<lparr> u_sessions := [newSession (exInput z)],
     u_usage := [\<lparr> us_id = js ''global'', us_namespaceId = None, us_activeSessions = 1, us_stagedBytes = 0 \<rparr>,
       \<lparr> us_id = usageKey exNs, us_namespaceId = Some exNs, us_activeSessions = 1, us_stagedBytes = 0 \<rparr>] \<rparr>"

lemmas upload_simps = transaction_def bind_def andThen_def gets_def ret_def throw_def throwIf_def modify_def
  lockUsage_def readLocked_def ensureUsageRow_def uploadNamespaceActive_def findRow_def insertRow_def updateRows_def deleteRows_def
  changeUsage_def changeUsageRow_def addUsage_def affectedRows_def updateSessions_def updateParts_def insertSession_def insertPart_def
  findNamespace_def findSession_def findSessionIn_def findPart_def findByCreationKey_def sessionClosed_def newSession_def newPart_def
  exUploads_def exInput_def exCaps_def exOpen_def exNamespace_def usageKey_def js_def

lemma exUploads_ok: "uploadsOk exUploads"
  by (auto simp: booksOk_def keysOk_def exUploads_def scopeId_def usedActive_def usedBytes_def activeIn_def stagedIn_def findRow_def)

lemma create_run: "0 \<le> z \<Longrightarrow> createSession (exInput z) exCaps exUploads = (Inr (SessionCreated (newSession (exInput z))), exOpen z)"
  by (simp add: createSession_def upload_simps)

lemma exOpen_ok: "0 \<le> z \<Longrightarrow> uploadsOk (exOpen z)"
  using create_work.effect [OF create_run exUploads_ok] by blast

lemma reserve_run:
  "\<exists>p v. reservePart (uuidNo 7) 0 5 (js ''k'') exCaps 2000 60 (exOpen 5) = (Inr (PartReserved p), v) \<and>
     u_sessions v = [newSession (exInput 5)] \<and> u_parts v = [p]"
  by (simp add: reservePart_def admitPart_def assessUploadPartAdmission_def effectiveMaxStagedBytes_def MAX_SAFE_INTEGER_def upload_simps)

text \<open>The part is reserved and stored, and the session claimed by the worker 9.\<close>

lemma claim_run:
  "\<exists>p v1 e v2 s parts v. reservePart (uuidNo 7) 0 5 (js ''k'') exCaps 2000 60 (exOpen 5) = (Inr (PartReserved p), v1) \<and>
     commitPart (uuidNo 7) 0 (js ''d'') None (Some (js ''k'')) None 2500 v1 = (Inr e, v2) \<and>
     claimFinalize exNs (uuidNo 7) 100 3000 3000 (uuidNo 9) v2 = (Inr (Claimed (uuidNo 9) s parts), v) \<and>
     ss_id ` set (u_sessions v2) \<subseteq> {uuidNo 7} \<and> ss_partCount s = 1 \<and> \<not> endsClaim exNs (uuidNo 7) (uuidNo 9) v (Some (ReopenStale 3050 [uuidNo 7]))"
  by (simp add: reservePart_def admitPart_def assessUploadPartAdmission_def effectiveMaxStagedBytes_def MAX_SAFE_INTEGER_def commitPart_def
      commitReserved_def storePart_def partLeaseAfter_def keyMatches_def claimFinalize_def storedParts_def partsComplete_def sortBy_def stale_def
      upload_simps)

text \<open>The reservation runs out, leaves a tombstone, and the late write settles at 70000.\<close>

lemma tombstone_run:
  "\<exists>p v1 v2 a v t. reservePart (uuidNo 7) 0 5 (js ''k'') exCaps 2000 60 (exOpen 5) = (Inr (PartReserved p), v1) \<and>
     retireExpiredPartReservation (uuidNo 7) 0 (js ''k'') 65000 v1 = (Inr True, v2) \<and>
     releasePartReservationAccounting (uuidNo 7) 0 True (Some (js ''k'')) 70000 v2 = (Inr a, v) \<and>
     findTombstone (js ''k'') (u_tombstones v) = Some t \<and> sc_putSettledAt t = Some 70000 \<and> sc_sizeBytes t = 5 \<and> sc_namespaceId t = exNs \<and>
     (\<exists>b w. markTombstoneDeletedDetailed (js ''k'') (Some 70000) 71000 v = (Inr b, w))"
  by (simp add: reservePart_def admitPart_def assessUploadPartAdmission_def effectiveMaxStagedBytes_def MAX_SAFE_INTEGER_def
      retireExpiredPartReservation_def partLeaseAfter_def releasePartReservationAccounting_def releaseTombstone_def insertTombstone_def
      updateTombstone_def deleteTombstone_def deleteParts_def findTombstone_def markTombstoneDeletedDetailed_def upload_simps)

text \<open>
  A part is written late. Its object has been deleted and refunded and its session cancelled; a pruning
  run lists the session and counts no part, the late writer reports the object, which charges the part
  again, and the pruning run deletes the session with the charged part.
\<close>

lemma late_writer_run:
  "\<exists>p v1 a v2 b v3 v4 c v5 v. reservePart (uuidNo 7) 0 5 (js ''k'') exCaps 2000 60 (exOpen 5) = (Inr (PartReserved p), v1) \<and>
     releasePartReservationAccounting (uuidNo 7) 0 True (Some (js ''k'')) 2100 v1 = (Inr a, v2) \<and>
     markStagingObjectDeletedDetailed (uuidNo 7) 0 (js ''k'') CLEANUP 2200 v2 = (Inr b, v3) \<and>
     claimTerminalTransition exNs (uuidNo 7) CANCELLED 2300 v3 = (Inr True, v4) \<and>
     prunableSessions 3000 10 v4 = [uuidNo 7] \<and> countRemaining (uuidNo 7) v4 = (Inr 0, v4) \<and>
     releasePartReservationAccounting (uuidNo 7) 0 True (Some (js ''k'')) 2400 v4 = (Inr c, v5) \<and>
     deletePruned 3000 (uuidNo 7) v5 = (Inr 1, v) \<and> droppedBy 3000 (uuidNo 7) v5 = [(exNs, 5)]"
  by (simp add: reservePart_def admitPart_def assessUploadPartAdmission_def effectiveMaxStagedBytes_def MAX_SAFE_INTEGER_def
      releasePartReservationAccounting_def releaseDeletedPart_def keyMatches_def markStagingObjectDeletedDetailed_def deleteStagedPart_def
      claimTerminalTransition_def endSession_def prunableSessions_def terminalBefore_def terminal_def unencumbered_def sortBy_def
      countRemaining_def deletePruned_def deleteSessions_def droppedBy_def upload_simps)

end
