(* ===== verification/Stages.thy ===== *)
theory Stages
  imports Path
begin

text \<open>
  The stages of the collector: \<open>jobs/gc-budget.ts\<close>, \<open>jobs/gc-stage.ts\<close> and
  \<open>persistence/gc-cursor.repository.ts\<close>. A stage works through its candidates page by page; when it
  has examined as many rows as its budget allows it stores the place it has reached and stops, and
  the next run of the collector goes on from there. The column \<open>gc_cursor.position\<close> holds the JSON
  text of the place, modelled as the value it stands for; \<open>JStamp\<close> is the database's text of a
  timestamp, a string for \<open>typeof\<close>.
\<close>

datatype json = JNull | JString jstring | JNumber int | JStamp time | JObject "(jstring \<times> json) list"

section \<open>The budget of a stage\<close>

record gc_budget =
  gb_limit :: int
  gb_used :: int

definition newBudget :: "int \<Rightarrow> gc_budget" where
  "newBudget limit = \<lparr> gb_limit = limit, gb_used = 0 \<rparr>"

definition consumeBudget :: "int \<Rightarrow> gc_budget \<Rightarrow> gc_budget" where
  "consumeBudget units b = b\<lparr> gb_used := gb_used b + max 1 units \<rparr>"

definition budgetExhausted :: "gc_budget \<Rightarrow> bool" where
  "budgetExhausted b \<longleftrightarrow> gb_limit b \<le> gb_used b"

section \<open>The state of a run\<close>

text \<open>What the steps work on, the table \<open>gc_cursor\<close> and the stages whose budget ran out.\<close>

record 'w gc =
  g_world :: 'w
  g_cursors :: "(jstring \<times> json) list"
  g_exhausted :: "jstring list"

text \<open>\<open>GcStageContext\<close>; \<open>cx_cursors\<close> says whether there is a repository of cursors.\<close>

record stage_context =
  cx_budgetLimit :: int
  cx_cursors :: bool

definition inWorld :: "('w, 'e, 'a) prog \<Rightarrow> ('w gc, 'e, 'a) prog" where
  "inWorld m s = (case m (g_world s) of (r, w) \<Rightarrow> (r, s\<lparr> g_world := w \<rparr>))"

definition readPosition :: "jstring \<Rightarrow> ('w gc, vfs_error, json option) prog" where
  "readPosition name = gets (\<lambda>s. map_of (g_cursors s) name)"

definition writePosition :: "jstring \<Rightarrow> json \<Rightarrow> ('w gc, vfs_error, unit) prog" where
  "writePosition name position =
     andThen (throwIf (64 < length name) (InternalError ''GC cursor name too long''))
     (modify (\<lambda>s. s\<lparr> g_cursors := AList.update name position (g_cursors s) \<rparr>))"

definition clearPosition :: "jstring \<Rightarrow> ('w gc, vfs_error, unit) prog" where
  "clearPosition name = modify (\<lambda>s. s\<lparr> g_cursors := AList.delete name (g_cursors s) \<rparr>)"

text \<open>\<open>readCursor\<close>: a position that cannot be read starts the stage over.\<close>

definition readCursor :: "stage_context \<Rightarrow> jstring \<Rightarrow> (json \<Rightarrow> 'c option) \<Rightarrow> ('w gc, vfs_error, 'c option) prog" where
  "readCursor ctx stage parse =
     (if cx_cursors ctx
      then bind (readPosition stage) (\<lambda>stored. ret (case stored of None \<Rightarrow> None | Some raw \<Rightarrow> parse raw))
      else ret None)"

definition pushExhausted :: "jstring \<Rightarrow> ('w gc, vfs_error, unit) prog" where
  "pushExhausted stage = modify (\<lambda>s. s\<lparr> g_exhausted := g_exhausted s @ [stage] \<rparr>)"

section \<open>The loops\<close>

text \<open>
  The loop of \<open>runCursorStage\<close>. Every turn uses at least one unit of the budget, so the distance to
  the limit decreases.
\<close>

function cursorLoop :: "stage_context \<Rightarrow> jstring \<Rightarrow> ('c \<Rightarrow> json) \<Rightarrow> ('c option \<Rightarrow> ('w, vfs_error, 'c option \<times> int) prog) \<Rightarrow>
    gc_budget \<Rightarrow> 'c option \<Rightarrow> ('w gc, vfs_error, unit) prog" where
  "cursorLoop ctx stage stringify step budget cursor =
     bind (inWorld (step cursor)) (\<lambda>(nxt, examined).
       let budget' = consumeBudget examined budget in
       case nxt of
         None \<Rightarrow> if cx_cursors ctx then clearPosition stage else ret ()
       | Some c \<Rightarrow>
           if budgetExhausted budget'
           then andThen (if cx_cursors ctx then writePosition stage (stringify c) else ret ()) (pushExhausted stage)
           else cursorLoop ctx stage stringify step budget' nxt)"
  by pat_completeness auto

termination
  by (relation "measure (\<lambda>(_, _, _, _, b, _). nat (gb_limit b - gb_used b))")
    (auto simp: budgetExhausted_def consumeBudget_def)

declare cursorLoop.simps [simp del]

definition runCursorStage :: "stage_context \<Rightarrow> jstring \<Rightarrow> (json \<Rightarrow> 'c option) \<Rightarrow> ('c \<Rightarrow> json) \<Rightarrow>
    ('c option \<Rightarrow> ('w, vfs_error, 'c option \<times> int) prog) \<Rightarrow> ('w gc, vfs_error, unit) prog" where
  "runCursorStage ctx stage parse stringify step =
     bind (readCursor ctx stage parse) (\<lambda>cursor.
       cursorLoop ctx stage stringify step (newBudget (cx_budgetLimit ctx)) cursor)"

text \<open>The loop of \<open>runBudgetedStage\<close>.\<close>

function budgetedLoop :: "jstring \<Rightarrow> ('w, vfs_error, bool \<times> int) prog \<Rightarrow> gc_budget \<Rightarrow> ('w gc, vfs_error, unit) prog" where
  "budgetedLoop stage step budget =
     bind (inWorld step) (\<lambda>(finished, examined).
       let budget' = consumeBudget examined budget in
       if finished then ret ()
       else if budgetExhausted budget' then pushExhausted stage
       else budgetedLoop stage step budget')"
  by pat_completeness auto

termination
  by (relation "measure (\<lambda>(_, _, b). nat (gb_limit b - gb_used b))")
    (auto simp: budgetExhausted_def consumeBudget_def)

declare budgetedLoop.simps [simp del]

definition runBudgetedStage :: "stage_context \<Rightarrow> jstring \<Rightarrow> ('w, vfs_error, bool \<times> int) prog \<Rightarrow> ('w gc, vfs_error, unit) prog" where
  "runBudgetedStage ctx stage step = budgetedLoop stage step (newBudget (cx_budgetLimit ctx))"

section \<open>Runs and the sweep they add up to\<close>

text \<open>A sweep from a cursor to the end of the candidates, page by page and without a budget.\<close>

inductive sweeps :: "('c option \<Rightarrow> ('w, vfs_error, 'c option \<times> int) prog) \<Rightarrow> 'c option \<Rightarrow> 'w \<Rightarrow> nat \<Rightarrow> 'w \<Rightarrow> bool"
  for step where
  lastPage: "step c w = (Inr (None, k), w') \<Longrightarrow> sweeps step c w 1 w'"
| morePages: "step c w = (Inr (Some c', k), w1) \<Longrightarrow> sweeps step (Some c') w1 n w' \<Longrightarrow> sweeps step c w (Suc n) w'"

lemma inWorld_run: "m (g_world s) = (r, w) \<Longrightarrow> inWorld m s = (r, s\<lparr> g_world := w \<rparr>)"
  by (simp add: inWorld_def)

text \<open>
  One run either ends the sweep and forgets the cursor, or stores a cursor from which the same sweep
  has fewer pages left.
\<close>

lemma cursorLoop_advances:
  assumes "sweeps step c (g_world s) n w'" and "cx_cursors ctx" and "length stage \<le> 64"
  obtains (finished) t where "cursorLoop ctx stage stringify step b c s = (Inr (), t)" "g_world t = w'"
      "map_of (g_cursors t) stage = None"
  | (stopped) t c' k where "cursorLoop ctx stage stringify step b c s = (Inr (), t)"
      "map_of (g_cursors t) stage = Some (stringify c')" "sweeps step (Some c') (g_world t) k w'" "k < n"
      "stage \<in> set (g_exhausted t)"
  using assms
proof (induction c "g_world s" n w' arbitrary: s b thesis rule: sweeps.induct)
  case (lastPage c k w')
  show ?case
    by (rule lastPage.prems(1) [of "s\<lparr> g_world := w', g_cursors := AList.delete stage (g_cursors s) \<rparr>"])
      (simp_all add: cursorLoop.simps [of ctx] inWorld_run [where m = "step c", OF lastPage.hyps(1)] bind_def clearPosition_def modify_def
        lastPage.prems(3) delete_conv')
next
  case (morePages c c' k w1 n w')
  let ?s1 = "s\<lparr> g_world := w1 \<rparr>" and ?b = "consumeBudget k b"
  note run = inWorld_run [where m = "step c", OF morePages.hyps(1)]
  show ?case
  proof (cases "budgetExhausted ?b")
    case True
    let ?t = "?s1\<lparr> g_cursors := AList.update stage (stringify c') (g_cursors s), g_exhausted := g_exhausted s @ [stage] \<rparr>"
    show ?thesis
      by (rule morePages.prems(2) [of ?t c' n])
        (use True morePages.prems(3,4) morePages.hyps(2) in \<open>simp_all add: cursorLoop.simps [of ctx] run bind_def
          andThen_def writePosition_def pushExhausted_def modify_def throwIf_def ret_def update_conv'\<close>)
  next
    case False
    then have eq: "cursorLoop ctx stage stringify step b c s = cursorLoop ctx stage stringify step ?b (Some c') ?s1"
      by (subst cursorLoop.simps) (simp add: run bind_def)
    show ?thesis
    proof (rule morePages.hyps(3) [of ?s1 ?b])
      fix t assume "cursorLoop ctx stage stringify step ?b (Some c') ?s1 = (Inr (), t)" "g_world t = w'"
        "map_of (g_cursors t) stage = None"
      then show ?thesis by (intro morePages.prems(1)) (simp_all add: eq)
    next
      fix t c2 k2 assume "cursorLoop ctx stage stringify step ?b (Some c') ?s1 = (Inr (), t)"
        "map_of (g_cursors t) stage = Some (stringify c2)" "sweeps step (Some c2) (g_world t) k2 w'" "k2 < n"
        "stage \<in> set (g_exhausted t)"
      then show ?thesis by (intro morePages.prems(2)) (auto simp: eq less_Suc_eq)
    qed (use morePages.prems(3,4) in simp_all)
  qed
qed

text \<open>Several runs, one after the other.\<close>

primrec runs :: "nat \<Rightarrow> ('s, 'e, unit) prog \<Rightarrow> ('s, 'e, unit) prog" where
  "runs 0 m = ret ()"
| "runs (Suc k) m = andThen m (runs k m)"

definition position :: "(json \<Rightarrow> 'c option) \<Rightarrow> jstring \<Rightarrow> 'w gc \<Rightarrow> 'c option" where
  "position parse stage s = Option.bind (map_of (g_cursors s) stage) parse"

lemma runCursorStage_position:
  "cx_cursors ctx \<Longrightarrow> runCursorStage ctx stage parse stringify step s =
     cursorLoop ctx stage stringify step (newBudget (cx_budgetLimit ctx)) (position parse stage s) s"
  by (simp add: runCursorStage_def readCursor_def readPosition_def position_def bind_def gets_def ret_def split: option.split)

text \<open>However small the budget, no more runs than pages complete the sweep.\<close>

lemma stage_completes:
  assumes "sweeps step (position parse stage s) (g_world s) n w'" and cx: "cx_cursors ctx" "length stage \<le> 64"
    and inv: "\<And>c. parse (stringify c) = Some c"
  shows "\<exists>m t. 0 < m \<and> m \<le> n \<and> runs m (runCursorStage ctx stage parse stringify step) s = (Inr (), t) \<and>
    g_world t = w' \<and> position parse stage t = None"
  using assms(1)
proof (induction n arbitrary: s rule: less_induct)
  case (less n)
  let ?run = "runCursorStage ctx stage parse stringify step"
  have pos: "0 < n" using less.prems by (cases rule: sweeps.cases) auto
  show ?case
  proof (rule cursorLoop_advances [OF less.prems cx])
    fix t assume "cursorLoop ctx stage stringify step (newBudget (cx_budgetLimit ctx)) (position parse stage s) s = (Inr (), t)"
      "g_world t = w'" "map_of (g_cursors t) stage = None"
    then show ?thesis using pos
      by (intro exI [of _ 1] exI [of _ t])
        (simp add: runCursorStage_position [OF cx(1)] andThen_def bind_def ret_def position_def)
  next
    fix t c' k assume run: "cursorLoop ctx stage stringify step (newBudget (cx_budgetLimit ctx)) (position parse stage s) s = (Inr (), t)"
      and c: "map_of (g_cursors t) stage = Some (stringify c')" and sw: "sweeps step (Some c') (g_world t) k w'" and k: "k < n"
    have "position parse stage t = Some c'" using c inv by (simp add: position_def)
    from less.IH [OF k, of t, unfolded this, OF sw] obtain m u where m: "0 < m" "m \<le> k" "runs m ?run t = (Inr (), u)"
      "g_world u = w'" "position parse stage u = None" by blast
    moreover have "?run s = (Inr (), t)" by (simp add: runCursorStage_position [OF cx(1)] run)
    ultimately show ?thesis using k
      by (intro exI [of _ "Suc m"] exI [of _ u]) (simp add: andThen_def bind_def)
  qed
qed

text \<open>A run takes no more steps than its budget has units, and always at least one.\<close>

lemma cursorLoop_bounded:
  assumes "cursorLoop ctx stage stringify step b c s = (r, t)" and "\<And>c w r w'. step c w = (r, w') \<Longrightarrow> f w' \<le> f w + (1 :: int)"
  shows "f (g_world t) \<le> f (g_world s) + max 1 (gb_limit b - gb_used b)"
  using assms
proof (induction ctx stage stringify step b c arbitrary: s rule: cursorLoop.induct)
  case (1 ctx stage stringify step b c)
  obtain q w where st: "step c (g_world s) = (q, w)" by fastforce
  note le = "1.prems"(2) [OF st] and run = inWorld_run [where m = "step c", OF st]
  show ?case
  proof (cases q)
    case (Inl e)
    with "1.prems"(1) le show ?thesis by (auto simp: cursorLoop.simps [of ctx] run bind_def)
  next
    case (Inr x)
    obtain nxt k where x: "x = (nxt, k)" by fastforce
    let ?b = "consumeBudget k b" and ?s = "s\<lparr> g_world := w \<rparr>"
    show ?thesis
    proof (cases "nxt = None \<or> budgetExhausted ?b")
      case True
      then have "g_world t = w" using "1.prems"(1) Inr x
        by (auto simp: cursorLoop.simps [of ctx] run bind_def clearPosition_def modify_def ret_def andThen_def writePosition_def
          throwIf_def throw_def pushExhausted_def Let_def split: if_splits option.splits)
      with le show ?thesis by simp
    next
      case False
      then obtain c' where c': "nxt = Some c'" by auto
      have "cursorLoop ctx stage stringify step ?b nxt ?s = (r, t)"
        using "1.prems"(1) Inr x False c' by (subst (asm) cursorLoop.simps) (simp add: run bind_def)
      from "1.IH" [OF HOL.refl c' _ this "1.prems"(2)] False
      have "f (g_world t) \<le> f w + max 1 (gb_limit ?b - gb_used ?b)" by simp
      with le False show ?thesis by (auto simp: consumeBudget_def budgetExhausted_def)
    qed
  qed
qed

text \<open>What every step keeps, a run keeps, whether it ends or throws.\<close>

lemma cursorLoop_keeps:
  assumes "cursorLoop ctx stage stringify step b c s = (r, t)" and "\<And>c w r w'. step c w = (r, w') \<Longrightarrow> I w \<Longrightarrow> I w'" and "I (g_world s)"
  shows "I (g_world t)"
  using assms
proof (induction ctx stage stringify step b c arbitrary: s rule: cursorLoop.induct)
  case (1 ctx stage stringify step b c)
  obtain q w where st: "step c (g_world s) = (q, w)" by fastforce
  have w: "I w" by (rule "1.prems"(2) [OF st "1.prems"(3)])
  note run = inWorld_run [where m = "step c", OF st]
  show ?case
  proof (cases "\<exists>c' k. q = Inr (Some c', k) \<and> \<not> budgetExhausted (consumeBudget k b)")
    case False
    then have "g_world t = w" using "1.prems"(1)
      by (auto simp: cursorLoop.simps [of ctx] run bind_def clearPosition_def modify_def ret_def andThen_def writePosition_def
        throwIf_def throw_def pushExhausted_def Let_def split: if_splits option.splits sum.splits)
    with w show ?thesis by simp
  next
    case True
    then obtain c' k where q: "q = Inr (Some c', k)" and go: "\<not> budgetExhausted (consumeBudget k b)" by blast
    have rec: "cursorLoop ctx stage stringify step (consumeBudget k b) (Some c') (s\<lparr> g_world := w \<rparr>) = (r, t)"
      using "1.prems"(1) q go by (subst (asm) cursorLoop.simps) (simp add: run bind_def)
    show ?thesis
      by (rule "1.IH" [OF HOL.refl HOL.refl go rec "1.prems"(2)]) (use w in simp_all)
  qed
qed

lemma runCursorStage_keeps:
  assumes "runCursorStage ctx stage parse stringify step s = (r, t)" and "\<And>c w r w'. step c w = (r, w') \<Longrightarrow> I w \<Longrightarrow> I w'" and "I (g_world s)"
  shows "I (g_world t)"
  using assms(1) cursorLoop_keeps [where I = I and s = s and step = step, OF _ assms(2,3)]
  by (auto simp: runCursorStage_def readCursor_def readPosition_def bind_def gets_def ret_def split: if_splits option.splits)

end
