(* ===== verification/Keyset.thy ===== *)
theory Keyset
  imports Stages
begin

text \<open>
  Keyset pagination: \<open>WHERE key > cursor ORDER BY key LIMIT n\<close>, with the key of the last row read as
  the next cursor. The locale \<open>keyset\<close> asks for a strict total order on the keys; \<open>keyset_stage\<close> adds
  a step that reads a page, has an effect on the rows of that page only and moves the cursor on. A
  sweep of such a step visits every candidate exactly once and in order, whatever the steps do to
  the rows behind the cursor.
\<close>

definition keyCmp :: "('k \<Rightarrow> 'k \<Rightarrow> bool) \<Rightarrow> ('r \<Rightarrow> 'k) \<Rightarrow> 'r \<Rightarrow> 'r \<Rightarrow> int" where
  "keyCmp lt key a b = (if lt (key a) (key b) then - 1 else if lt (key b) (key a) then 1 else 0)"

fun beyond :: "('k \<Rightarrow> 'k \<Rightarrow> bool) \<Rightarrow> 'k option \<Rightarrow> 'k \<Rightarrow> bool" where
  "beyond lt None k = True"
| "beyond lt (Some c) k = lt c k"

definition keysetPage :: "('k \<Rightarrow> 'k \<Rightarrow> bool) \<Rightarrow> ('r \<Rightarrow> 'k) \<Rightarrow> 'k option \<Rightarrow> nat \<Rightarrow> 'r list \<Rightarrow> 'r list" where
  "keysetPage lt key after limit rows = take limit (sortBy (keyCmp lt key) (filter (\<lambda>r. beyond lt after (key r)) rows))"

locale keyset =
  fixes lt :: "'k \<Rightarrow> 'k \<Rightarrow> bool" and key :: "'r \<Rightarrow> 'k"
  assumes irrefl: "\<not> lt k k" and trans: "lt a b \<Longrightarrow> lt b c \<Longrightarrow> lt a c" and linear: "lt a b \<or> a = b \<or> lt b a"
begin

abbreviation before :: "'r \<Rightarrow> 'r \<Rightarrow> bool" where
  "before a b \<equiv> lt (key a) (key b)"

abbreviation ordered :: "'r list \<Rightarrow> 'r list" where
  "ordered \<equiv> sortBy (keyCmp lt key)"

lemma insert_ordered:
  assumes "sorted_wrt before xs" and "key x \<notin> key ` set xs"
  shows "sorted_wrt before (insertBy (keyCmp lt key) x xs)"
  using assms
proof (induction xs)
  case (Cons y ys)
  show ?case
  proof (cases "lt (key x) (key y)")
    case True
    then show ?thesis using Cons.prems trans by (auto simp: keyCmp_def)
  next
    case False
    with Cons.prems linear [of "key x" "key y"] have y: "lt (key y) (key x)" by auto
    then have "insertBy (keyCmp lt key) x (y # ys) = y # insertBy (keyCmp lt key) x ys"
      using False by (simp add: keyCmp_def)
    with Cons y show ?thesis by simp
  qed
qed simp

lemma ordered_sorted: "distinct (map key xs) \<Longrightarrow> sorted_wrt before (ordered xs)"
proof (induction xs)
  case (Cons x xs)
  have "ordered (x # xs) = insertBy (keyCmp lt key) x (ordered xs)" by (simp add: sortBy_def)
  with Cons show ?case by (auto intro!: insert_ordered)
qed (simp add: sortBy_def)

lemma sorted_unique:
  assumes "sorted_wrt before xs" and "sorted_wrt before ys" and "set xs = set ys"
  shows "xs = ys"
  using assms
proof (induction xs arbitrary: ys)
  case (Cons x xs)
  then obtain y ys' where ys: "ys = y # ys'" by (cases ys) auto
  have asym: "\<not> (before a b \<and> before b a)" for a b using trans irrefl by blast
  have "x = y" using Cons.prems asym unfolding ys by (metis list.set_intros(1) set_ConsD sorted_wrt.simps(2))
  moreover have "x \<notin> set xs" "y \<notin> set ys'" using Cons.prems irrefl unfolding ys by auto
  ultimately show ?case using Cons ys by (metis insert_ident list.simps(15) sorted_wrt.simps(2))
qed simp

lemma sorted_last: "sorted_wrt before ys \<Longrightarrow> r \<in> set ys \<Longrightarrow> r = last ys \<or> before r (last ys)"
  by (cases ys rule: rev_cases) (auto simp: sorted_wrt_append)

text \<open>What a page leaves is what lies beyond its last row.\<close>

lemma ordered_rest:
  assumes "distinct (map key xs)" and "0 < limit" and "limit \<le> length xs"
  shows "ordered xs = take limit (ordered xs) @ ordered (filter (before (last (take limit (ordered xs)))) xs)"
proof -
  let ?page = "take limit (ordered xs)" and ?rest = "drop limit (ordered xs)"
  have s: "sorted_wrt before (?page @ ?rest)" using ordered_sorted [OF assms(1)] by simp
  have ne: "?page \<noteq> []" using assms(2,3) by (metis length_sortBy length_take less_numeral_extra(3) list.size(3) min_absorb2)
  have "set ?rest = {r \<in> set xs. before (last ?page) r}"
  proof (intro equalityI subsetI)
    fix r assume r: "r \<in> set ?rest"
    then have "r \<in> set xs" by (metis in_set_dropD set_sortBy)
    moreover have "before (last ?page) r" using s last_in_set [OF ne] r unfolding sorted_wrt_append by blast
    ultimately show "r \<in> {r \<in> set xs. before (last ?page) r}" by simp
  next
    fix r assume r: "r \<in> {r \<in> set xs. before (last ?page) r}"
    show "r \<in> set ?rest"
    proof (rule ccontr)
      assume "r \<notin> set ?rest"
      with r have "r \<in> set ?page" by (metis (mono_tags, lifting) Un_iff append_take_drop_id mem_Collect_eq set_append set_sortBy)
      with s have "r = last ?page \<or> before r (last ?page)" by (intro sorted_last) (simp_all add: sorted_wrt_append)
      with r irrefl trans show False by blast
    qed
  qed
  moreover have "distinct (map key (filter (before (last ?page)) xs))" by (rule distinct_map_filter [OF assms(1)])
  then have "sorted_wrt before (ordered (filter (before (last ?page)) xs))" by (rule ordered_sorted)
  moreover have "sorted_wrt before ?rest" using s by (simp add: sorted_wrt_append)
  ultimately have "?rest = ordered (filter (before (last ?page)) xs)" by (intro sorted_unique) auto
  then show ?thesis by (metis append_take_drop_id)
qed

lemma page_in: "set (keysetPage lt key after limit rows) \<subseteq> {r \<in> set rows. beyond lt after (key r)}"
  unfolding keysetPage_def by (auto dest: in_set_takeD)

end

section \<open>Stages that read pages\<close>

text \<open>
  \<open>tbl\<close> is the table a world holds, \<open>P\<close> the condition on a candidate, \<open>effect\<close> what a step does with a
  page, here allowed to fail never and to touch no row outside the page.
\<close>

locale keyset_stage = keyset lt key for lt :: "'k \<Rightarrow> 'k \<Rightarrow> bool" and key :: "'r \<Rightarrow> 'k" +
  fixes step :: "'k option \<Rightarrow> ('w, vfs_error, 'k option \<times> int) prog" and tbl :: "'w \<Rightarrow> 'r list" and P :: "'r \<Rightarrow> bool"
    and effect :: "'r list \<Rightarrow> 'w \<Rightarrow> 'w" and limit :: nat and ok :: "'w \<Rightarrow> bool"
  assumes limit: "0 < limit"
    and keys: "ok w \<Longrightarrow> distinct (map key (filter P (tbl w)))"
    and step: "ok w \<Longrightarrow> page = keysetPage lt key c limit (filter P (tbl w)) \<Longrightarrow>
      step c w = (Inr (if length page < limit then None else Some (key (last page)), int (length page)), effect page w) \<and>
      ok (effect page w)"
    and effect: "ok w \<Longrightarrow> set page \<subseteq> set (tbl w) \<Longrightarrow> filter (\<lambda>r. r \<notin> set page) (tbl (effect page w)) = filter (\<lambda>r. r \<notin> set page) (tbl w)"
begin

definition candidates :: "'k option \<Rightarrow> 'w \<Rightarrow> 'r list" where
  "candidates c w = ordered (filter (\<lambda>r. P r \<and> beyond lt c (key r)) (tbl w))"

lemma page_candidates: "keysetPage lt key c limit (filter P (tbl w)) = take limit (candidates c w)"
  by (simp add: keysetPage_def candidates_def)

lemma candidates_step:
  assumes "ok w" and page: "page = take limit (candidates c w)" and full: "limit \<le> length page"
  shows "candidates c w = page @ candidates (Some (key (last page))) (effect page w)"
proof -
  let ?xs = "filter (\<lambda>r. P r \<and> beyond lt c (key r)) (tbl w)"
  have d: "distinct (map key ?xs)" using distinct_map_filter [OF keys [OF assms(1)], of "\<lambda>r. beyond lt c (key r)"] by simp
  have len: "limit \<le> length ?xs" using full page by (simp add: candidates_def)
  have ne: "page \<noteq> []" using full limit by auto
  have sub: "set page \<subseteq> set (tbl w)" using page by (auto simp: candidates_def dest: in_set_takeD)
  have far: "beyond lt c (key (last page))" using last_in_set [OF ne] page by (auto simp: candidates_def dest: in_set_takeD)
  have later: "r \<notin> set page" if "before (last page) r" for r
  proof
    assume r: "r \<in> set page"
    have "sorted_wrt before page" using ordered_sorted [OF d] by (simp add: page candidates_def sorted_wrt_take)
    from sorted_last [OF this r] have "r = last page \<or> before r (last page)" .
    with that irrefl trans show False by blast
  qed
  have "filter (before (last page)) ?xs = filter (\<lambda>r. P r \<and> before (last page) r) (filter (\<lambda>r. r \<notin> set page) (tbl w))"
    using far later by (auto simp: intro!: filter_cong dest: trans elim: beyond.elims) (cases c; auto dest: trans)+
  also have "\<dots> = filter (\<lambda>r. P r \<and> before (last page) r) (tbl (effect page w))"
    unfolding effect [OF assms(1) sub, symmetric] using later by (auto intro!: filter_cong)
  finally show ?thesis using ordered_rest [OF d limit len] by (simp add: candidates_def page)
qed

text \<open>The pages a sweep reads, put together, are the candidates, each once and in order.\<close>

lemma sweep_visits:
  assumes "ok w"
  obtains n pages where "sweeps step c w n (foldl (\<lambda>w page. effect page w) w pages)" "concat pages = candidates c w"
    "n \<le> Suc (length (candidates c w))" "ok (foldl (\<lambda>w page. effect page w) w pages)"
  using assms
proof (induction "length (candidates c w)" arbitrary: c w thesis rule: less_induct)
  case less
  define page where "page = take limit (candidates c w)"
  note st = step [OF less.prems(2), of page c, unfolded page_candidates, OF page_def]
  show ?case
  proof (cases "length page < limit")
    case True
    then have all: "page = candidates c w" by (simp add: page_def min_def split: if_splits)
    have "sweeps step c w 1 (effect page w)" using st True by (intro sweeps.lastPage) auto
    then show ?thesis using st all by (intro less.prems(1) [of 1 "[page]"]) auto
  next
    case False
    let ?c = "Some (key (last page))" and ?w = "effect page w"
    have split: "candidates c w = page @ candidates ?c ?w"
      by (rule candidates_step [OF less.prems(2) page_def]) (use False in simp)
    have "page \<noteq> []" using False limit by auto
    then have shorter: "length (candidates ?c ?w) < length (candidates c w)" by (simp add: split)
    from less.hyps [OF shorter] st obtain n pages where n: "sweeps step ?c ?w n (foldl (\<lambda>w page. effect page w) ?w pages)"
      "concat pages = candidates ?c ?w" "n \<le> Suc (length (candidates ?c ?w))" "ok (foldl (\<lambda>w page. effect page w) ?w pages)"
      by blast
    have "sweeps step c w (Suc n) (foldl (\<lambda>w page. effect page w) ?w pages)"
      using st False n(1) by (auto intro!: sweeps.morePages)
    moreover have "Suc n \<le> Suc (length (candidates c w))" using n(3) shorter by linarith
    ultimately show ?thesis using n by (intro less.prems(1) [of "Suc n" "page # pages"]) (simp_all add: split [symmetric])
  qed
qed

end

end
