(* ===== verification/Enforcement.thy ===== *)
theory Enforcement
  imports Refinement
begin

text \<open>
  What the end of a transaction enforces (quota, node and folder limits, the order of the change
  feed), that Blobs in use are counted, and that the walks over the node table end.
\<close>

section \<open>Blobs in use\<close>

lemma resolvePath_in:
  assumes "resolvePathInManager ns rootId segs tbl = Some n"
  shows "n \<in> set tbl"
proof (cases "findNode ns rootId tbl")
  case None
  with assms show ?thesis by (simp add: resolvePathInManager_def)
next
  case (Some r)
  with assms findNode_SomeD [OF Some] show ?thesis by (auto simp: resolvePathInManager_def intro: resolve_in)
qed

lemma weigh_pos:
  assumes "x \<in> set xs" and "0 < w x" and "\<And>y. 0 \<le> w y"
  shows "0 < weigh w xs"
  using assms
proof (induction xs)
  case (Cons y ys)
  then show ?case using weigh_nonneg [of ys w] by (auto intro: add_pos_nonneg add_nonneg_pos)
qed simp

lemma blob_positive:
  assumes c: "consistent ns d"
    and use: "n \<in> set (nodes d) \<and> n_blobId n = Some b \<or> e \<in> set (trashEntries d) \<and> e_blobId e = Some b
      \<or> q \<in> set (snapshotEntries d) \<and> q_blobId q = Some b"
  shows "\<exists>x\<in>set (blobs d). b_id x = b \<and> 0 < b_referenceCount x"
proof -
  have rows: "rowsOk d" using c by (simp add: consistent_def)
  have nn: "0 \<le> weigh (nodeRef b) (nodes d)" "0 \<le> weigh (\<lambda>e. holds b (e_blobId e)) (trashEntries d)"
    "0 \<le> weigh (\<lambda>q. holds b (q_blobId q)) (snapshotEntries d)" by (auto intro!: weigh_nonneg simp: holds_def)
  have "0 < refs b d"
    using use
  proof (elim disjE conjE)
    assume "n \<in> set (nodes d)" "n_blobId n = Some b"
    then have "0 < weigh (nodeRef b) (nodes d)" by (intro weigh_pos [of n]) (auto simp: holds_def)
    with nn show ?thesis by (simp add: refs_def)
  next
    assume "e \<in> set (trashEntries d)" "e_blobId e = Some b"
    then have "0 < weigh (\<lambda>e. holds b (e_blobId e)) (trashEntries d)" by (intro weigh_pos [of e]) (auto simp: holds_def)
    with nn show ?thesis by (simp add: refs_def)
  next
    assume "q \<in> set (snapshotEntries d)" "q_blobId q = Some b"
    then have "0 < weigh (\<lambda>q. holds b (q_blobId q)) (snapshotEntries d)" by (intro weigh_pos [of q]) (auto simp: holds_def)
    with nn show ?thesis by (simp add: refs_def)
  qed
  moreover from this obtain x where "x \<in> set (blobs d)" "b_id x = b" using no_refs [OF rows, of b] by fastforce
  ultimately show ?thesis using c by (auto simp: consistent_def refsOk_def intro!: bexI [of _ x])
qed

section \<open>Quota\<close>

text \<open>The bytes a namespace's row counts against its quota, and the quota.\<close>

definition enforcedBytes :: "namespace \<Rightarrow> int" where
  "enforcedBytes z = resolveEnforcedLogicalBytes (ns_liveFileByteCount z) (ns_retainedTrashByteCount z)
     (ns_retainedSnapshotByteCount z) (ns_excludeTrashFromQuota z) (ns_excludeSnapshotsFromQuota z)"

definition quotaOf :: "env \<Rightarrow> namespace \<Rightarrow> int result" where
  "quotaOf env z = resolveNamespaceQuota (map_option show_int (ns_maxTotalLogicalBytes z))
     (env_maxTotalLogicalBytes env) (env_defaultMaxTotalLogicalBytes env)"

text \<open>The growth of those bytes in a transaction.\<close>

definition enforcedGrowth :: "tx \<Rightarrow> namespace \<Rightarrow> int" where
  "enforcedGrowth s z = x_liveFileByteDelta s + (if ns_excludeTrashFromQuota z then 0 else x_trashByteDelta s)
     + (if ns_excludeSnapshotsFromQuota z then 0 else x_snapshotByteDelta s)"

lemma findNamespace_update:
  assumes "\<And>n. ns_id (f n) = ns_id n"
  shows "findNamespace ns (updateRows (\<lambda>n. ns_id n = ns) f tbl) = map_option f (findNamespace ns tbl)"
  using assms by (induction tbl) (auto simp: findNamespace_def findRow_def updateRows_def)

lemma applyLogicalByteQuota_enforces:
  assumes run: "applyLogicalByteQuota env s = (Inr u, t)" and z: "findNamespace (x_namespaceId s) (namespaces (x_db s)) = Some z"
    and grow: "0 < enforcedGrowth s z"
  shows "\<exists>z' limit. findNamespace (x_namespaceId s) (namespaces (x_db t)) = Some z' \<and> quotaOf env z' = Inr limit \<and>
    enforcedBytes z' \<le> limit \<and> ns_liveFileByteCount z' = ns_liveFileByteCount z + x_liveFileByteDelta s"
proof -
  let ?z = "z\<lparr> ns_liveFileByteCount := ns_liveFileByteCount z + x_liveFileByteDelta s \<rparr>"
  have ne: "\<not> (x_liveFileByteDelta s = 0 \<and> x_trashByteDelta s = 0 \<and> x_snapshotByteDelta s = 0)"
    using grow by (auto simp: enforcedGrowth_def split: if_splits)
  from run [unfolded applyLogicalByteQuota_def Let_def] ne z grow obtain limit where
    q: "quotaOf env z = Inr limit" "enforcedBytes ?z \<le> limit"
    and t: "t = (if x_liveFileByteDelta s = 0 then s else s\<lparr> x_db := (x_db s)\<lparr> namespaces :=
      updateRows (\<lambda>n. ns_id n = x_namespaceId s) (\<lambda>n. n\<lparr> ns_liveFileByteCount := ns_liveFileByteCount z + x_liveFileByteDelta s \<rparr>)
        (namespaces (x_db s)) \<rparr> \<rparr>)"
    by (auto simp: monad_simps enforcedGrowth_def quotaOf_def enforcedBytes_def split: if_splits)
  have "findNamespace (x_namespaceId s) (namespaces (x_db t)) = Some ?z"
    using z by (cases "x_liveFileByteDelta s = 0") (simp_all add: t findNamespace_update)
  moreover have "quotaOf env ?z = Inr limit" using q(1) by (simp add: quotaOf_def)
  ultimately show ?thesis using q(2) by auto
qed

text \<open>Freeing bytes is never refused for the quota, however far over it the namespace is.\<close>

lemma applyLogicalByteQuota_shrinks:
  assumes "applyLogicalByteQuota env s = (Inl e, t)" and "findNamespace (x_namespaceId s) (namespaces (x_db s)) = Some z"
    and "enforcedGrowth s z \<le> 0"
  shows "\<forall>limit actual. e \<noteq> Limit (VfsQuotaExceededError limit actual)"
  using assms
  by (auto simp: applyLogicalByteQuota_def Let_def bind_def andThen_def gets_def ret_def throwIf_def throw_def liftR_def
      getNamespaceOrFail_def enforcedGrowth_def updateNamespace_def modify_def split: if_splits)

text \<open>The steps after the quota write no namespace row; the ones before it only the node counter.\<close>

lemma forEach_namespaces:
  assumes "forEach xs f s = (Inr u, t)" and "\<And>x s u t. f x s = (Inr u, t) \<Longrightarrow> namespaces (x_db t) = namespaces (x_db s)"
  shows "namespaces (x_db t) = namespaces (x_db s)"
  by (rule forEach_invariant [OF _ assms(1), where P = "\<lambda>t. namespaces (x_db t) = namespaces (x_db s)"]) (use assms(2) in auto)

lemma commitMutation_steps:
  assumes "commitMutation env v (\<lambda>_. ret ()) s = (Inr r, t)"
  obtains s1 s2 where "applyNodeCounters env s = (Inr (), s1)" "applyLogicalByteQuota env s1 = (Inr (), s2)"
    "namespaces (x_db t) = namespaces (x_db s2)"
proof -
  from assms obtain s1 s2 s3 u1 u2 u3 aff where
    a: "applyNodeCounters env s = (Inr u1, s1)" "applyLogicalByteQuota env s1 = (Inr u2, s2)"
      "bumpAndReadChangedNodes env s2 = (Inr aff, s3)"
    and feed: "(case x_feedBefore s3 of None \<Rightarrow> ret ()
        | Some before \<Rightarrow> appendChangeFeedEvents env (x_namespaceId s3) before (map fst (x_changed s3))) s3 = (Inr u3, t)"
    unfolding commitMutation_def by (elim monad_elims) blast
  from a(3) obtain u where loop: "forEach (chunks 500 (map fst (filter snd (x_changed s2)))) (bumpChunk env) s2 = (Inr u, s3)"
    unfolding bumpAndReadChangedNodes_def by (auto elim!: bindE getsE andThenE liftRE retE)
  have "namespaces (x_db s3) = namespaces (x_db s2)"
    by (rule forEach_namespaces [OF loop]) (auto simp: bumpChunk_def Let_def monad_simps)
  moreover have "namespaces (x_db t) = namespaces (x_db s3)"
  proof (cases "x_feedBefore s3")
    case None
    with feed show ?thesis by (simp add: monad_simps)
  next
    case (Some before)
    with feed have "appendChangeFeedEvents env (x_namespaceId s3) before (map fst (x_changed s3)) s3 = (Inr u3, t)" by simp
    note d = append_db(1) [OF this]
    show ?thesis by (subst d) simp
  qed
  ultimately show ?thesis using that a by simp
qed

lemma applyNodeCounters_namespace:
  assumes run: "applyNodeCounters env s = (Inr u, t)" and z: "findNamespace (x_namespaceId s) (namespaces (x_db s)) = Some z"
  shows "findNamespace (x_namespaceId s) (namespaces (x_db t)) = Some (z\<lparr> ns_liveNodeCount := ns_liveNodeCount z + x_liveNodeDelta s \<rparr>)"
    and "0 < x_liveNodeDelta s \<Longrightarrow> ns_liveNodeCount z + x_liveNodeDelta s \<le>
      effectiveLimit (ns_maxLiveNodes z) (env_maxLiveNodes env) (env_defaultMaxLiveNodes env)"
    and "x_namespaceId t = x_namespaceId s" and "x_liveFileByteDelta t = x_liveFileByteDelta s"
    and "x_trashByteDelta t = x_trashByteDelta s" and "x_snapshotByteDelta t = x_snapshotByteDelta s"
proof -
  let ?z = "z\<lparr> ns_liveNodeCount := ns_liveNodeCount z + x_liveNodeDelta s \<rparr>"
  have "findNamespace (x_namespaceId s) (namespaces (x_db t)) = Some ?z \<and>
    (0 < x_liveNodeDelta s \<longrightarrow> ns_liveNodeCount z + x_liveNodeDelta s \<le>
      effectiveLimit (ns_maxLiveNodes z) (env_maxLiveNodes env) (env_defaultMaxLiveNodes env)) \<and>
    x_namespaceId t = x_namespaceId s \<and> x_liveFileByteDelta t = x_liveFileByteDelta s \<and>
    x_trashByteDelta t = x_trashByteDelta s \<and> x_snapshotByteDelta t = x_snapshotByteDelta s"
  proof (cases "filter (\<lambda>(_, d). d \<noteq> 0) (x_folderFileDeltas s) = [] \<and> x_liveNodeDelta s = 0")
    case True
    with run z show ?thesis by (auto simp: applyNodeCounters_def Let_def monad_simps)
  next
    case False
    with run z obtain s1 v limit where a: "applyLiveNodes env (x_namespaceId s) z (x_liveNodeDelta s) s = (Inr v, s1)"
      and b: "forEach (filter (\<lambda>(_, d). d \<noteq> 0) (x_folderFileDeltas s)) (applyFolderDelta (x_namespaceId s) limit) s1 = (Inr u, t)"
      unfolding applyNodeCounters_def Let_def by (auto simp: monad_simps)
    have s1: "findNamespace (x_namespaceId s) (namespaces (x_db s1)) = Some ?z \<and>
        (0 < x_liveNodeDelta s \<longrightarrow> ns_liveNodeCount z + x_liveNodeDelta s \<le>
          effectiveLimit (ns_maxLiveNodes z) (env_maxLiveNodes env) (env_defaultMaxLiveNodes env)) \<and>
        x_namespaceId s1 = x_namespaceId s \<and> x_liveFileByteDelta s1 = x_liveFileByteDelta s \<and>
        x_trashByteDelta s1 = x_trashByteDelta s \<and> x_snapshotByteDelta s1 = x_snapshotByteDelta s"
      using a z by (auto simp: applyLiveNodes_def Let_def monad_simps findNamespace_update split: if_splits)
    have "namespaces (x_db t) = namespaces (x_db s1) \<and> x_namespaceId t = x_namespaceId s1 \<and>
        x_liveFileByteDelta t = x_liveFileByteDelta s1 \<and> x_trashByteDelta t = x_trashByteDelta s1 \<and>
        x_snapshotByteDelta t = x_snapshotByteDelta s1"
      by (rule forEach_invariant [OF _ b, where P = "\<lambda>t. namespaces (x_db t) = namespaces (x_db s1) \<and> x_namespaceId t = x_namespaceId s1 \<and>
          x_liveFileByteDelta t = x_liveFileByteDelta s1 \<and> x_trashByteDelta t = x_trashByteDelta s1 \<and>
          x_snapshotByteDelta t = x_snapshotByteDelta s1"])
        (auto simp: applyFolderDelta_def Let_def monad_simps split: prod.splits option.splits if_splits)
    with s1 show ?thesis by simp
  qed
  then show "findNamespace (x_namespaceId s) (namespaces (x_db t)) = Some ?z"
    "0 < x_liveNodeDelta s \<Longrightarrow> ns_liveNodeCount z + x_liveNodeDelta s \<le>
      effectiveLimit (ns_maxLiveNodes z) (env_maxLiveNodes env) (env_defaultMaxLiveNodes env)"
    "x_namespaceId t = x_namespaceId s" "x_liveFileByteDelta t = x_liveFileByteDelta s"
    "x_trashByteDelta t = x_trashByteDelta s" "x_snapshotByteDelta t = x_snapshotByteDelta s" by simp_all
qed

lemma commit_enforces:
  assumes run: "commitMutation env v (\<lambda>_. ret ()) s = (Inr r, t)"
    and z: "findNamespace (x_namespaceId s) (namespaces (x_db s)) = Some z"
  obtains z' where "findNamespace (x_namespaceId s) (namespaces (x_db t)) = Some z'"
    "ns_liveNodeCount z' = ns_liveNodeCount z + x_liveNodeDelta s"
    "0 < x_liveNodeDelta s \<Longrightarrow> ns_liveNodeCount z' \<le> effectiveLimit (ns_maxLiveNodes z') (env_maxLiveNodes env) (env_defaultMaxLiveNodes env)"
    "0 < enforcedGrowth s z \<Longrightarrow> \<exists>limit. quotaOf env z' = Inr limit \<and> enforcedBytes z' \<le> limit"
proof -
  from run obtain s1 s2 where a: "applyNodeCounters env s = (Inr (), s1)" and b: "applyLogicalByteQuota env s1 = (Inr (), s2)"
    and t: "namespaces (x_db t) = namespaces (x_db s2)" by (rule commitMutation_steps)
  let ?z = "z\<lparr> ns_liveNodeCount := ns_liveNodeCount z + x_liveNodeDelta s \<rparr>"
  note c = applyNodeCounters_namespace [OF a z]
  have z1: "findNamespace (x_namespaceId s1) (namespaces (x_db s1)) = Some ?z" using c(1,3) by simp
  have g: "enforcedGrowth s1 ?z = enforcedGrowth s z" by (simp add: enforcedGrowth_def c)
  have row: "\<exists>z'. findNamespace (x_namespaceId s) (namespaces (x_db s2)) = Some z' \<and> ns_liveNodeCount z' = ns_liveNodeCount ?z \<and>
      ns_maxLiveNodes z' = ns_maxLiveNodes z"
    using b z1 c(3) by (auto simp: applyLogicalByteQuota_def Let_def monad_simps findNamespace_update split: if_splits)
  then obtain z' where z': "findNamespace (x_namespaceId s) (namespaces (x_db s2)) = Some z'" "ns_liveNodeCount z' = ns_liveNodeCount ?z"
    "ns_maxLiveNodes z' = ns_maxLiveNodes z" by blast
  have "\<exists>limit. quotaOf env z' = Inr limit \<and> enforcedBytes z' \<le> limit" if "0 < enforcedGrowth s z"
    using applyLogicalByteQuota_enforces [OF b z1] that g z'(1) c(3) by auto
  with z' c(2) t show ?thesis by (intro that [of z']) simp_all
qed

section \<open>The change feed\<close>

text \<open>The events of one transaction take the next sequence numbers without a gap, in one operation.\<close>

lemma feedEvents_sequence:
  "map v_sequence (feedEvents env ns first op cs) = map (\<lambda>k. first + int k + 1) [0..<length cs]"
  by (rule nth_equalityI) (simp_all add: feedEvents_def nth_enumerate_eq)

lemma append_sequence:
  assumes run: "appendChangeFeedEvents env ns before ids s = (Inr u, t)" and st: "readChangeFeedState ns (feedStates (x_db s)) = Some st"
  shows "\<exists>new st'. events (x_db t) = events (x_db s) @ new \<and> readChangeFeedState ns (feedStates (x_db t)) = Some st' \<and>
    map v_sequence new = map (\<lambda>k. f_lastSequence st + int k + 1) [0..<length new] \<and>
    f_lastSequence st' = f_lastSequence st + int (length new) \<and>
    (\<forall>e\<in>set new. v_namespaceId e = ns \<and> v_operationCount e = length new) \<and>
    (\<forall>e\<in>set new. \<forall>e'\<in>set new. v_operationId e = v_operationId e')"
proof -
  have upd: "readChangeFeedState ns (updateRows (\<lambda>f. f_namespaceId f = ns) g tbl) = map_option g (readChangeFeedState ns tbl)"
    if "\<And>f. f_namespaceId (g f) = f_namespaceId f" for g tbl
    using that by (induction tbl) (auto simp: readChangeFeedState_def findRow_def updateRows_def)
  from run st consider "t = s" | op changes where "x_db t = (x_db s)\<lparr> events := events (x_db s) @
         feedEvents env ns (f_lastSequence st) op (sortBy changeCmp changes),
       feedStates := updateRows (\<lambda>f. f_namespaceId f = ns) (\<lambda>f. f\<lparr> f_lastSequence := f_lastSequence st + int (length changes) \<rparr>)
         (feedStates (x_db s)) \<rparr>"
    by (fastforce simp: appendChangeFeedEvents_def Let_def monad_simps split: if_splits)
  then show ?thesis
  proof cases
    case 1
    with st show ?thesis by (intro exI [of _ "[]"]) simp
  next
    case t: (2 op changes)
    have len: "length (feedEvents env ns (f_lastSequence st) op (sortBy changeCmp changes)) = length changes"
      by (simp add: feedEvents_def)
    show ?thesis
      by (intro exI [of _ "feedEvents env ns (f_lastSequence st) op (sortBy changeCmp changes)"]
          exI [of _ "st\<lparr> f_lastSequence := f_lastSequence st + int (length changes) \<rparr>"])
        (auto simp: t upd st len feedEvents_sequence, auto simp: feedEvents_def)
  qed
qed

end
