(* ===== verification/Dormant.thy ===== *)
theory Dormant
  imports History Enforcement
begin

text \<open>
  A Blob without references never gains one. The collector reads the Blobs whose count is zero
  without a lock, deletes their objects and then their rows, while requests go on; it is right to do
  so because no mutation revives a count that has reached zero. The statements that raise a count
  are \<open>createBlob\<close>, which makes a row of its own, \<open>incrementLiveReferenceCount\<close>, which asks for a
  positive count, and the plain increment of a copy, whose Blobs belong to live nodes.
\<close>

definition dormant :: "uuid \<Rightarrow> blob list \<Rightarrow> bool" where
  "dormant i bl \<longleftrightarrow> i \<in> b_id ` set bl \<and> (\<forall>b\<in>set bl. b_id b = i \<longrightarrow> b_referenceCount b = 0)"

abbreviation rests :: "tx \<Rightarrow> tx \<Rightarrow> bool" where
  "rests s t \<equiv> \<forall>i. dormant i (t_blobs s) \<longrightarrow> dormant i (t_blobs t)"

lemma dormant_insert: "b_id b \<notin> b_id ` set bl \<Longrightarrow> dormant i bl \<Longrightarrow> dormant i (insertRow b bl)"
  by (auto simp: dormant_def)

lemma dormant_update:
  assumes "dormant i bl" and "\<And>b. b_id (f b) = b_id b"
    and "\<And>b. b \<in> set bl \<Longrightarrow> b_id b = i \<Longrightarrow> P b \<Longrightarrow> b_referenceCount (f b) = 0"
  shows "dormant i (updateRows P f bl)"
proof -
  have "b_id ` set (updateRows P f bl) = b_id ` set bl"
    unfolding updateRows_def set_map image_image using assms(2) by (intro image_cong) auto
  then show ?thesis using assms by (auto simp: dormant_def set_updateRows)
qed

lemma dormantD: "dormant i bl \<Longrightarrow> b \<in> set bl \<Longrightarrow> b_id b = i \<Longrightarrow> b_referenceCount b = 0"
  by (simp add: dormant_def)

lemma dormant_release:
  "\<forall>b\<in>set bl. b_id b = i \<longrightarrow> \<not> b_referenceCount b < c \<Longrightarrow> dormant i bl \<Longrightarrow> b \<in> set bl \<Longrightarrow> b_id b = i \<Longrightarrow> 0 \<le> c \<Longrightarrow>
    b_referenceCount b = c"
  by (force simp: dormant_def)

interpretation rest: passing rests
proof unfold_locales
  show "passes rests (createBlob env ns d)" for env ns d
    by (rule passesI)
      (auto simp: createBlob_def freshId_def setBlobs_def bind_def gets_def ret_def modify_def throw_def andThen_def Let_def
        split: if_splits intro!: dormant_insert)
  show "passes rests (incrementLiveReferenceCount ns b c)" for ns b c
    by (rule passesI)
      (auto simp: incrementLiveReferenceCount_def setBlobs_def bind_def gets_def ret_def modify_def throw_def throwIf_def
        andThen_def split: if_splits intro!: dormant_update dest: dormantD)
  show "passes rests (decrementReferenceCount env b c)" if "0 \<le> c" for c env b
    using that
    by (intro passesI)
      (auto simp: decrementReferenceCount_def decrementBlob_def setBlobs_def bind_def gets_def modify_def throw_def
        split: if_splits intro!: dormant_update dest: dormant_release)
qed auto

text \<open>No row of a database whose counts are exact names a dormant Blob.\<close>

lemma dormant_unused:
  assumes "ledger env s 0 0 (\<lambda>_. 0) (\<lambda>_. 0)" and "dormant i (t_blobs s)" and "n \<in> set (t_nodes s)"
  shows "n_blobId n \<noteq> Some i"
proof
  assume n: "n_blobId n = Some i"
  from assms(2) obtain b where b: "b \<in> set (t_blobs s)" "b_id b = i" "b_referenceCount b = 0" by (auto simp: dormant_def)
  have "b_referenceCount b = refs i (x_db s)" using assms(1) b by (auto simp: ledger_def refsOk_def)
  moreover have "0 < weigh (nodeRef i) (t_nodes s)" using n assms(3) by (intro weigh_pos [of n]) (auto simp: holds_def)
  moreover have "0 \<le> weigh (\<lambda>e. holds i (e_blobId e)) (trashEntries (x_db s))"
    "0 \<le> weigh (\<lambda>q. holds i (q_blobId q)) (snapshotEntries (x_db s))" by (auto intro!: weigh_nonneg simp: holds_def)
  ultimately show False using b(3) by (simp add: refs_def)
qed

section \<open>Copies\<close>

lemma increment_rests:
  assumes "i \<noteq> b" and "incrementReferenceCount b c s = (r, t)" and "dormant i (t_blobs s)"
  shows "dormant i (t_blobs t)"
  using assms by (auto simp: incrementReferenceCount_def intro!: dormant_update)

lemma copyChild_blobs:
  assumes "copyChild env ns ex p (queue, rows) child s = (Inr (queue', rows'), t)"
  shows "n_blobId ` set rows' = insert (n_blobId child) (n_blobId ` set rows)"
  using assms unfolding copyChild_def case_prod_conv
  by (elim monad_elims) (simp add: newNode_def)

lemma copyChildren_blobs:
  assumes "foldProg (copyChild env ns ex p) (queue, rows) kids s = (Inr (queue', rows'), t)"
  shows "n_blobId ` set rows' = n_blobId ` set kids \<union> n_blobId ` set rows"
  using assms
proof (induction kids arbitrary: queue rows s)
  case Nil
  then show ?case by (simp add: monad_simps)
next
  case (Cons child kids)
  from Cons.prems obtain q1 r1 s1 where c: "copyChild env ns ex p (queue, rows) child s = (Inr (q1, r1), s1)"
    and rest: "foldProg (copyChild env ns ex p) (q1, r1) kids s1 = (Inr (queue', rows'), t)"
    by (auto simp: monad_simps)
  from Cons.IH [OF rest] copyChild_blobs [OF c] show ?case by auto
qed

lemma copyLoop_blobs:
  assumes "copyLoop env ns ex kids fuel queue rows s = (Inr rows', t)" and "\<And>p. set (kids p) \<subseteq> K"
  shows "n_blobId ` set rows' \<subseteq> n_blobId ` K \<union> n_blobId ` set rows"
  using assms
proof (induction env ns ex kids fuel queue rows arbitrary: s rule: copyLoop.induct)
  case (3 env ns ex kids fuel old new queue rows)
  from "3.prems"(1) obtain q1 r1 s1 where f: "foldProg (copyChild env ns ex new) (queue, rows) (kids old) s = (Inr (q1, r1), s1)"
    and rest: "copyLoop env ns ex kids fuel q1 r1 s1 = (Inr rows', t)" by (auto simp: monad_simps)
  have "n_blobId ` set rows' \<subseteq> n_blobId ` K \<union> n_blobId ` set r1" 
    by (rule "3.IH" [OF rest "3.prems"(2)])
  moreover have "n_blobId ` set (kids old) \<subseteq> n_blobId ` K" by (rule image_mono [OF "3.prems"(2)])
  ultimately show ?case unfolding copyChildren_blobs [OF f] by auto
qed (auto simp: monad_simps)

lemma cteRows_within:
  assumes "set queue \<subseteq> K" and "\<And>r. set (step r) \<subseteq> K"
  shows "set (cteRows step k queue) \<subseteq> K"
  using assms by (induction step k queue rule: cteRows.induct) auto

lemma bookCopies_rests:
  assumes run: "bookCopies rows s = (Inr u, t)" and d: "dormant i (t_blobs s)" and free: "Some i \<notin> n_blobId ` set rows"
  shows "dormant i (t_blobs t)"
proof -
  let ?g = "\<lambda>r. if n_type r = FILE then n_blobId r else None"
  from run obtain u1 s1 where before: "(andThen (forEach rows (\<lambda>r. markChanged (n_id r) False))
      (andThen (recordLiveNodeDelta (int (length rows) + 1))
      (forEach (tally (List.map_filter (\<lambda>r. if n_type r = FILE then n_parentId r else None) rows))
        (\<lambda>(p, c). recordFolderFileDelta p c)))) s = (Inr u1, s1)"
    and loop: "forEach (sortBy byKey (tally (List.map_filter ?g rows))) (\<lambda>(b, c). incrementReferenceCount b c) s1 = (Inr u, t)"
    unfolding bookCopies_def by (auto simp: monad_simps)
  have "passes rests (andThen (forEach rows (\<lambda>r. markChanged (n_id r) False))
      (andThen (recordLiveNodeDelta (int (length rows) + 1))
      (forEach (tally (List.map_filter (\<lambda>r. if n_type r = FILE then n_parentId r else None) rows))
        (\<lambda>(p, c). recordFolderFileDelta p c))))" by (auto intro!: passing_rules)
  from passesD [OF this before] d have s1: "dormant i (t_blobs s1)" by simp
  show ?thesis
  proof (rule forEach_invariant [where P = "\<lambda>s. dormant i (t_blobs s)", OF _ loop s1])
    fix x s t v
    assume x: "x \<in> set (sortBy byKey (tally (List.map_filter ?g rows)))" and r: "(\<lambda>(b, c). incrementReferenceCount b c) x s = (Inr v, t)"
      and ds: "dormant i (t_blobs s)"
    have "fst x \<in> set (List.map_filter ?g rows)" using x tally_keys by fastforce
    then have "Some (fst x) \<in> n_blobId ` set rows" by (force simp: List.map_filter_def split: if_splits)
    with free have "i \<noteq> fst x" by auto
    with r ds show "dormant i (t_blobs t)" by (cases x) (auto intro: increment_rests)
  qed
qed

lemma copyDirectory_rests:
  assumes run: "copyDirectory env ns pl limit ex s = (Inr r, t)" and b: "books env s" and d: "dormant i (t_blobs s)"
  shows "dormant i (t_blobs t)"
proof -
  let ?src = "n_id (pl_source pl)"
  define subtree where "subtree = cteRows (\<lambda>r. childrenOf ns (t_nodes s) (n_id r)) (nat (limit + 1))
              (case findNode ns ?src (t_nodes s) of None \<Rightarrow> [] | Some r \<Rightarrow> [r])"
  from run obtain root s1 s2 s3 s4 rows u1 u2 u3 where
    c: "createNode env ns (pl_parentId pl) DIRECTORY (pl_name pl) None None None None s = (Inr root, s1)"
    and m: "markChanged (n_id root) False s1 = (Inr u1, s2)"
    and loop: "copyLoop env ns ex (\<lambda>p. filter (\<lambda>r. n_id r \<noteq> ?src \<and> n_parentId r = Some p) subtree)
        (Suc (length subtree)) [(?src, n_id root)] [] s2 = (Inr rows, s3)"
    and ins: "forEach rows insertNode s3 = (Inr u2, s4)" and book: "bookCopies rows s4 = (Inr u3, t)"
    unfolding copyDirectory_def Let_def subtree_def by (elim monad_elims) blast
  have "set subtree \<subseteq> set (t_nodes s)"
    unfolding subtree_def
    by (rule cteRows_within) (auto simp: childrenOf_def findNode_def dest: findRow_SomeD [OF sym] split: option.splits)
  moreover have "n_blobId ` set rows \<subseteq> n_blobId ` set subtree \<union> n_blobId ` set ([] :: node list)"
    by (rule copyLoop_blobs [OF loop]) auto
  ultimately have free: "Some i \<notin> n_blobId ` set rows" using dormant_unused [OF b d] by fastforce
  have "passes rests (forEach rows insertNode)" by (auto intro!: passing_rules)
  note p = passesD [OF this ins] passesD [OF rest.passes_copyLoop loop] passesD [OF rest.passes_marks(2) m]
    passesD [OF rest.passes_rows(3) c]
  then have "dormant i (t_blobs s4)" using d by blast
  from bookCopies_rests [OF book this free] show ?thesis .
qed

lemma copyNode_rests:
  assumes run: "copyNode env ns rootId src dst parents limit exact ex s = (Inr r, t)" and ready: "ready env ns rootId s"
    and d: "dormant i (t_blobs s)"
  shows "dormant i (t_blobs t)"
proof -
  from ready obtain root where b: "books env s" and ns: "ns = x_namespaceId s"
    and root: "root \<in> set (t_nodes s)" "n_id root = rootId" "n_type root = DIRECTORY" by (rule readyE)
  from run obtain pl s1 where place: "resolveDestinationPlacement env ns rootId src dst parents False exact s = (Inr pl, s1)"
    and go: "(if n_type (pl_source pl) = FILE
     then (case n_blobId (pl_source pl) of
             None \<Rightarrow> throw (InternalError ''FILE node without blobId'')
           | Some b \<Rightarrow>
               andThen (incrementReferenceCount b 1)
               (bind (addFile env ns (pl_parentId pl) (pl_name pl) b (n_size (pl_source pl)) (n_mimeType (pl_source pl)) ex)
                 (\<lambda>created. ret (toRecord created, joinSegments (pl_segments pl)))))
     else copyDirectory env ns pl limit ex) s1 = (Inr r, t)"
    unfolding copyNode_def Let_def by (elim bindE) blast
  note sp = placement_spec [OF place b ns root]
  have d1: "dormant i (t_blobs s1)" using passesD [OF rest.passes_placement place] d by blast
  show ?thesis
  proof (cases "n_type (pl_source pl)")
    case DIRECTORY
    with go have "copyDirectory env ns pl limit ex s1 = (Inr r, t)" by simp
    from copyDirectory_rests [OF this sp(1) d1] show ?thesis .
  next
    case FILE
    with go obtain bl u s2 made where src: "n_blobId (pl_source pl) = Some bl" and inc: "incrementReferenceCount bl 1 s1 = (Inr u, s2)"
      and add: "addFile env ns (pl_parentId pl) (pl_name pl) bl (n_size (pl_source pl)) (n_mimeType (pl_source pl)) ex s2 = (Inr made, t)"
      by (auto simp: monad_simps split: option.splits)
    have "i \<noteq> bl" using dormant_unused [OF sp(1) d1 sp(5)] src by auto
    from increment_rests [OF this inc d1] passesD [OF rest.passes_files(2) add] show ?thesis by blast
  qed
qed

section \<open>Requests and histories\<close>

text \<open>Work that revives no Blob when it succeeds; when it fails the transaction is rolled back.\<close>

definition calm :: "env \<Rightarrow> jstring \<Rightarrow> (store, vfs_error, 'a) prog \<Rightarrow> bool" where
  "calm env ns m \<longleftrightarrow> (\<forall>st i. sound env ns st \<longrightarrow> dormant i (blobs (fst st)) \<longrightarrow> dormant i (blobs (fst (snd (m st)))))"

lemma calm_unitP [intro]: "calm env ns m \<Longrightarrow> calm env ns (unitP m)"
  by (simp add: calm_def unitP_def snd_ret_after)

locale resting_work = balanced_work env ns rootId work for env ns rootId and work :: "'a txp" +
  assumes rests: "work s = (Inr v, t) \<Longrightarrow> ready env ns rootId s \<Longrightarrow> dormant i (t_blobs s) \<Longrightarrow> dormant i (t_blobs t)"
begin

lemma with_calm: "calm env ns (withMutation env ns rootId ai work (\<lambda>_. ret ()))"
  unfolding calm_def
proof (intro allI impI)
  fix st i assume "sound env ns st" and d: "dormant i (blobs (fst st))"
  then obtain d0 k where st: "st = (d0, k)" and c: "consistent ns d0" "freshIds env k d0" by (cases st) auto
  obtain r d' k' where run: "withMutation env ns rootId ai work (\<lambda>_. ret ()) (d0, k) = (r, (d', k'))"
    by (metis prod.collapse)
  have "dormant i (blobs d')"
  proof (cases r)
    case (Inl e)
    with run have "d' = d0" by (auto simp: withMutation_def split: sum.splits prod.splits)
    with d st show ?thesis by simp
  next
    case (Inr x)
    from run Inr obtain feed v s t where o: "openMutation ns rootId ai d0 = Inr feed"
      and w: "work (initTx ns rootId feed d0 k) = (Inr v, s)"
      and cm: "commitMutation env v (\<lambda>_. ret ()) s = (Inr x, t)" and d': "d' = x_db t"
      by (auto simp: withMutation_def bind_def split: sum.splits prod.splits)
    have "ready env ns rootId (initTx ns rootId feed d0 k)"
      using books_init [OF c] openMutation_root [OF o] by (auto simp: ready_def initTx_def)
    from rests [OF w this, of i] d st have "dormant i (t_blobs s)" by (simp add: initTx_def)
    with passesD [OF rest.passes_commit cm] d' show ?thesis by blast
  qed
  then show "dormant i (blobs (fst (snd (withMutation env ns rootId ai work (\<lambda>_. ret ()) st))))" by (simp add: st run)
qed

lemma mutate_calm: "calm env ns (mutate env ns rootId work)"
  using with_calm unfolding calm_def mutate_def case_prod_unfold snd_ret_after by blast

end

lemma resting_workI:
  assumes "balanced_work env ns rootId work" and "passes rests work"
  shows "resting_work env ns rootId work"
  using assms(1) passesD [OF assms(2)] by (simp add: resting_work_def resting_work_axioms_def)

interpretation mkdirRest: resting_work env ns rootId "ensureDirectory env ns rootId segs parents"
  for env ns rootId segs parents
  by (intro resting_workI mkdir.balanced_work_axioms rest.passes_files)

interpretation touchRest: resting_work env ns rootId "touchFile env ns rootId segs parents d"
  for env ns rootId segs parents d
  by (intro resting_workI touch.balanced_work_axioms rest.passes_content)

interpretation putRest: resting_work env ns rootId "putFileContent env ns rootId segs parents d ifMatch force ex"
  for env ns rootId segs parents d ifMatch force ex
  by (intro resting_workI put.balanced_work_axioms rest.passes_put)

interpretation moveRest: resting_work env ns rootId "moveNode env ns rootId src dst parents limit exact"
  for env ns rootId src dst parents limit exact
  by (intro resting_workI move.balanced_work_axioms rest.passes_move)

interpretation removeRest: resting_work env ns rootId "removeNode env ns rootId segs recursive limit"
  for env ns rootId segs recursive limit
  by (intro resting_workI remove.balanced_work_axioms rest.passes_remove)

interpretation rmdirRest: resting_work env ns rootId "removeEmptyDirectory env ns rootId segs"
  for env ns rootId segs
  by (intro resting_workI rmdir.balanced_work_axioms rest.passes_remove)

interpretation restoreRest: resting_work env ns rootId "restoreTrashItem env ns i path"
  for env ns rootId i path
  by (intro resting_workI restore.balanced_work_axioms rest.passes_restore)

interpretation purgeRest: resting_work env ns rootId "purgeTrashItem env i"
  for env ns rootId i
  by (intro resting_workI purge.balanced_work_axioms rest.passes_restore)

interpretation expireRest: resting_work env ns rootId "expireWork env ns rootId i cutoff"
  for env ns rootId i cutoff
  by (intro resting_workI expire.balanced_work_axioms rest.passes_restore)

interpretation contentRest: resting_work env ns rootId "putConditionalContent env segs c d"
  for env ns rootId segs c d
  by (intro resting_workI putConditional.balanced_work_axioms rest.passes_conditionalContent)

interpretation restoreBlobRest: resting_work env ns rootId "restoreBlob env segs c rb"
  for env ns rootId segs c rb
  by (intro resting_workI restoreBlob.balanced_work_axioms rest.passes_conditionalContent)

interpretation copyRest: resting_work env ns rootId "copyNode env ns rootId src dst parents limit exact ex"
  for env ns rootId src dst parents limit exact ex
  by unfold_locales (rule copyNode_rests)

lemma orPrecondition_success: "orPrecondition m s = (Inr v, t) \<longleftrightarrow> m s = (Inr v, t)"
  by (auto simp: orPrecondition_def throwPrecondition_def monad_simps split: prod.splits sum.splits vfs_error.splits node_error.splits)

interpretation commandRest: resting_work env ns rootId "applyConditionalMutation env command" for env ns rootId command
proof unfold_locales
  fix s v t i
  assume run: "applyConditionalMutation env command s = (Inr v, t)" and r: "ready env ns rootId s" and d: "dormant i (t_blobs s)"
  show "dormant i (t_blobs t)"
  proof (cases "\<exists>p ss q ds tok e k. command = CopyCommand p ss q ds tok e k")
    case True
    then obtain p ss q ds tok e k where cmd: "command = CopyCommand p ss q ds tok e k" by blast
    from run obtain u s1 namespace s2 limit s3 res where
      sg: "forEach (commandSegments command) (\<lambda>segs. liftR (assertPathSegments (env_nfc env) segs)) s = (Inr u, s1)"
      and src: "conditionalSource p ss tok s1 = (Inr namespace, s2)"
      and cp: "copyNode env (x_namespaceId s2) (x_rootId s2) ss ds False limit e (map_option (\<lambda>k. env_dbNow env + k * 1000) k) s2
        = (Inr res, s3)" and t: "t = s3"
      unfolding applyConditionalMutation_def cmd
      by (auto simp: conditionalCopy_def orPrecondition_success monad_simps split: prod.splits)
    have "s1 = s" using forEach_invariant [where P = "\<lambda>x. x = s", OF _ sg] by (auto simp: monad_simps)
    moreover have "s2 = s1" using src by (auto simp: conditionalSource_def assertRevision_def monad_simps split: option.splits)
    ultimately have "s2 = s" by simp
    with r have "ready env (x_namespaceId s2) (x_rootId s2) s2" by (auto simp: ready_def)
    from copyNode_rests [OF cp this] d t \<open>s2 = s\<close> show ?thesis by simp
  next
    case False
    from passesD [OF rest.passes_command [OF False] run] d show ?thesis by blast
  qed
qed

lemmas requests_calm = mkdirRest.mutate_calm touchRest.mutate_calm putRest.mutate_calm moveRest.mutate_calm
  copyRest.mutate_calm removeRest.mutate_calm rmdirRest.mutate_calm commandRest.mutate_calm contentRest.mutate_calm
  restoreBlobRest.mutate_calm

lemma mutateAtRoot_calm:
  "(\<And>rootId. calm env ns (mutate env ns rootId work)) \<Longrightarrow> calm env ns (mutateAtRoot env ns work)"
  by (auto simp: calm_def mutateAtRoot_def split: option.split)

lemma expireNode_calm: "calm env ns (expireNode env ns i cutoff)"
  using expireRest.with_calm
  by (auto simp: calm_def expireNode_def case_prod_unfold snd_ret_after split: option.split)

lemma checkpoint_blobs: "blobs (snd (createChangeFeedCheckpoint ns rootId secret d)) = blobs d"
  by (auto simp: createChangeFeedCheckpoint_def Let_def split: sum.split option.split)

lemma serve_calm: "calm env ns (serve env ns rootId req)"
proof (cases req)
  case (CreateChangeFeedCheckpoint secret)
  then show ?thesis by (auto simp: calm_def split: prod.split) (metis checkpoint_blobs snd_conv)
next
  case (RestoreTrashItem i path)
  then show ?thesis by (simp add: calm_unitP mutateAtRoot_calm restoreRest.mutate_calm)
next
  case (PurgeTrashItem i)
  then show ?thesis by (simp add: calm_unitP mutateAtRoot_calm purgeRest.mutate_calm)
next
  case (ExpireNode i cutoff)
  then show ?thesis using expireNode_calm by auto
qed (auto intro: requests_calm)

lemma history_dormant:
  assumes "history gen ns st st'" and "env_uuid env = gen" and "sound env ns st" and "dormant i (blobs (fst st))"
  shows "dormant i (blobs (fst st'))"
  using assms
proof (induction rule: history.induct)
  case (step st' env' rootId req r st'')
  have "sound env' ns st'"
    using history_sound [OF step.hyps(1) step.prems(1,2)] sound_env [of env' env] step.hyps(2) step.prems(1) by simp
  with step.IH [OF step.prems] serve_calm [of env' ns rootId req] step.hyps(3) show ?case
    unfolding calm_def by (metis snd_conv)
qed

text \<open>Nothing names a dormant Blob, after any history.\<close>

lemma dormant_free:
  assumes "consistent ns d" and "dormant i (blobs d)"
  shows "n \<in> set (nodes d) \<Longrightarrow> n_blobId n \<noteq> Some i" and "e \<in> set (trashEntries d) \<Longrightarrow> e_blobId e \<noteq> Some i"
    and "q \<in> set (snapshotEntries d) \<Longrightarrow> q_blobId q \<noteq> Some i"
  using blob_positive [OF assms(1), of n i e q] assms(2) by (auto simp: dormant_def)

end
