(* ===== verification/Lasting.thy ===== *)
theory Lasting
  imports Dormant
begin

text \<open>
  Relations between the Blob table before and after a request. The locale \<open>lasting\<close> lifts a relation
  every statement keeps to requests, which either commit or are rolled back, and to histories. Its
  instance: the rows of the table keep their ids, owners and storage keys, new rows are added behind
  them, and no two rows share a storage key.
\<close>

locale lasting =
  fixes Q :: "blob list \<Rightarrow> blob list \<Rightarrow> bool"
  assumes passing: "passing_increments (\<lambda>s t. Q (t_blobs s) (t_blobs t))"
begin

lemmas steps = passing_increments.axioms(1) [OF passing]

lemma same: "Q bl bl"
  using passing.refl [OF steps, of "undefined\<lparr> x_db := undefined\<lparr> blobs := bl \<rparr> \<rparr>"] by simp

definition lasts :: "(store, vfs_error, 'a) prog \<Rightarrow> bool" where
  "lasts m \<longleftrightarrow> (\<forall>st. Q (blobs (fst st)) (blobs (fst (snd (m st)))))"

lemma lasts_unitP: "lasts m \<Longrightarrow> lasts (unitP m)"
  by (simp add: lasts_def unitP_def snd_ret_after)

lemma lasts_with:
  assumes "passes (\<lambda>s t. Q (t_blobs s) (t_blobs t)) work"
  shows "lasts (withMutation env ns rootId ai work (\<lambda>_. ret ()))"
proof -
  have "passes (\<lambda>s t. Q (t_blobs s) (t_blobs t)) (bind work (\<lambda>v. commitMutation env v (\<lambda>_. ret ())))"
    by (intro passing.passes_bind [OF steps] assms passing.passes_commit [OF steps])
  note p = passesD [OF this]
  show ?thesis unfolding lasts_def
  proof
    fix st :: store
    obtain d k where st: "st = (d, k)" by fastforce
    show "Q (blobs (fst st)) (blobs (fst (snd (withMutation env ns rootId ai work (\<lambda>_. ret ()) st))))"
      using p [of "initTx ns rootId _ d k"]
      by (auto simp: st withMutation_def same split: sum.split prod.split) (auto simp: initTx_def)
  qed
qed

lemma lasts_mutate:
  "passes (\<lambda>s t. Q (t_blobs s) (t_blobs t)) work \<Longrightarrow> lasts (mutate env ns rootId work)"
  using lasts_with unfolding lasts_def mutate_def case_prod_unfold snd_ret_after by blast

lemma lasts_mutateAtRoot:
  "passes (\<lambda>s t. Q (t_blobs s) (t_blobs t)) work \<Longrightarrow> lasts (mutateAtRoot env ns work)"
  using lasts_mutate [of work env ns] by (auto simp: lasts_def mutateAtRoot_def same split: option.split)

lemma lasts_expireNode: "lasts (expireNode env ns i cutoff)"
  using lasts_with [OF passing.passes_restore(3) [OF steps]]
  by (auto simp: lasts_def expireNode_def case_prod_unfold snd_ret_after same split: option.split)

lemma serve_lasts: "lasts (serve env ns rootId req)"
proof (cases req)
  case (CreateChangeFeedCheckpoint secret)
  then show ?thesis by (auto simp: lasts_def split: prod.split) (metis checkpoint_blobs same snd_conv)
next
  case (ExpireNode i cutoff)
  then show ?thesis by (simp add: lasts_unitP lasts_expireNode)
qed (auto intro!: lasts_unitP lasts_mutate lasts_mutateAtRoot passing.passes_files [OF steps] passing.passes_content [OF steps]
    passing.passes_put [OF steps] passing.passes_move [OF steps] passing_increments.passes_copy [OF passing]
    passing.passes_remove [OF steps] passing.passes_restore [OF steps] passing_increments.passes_everyCommand [OF passing]
    passing.passes_conditionalContent [OF steps])

lemma history_lasts:
  assumes "history gen ns st st'"
  shows "Q (blobs (fst st)) (blobs (fst st'))"
  using assms
proof (induction rule: history.induct)
  case (step st' env rootId req r st'')
  have "Q (blobs (fst st')) (blobs (fst st''))"
    using serve_lasts [of env ns rootId req] step.hyps(3) unfolding lasts_def by (metis snd_conv)
  then show ?case
    using step.IH passing.trans [OF steps, of "undefined\<lparr> x_db := fst st \<rparr>" "undefined\<lparr> x_db := fst st' \<rparr>" "undefined\<lparr> x_db := fst st'' \<rparr>"]
    by simp
qed (rule same)

end

section \<open>Rows stay where they are\<close>

definition identity :: "blob \<Rightarrow> uuid \<times> jstring \<times> jstring" where
  "identity b = (b_id b, b_namespaceId b, b_storageKey b)"

definition blobsGrow :: "blob list \<Rightarrow> blob list \<Rightarrow> bool" where
  "blobsGrow bl bl' \<longleftrightarrow> (\<exists>ext. map identity bl' = map identity bl @ ext) \<and>
     (distinct (map b_storageKey bl) \<longrightarrow> distinct (map b_storageKey bl'))"

lemma blobsGrow_refl: "blobsGrow bl bl"
  by (simp add: blobsGrow_def)

lemma blobsGrow_trans: "blobsGrow a b \<Longrightarrow> blobsGrow b c \<Longrightarrow> blobsGrow a c"
  by (auto simp: blobsGrow_def)

lemma blobsGrow_update:
  assumes "\<And>b. identity (f b) = identity b"
  shows "blobsGrow bl (updateRows P f bl)"
proof -
  have "map identity (updateRows P f bl) = map identity bl" using assms by (simp add: updateRows_def)
  moreover have "map b_storageKey (updateRows P f bl) = map b_storageKey bl" using assms by (simp add: updateRows_def identity_def)
  ultimately show ?thesis by (simp add: blobsGrow_def)
qed

lemma blobsGrow_insert: "\<forall>q\<in>set bl. b_storageKey q \<noteq> b_storageKey b \<Longrightarrow> blobsGrow bl (insertRow b bl)"
  by (auto simp: blobsGrow_def insertRow_def)

interpretation growing: lasting blobsGrow
proof unfold_locales
  show "blobsGrow (t_blobs s) (t_blobs s)" for s by (rule blobsGrow_refl)
  show "blobsGrow (t_blobs s) (t_blobs u)" if "blobsGrow (t_blobs s) (t_blobs t)" "blobsGrow (t_blobs t) (t_blobs u)" for s t u
    using that by (rule blobsGrow_trans)
  show "passes (\<lambda>s t. blobsGrow (t_blobs s) (t_blobs t)) (createBlob env ns d)" for env ns d
    by (rule passesI)
      (auto simp: createBlob_def freshId_def setBlobs_def bind_def gets_def ret_def modify_def throw_def andThen_def Let_def
        blobsGrow_refl split: if_splits intro!: blobsGrow_insert)
  show "passes (\<lambda>s t. blobsGrow (t_blobs s) (t_blobs t)) (incrementLiveReferenceCount ns b c)" for ns b c
    by (rule passesI)
      (auto simp: incrementLiveReferenceCount_def setBlobs_def bind_def gets_def ret_def modify_def throw_def throwIf_def
        andThen_def blobsGrow_refl identity_def split: if_splits intro!: blobsGrow_update)
  show "passes (\<lambda>s t. blobsGrow (t_blobs s) (t_blobs t)) (decrementReferenceCount env b c)" for c env b
    by (rule passesI)
      (auto simp: decrementReferenceCount_def decrementBlob_def setBlobs_def bind_def gets_def modify_def throw_def
        blobsGrow_refl identity_def split: if_splits intro!: blobsGrow_update)
  show "passes (\<lambda>s t. blobsGrow (t_blobs s) (t_blobs t)) (incrementReferenceCount b c)" for b c
    by (rule passesI) (auto simp: incrementReferenceCount_def identity_def intro!: blobsGrow_update)
qed (auto simp: blobsGrow_refl)

lemma history_rows:
  assumes "history gen ns (d, k) (d', k')" and "b \<in> set (blobs d)"
  obtains b' where "b' \<in> set (blobs d')" "b_id b' = b_id b" "b_storageKey b' = b_storageKey b"
proof -
  from growing.history_lasts [OF assms(1)] obtain ext where "map identity (blobs d') = map identity (blobs d) @ ext"
    by (auto simp: blobsGrow_def)
  from arg_cong [where f = set, OF this] have "identity ` set (blobs d) \<subseteq> identity ` set (blobs d')" by simp
  with assms(2) have "identity b \<in> identity ` set (blobs d')" by blast
  then obtain b' where "b' \<in> set (blobs d')" "identity b' = identity b" by auto
  with that show ?thesis by (auto simp: identity_def)
qed

lemma history_keys:
  "history gen ns (d, k) (d', k') \<Longrightarrow> distinct (map b_storageKey (blobs d)) \<Longrightarrow> distinct (map b_storageKey (blobs d'))"
  using growing.history_lasts by (fastforce simp: blobsGrow_def)

end
