(* ===== verification/Collector.thy ===== *)
theory Collector
  imports Keyset Lasting Uploads
begin

text \<open>
  The collection of Blobs and of objects nobody names: \<open>findOrphanBlobsPage\<close>, \<open>deleteBlobRows\<close> and
  \<open>findKnownStorageKeys\<close> of \<open>persistence/blob.repository.ts\<close>, \<open>findKnownStagingKeys\<close> of the upload
  repository, and the stages \<open>collectOrphanBlobs\<close> and \<open>collectOrphanObjects\<close> of \<open>jobs/gc.job.ts\<close>
  without the counts they report. The object store is a list of keys with the time each
  was last modified; \<open>fails\<close> tells for which keys the store rejects a delete (deleting a key that is
  absent succeeds). Its listing of a page is a parameter.
\<close>

record collector =
  co_db :: db
  co_uploads :: uploads
  co_objects :: "(jstring \<times> time) list"

section \<open>blob.repository.ts\<close>

definition BLOB_DELETE_CHUNK_SIZE :: nat where "BLOB_DELETE_CHUNK_SIZE = 500"

definition KEY_LOOKUP_CHUNK_SIZE :: nat where "KEY_LOOKUP_CHUNK_SIZE = 1000"

text \<open>\<open>OrphanBlobCursor\<close>: the place in the order of \<open>(zero_since, id)\<close>.\<close>

type_synonym orphan_cursor = "time \<times> uuid"

fun orphanLess :: "orphan_cursor \<Rightarrow> orphan_cursor \<Rightarrow> bool" where
  "orphanLess (t, i) (u, j) \<longleftrightarrow> t < u \<or> t = u \<and> js_less i j"

definition orphanKey :: "blob \<Rightarrow> orphan_cursor" where
  "orphanKey b = (the (b_zeroSince b), b_id b)"

definition orphanBefore :: "time \<Rightarrow> blob \<Rightarrow> bool" where
  "orphanBefore cutoff b \<longleftrightarrow> b_referenceCount b = 0 \<and> (case b_zeroSince b of None \<Rightarrow> False | Some z \<Rightarrow> z < cutoff)"

definition findOrphanBlobsPage :: "time \<Rightarrow> orphan_cursor option \<Rightarrow> nat \<Rightarrow> blob list \<Rightarrow> blob list" where
  "findOrphanBlobsPage cutoff after limit tbl = keysetPage orphanLess orphanKey after limit (filter (orphanBefore cutoff) tbl)"

text \<open>\<open>DELETE FROM blob\<close>: the foreign keys of nodes, trash entries and snapshot entries refuse a Blob in use.\<close>

definition blobNamed :: "db \<Rightarrow> uuid \<Rightarrow> bool" where
  "blobNamed d i \<longleftrightarrow> (\<exists>n\<in>set (nodes d). n_blobId n = Some i) \<or> (\<exists>e\<in>set (trashEntries d). e_blobId e = Some i) \<or>
     (\<exists>q\<in>set (snapshotEntries d). q_blobId q = Some i)"

definition deleteBlobs :: "uuid list \<Rightarrow> (collector, vfs_error, unit) prog" where
  "deleteBlobs ids = bind (gets co_db) (\<lambda>d.
     if \<exists>b\<in>set (blobs d). b_id b \<in> set ids \<and> blobNamed d (b_id b) then throw (DbConstraint BlobKey)
     else modify (\<lambda>w. w\<lparr> co_db := d\<lparr> blobs := deleteRows (\<lambda>b. b_id b \<in> set ids) (blobs d) \<rparr> \<rparr>))"

definition deleteBlobRows :: "bool \<Rightarrow> uuid list \<Rightarrow> (collector, vfs_error, unit) prog" where
  "deleteBlobRows sqlite ids =
     (if ids = [] then ret ()
      else if sqlite then forEach (chunks BLOB_DELETE_CHUNK_SIZE ids) deleteBlobs
      else deleteBlobs ids)"

definition findKnownStorageKeys :: "jstring list \<Rightarrow> blob list \<Rightarrow> jstring list" where
  "findKnownStorageKeys keys tbl =
     js_set (concat (map (\<lambda>chunk. map b_storageKey (filter (\<lambda>b. b_storageKey b \<in> set chunk) tbl))
       (chunks KEY_LOOKUP_CHUNK_SIZE keys)))"

text \<open>\<open>VfsUploadSessionRepository.findKnownStagingKeys\<close>: keys of parts not deleted and of tombstones.\<close>

definition findKnownStagingKeys :: "jstring list \<Rightarrow> uploads \<Rightarrow> jstring list" where
  "findKnownStagingKeys keys u =
     js_set (concat (map (\<lambda>chunk. map up_stagingKey (filter (\<lambda>p. up_state p \<noteq> PART_DELETED \<and> up_stagingKey p \<in> set chunk) (u_parts u))
         @ map sc_stagingKey (filter (\<lambda>c. sc_stagingKey c \<in> set chunk) (u_tombstones u)))
       (chunks KEY_LOOKUP_CHUNK_SIZE keys)))"

section \<open>storage-key-prefixes.ts\<close>

definition BLOB_KEY_PREFIX :: jstring where "BLOB_KEY_PREFIX = js ''blobs/''"

definition UPLOAD_STAGING_KEY_PREFIX :: jstring where "UPLOAD_STAGING_KEY_PREFIX = js ''upload-staging/''"

definition STORIX_KEY_PREFIXES :: "jstring list" where
  "STORIX_KEY_PREFIXES = [BLOB_KEY_PREFIX, UPLOAD_STAGING_KEY_PREFIX]"

definition isStorixKey :: "jstring \<Rightarrow> bool" where
  "isStorixKey key \<longleftrightarrow> (\<exists>p\<in>set STORIX_KEY_PREFIXES. js_starts_with p key)"

section \<open>gc.job.ts\<close>

definition DELETE_CONCURRENCY :: nat where "DELETE_CONCURRENCY = 20"

definition ORPHAN_BLOB_PAGE_SIZE :: nat where "ORPHAN_BLOB_PAGE_SIZE = 500"

definition ORPHAN_OBJECT_PAGE_SIZE :: nat where "ORPHAN_OBJECT_PAGE_SIZE = 1000"

text \<open>\<open>storage.delete(key)\<close> under \<open>Promise.allSettled\<close>: whether it was fulfilled.\<close>

definition deleteObject :: "(jstring \<Rightarrow> bool) \<Rightarrow> jstring \<Rightarrow> (collector, vfs_error, bool) prog" where
  "deleteObject fails key =
     (if fails key then ret False
      else andThen (modify (\<lambda>w. w\<lparr> co_objects := filter (\<lambda>(k, _). k \<noteq> key) (co_objects w) \<rparr>)) (ret True))"

definition deleteOrphanChunk :: "(jstring \<Rightarrow> bool) \<Rightarrow> uuid list \<Rightarrow> blob list \<Rightarrow> (collector, vfs_error, uuid list) prog" where
  "deleteOrphanChunk fails = foldProg (\<lambda>deletedIds b.
     bind (deleteObject fails (b_storageKey b)) (\<lambda>done. ret (if done then deletedIds @ [b_id b] else deletedIds)))"

definition collectOrphanBlobsStep :: "bool \<Rightarrow> (jstring \<Rightarrow> bool) \<Rightarrow> time \<Rightarrow> orphan_cursor option \<Rightarrow>
    (collector, vfs_error, orphan_cursor option \<times> int) prog" where
  "collectOrphanBlobsStep sqlite fails cutoff cursor =
     bind (gets (\<lambda>w. findOrphanBlobsPage cutoff cursor ORPHAN_BLOB_PAGE_SIZE (blobs (co_db w)))) (\<lambda>orphans.
     bind (foldProg (deleteOrphanChunk fails) [] (chunks DELETE_CONCURRENCY orphans)) (\<lambda>deletedIds.
     andThen (deleteBlobRows sqlite deletedIds)
     (ret (if length orphans < ORPHAN_BLOB_PAGE_SIZE then None else Some (orphanKey (last orphans)), int (length orphans)))))"

text \<open>The cursor's JSON: \<open>{ zeroSince, id }\<close>.\<close>

fun parseOrphanCursor :: "json \<Rightarrow> orphan_cursor option" where
  "parseOrphanCursor (JObject fs) =
     (case (map_of fs (js ''zeroSince''), map_of fs (js ''id'')) of
        (Some (JStamp z), Some (JString i)) \<Rightarrow> Some (z, i) | _ \<Rightarrow> None)"
| "parseOrphanCursor _ = None"

fun orphanCursorJson :: "orphan_cursor \<Rightarrow> json" where
  "orphanCursorJson (z, i) = JObject [(js ''zeroSince'', JStamp z), (js ''id'', JString i)]"

definition collectOrphanBlobs :: "stage_context \<Rightarrow> bool \<Rightarrow> (jstring \<Rightarrow> bool) \<Rightarrow> time \<Rightarrow> (collector gc, vfs_error, unit) prog" where
  "collectOrphanBlobs ctx sqlite fails cutoff =
     runCursorStage ctx (js ''orphan-blobs'') parseOrphanCursor orphanCursorJson (collectOrphanBlobsStep sqlite fails cutoff)"

section \<open>Objects without a row\<close>

text \<open>\<open>deleteKeysInChunks\<close>: how many deletes were fulfilled.\<close>

definition deleteKeysInChunks :: "(jstring \<Rightarrow> bool) \<Rightarrow> jstring list \<Rightarrow> (collector, vfs_error, int) prog" where
  "deleteKeysInChunks fails keys =
     foldProg (foldProg (\<lambda>count key. bind (deleteObject fails key) (\<lambda>done. ret (if done then count + 1 else count)))) 0
       (chunks DELETE_CONCURRENCY keys)"

text \<open>\<open>listPage\<close> of the store: the objects of the page and where the next one starts.\<close>

type_synonym object_listing = "jstring \<Rightarrow> jstring option \<Rightarrow> nat \<Rightarrow> (jstring \<times> time) list \<Rightarrow> (jstring \<times> time) list \<times> jstring option"

definition collectOrphanObjectsStep :: "object_listing \<Rightarrow> (jstring \<Rightarrow> bool) \<Rightarrow> jstring \<Rightarrow> time \<Rightarrow>
    (jstring list \<Rightarrow> collector \<Rightarrow> jstring list) \<Rightarrow> jstring option \<Rightarrow> (collector, vfs_error, jstring option \<times> int) prog" where
  "collectOrphanObjectsStep listPage fails keyPrefix cutoff findKnown startAfter =
     bind (gets (\<lambda>w. listPage keyPrefix startAfter ORPHAN_OBJECT_PAGE_SIZE (co_objects w))) (\<lambda>(items, nextAfter).
     let candidates = map fst (filter (\<lambda>(_, lastModified). lastModified < cutoff) items) in
     bind (gets (\<lambda>w. if candidates = [] then [] else findKnown candidates w)) (\<lambda>known.
     bind (deleteKeysInChunks fails (filter (\<lambda>key. key \<notin> set known) candidates)) (\<lambda>_.
     ret (nextAfter, int (length items)))))"

definition collectOrphanObjectsUnder :: "object_listing \<Rightarrow> stage_context \<Rightarrow> (jstring \<Rightarrow> bool) \<Rightarrow> jstring \<Rightarrow> jstring \<Rightarrow> time \<Rightarrow>
    (jstring list \<Rightarrow> collector \<Rightarrow> jstring list) \<Rightarrow> (collector gc, vfs_error, unit) prog" where
  "collectOrphanObjectsUnder listPage ctx fails keyPrefix stage cutoff findKnown =
     runCursorStage ctx stage (\<lambda>raw. case raw of JString k \<Rightarrow> Some k | _ \<Rightarrow> None) JString
       (collectOrphanObjectsStep listPage fails keyPrefix cutoff findKnown)"

definition collectOrphanObjects :: "object_listing \<Rightarrow> stage_context \<Rightarrow> (jstring \<Rightarrow> bool) \<Rightarrow> bool \<Rightarrow> time \<Rightarrow>
    (collector gc, vfs_error, unit) prog" where
  "collectOrphanObjects listPage ctx fails withUploads cutoff =
     andThen (collectOrphanObjectsUnder listPage ctx fails BLOB_KEY_PREFIX (js ''orphan-objects-blobs'') cutoff
       (\<lambda>keys w. findKnownStorageKeys keys (blobs (co_db w))))
     (if withUploads
      then collectOrphanObjectsUnder listPage ctx fails UPLOAD_STAGING_KEY_PREFIX (js ''orphan-objects-staging'') cutoff
        (\<lambda>keys w. findKnownStagingKeys keys (co_uploads w))
      else ret ())"

section \<open>What a page of the collector does\<close>

interpretation orphans: keyset orphanLess orphanKey
proof unfold_locales
  fix a b c :: orphan_cursor
  show "\<not> orphanLess a a" by (cases a) simp
  show "orphanLess a b \<or> a = b \<or> orphanLess b a" by (cases a; cases b) (use js_less_linear in auto)
  assume "orphanLess a b" "orphanLess b c"
  then show "orphanLess a c" by (cases a; cases b; cases c) (auto dest: js_less_trans)
qed

text \<open>Unique ids, and no Blob whose count is zero is named by a row.\<close>

definition collectable :: "collector \<Rightarrow> bool" where
  "collectable w \<longleftrightarrow> distinct (map b_id (blobs (co_db w))) \<and>
     (\<forall>b\<in>set (blobs (co_db w)). b_referenceCount b = 0 \<longrightarrow> \<not> blobNamed (co_db w) (b_id b))"

lemma consistent_collectable:
  assumes "consistent ns (co_db w)"
  shows "collectable w"
proof -
  have "distinct (map b_id (blobs (co_db w)))" using assms by (simp add: consistent_def rowsOk_def)
  moreover have "dormant (b_id b) (blobs (co_db w))" if "b \<in> set (blobs (co_db w))" "b_referenceCount b = 0" for b
    using that calculation by (auto simp: dormant_def distinct_map dest: inj_onD)
  ultimately show ?thesis using dormant_free [OF assms] by (auto simp: collectable_def blobNamed_def)
qed

definition dropBlobs :: "uuid set \<Rightarrow> collector \<Rightarrow> collector" where
  "dropBlobs I w = w\<lparr> co_db := (co_db w)\<lparr> blobs := deleteRows (\<lambda>b. b_id b \<in> I) (blobs (co_db w)) \<rparr> \<rparr>"

definition dropObjects :: "jstring set \<Rightarrow> collector \<Rightarrow> collector" where
  "dropObjects K w = w\<lparr> co_objects := filter (\<lambda>x. fst x \<notin> K) (co_objects w) \<rparr>"

lemma dropBlobs_simps [simp]:
  "blobs (co_db (dropBlobs I w)) = deleteRows (\<lambda>b. b_id b \<in> I) (blobs (co_db w))"
  "nodes (co_db (dropBlobs I w)) = nodes (co_db w)" "trashEntries (co_db (dropBlobs I w)) = trashEntries (co_db w)"
  "snapshotEntries (co_db (dropBlobs I w)) = snapshotEntries (co_db w)" "co_objects (dropBlobs I w) = co_objects w"
  "co_db (dropObjects K w) = co_db w" "co_objects (dropObjects K w) = filter (\<lambda>x. fst x \<notin> K) (co_objects w)"
  by (simp_all add: dropBlobs_def dropObjects_def)

lemma dropBlobs_comp: "dropBlobs J (dropBlobs I w) = dropBlobs (I \<union> J) w"
  by (simp add: dropBlobs_def deleteRows_def)

lemma dropObjects_comp: "dropObjects J (dropObjects I w) = dropObjects (I \<union> J) w"
  by (simp add: dropObjects_def)

lemma dropBlobs_none [simp]: "dropBlobs {} w = w" "dropObjects {} w = w"
  by (simp_all add: dropBlobs_def dropObjects_def deleteRows_def)

lemma blobNamed_drop [simp]: "blobNamed (co_db (dropBlobs I w)) i = blobNamed (co_db w) i"
  by (simp add: blobNamed_def)

lemma deleteBlobs_run:
  assumes "\<forall>b\<in>set (blobs (co_db w)). b_id b \<in> set ids \<longrightarrow> \<not> blobNamed (co_db w) (b_id b)"
  shows "deleteBlobs ids w = (Inr (), dropBlobs (set ids) w)"
  using assms by (auto simp: deleteBlobs_def bind_def gets_def modify_def dropBlobs_def throw_def)

lemma deleteBlobs_chunks:
  assumes "\<forall>b\<in>set (blobs (co_db w)). b_id b \<in> set (concat css) \<longrightarrow> \<not> blobNamed (co_db w) (b_id b)"
  shows "forEach css deleteBlobs w = (Inr (), dropBlobs (set (concat css)) w)"
  using assms
proof (induction css arbitrary: w)
  case (Cons ids css)
  then have "deleteBlobs ids w = (Inr (), dropBlobs (set ids) w)" by (intro deleteBlobs_run) auto
  moreover have "forEach css deleteBlobs (dropBlobs (set ids) w) = (Inr (), dropBlobs (set (concat css)) (dropBlobs (set ids) w))"
    using Cons.prems by (intro Cons.IH) auto
  ultimately show ?case by (simp add: andThen_def bind_def dropBlobs_comp)
qed (simp add: ret_def)

text \<open>The two drivers delete the same rows.\<close>

lemma deleteBlobRows_run:
  assumes "\<forall>b\<in>set (blobs (co_db w)). b_id b \<in> set ids \<longrightarrow> \<not> blobNamed (co_db w) (b_id b)"
  shows "deleteBlobRows sqlite ids w = (Inr (), dropBlobs (set ids) w)"
  using assms deleteBlobs_chunks [of w "chunks BLOB_DELETE_CHUNK_SIZE ids"] deleteBlobs_run [of w ids]
  by (simp add: deleteBlobRows_def concat_chunks BLOB_DELETE_CHUNK_SIZE_def ret_def)

lemma deleteOrphanChunk_run:
  "deleteOrphanChunk fails ids page w = (Inr (ids @ map b_id (filter (\<lambda>b. \<not> fails (b_storageKey b)) page)),
     dropObjects (b_storageKey ` {b \<in> set page. \<not> fails (b_storageKey b)}) w)"
proof (induction page arbitrary: ids w)
  case (Cons b page)
  let ?good = "{b \<in> set page. \<not> fails (b_storageKey b)}"
  show ?case
  proof (cases "fails (b_storageKey b)")
    case True
    then have "{x \<in> set (b # page). \<not> fails (b_storageKey x)} = ?good" by auto
    with True Cons [of ids w] show ?thesis
      by (simp add: deleteOrphanChunk_def bind_def deleteObject_def ret_def)
  next
    case False
    let ?w = "dropObjects {b_storageKey b} w"
    have w: "w\<lparr> co_objects := filter (\<lambda>(k, _). k \<noteq> b_storageKey b) (co_objects w) \<rparr> = ?w"
      by (simp add: dropObjects_def case_prod_unfold)
    have "{x \<in> set (b # page). \<not> fails (b_storageKey x)} = insert b ?good" using False by auto
    then have "dropObjects (b_storageKey ` ?good) ?w = dropObjects (b_storageKey ` {x \<in> set (b # page). \<not> fails (b_storageKey x)}) w"
      by (simp add: dropObjects_comp)
    with False Cons [of "ids @ [b_id b]" ?w] show ?thesis
      by (simp add: deleteOrphanChunk_def bind_def deleteObject_def ret_def andThen_def modify_def w)
  qed
qed (simp add: deleteOrphanChunk_def ret_def)

lemma deleteOrphans_run:
  "foldProg (deleteOrphanChunk fails) ids css w = (Inr (ids @ map b_id (filter (\<lambda>b. \<not> fails (b_storageKey b)) (concat css))),
     dropObjects (b_storageKey ` {b \<in> set (concat css). \<not> fails (b_storageKey b)}) w)"
proof (induction css arbitrary: ids w)
  case (Cons page css)
  have "b_storageKey ` {b \<in> set page. \<not> fails (b_storageKey b)} \<union> b_storageKey ` {b \<in> set (concat css). \<not> fails (b_storageKey b)}
    = b_storageKey ` {b \<in> set (concat (page # css)). \<not> fails (b_storageKey b)}" by auto
  with Cons show ?case by (simp add: deleteOrphanChunk_run bind_def dropObjects_comp)
qed (simp add: ret_def)

text \<open>The effect of a page: the objects that could be deleted are gone, and so are their rows.\<close>

definition collected :: "(jstring \<Rightarrow> bool) \<Rightarrow> blob list \<Rightarrow> collector \<Rightarrow> collector" where
  "collected fails page w = dropBlobs (b_id ` {b \<in> set page. \<not> fails (b_storageKey b)})
     (dropObjects (b_storageKey ` {b \<in> set page. \<not> fails (b_storageKey b)}) w)"

lemma collected_comp: "collected fails p (collected fails q w) = collected fails (q @ p) w"
proof -
  have "{b \<in> set (q @ p). \<not> fails (b_storageKey b)} = {b \<in> set q. \<not> fails (b_storageKey b)} \<union> {b \<in> set p. \<not> fails (b_storageKey b)}"
    by auto
  moreover have "dropObjects K (dropBlobs I u) = dropBlobs I (dropObjects K u)" for K I u
    by (simp add: dropObjects_def dropBlobs_def)
  ultimately show ?thesis by (simp add: collected_def dropBlobs_comp dropObjects_comp image_Un)
qed

lemma collected_none: "collected fails [] w = w"
  by (simp add: collected_def)

lemma collected_pages: "foldl (\<lambda>w page. collected fails page w) w pages = collected fails (concat pages) w"
  by (induction pages arbitrary: w) (simp_all add: collected_none collected_comp)

lemma collected_ok:
  assumes "collectable w"
  shows "collectable (collected fails page w)"
  using assms distinct_map_filter [of b_id "blobs (co_db w)"]
  by (auto simp: collectable_def collected_def deleteRows_def blobNamed_def)

lemma collected_blobs:
  assumes "collectable w" and "set page \<subseteq> set (blobs (co_db w))"
  shows "blobs (co_db (collected fails page w)) = filter (\<lambda>b. \<not> (b \<in> set page \<and> \<not> fails (b_storageKey b))) (blobs (co_db w))"
proof -
  have inj: "inj_on b_id (set (blobs (co_db w)))" using assms(1) by (simp add: collectable_def distinct_map)
  have "b_id b \<in> b_id ` {b \<in> set page. \<not> fails (b_storageKey b)} \<longleftrightarrow> b \<in> set page \<and> \<not> fails (b_storageKey b)"
    if "b \<in> set (blobs (co_db w))" for b
    using that assms(2) inj by (auto dest: inj_onD)
  then show ?thesis by (auto simp: collected_def deleteRows_def intro!: filter_cong)
qed

interpretation orphanStage: keyset_stage orphanLess orphanKey "collectOrphanBlobsStep sqlite fails cutoff"
    "\<lambda>w. blobs (co_db w)" "orphanBefore cutoff" "collected fails" ORPHAN_BLOB_PAGE_SIZE collectable
  for sqlite fails cutoff
proof unfold_locales
  show "0 < ORPHAN_BLOB_PAGE_SIZE" by (simp add: ORPHAN_BLOB_PAGE_SIZE_def)
  fix w page c
  assume ok: "collectable w"
  have "distinct (map b_id (filter (orphanBefore cutoff) (blobs (co_db w))))"
    using ok by (intro distinct_map_filter) (simp add: collectable_def)
  then show "distinct (map orphanKey (filter (orphanBefore cutoff) (blobs (co_db w))))"
    by (auto simp: distinct_map orphanKey_def inj_on_def)
  show "filter (\<lambda>b. b \<notin> set page) (blobs (co_db (collected fails page w))) = filter (\<lambda>b. b \<notin> set page) (blobs (co_db w))"
    if "set page \<subseteq> set (blobs (co_db w))"
    unfolding collected_blobs [OF ok that] filter_filter by (rule filter_cong) auto
  assume page: "page = keysetPage orphanLess orphanKey c ORPHAN_BLOB_PAGE_SIZE (filter (orphanBefore cutoff) (blobs (co_db w)))"
  have sub: "b \<in> set (blobs (co_db w)) \<and> orphanBefore cutoff b" if "b \<in> set page" for b
    using orphans.page_in that unfolding page by fastforce
  let ?good = "filter (\<lambda>b. \<not> fails (b_storageKey b)) page"
  let ?w = "dropObjects (b_storageKey ` {b \<in> set page. \<not> fails (b_storageKey b)}) w"
  have "concat (chunks DELETE_CONCURRENCY page) = page" by (rule concat_chunks) (simp add: DELETE_CONCURRENCY_def)
  then have del: "foldProg (deleteOrphanChunk fails) [] (chunks DELETE_CONCURRENCY page) w = (Inr (map b_id ?good), ?w)"
    by (simp add: deleteOrphans_run)
  have inj: "inj_on b_id (set (blobs (co_db w)))" using ok by (simp add: collectable_def distinct_map)
  have "\<not> blobNamed (co_db w) (b_id b)" if "b \<in> set (blobs (co_db w))" "b_id b \<in> set (map b_id ?good)" for b
  proof -
    from that(2) obtain q where q: "q \<in> set page" "b_id q = b_id b" by auto
    then have "b = q" using inj that(1) sub [OF q(1)] by (auto dest: inj_onD)
    with sub [OF q(1)] ok show ?thesis by (auto simp: collectable_def orphanBefore_def)
  qed
  then have "deleteBlobRows sqlite (map b_id ?good) ?w = (Inr (), dropBlobs (set (map b_id ?good)) ?w)"
    by (intro deleteBlobRows_run) simp
  then have "deleteBlobRows sqlite (map b_id ?good) ?w = (Inr (), collected fails page w)" by (simp add: collected_def)
  then show "collectOrphanBlobsStep sqlite fails cutoff c w = (Inr (if length page < ORPHAN_BLOB_PAGE_SIZE then None
      else Some (orphanKey (last page)), int (length page)), collected fails page w) \<and> collectable (collected fails page w)"
    using collected_ok [OF ok]
    by (simp add: collectOrphanBlobsStep_def findOrphanBlobsPage_def bind_def gets_def page [symmetric] del andThen_def ret_def)
qed

section \<open>The collector as a whole\<close>

lemma parse_orphanCursor: "parseOrphanCursor (orphanCursorJson c) = Some c"
proof (cases c)
  case (Pair z i)
  have "js ''zeroSince'' \<noteq> js ''id''" by (simp add: js_def)
  with Pair show ?thesis by simp
qed

text \<open>
  Run after run, whatever the budget, the stage reaches the end, and then exactly the orphans whose
  objects could be deleted are gone, rows and objects.
\<close>

lemma collectOrphanBlobs_completes:
  assumes "collectable (g_world s)" and "cx_cursors ctx" and "map_of (g_cursors s) (js ''orphan-blobs'') = None"
  shows "\<exists>m t. 0 < m \<and> runs m (collectOrphanBlobs ctx sqlite fails cutoff) s = (Inr (), t) \<and>
    g_world t = collected fails (filter (orphanBefore cutoff) (blobs (co_db (g_world s)))) (g_world s)"
proof -
  let ?step = "collectOrphanBlobsStep sqlite fails cutoff" and ?w = "g_world s"
  obtain n pages where sw: "sweeps ?step None ?w n (collected fails (concat pages) ?w)"
    and all: "concat pages = orphanStage.candidates cutoff None ?w"
    by (rule orphanStage.sweep_visits [OF assms(1), of sqlite fails cutoff None]) (auto simp: collected_pages)
  have "set (concat pages) = set (filter (orphanBefore cutoff) (blobs (co_db ?w)))"
    unfolding all orphanStage.candidates_def by simp
  then have same: "collected fails (concat pages) ?w = collected fails (filter (orphanBefore cutoff) (blobs (co_db ?w))) ?w"
    by (simp add: collected_def)
  have "position parseOrphanCursor (js ''orphan-blobs'') s = None" using assms(3) by (simp add: position_def)
  with sw have "sweeps ?step (position parseOrphanCursor (js ''orphan-blobs'') s) ?w n (collected fails (concat pages) ?w)" by simp
  from stage_completes [OF this assms(2) _ parse_orphanCursor] show ?thesis
    unfolding collectOrphanBlobs_def same by (auto simp: js_def)
qed

section \<open>The collector among requests\<close>

lemma page_dormant:
  assumes "consistent ns d" and "b \<in> set (findOrphanBlobsPage cutoff after limit (blobs d))"
  shows "dormant (b_id b) (blobs d)" and "b \<in> set (blobs d)"
proof -
  have "b \<in> set (filter (orphanBefore cutoff) (blobs d))"
    using assms(2) orphans.page_in unfolding findOrphanBlobsPage_def by blast
  then show b: "b \<in> set (blobs d)" by simp
  moreover have "distinct (map b_id (blobs d))" using assms(1) by (simp add: consistent_def rowsOk_def)
  ultimately show "dormant (b_id b) (blobs d)"
    using \<open>b \<in> set (filter (orphanBefore cutoff) (blobs d))\<close>
    by (auto simp: dormant_def orphanBefore_def distinct_map dest: inj_onD)
qed

text \<open>Deleting rows nobody names keeps the books.\<close>

lemma consistent_dropBlobs:
  assumes c: "consistent ns (co_db w)" and free: "\<forall>i\<in>I. \<not> blobNamed (co_db w) i"
  shows "consistent ns (co_db (dropBlobs I w))"
proof -
  let ?d = "co_db w" and ?bl = "deleteRows (\<lambda>b. b_id b \<in> I) (blobs (co_db w))"
  have rows: "rowsOk ?d" using c by (simp add: consistent_def)
  have v: "validNodes (nodes ?d) ?bl"
    unfolding validNodes_def
  proof (intro conjI ballI impI)
    fix r assume r: "r \<in> set (nodes ?d)"
    have "blobOk r (blobs ?d)" using rows r by (simp add: rowsOk_def validNodes_def)
    moreover have "n_blobId r \<noteq> Some i" if "i \<in> I" for i using free that r by (auto simp: blobNamed_def)
    ultimately show "blobOk r ?bl" by (fastforce simp: blobOk_def)
  qed (use rows in \<open>auto simp: rowsOk_def validNodes_def\<close>)
  have kept: "i \<in> b_id ` set ?bl" if "i \<in> b_id ` set (blobs ?d)" "blobNamed ?d i" for i
    using that free by auto
  have "distinct (map b_id ?bl)" using rows by (simp add: rowsOk_def deleteRows_def distinct_map_filter)
  then have "rowsOk (co_db (dropBlobs I w))"
    using rows v kept by (simp add: rowsOk_def dropBlobs_def blobNamed_def del: set_deleteRows) blast
  then show ?thesis using c
    by (auto simp: consistent_def namespaceOk_def foldersOk_def refsOk_def refs_def trashOk_def dropBlobs_def deleteRows_def)
qed

lemma collector_among_requests:
  assumes h: "history gen ns (d, k) (d', k')" and e: "env_uuid env = gen" and c: "consistent ns d" and f: "freshIds env k d"
    and keys: "distinct (map b_storageKey (blobs d))" and b: "b \<in> set (findOrphanBlobsPage cutoff after limit (blobs d))"
  shows "\<not> blobNamed d' (b_id b)"
    and "x \<in> set (blobs d') \<Longrightarrow> b_storageKey x = b_storageKey b \<Longrightarrow> \<not> blobNamed d' (b_id x)"
proof -
  note pd = page_dormant [OF c b]
  have c': "consistent ns d'" using history_sound [OF h e] c f by simp
  have "dormant (b_id b) (blobs d')" using history_dormant [OF h e, of "b_id b"] c f pd(1) by simp
  from dormant_free [OF c' this] show free: "\<not> blobNamed d' (b_id b)" by (auto simp: blobNamed_def)
  from history_rows [OF h pd(2)] obtain b' where b': "b' \<in> set (blobs d')" "b_id b' = b_id b" "b_storageKey b' = b_storageKey b" .
  have inj: "inj_on b_storageKey (set (blobs d'))" using history_keys [OF h keys] by (simp add: distinct_map)
  show "\<not> blobNamed d' (b_id x)" if "x \<in> set (blobs d')" "b_storageKey x = b_storageKey b"
    using inj_onD [OF inj _ that(1) b'(1)] that(2) b' free by simp
qed

text \<open>The objects without a row: what a step may delete.\<close>

lemma chunk_members: "0 < n \<Longrightarrow> (\<exists>c\<in>set (chunks n keys). k \<in> set c) \<longleftrightarrow> k \<in> set keys"
  using arg_cong [where f = set, OF concat_chunks [of n keys]] by (auto simp: set_eq_iff)

lemma known_iff: "k \<in> set (findKnownStorageKeys keys tbl) \<longleftrightarrow> k \<in> set keys \<and> k \<in> b_storageKey ` set tbl"
proof -
  have "k \<in> set (findKnownStorageKeys keys tbl) \<longleftrightarrow>
      (\<exists>c\<in>set (chunks KEY_LOOKUP_CHUNK_SIZE keys). k \<in> set c) \<and> k \<in> b_storageKey ` set tbl"
    unfolding findKnownStorageKeys_def set_js_set set_concat by force
  then show ?thesis by (simp add: chunk_members KEY_LOOKUP_CHUNK_SIZE_def)
qed

definition stagedKeys :: "uploads \<Rightarrow> jstring set" where
  "stagedKeys u = up_stagingKey ` {p \<in> set (u_parts u). up_state p \<noteq> PART_DELETED} \<union> sc_stagingKey ` set (u_tombstones u)"

lemma knownStaging_iff: "k \<in> set (findKnownStagingKeys keys u) \<longleftrightarrow> k \<in> set keys \<and> k \<in> stagedKeys u"
proof -
  have "k \<in> set (findKnownStagingKeys keys u) \<longleftrightarrow>
      (\<exists>c\<in>set (chunks KEY_LOOKUP_CHUNK_SIZE keys). k \<in> set c) \<and> k \<in> stagedKeys u"
    unfolding findKnownStagingKeys_def stagedKeys_def set_js_set set_concat by force
  then show ?thesis by (simp add: chunk_members KEY_LOOKUP_CHUNK_SIZE_def)
qed

lemma deleteKey_run:
  "foldProg (\<lambda>count key. bind (deleteObject fails key) (\<lambda>done. ret (if done then count + 1 else count))) (count :: int) keys w =
     (Inr (count + int (length (filter (\<lambda>k. \<not> fails k) keys))), dropObjects {k \<in> set keys. \<not> fails k} w)"
proof (induction keys arbitrary: count w)
  case (Cons key keys)
  show ?case
  proof (cases "fails key")
    case True
    then have "{k \<in> set (key # keys). \<not> fails k} = {k \<in> set keys. \<not> fails k}" by auto
    with True Cons show ?thesis by (simp add: bind_def deleteObject_def ret_def)
  next
    case False
    have w: "w\<lparr> co_objects := filter (\<lambda>(k, _). k \<noteq> key) (co_objects w) \<rparr> = dropObjects {key} w"
      by (simp add: dropObjects_def case_prod_unfold)
    have "{k \<in> set (key # keys). \<not> fails k} = insert key {k \<in> set keys. \<not> fails k}" using False by auto
    with False Cons show ?thesis
      by (simp add: bind_def deleteObject_def ret_def andThen_def modify_def w dropObjects_comp)
  qed
qed (simp add: ret_def)

lemma deleteKeysInChunks_run:
  "deleteKeysInChunks fails keys w =
     (Inr (int (length (filter (\<lambda>k. \<not> fails k) keys))), dropObjects {k \<in> set keys. \<not> fails k} w)"
proof -
  let ?each = "\<lambda>count key. bind (deleteObject fails key) (\<lambda>done. ret (if done then count + (1 :: int) else count))"
  have "foldProg (foldProg ?each) count css w =
      (Inr (count + int (length (filter (\<lambda>k. \<not> fails k) (concat css)))), dropObjects {k \<in> set (concat css). \<not> fails k} w)" for count css w
  proof (induction css arbitrary: count w)
    case (Cons c css)
    have "{k \<in> set (concat (c # css)). \<not> fails k} = {k \<in> set c. \<not> fails k} \<union> {k \<in> set (concat css). \<not> fails k}" by auto
    with Cons show ?case by (simp add: bind_iff deleteKey_run dropObjects_comp)
  qed (simp add: ret_def)
  moreover have "concat (chunks DELETE_CONCURRENCY keys) = keys" by (rule concat_chunks) (simp add: DELETE_CONCURRENCY_def)
  ultimately show ?thesis by (simp only: deleteKeysInChunks_def add_0)
qed

text \<open>A step deletes only objects of its page that are old enough and that no row names.\<close>

lemma collectOrphanObjectsStep_run:
  assumes "collectOrphanObjectsStep listPage fails pre cutoff findKnown c w = (r, w')"
    and known: "\<And>keys. set keys \<inter> owned \<subseteq> set (findKnown keys w)"
  obtains K where "w' = dropObjects K w" "K \<inter> owned = {}"
    "K \<subseteq> fst ` {x \<in> set (fst (listPage pre c ORPHAN_OBJECT_PAGE_SIZE (co_objects w))). snd x < cutoff}"
proof -
  obtain items nxt where page: "listPage pre c ORPHAN_OBJECT_PAGE_SIZE (co_objects w) = (items, nxt)" by fastforce
  let ?cands = "map fst (filter (\<lambda>(_, lastModified). lastModified < cutoff) items)"
  let ?known = "if ?cands = [] then [] else findKnown ?cands w"
  let ?K = "{k \<in> set (filter (\<lambda>key. key \<notin> set ?known) ?cands). \<not> fails k}"
  have "w' = dropObjects ?K w"
    using assms by (simp add: collectOrphanObjectsStep_def bind_def gets_def page deleteKeysInChunks_run ret_def Let_def)
  moreover have "?K \<inter> owned = {}" using known [of ?cands] by (cases "?cands = []") auto
  moreover have "?K \<subseteq> fst ` {x \<in> set items. snd x < cutoff}" by force
  ultimately show ?thesis using that by (simp add: page)
qed

lemma dropObjects_uploads [simp]: "co_uploads (dropObjects K w) = co_uploads w"
  by (simp add: dropObjects_def)

lemma collectOrphanObjectsUnder_spares:
  assumes run: "collectOrphanObjectsUnder listPage ctx fails pre stage cutoff findKnown s = (r, t)"
    and listing: "\<And>after limit objs x. x \<in> set (fst (listPage pre after limit objs)) \<Longrightarrow> js_starts_with pre (fst x)"
    and known: "\<And>keys w. co_db w = co_db (g_world s) \<Longrightarrow> co_uploads w = co_uploads (g_world s) \<Longrightarrow> set keys \<inter> owned \<subseteq> set (findKnown keys w)"
  shows "co_db (g_world t) = co_db (g_world s) \<and> co_uploads (g_world t) = co_uploads (g_world s) \<and>
    (\<forall>x\<in>set (co_objects (g_world s)). fst x \<in> owned \<or> \<not> js_starts_with pre (fst x) \<longrightarrow> x \<in> set (co_objects (g_world t)))"
proof (rule runCursorStage_keeps [OF run [unfolded collectOrphanObjectsUnder_def]])
  let ?I = "\<lambda>w. co_db w = co_db (g_world s) \<and> co_uploads w = co_uploads (g_world s) \<and>
    (\<forall>x\<in>set (co_objects (g_world s)). fst x \<in> owned \<or> \<not> js_starts_with pre (fst x) \<longrightarrow> x \<in> set (co_objects w))"
  fix c w q w'
  assume st: "collectOrphanObjectsStep listPage fails pre cutoff findKnown c w = (q, w')" and I: "?I w"
  have "set keys \<inter> owned \<subseteq> set (findKnown keys w)" for keys using known I by simp
  from collectOrphanObjectsStep_run [OF st this] obtain K where "w' = dropObjects K w" "K \<inter> owned = {}"
    "K \<subseteq> fst ` {x \<in> set (fst (listPage pre c ORPHAN_OBJECT_PAGE_SIZE (co_objects w))). snd x < cutoff}" .
  then have "w' = dropObjects K w" "\<forall>k\<in>K. k \<notin> owned \<and> js_starts_with pre k" using listing by blast+
  with I show "?I w'" by auto
qed simp

lemma key_prefixes: "\<not> (js_starts_with BLOB_KEY_PREFIX k \<and> js_starts_with UPLOAD_STAGING_KEY_PREFIX k)"
  by (cases k) (auto simp: js_starts_with_def BLOB_KEY_PREFIX_def UPLOAD_STAGING_KEY_PREFIX_def js_def)

text \<open>What belongs to somebody: a Blob's object, a staged part's object, and whatever Storix did not make.\<close>

definition keptObject :: "collector \<Rightarrow> jstring \<Rightarrow> bool" where
  "keptObject w k \<longleftrightarrow> js_starts_with BLOB_KEY_PREFIX k \<and> k \<in> b_storageKey ` set (blobs (co_db w)) \<or>
     js_starts_with UPLOAD_STAGING_KEY_PREFIX k \<and> k \<in> stagedKeys (co_uploads w) \<or> \<not> isStorixKey k"

lemma collectOrphanObjects_spares:
  assumes run: "collectOrphanObjects listPage ctx fails withUploads cutoff s = (r, t)"
    and listing: "\<And>pre after limit objs x. x \<in> set (fst (listPage pre after limit objs)) \<Longrightarrow> js_starts_with pre (fst x)"
    and x: "x \<in> set (co_objects (g_world s))" "keptObject (g_world s) (fst x)"
  shows "x \<in> set (co_objects (g_world t)) \<and> co_db (g_world t) = co_db (g_world s) \<and> co_uploads (g_world t) = co_uploads (g_world s)"
proof -
  let ?blobs = "collectOrphanObjectsUnder listPage ctx fails BLOB_KEY_PREFIX (js ''orphan-objects-blobs'') cutoff
       (\<lambda>keys w. findKnownStorageKeys keys (blobs (co_db w)))"
  let ?staging = "collectOrphanObjectsUnder listPage ctx fails UPLOAD_STAGING_KEY_PREFIX (js ''orphan-objects-staging'') cutoff
       (\<lambda>keys w. findKnownStagingKeys keys (co_uploads w))"
  obtain r1 u where one: "?blobs s = (r1, u)" by fastforce
  have two: "t = u \<or> (\<exists>r2. ?staging u = (r2, t))"
    using run one by (auto simp: collectOrphanObjects_def andThen_def bind_def ret_def split: sum.splits if_splits)
  have kept: "js_starts_with BLOB_KEY_PREFIX (fst x) \<Longrightarrow> fst x \<in> b_storageKey ` set (blobs (co_db (g_world s)))"
    "js_starts_with UPLOAD_STAGING_KEY_PREFIX (fst x) \<Longrightarrow> fst x \<in> stagedKeys (co_uploads (g_world s))"
    using x(2) key_prefixes [of "fst x"] by (auto simp: keptObject_def isStorixKey_def STORIX_KEY_PREFIXES_def)
  have "co_db (g_world u) = co_db (g_world s) \<and> co_uploads (g_world u) = co_uploads (g_world s) \<and>
    (\<forall>x\<in>set (co_objects (g_world s)). fst x \<in> b_storageKey ` set (blobs (co_db (g_world s))) \<or> \<not> js_starts_with BLOB_KEY_PREFIX (fst x) \<longrightarrow>
      x \<in> set (co_objects (g_world u)))"
    by (rule collectOrphanObjectsUnder_spares [OF one]) (use listing in \<open>auto simp: known_iff\<close>)
  then have u: "x \<in> set (co_objects (g_world u))" "co_db (g_world u) = co_db (g_world s)" "co_uploads (g_world u) = co_uploads (g_world s)"
    using x(1) kept(1) by blast+
  show ?thesis
    using two
  proof
    assume "\<exists>r2. ?staging u = (r2, t)"
    then obtain r2 where st: "?staging u = (r2, t)" by blast
    have "co_db (g_world t) = co_db (g_world u) \<and> co_uploads (g_world t) = co_uploads (g_world u) \<and>
      (\<forall>x\<in>set (co_objects (g_world u)). fst x \<in> stagedKeys (co_uploads (g_world u)) \<or> \<not> js_starts_with UPLOAD_STAGING_KEY_PREFIX (fst x) \<longrightarrow>
        x \<in> set (co_objects (g_world t)))"
      by (rule collectOrphanObjectsUnder_spares [OF st]) (use listing in \<open>auto simp: knownStaging_iff\<close>)
    then show ?thesis using u kept(2) by auto
  qed (use u in simp)
qed

end
