(* ===== verification/CollectorFacts.thy ===== *)
theory CollectorFacts
  imports Collector Example
begin

text \<open>
  What the collector guarantees: it spares content in use although it takes no lock, it gets through
  its work however small its budget is, and a sweep over the object store leaves what a row names.
\<close>

section \<open>An example\<close>

text \<open>The namespace of the examples with a Blob nobody names any more.\<close>

definition exOrphan :: blob where
  "exOrphan = \<lparr> b_id = uuidNo 7, b_namespaceId = exNs, b_storageKey = js ''k'', b_size = 3, b_mimeType = js ''t'',
     b_sha256 = js ''s'', b_encryptionIv = None, b_referenceCount = 0, b_zeroSince = Some 5, b_createdAt = 0 \<rparr>"

definition exOrphanDb :: db where
  "exOrphanDb = exDb\<lparr> blobs := [exOrphan] \<rparr>"

lemma exOrphanDb_consistent: "consistent exNs exOrphanDb"
proof -
  have "validNodes [exRoot] [exOrphan]"
    by (simp add: validNodes_def exRoot_def typeContent_def rootShape_def parentOk_def blobOk_def)
  moreover have "grounded [exRoot]" by (simp add: grounded_def ranked_def exRoot_def)
  ultimately show ?thesis
    by (simp add: consistent_def exOrphanDb_def exDb_def rowsOk_def namespaceOk_def foldersOk_def refsOk_def refs_def trashOk_def
        exNamespace_def exRoot_def exOrphan_def weights)
qed

lemma exOrphanDb_fresh: "freshIds exEnv 1 exOrphanDb"
  using exDb_fresh by (simp add: exOrphanDb_def)

lemma exOrphan_page: "findOrphanBlobsPage 10 None 500 (blobs exOrphanDb) = [exOrphan]"
  by (simp add: findOrphanBlobsPage_def keysetPage_def sortBy_def exOrphanDb_def exOrphan_def orphanBefore_def)

definition exNoUploads :: uploads where
  "exNoUploads = \<lparr> u_namespaces = [], u_usage = [], u_sessions = [], u_parts = [], u_tombstones = [] \<rparr>"

definition exCollector :: "collector gc" where
  "exCollector = \<lparr> g_world = \<lparr> co_db = exOrphanDb, co_uploads = exNoUploads, co_objects = [(js ''k'', 0)] \<rparr>, g_cursors = [], g_exhausted = [] \<rparr>"

definition exListing :: object_listing where
  "exListing = (\<lambda>pre _ _ objs. (filter (\<lambda>x. js_starts_with pre (fst x)) objs, None))"

section \<open>Properties\<close>

text \<open>
  C9: the collector reads a page of Blobs without references, and whatever requests are served before
  it deletes their objects and rows, every Blob stored under one of those keys is still unused, the
  deletion of the rows is not refused, and it leaves the database consistent.
\<close>

theorem collector_spares_content_in_use:
  assumes "history gen ns (d, k) (d', k')" and "env_uuid env = gen" and "consistent ns d" and "freshIds env k d"
    and "distinct (map b_storageKey (blobs d))"
    and "set ids \<subseteq> b_id ` set (findOrphanBlobsPage cutoff after limit (blobs d))"
  shows "(\<forall>b\<in>set (findOrphanBlobsPage cutoff after limit (blobs d)). \<forall>x\<in>set (blobs d').
      b_storageKey x = b_storageKey b \<longrightarrow> \<not> blobNamed d' (b_id x)) \<and>
    (\<exists>w. deleteBlobRows sqlite ids \<lparr> co_db = d', co_uploads = up, co_objects = objs \<rparr> = (Inr (), w) \<and> consistent ns (co_db w))"
proof -
  note safe = collector_among_requests [OF assms(1-5)]
  let ?w = "\<lparr> co_db = d', co_uploads = up, co_objects = objs \<rparr>"
  have c': "consistent ns (co_db ?w)" using history_sound [OF assms(1,2)] assms(3,4) by simp
  have free: "\<forall>i\<in>set ids. \<not> blobNamed (co_db ?w) i" using assms(6) safe(1) by auto
  then have "deleteBlobRows sqlite ids ?w = (Inr (), dropBlobs (set ids) ?w)" by (intro deleteBlobRows_run) auto
  with consistent_dropBlobs [OF c' free] safe(2) show ?thesis by blast
qed

theorem collector_spares_content_in_use_witness:
  "\<exists>w. deleteBlobRows False [b_id exOrphan] \<lparr> co_db = exOrphanDb, co_uploads = exNoUploads, co_objects = [] \<rparr> = (Inr (), w) \<and> consistent exNs (co_db w)"
proof -
  have "distinct (map b_storageKey (blobs exOrphanDb))" by (simp add: exOrphanDb_def)
  moreover have "set [b_id exOrphan] \<subseteq> b_id ` set (findOrphanBlobsPage 10 None 500 (blobs exOrphanDb))"
    by (simp add: exOrphan_page)
  ultimately show ?thesis
    using collector_spares_content_in_use [OF history.start refl exOrphanDb_consistent exOrphanDb_fresh] by blast
qed

text \<open>
  C10: however small the budget of the stage, running it again and again ends with every Blob deleted
  that had no reference since before the cutoff and whose object the store would delete, with its
  object, and with nothing else deleted.
\<close>

theorem collector_completes:
  assumes "consistent ns (co_db (g_world s))" and "cx_cursors ctx" and "map_of (g_cursors s) (js ''orphan-blobs'') = None"
  shows "\<exists>m t. 0 < m \<and> runs m (collectOrphanBlobs ctx sqlite fails cutoff) s = (Inr (), t) \<and>
    blobs (co_db (g_world t)) = filter (\<lambda>b. \<not> (orphanBefore cutoff b \<and> \<not> fails (b_storageKey b))) (blobs (co_db (g_world s))) \<and>
    co_objects (g_world t) = filter (\<lambda>x. fst x \<notin> b_storageKey `
      {b \<in> set (blobs (co_db (g_world s))). orphanBefore cutoff b \<and> \<not> fails (b_storageKey b)}) (co_objects (g_world s))"
proof -
  let ?w = "g_world s"
  let ?all = "filter (orphanBefore cutoff) (blobs (co_db ?w))"
  have ok: "collectable ?w" by (rule consistent_collectable [OF assms(1)])
  from collectOrphanBlobs_completes [OF ok assms(2,3)] obtain m t where
    m: "0 < m" "runs m (collectOrphanBlobs ctx sqlite fails cutoff) s = (Inr (), t)" "g_world t = collected fails ?all ?w" by blast
  have "blobs (co_db (g_world t)) = filter (\<lambda>b. \<not> (orphanBefore cutoff b \<and> \<not> fails (b_storageKey b))) (blobs (co_db ?w))"
    unfolding m(3) by (subst collected_blobs [OF ok]) (auto intro!: filter_cong)
  moreover have "{b \<in> set ?all. \<not> fails (b_storageKey b)} =
      {b \<in> set (blobs (co_db ?w)). orphanBefore cutoff b \<and> \<not> fails (b_storageKey b)}" by auto
  then have "co_objects (g_world t) = filter (\<lambda>x. fst x \<notin> b_storageKey `
      {b \<in> set (blobs (co_db ?w)). orphanBefore cutoff b \<and> \<not> fails (b_storageKey b)}) (co_objects ?w)"
    unfolding m(3) by (simp add: collected_def)
  ultimately show ?thesis using m(1,2) by blast
qed

theorem collector_completes_witness:
  "\<exists>m t. 0 < m \<and> runs m (collectOrphanBlobs \<lparr> cx_budgetLimit = 1, cx_cursors = True \<rparr> False (\<lambda>_. False) 10) exCollector = (Inr (), t) \<and>
    blobs (co_db (g_world t)) = []"
proof -
  have "blobs (co_db (g_world exCollector)) = [exOrphan]" "co_db (g_world exCollector) = exOrphanDb"
    "map_of (g_cursors exCollector) (js ''orphan-blobs'') = None" by (simp_all add: exCollector_def exOrphanDb_def)
  moreover have "orphanBefore 10 exOrphan" by (simp add: orphanBefore_def exOrphan_def)
  ultimately show ?thesis
    using collector_completes [of exNs exCollector "\<lparr> cx_budgetLimit = 1, cx_cursors = True \<rparr>" False "\<lambda>_. False" 10] exOrphanDb_consistent
    by auto
qed

text \<open>
  C11: a sweep for objects nobody owns, interrupted or not, changes no table and leaves every object
  of a Blob, every object of a staged part that is not deleted or waits for its clean-up, and every
  object Storix did not make, as long as the store lists under a prefix only keys that start with it.
\<close>

theorem object_sweep_spares_owned:
  assumes "collectOrphanObjects listPage ctx fails withUploads cutoff s = (r, t)"
    and "\<And>pre after limit objs x. x \<in> set (fst (listPage pre after limit objs)) \<Longrightarrow> js_starts_with pre (fst x)"
    and "x \<in> set (co_objects (g_world s))" and "keptObject (g_world s) (fst x)"
  shows "x \<in> set (co_objects (g_world t)) \<and> co_db (g_world t) = co_db (g_world s) \<and> co_uploads (g_world t) = co_uploads (g_world s)"
  by (rule collectOrphanObjects_spares [OF assms])

theorem object_sweep_spares_owned_witness:
  "(js ''k'', 0) \<in> set (co_objects (g_world (snd (collectOrphanObjects exListing \<lparr> cx_budgetLimit = 1, cx_cursors = True \<rparr>
     (\<lambda>_. False) True 10 exCollector))))"
proof -
  have "(js ''k'', 0) \<in> set (co_objects (g_world exCollector))" by (simp add: exCollector_def)
  moreover have "keptObject (g_world exCollector) (fst (js ''k'', 0 :: time))"
    by (simp add: keptObject_def isStorixKey_def STORIX_KEY_PREFIXES_def js_starts_with_def BLOB_KEY_PREFIX_def
      UPLOAD_STAGING_KEY_PREFIX_def js_def)
  moreover have "js_starts_with pre (fst x)" if "x \<in> set (fst (exListing pre after limit objs))" for pre after limit objs x
    using that by (simp add: exListing_def)
  ultimately show ?thesis using object_sweep_spares_owned [OF prod.collapse [symmetric]] by blast
qed

end
