(* ===== verification/Ownership.thy ===== *)
theory Ownership
  imports Decimal
begin

text \<open>
  Who owns a storage key: \<open>persistence/storage-put-ownership.repository.ts\<close>, its tables
  (\<open>migrations/1791700000026-AddStoragePutOwnership.ts\<close>) and the two callers that share a key, the
  writer (\<open>storage/put-protected-blob-storage.ts\<close>) and the collector of incomplete multipart uploads
  (\<open>jobs/owned-multipart-cleanup.ts\<close>). A method is one transaction: the row of the key serialises
  the attempts and the claims on it.
\<close>

section \<open>Tables\<close>

datatype attempt_state = ACTIVE_PUT | SETTLED_PUT

record put_execution =
  pe_executionId :: jstring
  pe_startedAt :: time
  pe_stoppedConfirmedAt :: "time option"
  pe_stoppedConfirmationEvidence :: "jstring option"

record put_key =
  pk_storageKey :: jstring
  pk_gcClaimId :: "uuid option"
  pk_gcExecutionId :: "jstring option"
  pk_gcClaimedAt :: "time option"

record put_attempt =
  pa_attemptId :: uuid
  pa_executionId :: jstring
  pa_storageKey :: jstring
  pa_state :: attempt_state
  pa_createdAt :: time
  pa_settledAt :: "time option"

record ownership =
  ow_executions :: "put_execution list"
  ow_keys :: "put_key list"
  ow_attempts :: "put_attempt list"

type_synonym 'a owp = "(ownership, vfs_error, 'a) prog"

section \<open>The repository\<close>

definition registerExecution :: "jstring \<Rightarrow> time \<Rightarrow> unit owp" where
  "registerExecution executionId now = modify (\<lambda>s.
     if \<exists>e\<in>set (ow_executions s). pe_executionId e = executionId then s
     else s\<lparr> ow_executions := insertRow \<lparr> pe_executionId = executionId, pe_startedAt = now, pe_stoppedConfirmedAt = None,
       pe_stoppedConfirmationEvidence = None \<rparr> (ow_executions s) \<rparr>)"

definition ensureKey :: "jstring \<Rightarrow> unit owp" where
  "ensureKey key = modify (\<lambda>s.
     if \<exists>k\<in>set (ow_keys s). pk_storageKey k = key then s
     else s\<lparr> ow_keys := insertRow \<lparr> pk_storageKey = key, pk_gcClaimId = None, pk_gcExecutionId = None, pk_gcClaimedAt = None \<rparr>
       (ow_keys s) \<rparr>)"

definition findPutKey :: "jstring \<Rightarrow> ownership \<Rightarrow> put_key option" where
  "findPutKey key s = findRow (\<lambda>k. pk_storageKey k = key) (ow_keys s)"

definition insertAttempt :: "uuid \<Rightarrow> jstring \<Rightarrow> jstring \<Rightarrow> time \<Rightarrow> unit owp" where
  "insertAttempt attemptId executionId key now = bind (gets ow_attempts) (\<lambda>rows.
     if \<exists>a\<in>set rows. pa_attemptId a = attemptId then throw (DbConstraint PrimaryKey)
     else modify (\<lambda>s. s\<lparr> ow_attempts := insertRow \<lparr> pa_attemptId = attemptId, pa_executionId = executionId, pa_storageKey = key,
       pa_state = ACTIVE_PUT, pa_createdAt = now, pa_settledAt = None \<rparr> rows \<rparr>))"

definition beginPut :: "jstring \<Rightarrow> jstring \<Rightarrow> uuid \<Rightarrow> time \<Rightarrow> uuid owp" where
  "beginPut key executionId attemptId now =
     andThen
       (transaction
         (andThen (ensureKey key)
         (bind (gets (findPutKey key)) (\<lambda>row.
          andThen (throwIf (case row of None \<Rightarrow> True | Some k \<Rightarrow> pk_gcClaimId k \<noteq> None) (InternalError ''storage key claimed''))
          (insertAttempt attemptId executionId key now)))))
       (ret attemptId)"

definition settlePut :: "uuid \<Rightarrow> time \<Rightarrow> unit owp" where
  "settlePut attemptId now = modify (\<lambda>s. s\<lparr> ow_attempts :=
     updateRows (\<lambda>a. pa_attemptId a = attemptId) (\<lambda>a. a\<lparr> pa_state := SETTLED_PUT, pa_settledAt := Some now \<rparr>) (ow_attempts s) \<rparr>)"

definition hasKeyRecord :: "jstring \<Rightarrow> bool owp" where
  "hasKeyRecord key = gets (\<lambda>s. findPutKey key s \<noteq> None)"

text \<open>The administrator's word that a process has ended; the first one is kept.\<close>

definition confirmExecution :: "jstring \<Rightarrow> time \<Rightarrow> put_execution \<Rightarrow> put_execution" where
  "confirmExecution evidence now e = e\<lparr>
     pe_stoppedConfirmedAt := Some (case pe_stoppedConfirmedAt e of None \<Rightarrow> now | Some t \<Rightarrow> t),
     pe_stoppedConfirmationEvidence := Some (js_trim evidence) \<rparr>"

definition executionStopped :: "jstring \<Rightarrow> ownership \<Rightarrow> bool" where
  "executionStopped executionId s \<longleftrightarrow>
     (case findRow (\<lambda>e. pe_executionId e = executionId) (ow_executions s) of
        None \<Rightarrow> False | Some e \<Rightarrow> pe_stoppedConfirmedAt e \<noteq> None)"

definition confirmExecutionStopped :: "jstring \<Rightarrow> jstring \<Rightarrow> time \<Rightarrow> bool owp" where
  "confirmExecutionStopped executionId evidence now =
     andThen (throwIf (js_trim evidence = []) (InternalError ''evidence required''))
     (andThen (modify (\<lambda>s. s\<lparr> ow_executions :=
         updateRows (\<lambda>e. pe_executionId e = executionId \<and> pe_stoppedConfirmationEvidence e = None)
           (confirmExecution evidence now) (ow_executions s) \<rparr>))
     (gets (executionStopped executionId)))"

datatype gc_claim_result = ClaimUnknown | ClaimProtected | GcClaimed

definition claimForGc :: "jstring \<Rightarrow> uuid \<Rightarrow> jstring \<Rightarrow> time \<Rightarrow> gc_claim_result owp" where
  "claimForGc key claimId executionId now = transaction (
     bind (gets (\<lambda>s. s)) (\<lambda>s.
     case findPutKey key s of
       None \<Rightarrow> ret ClaimUnknown
     | Some guard \<Rightarrow>
         if pk_gcClaimId guard \<noteq> None \<and>
            \<not> (case pk_gcExecutionId guard of None \<Rightarrow> False | Some e \<Rightarrow> e \<noteq> [] \<and> executionStopped e s) then ret ClaimProtected
         else (let owners = filter (\<lambda>a. pa_storageKey a = key) (ow_attempts s) in
           if owners = [] then ret ClaimUnknown
           else if \<exists>a\<in>set owners. pa_state a \<noteq> SETTLED_PUT \<and> \<not> executionStopped (pa_executionId a) s then ret ClaimProtected
           else andThen (modify (\<lambda>s. s\<lparr> ow_keys := updateRows (\<lambda>k. pk_storageKey k = key)
               (\<lambda>k. k\<lparr> pk_gcClaimId := Some claimId, pk_gcExecutionId := Some executionId, pk_gcClaimedAt := Some now \<rparr>) (ow_keys s) \<rparr>))
             (ret GcClaimed))))"

definition releaseGcClaim :: "jstring \<Rightarrow> uuid \<Rightarrow> unit owp" where
  "releaseGcClaim key claimId = modify (\<lambda>s. s\<lparr> ow_keys :=
     updateRows (\<lambda>k. pk_storageKey k = key \<and> pk_gcClaimId k = Some claimId)
       (\<lambda>k. k\<lparr> pk_gcClaimId := None, pk_gcExecutionId := None, pk_gcClaimedAt := None \<rparr>) (ow_keys s) \<rparr>)"

end
