(* ===== verification/OwnershipHistory.thy ===== *)
theory OwnershipHistory
  imports Ownership
begin

text \<open>
  Writers and collectors at work on the same keys, interleaved at every call: what \<open>put\<close> of
  \<open>PutProtectedBlobStorage\<close> and \<open>abort\<close> of \<open>OwnedMultipartCleanup\<close> do, one repository call or one
  storage call at a time, in any number of processes that may be killed at any moment. The
  administrator confirms only processes that have ended, which the procedure of the repository's
  architecture decision 0045 demands.
\<close>

text \<open>
  What a process is in the middle of: a transfer, the record of its end, the abort of a multipart
  upload, the release of its claim. The last argument is the process.
\<close>

datatype task =
    Putting uuid jstring jstring
  | Settling uuid jstring
  | Aborting jstring uuid jstring
  | Releasing jstring uuid jstring

fun taskProcess :: "task \<Rightarrow> jstring" where
  "taskProcess (Putting a k e) = e"
| "taskProcess (Settling a e) = e"
| "taskProcess (Aborting k c e) = e"
| "taskProcess (Releasing k c e) = e"

record site =
  si_own :: ownership
  si_tasks :: "task list"
  si_ended :: "jstring list"

text \<open>\<open>put\<close>: register the attempt, transfer, record the end; a lost record is tried again.\<close>

inductive putStep :: "site \<Rightarrow> site \<Rightarrow> bool" where
  beginPut: "e \<notin> set (si_ended s) \<Longrightarrow> beginPut key e a now (si_own s) = (Inr a', own') \<Longrightarrow>
    putStep s (s\<lparr> si_own := own', si_tasks := Putting a' key e # si_tasks s \<rparr>)"
| refusePut: "beginPut key e a now (si_own s) = (Inl err, own') \<Longrightarrow> putStep s (s\<lparr> si_own := own' \<rparr>)"
| endPut: "si_tasks s = xs @ Putting a key e # ys \<Longrightarrow> putStep s (s\<lparr> si_tasks := xs @ Settling a e # ys \<rparr>)"
| settle: "si_tasks s = xs @ Settling a e # ys \<Longrightarrow> settlePut a now (si_own s) = (Inr (), own') \<Longrightarrow>
    putStep s (s\<lparr> si_own := own', si_tasks := xs @ ys \<rparr>)"

text \<open>\<open>abort\<close>: claim the key, abort the multipart upload, release the claim, which may fail.\<close>

inductive abortStep :: "site \<Rightarrow> site \<Rightarrow> bool" where
  claim: "e \<notin> set (si_ended s) \<Longrightarrow> claimForGc key c e now (si_own s) = (Inr GcClaimed, own') \<Longrightarrow>
    abortStep s (s\<lparr> si_own := own', si_tasks := Aborting key c e # si_tasks s \<rparr>)"
| refuseClaim: "claimForGc key c e now (si_own s) = (r, own') \<Longrightarrow> r \<noteq> Inr GcClaimed \<Longrightarrow> abortStep s (s\<lparr> si_own := own' \<rparr>)"
| endAbort: "si_tasks s = xs @ Aborting key c e # ys \<Longrightarrow> abortStep s (s\<lparr> si_tasks := xs @ Releasing key c e # ys \<rparr>)"
| release: "si_tasks s = xs @ Releasing key c e # ys \<Longrightarrow> releaseGcClaim key c (si_own s) = (Inr (), own') \<Longrightarrow>
    abortStep s (s\<lparr> si_own := own', si_tasks := xs @ ys \<rparr>)"
| failRelease: "si_tasks s = xs @ Releasing key c e # ys \<Longrightarrow> abortStep s (s\<lparr> si_tasks := xs @ ys \<rparr>)"

inductive siteStep :: "site \<Rightarrow> site \<Rightarrow> bool" where
  register: "registerExecution e now (si_own s) = (Inr (), own') \<Longrightarrow> siteStep s (s\<lparr> si_own := own' \<rparr>)"
| put: "putStep s t \<Longrightarrow> siteStep s t"
| abort: "abortStep s t \<Longrightarrow> siteStep s t"
| kill: "siteStep s (s\<lparr> si_tasks := filter (\<lambda>t. taskProcess t \<noteq> e) (si_tasks s), si_ended := e # si_ended s \<rparr>)"
| confirm: "e \<in> set (si_ended s) \<Longrightarrow> confirmExecutionStopped e evidence now (si_own s) = (r, own') \<Longrightarrow>
    siteStep s (s\<lparr> si_own := own' \<rparr>)"

inductive siteRun :: "site \<Rightarrow> site \<Rightarrow> bool" for s where
  start: "siteRun s s"
| more: "siteRun s t \<Longrightarrow> siteStep t u \<Longrightarrow> siteRun s u"

section \<open>The invariant\<close>

fun putId :: "task \<Rightarrow> uuid option" where
  "putId (Putting a k e) = Some a"
| "putId (Settling a e) = Some a"
| "putId _ = None"

definition guarded :: "jstring \<Rightarrow> ownership \<Rightarrow> bool" where
  "guarded key own \<longleftrightarrow> (\<forall>a\<in>set (ow_attempts own). pa_storageKey a = key \<longrightarrow> pa_state a = SETTLED_PUT \<or> executionStopped (pa_executionId a) own)"

fun taskOk :: "ownership \<Rightarrow> task \<Rightarrow> bool" where
  "taskOk own (Putting a key e) \<longleftrightarrow>
     (\<exists>x\<in>set (ow_attempts own). pa_attemptId x = a \<and> pa_storageKey x = key \<and> pa_executionId x = e \<and> pa_state x = ACTIVE_PUT)"
| "taskOk own (Settling a e) \<longleftrightarrow> (\<exists>x\<in>set (ow_attempts own). pa_attemptId x = a)"
| "taskOk own (Aborting key c e) \<longleftrightarrow>
     (\<exists>k\<in>set (ow_keys own). pk_storageKey k = key \<and> pk_gcClaimId k = Some c \<and> pk_gcExecutionId k = Some e)"
| "taskOk own (Releasing key c e) \<longleftrightarrow>
     (\<exists>k\<in>set (ow_keys own). pk_storageKey k = key \<and> pk_gcClaimId k = Some c \<and> pk_gcExecutionId k = Some e)"

fun claimKey :: "task \<Rightarrow> jstring option" where
  "claimKey (Aborting key c e) = Some key"
| "claimKey (Releasing key c e) = Some key"
| "claimKey _ = None"

definition siteOk :: "site \<Rightarrow> bool" where
  "siteOk s \<longleftrightarrow> distinct (map pk_storageKey (ow_keys (si_own s))) \<and> distinct (map pa_attemptId (ow_attempts (si_own s))) \<and>
     (\<forall>k\<in>set (ow_keys (si_own s)). pk_gcClaimId k \<noteq> None \<longrightarrow> guarded (pk_storageKey k) (si_own s)) \<and>
     (\<forall>e. executionStopped e (si_own s) \<longrightarrow> e \<in> set (si_ended s)) \<and>
     (\<forall>t\<in>set (si_tasks s). taskOk (si_own s) t \<and> taskProcess t \<notin> set (si_ended s)) \<and>
     distinct (List.map_filter putId (si_tasks s)) \<and> distinct (List.map_filter claimKey (si_tasks s))"

text \<open>A transfer and an abort under way exclude each other.\<close>

lemma site_excludes:
  assumes "siteOk s" and p: "Putting a key e \<in> set (si_tasks s)" and q: "Aborting key c e' \<in> set (si_tasks s)"
  shows False
proof -
  from assms obtain x where x: "x \<in> set (ow_attempts (si_own s))" "pa_storageKey x = key" "pa_executionId x = e" "pa_state x = ACTIVE_PUT"
    by (fastforce simp: siteOk_def)
  from assms(1) q have "taskOk (si_own s) (Aborting key c e')" by (auto simp: siteOk_def)
  then obtain k where k: "k \<in> set (ow_keys (si_own s))" "pk_storageKey k = key" "pk_gcClaimId k = Some c" by auto
  have "guarded (pk_storageKey k) (si_own s)" using assms(1) k(1,3) by (auto simp: siteOk_def)
  with x k(2) have "executionStopped e (si_own s)" by (auto simp: guarded_def)
  with assms(1) have "e \<in> set (si_ended s)" by (auto simp: siteOk_def)
  moreover have "e \<notin> set (si_ended s)" using assms(1) p by (fastforce simp: siteOk_def)
  ultimately show False by simp
qed

section \<open>What the calls do\<close>

lemma findRow_single [simp]: "findRow P [r] = (if P r then Some r else None)"
  by (simp add: findRow_def)

lemma registerExecution_run:
  assumes "registerExecution e now own = (r, own')"
  shows "ow_keys own' = ow_keys own" and "ow_attempts own' = ow_attempts own" and "executionStopped x own' = executionStopped x own"
  using assms by (auto simp: registerExecution_def modify_def executionStopped_def insertRow_def findRow_append
      split: if_splits option.splits)

lemma beginPut_run:
  assumes "beginPut key e a now own = (Inr a', own')"
  obtains "a' = a" "a \<notin> pa_attemptId ` set (ow_attempts own)" "ow_executions own' = ow_executions own"
    "\<forall>k\<in>set (ow_keys own). pk_storageKey k = key \<longrightarrow> pk_gcClaimId k = None \<or> \<not> distinct (map pk_storageKey (ow_keys own))"
    "ow_attempts own' = insertRow \<lparr> pa_attemptId = a, pa_executionId = e, pa_storageKey = key, pa_state = ACTIVE_PUT,
       pa_createdAt = now, pa_settledAt = None \<rparr> (ow_attempts own)"
    "ow_keys own' = (if key \<in> pk_storageKey ` set (ow_keys own) then ow_keys own
       else insertRow \<lparr> pk_storageKey = key, pk_gcClaimId = None, pk_gcExecutionId = None, pk_gcClaimedAt = None \<rparr> (ow_keys own))"
proof
  let ?new = "\<lparr> pk_storageKey = key, pk_gcClaimId = None, pk_gcExecutionId = None, pk_gcClaimedAt = None \<rparr>"
  let ?own = "if key \<in> pk_storageKey ` set (ow_keys own) then own else own\<lparr> ow_keys := insertRow ?new (ow_keys own) \<rparr>"
  have ens: "ensureKey key own = (Inr (), ?own)" by (auto simp: ensureKey_def modify_def image_iff)
  from assms obtain k where k: "findPutKey key ?own = Some k" "pk_gcClaimId k = None" and a: "a' = a"
    and i: "insertAttempt a e key now ?own = (Inr (), own')"
    unfolding beginPut_def by (simp add: andThen_iff transaction_ok bind_iff ens gets_iff throwIf_iff ret_iff split: option.splits)
  then show "a' = a" by simp
  from i show "a \<notin> pa_attemptId ` set (ow_attempts own)" "ow_executions own' = ow_executions own"
    "ow_attempts own' = insertRow \<lparr> pa_attemptId = a, pa_executionId = e, pa_storageKey = key, pa_state = ACTIVE_PUT,
       pa_createdAt = now, pa_settledAt = None \<rparr> (ow_attempts own)"
    "ow_keys own' = (if key \<in> pk_storageKey ` set (ow_keys own) then ow_keys own else insertRow ?new (ow_keys own))"
    by (auto simp: insertAttempt_def bind_def gets_def throw_def modify_def split: if_splits)
  show "\<forall>k\<in>set (ow_keys own). pk_storageKey k = key \<longrightarrow> pk_gcClaimId k = None \<or> \<not> distinct (map pk_storageKey (ow_keys own))"
  proof (intro ballI impI)
    fix q assume q: "q \<in> set (ow_keys own)" "pk_storageKey q = key"
    then have "?own = own" by auto
    then have k': "k \<in> set (ow_keys own)" "pk_storageKey k = key" using k(1) by (auto simp: findPutKey_def dest: findRow_SomeD)
    show "pk_gcClaimId q = None \<or> \<not> distinct (map pk_storageKey (ow_keys own))"
      using k(2) k' q by (metis distinct_map inj_onD)
  qed
qed

lemma refusedPut_run: "beginPut key e a now own = (Inl err, own') \<Longrightarrow> own' = own"
  by (auto simp: beginPut_def andThen_def bind_def [of "transaction p" for p] ret_def split: prod.splits sum.splits
      dest: transaction_fail)

lemma refusedClaim_run:
  assumes "claimForGc key c e now own = (r, own')" and "r \<noteq> Inr GcClaimed"
  shows "own' = own"
proof (cases r)
  case (Inl err)
  with assms(1) show ?thesis unfolding claimForGc_def by (auto dest: transaction_fail)
next
  case (Inr x)
  with assms show ?thesis unfolding claimForGc_def
    by (auto simp: transaction_ok bind_iff gets_iff ret_iff andThen_iff modify_iff Let_def split: option.splits if_splits)
qed

lemma claimForGc_run:
  assumes "claimForGc key c e now own = (Inr GcClaimed, own')"
  obtains k where "k \<in> set (ow_keys own)" "pk_storageKey k = key" "guarded key own"
    "pk_gcClaimId k = None \<or> (\<exists>x. pk_gcExecutionId k = Some x \<and> executionStopped x own)"
    "own' = own\<lparr> ow_keys := updateRows (\<lambda>k. pk_storageKey k = key)
      (\<lambda>k. k\<lparr> pk_gcClaimId := Some c, pk_gcExecutionId := Some e, pk_gcClaimedAt := Some now \<rparr>) (ow_keys own) \<rparr>"
proof -
  from assms obtain k where k: "findPutKey key own = Some k"
    and free: "pk_gcClaimId k = None \<or> (\<exists>x. pk_gcExecutionId k = Some x \<and> executionStopped x own)"
    and own: "\<forall>a\<in>set (ow_attempts own). pa_storageKey a = key \<longrightarrow> pa_state a = SETTLED_PUT \<or> executionStopped (pa_executionId a) own"
    and own': "own' = own\<lparr> ow_keys := updateRows (\<lambda>k. pk_storageKey k = key)
      (\<lambda>k. k\<lparr> pk_gcClaimId := Some c, pk_gcExecutionId := Some e, pk_gcClaimedAt := Some now \<rparr>) (ow_keys own) \<rparr>"
    unfolding claimForGc_def transaction_ok
    by (auto simp: bind_def gets_def ret_def andThen_def modify_def Let_def split: option.splits if_splits)
  from k have "k \<in> set (ow_keys own)" "pk_storageKey k = key" by (auto simp: findPutKey_def dest: findRow_SomeD)
  with that free own own' show ?thesis by (auto simp: guarded_def)
qed

lemma confirm_run:
  assumes "confirmExecutionStopped e evidence now own = (r, own')"
  shows "ow_keys own' = ow_keys own" and "ow_attempts own' = ow_attempts own"
    and "executionStopped x own \<Longrightarrow> executionStopped x own'" and "executionStopped x own' \<Longrightarrow> executionStopped x own \<or> x = e"
proof -
  have find: "findRow (\<lambda>q. pe_executionId q = x) (updateRows (\<lambda>q. pe_executionId q = e \<and> P q) (confirmExecution evidence now) rows) =
      map_option (\<lambda>q. if pe_executionId q = e \<and> P q then confirmExecution evidence now q else q) (findRow (\<lambda>q. pe_executionId q = x) rows)"
    for P rows
    by (induction rows) (auto simp: findRow_def updateRows_def confirmExecution_def)
  show "ow_keys own' = ow_keys own" "ow_attempts own' = ow_attempts own"
    "executionStopped x own \<Longrightarrow> executionStopped x own'" "executionStopped x own' \<Longrightarrow> executionStopped x own \<or> x = e"
    using assms
    by (auto simp: confirmExecutionStopped_def throwIf_def throw_def andThen_def bind_def ret_def modify_def gets_def
        executionStopped_def find confirmExecution_def split: if_splits option.splits dest: findRow_SomeD)
qed

section \<open>Every step keeps the invariant\<close>

lemma map_filter_append [simp]: "List.map_filter f (xs @ ys) = List.map_filter f xs @ List.map_filter f ys"
  by (simp add: List.map_filter_def)

lemma map_filter_Cons [simp]:
  "List.map_filter f (x # xs) = (case f x of None \<Rightarrow> List.map_filter f xs | Some y \<Rightarrow> y # List.map_filter f xs)"
  by (simp add: List.map_filter_def split: option.split)

lemma set_map_filter: "set (List.map_filter f xs) = {y. \<exists>x\<in>set xs. f x = Some y}"
  by (force simp: List.map_filter_def)

lemma distinct_map_filter_filter: "distinct (List.map_filter f xs) \<Longrightarrow> distinct (List.map_filter f (filter P xs))"
  by (induction xs) (auto simp: set_map_filter split: option.splits)

definition ownOk :: "ownership \<Rightarrow> jstring list \<Rightarrow> bool" where
  "ownOk own ended \<longleftrightarrow> distinct (map pk_storageKey (ow_keys own)) \<and> distinct (map pa_attemptId (ow_attempts own)) \<and>
     (\<forall>k\<in>set (ow_keys own). pk_gcClaimId k \<noteq> None \<longrightarrow> guarded (pk_storageKey k) own) \<and>
     (\<forall>e. executionStopped e own \<longrightarrow> e \<in> set ended)"

definition tasksOk :: "ownership \<Rightarrow> jstring list \<Rightarrow> task list \<Rightarrow> bool" where
  "tasksOk own ended tasks \<longleftrightarrow> (\<forall>t\<in>set tasks. taskOk own t \<and> taskProcess t \<notin> set ended) \<and>
     distinct (List.map_filter putId tasks) \<and> distinct (List.map_filter claimKey tasks)"

lemma siteOk_iff: "siteOk s \<longleftrightarrow> ownOk (si_own s) (si_ended s) \<and> tasksOk (si_own s) (si_ended s) (si_tasks s)"
  by (auto simp: siteOk_def ownOk_def tasksOk_def)

lemma taskOk_frame:
  "ow_keys own' = ow_keys own \<Longrightarrow> ow_attempts own' = ow_attempts own \<Longrightarrow> taskOk own' t = taskOk own t"
  by (cases t) auto

lemma guarded_mono:
  assumes "guarded key own" and "ow_attempts own' = ow_attempts own" and "\<And>x. executionStopped x own \<Longrightarrow> executionStopped x own'"
  shows "guarded key own'"
  using assms by (auto simp: guarded_def)

lemma stopped_frame: "ow_executions own' = ow_executions own \<Longrightarrow> executionStopped x own' = executionStopped x own"
  by (simp add: executionStopped_def)

lemma tasksOk_append:
  "tasksOk own ended (xs @ t # ys) \<Longrightarrow> tasksOk own ended (xs @ ys)"
  by (auto simp: tasksOk_def split: option.splits)

lemma beginPut_keeps:
  assumes ok: "siteOk s" and e: "e \<notin> set (si_ended s)" and run: "beginPut key e a now (si_own s) = (Inr a', own')"
  shows "siteOk (s\<lparr> si_own := own', si_tasks := Putting a' key e # si_tasks s \<rparr>)"
  using run
proof (rule beginPut_run)
  let ?own = "si_own s"
  let ?row = "\<lparr> pa_attemptId = a, pa_executionId = e, pa_storageKey = key, pa_state = ACTIVE_PUT, pa_createdAt = now, pa_settledAt = None \<rparr>"
  let ?new = "\<lparr> pk_storageKey = key, pk_gcClaimId = None, pk_gcExecutionId = None, pk_gcClaimedAt = None \<rparr>"
  assume a: "a' = a" and fresh: "a \<notin> pa_attemptId ` set (ow_attempts ?own)" and ex: "ow_executions own' = ow_executions ?own"
    and free: "\<forall>k\<in>set (ow_keys ?own). pk_storageKey k = key \<longrightarrow> pk_gcClaimId k = None \<or> \<not> distinct (map pk_storageKey (ow_keys ?own))"
    and at: "ow_attempts own' = insertRow ?row (ow_attempts ?own)"
    and ks: "ow_keys own' = (if key \<in> pk_storageKey ` set (ow_keys ?own) then ow_keys ?own else insertRow ?new (ow_keys ?own))"
  note own = ok [unfolded siteOk_iff, THEN conjunct1, unfolded ownOk_def] and tasks = ok [unfolded siteOk_iff, THEN conjunct2, unfolded tasksOk_def]
  have other: "guarded (pk_storageKey k) own'" if "k \<in> set (ow_keys own')" "pk_gcClaimId k \<noteq> None" for k
  proof -
    from that ks have k: "k \<in> set (ow_keys ?own)" by (auto split: if_splits)
    with that(2) free own have "pk_storageKey k \<noteq> key" by auto
    with k that(2) own show ?thesis by (auto simp: guarded_def at stopped_frame [OF ex])
  qed
  have "distinct (map pk_storageKey (ow_keys own'))" "distinct (map pa_attemptId (ow_attempts own'))"
    using own fresh by (auto simp: ks at insertRow_def)
  with other own have 1: "ownOk own' (si_ended s)" by (auto simp: ownOk_def stopped_frame [OF ex])
  have keep: "taskOk own' t" if "taskOk ?own t" for t using that by (cases t) (auto simp: at ks)
  have "a \<notin> set (List.map_filter putId (si_tasks s))"
  proof
    assume "a \<in> set (List.map_filter putId (si_tasks s))"
    then obtain t where t: "t \<in> set (si_tasks s)" "putId t = Some a" by (auto simp: set_map_filter)
    then have "taskOk ?own t" using tasks by blast
    with t(2) fresh show False by (cases t) auto
  qed
  with tasks keep e have "tasksOk own' (si_ended s) (Putting a key e # si_tasks s)" by (auto simp: tasksOk_def at)
  with 1 a show ?thesis by (simp add: siteOk_iff)
qed

lemma settle_keeps:
  assumes ok: "siteOk s" and ts: "si_tasks s = xs @ Settling a e # ys" and run: "settlePut a now (si_own s) = (Inr (), own')"
  shows "siteOk (s\<lparr> si_own := own', si_tasks := xs @ ys \<rparr>)"
proof -
  let ?own = "si_own s" and ?f = "\<lambda>x. x\<lparr> pa_state := SETTLED_PUT, pa_settledAt := Some now \<rparr>"
  note own = ok [unfolded siteOk_iff, THEN conjunct1, unfolded ownOk_def]
  have tk: "tasksOk ?own (si_ended s) (xs @ Settling a e # ys)" using ok ts by (simp add: siteOk_iff)
  have own': "own' = ?own\<lparr> ow_attempts := updateRows (\<lambda>x. pa_attemptId x = a) ?f (ow_attempts ?own) \<rparr>"
    using run by (simp add: settlePut_def modify_def)
  have rows: "ow_attempts own' = updateRows (\<lambda>x. pa_attemptId x = a) ?f (ow_attempts ?own)" "ow_keys own' = ow_keys ?own"
    by (simp_all add: own')
  have st: "executionStopped x own' = executionStopped x ?own" for x by (rule stopped_frame) (simp add: own')
  have "map pa_attemptId (ow_attempts own') = map pa_attemptId (ow_attempts ?own)" by (simp add: rows updateRows_def)
  moreover have "guarded key own'" if "guarded key ?own" for key
    using that by (auto simp: guarded_def st rows set_updateRows)
  ultimately have 1: "ownOk own' (si_ended s)" using own by (simp add: ownOk_def st rows(2))
  have keep: "taskOk own' t" if t: "t \<in> set (xs @ ys)" for t
  proof -
    have "taskOk ?own t" "putId t \<noteq> Some a" using tk t by (auto simp: tasksOk_def set_map_filter)
    then show ?thesis by (cases t) (force simp: rows set_updateRows)+
  qed
  have "tasksOk own' (si_ended s) (xs @ ys)" using tasksOk_append [OF tk] keep by (auto simp: tasksOk_def)
  with 1 show ?thesis by (simp add: siteOk_iff)
qed

lemma claim_keeps:
  assumes ok: "siteOk s" and e: "e \<notin> set (si_ended s)" and run: "claimForGc key c e now (si_own s) = (Inr GcClaimed, own')"
  shows "siteOk (s\<lparr> si_own := own', si_tasks := Aborting key c e # si_tasks s \<rparr>)"
  using run
proof (rule claimForGc_run)
  let ?own = "si_own s" and ?f = "\<lambda>k. k\<lparr> pk_gcClaimId := Some c, pk_gcExecutionId := Some e, pk_gcClaimedAt := Some now \<rparr>"
  fix k
  assume k: "k \<in> set (ow_keys ?own)" "pk_storageKey k = key" and g: "guarded key ?own"
    and free: "pk_gcClaimId k = None \<or> (\<exists>x. pk_gcExecutionId k = Some x \<and> executionStopped x ?own)"
    and own': "own' = ?own\<lparr> ow_keys := updateRows (\<lambda>k. pk_storageKey k = key) ?f (ow_keys ?own) \<rparr>"
  note own = ok [unfolded siteOk_iff, THEN conjunct1, unfolded ownOk_def] and tasks = ok [unfolded siteOk_iff, THEN conjunct2, unfolded tasksOk_def]
  have rows: "ow_keys own' = updateRows (\<lambda>k. pk_storageKey k = key) ?f (ow_keys ?own)" "ow_attempts own' = ow_attempts ?own"
    by (simp_all add: own')
  have st: "executionStopped x own' = executionStopped x ?own" for x by (rule stopped_frame) (simp add: own')
  have gd: "guarded x own' = guarded x ?own" for x by (simp add: guarded_def st rows)
  have "map pk_storageKey (ow_keys own') = map pk_storageKey (ow_keys ?own)" by (simp add: rows updateRows_def)
  moreover have "guarded (pk_storageKey q) own'" if "q \<in> set (ow_keys own')" "pk_gcClaimId q \<noteq> None" for q
    using that g own by (auto simp: gd rows set_updateRows)
  ultimately have 1: "ownOk own' (si_ended s)" using own by (simp add: ownOk_def st rows(2))
  have none: "claimKey t \<noteq> Some key" if t: "t \<in> set (si_tasks s)" for t
  proof
    assume "claimKey t = Some key"
    moreover have "taskOk ?own t" "taskProcess t \<notin> set (si_ended s)" using t tasks by auto
    ultimately obtain q x where q: "q \<in> set (ow_keys ?own)" "pk_storageKey q = key" "pk_gcClaimId q \<noteq> None" "pk_gcExecutionId q = Some x"
      "x \<notin> set (si_ended s)" by (cases t) auto
    have "q = k" using own q(1,2) k by (metis distinct_map inj_onD)
    with q free own show False by auto
  qed
  have keep: "taskOk own' t" if t: "t \<in> set (si_tasks s)" for t
  proof -
    have "taskOk ?own t" "claimKey t \<noteq> Some key" using tasks none t by auto
    then show ?thesis by (cases t) (force simp: rows set_updateRows)+
  qed
  have "taskOk own' (Aborting key c e)" using k by (auto simp: rows set_updateRows intro!: bexI [of _ "?f k"] image_eqI [of _ _ k])
  then have "tasksOk own' (si_ended s) (Aborting key c e # si_tasks s)"
    using tasks keep e none by (auto simp: tasksOk_def set_map_filter)
  with 1 show ?thesis by (simp add: siteOk_iff)
qed

lemma release_keeps:
  assumes ok: "siteOk s" and ts: "si_tasks s = xs @ Releasing key c e # ys" and run: "releaseGcClaim key c (si_own s) = (Inr (), own')"
  shows "siteOk (s\<lparr> si_own := own', si_tasks := xs @ ys \<rparr>)"
proof -
  let ?own = "si_own s" and ?f = "\<lambda>k. k\<lparr> pk_gcClaimId := None, pk_gcExecutionId := None, pk_gcClaimedAt := None \<rparr>"
  note own = ok [unfolded siteOk_iff, THEN conjunct1, unfolded ownOk_def]
  have tk: "tasksOk ?own (si_ended s) (xs @ Releasing key c e # ys)" using ok ts by (simp add: siteOk_iff)
  have own': "own' = ?own\<lparr> ow_keys := updateRows (\<lambda>k. pk_storageKey k = key \<and> pk_gcClaimId k = Some c) ?f (ow_keys ?own) \<rparr>"
    using run by (simp add: releaseGcClaim_def modify_def)
  have rows: "ow_keys own' = updateRows (\<lambda>k. pk_storageKey k = key \<and> pk_gcClaimId k = Some c) ?f (ow_keys ?own)"
    "ow_attempts own' = ow_attempts ?own" by (simp_all add: own')
  have st: "executionStopped x own' = executionStopped x ?own" for x by (rule stopped_frame) (simp add: own')
  have gd: "guarded x own' = guarded x ?own" for x by (simp add: guarded_def st rows)
  have "map pk_storageKey (ow_keys own') = map pk_storageKey (ow_keys ?own)" by (simp add: rows updateRows_def)
  moreover have "guarded (pk_storageKey q) own'" if "q \<in> set (ow_keys own')" "pk_gcClaimId q \<noteq> None" for q
    using that own by (auto simp: gd rows set_updateRows split: if_splits)
  ultimately have 1: "ownOk own' (si_ended s)" using own by (simp add: ownOk_def st rows(2))
  have keep: "taskOk own' t" if t: "t \<in> set (xs @ ys)" for t
  proof -
    have "taskOk ?own t" "claimKey t \<noteq> Some key" using tk t by (auto simp: tasksOk_def set_map_filter)
    then show ?thesis by (cases t) (force simp: rows set_updateRows)+
  qed
  have "tasksOk own' (si_ended s) (xs @ ys)" using tasksOk_append [OF tk] keep by (auto simp: tasksOk_def)
  with 1 show ?thesis by (simp add: siteOk_iff)
qed

lemma advance_keeps:
  assumes ok: "siteOk s" and ts: "si_tasks s = xs @ t # ys" and "putId t' = putId t" and "claimKey t' = claimKey t"
    and "taskProcess t' = taskProcess t" and "taskOk (si_own s) t \<Longrightarrow> taskOk (si_own s) t'"
  shows "siteOk (s\<lparr> si_tasks := xs @ t' # ys \<rparr>)"
  using assms by (auto simp: siteOk_iff tasksOk_def)

lemma putStep_keeps:
  assumes "putStep s t" and ok: "siteOk s"
  shows "siteOk t"
  using assms(1)
proof (cases rule: putStep.cases)
  case (beginPut e key a now a' own')
  then show ?thesis using beginPut_keeps [OF ok] by simp
next
  case (refusePut key e a now err own')
  then show ?thesis using ok refusedPut_run by fastforce
next
  case (endPut xs a key e ys)
  show ?thesis unfolding endPut(1) by (rule advance_keeps [OF ok endPut(2)]) auto
next
  case (settle xs a e ys now own')
  then show ?thesis using settle_keeps [OF ok] by simp
qed

lemma abortStep_keeps:
  assumes "abortStep s t" and ok: "siteOk s"
  shows "siteOk t"
  using assms(1)
proof (cases rule: abortStep.cases)
  case (claim e key c now own')
  then show ?thesis using claim_keeps [OF ok] by simp
next
  case (refuseClaim key c e now r own')
  have "own' = si_own s" by (rule refusedClaim_run [OF refuseClaim(2,3)])
  with ok show ?thesis by (simp add: refuseClaim(1))
next
  case (endAbort xs key c e ys)
  show ?thesis unfolding endAbort(1) by (rule advance_keeps [OF ok endAbort(2)]) auto
next
  case (release xs key c e ys own')
  then show ?thesis using release_keeps [OF ok] by simp
next
  case (failRelease xs key c e ys)
  with ok show ?thesis by (auto simp: siteOk_iff intro: tasksOk_append)
qed

lemma siteStep_keeps:
  assumes "siteStep s t" and ok: "siteOk s"
  shows "siteOk t"
  using assms(1)
proof (cases rule: siteStep.cases)
  case (register e now own')
  note r = registerExecution_run [OF register(2)]
  have "guarded k own' = guarded k (si_own s)" for k by (simp add: guarded_def r)
  with ok show ?thesis by (simp add: register(1) siteOk_iff ownOk_def tasksOk_def r taskOk_frame [OF r(1,2)])
next
  case put
  then show ?thesis by (rule putStep_keeps [OF _ ok])
next
  case abort
  then show ?thesis by (rule abortStep_keeps [OF _ ok])
next
  case (kill e)
  with ok show ?thesis by (auto simp: siteOk_iff ownOk_def tasksOk_def intro: distinct_map_filter_filter)
next
  case (confirm e evidence now r own')
  note c = confirm_run [OF confirm(3)]
  have "guarded k own'" if "guarded k (si_own s)" for k by (rule guarded_mono [OF that c(2,3)])
  moreover have "x \<in> set (si_ended s)" if "executionStopped x own'" for x
    using c(4) [OF that] confirm(2) ok by (auto simp: siteOk_iff ownOk_def)
  ultimately show ?thesis using ok
    by (auto simp: confirm(1) siteOk_iff ownOk_def tasksOk_def c(1,2) taskOk_frame [OF c(1,2)])
qed

lemma siteRun_keeps: "siteRun s t \<Longrightarrow> siteOk s \<Longrightarrow> siteOk t"
  by (induction rule: siteRun.induct) (auto intro: siteStep_keeps)

section \<open>Mutual exclusion\<close>

definition emptySite :: site where
  "emptySite = \<lparr> si_own = \<lparr> ow_executions = [], ow_keys = [], ow_attempts = [] \<rparr>, si_tasks = [], si_ended = [] \<rparr>"

lemma emptySite_ok: "siteOk emptySite"
  by (simp add: siteOk_def emptySite_def executionStopped_def findRow_def List.map_filter_def)

text \<open>
  C31: however writers and collectors interleave, crash and are confirmed dead, a transfer to a key
  and the abort of a multipart upload under that key are never under way together, and neither are
  two aborts under one key.
\<close>

theorem put_and_abort_exclude:
  assumes "siteRun emptySite s" and "Aborting key c e \<in> set (si_tasks s)"
  shows "Putting a key e' \<notin> set (si_tasks s) \<and> (Aborting key c' e' \<in> set (si_tasks s) \<longrightarrow> c' = c \<and> e' = e)"
proof -
  have ok: "siteOk s" by (rule siteRun_keeps [OF assms(1) emptySite_ok])
  have "c' = c \<and> e' = e" if "Aborting key c' e' \<in> set (si_tasks s)"
  proof -
    have "taskOk (si_own s) (Aborting key c e)" "taskOk (si_own s) (Aborting key c' e')"
      using ok assms(2) that by (auto simp: siteOk_def)
    then obtain k k' where "k \<in> set (ow_keys (si_own s))" "k' \<in> set (ow_keys (si_own s))" "pk_storageKey k = pk_storageKey k'"
      and k: "pk_gcClaimId k = Some c" "pk_gcExecutionId k = Some e" "pk_gcClaimId k' = Some c'" "pk_gcExecutionId k' = Some e'" by auto
    then have "k = k'" using ok unfolding siteOk_def by (metis distinct_map inj_onD)
    with k show ?thesis by simp
  qed
  with site_excludes [OF ok _ assms(2)] show ?thesis by blast
qed

definition exSettled :: site where
  "exSettled = \<lparr> si_own = \<lparr> ow_executions = [],
      ow_keys = [\<lparr> pk_storageKey = js ''k'', pk_gcClaimId = Some (js ''c''), pk_gcExecutionId = Some (js ''g''), pk_gcClaimedAt = Some 3 \<rparr>],
      ow_attempts = [\<lparr> pa_attemptId = js ''a'', pa_executionId = js ''w'', pa_storageKey = js ''k'', pa_state = SETTLED_PUT,
        pa_createdAt = 1, pa_settledAt = Some 2 \<rparr>] \<rparr>,
      si_tasks = [Aborting (js ''k'') (js ''c'') (js ''g'')], si_ended = [] \<rparr>"

theorem put_and_abort_exclude_witness:
  "siteRun emptySite exSettled \<and> Aborting (js ''k'') (js ''c'') (js ''g'') \<in> set (si_tasks exSettled) \<and>
   Putting (js ''b'') (js ''k'') (js ''w'') \<notin> set (si_tasks exSettled)"
proof -
  note run = emptySite_def exSettled_def beginPut_def ensureKey_def insertAttempt_def settlePut_def claimForGc_def findPutKey_def
    findRow_def transaction_def andThen_def bind_def gets_def modify_def ret_def throwIf_def throw_def insertRow_def updateRows_def Let_def
  let ?begun = "snd (beginPut (js ''k'') (js ''w'') (js ''a'') 1 (si_own emptySite))"
  let ?settled = "snd (settlePut (js ''a'') 2 ?begun)"
  let ?s1 = "emptySite\<lparr> si_own := ?begun, si_tasks := [Putting (js ''a'') (js ''k'') (js ''w'')] \<rparr>"
  let ?s2 = "?s1\<lparr> si_tasks := [Settling (js ''a'') (js ''w'')] \<rparr>"
  let ?s3 = "?s2\<lparr> si_own := ?settled, si_tasks := [] \<rparr>"
  have 1: "siteStep emptySite ?s1"
    using siteStep.put [OF putStep.beginPut, of "js ''w''" emptySite "js ''k''" "js ''a''" 1 "js ''a''" ?begun] by (simp add: run)
  have 2: "siteStep ?s1 ?s2" using siteStep.put [OF putStep.endPut, of ?s1 "[]" "js ''a''" "js ''k''" "js ''w''" "[]"] by simp
  have 3: "siteStep ?s2 ?s3"
    using siteStep.put [OF putStep.settle, of ?s2 "[]" "js ''a''" "js ''w''" "[]" 2 ?settled] by (simp add: settlePut_def modify_def)
  have 4: "siteStep ?s3 exSettled"
    using siteStep.abort [OF abortStep.claim, of "js ''g''" ?s3 "js ''k''" "js ''c''" 3 "si_own exSettled"] by (simp add: run)
  have "siteRun emptySite exSettled"
    by (rule siteRun.more [OF siteRun.more [OF siteRun.more [OF siteRun.more [OF siteRun.start 1] 2] 3] 4])
  moreover have "Aborting (js ''k'') (js ''c'') (js ''g'') \<in> set (si_tasks exSettled)" by (simp add: exSettled_def)
  ultimately show ?thesis using put_and_abort_exclude by blast
qed

end
