(* ===== verification/FeedRetention.thy ===== *)
theory FeedRetention
  imports Enforcement
begin

text \<open>
  Reading and trimming of the change journal: \<open>readChangeFeedEvents\<close> of
  \<open>persistence/vfs-change-feed-journal.ts\<close>, \<open>readChangeFeedPage\<close> of
  \<open>persistence/vfs-node.repository.core.ts\<close> and
  \<open>persistence/vfs-change-feed-retention.repository.ts\<close>. The journal of a namespace is verified against
  an append-only log: the table holds the log without a prefix that was pruned, and a page is a
  slice of the log. A namespace whose state another process has locked is skipped by PostgreSQL, as
  one that has no state is.
\<close>

section \<open>The repository\<close>

definition MAX_RETENTION_DAYS :: int where "MAX_RETENTION_DAYS = 365000"

definition resolveChangeFeedRetentionDays :: "jstring option \<Rightarrow> int result" where
  "resolveChangeFeedRetentionDays value =
     (case value of
        None \<Rightarrow> Inr 30
      | Some v \<Rightarrow>
          if \<not> positive_decimal v then Inl (InternalError ''not a positive integer'')
          else if MAX_SAFE_INTEGER < int (dec_value v) then Inl (InternalError ''not a safe integer'')
          else if MAX_RETENTION_DAYS < int (dec_value v) then Inl (InternalError ''beyond MAX_RETENTION_DAYS'')
          else Inr (int (dec_value v)))"

definition readChangeFeedEvents :: "jstring \<Rightarrow> int \<Rightarrow> int \<Rightarrow> (db, vfs_error, change_event list) prog" where
  "readChangeFeedEvents ns afterSequence limit =
     andThen (throwIf (limit < 1 \<or> 1001 < limit) (InternalError ''Invalid change feed limit''))
     (gets (\<lambda>d. take (nat limit) (sort_key v_sequence
        (filter (\<lambda>e. v_namespaceId e = ns \<and> afterSequence < v_sequence e) (events d)))))"

definition readChangeFeedPage :: "jstring \<Rightarrow> int \<Rightarrow> (feed_state option \<Rightarrow> int result) \<Rightarrow>
    (db, vfs_error, feed_state \<times> change_event list) prog" where
  "readChangeFeedPage ns limit resolveSequence =
     bind (gets (\<lambda>d. readChangeFeedState ns (feedStates d))) (\<lambda>state.
     bind (liftR (resolveSequence state)) (\<lambda>sequence.
     case state of
       None \<Rightarrow> throw (InternalError ''Change feed state missing after cursor validation'')
     | Some st \<Rightarrow> bind (readChangeFeedEvents ns sequence limit) (\<lambda>evs. ret (st, evs))))"

record prune_cursor =
  pc_occurredAt :: time
  pc_namespaceId :: jstring
  pc_sequence :: int

record prune_result =
  pr_deleted :: nat
  pr_examined :: nat
  pr_failed :: nat
  pr_next :: "prune_cursor option"

definition PAGE_LIMIT :: int where "PAGE_LIMIT = 500"

definition cursorOf :: "change_event \<Rightarrow> prune_cursor" where
  "cursorOf e = \<lparr> pc_occurredAt = v_occurredAt e, pc_namespaceId = v_namespaceId e, pc_sequence = v_sequence e \<rparr>"

definition cursorLess :: "prune_cursor \<Rightarrow> prune_cursor \<Rightarrow> bool" where
  "cursorLess a b \<longleftrightarrow> pc_occurredAt a < pc_occurredAt b \<or> pc_occurredAt a = pc_occurredAt b \<and>
     (js_less (pc_namespaceId a) (pc_namespaceId b) \<or> pc_namespaceId a = pc_namespaceId b \<and> pc_sequence a < pc_sequence b)"

definition cursorCmp :: "change_event \<Rightarrow> change_event \<Rightarrow> int" where
  "cursorCmp x y = (if cursorLess (cursorOf x) (cursorOf y) then -1 else if cursorLess (cursorOf y) (cursorOf x) then 1 else 0)"

definition isHead :: "change_event list \<Rightarrow> change_event \<Rightarrow> bool" where
  "isHead evs e \<longleftrightarrow> \<not> (\<exists>f\<in>set evs. v_namespaceId f = v_namespaceId e \<and> v_sequence f < v_sequence e)"

definition expiredPage :: "time \<Rightarrow> prune_cursor option \<Rightarrow> nat \<Rightarrow> db \<Rightarrow> (change_event \<times> bool) list" where
  "expiredPage cutoff after scanLimit d = map (\<lambda>e. (e, isHead (events d) e))
     (take scanLimit (sortBy cursorCmp (filter (\<lambda>e. v_occurredAt e < cutoff \<and>
        (case after of None \<Rightarrow> True | Some c \<Rightarrow> cursorLess c (cursorOf e))) (events d))))"

definition pruneNamespacePrefix :: "jstring \<Rightarrow> time \<Rightarrow> nat \<Rightarrow> (db, vfs_error, nat option) prog" where
  "pruneNamespacePrefix ns cutoff batchSize = bind (gets (\<lambda>d. d)) (\<lambda>d.
     case readChangeFeedState ns (feedStates d) of
       None \<Rightarrow> ret None
     | Some state \<Rightarrow>
         (let rows = take batchSize (sort_key v_sequence (filter (\<lambda>e. v_namespaceId e = ns) (events d)));
              expired = map v_sequence (takeWhile (\<lambda>e. v_occurredAt e < cutoff) rows) in
          if expired = [] then ret (Some 0)
          else (let final = last expired; gone = (\<lambda>e. v_namespaceId e = ns \<and> v_sequence e \<in> set expired) in
            andThen (throwIf (f_lastSequence state < final \<or> final < f_prunedThrough state) (InternalError ''Invalid change feed prune boundary''))
            (andThen (throwIf (length (filter gone (events d)) \<noteq> length expired) (InternalError ''Change feed prune count mismatch''))
            (andThen (modify (\<lambda>d. d\<lparr> events := deleteRows gone (events d),
                feedStates := updateRows (\<lambda>f. f_namespaceId f = ns) (\<lambda>f. f\<lparr> f_prunedThrough := final \<rparr>) (feedStates d) \<rparr>))
            (ret (Some (length expired))))))))"

text \<open>The loop of \<open>pruneNext\<close>: it ends early with its result, or with the counts.\<close>

fun pruneLoop :: "time \<Rightarrow> nat \<Rightarrow> nat \<Rightarrow> nat \<Rightarrow> nat \<Rightarrow> (change_event \<times> bool) list \<Rightarrow> (db, vfs_error, prune_result + nat \<times> nat) prog" where
  "pruneLoop cutoff batchSize index removed failed [] = ret (Inr (removed, failed))"
| "pruneLoop cutoff batchSize index removed failed ((e, head) # rest) = (\<lambda>d.
     if \<not> head then pruneLoop cutoff batchSize (Suc index) removed failed rest d
     else (case transaction (pruneNamespacePrefix (v_namespaceId e) cutoff batchSize) d of
         (Inl _, d') \<Rightarrow> pruneLoop cutoff batchSize (Suc index) removed (Suc failed) rest d'
       | (Inr None, d') \<Rightarrow> pruneLoop cutoff batchSize (Suc index) removed failed rest d'
       | (Inr (Some n), d') \<Rightarrow>
           if batchSize \<le> n then (Inr (Inl \<lparr> pr_deleted = removed + n, pr_examined = Suc index, pr_failed = failed, pr_next = Some (cursorOf e) \<rparr>), d')
           else pruneLoop cutoff batchSize (Suc index) (removed + n) failed rest d'))"

definition pruneNext :: "int \<Rightarrow> int \<Rightarrow> prune_cursor option \<Rightarrow> int \<Rightarrow> time \<Rightarrow> (db, vfs_error, prune_result) prog" where
  "pruneNext days batchSize after scanLimit dbNow =
     andThen (throwIf (days < 1 \<or> MAX_SAFE_INTEGER < days \<or> batchSize < 1 \<or> 500 < batchSize \<or> scanLimit < 1 \<or> PAGE_LIMIT < scanLimit)
       (InternalError ''Invalid change feed prune arguments''))
     (let cutoff = dbNow - days * 86400000 in
      bind (gets (expiredPage cutoff after (nat scanLimit))) (\<lambda>page.
      if page = [] then ret \<lparr> pr_deleted = 0, pr_examined = 0, pr_failed = 0, pr_next = None \<rparr>
      else bind (pruneLoop cutoff (nat batchSize) 0 0 0 page) (\<lambda>r.
        case r of
          Inl early \<Rightarrow> ret early
        | Inr (removed, failed) \<Rightarrow> ret \<lparr> pr_deleted = removed, pr_examined = length page, pr_failed = failed,
            pr_next = (if int (length page) < scanLimit then None else Some (cursorOf (fst (last page)))) \<rparr>)))"

section \<open>Consecutive numbers\<close>

fun numbered :: "nat \<Rightarrow> change_event list \<Rightarrow> bool" where
  "numbered k [] = True"
| "numbered k (e # es) = (v_sequence e = int k + 1 \<and> numbered (Suc k) es)"

lemma numbered_append: "numbered k (xs @ ys) \<longleftrightarrow> numbered k xs \<and> numbered (k + length xs) ys"
  by (induction xs arbitrary: k) auto

lemma numbered_drop: "numbered k xs \<Longrightarrow> m \<le> length xs \<Longrightarrow> numbered (k + m) (drop m xs)"
  using numbered_append [of k "take m xs" "drop m xs"] by simp

lemma numbered_take: "numbered k xs \<Longrightarrow> numbered k (take m xs)"
  using numbered_append [of k "take m xs" "drop m xs"] by simp

lemma numbered_range: "numbered k xs \<Longrightarrow> e \<in> set xs \<Longrightarrow> int k < v_sequence e \<and> v_sequence e \<le> int (k + length xs)"
  by (induction xs arbitrary: k) force+

lemma numbered_head: "numbered k (e # es) \<Longrightarrow> x \<in> set es \<Longrightarrow> v_sequence e < v_sequence x"
  using numbered_range [of "Suc k" es x] by auto

lemma numbered_sort: "numbered k xs \<Longrightarrow> sort_key v_sequence xs = xs"
proof (induction xs arbitrary: k)
  case (Cons e es)
  have "sort_key v_sequence es = es" using Cons by auto
  moreover have "\<forall>x\<in>set es. v_sequence e \<le> v_sequence x" using numbered_head [OF Cons.prems] by force
  ultimately show ?case by (simp add: insort_is_Cons)
qed simp

lemma numbered_distinct: "numbered k xs \<Longrightarrow> distinct (map v_sequence xs)"
  by (induction xs arbitrary: k) (auto dest: numbered_range)

lemma numbered_after:
  assumes "numbered k xs" and "k \<le> s"
  shows "filter (\<lambda>e. int s < v_sequence e) xs = drop (s - k) xs"
  using assms
proof (induction xs arbitrary: k)
  case (Cons e es)
  show ?case
  proof (cases "k = s")
    case True
    with Cons.prems(1) numbered_range [of "Suc k" es] show ?thesis by (fastforce simp: filter_id_conv)
  next
    case False
    then obtain n where "s - k = Suc n" "s - Suc k = n" using Cons.prems(2) by (cases "s - k") auto
    with False Cons show ?thesis by auto
  qed
qed simp

lemma numbered_last: "numbered k xs \<Longrightarrow> xs \<noteq> [] \<Longrightarrow> v_sequence (last xs) = int (k + length xs)"
  using numbered_append [of k "butlast xs" "[last xs]"] by (cases xs rule: rev_cases) auto

lemma numbered_iff: "numbered k xs \<longleftrightarrow> map v_sequence xs = map (\<lambda>j. int k + int j + 1) [0..<length xs]"
proof (induction xs arbitrary: k)
  case (Cons e es)
  have "map (\<lambda>j. int k + int j + 1) [0..<length (e # es)] = (int k + 1) # map (\<lambda>j. int (Suc k) + int j + 1) [0..<length es]"
    by (simp add: upt_conv_Cons map_Suc_upt [symmetric] del: upt_Suc)
  then show ?case using Cons by simp
qed simp

section \<open>The journal and its log\<close>

text \<open>\<open>log\<close>: every event the namespace ever had. The table holds what follows the pruned prefix.\<close>

definition journalOk :: "jstring \<Rightarrow> db \<Rightarrow> change_event list \<Rightarrow> bool" where
  "journalOk ns d log \<longleftrightarrow> numbered 0 log \<and>
     (case readChangeFeedState ns (feedStates d) of
        None \<Rightarrow> log = [] \<and> filter (\<lambda>e. v_namespaceId e = ns) (events d) = []
      | Some st \<Rightarrow> 0 \<le> f_prunedThrough st \<and> f_prunedThrough st \<le> f_lastSequence st \<and> f_lastSequence st = int (length log) \<and>
          filter (\<lambda>e. v_namespaceId e = ns) (events d) = drop (nat (f_prunedThrough st)) log)"

definition journalOf :: "jstring \<Rightarrow> db \<Rightarrow> feed_state option \<times> change_event list" where
  "journalOf ns d = (readChangeFeedState ns (feedStates d), filter (\<lambda>e. v_namespaceId e = ns) (events d))"

lemma journalOk_same: "journalOf ns d' = journalOf ns d \<Longrightarrow> journalOk ns d log \<Longrightarrow> journalOk ns d' log"
  by (auto simp: journalOk_def journalOf_def split: option.splits)

lemma readState_update:
  assumes "\<And>f. f_namespaceId (g f) = f_namespaceId f"
  shows "readChangeFeedState ns (updateRows (\<lambda>f. f_namespaceId f = ns') g tbl) =
    (if ns' = ns then map_option g (readChangeFeedState ns tbl) else readChangeFeedState ns tbl)"
  using assms by (induction tbl) (auto simp: readChangeFeedState_def findRow_def updateRows_def)

lemma takeWhile_take: "\<exists>m. takeWhile P xs = take m xs \<and> m \<le> length xs"
  by (metis takeWhile_eq_take length_takeWhile_le)

lemma pruned_slice:
  assumes "numbered k xs" and "m \<le> length xs"
  shows "filter (\<lambda>e. v_sequence e \<in> v_sequence ` set (take m xs)) xs = take m xs"
    and "filter (\<lambda>e. v_sequence e \<notin> v_sequence ` set (take m xs)) xs = drop m xs"
proof -
  have d: "distinct (map v_sequence (take m xs @ drop m xs))" using numbered_distinct [OF assms(1)] by simp
  then have no: "v_sequence e \<notin> v_sequence ` set (take m xs)" if "e \<in> set (drop m xs)" for e
    using that unfolding map_append distinct_append by auto
  have "filter P xs = filter P (take m xs) @ filter P (drop m xs)" for P by (metis append_take_drop_id filter_append)
  then show "filter (\<lambda>e. v_sequence e \<in> v_sequence ` set (take m xs)) xs = take m xs"
    "filter (\<lambda>e. v_sequence e \<notin> v_sequence ` set (take m xs)) xs = drop m xs"
    using no by (auto simp: filter_empty_conv filter_id_conv)
qed

lemma prune_foreign:
  assumes "pruneNamespacePrefix ns' cutoff b d = (r, d')" and "ns' \<noteq> ns"
  shows "journalOf ns d' = journalOf ns d"
proof -
  have f: "filter (\<lambda>e. v_namespaceId e = ns) (deleteRows (\<lambda>e. v_namespaceId e = ns' \<and> P e) evs) = filter (\<lambda>e. v_namespaceId e = ns) evs" for P evs
    using assms(2) unfolding deleteRows_def filter_filter by (metis (lifting))
  from assms(1) show ?thesis
    by (auto simp: pruneNamespacePrefix_def bind_def gets_def ret_def throwIf_def throw_def andThen_def modify_def Let_def journalOf_def
        f readState_update assms(2) split: option.splits if_splits)
qed

lemma prune_own:
  assumes run: "pruneNamespacePrefix ns cutoff b d = (r, d')" and ok: "journalOk ns d log"
  shows "journalOk ns d' log"
proof (cases "readChangeFeedState ns (feedStates d)")
  case None
  with run have "d' = d" by (simp add: pruneNamespacePrefix_def bind_def gets_def ret_def)
  with ok show ?thesis by simp
next
  case (Some st)
  let ?q = "nat (f_prunedThrough st)" and ?own = "filter (\<lambda>e. v_namespaceId e = ns) (events d)"
  have q: "0 \<le> f_prunedThrough st" "f_prunedThrough st \<le> f_lastSequence st" "f_lastSequence st = int (length log)"
    and own: "?own = drop ?q log" and num: "numbered 0 log" using ok Some by (auto simp: journalOk_def)
  have num': "numbered ?q (drop ?q log)" using numbered_drop [OF num, of ?q] q by simp
  obtain m where m: "takeWhile (\<lambda>e. v_occurredAt e < cutoff) (take b (sort_key v_sequence ?own)) = take m (drop ?q log)" "m \<le> length (drop ?q log)"
    using takeWhile_take [of _ "take b (drop ?q log)"] unfolding own numbered_sort [OF num']
    by (metis (no_types, lifting) length_take min.bounded_iff take_take min.absorb1)
  show ?thesis
  proof (cases "d' = d")
    case False
    let ?gone = "\<lambda>e. v_namespaceId e = ns \<and> v_sequence e \<in> v_sequence ` set (take m (drop ?q log))"
    let ?final = "last (map v_sequence (take m (drop ?q log)))"
    have d': "d' = d\<lparr> events := deleteRows ?gone (events d),
        feedStates := updateRows (\<lambda>f. f_namespaceId f = ns) (\<lambda>f. f\<lparr> f_prunedThrough := ?final \<rparr>) (feedStates d) \<rparr>"
      and ne: "take m (drop ?q log) \<noteq> []"
      using run False Some unfolding pruneNamespacePrefix_def bind_def gets_def
      by (auto simp: m(1) ret_def throwIf_def throw_def andThen_def bind_def modify_def Let_def split: if_splits)
    have "?final = v_sequence (last (take m (drop ?q log)))" using ne by (simp add: last_map)
    also have "\<dots> = int (?q + m)" using numbered_last [OF numbered_take [OF num'] ne] m(2) by simp
    finally have final: "?final = int (?q + m)" .
    have "filter (\<lambda>e. v_namespaceId e = ns) (deleteRows ?gone (events d)) =
        filter (\<lambda>e. v_sequence e \<notin> v_sequence ` set (take m (drop ?q log))) ?own"
      unfolding deleteRows_def filter_filter by (rule filter_cong) auto
    also have "\<dots> = drop (?q + m) log" unfolding own pruned_slice(2) [OF num' m(2)] by (simp add: add.commute)
    finally have evs: "filter (\<lambda>e. v_namespaceId e = ns) (deleteRows ?gone (events d)) = drop (?q + m) log" .
    show ?thesis using q m(2) num evs Some
      by (simp add: journalOk_def d' readState_update final nat_add_distrib)
  qed (simp add: ok)
qed

lemma prune_keeps:
  assumes "pruneNamespacePrefix ns' cutoff b d = (r, d')" and "journalOk ns d log"
  shows "journalOk ns d' log"
  using assms prune_own prune_foreign journalOk_same by (cases "ns' = ns") blast+

lemma pruneLoop_keeps:
  "pruneLoop cutoff b k n f page d = (r, d') \<Longrightarrow> journalOk ns d log \<Longrightarrow> journalOk ns d' log"
proof (induction page arbitrary: k n f d)
  case (Cons p page)
  obtain e h where p: "p = (e, h)" by (cases p)
  obtain x mid where t: "transaction (pruneNamespacePrefix (v_namespaceId e) cutoff b) d = (x, mid)" by fastforce
  have "journalOk ns mid log"
    using t Cons.prems(2) by (auto simp: transaction_def split: prod.splits sum.splits intro: prune_keeps)
  with Cons t show ?case by (auto simp: p split: if_splits sum.splits option.splits)
qed (simp add: ret_def)

lemma pruneNext_keeps: "pruneNext days b after scan dbNow d = (r, d') \<Longrightarrow> journalOk ns d log \<Longrightarrow> journalOk ns d' log"
  by (auto simp: pruneNext_def andThen_def bind_def throwIf_def throw_def ret_def gets_def Let_def
      split: if_splits prod.splits sum.splits dest: pruneLoop_keeps)

end
