(* ===== verification/Receipts.thy ===== *)
theory Receipts
  imports Conditionals
begin

text \<open>
  Receipts of mutations: \<open>persistence/vfs-mutation-receipt.repository.ts\<close> with its entity, the rules of
  \<open>vfs/mutation-receipt.ts\<close> and the service that runs a conditional mutation under a receipt
  (\<open>vfs/mutation.service.ts\<close>). Each SQL statement is an operation of its own with the reading of the
  clock it uses, so that the statements of concurrent requests can be interleaved; a method is the
  composition of its statements. The columns \<open>response_body\<close> and \<open>response_headers\<close> hold JSON text,
  modelled as the value it stands for.
\<close>

section \<open>Rows\<close>

datatype receipt_state = RESERVED | COMPLETE

record receipt_identity =
  ri_namespaceId :: jstring
  ri_scope :: jstring
  ri_key :: uuid

text \<open>
  The bodies a receipt stores or a request answers: the result of a mutation, the body
  \<open>errorResponse\<close> builds from an error, and the two answers about the receipt itself.
\<close>

datatype receipt_body =
    ResultBody "node_response option" "affected_revision list" "uuid option"
  | ErrorBody vfs_error jstring
  | KeyReusedBody jstring
  | InProgressBody jstring

record receipt_response =
  rs_status :: nat
  rs_body :: receipt_body
  rs_headers :: "(jstring \<times> jstring) list"

record mutation_receipt =
  mr_namespaceId :: jstring
  mr_scope :: jstring
  mr_idempotencyKey :: uuid
  mr_state :: receipt_state
  mr_generation :: int
  mr_leaseExpiresAt :: "time option"
  mr_expiresAt :: time
  mr_method :: "jstring option"
  mr_fingerprint :: "jstring option"
  mr_responseStatus :: "nat option"
  mr_responseBody :: "receipt_body option"
  mr_responseHeaders :: "(jstring \<times> jstring) list option"
  mr_requestBodyBytes :: "int option"
  mr_createdAt :: time
  mr_updatedAt :: time

datatype receipt_claim = Owner int | CompleteReceipt mutation_receipt | Busy int

type_synonym 'a rcp = "(mutation_receipt list, vfs_error, 'a) prog"

definition RECEIPT_DAYS :: int where "RECEIPT_DAYS = 30"

definition MAX_CLAIM_ATTEMPTS :: nat where "MAX_CLAIM_ATTEMPTS = 3"

definition MUTATION_LEASE_SECONDS_LIMIT :: int where
  "MUTATION_LEASE_SECONDS_LIMIT = (2147483647 * 3) div 1000"

definition mutationLeaseSeconds :: "jstring option \<Rightarrow> int result" where
  "mutationLeaseSeconds raw = parsePositiveInt raw 60 (Some MUTATION_LEASE_SECONDS_LIMIT)"

definition expiresAfter :: "time \<Rightarrow> int \<Rightarrow> time" where
  "expiresAfter now ms = now + ms"

definition databaseExpiry :: "time \<Rightarrow> int \<Rightarrow> time" where
  "databaseExpiry dbNow seconds = dbNow + seconds * 1000"

definition atReceipt :: "receipt_identity \<Rightarrow> mutation_receipt \<Rightarrow> bool" where
  "atReceipt i r \<longleftrightarrow> mr_namespaceId r = ri_namespaceId i \<and> mr_scope r = ri_scope i \<and> mr_idempotencyKey r = ri_key i"

section \<open>Statements\<close>

text \<open>An \<open>UPDATE\<close> and the number of rows it affects.\<close>

definition updateReceipts :: "(mutation_receipt \<Rightarrow> bool) \<Rightarrow> (mutation_receipt \<Rightarrow> mutation_receipt) \<Rightarrow> nat rcp" where
  "updateReceipts P f rows = (Inr (length (filter P rows)), updateRows P f rows)"

definition findReceipt :: "receipt_identity \<Rightarrow> mutation_receipt list \<Rightarrow> mutation_receipt option" where
  "findReceipt i rows = findRow (atReceipt i) rows"

definition newReceipt :: "receipt_identity \<Rightarrow> int \<Rightarrow> time \<Rightarrow> time \<Rightarrow> mutation_receipt" where
  "newReceipt i leaseSeconds now dbNow = \<lparr> mr_namespaceId = ri_namespaceId i, mr_scope = ri_scope i, mr_idempotencyKey = ri_key i,
     mr_state = RESERVED, mr_generation = 1, mr_leaseExpiresAt = Some (databaseExpiry dbNow leaseSeconds),
     mr_expiresAt = expiresAfter now (RECEIPT_DAYS * 86400000), mr_method = None, mr_fingerprint = None, mr_responseStatus = None,
     mr_responseBody = None, mr_responseHeaders = None, mr_requestBodyBytes = None, mr_createdAt = dbNow, mr_updatedAt = dbNow \<rparr>"

text \<open>\<open>INSERT ... ON CONFLICT DO NOTHING\<close>; the answer says whether a row was inserted.\<close>

definition insertClaim :: "receipt_identity \<Rightarrow> int \<Rightarrow> time \<Rightarrow> time \<Rightarrow> bool rcp" where
  "insertClaim i leaseSeconds now dbNow = bind (gets (findReceipt i)) (\<lambda>found.
     case found of
       Some _ \<Rightarrow> ret False
     | None \<Rightarrow> andThen (modify (insertRow (newReceipt i leaseSeconds now dbNow))) (ret True))"

definition leaseOver :: "time \<Rightarrow> mutation_receipt \<Rightarrow> bool" where
  "leaseOver dbNow r \<longleftrightarrow> (case mr_leaseExpiresAt r of None \<Rightarrow> False | Some t \<Rightarrow> t \<le> dbNow)"

definition takeOver :: "receipt_identity \<Rightarrow> int \<Rightarrow> time \<Rightarrow> nat rcp" where
  "takeOver i leaseSeconds dbNow = updateReceipts
     (\<lambda>r. atReceipt i r \<and> mr_state r = RESERVED \<and> leaseOver dbNow r)
     (\<lambda>r. r\<lparr> mr_generation := mr_generation r + 1, mr_leaseExpiresAt := Some (databaseExpiry dbNow leaseSeconds), mr_updatedAt := dbNow \<rparr>)"

definition deleteCompleted :: "receipt_identity \<Rightarrow> time \<Rightarrow> unit rcp" where
  "deleteCompleted i now = modify (deleteRows (\<lambda>r. atReceipt i r \<and> mr_state r = COMPLETE \<and> mr_expiresAt r \<le> now))"

definition renewReceipt :: "receipt_identity \<Rightarrow> int \<Rightarrow> int \<Rightarrow> time \<Rightarrow> bool rcp" where
  "renewReceipt i generation leaseSeconds dbNow = bind (updateReceipts
       (\<lambda>r. atReceipt i r \<and> mr_state r = RESERVED \<and> mr_generation r = generation)
       (\<lambda>r. r\<lparr> mr_leaseExpiresAt := Some (databaseExpiry dbNow leaseSeconds), mr_updatedAt := dbNow \<rparr>))
     (\<lambda>affected. ret (affected = 1))"

definition claimLost :: vfs_error where
  "claimLost = InternalError ''VFS mutation claim lost''"

definition completeReceipt :: "jstring \<Rightarrow> jstring \<Rightarrow> receipt_response \<Rightarrow> int option \<Rightarrow> time \<Rightarrow> mutation_receipt \<Rightarrow> mutation_receipt" where
  "completeReceipt fingerprint method response requestBodyBytes dbNow r = r\<lparr> mr_state := COMPLETE, mr_leaseExpiresAt := None,
     mr_expiresAt := databaseExpiry dbNow (RECEIPT_DAYS * 86400), mr_method := Some method, mr_fingerprint := Some fingerprint,
     mr_responseStatus := Some (rs_status response), mr_responseBody := Some (rs_body response),
     mr_responseHeaders := Some (rs_headers response), mr_requestBodyBytes := requestBodyBytes, mr_updatedAt := dbNow \<rparr>"

definition completable :: "receipt_identity \<Rightarrow> int \<Rightarrow> time \<Rightarrow> mutation_receipt \<Rightarrow> bool" where
  "completable i generation dbNow r \<longleftrightarrow> atReceipt i r \<and> mr_state r = RESERVED \<and> mr_generation r = generation \<and>
     (case mr_leaseExpiresAt r of None \<Rightarrow> False | Some t \<Rightarrow> dbNow < t)"

definition completeWith :: "receipt_identity \<Rightarrow> int \<Rightarrow> jstring \<Rightarrow> jstring \<Rightarrow> receipt_response \<Rightarrow> int option \<Rightarrow> time \<Rightarrow> unit rcp" where
  "completeWith i generation fingerprint method response requestBodyBytes dbNow =
     bind (updateReceipts (completable i generation dbNow) (completeReceipt fingerprint method response requestBodyBytes dbNow))
     (\<lambda>affected. throwIf (affected \<noteq> 1) claimLost)"

definition completeAfterRollback :: "receipt_identity \<Rightarrow> int \<Rightarrow> jstring \<Rightarrow> jstring \<Rightarrow> receipt_response \<Rightarrow> int option \<Rightarrow> time \<Rightarrow> unit rcp" where
  "completeAfterRollback i generation fingerprint method response requestBodyBytes dbNow =
     transaction (completeWith i generation fingerprint method response requestBodyBytes dbNow)"

definition releaseReceipt :: "receipt_identity \<Rightarrow> int \<Rightarrow> unit rcp" where
  "releaseReceipt i generation = modify (deleteRows (\<lambda>r. atReceipt i r \<and> mr_state r = RESERVED \<and> mr_generation r = generation))"

definition expiredReceipt :: "time \<Rightarrow> time \<Rightarrow> mutation_receipt \<Rightarrow> bool" where
  "expiredReceipt now dbNow r \<longleftrightarrow> mr_state r = COMPLETE \<and> mr_expiresAt r \<le> now \<or>
     mr_state r = RESERVED \<and> mr_expiresAt r \<le> now \<and> leaseOver dbNow r"

definition receiptIdentity :: "mutation_receipt \<Rightarrow> receipt_identity" where
  "receiptIdentity r = \<lparr> ri_namespaceId = mr_namespaceId r, ri_scope = mr_scope r, ri_key = mr_idempotencyKey r \<rparr>"

definition deleteExpired :: "receipt_identity \<Rightarrow> time \<Rightarrow> time \<Rightarrow> unit rcp" where
  "deleteExpired i now dbNow = modify (deleteRows (\<lambda>r. atReceipt i r \<and> expiredReceipt now dbNow r))"

section \<open>Methods\<close>

text \<open>\<open>clock\<close> gives the database's time at the two statements that read it.\<close>

definition tryClaim :: "receipt_identity \<Rightarrow> int \<Rightarrow> time \<Rightarrow> time \<times> time \<Rightarrow> receipt_claim option rcp" where
  "tryClaim i leaseSeconds now clock =
     bind (insertClaim i leaseSeconds now (fst clock)) (\<lambda>inserted.
     if inserted then ret (Some (Owner 1))
     else bind (takeOver i leaseSeconds (snd clock)) (\<lambda>affected.
       bind (gets (findReceipt i)) (\<lambda>found.
       case found of
         None \<Rightarrow> ret None
       | Some row \<Rightarrow>
           if affected = 1 then ret (Some (Owner (mr_generation row)))
           else if mr_state row = COMPLETE then
             (if mr_expiresAt row \<le> now then andThen (deleteCompleted i now) (ret None)
              else ret (Some (CompleteReceipt row)))
           else ret (Some (Busy (max 1 (- ((now - (case mr_leaseExpiresAt row of None \<Rightarrow> now | Some t \<Rightarrow> t)) div 1000))))))))"

fun claimLoop :: "nat \<Rightarrow> receipt_identity \<Rightarrow> int \<Rightarrow> time \<Rightarrow> (nat \<Rightarrow> time \<times> time) \<Rightarrow> receipt_claim rcp" where
  "claimLoop 0 i leaseSeconds now clock = ret (Busy 1)"
| "claimLoop (Suc n) i leaseSeconds now clock = bind (tryClaim i leaseSeconds now (clock n)) (\<lambda>claim.
     case claim of Some c \<Rightarrow> ret c | None \<Rightarrow> claimLoop n i leaseSeconds now clock)"

definition claimReceipt :: "receipt_identity \<Rightarrow> int \<Rightarrow> time \<Rightarrow> (nat \<Rightarrow> time \<times> time) \<Rightarrow> receipt_claim rcp" where
  "claimReceipt = claimLoop MAX_CLAIM_ATTEMPTS"

definition pruneExpired :: "time \<Rightarrow> time \<Rightarrow> time \<Rightarrow> nat rcp" where
  "pruneExpired now dbNow dbNow' =
     bind (gets (\<lambda>rows. take 500 (sort_key mr_expiresAt (filter (expiredReceipt now dbNow) rows)))) (\<lambda>expired.
     andThen (forEach expired (\<lambda>row. deleteExpired (receiptIdentity row) now dbNow'))
     (ret (length expired)))"

section \<open>Answers\<close>

definition isReplayableMutationError :: "vfs_error \<Rightarrow> bool" where
  "isReplayableMutationError e \<longleftrightarrow>
     (case error_status e of
        None \<Rightarrow> False
      | Some st \<Rightarrow> 400 \<le> st \<and> st \<le> 499 \<and> st \<noteq> 401 \<and> \<not> (case e of Node (VfsNamespaceNotFoundError _) \<Rightarrow> True | _ \<Rightarrow> False))"

definition requestIdHeader :: "jstring \<Rightarrow> (jstring \<times> jstring) list" where
  "requestIdHeader requestId = [(js ''x-request-id'', requestId)]"

definition errorResponse :: "vfs_error \<Rightarrow> nat \<Rightarrow> jstring \<Rightarrow> receipt_response" where
  "errorResponse e st requestId = \<lparr> rs_status = st, rs_body = ErrorBody e requestId, rs_headers = requestIdHeader requestId \<rparr>"

text \<open>A row without a stored response has no answer; no \<open>COMPLETE\<close> row is without one.\<close>

definition replayReceipt :: "mutation_receipt \<Rightarrow> jstring \<Rightarrow> jstring \<Rightarrow> jstring \<Rightarrow> receipt_response option" where
  "replayReceipt receipt method fingerprint requestId =
     (if mr_method receipt \<noteq> Some method \<or> mr_fingerprint receipt \<noteq> Some fingerprint
      then Some \<lparr> rs_status = 409, rs_body = KeyReusedBody requestId, rs_headers = requestIdHeader requestId \<rparr>
      else (case (mr_responseStatus receipt, mr_responseBody receipt, mr_responseHeaders receipt) of
          (Some st, Some body, Some headers) \<Rightarrow> Some \<lparr> rs_status = st, rs_body = body, rs_headers = headers \<rparr>
        | _ \<Rightarrow> None))"

definition busyResponse :: "int \<Rightarrow> jstring \<Rightarrow> receipt_response" where
  "busyResponse retryAfterSeconds requestId = \<lparr> rs_status = 409, rs_body = InProgressBody requestId,
     rs_headers = (js ''retry-after'', show_int retryAfterSeconds) # requestIdHeader requestId \<rparr>"

end
