(* ===== verification/MutationService.thy ===== *)
theory MutationService
  imports Receipts
begin

text \<open>
  A conditional mutation under a receipt: \<open>vfs/mutation.service.ts\<close>, the storing of error receipts
  (\<open>storeErrorReceipt\<close>, \<open>throwMutationError\<close> of \<open>vfs/mutation-receipt.ts\<close>), \<open>vfs/require-root.ts\<close>
  and \<open>common/namespace-id.ts\<close>. The state is the node store and the receipts. The parsed body and the
  fingerprint, a SHA-256 of the request, are arguments.
\<close>

type_synonym desk = "store \<times> mutation_receipt list"
type_synonym 'a dsk = "(desk, vfs_error, 'a) prog"

definition onReceipts :: "'a rcp \<Rightarrow> 'a dsk" where
  "onReceipts m s = (case m (snd s) of (r, rows) \<Rightarrow> (r, (fst s, rows)))"

text \<open>\<open>try { m } catch (error) { h(error) }\<close>: what \<open>m\<close> did before it threw stays.\<close>

definition recover :: "('s, 'e, 'a) prog \<Rightarrow> ('e \<Rightarrow> ('s, 'e, 'a) prog) \<Rightarrow> ('s, 'e, 'a) prog" where
  "recover m h s = (case m s of (Inl e, t) \<Rightarrow> h e t | (Inr x, t) \<Rightarrow> (Inr x, t))"

section \<open>The namespace\<close>

definition is_prefix_char :: "jchar \<Rightarrow> bool" where
  "is_prefix_char c \<longleftrightarrow> 97 \<le> c \<and> c \<le> 122 \<or> is_digit c \<or> c = 95 \<or> c = 45"

definition namespacePrefix :: "jstring \<Rightarrow> bool" where
  "namespacePrefix p \<longleftrightarrow> (case p of [] \<Rightarrow> False
     | c # cs \<Rightarrow> 97 \<le> c \<and> c \<le> 122 \<and> length cs \<le> 11 \<and> (\<forall>x\<in>set cs. is_prefix_char x))"

definition hyphenated :: "jstring \<Rightarrow> bool" where
  "hyphenated s \<longleftrightarrow> map length (js_split 45 s) = [8, 4, 4, 4, 12] \<and> (\<forall>x\<in>set (concat (js_split 45 s)). is_hex x)"

definition isNamespaceId :: "jstring \<Rightarrow> bool" where
  "isNamespaceId value \<longleftrightarrow> length value \<le> 45 \<and>
     (hyphenated value \<or>
      (let p = take (length value - 32) value; h = drop (length value - 32) value in
       length h = 32 \<and> (\<forall>x\<in>set h. is_hex x) \<and> (p = [] \<or> last p = 95 \<and> namespacePrefix (butlast p))))"

definition getRoot :: "jstring \<Rightarrow> db \<Rightarrow> node_record option" where
  "getRoot ns d = (case findNamespace ns (namespaces d) of
     None \<Rightarrow> None
   | Some n \<Rightarrow> if ns_status n \<noteq> ACTIVE then None else map_option toRecord (findRoot ns (nodes d)))"

definition requireRoot :: "jstring \<Rightarrow> db \<Rightarrow> node_record result" where
  "requireRoot ns d =
     (if \<not> isNamespaceId ns then Inl (Node (VfsNamespaceNotFoundError ns))
      else (case getRoot ns d of None \<Rightarrow> Inl (Node (VfsNamespaceNotFoundError ns)) | Some root \<Rightarrow> Inr root))"

definition namespaceIsActive :: "jstring \<Rightarrow> db \<Rightarrow> bool" where
  "namespaceIsActive ns d = (case findNamespace ns (namespaces d) of None \<Rightarrow> False | Some n \<Rightarrow> ns_status n = ACTIVE)"

section \<open>Requests\<close>

definition identityOf :: "jstring \<Rightarrow> jstring option \<Rightarrow> jstring option \<Rightarrow> receipt_identity result" where
  "identityOf ns scope key =
     (case (key, scope) of
        (Some k, Some sc) \<Rightarrow>
          if uuid_pattern (map lower_ascii k) \<and> sc \<noteq> [] \<and> length sc \<le> 128
          then Inr \<lparr> ri_namespaceId = ns, ri_scope = sc, ri_key = map lower_ascii k \<rparr>
          else Inl (Mutation VfsInvalidMutationRequestError)
      | _ \<Rightarrow> Inl (Mutation VfsInvalidMutationRequestError))"

record receipt_owner =
  ro_identity :: receipt_identity
  ro_generation :: int
  ro_fingerprint :: jstring
  ro_method :: jstring
  ro_requestBodyBytes :: "int option"

definition throwMutationError :: "jstring \<Rightarrow> vfs_error \<Rightarrow> 'a dsk" where
  "throwMutationError ns e = bind (gets (\<lambda>((d, _), _). namespaceIsActive ns d)) (\<lambda>active.
     throw (if e = claimLost \<and> \<not> active then Node (VfsNamespaceNotFoundError ns) else e))"

definition storeErrorReceipt :: "receipt_owner \<Rightarrow> time \<Rightarrow> vfs_error \<Rightarrow> jstring \<Rightarrow> receipt_response dsk" where
  "storeErrorReceipt owner dbNow e requestId =
     (if \<not> isReplayableMutationError e then throwMutationError (ri_namespaceId (ro_identity owner)) e
      else (case error_status e of
          None \<Rightarrow> throwMutationError (ri_namespaceId (ro_identity owner)) e
        | Some st \<Rightarrow> (let response = errorResponse e st requestId in
            recover
              (andThen (onReceipts (completeAfterRollback (ro_identity owner) (ro_generation owner) (ro_fingerprint owner)
                  (ro_method owner) response (ro_requestBodyBytes owner) dbNow))
                (ret response))
              (throwMutationError (ri_namespaceId (ro_identity owner))))))"

definition toMutationResponse :: "jstring \<Rightarrow> conditional_result \<times> affected_revision list \<Rightarrow> receipt_response" where
  "toMutationResponse requestId r = \<lparr> rs_status = cr_status (fst r),
     rs_body = ResultBody (cr_resource (fst r)) (snd r) (if cr_trashId (fst r) = Some [] then None else cr_trashId (fst r)),
     rs_headers = requestIdHeader requestId \<rparr>"

text \<open>
  \<open>apply\<close>: the receipt is completed inside the transaction of the mutation, after the versions are
  bumped; an error of either undoes both.
\<close>

definition completing :: "receipt_owner \<Rightarrow> jstring \<Rightarrow> time \<Rightarrow> conditional_result \<times> affected_revision list \<Rightarrow> unit rcp" where
  "completing owner requestId dbNow r = completeWith (ro_identity owner) (ro_generation owner) (ro_fingerprint owner)
     (ro_method owner) (toMutationResponse requestId r) None dbNow"

definition applyMutation :: "env \<Rightarrow> jstring \<Rightarrow> uuid \<Rightarrow> conditional_mutation \<Rightarrow> receipt_owner \<Rightarrow> jstring \<Rightarrow> time \<Rightarrow> receipt_response dsk" where
  "applyMutation env ns rootId command owner requestId dbNow = (\<lambda>(st, rows).
     case withMutation env ns rootId False (applyConditionalMutation env command)
         (\<lambda>r. liftR (fst (completing owner requestId dbNow r rows))) st of
       (Inl e, st') \<Rightarrow> (Inl e, (st', rows))
     | (Inr r, st') \<Rightarrow> (Inr (toMutationResponse requestId r), (st', snd (completing owner requestId dbNow r rows))))"

record json_request =
  jr_namespaceId :: jstring
  jr_scope :: "jstring option"
  jr_key :: "jstring option"
  jr_method :: jstring
  jr_parsed :: "conditional_mutation result"
  jr_fingerprint :: jstring
  jr_requestId :: jstring

text \<open>The clocks a request reads: \<open>new Date()\<close>, the statements of the claim, the two completions.\<close>

record clocks =
  ck_now :: time
  ck_claim :: "nat \<Rightarrow> time \<times> time"
  ck_complete :: time
  ck_error :: time

definition runOwned :: "env \<Rightarrow> clocks \<Rightarrow> uuid \<Rightarrow> json_request \<Rightarrow> receipt_owner \<Rightarrow> receipt_response dsk" where
  "runOwned env ck rootId req owner =
     recover
       (case jr_parsed req of
          Inl e \<Rightarrow> storeErrorReceipt owner (ck_error ck) e (jr_requestId req)
        | Inr command \<Rightarrow>
            recover (applyMutation env (jr_namespaceId req) rootId command owner (jr_requestId req) (ck_complete ck))
              (\<lambda>e. storeErrorReceipt owner (ck_error ck) e (jr_requestId req)))
       (\<lambda>e. andThen (onReceipts (releaseReceipt (ro_identity owner) (ro_generation owner))) (throw e))"

definition answerClaim :: "env \<Rightarrow> clocks \<Rightarrow> uuid \<Rightarrow> json_request \<Rightarrow> receipt_identity \<Rightarrow> receipt_claim \<Rightarrow> receipt_response option dsk" where
  "answerClaim env ck rootId req i claim =
     (case claim of
        Busy s \<Rightarrow> ret (Some (busyResponse s (jr_requestId req)))
      | CompleteReceipt r \<Rightarrow> ret (replayReceipt r (jr_method req) (jr_fingerprint req) (jr_requestId req))
      | Owner g \<Rightarrow> bind (runOwned env ck rootId req \<lparr> ro_identity = i, ro_generation = g,
            ro_fingerprint = jr_fingerprint req, ro_method = jr_method req, ro_requestBodyBytes = None \<rparr>)
          (\<lambda>response. ret (Some response)))"

definition executeJson :: "env \<Rightarrow> int \<Rightarrow> clocks \<Rightarrow> json_request \<Rightarrow> receipt_response option dsk" where
  "executeJson env leaseSeconds ck req =
     bind (liftR (identityOf (jr_namespaceId req) (jr_scope req) (jr_key req))) (\<lambda>i.
     bind (gets (\<lambda>((d, _), _). requireRoot (jr_namespaceId req) d)) (\<lambda>found.
     bind (liftR found) (\<lambda>root.
     bind (onReceipts (claimReceipt i leaseSeconds (ck_now ck) (ck_claim ck)))
       (answerClaim env ck (r_id root) req i))))"

end
