(* ===== verification/FeedCursor.thy ===== *)
theory FeedCursor
  imports MutationService
begin

text \<open>
  The cursor of the change feed: \<open>vfs/change-feed-cursor.ts\<close>, with base64url and the JSON text of the
  payload. \<open>hmac\<close> stands for HMAC-SHA256 of the platform, a function of the key and the message that
  gives 32 bytes.
\<close>

section \<open>base64url without padding\<close>

fun b64url :: "nat list \<Rightarrow> jstring" where
  "b64url (a # b # c # bs) =
     b64_digit (a div 4) # b64_digit ((a mod 4) * 16 + b div 16) # b64_digit ((b mod 16) * 4 + c div 64) # b64_digit (c mod 64) # b64url bs"
| "b64url [a, b] = [b64_digit (a div 4), b64_digit ((a mod 4) * 16 + b div 16), b64_digit ((b mod 16) * 4)]"
| "b64url [a] = [b64_digit (a div 4), b64_digit ((a mod 4) * 16)]"
| "b64url [] = []"

fun unb64url :: "jstring \<Rightarrow> nat list" where
  "unb64url (p # q # r # s # cs) =
     (let a = b64_val p; b = b64_val q; c = b64_val r; d = b64_val s in
      (a * 4 + b div 16) # ((b mod 16) * 16 + c div 4) # ((c mod 4) * 64 + d) # unb64url cs)"
| "unb64url [p, q, r] = (let a = b64_val p; b = b64_val q; c = b64_val r in [a * 4 + b div 16, (b mod 16) * 16 + c div 4])"
| "unb64url [p, q] = (let a = b64_val p; b = b64_val q in [a * 4 + b div 16])"
| "unb64url _ = []"

lemma unb64url_b64url: "bytes bs \<Longrightarrow> unb64url (b64url bs) = bs"
proof (induction bs rule: b64url.induct)
  case (1 a b c bs)
  then have abc: "a < 256" "b < 256" "c < 256" by auto
  from 1 have "unb64url (b64url bs) = bs" by auto
  with b64_group [OF abc] show ?case by (simp add: Let_def)
next
  case (2 a b)
  then show ?case using b64_group [of a b 0] by (simp add: Let_def)
next
  case (3 a)
  then show ?case using b64_group [of a 0 0] by (simp add: Let_def)
qed simp

lemma b64url_chars: "bytes bs \<Longrightarrow> \<forall>c\<in>set (b64url bs). is_b64 c"
proof (induction bs rule: b64url.induct)
  case (1 a b c bs)
  then have abc: "a < 256" "b < 256" "c < 256" by auto
  from 1 b64_group(1-3) [OF abc] show ?case by simp
next
  case (2 a b)
  then show ?case using b64_group(1-3) [of a b 0] by simp
next
  case (3 a)
  then show ?case using b64_group(1-3) [of a 0 0] by simp
qed simp

lemma length_b64url: "length (b64url bs) = (4 * length bs + 2) div 3"
  by (induction bs rule: b64url.induct) auto

section \<open>The payload\<close>

definition cursorHead :: jstring where "cursorHead = js ''{\"namespaceId\":\"''"
definition cursorMiddle :: jstring where "cursorMiddle = js ''\",\"sequence\":\"''"
definition cursorTail :: jstring where "cursorTail = js ''\"}''"

text \<open>
  \<open>JSON.stringify({ namespaceId, sequence })\<close> for the strings it is called with, which have nothing to
  escape, and the reading of that text. \<open>decodeChangeFeedCursor\<close> compares the text it read with a new
  encoding, so every other JSON text of an object is refused in the end; the reader refuses it at once.
\<close>

definition cursorJson :: "jstring \<Rightarrow> jstring \<Rightarrow> jstring" where
  "cursorJson ns sequence = cursorHead @ ns @ cursorMiddle @ sequence @ cursorTail"

definition readCursorJson :: "jstring \<Rightarrow> (jstring \<times> jstring) option" where
  "readCursorJson t =
     (let r = drop (length cursorHead) t; ns = takeWhile (\<lambda>c. c \<noteq> 34) r; m = dropWhile (\<lambda>c. c \<noteq> 34) r;
          sequence = takeWhile (\<lambda>c. c \<noteq> 34) (drop (length cursorMiddle) m) in
      if cursorJson ns sequence = t then Some (ns, sequence) else None)"

text \<open>\<open>Buffer.toString('utf8')\<close> of bytes below 128, the only ones in a payload that is accepted.\<close>

definition asciiText :: "nat list \<Rightarrow> jstring" where
  "asciiText bs = map of_nat bs"

section \<open>The cursor\<close>

type_synonym hmac = "nat list \<Rightarrow> nat list \<Rightarrow> nat list"

definition signature :: "hmac \<Rightarrow> jstring \<Rightarrow> jstring \<Rightarrow> nat list" where
  "signature hmac payload signingSecret = hmac (from_hex signingSecret) (utf8 (js ''storix-vfs-change-feed-v1:'' @ payload))"

definition encodeChangeFeedCursor :: "hmac \<Rightarrow> jstring \<Rightarrow> jstring \<Rightarrow> jstring \<Rightarrow> jstring" where
  "encodeChangeFeedCursor hmac ns sequence signingSecret =
     (let payload = b64url (utf8 (cursorJson ns sequence)) in
      js ''cf1.'' @ payload @ 46 # b64url (signature hmac payload signingSecret))"

definition decodeChangeFeedCursor :: "hmac \<Rightarrow> jstring \<Rightarrow> jstring \<Rightarrow> jstring \<Rightarrow> jstring result" where
  "decodeChangeFeedCursor hmac raw ns signingSecret =
     (case js_split 46 raw of
        [tag, payload, m] \<Rightarrow>
          if tag \<noteq> js ''cf1'' \<or> payload = [] \<or> \<not> (\<forall>c\<in>set (payload @ m). is_b64 c) \<or> length m \<noteq> 43 \<or> 230 < length raw
          then Inl (Node VfsInvalidChangeCursorError)
          else (let mac = unb64url m; decoded = unb64url payload in
            if length mac \<noteq> 32 \<or> b64url mac \<noteq> m \<or> mac \<noteq> signature hmac payload signingSecret \<or> b64url decoded \<noteq> payload
            then Inl (Node VfsInvalidChangeCursorError)
            else (case readCursorJson (asciiText decoded) of
                None \<Rightarrow> Inl (Node VfsInvalidChangeCursorError)
              | Some (i, sequence) \<Rightarrow>
                  if \<not> isNamespaceId i \<or> i \<noteq> ns \<or> \<not> natural_decimal sequence \<or> MAX_INT64 < int (dec_value sequence) \<or>
                     encodeChangeFeedCursor hmac i sequence signingSecret \<noteq> raw
                  then Inl (Node VfsInvalidChangeCursorError)
                  else Inr sequence))
      | _ \<Rightarrow> Inl (Node VfsInvalidChangeCursorError))"

section \<open>Reading a cursor back\<close>

definition plain :: "jstring \<Rightarrow> bool" where
  "plain s \<longleftrightarrow> (\<forall>c\<in>set s. unat c < 128 \<and> c \<noteq> 34)"

lemma utf8_ascii: "\<forall>c\<in>set s. unat c < 128 \<Longrightarrow> utf8 s = map unat s"
proof -
  assume a: "\<forall>c\<in>set s. unat c < 128"
  then have "code_points s = map unat s"
    by (induction s rule: code_points.induct) (auto simp: hi_surrogate_def word_le_nat_alt)
  with a show ?thesis by (simp add: utf8_def utf8_bytes_def concat_map_singleton cong: map_cong)
qed

lemma asciiText_unat: "asciiText (map unat s) = s"
  by (simp add: asciiText_def comp_def)

lemma cursor_parts_ascii: "\<forall>c\<in>set (cursorHead @ cursorMiddle @ cursorTail). unat c < 128"
  unfolding cursorHead_def cursorMiddle_def cursorTail_def by code_simp

lemma cursorJson_ascii: "plain ns \<Longrightarrow> plain s \<Longrightarrow> \<forall>c\<in>set (cursorJson ns s). unat c < 128"
  using cursor_parts_ascii by (auto simp: cursorJson_def plain_def)

lemma cursor_quotes: "hd cursorMiddle = 34" "cursorMiddle \<noteq> []" "hd cursorTail = 34" "cursorTail \<noteq> []"
  unfolding cursorMiddle_def cursorTail_def by code_simp+

lemma upto_quote:
  assumes "plain s" and "t \<noteq> []" and "hd t = 34"
  shows "takeWhile (\<lambda>c. c \<noteq> 34) (s @ t) = s" and "dropWhile (\<lambda>c. c \<noteq> 34) (s @ t) = t"
  using assms by (cases t; auto simp: plain_def takeWhile_append2 dropWhile_append2)+

lemma readCursorJson_text: "plain ns \<Longrightarrow> plain s \<Longrightarrow> readCursorJson (cursorJson ns s) = Some (ns, s)"
  using upto_quote [of ns "cursorMiddle @ s @ cursorTail"] upto_quote [of s cursorTail] cursor_quotes
  by (simp add: readCursorJson_def cursorJson_def Let_def)

lemma plain_decimal: "natural_decimal s \<Longrightarrow> plain s"
  by (auto simp: natural_decimal_def positive_decimal_def plain_def is_digit_iff)

lemma js_join_chars: "x \<in> set (js_join c ps) \<Longrightarrow> x = c \<or> x \<in> set (concat ps)"
  by (induction c ps rule: js_join.induct) auto

lemma hyphenated_chars: "hyphenated s \<Longrightarrow> c \<in> set s \<Longrightarrow> is_hex c \<or> c = 45"
  using js_join_chars [of c 45 "js_split 45 s"] by (auto simp: hyphenated_def)

lemma namespace_chars:
  assumes "isNamespaceId ns" and "c \<in> set ns"
  shows "is_hex c \<or> is_prefix_char c"
proof -
  let ?p = "take (length ns - 32) ns" and ?h = "drop (length ns - 32) ns"
  consider "hyphenated ns" | "\<forall>x\<in>set ?h. is_hex x" "?p = [] \<or> last ?p = 95 \<and> namespacePrefix (butlast ?p)"
    using assms(1) by (auto simp: isNamespaceId_def Let_def)
  then show ?thesis
  proof cases
    case 1
    with hyphenated_chars assms(2) show ?thesis by (auto simp: is_prefix_char_def)
  next
    case 2
    have p: "is_prefix_char x" if "x \<in> set ?p" for x
    proof -
      have "?p = butlast ?p @ [last ?p]" using that by (cases ?p rule: rev_cases) auto
      then have "x \<in> set (butlast ?p) \<or> x = last ?p" using that by (metis in_set_conv_decomp rotate1.simps(2) set_rotate1 set_ConsD)
      moreover have "?p \<noteq> []" using that by auto
      ultimately show ?thesis using 2(2) by (auto simp: namespacePrefix_def is_prefix_char_def split: list.splits)
    qed
    have "c \<in> set ?p \<or> c \<in> set ?h" using assms(2) by (metis Un_iff append_take_drop_id set_append)
    with p 2(1) show ?thesis by blast
  qed
qed

lemma plain_namespace: "isNamespaceId ns \<Longrightarrow> plain ns"
  using namespace_chars unfolding plain_def is_hex_def is_prefix_char_def is_digit_def
  by (fastforce simp: word_le_nat_alt)

lemma decimal_length:
  assumes "natural_decimal s" and "int (dec_value s) \<le> MAX_INT64"
  shows "length s \<le> 19"
proof -
  have "10 ^ (length s - 1) \<le> dec_value s" if "positive_decimal s" for s
    using that
  proof (induction s rule: rev_induct)
    case (snoc d s)
    show ?case
    proof (cases "s = []")
      case True
      with snoc.prems have "d \<noteq> 48" "is_digit d" by (auto simp: positive_decimal_def)
      then have "unat d \<noteq> 48" "48 \<le> unat d" using unsigned_word_eqI [of d 48, where ?'a = nat] by (auto simp: is_digit_iff)
      with True show ?thesis by (simp add: dec_value_def)
    next
      case False
      with snoc have IH: "10 ^ (length s - 1) \<le> dec_value s" by (auto simp: positive_decimal_def)
      have "length (s @ [d]) - 1 = Suc (length s - 1)" using False by (cases s) auto
      then have "10 ^ (length (s @ [d]) - 1) = 10 * (10 :: nat) ^ (length s - 1)" by (simp only: power_Suc)
      with IH show ?thesis by (simp add: dec_value_snoc)
    qed
  qed (simp add: positive_decimal_def)
  moreover have "dec_value s \<le> 9223372036854775807" using assms(2) by (simp add: MAX_INT64_def)
  ultimately have "10 ^ (length s - 1) \<le> (9223372036854775807 :: nat) \<or> s = [48]"
    using assms(1) unfolding natural_decimal_def by (meson order_trans)
  moreover have "(10 :: nat) ^ 19 \<le> 10 ^ (length s - 1)" if "19 < length s"
    by (rule power_increasing) (use that in auto)
  ultimately show ?thesis by force
qed

lemma split_cursor:
  assumes "\<forall>c\<in>set p. is_b64 c" and "\<forall>c\<in>set m. is_b64 c"
  shows "js_split 46 (js ''cf1.'' @ p @ 46 # m) = [js ''cf1'', p, m]"
proof -
  have no: "46 \<notin> set x" if "\<forall>c\<in>set x. is_b64 c" for x :: jstring
    using that by (auto simp: is_b64_def is_digit_def)
  have "js ''cf1.'' = js ''cf1'' @ [46]" by (simp add: js_def)
  then have "js_split 46 (js ''cf1.'' @ p @ 46 # m) = js ''cf1'' # js_split 46 (p @ 46 # m)"
    using js_split_prefix [of 46 "js ''cf1''" "p @ 46 # m"] by (simp add: js_def)
  also have "\<dots> = [js ''cf1'', p, m]" by (simp add: js_split_prefix [OF no [OF assms(1)]] js_split_atom [OF no [OF assms(2)]])
  finally show ?thesis .
qed

definition sequenceText :: "jstring \<Rightarrow> bool" where
  "sequenceText s \<longleftrightarrow> natural_decimal s \<and> int (dec_value s) \<le> MAX_INT64"

lemma cursor_length:
  assumes "isNamespaceId ns" and "sequenceText s"
  shows "length (cursorJson ns s) \<le> 96" and "cursorJson ns s \<noteq> []"
proof -
  have "length cursorHead = 16" "length cursorMiddle = 14" "length cursorTail = 2"
    by (simp_all add: cursorHead_def cursorMiddle_def cursorTail_def js_def)
  moreover have "length ns \<le> 45" using assms(1) by (simp add: isNamespaceId_def)
  moreover have "length s \<le> 19" using assms(2) decimal_length by (simp add: sequenceText_def)
  ultimately show "length (cursorJson ns s) \<le> 96" "cursorJson ns s \<noteq> []" by (auto simp: cursorJson_def)
qed

lemma decode_encode:
  assumes hmac: "\<And>k m. length (hmac k m) = 32 \<and> bytes (hmac k m)" and ns: "isNamespaceId ns" and s: "sequenceText s"
  shows "decodeChangeFeedCursor hmac (encodeChangeFeedCursor hmac ns s secret) ns secret = Inr s"
proof -
  let ?t = "cursorJson ns s" and ?raw = "encodeChangeFeedCursor hmac ns s secret"
  let ?p = "b64url (utf8 ?t)" let ?m = "b64url (signature hmac ?p secret)"
  have pl: "plain ns" "plain s" using plain_namespace [OF ns] plain_decimal s by (auto simp: sequenceText_def)
  have u: "utf8 ?t = map unat ?t" by (rule utf8_ascii [OF cursorJson_ascii [OF pl]])
  have bt: "bytes (utf8 ?t)" using cursorJson_ascii [OF pl] by (auto simp: u)
  have sig: "length (signature hmac ?p secret) = 32" "bytes (signature hmac ?p secret)" using hmac by (simp_all add: signature_def)
  have raw: "?raw = js ''cf1.'' @ ?p @ 46 # ?m" by (simp add: encodeChangeFeedCursor_def Let_def)
  have chars: "\<forall>c\<in>set ?p. is_b64 c" "\<forall>c\<in>set ?m. is_b64 c" using b64url_chars bt sig(2) by blast+
  have lp: "length ?p \<le> 128" using cursor_length(1) [OF ns s] by (simp add: length_b64url u)
  have lm: "length ?m = 43" by (simp add: length_b64url sig(1))
  have "js_split 46 ?raw = [js ''cf1'', ?p, ?m]" unfolding raw by (rule split_cursor [OF chars])
  moreover have "?p \<noteq> []" using cursor_length(2) [OF ns s] length_b64url [of "utf8 ?t"] unfolding u by (cases ?t) auto
  moreover have "length ?raw \<le> 230" using lp lm by (simp add: raw js_def)
  moreover have "unb64url ?m = signature hmac ?p secret" "unb64url ?p = utf8 ?t" using unb64url_b64url bt sig(2) by blast+
  moreover have "readCursorJson (asciiText (utf8 ?t)) = Some (ns, s)" by (simp add: u asciiText_unat readCursorJson_text [OF pl])
  ultimately show ?thesis using chars lm sig(1) s ns
    by (simp add: decodeChangeFeedCursor_def Let_def sequenceText_def ball_Un)
qed

lemma decode_sound:
  "decodeChangeFeedCursor hmac raw ns secret = Inr s \<Longrightarrow>
   sequenceText s \<and> isNamespaceId ns \<and> raw = encodeChangeFeedCursor hmac ns s secret"
  by (auto simp: decodeChangeFeedCursor_def sequenceText_def Let_def split: list.splits if_splits option.splits)

text \<open>The two together, as the codec of the positions of a namespace; \<open>hmac\<close> is any function that gives 32 bytes.\<close>

definition fixedMac :: hmac where
  "fixedMac k m = replicate 32 0"

lemma fixedMac_32: "length (fixedMac k m) = 32 \<and> bytes (fixedMac k m)"
  by (simp add: fixedMac_def)

end
