(* ===== verification/FeedService.thy ===== *)
theory FeedService
  imports FeedRetention FeedCursor
begin

text \<open>
  \<open>ChangeFeedService.list\<close> (\<open>vfs/change-feed.service.ts\<close>, \<open>vfs/pagination.ts\<close>) and the reader of the
  feed: whatever is appended and pruned, a cursor gives the slice of the log that follows it, or says
  that it has expired. The value of \<open>Number(raw)\<close> of the limit is an argument, \<open>None\<close> when it is no
  integer.
\<close>

section \<open>The service\<close>

definition resolveLimit :: "int option option \<Rightarrow> int" where
  "resolveLimit raw =
     (case raw of None \<Rightarrow> 100 | Some None \<Rightarrow> 100 | Some (Some parsed) \<Rightarrow> if parsed \<le> 0 then 100 else min parsed 1000)"

datatype feed_error = NamespaceNotFoundError jstring | FeedFailure vfs_error

record feed_event_dto =
  fe_sequence :: jstring
  fe_operationId :: uuid
  fe_operationIndex :: nat
  fe_operationCount :: nat
  fe_kind :: change_kind
  fe_nodeId :: uuid
  fe_nodeType :: node_type
  fe_path :: jstring
  fe_previousPath :: "jstring option"
  fe_revision :: "jstring option"
  fe_occurredAt :: time

definition toChangeFeedEventDto :: "change_event \<Rightarrow> feed_event_dto" where
  "toChangeFeedEventDto e = \<lparr> fe_sequence = show_int (v_sequence e), fe_operationId = v_operationId e, fe_operationIndex = v_operationIndex e,
     fe_operationCount = v_operationCount e, fe_kind = v_kind e, fe_nodeId = v_nodeId e, fe_nodeType = v_nodeType e, fe_path = v_path e,
     fe_previousPath = v_previousPath e, fe_revision = v_revision e, fe_occurredAt = v_occurredAt e \<rparr>"

record feed_page =
  fp_changes :: "feed_event_dto list"
  fp_nextCursor :: jstring
  fp_hasMore :: bool

definition asFeed :: "('s, vfs_error, 'a) prog \<Rightarrow> ('s, feed_error, 'a) prog" where
  "asFeed m s = (case m s of (Inl e, t) \<Rightarrow> (Inl (FeedFailure e), t) | (Inr x, t) \<Rightarrow> (Inr x, t))"

definition cursorSequence :: "hmac \<Rightarrow> jstring \<Rightarrow> jstring \<Rightarrow> feed_state option \<Rightarrow> int result" where
  "cursorSequence hmac rawCursor ns state =
     (case state of
        None \<Rightarrow> Inl (Node VfsInvalidChangeCursorError)
      | Some st \<Rightarrow>
          if \<not> f_hasCheckpoint st then Inl (Node VfsInvalidChangeCursorError)
          else (case decodeChangeFeedCursor hmac rawCursor ns (f_signingSecret st) of
              Inl e \<Rightarrow> Inl e
            | Inr sequence \<Rightarrow>
                if f_lastSequence st < int (dec_value sequence) then Inl (Node VfsInvalidChangeCursorError)
                else if int (dec_value sequence) < f_prunedThrough st then Inl (Node VfsChangeCursorExpiredError)
                else Inr (int (dec_value sequence))))"

text \<open>\<open>enabled\<close> is the capability of the namespace, \<open>secret\<close> the random bytes of a first checkpoint.\<close>

definition openChangeFeed :: "hmac \<Rightarrow> jstring \<Rightarrow> uuid \<Rightarrow> jstring \<Rightarrow> (db, feed_error, feed_page) prog" where
  "openChangeFeed hmac ns rootId secret =
     bind (asFeed (createChangeFeedCheckpoint ns rootId secret)) (\<lambda>sequence.
     bind (gets (\<lambda>d. readChangeFeedState ns (feedStates d))) (\<lambda>state.
     case state of
       None \<Rightarrow> throw (FeedFailure (InternalError ''Change feed checkpoint state missing''))
     | Some st \<Rightarrow> ret \<lparr> fp_changes = [], fp_nextCursor = encodeChangeFeedCursor hmac ns (show_int sequence) (f_signingSecret st),
         fp_hasMore = False \<rparr>))"

definition readChangeFeed :: "hmac \<Rightarrow> jstring \<Rightarrow> jstring \<Rightarrow> int \<Rightarrow> (db, feed_error, feed_page) prog" where
  "readChangeFeed hmac ns rawCursor limit =
     bind (asFeed (readChangeFeedPage ns (limit + 1) (cursorSequence hmac rawCursor ns))) (\<lambda>(state, rows).
     let page = take (nat limit) rows in
     ret \<lparr> fp_changes = map toChangeFeedEventDto page,
       fp_nextCursor = (if page = [] then rawCursor else encodeChangeFeedCursor hmac ns (show_int (v_sequence (last page))) (f_signingSecret state)),
       fp_hasMore = (limit < int (length rows)) \<rparr>)"

definition listChanges :: "hmac \<Rightarrow> bool \<Rightarrow> jstring \<Rightarrow> jstring option \<Rightarrow> int option option \<Rightarrow> jstring \<Rightarrow> (db, feed_error, feed_page) prog" where
  "listChanges hmac enabled ns rawCursor rawLimit secret =
     andThen (throwIf (\<not> isNamespaceId ns) (NamespaceNotFoundError ns))
     (bind (gets (\<lambda>d. namespaceIsActive ns d)) (\<lambda>active.
      andThen (throwIf (\<not> active) (NamespaceNotFoundError ns))
      (andThen (throwIf (\<not> enabled) (FeedFailure (Mutation (VfsFeatureDisabledError (js ''change-feed'')))))
      (bind (gets (\<lambda>d. getRoot ns d)) (\<lambda>root.
       case root of
         None \<Rightarrow> throw (NamespaceNotFoundError ns)
       | Some r \<Rightarrow>
           (case rawCursor of
              None \<Rightarrow> openChangeFeed hmac ns (r_id r) secret
            | Some c \<Rightarrow> readChangeFeed hmac ns c (resolveLimit rawLimit)))))))"

section \<open>The log of a namespace\<close>

text \<open>
  Everything that happens to the journal of \<open>ns\<close>: its first checkpoint, the events of its mutations,
  the runs of the retention job, and work that leaves its rows alone. The last argument is the log of
  all events it ever had.
\<close>

inductive feedRun :: "jstring \<Rightarrow> db \<Rightarrow> change_event list \<Rightarrow> bool" for ns where
  start: "journalOf ns d = (None, []) \<Longrightarrow> feedRun ns d []"
| checkpoint: "feedRun ns d log \<Longrightarrow> createChangeFeedCheckpoint ns rootId secret d = (r, d') \<Longrightarrow> feedRun ns d' log"
| append: "feedRun ns (x_db s) log \<Longrightarrow> appendChangeFeedEvents env ns before ids s = (Inr u, t) \<Longrightarrow>
    feedRun ns (x_db t) (log @ drop (length (events (x_db s))) (events (x_db t)))"
| prune: "feedRun ns d log \<Longrightarrow> pruneNext days batch after scan now d = (r, d') \<Longrightarrow> feedRun ns d' log"
| other: "feedRun ns d log \<Longrightarrow> journalOf ns d' = journalOf ns d \<Longrightarrow> feedRun ns d' log"

lemma checkpoint_keeps:
  assumes "createChangeFeedCheckpoint ns rootId secret d = (r, d')" and ok: "journalOk ns d log"
  shows "journalOk ns d' log"
proof (cases "readChangeFeedState ns (feedStates d)")
  case None
  have "readChangeFeedState ns (insertRow st (feedStates d)) = Some st" if "f_namespaceId st = ns" for st
    using None that by (simp add: readChangeFeedState_def insertRow_def findRow_append) (simp add: findRow_def)
  with None assms show ?thesis
    by (auto simp: createChangeFeedCheckpoint_def journalOk_def split: sum.splits if_splits)
next
  case (Some st)
  with assms show ?thesis
    by (auto simp: createChangeFeedCheckpoint_def journalOk_def readState_update split: sum.splits if_splits)
qed

lemma append_keeps:
  assumes run: "appendChangeFeedEvents env ns before ids s = (Inr u, t)" and ok: "journalOk ns (x_db s) log"
  shows "journalOk ns (x_db t) (log @ drop (length (events (x_db s))) (events (x_db t)))"
proof (cases "readChangeFeedState ns (feedStates (x_db s))")
  case None
  with run have "t = s" by (auto simp: appendChangeFeedEvents_def Let_def monad_simps split: if_splits)
  with ok show ?thesis by simp
next
  case (Some st)
  obtain new st' where new: "events (x_db t) = events (x_db s) @ new" "readChangeFeedState ns (feedStates (x_db t)) = Some st'"
    "map v_sequence new = map (\<lambda>k. f_lastSequence st + int k + 1) [0..<length new]"
    "f_lastSequence st' = f_lastSequence st + int (length new)" "\<forall>e\<in>set new. v_namespaceId e = ns"
    using append_sequence [OF run Some] by metis
  have pruned: "f_prunedThrough st' = f_prunedThrough st"
    using run Some new(2) by (auto simp: appendChangeFeedEvents_def Let_def monad_simps readState_update freshId_def split: if_splits)
  have st: "f_lastSequence st = int (length log)" "0 \<le> f_prunedThrough st" "f_prunedThrough st \<le> f_lastSequence st"
    "numbered 0 log" "filter (\<lambda>e. v_namespaceId e = ns) (events (x_db s)) = drop (nat (f_prunedThrough st)) log"
    using ok Some by (auto simp: journalOk_def)
  have "numbered (length log) new" using new(3) unfolding numbered_iff st(1) .
  moreover have "filter (\<lambda>e. v_namespaceId e = ns) new = new" using new(5) by simp
  ultimately show ?thesis using new st pruned by (simp add: journalOk_def numbered_append)
qed

lemma feedRun_ok: "feedRun ns d log \<Longrightarrow> journalOk ns d log"
proof (induction rule: feedRun.induct)
  case (start d)
  then show ?case by (simp add: journalOk_def journalOf_def)
qed (auto intro: checkpoint_keeps append_keeps pruneNext_keeps journalOk_same)

section \<open>The reader\<close>

lemma page_of_log:
  assumes ok: "journalOk ns d log" and st: "readChangeFeedState ns (feedStates d) = Some st"
    and s: "f_prunedThrough st \<le> int s" and limit: "1 \<le> limit" "limit \<le> 1001"
  shows "readChangeFeedEvents ns (int s) limit d = (Inr (take (nat limit) (drop s log)), d)"
proof -
  let ?q = "nat (f_prunedThrough st)"
  have q: "numbered ?q (drop ?q log)" "?q \<le> s" "0 \<le> f_prunedThrough st"
    and own: "filter (\<lambda>e. v_namespaceId e = ns) (events d) = drop ?q log" and num: "numbered 0 log"
    using ok st s numbered_drop [of 0 log ?q] by (auto simp: journalOk_def)
  have "filter (\<lambda>e. v_namespaceId e = ns \<and> int s < v_sequence e) (events d) =
      filter (\<lambda>e. int s < v_sequence e) (filter (\<lambda>e. v_namespaceId e = ns) (events d))"
    by (simp add: filter_filter conj_commute)
  also have "\<dots> = drop s log" unfolding own numbered_after [OF q(1,2)] using q(2) by simp
  finally have rows: "filter (\<lambda>e. v_namespaceId e = ns \<and> int s < v_sequence e) (events d) = drop s log" .
  have "sort_key v_sequence (drop s log) = drop s log"
    using numbered_sort [OF numbered_drop [OF num]] by (cases "s \<le> length log") auto
  with rows limit show ?thesis by (simp add: readChangeFeedEvents_def andThen_def bind_def throwIf_def ret_def gets_def)
qed

definition cursorAt :: "hmac \<Rightarrow> jstring \<Rightarrow> nat \<Rightarrow> feed_state \<Rightarrow> jstring" where
  "cursorAt hmac ns s st = encodeChangeFeedCursor hmac ns (show_nat s) (f_signingSecret st)"

text \<open>The answer to a cursor at position \<open>s\<close> of the log.\<close>

definition slice :: "hmac \<Rightarrow> jstring \<Rightarrow> change_event list \<Rightarrow> feed_state \<Rightarrow> nat \<Rightarrow> nat \<Rightarrow> feed_page" where
  "slice hmac ns log st s n = \<lparr> fp_changes = map toChangeFeedEventDto (take n (drop s log)),
     fp_nextCursor = cursorAt hmac ns (s + length (take n (drop s log))) st, fp_hasMore = (s + n < length log) \<rparr>"

lemma cursor_reads:
  assumes hmac: "\<And>k m. length (hmac k m) = 32 \<and> bytes (hmac k m)" and ns: "isNamespaceId ns" and s: "int s \<le> MAX_INT64"
    and cp: "f_hasCheckpoint st"
  shows "cursorSequence hmac (cursorAt hmac ns s st) ns (Some st) =
    (if f_lastSequence st < int s then Inl (Node VfsInvalidChangeCursorError)
     else if int s < f_prunedThrough st then Inl (Node VfsChangeCursorExpiredError) else Inr (int s))"
proof -
  have "sequenceText (show_nat s)" using s by (simp add: sequenceText_def natural_show_nat)
  from decode_encode [where hmac = hmac, OF hmac ns this] show ?thesis by (simp add: cursorSequence_def cursorAt_def cp)
qed

lemma readChangeFeed_slice:
  assumes hmac: "\<And>k m. length (hmac k m) = 32 \<and> bytes (hmac k m)" and ns: "isNamespaceId ns" and s: "int s \<le> MAX_INT64"
    and ok: "journalOk ns d log" and st: "readChangeFeedState ns (feedStates d) = Some st" and cp: "f_hasCheckpoint st"
    and limit: "1 \<le> limit" "limit \<le> 1000"
  shows "readChangeFeed hmac ns (cursorAt hmac ns s st) limit d =
    (if length log < s then Inl (FeedFailure (Node VfsInvalidChangeCursorError))
     else if int s < f_prunedThrough st then Inl (FeedFailure (Node VfsChangeCursorExpiredError))
     else Inr (slice hmac ns log st s (nat limit)), d)"
proof -
  note seq = cursor_reads [where hmac = hmac, OF hmac ns s cp]
  have len: "f_lastSequence st = int (length log)" "numbered 0 log" using ok st by (auto simp: journalOk_def)
  show ?thesis
  proof (cases "length log < s \<or> int s < f_prunedThrough st")
    case True
    then show ?thesis using len
      by (auto simp: readChangeFeed_def readChangeFeedPage_def asFeed_def bind_def gets_def liftR_def st seq)
  next
    case False
    let ?rows = "take (nat (limit + 1)) (drop s log)" and ?page = "take (nat limit) (drop s log)"
    have read: "readChangeFeedEvents ns (int s) (limit + 1) d = (Inr ?rows, d)"
      using page_of_log [OF ok st, of s "limit + 1"] False limit by simp
    have page: "take (nat limit) ?rows = ?page" using limit by simp
    have more: "limit < int (length ?rows) \<longleftrightarrow> s + nat limit < length log" using limit False by auto
    have following: "?page \<noteq> [] \<longrightarrow>
        encodeChangeFeedCursor hmac ns (show_int (v_sequence (last ?page))) (f_signingSecret st) = cursorAt hmac ns (s + length ?page) st"
    proof
      assume ne: "?page \<noteq> []"
      have "numbered s (drop s log)" using numbered_drop [OF len(2), of s] False by simp
      from numbered_last [OF numbered_take [OF this] ne] have "v_sequence (last ?page) = int (s + length ?page)" .
      moreover have "show_int (int n) = show_nat n" for n by (simp add: show_int_def)
      ultimately have "show_int (v_sequence (last ?page)) = show_nat (s + length ?page)" by (simp only:)
      then show "encodeChangeFeedCursor hmac ns (show_int (v_sequence (last ?page))) (f_signingSecret st) = cursorAt hmac ns (s + length ?page) st"
        by (simp add: cursorAt_def)
    qed
    show ?thesis using False len read following
      by (simp add: readChangeFeed_def readChangeFeedPage_def asFeed_def bind_def gets_def liftR_def ret_def st seq Let_def page more slice_def
          del: take_eq_Nil length_take)
  qed
qed

text \<open>
  C33: a reader of the change feed misses nothing. However checkpoints, events, the retention job and
  other work interleave, a cursor at position \<open>s\<close> gives the events of the log from \<open>s\<close> on, in order
  and without a gap, a cursor at the position after them, and whether more follow; or it is refused
  as expired, exactly when events after it were pruned, or as invalid, beyond the end of the log.
\<close>

theorem feed_reader_misses_nothing:
  assumes "feedRun ns d log" and "readChangeFeedState ns (feedStates d) = Some st" and "f_hasCheckpoint st"
    and "\<And>k m. length (hmac k m) = 32 \<and> bytes (hmac k m)" and "int s \<le> MAX_INT64" and "getRoot ns d = Some root" and "isNamespaceId ns"
  shows "listChanges hmac True ns (Some (cursorAt hmac ns s st)) rawLimit secret d =
    (if length log < s then Inl (FeedFailure (Node VfsInvalidChangeCursorError))
     else if int s < f_prunedThrough st then Inl (FeedFailure (Node VfsChangeCursorExpiredError))
     else Inr (slice hmac ns log st s (nat (resolveLimit rawLimit))), d)"
proof -
  have "1 \<le> resolveLimit rawLimit" "resolveLimit rawLimit \<le> 1000"
    by (auto simp: resolveLimit_def split: option.splits)
  note read = readChangeFeed_slice [where hmac = hmac, OF assms(4,7,5) feedRun_ok [OF assms(1)] assms(2,3) this]
  have "namespaceIsActive ns d" using assms(6) by (auto simp: getRoot_def namespaceIsActive_def split: option.splits if_splits)
  with assms(6,7) show ?thesis
    by (simp add: listChanges_def andThen_def bind_def throwIf_def ret_def gets_def read)
qed

end
