(* ===== verification/ReceiptHistory.thy ===== *)
theory ReceiptHistory
  imports MutationService
begin

text \<open>
  Concurrent requests under receipts. A run is any sequence of the statements of
  \<open>vfs-mutation-receipt.repository.ts\<close>, of mutations that complete a receipt and of other work on the
  store, by any number of requests with any generations, so it contains every interleaving of them.
  A completed receipt outlives every run whose clocks have not reached its expiry.
\<close>

section \<open>Receipts and their identities\<close>

definition receiptsOk :: "mutation_receipt list \<Rightarrow> bool" where
  "receiptsOk rows \<longleftrightarrow> distinct (map receiptIdentity rows)"

text \<open>The row of \<open>i\<close> is \<open>r\<close>, and it is complete.\<close>

definition settled :: "receipt_identity \<Rightarrow> mutation_receipt \<Rightarrow> mutation_receipt list \<Rightarrow> bool" where
  "settled i r rows \<longleftrightarrow> r \<in> set rows \<and> atReceipt i r \<and> mr_state r = COMPLETE \<and> (\<forall>q\<in>set rows. atReceipt i q \<longrightarrow> q = r)"

lemma atReceipt_iff: "atReceipt i r \<longleftrightarrow> receiptIdentity r = i"
  by (cases i) (auto simp: atReceipt_def receiptIdentity_def)

lemma findReceipt_SomeD: "findReceipt i rows = Some r \<Longrightarrow> r \<in> set rows \<and> atReceipt i r"
  by (auto simp: findReceipt_def dest: findRow_SomeD)

lemma findReceipt_NoneD: "findReceipt i rows = None \<Longrightarrow> r \<in> set rows \<Longrightarrow> \<not> atReceipt i r"
  unfolding findReceipt_def by (rule findRow_NoneD)

lemma receiptsOk_unique:
  "receiptsOk rows \<Longrightarrow> r \<in> set rows \<Longrightarrow> q \<in> set rows \<Longrightarrow> atReceipt i r \<Longrightarrow> atReceipt i q \<Longrightarrow> q = r"
  unfolding receiptsOk_def atReceipt_iff by (auto simp: distinct_map inj_on_def)

lemma settled_find: "settled i r rows \<Longrightarrow> findReceipt i rows = Some r"
  by (cases "findReceipt i rows") (auto simp: settled_def dest: findReceipt_SomeD findReceipt_NoneD)

lemma found_settled: "receiptsOk rows \<Longrightarrow> findReceipt i rows = Some r \<Longrightarrow> mr_state r = COMPLETE \<Longrightarrow> settled i r rows"
  by (auto simp: settled_def dest: findReceipt_SomeD intro: receiptsOk_unique)

section \<open>Statements and a completed receipt\<close>

lemma settled_update:
  assumes "settled i r rows" and "\<And>q. P q \<Longrightarrow> mr_state q = RESERVED" and "\<And>q. receiptIdentity (f q) = receiptIdentity q"
  shows "settled i r (updateRows P f rows)"
proof -
  have "\<not> P r" using assms(1,2) by (fastforce simp: settled_def)
  then show ?thesis using assms(1,3) by (fastforce simp: settled_def set_updateRows atReceipt_iff)
qed

lemma settled_delete: "settled i r rows \<Longrightarrow> \<not> P r \<Longrightarrow> settled i r (deleteRows P rows)"
  by (auto simp: settled_def)

lemma settled_insert: "settled i r rows \<Longrightarrow> receiptIdentity q \<noteq> i \<Longrightarrow> settled i r (insertRow q rows)"
  by (auto simp: settled_def atReceipt_iff)

lemma receiptsOk_update: "receiptsOk rows \<Longrightarrow> (\<And>q. receiptIdentity (f q) = receiptIdentity q) \<Longrightarrow> receiptsOk (updateRows P f rows)"
  by (simp add: receiptsOk_def updateRows_def comp_def if_distrib [of receiptIdentity] cong: if_cong)

lemma receiptsOk_delete: "receiptsOk rows \<Longrightarrow> receiptsOk (deleteRows P rows)"
  by (auto simp: receiptsOk_def deleteRows_def distinct_map intro: inj_on_subset)

lemma newReceipt_identity: "receiptIdentity (newReceipt i l now dbNow) = i"
  by (cases i) (simp add: receiptIdentity_def newReceipt_def)

lemma completeReceipt_identity: "receiptIdentity (completeReceipt fp m resp b t r) = receiptIdentity r"
  by (simp add: receiptIdentity_def completeReceipt_def)

text \<open>What a program of the receipts keeps: the keys stay unique, and a completed row stays until its expiry.\<close>

definition spares :: "time \<Rightarrow> 'a rcp \<Rightarrow> bool" where
  "spares t m \<longleftrightarrow> (\<forall>rows. (receiptsOk rows \<longrightarrow> receiptsOk (snd (m rows))) \<and>
     (\<forall>i r. t \<le> mr_expiresAt r \<longrightarrow> settled i r rows \<longrightarrow> settled i r (snd (m rows))))"

lemma sparesD:
  assumes "spares t m" and "m rows = (x, rows')"
  shows "receiptsOk rows \<Longrightarrow> receiptsOk rows'" and "t \<le> mr_expiresAt r \<Longrightarrow> settled i r rows \<Longrightarrow> settled i r rows'"
  using assms unfolding spares_def by (metis snd_conv)+

lemma spares_insertClaim: "spares t (insertClaim i l now dbNow)"
  by (auto simp: spares_def insertClaim_def bind_def gets_def ret_def andThen_def modify_def newReceipt_identity receiptsOk_def
      insertRow_def atReceipt_iff dest: findReceipt_NoneD settled_find split: option.splits
      intro!: settled_insert [unfolded insertRow_def])

lemma spares_updateReceipts:
  assumes "\<And>q. P q \<Longrightarrow> mr_state q = RESERVED" and "\<And>q. receiptIdentity (f q) = receiptIdentity q"
  shows "spares t (updateReceipts P f)"
  using assms by (auto simp: spares_def updateReceipts_def intro: settled_update receiptsOk_update)

lemma spares_bind: "spares t m \<Longrightarrow> (\<And>x. spares t (f x)) \<Longrightarrow> spares t (bind m f)"
  unfolding spares_def bind_def by (fastforce split: prod.splits sum.splits)

lemma spares_pure: "spares t (ret x)" "spares t (throwIf b e)" "spares t (gets g)"
  by (auto simp: spares_def ret_def throwIf_def throw_def gets_def)

lemma spares_transaction: "spares t m \<Longrightarrow> spares t (transaction m)"
  unfolding spares_def transaction_def by (fastforce split: prod.splits sum.splits)

lemma spares_delete: "(\<And>r. P r \<Longrightarrow> mr_state r = RESERVED \<or> mr_expiresAt r < t) \<Longrightarrow> spares t (modify (deleteRows P))"
proof -
  assume *: "\<And>r. P r \<Longrightarrow> mr_state r = RESERVED \<or> mr_expiresAt r < t"
  have "\<not> P r" if "t \<le> mr_expiresAt r" "settled i r rows" for i r rows
    using * [of r] that by (auto simp: settled_def)
  then show ?thesis by (simp add: spares_def modify_def receiptsOk_delete settled_delete)
qed

lemma spares_forEach: "(\<And>x. spares t (f x)) \<Longrightarrow> spares t (forEach xs f)"
  by (induction xs) (auto simp: andThen_def intro: spares_bind spares_pure)

lemma spares_takeOver: "spares t (takeOver i l dbNow)"
  unfolding takeOver_def by (rule spares_updateReceipts) (auto simp: receiptIdentity_def)

lemma spares_renewReceipt: "spares t (renewReceipt i g l dbNow)"
  unfolding renewReceipt_def by (intro spares_bind spares_updateReceipts spares_pure) (auto simp: receiptIdentity_def)

lemma spares_completeWith: "spares t (completeWith i g fp m resp b dbNow)"
  unfolding completeWith_def by (intro spares_bind spares_updateReceipts spares_pure) (auto simp: completeReceipt_identity completable_def)

lemma spares_completeAfterRollback: "spares t (completeAfterRollback i g fp m resp b dbNow)"
  unfolding completeAfterRollback_def by (intro spares_transaction spares_completeWith)

lemma spares_releaseReceipt: "spares t (releaseReceipt i g)"
  unfolding releaseReceipt_def by (rule spares_delete) auto

lemma spares_deleteCompleted: "now < t \<Longrightarrow> spares t (deleteCompleted i now)"
  unfolding deleteCompleted_def by (rule spares_delete) auto

lemma spares_deleteExpired: "now < t \<Longrightarrow> spares t (deleteExpired i now dbNow)"
  unfolding deleteExpired_def by (rule spares_delete) (auto simp: expiredReceipt_def)

lemmas spares_statements = spares_insertClaim spares_takeOver spares_renewReceipt spares_completeWith spares_completeAfterRollback
  spares_releaseReceipt spares_deleteCompleted spares_deleteExpired

lemma spares_tryClaim: "now < t \<Longrightarrow> spares t (tryClaim i l now clock)"
  unfolding tryClaim_def andThen_def
  by (intro spares_bind spares_insertClaim) (auto intro!: spares_bind spares_pure spares_statements split: option.split)

lemma spares_pruneExpired: "now < t \<Longrightarrow> spares t (pruneExpired now dbNow dbNow')"
  unfolding pruneExpired_def andThen_def by (intro spares_bind spares_pure spares_forEach spares_deleteExpired)

section \<open>Runs\<close>

datatype receipt_call =
    InsertClaim receipt_identity int time time
  | TakeOver receipt_identity int time
  | DeleteCompleted receipt_identity time
  | Renew receipt_identity int int time
  | CompleteError receipt_identity int jstring jstring receipt_response "int option" time
  | Release receipt_identity int
  | DeleteExpired receipt_identity time time
  | Apply env jstring uuid conditional_mutation receipt_owner jstring time
  | OtherWork store

fun serveReceipt :: "receipt_call \<Rightarrow> desk \<Rightarrow> desk" where
  "serveReceipt (InsertClaim i l now dbNow) s = snd (onReceipts (insertClaim i l now dbNow) s)"
| "serveReceipt (TakeOver i l dbNow) s = snd (onReceipts (takeOver i l dbNow) s)"
| "serveReceipt (DeleteCompleted i now) s = snd (onReceipts (deleteCompleted i now) s)"
| "serveReceipt (Renew i g l dbNow) s = snd (onReceipts (renewReceipt i g l dbNow) s)"
| "serveReceipt (CompleteError i g fp m resp b dbNow) s = snd (onReceipts (completeAfterRollback i g fp m resp b dbNow) s)"
| "serveReceipt (Release i g) s = snd (onReceipts (releaseReceipt i g) s)"
| "serveReceipt (DeleteExpired i now dbNow) s = snd (onReceipts (deleteExpired i now dbNow) s)"
| "serveReceipt (Apply env ns rootId command owner rid dbNow) s = snd (applyMutation env ns rootId command owner rid dbNow s)"
| "serveReceipt (OtherWork st) s = (st, snd s)"

text \<open>The clock with which a call decides that a completed receipt is over is before \<open>t\<close>.\<close>

fun callBefore :: "time \<Rightarrow> receipt_call \<Rightarrow> bool" where
  "callBefore t (DeleteCompleted i now) \<longleftrightarrow> now < t"
| "callBefore t (DeleteExpired i now dbNow) \<longleftrightarrow> now < t"
| "callBefore t _ \<longleftrightarrow> True"

inductive deskRun :: "time \<Rightarrow> desk \<Rightarrow> desk \<Rightarrow> bool" for t s where
  start: "deskRun t s s"
| call: "deskRun t s u \<Longrightarrow> callBefore t c \<Longrightarrow> deskRun t s (serveReceipt c u)"

lemma onReceipts_snd: "snd (snd (onReceipts m s)) = snd (m (snd s))"
  by (simp add: onReceipts_def split: prod.split)

lemma applyMutation_rows:
  "applyMutation env ns rootId command owner rid dbNow s = (x, s') \<Longrightarrow>
   snd s' = snd s \<or> (\<exists>r. snd s' = snd (completing owner rid dbNow r (snd s)))"
  by (cases s) (force simp: applyMutation_def split: prod.splits sum.splits)

lemma serve_settled:
  assumes "callBefore t c" and "t \<le> mr_expiresAt r" and "settled i r (snd s)"
  shows "settled i r (snd (serveReceipt c s))"
proof (cases c)
  case (Apply env ns rootId command owner rid dbNow)
  obtain x s' where run: "applyMutation env ns rootId command owner rid dbNow s = (x, s')" by (metis surj_pair)
  have "settled i r (snd (completing owner rid dbNow q (snd s)))" for q
    unfolding completing_def using spares_completeWith assms(2,3) by (auto simp: spares_def)
  with applyMutation_rows [OF run] run assms(3) show ?thesis by (auto simp: Apply)
qed (use assms spares_statements in \<open>auto simp: onReceipts_snd spares_def\<close>)

lemma run_settled: "deskRun t s u \<Longrightarrow> t \<le> mr_expiresAt r \<Longrightarrow> settled i r (snd s) \<Longrightarrow> settled i r (snd u)"
  by (induction rule: deskRun.induct) (auto intro: serve_settled)

section \<open>Claims\<close>

text \<open>A completed receipt answers the claim, without a change.\<close>

lemma settled_tryClaim:
  assumes "settled i r rows" and "now < mr_expiresAt r"
  shows "tryClaim i l now clock rows = (Inr (Some (CompleteReceipt r)), rows)"
proof -
  let ?P = "\<lambda>q. atReceipt i q \<and> mr_state q = RESERVED \<and> leaseOver (snd clock) q"
  have none: "\<not> ?P q" if "q \<in> set rows" for q using assms(1) that by (auto simp: settled_def)
  then have "filter ?P rows = []" "updateRows ?P f rows = rows" for f
    by (auto simp: filter_empty_conv updateRows_def intro!: map_idI)
  moreover have "mr_state r = COMPLETE" using assms(1) by (simp add: settled_def)
  ultimately show ?thesis using settled_find [OF assms(1)] assms(2)
    by (simp add: tryClaim_def insertClaim_def takeOver_def updateReceipts_def bind_def gets_def ret_def)
qed

lemma settled_claim:
  assumes "settled i r rows" and "now < mr_expiresAt r"
  shows "claimReceipt i l now clock rows = (Inr (CompleteReceipt r), rows)"
  using settled_tryClaim [OF assms] by (simp add: claimReceipt_def MAX_CLAIM_ATTEMPTS_def numeral_3_eq_3 bind_def ret_def)

lemma claim_found:
  assumes "claimLoop n i l now clock rows = (Inr (CompleteReceipt r), rows')" and "receiptsOk rows"
  shows "settled i r rows'"
  using assms
proof (induction n arbitrary: rows)
  case (Suc n)
  then obtain x mid where tried: "tryClaim i l now (clock n) rows = (Inr x, mid)"
    and rest: "(case x of Some c \<Rightarrow> ret c | None \<Rightarrow> claimLoop n i l now clock) mid = (Inr (CompleteReceipt r), rows')"
    by (auto elim: monad_elims)
  have ok: "receiptsOk mid" by (rule sparesD(1) [OF spares_tryClaim [of now "now + 1"] tried Suc.prems(2)]) simp
  show ?case
  proof (cases x)
    case None
    with rest ok Suc.IH show ?thesis by simp
  next
    case (Some c)
    then have "x = Some (CompleteReceipt r)" "mid = rows'" using rest by (auto simp: ret_def)
    with tried have "findReceipt i rows' = Some r \<and> mr_state r = COMPLETE"
      by (auto simp: tryClaim_def ret_def gets_def elim!: monad_elims split: if_splits option.splits)
    with ok show ?thesis using found_settled \<open>mid = rows'\<close> by simp
  qed
qed (simp add: ret_def)

lemma claim_ok: "claimReceipt i l now clock rows = (x, rows') \<Longrightarrow> receiptsOk rows \<Longrightarrow> receiptsOk rows'"
proof -
  have "spares (now + 1) (claimLoop n i l now clock)" for n
    by (induction n) (auto intro!: spares_bind spares_tryClaim spares_pure split: option.split)
  then show "claimReceipt i l now clock rows = (x, rows') \<Longrightarrow> receiptsOk rows \<Longrightarrow> receiptsOk rows'"
    unfolding claimReceipt_def by (rule sparesD(1))
qed

section \<open>Owners\<close>

text \<open>A completion leaves the receipt with the response.\<close>

definition records :: "receipt_owner \<Rightarrow> receipt_response \<Rightarrow> mutation_receipt \<Rightarrow> bool" where
  "records owner resp r \<longleftrightarrow> mr_method r = Some (ro_method owner) \<and> mr_fingerprint r = Some (ro_fingerprint owner) \<and>
     mr_responseStatus r = Some (rs_status resp) \<and> mr_responseBody r = Some (rs_body resp) \<and> mr_responseHeaders r = Some (rs_headers resp)"

lemma completeWith_records:
  assumes run: "completeWith i g fp m resp b dbNow rows = (Inr (), rows')" and ok: "receiptsOk rows"
    and "owner = \<lparr> ro_identity = i, ro_generation = g, ro_fingerprint = fp, ro_method = m, ro_requestBodyBytes = b' \<rparr>"
  shows "\<exists>r. settled i r rows' \<and> records owner resp r"
proof -
  let ?P = "completable i g dbNow" and ?f = "completeReceipt fp m resp b dbNow"
  have rows': "rows' = updateRows ?P ?f rows" and one: "length (filter ?P rows) = 1"
    using run by (auto simp: completeWith_def updateReceipts_def elim!: monad_elims)
  from one obtain q where q: "q \<in> set rows" "?P q" by (metis filter_empty_conv length_0_conv zero_neq_one)
  have ok': "receiptsOk rows'" unfolding rows' by (rule receiptsOk_update [OF ok completeReceipt_identity])
  have in': "?f q \<in> set rows'" using q by (force simp: rows' set_updateRows)
  have at: "atReceipt i (?f q)" using q(2) by (simp add: atReceipt_iff completeReceipt_identity completable_def)
  have "settled i (?f q) rows'"
    unfolding settled_def
  proof (intro conjI ballI impI)
    show "mr_state (?f q) = COMPLETE" by (simp add: completeReceipt_def)
  qed (use in' at receiptsOk_unique [OF ok' in'] in auto)
  moreover have "records owner resp (?f q)" by (simp add: records_def completeReceipt_def assms(3))
  ultimately show ?thesis by blast
qed

lemma commit_afterBump: "commitMutation env v h s = (Inr r, t) \<Longrightarrow> \<exists>u w. h r u = (Inr (), w)"
  unfolding commitMutation_def by (elim monad_elims) auto

lemma applyMutation_records:
  assumes run: "applyMutation env ns rootId command owner rid dbNow s = (Inr resp, s')" and ok: "receiptsOk (snd s)"
  shows "\<exists>r. settled (ro_identity owner) r (snd s') \<and> records owner resp r"
proof -
  obtain st rows where s: "s = (st, rows)" by (cases s)
  let ?h = "\<lambda>r. liftR (fst (completing owner rid dbNow r rows))"
  from run obtain r st' where mutated: "withMutation env ns rootId False (applyConditionalMutation env command) ?h st = (Inr r, st')"
    and resp: "resp = toMutationResponse rid r" and s': "snd s' = snd (completing owner rid dbNow r rows)"
    by (auto simp: s applyMutation_def split: prod.splits sum.splits)
  from mutated obtain v u w where "commitMutation env v ?h u = (Inr r, w)"
    by (auto simp: withMutation_def bind_def split: prod.splits sum.splits)
  from commit_afterBump [OF this] have "fst (completing owner rid dbNow r rows) = Inr ()" by (simp add: liftR_def)
  then have "completing owner rid dbNow r rows = (Inr (), snd s')" by (metis prod.collapse s')
  then show ?thesis using ok unfolding completing_def resp s snd_conv
    by (rule completeWith_records [where owner = owner and b' = "ro_requestBodyBytes owner"]) simp
qed

lemma storeErrorReceipt_records:
  assumes run: "storeErrorReceipt owner dbNow e rid s = (Inr resp, s')" and ok: "receiptsOk (snd s)"
  shows "\<exists>r. settled (ro_identity owner) r (snd s') \<and> records owner resp r"
proof -
  have thrown: "throwMutationError ns f u \<noteq> (Inr x, w)" for ns f u and x :: receipt_response and w
    by (auto simp: throwMutationError_def bind_def gets_def throw_def)
  from run obtain st where resp: "resp = errorResponse e st rid"
    and stored: "completeAfterRollback (ro_identity owner) (ro_generation owner) (ro_fingerprint owner) (ro_method owner) resp
       (ro_requestBodyBytes owner) dbNow (snd s) = (Inr (), snd s')"
    by (auto simp: storeErrorReceipt_def recover_def andThen_def bind_def onReceipts_def ret_def Let_def thrown
        split: if_splits option.splits prod.splits sum.splits)
  show ?thesis
    by (rule completeWith_records [OF stored [unfolded completeAfterRollback_def transaction_ok] ok, where b' = "ro_requestBodyBytes owner"]) simp
qed

lemma applyMutation_fails:
  "applyMutation env ns rootId command owner rid dbNow s = (Inl e, s') \<Longrightarrow> snd s' = snd s"
  by (cases s) (auto simp: applyMutation_def split: prod.splits sum.splits)

lemma recoverE:
  assumes "recover m h s = (Inr x, t)"
  obtains "m s = (Inr x, t)" | e u where "m s = (Inl e, u)" "h e u = (Inr x, t)"
  using assms by (auto simp: recover_def split: prod.splits sum.splits)

lemma runOwned_records:
  assumes run: "runOwned env ck rootId req owner s = (Inr resp, s')" and ok: "receiptsOk (snd s)"
  shows "\<exists>r. settled (ro_identity owner) r (snd s') \<and> records owner resp r"
proof -
  let ?store = "\<lambda>e. storeErrorReceipt owner (ck_error ck) e (jr_requestId req)"
  have no: "(andThen m (throw e) :: receipt_response dsk) u \<noteq> (Inr x, w)" for m :: "unit dsk" and e u x w
    by (auto simp: andThen_def bind_def throw_def split: prod.splits sum.splits)
  have stored: "\<exists>r. settled (ro_identity owner) r (snd s') \<and> records owner resp r"
    if "?store e u = (Inr resp, s')" "snd u = snd s" for e u
    by (rule storeErrorReceipt_records [OF that(1)]) (simp add: ok that(2))
  show ?thesis
  proof (cases "jr_parsed req")
    case (Inl e)
    with run show ?thesis by (auto simp: runOwned_def no elim!: recoverE intro: stored)
  next
    case (Inr command)
    with run have "recover (applyMutation env (jr_namespaceId req) rootId command owner (jr_requestId req) (ck_complete ck)) ?store s = (Inr resp, s')"
      by (auto simp: runOwned_def no elim: recoverE)
    then show ?thesis
      by (rule recoverE) (auto intro: applyMutation_records ok stored dest: applyMutation_fails)
  qed
qed

section \<open>A request is executed once\<close>

lemma replay_records:
  assumes "records owner resp r"
  shows "replayReceipt r (ro_method owner) (ro_fingerprint owner) rid = Some resp"
  using assms by (simp add: records_def replayReceipt_def)

lemma replay_elsewhere:
  assumes "replayReceipt r m fp rid = Some resp" and "rs_body resp \<noteq> KeyReusedBody rid"
  shows "replayReceipt r m fp rid' = Some resp"
  using assms by (auto simp: replayReceipt_def split: if_splits)

lemma executeJson_settles:
  assumes run: "executeJson env l ck req s = (Inr (Some resp), s')" and ok: "receiptsOk (snd s)"
    and ident: "identityOf (jr_namespaceId req) (jr_scope req) (jr_key req) = Inr i"
    and body: "rs_body resp \<noteq> InProgressBody (jr_requestId req)" "rs_body resp \<noteq> KeyReusedBody (jr_requestId req)"
  shows "\<exists>r. settled i r (snd s') \<and> (\<forall>rid. replayReceipt r (jr_method req) (jr_fingerprint req) rid = Some resp)"
proof -
  from run ident obtain root :: node_record and claim u where claimed: "claimReceipt i l (ck_now ck) (ck_claim ck) (snd s) = (Inr claim, snd u)"
    and rest: "answerClaim env ck (r_id root) req i claim u = (Inr (Some resp), s')"
    by (auto simp: executeJson_def onReceipts_def split: prod.splits elim!: monad_elims)
  have ok': "receiptsOk (snd u)" by (rule claim_ok [OF claimed ok])
  show ?thesis
  proof (cases claim)
    case (Owner g)
    let ?owner = "\<lparr> ro_identity = i, ro_generation = g, ro_fingerprint = jr_fingerprint req, ro_method = jr_method req, ro_requestBodyBytes = None \<rparr>"
    from rest Owner have "runOwned env ck (r_id root) req ?owner u = (Inr resp, s')" by (auto simp: answerClaim_def ret_def elim!: monad_elims)
    from runOwned_records [OF this ok'] replay_records [of ?owner resp] show ?thesis by fastforce
  next
    case (CompleteReceipt r)
    then have "settled i r (snd s')" "replayReceipt r (jr_method req) (jr_fingerprint req) (jr_requestId req) = Some resp"
      using rest claim_found [OF claimed [unfolded claimReceipt_def CompleteReceipt] ok] by (auto simp: answerClaim_def ret_def)
    then show ?thesis using replay_elsewhere body(2) by blast
  next
    case (Busy k)
    with rest body show ?thesis by (auto simp: answerClaim_def ret_def busyResponse_def)
  qed
qed

text \<open>
  C32: once a request under a mutation key has been answered, a repetition of the request gets the
  same answer and changes nothing, whatever statements of other requests, mutations and other work
  ran in between, for as long as the clocks have not reached the expiry of the receipt.
\<close>

theorem request_is_executed_once:
  assumes "executeJson env l ck req s = (Inr (Some resp), s1)" and "receiptsOk (snd s)"
    and "identityOf (jr_namespaceId req) (jr_scope req) (jr_key req) = Inr i"
    and "rs_body resp \<noteq> InProgressBody (jr_requestId req)" and "rs_body resp \<noteq> KeyReusedBody (jr_requestId req)"
    and "\<forall>r\<in>set (snd s1). atReceipt i r \<longrightarrow> t \<le> mr_expiresAt r" and "deskRun t s1 s2"
    and "requireRoot (jr_namespaceId req) (fst (fst s2)) = Inr root" and "ck_now ck' < t"
  shows "executeJson env' l' ck' (req\<lparr> jr_requestId := rid', jr_parsed := parsed' \<rparr>) s2 = (Inr (Some resp), s2)"
proof -
  from executeJson_settles [OF assms(1-5)] obtain r where r: "settled i r (snd s1)"
    and replay: "\<And>rid. replayReceipt r (jr_method req) (jr_fingerprint req) rid = Some resp" by blast
  have t: "t \<le> mr_expiresAt r" using assms(6) r by (auto simp: settled_def)
  have "settled i r (snd s2)" by (rule run_settled [OF assms(7) t r])
  then have "claimReceipt i l' (ck_now ck') (ck_claim ck') (snd s2) = (Inr (CompleteReceipt r), snd s2)"
    by (rule settled_claim) (use t assms(9) in simp)
  then show ?thesis using assms(3,8) replay
    by (cases s2) (auto simp: executeJson_def answerClaim_def bind_def liftR_def gets_def onReceipts_def ret_def split: prod.split)
qed

end
