(* ===== verification/RequestOutcome.thy ===== *)
theory RequestOutcome
  imports ReceiptHistory
begin

text \<open>
  What a request under a new mutation key leaves: its mutation and a receipt for it, an error receipt
  and nothing else, or nothing at all.
\<close>

section \<open>The owner's row\<close>

text \<open>The rows of other keys are \<open>rows\<close>; the owner's is the last.\<close>

lemma owned_update:
  assumes "\<forall>q\<in>set rows. \<not> atReceipt i q" and "\<And>q. P q \<Longrightarrow> atReceipt i q"
  shows "updateRows P f (rows @ [r]) = rows @ [if P r then f r else r]" and "filter P (rows @ [r]) = (if P r then [r] else [])"
proof -
  have "\<not> P q" if "q \<in> set rows" for q using assms that by blast
  then show "updateRows P f (rows @ [r]) = rows @ [if P r then f r else r]" "filter P (rows @ [r]) = (if P r then [r] else [])"
    by (auto simp: updateRows_def filter_empty_conv intro!: map_idI)
qed

lemma claim_new:
  assumes "findReceipt i rows = None"
  shows "claimReceipt i l now clock rows = (Inr (Owner 1), rows @ [newReceipt i l now (fst (clock 2))])"
  using assms
  by (simp add: claimReceipt_def MAX_CLAIM_ATTEMPTS_def numeral_3_eq_3 numeral_2_eq_2 tryClaim_def insertClaim_def insertRow_def
      bind_def gets_def ret_def andThen_def modify_def)

text \<open>A completion either finds the owner's row and completes it, or throws.\<close>

lemma completeWith_owned:
  assumes "\<forall>q\<in>set rows. \<not> atReceipt i q"
  shows "completeWith i g fp m resp b dbNow (rows @ [r]) =
    (if completable i g dbNow r then (Inr (), rows @ [completeReceipt fp m resp b dbNow r]) else (Inl claimLost, rows @ [r]))"
proof -
  have "atReceipt i q" if "completable i g dbNow q" for q using that by (simp add: completable_def)
  note o = owned_update [of rows i "completable i g dbNow", OF assms this]
  show ?thesis by (simp add: completeWith_def updateReceipts_def bind_def throwIf_def throw_def ret_def o del: filter_append)
qed

lemma release_owned:
  assumes "\<forall>q\<in>set rows. \<not> atReceipt i q" and "atReceipt i r" and "mr_state r = RESERVED" and "mr_generation r = g"
  shows "releaseReceipt i g (rows @ [r]) = (Inr (), rows)"
  using assms by (auto simp: releaseReceipt_def modify_def deleteRows_def filter_id_conv)

section \<open>The mutation\<close>

lemma commit_hook:
  assumes "commitMutation env v h s = (Inr r, t)" and "h r = ret ()"
  shows "commitMutation env v (\<lambda>_. ret ()) s = (Inr r, t)"
  using assms unfolding commitMutation_def
  by (auto simp: bind_def andThen_def gets_def ret_def split: prod.splits sum.splits)

lemma withMutation_hook:
  assumes "withMutation env ns rootId b work h s = (Inr r, t)" and "h r = ret ()"
  shows "withMutation env ns rootId b work (\<lambda>_. ret ()) s = (Inr r, t)"
proof -
  obtain d k where s: "s = (d, k)" by (cases s)
  from assms(1) obtain feed v u w where o: "openMutation ns rootId b d = Inr feed" "work (initTx ns rootId feed d k) = (Inr v, u)"
    and c: "commitMutation env v h u = (Inr r, w)" and t: "t = (x_db w, x_next w)"
    by (auto simp: s withMutation_def bind_def split: prod.splits sum.splits)
  from commit_hook [OF c assms(2)] o t show ?thesis by (simp add: s withMutation_def bind_def)
qed

lemma withMutation_fails: "withMutation env ns rootId b work h (d, k) = (Inl e, (d', k')) \<Longrightarrow> d' = d"
  by (auto simp: withMutation_def split: prod.splits sum.splits)

text \<open>The two ways a request is answered: by its mutation, or by a replayable error.\<close>

definition carriedOut :: "env \<Rightarrow> uuid \<Rightarrow> json_request \<Rightarrow> store \<Rightarrow> receipt_response \<Rightarrow> store \<Rightarrow> bool" where
  "carriedOut env rootId req st a st' \<longleftrightarrow> (\<exists>command r. jr_parsed req = Inr command \<and> a = toMutationResponse (jr_requestId req) r \<and>
     withMutation env (jr_namespaceId req) rootId False (applyConditionalMutation env command) (\<lambda>_. ret ()) st = (Inr r, st'))"

definition refusedWith :: "json_request \<Rightarrow> receipt_response \<Rightarrow> bool" where
  "refusedWith req a \<longleftrightarrow> (\<exists>e st. isReplayableMutationError e \<and> error_status e = Some st \<and> a = errorResponse e st (jr_requestId req))"

lemma applyMutation_owned:
  assumes run: "applyMutation env ns rootId command owner rid dbNow (st, rows @ [r]) = (Inr a, s')"
    and i: "\<forall>q\<in>set rows. \<not> atReceipt (ro_identity owner) q"
  shows "\<exists>res. a = toMutationResponse rid res \<and> completable (ro_identity owner) (ro_generation owner) dbNow r \<and>
    withMutation env ns rootId False (applyConditionalMutation env command) (\<lambda>_. ret ()) st = (Inr res, fst s') \<and>
    snd s' = rows @ [completeReceipt (ro_fingerprint owner) (ro_method owner) a None dbNow r]"
proof -
  let ?h = "\<lambda>x. liftR (fst (completing owner rid dbNow x (rows @ [r])))"
  from run obtain res st' where w: "withMutation env ns rootId False (applyConditionalMutation env command) ?h st = (Inr res, st')"
    and a: "a = toMutationResponse rid res" and s': "s' = (st', snd (completing owner rid dbNow res (rows @ [r])))"
    by (auto simp: applyMutation_def split: prod.splits sum.splits)
  from w obtain v u t where "commitMutation env v ?h u = (Inr res, t)"
    by (auto simp: withMutation_def bind_def split: prod.splits sum.splits)
  from commit_afterBump [OF this] have ok: "fst (completing owner rid dbNow res (rows @ [r])) = Inr ()" by (simp add: liftR_def)
  note c = completeWith_owned [OF i, where r = r]
  from ok have "completable (ro_identity owner) (ro_generation owner) dbNow r"
    unfolding completing_def c by (simp split: if_splits)
  moreover have "?h res = ret ()" by (simp add: ok fun_eq_iff liftR_def ret_def)
  note withMutation_hook [OF w this]
  ultimately show ?thesis using a s' by (intro exI [of _ res]) (simp add: completing_def c)
qed

lemma storeErrorReceipt_owned:
  assumes run: "storeErrorReceipt owner dbNow e rid (st, rows @ [r]) = (out, s')"
    and i: "\<forall>q\<in>set rows. \<not> atReceipt (ro_identity owner) q"
  shows "case out of Inl _ \<Rightarrow> s' = (st, rows @ [r])
    | Inr a \<Rightarrow> (\<exists>x. isReplayableMutationError e \<and> error_status e = Some x \<and> a = errorResponse e x rid) \<and>
        s' = (st, rows @ [completeReceipt (ro_fingerprint owner) (ro_method owner) a (ro_requestBodyBytes owner) dbNow r])"
proof -
  have thrown: "throwMutationError ns f u = (z, w) \<Longrightarrow> w = u \<and> (\<exists>x. z = Inl x)" for ns f u and z :: "vfs_error + receipt_response" and w
    by (auto simp: throwMutationError_def bind_def gets_def throw_def)
  note c = completeWith_owned [OF i, where r = r]
  show ?thesis
  proof (cases "isReplayableMutationError e")
    case True
    then obtain x where x: "error_status e = Some x" by (auto simp: isReplayableMutationError_def split: option.splits)
    show ?thesis
      using run True x
      by (auto simp: storeErrorReceipt_def recover_def andThen_def bind_def onReceipts_def ret_def Let_def completeAfterRollback_def
          transaction_def c dest!: thrown split: if_splits)
  next
    case False
    with run show ?thesis by (auto simp: storeErrorReceipt_def dest!: thrown)
  qed
qed

section \<open>The request\<close>

lemma runOwned_outcome:
  assumes run: "runOwned env ck rootId req owner ((d, k), rows @ [r]) = (out, ((d', k'), rows'))"
    and i: "\<forall>q\<in>set rows. \<not> atReceipt (ro_identity owner) q"
    and r: "atReceipt (ro_identity owner) r" "mr_state r = RESERVED" "mr_generation r = ro_generation owner"
    and b: "ro_requestBodyBytes owner = None"
  shows "case out of Inl _ \<Rightarrow> d' = d \<and> rows' = rows
    | Inr a \<Rightarrow> (carriedOut env rootId req (d, k) a (d', k') \<or> d' = d \<and> refusedWith req a) \<and>
        (\<exists>t. rows' = rows @ [completeReceipt (ro_fingerprint owner) (ro_method owner) a None t r])"
proof -
  let ?apply = "\<lambda>command. applyMutation env (jr_namespaceId req) rootId command owner (jr_requestId req) (ck_complete ck)"
  let ?store = "\<lambda>e. storeErrorReceipt owner (ck_error ck) e (jr_requestId req)"
  let ?body = "case jr_parsed req of Inl e \<Rightarrow> ?store e | Inr command \<Rightarrow> recover (?apply command) ?store"
  obtain z w where body: "?body ((d, k), rows @ [r]) = (z, w)" by (cases "?body ((d, k), rows @ [r])")
  have kept: "case z of Inl _ \<Rightarrow> fst (fst w) = d \<and> snd w = rows @ [r]
    | Inr a \<Rightarrow> (carriedOut env rootId req (d, k) a (fst w) \<or> fst (fst w) = d \<and> refusedWith req a) \<and>
        (\<exists>t. snd w = rows @ [completeReceipt (ro_fingerprint owner) (ro_method owner) a None t r])"
  proof -
    have stored: ?thesis if "?store e ((d, k0), rows @ [r]) = (z, w)" for e k0
      using storeErrorReceipt_owned [OF that i] b by (cases z) (auto simp: refusedWith_def)
    show ?thesis
    proof (cases "jr_parsed req")
      case (Inl e)
      with body stored show ?thesis by simp
    next
      case (Inr command)
      obtain y u where a: "?apply command ((d, k), rows @ [r]) = (y, u)" by (cases "?apply command ((d, k), rows @ [r])")
      show ?thesis
      proof (cases y)
        case (Inl e)
        have "snd u = rows @ [r]" using applyMutation_fails [OF a [unfolded Inl]] by simp
        moreover have "fst (fst u) = d"
          using a Inl by (auto simp: applyMutation_def dest!: withMutation_fails split: prod.splits sum.splits)
        ultimately have "u = ((d, snd (fst u)), rows @ [r])" by (cases u) auto
        moreover have "?store e u = (z, w)" using body Inr Inl a by (simp add: recover_def)
        ultimately show ?thesis using stored by metis
      next
        case (Inr a)
        with body \<open>jr_parsed req = Inr command\<close> \<open>?apply command _ = _\<close> have "z = Inr a" "w = u" by (simp_all add: recover_def)
        with applyMutation_owned [OF \<open>?apply command _ = _\<close> [unfolded Inr] i] \<open>jr_parsed req = Inr command\<close>
        show ?thesis by (auto simp: carriedOut_def)
      qed
    qed
  qed
  show ?thesis
  proof (cases z)
    case (Inl e)
    obtain st where w: "w = (st, rows @ [r])" "fst st = d" using kept Inl by (cases w) auto
    note rel = release_owned [OF i r]
    show ?thesis using run body Inl w rel
      by (cases st) (auto simp: runOwned_def recover_def andThen_def bind_def onReceipts_def throw_def)
  next
    case (Inr a)
    with run body have "out = Inr a" "w = ((d', k'), rows')" by (auto simp: runOwned_def recover_def)
    with kept Inr show ?thesis by simp
  qed
qed

text \<open>
  C7: a request under a mutation key not in use is all or nothing. When it throws, the nodes and the
  receipts are what they were, so the key is free for a retry. When it is answered, exactly one receipt is
  added, which replays that answer, and either the parsed mutation was carried out as if it ran alone and
  the answer reports it, or the nodes are what they were and the answer is a replayable error.
\<close>

theorem request_is_all_or_nothing:
  assumes "executeJson env l ck req ((d, k), rows) = (out, ((d', k'), rows'))"
    and "identityOf (jr_namespaceId req) (jr_scope req) (jr_key req) = Inr i" and "findReceipt i rows = None"
  shows "case out of
      Inl e \<Rightarrow> d' = d \<and> rows' = rows
    | Inr None \<Rightarrow> False
    | Inr (Some a) \<Rightarrow>
        (\<exists>root. requireRoot (jr_namespaceId req) d = Inr root \<and>
           (carriedOut env (r_id root) req (d, k) a (d', k') \<or> d' = d \<and> refusedWith req a)) \<and>
        (\<exists>r. rows' = rows @ [r] \<and> atReceipt i r \<and> mr_state r = COMPLETE \<and>
           (\<forall>rid. replayReceipt r (jr_method req) (jr_fingerprint req) rid = Some a))"
proof (cases "requireRoot (jr_namespaceId req) d")
  case (Inl e)
  with assms(1,2) show ?thesis by (auto simp: executeJson_def bind_def liftR_def gets_def)
next
  case (Inr root)
  let ?new = "newReceipt i l (ck_now ck) (fst (ck_claim ck 2))"
  let ?owner = "\<lparr> ro_identity = i, ro_generation = 1, ro_fingerprint = jr_fingerprint req, ro_method = jr_method req, ro_requestBodyBytes = None \<rparr>"
  obtain y w where own: "runOwned env ck (r_id root) req ?owner ((d, k), rows @ [?new]) = (y, w)"
    by (cases "runOwned env ck (r_id root) req ?owner ((d, k), rows @ [?new])")
  from assms(1,2) Inr own have out: "out = map_sum id Some y" "w = ((d', k'), rows')"
    by (cases y; auto simp: executeJson_def bind_def liftR_def gets_def onReceipts_def claim_new [OF assms(3)] answerClaim_def ret_def)+
  have "\<forall>q\<in>set rows. \<not> atReceipt i q" using findReceipt_NoneD [OF assms(3)] by blast
  from runOwned_outcome [OF own [unfolded out(2)], unfolded receipt_owner.select_convs, OF this]
  have o: "case y of Inl _ \<Rightarrow> d' = d \<and> rows' = rows
    | Inr a \<Rightarrow> (carriedOut env (r_id root) req (d, k) a (d', k') \<or> d' = d \<and> refusedWith req a) \<and>
        (\<exists>t. rows' = rows @ [completeReceipt (jr_fingerprint req) (jr_method req) a None t ?new])"
    by (simp add: newReceipt_def atReceipt_def)
  have "atReceipt i (completeReceipt fp m a b t ?new) \<and> mr_state (completeReceipt fp m a b t ?new) = COMPLETE \<and>
      (\<forall>rid. replayReceipt (completeReceipt fp m a b t ?new) m fp rid = Some a)" for fp m a b t
    by (simp add: completeReceipt_def newReceipt_def atReceipt_def replayReceipt_def)
  with o Inr out(1) show ?thesis by (cases y) auto
qed

end
