(* ===== verification/ReceiptExample.thy ===== *)
theory ReceiptExample
  imports RequestOutcome Example
begin

text \<open>A request under a mutation key, carried out on a small store.\<close>

definition deskNs :: jstring where "deskNs = replicate 32 48"

definition deskDb :: db where
  "deskDb = exDb\<lparr> nodes := [exRoot\<lparr> n_namespaceId := deskNs \<rparr>], namespaces := [exNamespace\<lparr> ns_id := deskNs \<rparr>] \<rparr>"

definition deskRequest :: json_request where
  "deskRequest = \<lparr> jr_namespaceId = deskNs, jr_scope = Some (js ''s''), jr_key = Some (uuidNo 5), jr_method = js ''POST'',
     jr_parsed = Inr (MkdirCommand (js ''/b'') [js ''b'']), jr_fingerprint = js ''f'', jr_requestId = js ''r'' \<rparr>"

definition deskClocks :: clocks where
  "deskClocks = \<lparr> ck_now = 1000, ck_claim = (\<lambda>_. (1000, 1000)), ck_complete = 2000, ck_error = 3000 \<rparr>"

definition deskIdentity :: receipt_identity where
  "deskIdentity = \<lparr> ri_namespaceId = deskNs, ri_scope = js ''s'', ri_key = uuidNo 5 \<rparr>"

lemma deskNs_id: "isNamespaceId deskNs"
  by (simp add: isNamespaceId_def deskNs_def is_hex_def is_digit_def)

lemma desk_identity: "identityOf deskNs (Some (js ''s'')) (Some (uuidNo 5)) = Inr deskIdentity"
  using uuidNo_pattern [of 5] uuid_pattern_lower [OF uuidNo_pattern [of 5]] by (simp add: identityOf_def deskIdentity_def js_def)

lemma desk_root: "requireRoot deskNs deskDb = Inr (toRecord (exRoot\<lparr> n_namespaceId := deskNs \<rparr>))"
  by (simp add: requireRoot_def getRoot_def deskNs_id deskDb_def findNamespace_def findRoot_def findRow_def exNamespace_def exDb_def exRoot_def)

lemma desk_claim:
  "claimReceipt deskIdentity 60 1000 (\<lambda>_. (1000, 1000)) [] = (Inr (Owner 1), [newReceipt deskIdentity 60 1000 1000])"
  by (simp add: claimReceipt_def MAX_CLAIM_ATTEMPTS_def numeral_3_eq_3 tryClaim_def insertClaim_def findReceipt_def findRow_def insertRow_def
      bind_def gets_def ret_def andThen_def modify_def)

lemma desk_mkdir:
  "\<exists>r st. withMutation exEnv deskNs exRootId False (applyConditionalMutation exEnv (MkdirCommand (js ''/b'') [js ''b''])) (\<lambda>_. ret ()) (deskDb, 1)
     = (Inr r, st)"
  by (simp add: run_simps applyConditionalMutation_def conditionalMkdir_def ensureDirectory_def deskDb_def resolvePathInManager_def)

definition deskOwner :: receipt_owner where
  "deskOwner = \<lparr> ro_identity = deskIdentity, ro_generation = 1, ro_fingerprint = js ''f'', ro_method = js ''POST'', ro_requestBodyBytes = None \<rparr>"

lemma desk_completing:
  "completing deskOwner rid 2000 r [newReceipt deskIdentity 60 1000 1000] =
     (Inr (), [completeReceipt (js ''f'') (js ''POST'') (toMutationResponse rid r) None 2000 (newReceipt deskIdentity 60 1000 1000)])"
  by (simp add: completing_def completeWith_def updateReceipts_def updateRows_def completable_def atReceipt_def newReceipt_def deskOwner_def
      databaseExpiry_def bind_def throwIf_def ret_def)

lemma liftR_Inr: "liftR (Inr x) = ret x"
  by (simp add: fun_eq_iff liftR_def ret_def)

lemma desk_run:
  "\<exists>r st. executeJson exEnv 60 deskClocks deskRequest ((deskDb, 1), []) =
     (Inr (Some (toMutationResponse (js ''r'') r)),
      (st, [completeReceipt (js ''f'') (js ''POST'') (toMutationResponse (js ''r'') r) None 2000 (newReceipt deskIdentity 60 1000 1000)]))"
proof -
  obtain r st where run: "withMutation exEnv deskNs exRootId False (applyConditionalMutation exEnv (MkdirCommand (js ''/b'') [js ''b'']))
      (\<lambda>_. ret ()) (deskDb, 1) = (Inr r, st)" using desk_mkdir by blast
  have "applyMutation exEnv deskNs exRootId (MkdirCommand (js ''/b'') [js ''b'']) deskOwner (js ''r'') 2000
      ((deskDb, 1), [newReceipt deskIdentity 60 1000 1000]) = (Inr (toMutationResponse (js ''r'') r),
      (st, [completeReceipt (js ''f'') (js ''POST'') (toMutationResponse (js ''r'') r) None 2000 (newReceipt deskIdentity 60 1000 1000)]))"
    by (simp add: applyMutation_def desk_completing liftR_Inr run [simplified])
  then show ?thesis
    by (cases r) (auto simp: executeJson_def deskRequest_def deskClocks_def desk_identity desk_root desk_claim onReceipts_def bind_def liftR_def gets_def
        answerClaim_def runOwned_def recover_def ret_def toRecord_def exRoot_def deskOwner_def)
qed

theorem request_is_executed_once_witness:
  "\<exists>resp s1. executeJson exEnv 60 deskClocks deskRequest ((deskDb, 1), []) = (Inr (Some resp), s1) \<and>
     executeJson exEnv 60 (deskClocks\<lparr> ck_now := 5000 \<rparr>) (deskRequest\<lparr> jr_requestId := js ''q'', jr_parsed := jr_parsed deskRequest \<rparr>)
       ((deskDb, 1), snd s1) = (Inr (Some resp), ((deskDb, 1), snd s1))"
proof -
  obtain r st where run: "executeJson exEnv 60 deskClocks deskRequest ((deskDb, 1), []) = (Inr (Some (toMutationResponse (js ''r'') r)),
      (st, [completeReceipt (js ''f'') (js ''POST'') (toMutationResponse (js ''r'') r) None 2000 (newReceipt deskIdentity 60 1000 1000)]))"
    (is "_ = (_, (_, ?rows))")
    using desk_run by blast
  have "deskRun 6000 (st, ?rows) ((deskDb, 1), ?rows)"
    using deskRun.call [OF deskRun.start, of 6000 "OtherWork (deskDb, 1)" "(st, ?rows)"] by simp
  then have "executeJson exEnv 60 (deskClocks\<lparr> ck_now := 5000 \<rparr>) (deskRequest\<lparr> jr_requestId := js ''q'', jr_parsed := jr_parsed deskRequest \<rparr>)
       ((deskDb, 1), ?rows) = (Inr (Some (toMutationResponse (js ''r'') r)), ((deskDb, 1), ?rows))"
    by (intro request_is_executed_once [OF run, where i = deskIdentity and t = 6000 and root = "toRecord (exRoot\<lparr> n_namespaceId := deskNs \<rparr>)"])
      (simp_all add: receiptsOk_def desk_identity deskRequest_def toMutationResponse_def completeReceipt_def databaseExpiry_def
        RECEIPT_DAYS_def desk_root deskClocks_def)
  with run show ?thesis by (intro exI conjI) auto
qed

text \<open>
  The lease runs out while the directory is being created: the completion inside the transaction finds
  the claim lost, and so does the error receipt.
\<close>

lemma desk_late_completion: "completeWith deskIdentity 1 (js ''f'') (js ''POST'') resp b 99000 [newReceipt deskIdentity 60 1000 1000] =
    (Inl claimLost, [newReceipt deskIdentity 60 1000 1000])"
  by (simp add: completeWith_def updateReceipts_def updateRows_def completable_def atReceipt_def newReceipt_def databaseExpiry_def bind_def
      throwIf_def throw_def)

lemma desk_late_mutation:
  "\<exists>e st. applyMutation exEnv deskNs exRootId command deskOwner rid 99000 ((deskDb, 1), [newReceipt deskIdentity 60 1000 1000]) =
     (Inl e, (st, [newReceipt deskIdentity 60 1000 1000]))"
proof -
  have "completing deskOwner rid 99000 r [newReceipt deskIdentity 60 1000 1000] = (Inl claimLost, [newReceipt deskIdentity 60 1000 1000])" for r
    by (simp add: completing_def deskOwner_def desk_late_completion)
  then show ?thesis
    by (auto simp: applyMutation_def withMutation_def commitMutation_def bind_def andThen_def liftR_def split: prod.splits sum.splits)
qed

lemma desk_late_error:
  "\<exists>f. storeErrorReceipt deskOwner 99000 e rid (st, [newReceipt deskIdentity 60 1000 1000]) = (Inl f, (st, [newReceipt deskIdentity 60 1000 1000]))"
  by (cases "error_status e")
    (auto simp: storeErrorReceipt_def deskOwner_def Let_def recover_def onReceipts_def completeAfterRollback_def transaction_def
      desk_late_completion andThen_def bind_def throwMutationError_def gets_def throw_def split: prod.splits)

lemma desk_late:
  "\<exists>e st rows. executeJson exEnv 60 (deskClocks\<lparr> ck_complete := 99000, ck_error := 99000 \<rparr>) deskRequest ((deskDb, 1), []) = (Inl e, (st, rows))"
proof -
  let ?rows = "[newReceipt deskIdentity 60 1000 1000]"
  obtain e st where a: "applyMutation exEnv deskNs exRootId (MkdirCommand (js ''/b'') [js ''b'']) deskOwner (js ''r'') 99000 ((deskDb, 1), ?rows) =
      (Inl e, (st, ?rows))" using desk_late_mutation by blast
  obtain f where f: "storeErrorReceipt deskOwner 99000 e (js ''r'') (st, ?rows) = (Inl f, (st, ?rows))" using desk_late_error by blast
  have owner: "\<lparr> ro_identity = deskIdentity, ro_generation = 1, ro_fingerprint = js ''f'', ro_method = js ''POST'', ro_requestBodyBytes = None \<rparr> = deskOwner"
    by (simp add: deskOwner_def)
  show ?thesis
    by (simp add: executeJson_def deskRequest_def deskClocks_def desk_identity desk_root desk_claim onReceipts_def bind_def liftR_def gets_def
        answerClaim_def runOwned_def recover_def owner a [simplified] f toRecord_def exRoot_def andThen_def releaseReceipt_def modify_def throw_def)
qed

theorem request_is_all_or_nothing_witness:
  "\<exists>e st. executeJson exEnv 60 (deskClocks\<lparr> ck_complete := 99000, ck_error := 99000 \<rparr>) deskRequest ((deskDb, 1), []) = (Inl e, (st, [])) \<and>
     fst st = deskDb"
proof -
  obtain e d k rows where run: "executeJson exEnv 60 (deskClocks\<lparr> ck_complete := 99000, ck_error := 99000 \<rparr>) deskRequest ((deskDb, 1), []) =
      (Inl e, ((d, k), rows))" using desk_late by (metis prod.exhaust)
  have "identityOf (jr_namespaceId deskRequest) (jr_scope deskRequest) (jr_key deskRequest) = Inr deskIdentity"
    by (simp add: deskRequest_def desk_identity)
  from request_is_all_or_nothing [OF run this] run show ?thesis by (simp add: findReceipt_def findRow_def)
qed

text \<open>
  A generation identifies an owner only while the row lives. The owner of generation 1 is overtaken by
  generation 2, which gives the key back, and the row goes; the next claim starts at generation 1 again,
  and a late renewal by the first owner then prolongs that claim. The comment on \<open>renew\<close> says the
  renewal of an overtaken owner stays blocked.
\<close>

theorem overtaken_owner_renews:
  "fst (bind (insertClaim i 60 0 0) (\<lambda>_. bind (takeOver i 60 60000) (\<lambda>_. andThen (releaseReceipt i 2)
     (andThen (insertClaim i 60 60001 60001) (renewReceipt i 1 60 60002)))) []) = Inr True"
  by (simp add: bind_def andThen_def insertClaim_def takeOver_def releaseReceipt_def renewReceipt_def updateReceipts_def gets_def modify_def ret_def
      findReceipt_def findRow_def insertRow_def updateRows_def deleteRows_def newReceipt_def atReceipt_def leaseOver_def databaseExpiry_def)

end
