(* ===== verification/FeedExample.thy ===== *)
theory FeedExample
  imports FeedService ReceiptExample
begin

text \<open>A feed with one event, opened on the store of the receipt example.\<close>

definition feedDb :: db where
  "feedDb = deskDb\<lparr> feedStates := [\<lparr> f_namespaceId = deskNs, f_lastSequence = 0, f_prunedThrough = 0, f_hasCheckpoint = True, f_signingSecret = [] \<rparr>] \<rparr>"

definition feedTx :: tx where
  "feedTx = initTx deskNs exRootId True feedDb 1"

lemmas desk_simps = feedDb_def feedTx_def deskDb_def

lemma feed_checkpoint: "createChangeFeedCheckpoint deskNs exRootId [] deskDb = (Inr 0, feedDb)"
  by (simp add: createChangeFeedCheckpoint_def desk_simps run_simps)

lemma feed_append: "\<exists>t. appendChangeFeedEvents exEnv deskNs [] [exRootId] feedTx = (Inr (), t) \<and> length (events (x_db t)) = 1 \<and>
    namespaces (x_db t) = namespaces deskDb \<and> nodes (x_db t) = nodes deskDb"
  by (simp add: desk_simps run_simps feed_simps)

theorem feed_reader_misses_nothing_witness:
  "\<exists>d log st. feedRun deskNs d log \<and> length log = 1 \<and>
     listChanges fixedMac True deskNs (Some (cursorAt fixedMac deskNs 0 st)) None [] d = (Inr (slice fixedMac deskNs log st 0 100), d)"
proof -
  obtain t where t: "appendChangeFeedEvents exEnv deskNs [] [exRootId] feedTx = (Inr (), t)" "length (events (x_db t)) = 1"
    "namespaces (x_db t) = namespaces deskDb" "nodes (x_db t) = nodes deskDb" using feed_append by blast
  have db: "x_db feedTx = feedDb" by (simp add: feedTx_def initTx_def)
  have none: "events feedDb = []" by (simp add: desk_simps exDb_def)
  have "feedRun deskNs deskDb []" by (rule feedRun.start) (simp add: journalOf_def desk_simps exDb_def readChangeFeedState_def findRow_def)
  then have "feedRun deskNs feedDb []" using feed_checkpoint by (rule feedRun.checkpoint)
  then have run: "feedRun deskNs (x_db t) (events (x_db t))" using feedRun.append [of deskNs feedTx "[]", OF _ t(1)] by (simp add: db none)
  have state: "readChangeFeedState deskNs (feedStates (x_db feedTx)) = Some (hd (feedStates feedDb))"
    unfolding db by (simp add: desk_simps readChangeFeedState_def findRow_def)
  obtain st where st: "readChangeFeedState deskNs (feedStates (x_db t)) = Some st" using append_sequence [OF t(1) state] by blast
  have cp: "f_hasCheckpoint st \<and> f_prunedThrough st = 0"
    using t(1) st unfolding db by (auto simp: appendChangeFeedEvents_def Let_def monad_simps readState_update freshId_def db desk_simps
        readChangeFeedState_def findRow_def updateRows_def feedTx_def initTx_def split: if_splits)
  have "getRoot deskNs (x_db t) = getRoot deskNs deskDb" unfolding getRoot_def t(3,4) ..
  moreover have "getRoot deskNs deskDb \<noteq> None" using desk_root by (auto simp: requireRoot_def deskNs_id split: option.splits)
  ultimately obtain root where root: "getRoot deskNs (x_db t) = Some root" by fastforce
  from feed_reader_misses_nothing [OF run st _ fixedMac_32 _ root deskNs_id, where s = 0 and rawLimit = None and secret = "[]"] cp
  have "listChanges fixedMac True deskNs (Some (cursorAt fixedMac deskNs 0 st)) None [] (x_db t) =
      (Inr (slice fixedMac deskNs (events (x_db t)) st 0 100), x_db t)" by (simp add: resolveLimit_def MAX_INT64_def)
  with run t(2) show ?thesis by blast
qed

end
