(* ===== verification/Commands.thy ===== *)
theory Commands
  imports Conditionals
begin

text \<open>
  The bodies of conditional mutations: \<open>vfs/dto/conditional-mutation-request.dto.ts\<close>,
  \<open>vfs/file-expiry-policy.ts\<close> and \<open>vfs/mime.ts\<close>. A body is the value \<open>JSON.parse\<close> gives; an object
  is the list of its fields, and a number that is no integer is \<open>VNumber None\<close>.
\<close>

datatype jvalue = VNull | VBool bool | VNumber "int option" | VString jstring | VArray "jvalue list" | VObject "(jstring \<times> jvalue) list"

abbreviation badRequest :: vfs_error where "badRequest \<equiv> Mutation VfsInvalidMutationRequestError"
abbreviation badExpiry :: vfs_error where "badExpiry \<equiv> Mutation VfsInvalidExpiryError"

section \<open>Expiry\<close>

record file_expiry_bounds =
  fx_minSeconds :: int
  fx_maxSeconds :: int

definition MAX_FILE_EXPIRY_SECONDS :: int where "MAX_FILE_EXPIRY_SECONDS = 2147483647"

definition DEFAULT_FILE_EXPIRY_BOUNDS :: file_expiry_bounds where
  "DEFAULT_FILE_EXPIRY_BOUNDS = \<lparr> fx_minSeconds = 60, fx_maxSeconds = 2592000 \<rparr>"

definition parseBound :: "jstring option \<Rightarrow> int \<Rightarrow> int result" where
  "parseBound value fallback =
     (case value of
        None \<Rightarrow> Inr fallback
      | Some v \<Rightarrow>
          if v = [] then Inr fallback
          else if \<not> positive_decimal v \<or> MAX_SAFE_INTEGER < int (dec_value v) then Inl (InternalError ''Invalid bound'')
          else Inr (int (dec_value v)))"

definition resolveFileExpiryBounds :: "jstring option \<Rightarrow> jstring option \<Rightarrow> file_expiry_bounds result" where
  "resolveFileExpiryBounds lower upper =
     (case parseBound lower 60 of
        Inl e \<Rightarrow> Inl e
      | Inr minSeconds \<Rightarrow>
          (case parseBound upper 2592000 of
             Inl e \<Rightarrow> Inl e
           | Inr maxSeconds \<Rightarrow>
               if MAX_FILE_EXPIRY_SECONDS < maxSeconds then Inl (InternalError ''exceeds PostgreSQL INTEGER limit'')
               else if maxSeconds < minSeconds then Inl (InternalError ''minimum exceeds maximum'')
               else Inr \<lparr> fx_minSeconds = minSeconds, fx_maxSeconds = maxSeconds \<rparr>))"

definition parseExpirySeconds :: "jvalue \<Rightarrow> int result" where
  "parseExpirySeconds value =
     (case value of
        VNumber (Some n) \<Rightarrow> if n < 1 \<or> MAX_FILE_EXPIRY_SECONDS < n then Inl badExpiry else Inr n
      | _ \<Rightarrow> Inl badExpiry)"

definition assertExpiryWithinBounds :: "int \<Rightarrow> file_expiry_bounds \<Rightarrow> unit result" where
  "assertExpiryWithinBounds seconds bounds =
     (if seconds < fx_minSeconds bounds \<or> fx_maxSeconds bounds < seconds then Inl badExpiry else Inr ())"

definition assertExpirySeconds :: "jvalue \<Rightarrow> file_expiry_bounds \<Rightarrow> int result" where
  "assertExpirySeconds value bounds =
     (case parseExpirySeconds value of
        Inl e \<Rightarrow> Inl e
      | Inr seconds \<Rightarrow> (case assertExpiryWithinBounds seconds bounds of Inl e \<Rightarrow> Inl e | Inr _ \<Rightarrow> Inr seconds))"

definition parseExpiresInHeader :: "jstring \<Rightarrow> file_expiry_bounds option \<Rightarrow> int result" where
  "parseExpiresInHeader raw bounds =
     (if \<not> positive_decimal raw then Inl badExpiry
      else (let value = VNumber (Some (int (dec_value raw))) in
        case bounds of None \<Rightarrow> parseExpirySeconds value | Some b \<Rightarrow> assertExpirySeconds value b))"

section \<open>MIME types\<close>

definition alnum :: "jchar \<Rightarrow> bool" where
  "alnum c \<longleftrightarrow> is_digit c \<or> 65 \<le> c \<and> c \<le> 90 \<or> 97 \<le> c \<and> c \<le> 122"

text \<open>\<open>[a-zA-Z0-9!#$&^_.+-]\<close>\<close>

definition mimeChar :: "jchar \<Rightarrow> bool" where
  "mimeChar c \<longleftrightarrow> alnum c \<or> c \<in> {33, 35, 36, 38, 94, 95, 46, 43, 45}"

definition mimeToken :: "jstring \<Rightarrow> bool" where
  "mimeToken t \<longleftrightarrow> t \<noteq> [] \<and> alnum (hd t) \<and> (\<forall>c\<in>set (tl t). mimeChar c)"

definition mimePattern :: "jstring \<Rightarrow> bool" where
  "mimePattern s \<longleftrightarrow> (case js_split slash s of [a, b] \<Rightarrow> mimeToken a \<and> mimeToken b | _ \<Rightarrow> False)"

text \<open>
  \<open>toLowerCase\<close> as far as the pattern can see: the Kelvin sign is the one character outside ASCII whose
  lower case is in ASCII.
\<close>

definition mimeLower :: "jchar \<Rightarrow> jchar" where
  "mimeLower c = (if c = 0x212A then 107 else lower_ascii c)"

definition normalizeMimeType :: "jstring option \<Rightarrow> jstring" where
  "normalizeMimeType raw =
     (let fallback = js ''application/octet-stream'' in
      case raw of
        None \<Rightarrow> fallback
      | Some r \<Rightarrow>
          if r = [] then fallback
          else (let primary = map mimeLower (js_trim (hd (js_split 59 r))) in
            if length primary \<le> 255 \<and> mimePattern primary then primary else fallback))"

definition assertStrictMimeType :: "jvalue option \<Rightarrow> jstring result" where
  "assertStrictMimeType raw =
     (case raw of
        Some (VString s) \<Rightarrow> if 255 < length s \<or> \<not> mimePattern s then Inl badRequest else Inr (map lower_ascii s)
      | _ \<Rightarrow> Inl badRequest)"

section \<open>Commands\<close>

type_synonym fields = "(jstring \<times> jvalue) list"

definition recordOf :: "jvalue \<Rightarrow> fields result" where
  "recordOf body = (case body of VObject fs \<Rightarrow> Inr fs | _ \<Rightarrow> Inl badRequest)"

definition requireKeys :: "fields \<Rightarrow> jstring list \<Rightarrow> unit result" where
  "requireKeys r allowed = (if \<exists>k\<in>set (map fst r). k \<notin> set allowed then Inl badRequest else Inr ())"

definition pathOf :: "(jstring \<Rightarrow> jstring) \<Rightarrow> jvalue option \<Rightarrow> bool \<Rightarrow> resolved_path result" where
  "pathOf nfc value allowRoot =
     (case value of
        Some (VString s) \<Rightarrow>
          (case resolve nfc (Some s) of
             Inl e \<Rightarrow> Inl e
           | Inr p \<Rightarrow> if \<not> allowRoot \<and> segments p = [] then Inl badRequest else Inr p)
      | _ \<Rightarrow> Inl badRequest)"

definition requiredRevision :: "fields \<Rightarrow> jstring \<Rightarrow> jstring result" where
  "requiredRevision r field =
     (case map_of r field of
        None \<Rightarrow> Inl (Mutation VfsPreconditionRequiredError)
      | Some (VString value) \<Rightarrow> (case decodeRevision value of Inl e \<Rightarrow> Inl e | Inr _ \<Rightarrow> Inr value)
      | Some _ \<Rightarrow> Inl badRequest)"

definition requireTrue :: "fields \<Rightarrow> jstring \<Rightarrow> unit result" where
  "requireTrue r field =
     (case map_of r field of
        None \<Rightarrow> Inl (Mutation VfsPreconditionRequiredError)
      | Some v \<Rightarrow> if v \<noteq> VBool True then Inl badRequest else Inr ())"

definition assertMutationExpiryWithinBounds :: "conditional_mutation \<Rightarrow> file_expiry_bounds \<Rightarrow> unit result" where
  "assertMutationExpiryWithinBounds command bounds =
     (case command of CopyCommand _ _ _ _ _ _ (Some seconds) \<Rightarrow> assertExpiryWithinBounds seconds bounds | _ \<Rightarrow> Inr ())"

text \<open>Sequencing of checks that throw.\<close>

definition andResult :: "'a result \<Rightarrow> ('a \<Rightarrow> 'b result) \<Rightarrow> 'b result" where
  "andResult r f = (case r of Inl e \<Rightarrow> Inl e | Inr x \<Rightarrow> f x)"

definition parseMkdir :: "(jstring \<Rightarrow> jstring) \<Rightarrow> fields \<Rightarrow> conditional_mutation result" where
  "parseMkdir nfc r = andResult (requireKeys r [js ''kind'', js ''path'', js ''ifAbsent'']) (\<lambda>_.
     andResult (pathOf nfc (map_of r (js ''path'')) False) (\<lambda>p.
     andResult (requireTrue r (js ''ifAbsent'')) (\<lambda>_. Inr (MkdirCommand (canonical p) (segments p)))))"

definition parseDelete :: "(jstring \<Rightarrow> jstring) \<Rightarrow> fields \<Rightarrow> conditional_mutation result" where
  "parseDelete nfc r = andResult (requireKeys r [js ''kind'', js ''path'', js ''ifRevision'', js ''recursive'']) (\<lambda>_.
     andResult (pathOf nfc (map_of r (js ''path'')) False) (\<lambda>p.
     andResult (requiredRevision r (js ''ifRevision'')) (\<lambda>tok.
     case map_of r (js ''recursive'') of
       None \<Rightarrow> Inr (DeleteCommand (canonical p) (segments p) tok False)
     | Some (VBool b) \<Rightarrow> Inr (DeleteCommand (canonical p) (segments p) tok b)
     | Some _ \<Rightarrow> Inl badRequest)))"

definition parsePersist :: "(jstring \<Rightarrow> jstring) \<Rightarrow> fields \<Rightarrow> conditional_mutation result" where
  "parsePersist nfc r = andResult (requireKeys r [js ''kind'', js ''path'', js ''ifRevision'']) (\<lambda>_.
     andResult (pathOf nfc (map_of r (js ''path'')) False) (\<lambda>p.
     andResult (requiredRevision r (js ''ifRevision'')) (\<lambda>tok. Inr (PersistCommand (canonical p) (segments p) tok))))"

definition parseSetMimeType :: "(jstring \<Rightarrow> jstring) \<Rightarrow> fields \<Rightarrow> conditional_mutation result" where
  "parseSetMimeType nfc r = andResult (requireKeys r [js ''kind'', js ''path'', js ''ifRevision'', js ''mimeType'']) (\<lambda>_.
     andResult (pathOf nfc (map_of r (js ''path'')) False) (\<lambda>p.
     andResult (requiredRevision r (js ''ifRevision'')) (\<lambda>tok.
     andResult (assertStrictMimeType (map_of r (js ''mimeType''))) (\<lambda>mime. Inr (SetMimeTypeCommand (canonical p) (segments p) tok mime)))))"

definition parseExpiry :: "file_expiry_bounds option \<Rightarrow> bool \<Rightarrow> jvalue option \<Rightarrow> int option result" where
  "parseExpiry bounds moves value =
     (case value of
        None \<Rightarrow> Inr None
      | Some v \<Rightarrow>
          if moves then Inl badExpiry
          else andResult (case bounds of None \<Rightarrow> parseExpirySeconds v | Some b \<Rightarrow> assertExpirySeconds v b) (\<lambda>n. Inr (Some n)))"

definition parseRelocation :: "(jstring \<Rightarrow> jstring) \<Rightarrow> file_expiry_bounds option \<Rightarrow> bool \<Rightarrow> fields \<Rightarrow> conditional_mutation result" where
  "parseRelocation nfc bounds moves r =
     andResult (requireKeys r [js ''kind'', js ''source'', js ''destination'', js ''sourceRevision'', js ''destinationAbsent'',
       js ''destinationResolution'', js ''expiresInSeconds'']) (\<lambda>_.
     andResult (pathOf nfc (map_of r (js ''source'')) False) (\<lambda>source.
     andResult (pathOf nfc (map_of r (js ''destination'')) True) (\<lambda>dest.
     andResult (requiredRevision r (js ''sourceRevision'')) (\<lambda>tok.
     andResult (requireTrue r (js ''destinationAbsent'')) (\<lambda>_.
     if map_of r (js ''destinationResolution'') \<notin> {None, Some (VString (js ''exact''))} then Inl badRequest
     else andResult (parseExpiry bounds moves (map_of r (js ''expiresInSeconds''))) (\<lambda>expires.
       let exact = (map_of r (js ''destinationResolution'') \<noteq> None) in
       Inr (if moves then MoveCommand (canonical source) (segments source) (canonical dest) (segments dest) tok exact
            else CopyCommand (canonical source) (segments source) (canonical dest) (segments dest) tok exact expires)))))))"

definition parseKind :: "(jstring \<Rightarrow> jstring) \<Rightarrow> file_expiry_bounds option \<Rightarrow> jstring \<Rightarrow> fields \<Rightarrow> conditional_mutation result" where
  "parseKind nfc bounds kind r =
     (if kind = js ''mkdir'' then parseMkdir nfc r
      else if kind = js ''delete'' then parseDelete nfc r
      else if kind = js ''persist'' then parsePersist nfc r
      else if kind = js ''setMimeType'' then parseSetMimeType nfc r
      else if kind = js ''move'' then parseRelocation nfc bounds True r
      else if kind = js ''copy'' then parseRelocation nfc bounds False r
      else Inl badRequest)"

definition parseConditionalMutation :: "(jstring \<Rightarrow> jstring) \<Rightarrow> jvalue \<Rightarrow> file_expiry_bounds option \<Rightarrow> conditional_mutation result" where
  "parseConditionalMutation nfc body bounds = andResult (recordOf body) (\<lambda>r.
     case map_of r (js ''kind'') of
       Some (VString kind) \<Rightarrow> parseKind nfc bounds kind r
     | _ \<Rightarrow> Inl badRequest)"

text \<open>\<open>executeJson\<close> of \<open>vfs/mutation.service.ts\<close>: the structure first, the configured bounds after it; \<open>None\<close> is a body that is no JSON.\<close>

definition parsedBody :: "(jstring \<Rightarrow> jstring) \<Rightarrow> file_expiry_bounds \<Rightarrow> jvalue option \<Rightarrow> conditional_mutation result" where
  "parsedBody nfc bounds body =
     (case body of
        None \<Rightarrow> Inl badRequest
      | Some v \<Rightarrow> andResult (parseConditionalMutation nfc v None) (\<lambda>command.
          andResult (assertMutationExpiryWithinBounds command bounds) (\<lambda>_. Inr command)))"

section \<open>Well-typed commands\<close>

definition goodPath :: "(jstring \<Rightarrow> jstring) \<Rightarrow> jstring \<Rightarrow> jstring list \<Rightarrow> bool" where
  "goodPath nfc path segs \<longleftrightarrow> goodSegments nfc segs \<and> path = joinSegments segs"

definition goodRevision :: "jstring \<Rightarrow> bool" where
  "goodRevision tok \<longleftrightarrow> \<not> isl (decodeRevision tok)"

definition goodMime :: "jstring \<Rightarrow> bool" where
  "goodMime m \<longleftrightarrow> length m \<le> 255 \<and> mimePattern m \<and> map lower_ascii m = m"

fun goodExpiry :: "file_expiry_bounds option \<Rightarrow> int option \<Rightarrow> bool" where
  "goodExpiry bounds None \<longleftrightarrow> True"
| "goodExpiry bounds (Some n) \<longleftrightarrow> 1 \<le> n \<and> n \<le> MAX_FILE_EXPIRY_SECONDS \<and>
     (case bounds of None \<Rightarrow> True | Some b \<Rightarrow> fx_minSeconds b \<le> n \<and> n \<le> fx_maxSeconds b)"

fun wellTyped :: "(jstring \<Rightarrow> jstring) \<Rightarrow> file_expiry_bounds option \<Rightarrow> conditional_mutation \<Rightarrow> bool" where
  "wellTyped nfc bounds (MkdirCommand path segs) \<longleftrightarrow> goodPath nfc path segs \<and> segs \<noteq> []"
| "wellTyped nfc bounds (DeleteCommand path segs tok recursive) \<longleftrightarrow> goodPath nfc path segs \<and> segs \<noteq> [] \<and> goodRevision tok"
| "wellTyped nfc bounds (PersistCommand path segs tok) \<longleftrightarrow> goodPath nfc path segs \<and> segs \<noteq> [] \<and> goodRevision tok"
| "wellTyped nfc bounds (SetMimeTypeCommand path segs tok mime) \<longleftrightarrow> goodPath nfc path segs \<and> segs \<noteq> [] \<and> goodRevision tok \<and> goodMime mime"
| "wellTyped nfc bounds (MoveCommand source sourceSegs dest destSegs tok exact) \<longleftrightarrow>
     goodPath nfc source sourceSegs \<and> sourceSegs \<noteq> [] \<and> goodPath nfc dest destSegs \<and> goodRevision tok"
| "wellTyped nfc bounds (CopyCommand source sourceSegs dest destSegs tok exact expires) \<longleftrightarrow>
     goodPath nfc source sourceSegs \<and> sourceSegs \<noteq> [] \<and> goodPath nfc dest destSegs \<and> goodRevision tok \<and> goodExpiry bounds expires"

text \<open>The body a client sends for a command.\<close>

definition field :: "string \<Rightarrow> jstring \<Rightarrow> jstring \<times> jvalue" where
  "field k s = (js k, VString s)"

definition relocationFields :: "jstring \<Rightarrow> jstring \<Rightarrow> jstring \<Rightarrow> bool \<Rightarrow> fields" where
  "relocationFields source dest tok exact =
     [field ''source'' source, field ''destination'' dest, field ''sourceRevision'' tok, (js ''destinationAbsent'', VBool True)] @
     (if exact then [field ''destinationResolution'' (js ''exact'')] else [])"

fun commandBody :: "conditional_mutation \<Rightarrow> jvalue" where
  "commandBody (MkdirCommand path segs) = VObject [field ''kind'' (js ''mkdir''), field ''path'' path, (js ''ifAbsent'', VBool True)]"
| "commandBody (DeleteCommand path segs tok recursive) =
     VObject [field ''kind'' (js ''delete''), field ''path'' path, field ''ifRevision'' tok, (js ''recursive'', VBool recursive)]"
| "commandBody (PersistCommand path segs tok) = VObject [field ''kind'' (js ''persist''), field ''path'' path, field ''ifRevision'' tok]"
| "commandBody (SetMimeTypeCommand path segs tok mime) =
     VObject [field ''kind'' (js ''setMimeType''), field ''path'' path, field ''ifRevision'' tok, field ''mimeType'' mime]"
| "commandBody (MoveCommand source sourceSegs dest destSegs tok exact) =
     VObject (field ''kind'' (js ''move'') # relocationFields source dest tok exact)"
| "commandBody (CopyCommand source sourceSegs dest destSegs tok exact expires) =
     VObject (field ''kind'' (js ''copy'') # relocationFields source dest tok exact @
       (case expires of None \<Rightarrow> [] | Some n \<Rightarrow> [(js ''expiresInSeconds'', VNumber (Some n))]))"

section \<open>Parsed commands are well typed\<close>

lemma andResult_iff [simp]: "andResult r f = Inr y \<longleftrightarrow> (\<exists>x. r = Inr x \<and> f x = Inr y)"
  by (cases r) (auto simp: andResult_def)

lemma pathOf_good:
  "pathOf nfc v root = Inr p \<Longrightarrow> goodPath nfc (canonical p) (segments p) \<and> (root \<or> segments p \<noteq> [])"
  by (auto simp: pathOf_def goodPath_def dest: resolve_good split: option.splits jvalue.splits sum.splits if_splits)

lemma requiredRevision_good: "requiredRevision r k = Inr tok \<Longrightarrow> goodRevision tok"
  by (auto simp: requiredRevision_def goodRevision_def split: option.splits jvalue.splits sum.splits)

lemma lower_idem [simp]: "lower_ascii (lower_ascii c) = lower_ascii c"
  by (auto simp: lower_ascii_def word_le_nat_alt unat_word_ariths)

lemma lower_class:
  "alnum (lower_ascii c) = alnum c" "mimeChar (lower_ascii c) = mimeChar c" "(lower_ascii c = slash) = (c = slash)"
proof -
  have up: "is_digit d = False \<and> (97 \<le> d + 32 \<and> d + 32 \<le> 122) \<and> d \<notin> {33, 35, 36, 38, 94, 95, 46, 43, 45, 47} \<and> d + 32 \<noteq> 47"
    if "65 \<le> d" "d \<le> 90" for d :: jchar
    using that by (auto simp: is_digit_def word_le_nat_alt unat_word_ariths dest!: arg_cong [where f = unat])
  show "alnum (lower_ascii c) = alnum c" "mimeChar (lower_ascii c) = mimeChar c" "(lower_ascii c = slash) = (c = slash)"
    using up [of c] by (auto simp: lower_ascii_def alnum_def mimeChar_def slash_def)
qed

lemma split_lower: "js_split slash (map lower_ascii s) = map (map lower_ascii) (js_split slash s)"
  by (induction s) (auto simp: lower_class split: list.splits)

lemma mimePattern_lower: "mimePattern s \<Longrightarrow> mimePattern (map lower_ascii s)"
  by (auto simp: mimePattern_def split_lower mimeToken_def hd_map map_tl [symmetric] lower_class split: list.splits)

lemma assertStrictMimeType_good: "assertStrictMimeType v = Inr m \<Longrightarrow> goodMime m"
  by (auto simp: assertStrictMimeType_def goodMime_def mimePattern_lower split: option.splits jvalue.splits if_splits)

lemma parseExpiry_good: "parseExpiry bounds moves v = Inr n \<Longrightarrow> goodExpiry bounds n"
  by (auto simp: parseExpiry_def parseExpirySeconds_def assertExpirySeconds_def assertExpiryWithinBounds_def
      split: option.splits jvalue.splits if_splits sum.splits)

lemmas part_good = pathOf_good requiredRevision_good assertStrictMimeType_good parseExpiry_good

lemma parse_wellTyped:
  assumes "parseConditionalMutation nfc body bounds = Inr cmd"
  shows "wellTyped nfc bounds cmd"
proof -
  obtain r where r: "(case map_of r (js ''kind'') of Some (VString kind) \<Rightarrow> parseKind nfc bounds kind r | _ \<Rightarrow> Inl badRequest) = Inr cmd"
    using assms unfolding parseConditionalMutation_def andResult_iff by blast
  then obtain v where v: "map_of r (js ''kind'') = Some v" by (cases "map_of r (js ''kind'')") simp_all
  have "\<exists>kind. parseKind nfc bounds kind r = Inr cmd" using r v by (cases v) auto
  then obtain kind where kind: "parseKind nfc bounds kind r = Inr cmd" ..
  have parsed: "parseMkdir nfc r = Inr cmd \<or> parseDelete nfc r = Inr cmd \<or> parsePersist nfc r = Inr cmd \<or>
      parseSetMimeType nfc r = Inr cmd \<or> parseRelocation nfc bounds True r = Inr cmd \<or> parseRelocation nfc bounds False r = Inr cmd"
    using kind unfolding parseKind_def by (simp only: split: if_splits) simp_all
  have "wellTyped nfc bounds cmd" if "parseMkdir nfc r = Inr cmd" using that by (auto simp: parseMkdir_def dest: part_good)
  moreover have "wellTyped nfc bounds cmd" if "parseDelete nfc r = Inr cmd"
  proof -
    from that obtain p tok where p: "pathOf nfc (map_of r (js ''path'')) False = Inr p" "requiredRevision r (js ''ifRevision'') = Inr tok"
      and "(case map_of r (js ''recursive'') of None \<Rightarrow> Inr (DeleteCommand (canonical p) (segments p) tok False)
        | Some (VBool b) \<Rightarrow> Inr (DeleteCommand (canonical p) (segments p) tok b) | Some _ \<Rightarrow> Inl badRequest) = Inr cmd"
      unfolding parseDelete_def andResult_iff by blast
    then have "\<exists>b. cmd = DeleteCommand (canonical p) (segments p) tok b"
      by (cases "map_of r (js ''recursive'')"; simp) (auto split: jvalue.splits)
    then show ?thesis using part_good(1) [OF p(1)] part_good(2) [OF p(2)] by auto
  qed
  moreover have "wellTyped nfc bounds cmd" if "parsePersist nfc r = Inr cmd" using that by (auto simp: parsePersist_def dest: part_good)
  moreover have "wellTyped nfc bounds cmd" if "parseSetMimeType nfc r = Inr cmd" using that by (auto simp: parseSetMimeType_def dest: part_good)
  moreover have "wellTyped nfc bounds cmd" if "parseRelocation nfc bounds moves r = Inr cmd" for moves
  proof -
    from that obtain source :: resolved_path and dest :: resolved_path and tok expires where p: "pathOf nfc (map_of r (js ''source'')) False = Inr source"
      "pathOf nfc (map_of r (js ''destination'')) True = Inr dest" "requiredRevision r (js ''sourceRevision'') = Inr tok"
      "parseExpiry bounds moves (map_of r (js ''expiresInSeconds'')) = Inr expires"
      and cmd: "cmd = (let exact = (map_of r (js ''destinationResolution'') \<noteq> None) in
        if moves then MoveCommand (canonical source) (segments source) (canonical dest) (segments dest) tok exact
        else CopyCommand (canonical source) (segments source) (canonical dest) (segments dest) tok exact expires)"
      unfolding parseRelocation_def Let_def andResult_iff if_distrib [of "\<lambda>x. x = Inr cmd"] by (auto split: if_splits)
    show ?thesis using part_good(1) [OF p(1)] part_good(1) [OF p(2)] part_good(2) [OF p(3)] part_good(4) [OF p(4)] by (simp add: cmd Let_def)
  qed
  ultimately show ?thesis using parsed by blast
qed

section \<open>Well-typed commands are parsed\<close>

lemma unat_of_nat_jchar: "n < 65536 \<Longrightarrow> unat (of_nat n :: jchar) = n"
  by (simp add: unat_of_nat)

lemma js_eq: "js a = js b \<longleftrightarrow> a = b"
proof -
  have "inj (of_char :: char \<Rightarrow> jchar)"
  proof (rule injI)
    fix x y :: char assume "(of_char x :: jchar) = of_char y"
    then have "(of_nat (of_char x) :: jchar) = of_nat (of_char y)" by (simp only: of_nat_of_char)
    then have "unat (of_nat (of_char x) :: jchar) = unat (of_nat (of_char y) :: jchar)" by (rule arg_cong)
    moreover have "(of_char c :: nat) < 65536" for c using of_char_mod_256 [of c, where ?'a = nat] mod_less_divisor [of 256 "of_char c :: nat"] by linarith
    ultimately have "(of_char x :: nat) = of_char y" by (simp only: unat_of_nat_jchar)
    then show "x = y" by (simp only: of_char_eq_iff)
  qed
  then show ?thesis by (simp add: js_def inj_map_eq_map)
qed

lemma pathOf_good_path:
  "goodPath nfc path segs \<Longrightarrow> root \<or> segs \<noteq> [] \<Longrightarrow> pathOf nfc (Some (VString path)) root = Inr \<lparr> canonical = path, segments = segs \<rparr>"
  by (auto simp: pathOf_def goodPath_def resolve_joinSegments)

lemma goodRevision_required: "map_of r k = Some (VString tok) \<Longrightarrow> goodRevision tok \<Longrightarrow> requiredRevision r k = Inr tok"
  by (auto simp: requiredRevision_def goodRevision_def split: sum.splits)

lemma goodMime_strict: "goodMime m \<Longrightarrow> assertStrictMimeType (Some (VString m)) = Inr m"
  by (simp add: assertStrictMimeType_def goodMime_def)

lemma goodExpiry_parse:
  "goodExpiry bounds expires \<Longrightarrow> parseExpiry bounds False (map_option (\<lambda>n. VNumber (Some n)) expires) = Inr expires"
  by (cases expires) (auto simp: parseExpiry_def parseExpirySeconds_def assertExpirySeconds_def assertExpiryWithinBounds_def andResult_def split: option.splits)

lemmas parse_simps = parseConditionalMutation_def recordOf_def parseKind_def field_def js_eq andResult_def requireKeys_def requireTrue_def
  goodRevision_required goodMime_strict

lemma wellTyped_parse:
  assumes "wellTyped nfc bounds cmd"
  shows "parseConditionalMutation nfc (commandBody cmd) bounds = Inr cmd"
proof (cases cmd)
  case (MkdirCommand path segs)
  with assms pathOf_good_path [of nfc path segs False] show ?thesis by (simp add: parse_simps parseMkdir_def)
next
  case (DeleteCommand path segs tok recursive)
  with assms pathOf_good_path [of nfc path segs False] show ?thesis by (simp add: parse_simps parseDelete_def)
next
  case (PersistCommand path segs tok)
  with assms pathOf_good_path [of nfc path segs False] show ?thesis by (simp add: parse_simps parsePersist_def)
next
  case (SetMimeTypeCommand path segs tok mime)
  with assms pathOf_good_path [of nfc path segs False] show ?thesis by (simp add: parse_simps parseSetMimeType_def)
next
  case (MoveCommand source sourceSegs dest destSegs tok exact)
  with assms pathOf_good_path [of nfc source sourceSegs False] pathOf_good_path [of nfc dest destSegs True] show ?thesis
    by (simp add: parse_simps parseRelocation_def relocationFields_def parseExpiry_def Let_def)
next
  case (CopyCommand source sourceSegs dest destSegs tok exact expires)
  with assms pathOf_good_path [of nfc source sourceSegs False] pathOf_good_path [of nfc dest destSegs True] goodExpiry_parse [of bounds expires]
  show ?thesis
    by (cases expires) (simp_all add: parse_simps parseRelocation_def relocationFields_def Let_def del: goodExpiry.simps(2))
qed

text \<open>
  C34: the commands a body can be parsed to are exactly the well-typed ones: paths that resolve to the
  segments kept beside them, never the root as a target, revisions that decode, a MIME type in lower
  case that fits its column, an expiry within the bounds.
\<close>

theorem commands_are_well_typed:
  "(\<exists>body. parseConditionalMutation nfc body bounds = Inr cmd) = wellTyped nfc bounds cmd"
  using parse_wellTyped wellTyped_parse by blast

end
