(* ===== verification/Exclude.thy ===== *)
theory Exclude
  imports Path "HOL-Library.While_Combinator"
begin

text \<open>
  The exclude patterns of an extraction: \<open>vfs/extract-exclude.ts\<close>. \<open>matchSegment\<close> is the loop of the
  source over positions in the pattern and the text; whether it returns is part of what is proved, so
  its value is an option. A JavaScript \<open>Set\<close> of states is the list of its elements, where repetitions
  do not matter.
\<close>

definition star :: jchar where "star = 42"

definition GLOBSTAR :: jstring where "GLOBSTAR = [42, 42]"

section \<open>The code\<close>

text \<open>\<open>segment.includes('**')\<close>\<close>

fun includesGlobstar :: "jstring \<Rightarrow> bool" where
  "includesGlobstar (a # b # s) \<longleftrightarrow> a = star \<and> b = star \<or> includesGlobstar (b # s)"
| "includesGlobstar _ \<longleftrightarrow> False"

fun parseSegments :: "jstring list \<Rightarrow> jstring list \<Rightarrow> jstring list result" where
  "parseSegments done [] = Inr done"
| "parseSegments done (s # rest) =
     (if s = [] then Inl (Extract VfsExtractInvalidRequestError)
      else if includesGlobstar s \<and> s \<noteq> GLOBSTAR then Inl (Extract VfsExtractInvalidRequestError)
      else if s = GLOBSTAR \<and> done \<noteq> [] \<and> last done = GLOBSTAR then parseSegments done rest
      else parseSegments (done @ [s]) rest)"

definition parsePattern :: "jstring \<Rightarrow> jstring list result" where
  "parsePattern pattern = parseSegments [] (js_split slash pattern)"

record match_state =
  m_p :: nat
  m_t :: nat
  m_star :: "nat option"
  m_resume :: nat
  m_failed :: bool

definition matchStep :: "jstring \<Rightarrow> jstring \<Rightarrow> match_state \<Rightarrow> match_state" where
  "matchStep pattern text s =
     (if m_p s < length pattern \<and> pattern ! m_p s = star
      then s\<lparr> m_star := Some (m_p s), m_resume := m_t s, m_p := m_p s + 1 \<rparr>
      else if m_p s < length pattern \<and> pattern ! m_p s = text ! m_t s
      then s\<lparr> m_p := m_p s + 1, m_t := m_t s + 1 \<rparr>
      else (case m_star s of
          Some k \<Rightarrow> s\<lparr> m_p := k + 1, m_resume := m_resume s + 1, m_t := m_resume s + 1 \<rparr>
        | None \<Rightarrow> s\<lparr> m_failed := True \<rparr>))"

definition matchSegment :: "jstring \<Rightarrow> jstring \<Rightarrow> bool option" where
  "matchSegment pattern text =
     (if star \<notin> set pattern then Some (pattern = text)
      else (case while_option (\<lambda>s. \<not> m_failed s \<and> m_t s < length text) (matchStep pattern text)
              \<lparr> m_p = 0, m_t = 0, m_star = None, m_resume = 0, m_failed = False \<rparr> of
          None \<Rightarrow> None
        | Some s \<Rightarrow> Some (\<not> m_failed s \<and> dropWhile (\<lambda>c. c = star) (drop (m_p s) pattern) = [])))"

text \<open>The states reached from \<open>q\<close> by skipping \<open>**\<close>; \<open>rest\<close> is the pattern from \<open>q\<close> on.\<close>

fun globRun :: "jstring list \<Rightarrow> nat \<Rightarrow> nat list" where
  "globRun (p # rest) q = (if p = GLOBSTAR then Suc q # globRun rest (Suc q) else [])"
| "globRun [] q = []"

definition closeOverGlobstar :: "jstring list \<Rightarrow> nat list \<Rightarrow> nat list" where
  "closeOverGlobstar pattern active = active @ concat (map (\<lambda>q. globRun (drop q pattern) q) active)"

fun stepStates :: "jstring list \<Rightarrow> jstring \<Rightarrow> nat list \<Rightarrow> nat list option" where
  "stepStates pattern segment [] = Some []"
| "stepStates pattern segment (q # qs) =
     (if length pattern \<le> q then stepStates pattern segment qs
      else if pattern ! q = GLOBSTAR then map_option ((#) q) (stepStates pattern segment qs)
      else (case matchSegment (pattern ! q) segment of
          None \<Rightarrow> None
        | Some b \<Rightarrow> map_option (\<lambda>next. if b then Suc q # next else next) (stepStates pattern segment qs)))"

fun prefixLoop :: "jstring list \<Rightarrow> nat list \<Rightarrow> jstring list \<Rightarrow> bool option" where
  "prefixLoop pattern active [] = Some False"
| "prefixLoop pattern active (segment # rest) =
     (case stepStates pattern segment active of
        None \<Rightarrow> None
      | Some stepped \<Rightarrow>
          (let next = closeOverGlobstar pattern stepped in
           if length pattern \<in> set next then Some True
           else if next = [] then Some False
           else prefixLoop pattern next rest))"

definition matchesPrefix :: "jstring list \<Rightarrow> jstring list \<Rightarrow> bool option" where
  "matchesPrefix pattern segs = prefixLoop pattern (closeOverGlobstar pattern [0]) segs"

fun someMatches :: "jstring list list \<Rightarrow> jstring list \<Rightarrow> bool option" where
  "someMatches [] segs = Some False"
| "someMatches (p # ps) segs =
     (case matchesPrefix p segs of None \<Rightarrow> None | Some True \<Rightarrow> Some True | Some False \<Rightarrow> someMatches ps segs)"

fun parsePatterns :: "jstring list \<Rightarrow> jstring list list result" where
  "parsePatterns [] = Inr []"
| "parsePatterns (p # ps) =
     (case parsePattern p of
        Inl e \<Rightarrow> Inl e
      | Inr c \<Rightarrow> (case parsePatterns ps of Inl e \<Rightarrow> Inl e | Inr cs \<Rightarrow> Inr (c # cs)))"

definition compileExclude :: "jstring list \<Rightarrow> (jstring \<Rightarrow> bool option) result" where
  "compileExclude patterns =
     (case parsePatterns patterns of
        Inl e \<Rightarrow> Inl e
      | Inr compiled \<Rightarrow> Inr (\<lambda>name. someMatches compiled (js_split slash name)))"

section \<open>What patterns mean\<close>

text \<open>\<open>*\<close> stands for any text within a segment, \<open>**\<close> for any number of segments.\<close>

primrec wild :: "jstring \<Rightarrow> jstring \<Rightarrow> bool" where
  "wild [] ts \<longleftrightarrow> ts = []"
| "wild (c # ps) ts \<longleftrightarrow>
     (if c = star then \<exists>k\<le>length ts. wild ps (drop k ts) else ts \<noteq> [] \<and> hd ts = c \<and> wild ps (tl ts))"

primrec glob :: "jstring list \<Rightarrow> jstring list \<Rightarrow> bool" where
  "glob [] ss \<longleftrightarrow> ss = []"
| "glob (p # ps) ss \<longleftrightarrow>
     (if p = GLOBSTAR then \<exists>k\<le>length ss. glob ps (drop k ss) else ss \<noteq> [] \<and> wild p (hd ss) \<and> glob ps (tl ss))"

lemma wild_literal: "star \<notin> set lit \<Longrightarrow> wild (lit @ ps) ts \<longleftrightarrow> take (length lit) ts = lit \<and> wild ps (drop (length lit) ts)"
proof (induction lit arbitrary: ts)
  case (Cons c lit)
  then show ?case by (cases ts) auto
qed simp

lemma wild_stars: "wild ps [] \<longleftrightarrow> dropWhile (\<lambda>c. c = star) ps = []"
  by (induction ps) auto

lemma wild_exact: "star \<notin> set ps \<Longrightarrow> wild ps ts \<longleftrightarrow> ps = ts"
proof (induction ps arbitrary: ts)
  case (Cons c ps)
  then show ?case by (cases ts) auto
qed auto

section \<open>The loop finds a match\<close>

text \<open>
  Since the last \<open>*\<close>, pattern and text agree up to the current positions, and the text matches exactly
  when some suffix from \<open>resume\<close> on matches what follows that \<open>*\<close>.
\<close>

definition agrees :: "jstring \<Rightarrow> jstring \<Rightarrow> nat \<Rightarrow> nat \<Rightarrow> nat \<Rightarrow> bool" where
  "agrees pattern text i j k \<longleftrightarrow> i + k \<le> length pattern \<and> j + k \<le> length text \<and>
     take k (drop i pattern) = take k (drop j text) \<and> star \<notin> set (take k (drop i pattern))"

definition suffixMatches :: "jstring \<Rightarrow> jstring \<Rightarrow> nat \<Rightarrow> nat \<Rightarrow> bool" where
  "suffixMatches pattern text i r \<longleftrightarrow> (\<exists>j\<ge>r. j \<le> length text \<and> wild (drop i pattern) (drop j text))"

fun matchInv :: "jstring \<Rightarrow> jstring \<Rightarrow> match_state \<Rightarrow> bool" where
  "matchInv pattern text s \<longleftrightarrow>
     (case m_star s of
        None \<Rightarrow> m_p s = m_t s \<and> agrees pattern text 0 0 (m_p s) \<and> (m_failed s \<longrightarrow> \<not> wild pattern text)
      | Some k \<Rightarrow> \<not> m_failed s \<and> k < m_p s \<and> m_resume s \<le> m_t s \<and> m_p s - Suc k = m_t s - m_resume s \<and>
          agrees pattern text (Suc k) (m_resume s) (m_t s - m_resume s) \<and>
          (wild pattern text \<longleftrightarrow> suffixMatches pattern text (Suc k) (m_resume s)))"

lemma agrees_wild:
  assumes "agrees pattern text i j k"
  shows "wild (drop i pattern) (drop j text) \<longleftrightarrow> wild (drop (i + k) pattern) (drop (j + k) text)"
proof -
  define lit where "lit = take k (drop i pattern)"
  have lit: "length lit = k" "star \<notin> set lit" "take k (drop j text) = lit" using assms by (auto simp: agrees_def lit_def)
  have a: "drop i pattern = lit @ drop (i + k) pattern" unfolding lit_def by (metis append_take_drop_id drop_drop add.commute)
  have "wild (lit @ drop (i + k) pattern) (drop j text) \<longleftrightarrow> wild (drop (i + k) pattern) (drop k (drop j text))"
    by (simp add: wild_literal [OF lit(2)] lit)
  then show ?thesis unfolding a [symmetric] by (simp add: add.commute)
qed

lemma agrees_Suc:
  "agrees pattern text i j k \<Longrightarrow> i + k < length pattern \<Longrightarrow> j + k < length text \<Longrightarrow> pattern ! (i + k) = text ! (j + k) \<Longrightarrow>
   pattern ! (i + k) \<noteq> star \<Longrightarrow> agrees pattern text i j (Suc k)"
  by (auto simp: agrees_def take_Suc_conv_app_nth)

text \<open>A \<open>*\<close> lets the text go on anywhere.\<close>

lemma wild_at_star:
  assumes "i < length pattern" and "pattern ! i = star"
  shows "wild (drop i pattern) ts \<longleftrightarrow> (\<exists>k\<le>length ts. wild (drop (Suc i) pattern) (drop k ts))"
  using Cons_nth_drop_Suc [OF assms(1)] assms(2) by (metis wild.simps(2))

lemma suffix_at_star:
  assumes "i < length pattern" and "pattern ! i = star" and "j \<le> length text"
  shows "wild (drop i pattern) (drop j text) \<longleftrightarrow> suffixMatches pattern text (Suc i) j"
proof
  assume "wild (drop i pattern) (drop j text)"
  then obtain k where "k \<le> length text - j" "wild (drop (Suc i) pattern) (drop (j + k) text)"
    by (auto simp: wild_at_star [OF assms(1,2)] add.commute)
  then show "suffixMatches pattern text (Suc i) j" unfolding suffixMatches_def using assms(3) by (intro exI [of _ "j + k"]) auto
next
  assume "suffixMatches pattern text (Suc i) j"
  then obtain m where "j \<le> m" "m \<le> length text" "wild (drop (Suc i) pattern) (drop m text)" by (auto simp: suffixMatches_def)
  then show "wild (drop i pattern) (drop j text)"
    unfolding wild_at_star [OF assms(1,2)] by (intro exI [of _ "m - j"]) auto
qed

lemma suffix_shift:
  assumes "agrees pattern text i r k" and "i + k < length pattern" and "pattern ! (i + k) = star"
  shows "suffixMatches pattern text i r \<longleftrightarrow> suffixMatches pattern text (Suc (i + k)) (r + k)"
proof
  have rk: "r + k \<le> length text" using assms(1) by (simp add: agrees_def)
  assume "suffixMatches pattern text i r"
  then obtain j where j: "r \<le> j" "j \<le> length text" "wild (drop i pattern) (drop j text)" by (auto simp: suffixMatches_def)
  have split: "drop i pattern = take k (drop i pattern) @ drop (i + k) pattern" by (metis append_take_drop_id drop_drop add.commute)
  have lit: "length (take k (drop i pattern)) = k" "star \<notin> set (take k (drop i pattern))" using assms(1) by (auto simp: agrees_def)
  have "take k (drop j text) = take k (drop i pattern)" "wild (drop (i + k) pattern) (drop k (drop j text))"
    using j(3) wild_literal [OF lit(2), of "drop (i + k) pattern" "drop j text"] lit(1) split by metis+
  then have "j + k \<le> length text" "wild (drop (i + k) pattern) (drop (j + k) text)"
    using lit(1) j(2) by (auto dest!: arg_cong [where f = length] simp: add.commute min_def split: if_splits)
  with suffix_at_star [OF assms(2,3)] have "suffixMatches pattern text (Suc (i + k)) (j + k)" by blast
  then show "suffixMatches pattern text (Suc (i + k)) (r + k)" using j(1) by (auto simp: suffixMatches_def intro: order_trans [OF add_right_mono])
next
  have rk: "r + k \<le> length text" using assms(1) by (simp add: agrees_def)
  assume "suffixMatches pattern text (Suc (i + k)) (r + k)"
  then have "wild (drop (i + k) pattern) (drop (r + k) text)" using suffix_at_star [OF assms(2,3) rk] by blast
  then have "wild (drop i pattern) (drop r text)" using agrees_wild [OF assms(1)] by blast
  then show "suffixMatches pattern text i r" unfolding suffixMatches_def using rk by (intro exI [of _ r]) auto
qed

lemma mismatch:
  assumes "agrees pattern text i j k" and "j + k < length text"
    and "i + k < length pattern \<Longrightarrow> pattern ! (i + k) \<noteq> star \<and> pattern ! (i + k) \<noteq> text ! (j + k)"
  shows "\<not> wild (drop i pattern) (drop j text)"
proof -
  have t: "drop (j + k) text \<noteq> []" "hd (drop (j + k) text) = text ! (j + k)" using assms(2) by (auto simp: hd_drop_conv_nth)
  show ?thesis unfolding agrees_wild [OF assms(1)]
  proof (cases "i + k < length pattern")
    case True
    with assms(3) Cons_nth_drop_Suc [OF True] t show "\<not> wild (drop (i + k) pattern) (drop (j + k) text)"
      by (metis wild.simps(2))
  next
    case False
    then show "\<not> wild (drop (i + k) pattern) (drop (j + k) text)" using t by simp
  qed
qed

lemma matchStep_inv:
  assumes inv: "matchInv pattern text s" and run: "\<not> m_failed s" "m_t s < length text"
  shows "matchInv pattern text (matchStep pattern text s)"
proof (cases "m_star s")
  case None
  then have s: "m_p s = m_t s" "agrees pattern text 0 0 (m_p s)" using inv by auto
  have w: "wild pattern text \<longleftrightarrow> wild (drop (m_p s) pattern) (drop (m_p s) text)" using agrees_wild [OF s(2)] by simp
  show ?thesis
  proof (cases "m_p s < length pattern \<and> pattern ! m_p s = star")
    case True
    then show ?thesis using None s run w suffix_at_star [of "m_p s" pattern "m_t s" "text"]
      by (simp add: matchStep_def agrees_def)
  next
    case False
    then show ?thesis using None s run agrees_Suc [of pattern "text" 0 0 "m_p s"] mismatch [of pattern "text" 0 0 "m_p s"]
      by (auto simp: matchStep_def)
  qed
next
  case (Some k)
  let ?d = "m_t s - m_resume s"
  have s: "k < m_p s" "m_resume s \<le> m_t s" "m_p s = Suc k + ?d" "agrees pattern text (Suc k) (m_resume s) ?d"
    "wild pattern text \<longleftrightarrow> suffixMatches pattern text (Suc k) (m_resume s)"
    using inv Some by auto
  have t: "m_resume s + ?d = m_t s" using s(2) by simp
  consider (Star) "m_p s < length pattern" "pattern ! m_p s = star"
    | (Same) "m_p s < length pattern" "pattern ! m_p s \<noteq> star" "pattern ! m_p s = text ! m_t s"
    | (Back) "m_p s < length pattern \<Longrightarrow> pattern ! m_p s \<noteq> star \<and> pattern ! m_p s \<noteq> text ! m_t s" by blast
  then show ?thesis
  proof cases
    case Star
    with suffix_shift [OF s(4)] s(3,5) t run show ?thesis by (simp add: matchStep_def agrees_def)
  next
    case Same
    with agrees_Suc [OF s(4)] s t run Some show ?thesis by (simp add: matchStep_def Suc_diff_le)
  next
    case Back
    have "\<not> wild (drop (Suc k) pattern) (drop (m_resume s) text)" using mismatch [OF s(4)] Back s(3) t run by simp
    then have "suffixMatches pattern text (Suc k) (m_resume s) \<longleftrightarrow> suffixMatches pattern text (Suc k) (Suc (m_resume s))"
      unfolding suffixMatches_def by (metis Suc_leD Suc_leI le_neq_implies_less)
    moreover have "agrees pattern text (Suc k) (Suc (m_resume s)) 0" using s t run by (simp add: agrees_def)
    ultimately show ?thesis using Back Some s run by (auto simp: matchStep_def)
  qed
qed

text \<open>The loop ends: a later \<open>*\<close>, a later place to resume, a later position in the text, or failure.\<close>

definition matchMeasures :: "jstring \<Rightarrow> jstring \<Rightarrow> (match_state \<Rightarrow> nat) list" where
  "matchMeasures pattern text =
     [\<lambda>s. case m_star s of None \<Rightarrow> Suc (length pattern) | Some k \<Rightarrow> length pattern - k,
      \<lambda>s. length text - m_resume s, \<lambda>s. length text - m_t s, \<lambda>s. if m_failed s then 0 else 1]"

lemma matchStep_decreases:
  assumes "matchInv pattern text s" and "\<not> m_failed s" and "m_t s < length text"
  shows "(matchStep pattern text s, s) \<in> measures (matchMeasures pattern text)"
  using assms by (auto simp: matchMeasures_def matchStep_def split: option.splits)

lemma matchSegment_wild: "matchSegment pattern text = Some (wild pattern text)"
proof (cases "star \<in> set pattern")
  case False
  then show ?thesis by (simp add: matchSegment_def wild_exact)
next
  case True
  let ?b = "\<lambda>s. \<not> m_failed s \<and> m_t s < length text" and ?c = "matchStep pattern text"
  let ?s = "\<lparr> m_p = 0, m_t = 0, m_star = None, m_resume = 0, m_failed = False \<rparr>"
  have init: "matchInv pattern text ?s" by (simp add: agrees_def)
  have "wf {(t, s). (matchInv pattern text s \<and> ?b s) \<and> t = ?c s}"
    by (rule wf_subset [OF wf_measures [of "matchMeasures pattern text"]]) (auto simp del: matchInv.simps intro: matchStep_decreases)
  then obtain r where r: "while_option ?b ?c ?s = Some r"
    using wf_while_option_Some [of "matchInv pattern text" ?b ?c ?s] matchStep_inv init by blast
  have inv: "matchInv pattern text r"
    by (rule while_option_rule [where P = "matchInv pattern text", OF _ r init]) (use matchStep_inv in blast)
  have stop: "\<not> ?b r" using while_option_stop [OF r] .
  have "wild pattern text \<longleftrightarrow> \<not> m_failed r \<and> wild (drop (m_p r) pattern) []"
  proof (cases "m_star r")
    case None
    show ?thesis
    proof (cases "m_failed r")
      case False
      with None inv stop have "m_p r = length text" "agrees pattern text 0 0 (m_p r)" by (auto simp: agrees_def)
      with agrees_wild [of pattern "text" 0 0 "m_p r"] False show ?thesis by simp
    qed (use None inv in auto)
  next
    case (Some k)
    let ?d = "m_t r - m_resume r"
    have s: "\<not> m_failed r" "m_resume r \<le> m_t r" "m_p r = Suc k + ?d" "agrees pattern text (Suc k) (m_resume r) ?d"
      "wild pattern text \<longleftrightarrow> suffixMatches pattern text (Suc k) (m_resume r)"
      using inv Some by auto
    have t: "m_t r = length text" using s(1,2,4) stop by (auto simp: agrees_def)
    then have e: "wild (drop (Suc k) pattern) (drop (m_resume r) text) \<longleftrightarrow> wild (drop (m_p r) pattern) []"
      using agrees_wild [OF s(4)] s(2,3) by simp
    have only: "j = m_resume r" if j: "m_resume r \<le> j" "j \<le> length text" "wild (drop (Suc k) pattern) (drop j text)" for j
    proof -
      have "drop (Suc k) pattern = take ?d (drop (Suc k) pattern) @ drop (Suc k + ?d) pattern" by (metis append_take_drop_id drop_drop add.commute)
      moreover have "length (take ?d (drop (Suc k) pattern)) = ?d" "star \<notin> set (take ?d (drop (Suc k) pattern))"
        using s(4) by (auto simp: agrees_def)
      ultimately have "take ?d (drop j text) = take ?d (drop (Suc k) pattern)" "length (take ?d (drop (Suc k) pattern)) = ?d"
        using wild_literal [of "take ?d (drop (Suc k) pattern)" "drop (Suc k + ?d) pattern" "drop j text"] j(3) by simp_all
      then have "?d \<le> length text - j" by (metis length_drop length_take min.cobounded1)
      with j(1,2) t s(2) show ?thesis by simp
    qed
    have "m_resume r \<le> length text" using s(2) t by simp
    with only have "suffixMatches pattern text (Suc k) (m_resume r) \<longleftrightarrow> wild (drop (Suc k) pattern) (drop (m_resume r) text)"
      unfolding suffixMatches_def by (metis order_refl)
    with e s show ?thesis by blast
  qed
  with True r show ?thesis by (simp add: matchSegment_def wild_stars)
qed

section \<open>The states of a pattern\<close>

lemma glob_append: "glob (ps @ qs) ss \<longleftrightarrow> (\<exists>k\<le>length ss. glob ps (take k ss) \<and> glob qs (drop k ss))"
proof (induction ps arbitrary: ss)
  case Nil
  then show ?case by auto
next
  case (Cons p ps)
  show ?case
  proof (cases "p = GLOBSTAR")
    case True
    show ?thesis
    proof
      assume "glob ((p # ps) @ qs) ss"
      then obtain a b where "a \<le> length ss" "b \<le> length (drop a ss)" "glob ps (take b (drop a ss))" "glob qs (drop b (drop a ss))"
        using True Cons.IH by auto
      then show "\<exists>k\<le>length ss. glob (p # ps) (take k ss) \<and> glob qs (drop k ss)"
      proof (intro exI [of _ "a + b"] conjI)
        assume ab: "a \<le> length ss" "b \<le> length (drop a ss)" "glob ps (take b (drop a ss))" "glob qs (drop b (drop a ss))"
        then show "a + b \<le> length ss" by simp
        have "glob ps (drop a (take (a + b) ss))" using ab(3) by (simp add: drop_take)
        moreover have "a \<le> length (take (a + b) ss)" using ab(1) by simp
        ultimately show "glob (p # ps) (take (a + b) ss)" using True by auto
        show "glob qs (drop (a + b) ss)" using ab(4) by (simp add: add.commute)
      qed
    next
      assume "\<exists>k\<le>length ss. glob (p # ps) (take k ss) \<and> glob qs (drop k ss)"
      then obtain k a where k: "k \<le> length ss" "a \<le> k" "glob ps (drop a (take k ss))" "glob qs (drop k ss)" using True by auto
      then have "glob ps (take (k - a) (drop a ss)) \<and> glob qs (drop (k - a) (drop a ss))" by (simp add: drop_take)
      moreover have "k - a \<le> length (drop a ss)" using k by simp
      ultimately have "glob (ps @ qs) (drop a ss)" unfolding Cons.IH by blast
      moreover have "a \<le> length ss" using k by simp
      ultimately show "glob ((p # ps) @ qs) ss" using True by auto
    qed
  next
    case False
    show ?thesis
    proof (cases ss)
      case Nil
      with False show ?thesis by simp
    next
      case (Cons s rest)
      have "(\<exists>k\<le>length ss. glob (p # ps) (take k ss) \<and> glob qs (drop k ss)) \<longleftrightarrow>
          (\<exists>k\<le>length rest. wild p s \<and> glob ps (take k rest) \<and> glob qs (drop k rest))"
        (is "?l = ?r")
      proof
        assume ?l
        then obtain k where "k \<le> length ss" "glob (p # ps) (take k ss)" "glob qs (drop k ss)" by blast
        with False Cons show ?r by (cases k) auto
      next
        assume ?r
        then obtain k where "k \<le> length rest" "wild p s" "glob ps (take k rest)" "glob qs (drop k rest)" by blast
        with False Cons show ?l by (intro exI [of _ "Suc k"]) simp
      qed
      with Cons.IH [of rest] False Cons show ?thesis by auto
    qed
  qed
qed

text \<open>
  After \<open>i\<close> segments a state \<open>q\<close> is active when the pattern up to \<open>q\<close> matches them, or, at a \<open>**\<close>,
  some of them: the \<open>**\<close> may take the rest.
\<close>

definition activeAt :: "jstring list \<Rightarrow> jstring list \<Rightarrow> nat \<Rightarrow> nat \<Rightarrow> bool" where
  "activeAt pattern segs i q \<longleftrightarrow> q \<le> length pattern \<and>
     (\<exists>k\<le>i. glob (take q pattern) (take k segs) \<and> (k = i \<or> q < length pattern \<and> pattern ! q = GLOBSTAR))"

lemma take_Suc_glob:
  assumes "q < length pattern" and "i \<le> length segs"
  shows "glob (take (Suc q) pattern) (take i segs) \<longleftrightarrow>
    (if pattern ! q = GLOBSTAR then \<exists>k\<le>i. glob (take q pattern) (take k segs)
     else 0 < i \<and> glob (take q pattern) (take (i - 1) segs) \<and> wild (pattern ! q) (segs ! (i - 1)))"
proof -
  have g: "glob (take (Suc q) pattern) (take i segs) \<longleftrightarrow> (\<exists>k\<le>i. glob (take q pattern) (take k segs) \<and> glob [pattern ! q] (drop k (take i segs)))"
    using assms by (auto simp: take_Suc_conv_app_nth glob_append min_def)
  show ?thesis
  proof (cases "pattern ! q = GLOBSTAR")
    case True
    have "glob [pattern ! q] ss = True" for ss using True by (auto intro: exI [of _ "length ss"])
    then show ?thesis by (simp only: g True if_True simp_thms)
  next
    case False
    have one: "glob [pattern ! q] (drop k (take i segs)) \<longleftrightarrow> 0 < i \<and> k = i - 1 \<and> wild (pattern ! q) (segs ! (i - 1))" if "k \<le> i" for k
    proof -
      have "glob [pattern ! q] ss \<longleftrightarrow> length ss = 1 \<and> wild (pattern ! q) (hd ss)" for ss
        using False by (cases ss) auto
      moreover have "length (drop k (take i segs)) = 1 \<longleftrightarrow> 0 < i \<and> k = i - 1" using assms(2) that by auto
      moreover have "hd (drop (i - 1) (take i segs)) = segs ! (i - 1)" if "0 < i" using that assms(2) by (simp add: hd_drop_conv_nth)
      ultimately show ?thesis by (metis (no_types, lifting))
    qed
    have "(\<exists>k\<le>i. glob (take q pattern) (take k segs) \<and> glob [pattern ! q] (drop k (take i segs))) \<longleftrightarrow>
        (\<exists>k\<le>i. glob (take q pattern) (take k segs) \<and> 0 < i \<and> k = i - 1 \<and> wild (pattern ! q) (segs ! (i - 1)))"
      by (intro ex_cong1 conj_cong refl) (use one in blast)
    also have "\<dots> \<longleftrightarrow> 0 < i \<and> glob (take q pattern) (take (i - 1) segs) \<and> wild (pattern ! q) (segs ! (i - 1))" by auto
    finally show ?thesis unfolding g by (simp only: False if_False)
  qed
qed

lemma globRun_drop:
  "globRun (drop q pattern) q = (if q < length pattern \<and> pattern ! q = GLOBSTAR then Suc q # globRun (drop (Suc q) pattern) (Suc q) else [])"
  by (cases "q < length pattern") (simp_all add: Cons_nth_drop_Suc [symmetric])

lemma globRun_keeps:
  assumes "\<And>y. P y \<Longrightarrow> y < length pattern \<Longrightarrow> pattern ! y = GLOBSTAR \<Longrightarrow> P (Suc y)" and "P q" and "x \<in> set (globRun (drop q pattern) q)"
  shows "P x"
  using assms(2,3)
proof (induction "length pattern - q" arbitrary: q)
  case (Suc n)
  have "n = length pattern - Suc q" using Suc.hyps(2) by simp
  with Suc.hyps(1) [of "Suc q"] Suc.prems assms(1) [of q] globRun_drop [of q pattern] show ?case by (auto split: if_splits)
qed (simp add: globRun_drop)

lemma globRun_closed:
  assumes "y \<in> insert q (set (globRun (drop q pattern) q))" and "y < length pattern" and "pattern ! y = GLOBSTAR"
  shows "Suc y \<in> set (globRun (drop q pattern) q)"
  using assms(1)
proof (induction "length pattern - q" arbitrary: q)
  case 0
  with assms(2) show ?case by (auto simp: globRun_drop)
next
  case (Suc n)
  then have "y = q \<or> y \<in> insert (Suc q) (set (globRun (drop (Suc q) pattern) (Suc q))) \<and> q < length pattern \<and> pattern ! q = GLOBSTAR"
    using globRun_drop [of q pattern] by (auto split: if_splits)
  moreover have "n = length pattern - Suc q" using Suc.hyps(2) by simp
  ultimately show ?case using Suc.hyps(1) [of "Suc q"] assms(2,3) globRun_drop [of q pattern] by auto
qed

lemma closeOverGlobstar_closed:
  "y \<in> set (closeOverGlobstar pattern A) \<Longrightarrow> y < length pattern \<Longrightarrow> pattern ! y = GLOBSTAR \<Longrightarrow> Suc y \<in> set (closeOverGlobstar pattern A)"
  using globRun_closed by (fastforce simp: closeOverGlobstar_def)

lemma closeOverGlobstar_keeps:
  assumes "\<And>y. P y \<Longrightarrow> y < length pattern \<Longrightarrow> pattern ! y = GLOBSTAR \<Longrightarrow> P (Suc y)" and "\<forall>q\<in>set A. P q"
    and "x \<in> set (closeOverGlobstar pattern A)"
  shows "P x"
  using assms(2,3) globRun_keeps [where P = P, OF assms(1)] by (auto simp: closeOverGlobstar_def)

lemma activeAt_closed:
  assumes "activeAt pattern segs i q" and "q < length pattern" and "pattern ! q = GLOBSTAR" and "i \<le> length segs"
  shows "activeAt pattern segs i (Suc q)"
  using assms take_Suc_glob [OF assms(2,4)] by (auto simp: activeAt_def)

text \<open>The states one step adds before the closure.\<close>

definition stepped :: "jstring list \<Rightarrow> jstring \<Rightarrow> nat set \<Rightarrow> nat set" where
  "stepped pattern segment A = {q\<in>A. q < length pattern \<and> pattern ! q = GLOBSTAR} \<union>
     Suc ` {q\<in>A. q < length pattern \<and> pattern ! q \<noteq> GLOBSTAR \<and> wild (pattern ! q) segment}"

lemma stepStates_set: "\<exists>next. stepStates pattern segment qs = Some next \<and> set next = stepped pattern segment (set qs)"
proof (induction qs)
  case (Cons q qs)
  then obtain tail where tail: "stepStates pattern segment qs = Some tail" "set tail = stepped pattern segment (set qs)" by blast
  have "stepped pattern segment (set (q # qs)) = stepped pattern segment {q} \<union> stepped pattern segment (set qs)" by (auto simp: stepped_def)
  moreover have "stepped pattern segment {q} = (if length pattern \<le> q then {} else if pattern ! q = GLOBSTAR then {q}
      else if wild (pattern ! q) segment then {Suc q} else {})"
    by (auto simp: stepped_def)
  ultimately show ?case using tail by (simp add: matchSegment_wild)
qed (simp add: stepped_def)

lemma step_active:
  assumes i: "i < length segs" and A: "set A = {q. activeAt pattern segs i q}" and N: "set N = stepped pattern (segs ! i) (set A)"
  shows "set (closeOverGlobstar pattern N) = {q. activeAt pattern segs (Suc i) q}"
proof (intro equalityI subsetI, simp_all only: mem_Collect_eq)
  fix x assume x: "x \<in> set (closeOverGlobstar pattern N)"
  show "activeAt pattern segs (Suc i) x"
  proof (rule closeOverGlobstar_keeps [OF _ _ x])
    show "\<forall>q\<in>set N. activeAt pattern segs (Suc i) q"
    proof
      fix q assume "q \<in> set N"
      then consider "activeAt pattern segs i q" "q < length pattern" "pattern ! q = GLOBSTAR"
        | q' where "q = Suc q'" "activeAt pattern segs i q'" "q' < length pattern" "pattern ! q' \<noteq> GLOBSTAR" "wild (pattern ! q') (segs ! i)"
        unfolding N stepped_def A by auto
      then show "activeAt pattern segs (Suc i) q"
      proof cases
        case 1
        then show ?thesis by (auto simp: activeAt_def intro: le_SucI)
      next
        case 2
        then show ?thesis using take_Suc_glob [of q' pattern "Suc i" segs] i by (auto simp: activeAt_def)
      qed
    qed
  qed (use i in \<open>auto intro: activeAt_closed\<close>)
next
  fix x assume "activeAt pattern segs (Suc i) x"
  then show "x \<in> set (closeOverGlobstar pattern N)"
  proof (induction x rule: less_induct)
    case (less x)
    have sub: "set N \<subseteq> set (closeOverGlobstar pattern N)" by (auto simp: closeOverGlobstar_def)
    from less.prems obtain k where k: "x \<le> length pattern" "k \<le> Suc i" "glob (take x pattern) (take k segs)"
      "k = Suc i \<or> x < length pattern \<and> pattern ! x = GLOBSTAR" by (auto simp: activeAt_def)
    show ?case
    proof (cases "k = Suc i")
      case False
      then have "k \<le> i" using k(2) by simp
      then have "activeAt pattern segs i x" unfolding activeAt_def using k(1,3,4) False by blast
      moreover have "x < length pattern" "pattern ! x = GLOBSTAR" using k(4) False by auto
      ultimately show ?thesis using sub N A by (auto simp: stepped_def)
    next
      case True
      then obtain q where q: "x = Suc q" "q < length pattern" using k(1,3) i by (cases x) auto
      note g = take_Suc_glob [OF q(2), of "Suc i" segs]
      show ?thesis
      proof (cases "pattern ! q = GLOBSTAR")
        case star: True
        then have "activeAt pattern segs (Suc i) q" using g k(3) i q True by (auto simp: activeAt_def)
        with less.IH [of q] q star closeOverGlobstar_closed show ?thesis by blast
      next
        case False
        then have "activeAt pattern segs i q" "wild (pattern ! q) (segs ! i)" using g k(3) i q True by (auto simp: activeAt_def)
        then have "x \<in> set N" using q False N A by (auto simp: stepped_def)
        with sub show ?thesis by blast
      qed
    qed
  qed
qed

lemma start_active: "set (closeOverGlobstar pattern [0]) = {q. activeAt pattern segs 0 q}"
proof (intro equalityI subsetI, simp_all only: mem_Collect_eq)
  fix x assume x: "x \<in> set (closeOverGlobstar pattern [0])"
  show "activeAt pattern segs 0 x"
    by (rule closeOverGlobstar_keeps [OF _ _ x]) (auto intro: activeAt_closed, simp add: activeAt_def)
next
  fix x assume "activeAt pattern segs 0 x"
  then have "x \<le> length pattern \<and> glob (take x pattern) []" by (simp add: activeAt_def)
  then show "x \<in> set (closeOverGlobstar pattern [0])"
  proof (induction x)
    case 0
    then show ?case by (simp add: closeOverGlobstar_def)
  next
    case (Suc q)
    then have "pattern ! q = GLOBSTAR \<and> glob (take q pattern) []"
      using take_Suc_glob [of q pattern 0 "[]"] by (auto split: if_splits)
    with Suc closeOverGlobstar_closed [of q pattern "[0]"] show ?case by simp
  qed
qed

lemma prefixLoop_nothing: "prefixLoop pattern [] segs = Some False"
  by (induction segs) (simp_all add: closeOverGlobstar_def)

lemma active_accepts: "activeAt pattern segs i (length pattern) \<longleftrightarrow> glob pattern (take i segs)"
  by (auto simp: activeAt_def)

lemma prefixLoop_glob:
  assumes "set A = {q. activeAt pattern segs i q}" and "i \<le> length segs"
  shows "prefixLoop pattern A (drop i segs) = Some (\<exists>k>i. k \<le> length segs \<and> glob pattern (take k segs))"
  using assms
proof (induction "length segs - i" arbitrary: A i)
  case 0
  then show ?case by auto
next
  case (Suc n)
  then have i: "i < length segs" by simp
  obtain N where N: "stepStates pattern (segs ! i) A = Some N" "set N = stepped pattern (segs ! i) (set A)"
    using stepStates_set by blast
  let ?next = "closeOverGlobstar pattern N"
  have act: "set ?next = {q. activeAt pattern segs (Suc i) q}" by (rule step_active [OF i Suc.prems(1) N(2)])
  have IH: "prefixLoop pattern ?next (drop (Suc i) segs) = Some (\<exists>k>Suc i. k \<le> length segs \<and> glob pattern (take k segs))"
    using Suc.hyps(1) [of "Suc i" ?next] Suc.hyps(2) act i by simp
  have hit: "length pattern \<in> set ?next \<longleftrightarrow> glob pattern (take (Suc i) segs)" by (simp add: act active_accepts)
  have split: "(\<exists>k>i. k \<le> length segs \<and> glob pattern (take k segs)) \<longleftrightarrow>
      glob pattern (take (Suc i) segs) \<or> (\<exists>k>Suc i. k \<le> length segs \<and> glob pattern (take k segs))"
    using i by (metis Suc_leI Suc_lessD Suc_lessI lessI)
  have "prefixLoop pattern A (drop i segs) =
      (if length pattern \<in> set ?next then Some True else if ?next = [] then Some False else prefixLoop pattern ?next (drop (Suc i) segs))"
    using i by (simp add: Cons_nth_drop_Suc [symmetric] N(1) Let_def)
  also have "\<dots> = (if length pattern \<in> set ?next then Some True else prefixLoop pattern ?next (drop (Suc i) segs))"
    by (simp add: prefixLoop_nothing)
  also have "\<dots> = Some (\<exists>k>i. k \<le> length segs \<and> glob pattern (take k segs))"
    unfolding IH hit split by (cases "glob pattern (take (Suc i) segs)") (simp_all only: if_True if_False simp_thms)
  finally show ?case .
qed

lemma matchesPrefix_glob: "matchesPrefix pattern segs = Some (\<exists>k>0. k \<le> length segs \<and> glob pattern (take k segs))"
  using prefixLoop_glob [OF start_active [of pattern segs]] by (simp add: matchesPrefix_def)

section \<open>Compiled patterns\<close>

lemma glob_globstar: "glob (GLOBSTAR # ps) ss \<longleftrightarrow> (\<exists>k\<le>length ss. glob ps (drop k ss))"
  by simp

lemma glob_double: "glob (GLOBSTAR # GLOBSTAR # ps) ss \<longleftrightarrow> glob (GLOBSTAR # ps) ss"
proof
  assume "glob (GLOBSTAR # GLOBSTAR # ps) ss"
  then obtain a b where ab: "a \<le> length ss" "b \<le> length ss - a" "glob ps (drop (b + a) ss)" by auto
  then have "b + a \<le> length ss" by simp
  with ab(3) show "glob (GLOBSTAR # ps) ss" by auto
next
  assume "glob (GLOBSTAR # ps) ss"
  then obtain k where "k \<le> length ss" "glob ps (drop k ss)" by auto
  then have "glob (GLOBSTAR # ps) (drop 0 ss)" by auto
  then show "glob (GLOBSTAR # GLOBSTAR # ps) ss" unfolding glob_globstar [of "GLOBSTAR # ps"] by blast
qed

lemma parseSegments_meaning: "parseSegments done ss = Inr c \<Longrightarrow> glob c x \<longleftrightarrow> glob (done @ ss) x"
proof (induction "done" ss arbitrary: x rule: parseSegments.induct)
  case (2 pre s rest)
  show ?case
  proof (cases "s = GLOBSTAR \<and> pre \<noteq> [] \<and> last pre = GLOBSTAR")
    case True
    then have pre: "pre = butlast pre @ [GLOBSTAR]" by (metis append_butlast_last_id)
    have "glob c x \<longleftrightarrow> glob (pre @ rest) x" using 2 True by (auto split: if_splits)
    also have "\<dots> \<longleftrightarrow> glob (butlast pre @ GLOBSTAR # rest) x" by (subst pre) simp
    also have "\<dots> \<longleftrightarrow> glob (butlast pre @ GLOBSTAR # GLOBSTAR # rest) x" by (simp only: glob_append glob_double)
    also have "\<dots> \<longleftrightarrow> glob (pre @ s # rest) x" using True by (subst (2) pre) simp
    finally show ?thesis .
  next
    case False
    with 2 show ?thesis by (auto split: if_splits)
  qed
qed simp

lemma someMatches_iff:
  "someMatches cs segs = Some (\<exists>c\<in>set cs. \<exists>k>0. k \<le> length segs \<and> glob c (take k segs))"
  by (induction cs) (auto simp: matchesPrefix_glob split: bool.split)

lemma parsePatterns_meaning:
  "parsePatterns ps = Inr cs \<Longrightarrow> (\<exists>c\<in>set cs. \<exists>k>0. k \<le> length segs \<and> glob c (take k segs)) \<longleftrightarrow>
     (\<exists>p\<in>set ps. \<exists>k>0. k \<le> length segs \<and> glob (js_split slash p) (take k segs))"
proof (induction ps arbitrary: cs)
  case (Cons p ps)
  then obtain c cs' where c: "parsePattern p = Inr c" "parsePatterns ps = Inr cs'" "cs = c # cs'" by (auto split: sum.splits)
  have "glob c x \<longleftrightarrow> glob (js_split slash p) x" for x
    using c(1) parseSegments_meaning [of "[]" "js_split slash p" c x] by (simp add: parsePattern_def)
  with Cons.IH [OF c(2)] show ?case by (simp add: c(3))
qed simp

text \<open>
  C37: an exclude list that compiles gives an answer for every entry name, and the answer is the
  meaning of the patterns: the name or one of its ancestors matches a pattern, with \<open>*\<close> for any text
  within a segment and \<open>**\<close> for any number of segments.
\<close>

theorem exclude_means_glob:
  assumes "compileExclude patterns = Inr excludes"
  shows "excludes name = Some (\<exists>p\<in>set patterns. \<exists>k>0. k \<le> length (js_split slash name) \<and> glob (js_split slash p) (take k (js_split slash name)))"
proof -
  obtain cs where cs: "parsePatterns patterns = Inr cs" "excludes = (\<lambda>name. someMatches cs (js_split slash name))"
    using assms by (auto simp: compileExclude_def split: sum.splits)
  show ?thesis unfolding cs(2) someMatches_iff parsePatterns_meaning [OF cs(1)] ..
qed

theorem exclude_means_glob_witness:
  "\<exists>excludes. compileExclude [js ''**/b*''] = Inr excludes \<and> excludes (js ''a/bc/d'') = Some True"
proof -
  obtain excludes where c: "compileExclude [js ''**/b*''] = Inr excludes"
    by (simp add: compileExclude_def parsePattern_def js_def slash_def GLOBSTAR_def star_def)
  have segs: "js_split slash (js ''a/bc/d'') = [js ''a'', js ''bc'', js ''d'']" "js_split slash (js ''**/b*'') = [GLOBSTAR, js ''b*'']"
    by (simp_all add: js_def slash_def GLOBSTAR_def)
  have "glob [js ''b*''] [js ''bc'']" by (auto simp: js_def GLOBSTAR_def star_def intro: exI [of _ 1])
  then have "glob [GLOBSTAR, js ''b*''] (take 2 [js ''a'', js ''bc'', js ''d''])"
    unfolding glob_globstar by (intro exI [of _ 1]) simp
  then have "\<exists>k>0. k \<le> length (js_split slash (js ''a/bc/d'')) \<and> glob (js_split slash (js ''**/b*'')) (take k (js_split slash (js ''a/bc/d'')))"
    unfolding segs by (intro exI [of _ 2]) simp
  with exclude_means_glob [OF c, of "js ''a/bc/d''"] c show ?thesis by auto
qed

end
