(* ===== verification/EntryPlan.thy ===== *)
theory EntryPlan
  imports Exclude Decimal Entities "HOL-Library.Sublist"
begin

text \<open>
  The plan of an extraction: \<open>vfs/extract-entry-plan.ts\<close> with \<open>vfs/archive-entry-name.ts\<close>. The planner
  keeps the selected paths in a trie of numbered nodes; it is verified against the list of the entries
  selected so far. \<open>nfc\<close> and \<open>lower\<close> stand for \<open>normalize('NFC')\<close> and \<open>toLowerCase\<close>.
\<close>

section \<open>Names\<close>

definition driveLetter :: "jstring \<Rightarrow> bool" where
  "driveLetter name \<longleftrightarrow> (case name of c # d # _ \<Rightarrow> (97 \<le> lower_ascii c \<and> lower_ascii c \<le> 122) \<and> d = 58 | _ \<Rightarrow> False)"

definition invalidEntryName :: "(jstring \<Rightarrow> jstring) \<Rightarrow> jstring \<Rightarrow> bool" where
  "invalidEntryName nfc name \<longleftrightarrow> name = [] \<or> nfc name \<noteq> name \<or> js_starts_with [slash] name \<or> 92 \<in> set name \<or> driveLetter name \<or>
     (\<exists>p\<in>set (code_points name). control_char p \<or> lone_surrogate p \<or> bidi_control p) \<or> 4095 < byteLength name \<or>
     (\<exists>part\<in>set (js_split slash name). part = [] \<or> part = js ''.'' \<or> part = js ''..'' \<or> 255 < byteLength part)"

definition validateArchiveEntryName :: "(jstring \<Rightarrow> jstring) \<Rightarrow> jstring \<Rightarrow> jstring result" where
  "validateArchiveEntryName nfc name = (if invalidEntryName nfc name then Inl (Archive VfsArchiveInvalidRequestError) else Inr name)"

text \<open>\<open>validateArchiveEntryNames\<close>: the loop that fixes the names, then the loop that looks for an
  ancestor of each among them, at every slash of it.\<close>

fun fixNames :: "(jstring \<Rightarrow> jstring) \<Rightarrow> jstring list \<Rightarrow> jstring list \<Rightarrow> jstring list result" where
  "fixNames nfc seen [] = Inr seen"
| "fixNames nfc seen (name # names) =
     (case validateArchiveEntryName nfc name of
        Inl e \<Rightarrow> Inl e
      | Inr _ \<Rightarrow> if name \<in> set seen then Inl (Archive VfsArchiveInvalidRequestError) else fixNames nfc (name # seen) names)"

definition hasAncestor :: "jstring list \<Rightarrow> jstring \<Rightarrow> bool" where
  "hasAncestor seen name \<longleftrightarrow> (\<exists>i\<in>set [0..<length name]. name ! i = slash \<and> take i name \<in> set seen)"

definition validateArchiveEntryNames :: "(jstring \<Rightarrow> jstring) \<Rightarrow> jstring list \<Rightarrow> unit result" where
  "validateArchiveEntryNames nfc names =
     (case fixNames nfc [] names of
        Inl e \<Rightarrow> Inl e
      | Inr seen \<Rightarrow> if \<exists>name\<in>set names. hasAncestor seen name then Inl (Archive VfsArchiveInvalidRequestError) else Inr ())"

section \<open>The planner\<close>

record planned_entry =
  en_entryIndex :: nat
  en_name :: jstring
  en_segments :: "jstring list"
  en_type :: node_type
  en_mimeType :: jstring

text \<open>\<open>xp_flags\<close> holds the bits \<open>EXPLICIT\<close> and \<open>FILE_NODE\<close> of a node; node 0 is the destination.\<close>

record planner =
  xp_tarLike :: bool
  xp_destination :: "jstring list"
  xp_excludes :: "jstring \<Rightarrow> bool option"
  xp_mimeTypes :: "(jstring \<times> jstring) list"
  xp_children :: "((nat \<times> jstring) \<times> nat) list"
  xp_flags :: "(bool \<times> bool) list"
  xp_hasChildren :: "bool list"
  xp_selected :: nat

definition newPlanner :: "bool \<Rightarrow> jstring list \<Rightarrow> jstring list \<Rightarrow> (jstring \<times> jstring) list \<Rightarrow> planner result" where
  "newPlanner tarLike destination exclude mimeTypes =
     (case compileExclude exclude of
        Inl e \<Rightarrow> Inl e
      | Inr excludes \<Rightarrow> Inr \<lparr> xp_tarLike = tarLike, xp_destination = destination, xp_excludes = excludes, xp_mimeTypes = mimeTypes,
          xp_children = [], xp_flags = [(False, False)], xp_hasChildren = [False], xp_selected = 0 \<rparr>)"

fun locateFrom :: "((nat \<times> jstring) \<times> nat) list \<Rightarrow> nat option \<Rightarrow> jstring list \<Rightarrow> nat option list" where
  "locateFrom children node [] = []"
| "locateFrom children node (s # segs) =
     (let child = (case node of None \<Rightarrow> None | Some n \<Rightarrow> map_of children (n, s)) in child # locateFrom children child segs)"

definition locate :: "planner \<Rightarrow> jstring list \<Rightarrow> nat option list" where
  "locate p segs = locateFrom (xp_children p) (Some 0) segs"

text \<open>\<open>assertNoConflict\<close>: the reason of the refusal, if there is one.\<close>

definition pathConflict :: "planner \<Rightarrow> nat option list \<Rightarrow> node_type \<Rightarrow> string option" where
  "pathConflict p path type =
     (if \<exists>i\<in>set (butlast path). case i of None \<Rightarrow> False | Some a \<Rightarrow> snd (xp_flags p ! a) then Some ''entry below a FILE''
      else (case last path of
          None \<Rightarrow> None
        | Some a \<Rightarrow>
            if fst (xp_flags p ! a) then Some ''duplicate entry''
            else if type = FILE \<and> xp_hasChildren p ! a then Some ''FILE in place of an ancestor'' else None))"

fun recordPath :: "nat \<Rightarrow> nat option list \<Rightarrow> jstring list \<Rightarrow> planner \<Rightarrow> nat \<times> planner" where
  "recordPath node (existing # path) (s # segs) p =
     (let child = (case existing of Some c \<Rightarrow> c | None \<Rightarrow> length (xp_flags p));
          added = (case existing of Some c \<Rightarrow> p | None \<Rightarrow> p\<lparr> xp_children := AList.update (node, s) child (xp_children p),
            xp_flags := xp_flags p @ [(False, False)], xp_hasChildren := xp_hasChildren p @ [False] \<rparr>) in
      recordPath child path segs (added\<lparr> xp_hasChildren := (xp_hasChildren added)[node := True] \<rparr>))"
| "recordPath node _ _ p = (node, p)"

definition recordEntry :: "nat option list \<Rightarrow> jstring list \<Rightarrow> node_type \<Rightarrow> planner \<Rightarrow> planner" where
  "recordEntry path segs type p =
     (case recordPath 0 path segs p of
        (node, q) \<Rightarrow> q\<lparr> xp_flags := (xp_flags q)[node := (True, snd (xp_flags q ! node) \<or> type = FILE)] \<rparr>)"

definition octetStream :: jstring where "octetStream = js ''application/octet-stream''"

text \<open>\<open>lastIndexOf('.')\<close> splits the name into what precedes the last dot and the extension.\<close>

definition resolveMimeType :: "(jstring \<Rightarrow> jstring) \<Rightarrow> (jstring \<times> jstring) list \<Rightarrow> jstring \<Rightarrow> jstring" where
  "resolveMimeType lower mimeTypes basename =
     (let ext = takeWhile (\<lambda>c. c \<noteq> 46) (rev basename); stem = dropWhile (\<lambda>c. c \<noteq> 46) (rev basename) in
      if stem = [] \<or> tl stem = [] \<or> ext = [] then octetStream
      else (case map_of mimeTypes (lower (46 # rev ext)) of None \<Rightarrow> octetStream | Some m \<Rightarrow> m))"

text \<open>The name with the leading \<open>./\<close> and the trailing \<open>/\<close> taken off; \<open>None\<close> for the root of a tar.\<close>

definition entryName :: "bool \<Rightarrow> jstring \<Rightarrow> node_type \<Rightarrow> jstring option" where
  "entryName tarLike rawName type =
     (if tarLike \<and> type = DIRECTORY \<and> rawName = js ''./'' then None
      else (let name = (if tarLike \<and> js_starts_with (js ''./'') rawName then drop 2 rawName else rawName) in
        Some (if type = DIRECTORY \<and> js_ends_with [slash] name then butlast name else name)))"

text \<open>The checks on a name alone: \<open>None\<close> for an entry that is skipped.\<close>

definition checkName :: "(jstring \<Rightarrow> jstring) \<Rightarrow> planner \<Rightarrow> nat \<Rightarrow> jstring \<Rightarrow> node_type \<Rightarrow> jstring option result" where
  "checkName nfc p index rawName type =
     (case entryName (xp_tarLike p) rawName type of
        None \<Rightarrow> Inr None
      | Some name \<Rightarrow>
          if isl (validateArchiveEntryName nfc name) then Inl (Extract (VfsExtractInvalidEntryError index rawName ''name''))
          else if 4096 < byteLength (joinSegments (xp_destination p @ js_split slash name))
          then Inl (Extract (VfsExtractInvalidEntryError index rawName ''path too long''))
          else (case xp_excludes p name of
              None \<Rightarrow> Inl NoReturn
            | Some True \<Rightarrow> Inr None
            | Some False \<Rightarrow> Inr (Some name)))"

definition plannedEntry :: "(jstring \<Rightarrow> jstring) \<Rightarrow> planner \<Rightarrow> nat \<Rightarrow> jstring \<Rightarrow> node_type \<Rightarrow> planned_entry" where
  "plannedEntry lower p index name type = \<lparr> en_entryIndex = index, en_name = name, en_segments = js_split slash name, en_type = type,
     en_mimeType = (if type = FILE then resolveMimeType lower (xp_mimeTypes p) (last (js_split slash name)) else octetStream) \<rparr>"

definition plan :: "(jstring \<Rightarrow> jstring) \<Rightarrow> (jstring \<Rightarrow> jstring) \<Rightarrow> jstring \<Rightarrow> node_type \<Rightarrow> (planner, vfs_error, planned_entry option) prog" where
  "plan nfc lower rawName type p =
     (case checkName nfc p (xp_selected p) rawName type of
        Inl e \<Rightarrow> (Inl e, p)
      | Inr None \<Rightarrow> (Inr None, p)
      | Inr (Some name) \<Rightarrow>
          (let path = locate p (js_split slash name) in
           case pathConflict p path type of
             Some reason \<Rightarrow> (Inl (Extract (VfsExtractInvalidEntryError (xp_selected p) rawName reason)), p)
           | None \<Rightarrow>
               (let q = recordEntry path (js_split slash name) type p in
                (Inr (Some (plannedEntry lower p (xp_selected p) name type)), q\<lparr> xp_selected := xp_selected q + 1 \<rparr>))))"

text \<open>The loop of the service over the entries of an archive; the selected ones in order.\<close>

fun planAll :: "(jstring \<Rightarrow> jstring) \<Rightarrow> (jstring \<Rightarrow> jstring) \<Rightarrow> (jstring \<times> node_type) list \<Rightarrow> (planner, vfs_error, planned_entry list) prog" where
  "planAll nfc lower [] = ret []"
| "planAll nfc lower ((rawName, type) # rest) =
     bind (plan nfc lower rawName type) (\<lambda>planned.
     bind (planAll nfc lower rest) (\<lambda>es. ret (case planned of None \<Rightarrow> es | Some e \<Rightarrow> e # es)))"

section \<open>The specification\<close>

text \<open>The entries selected so far, as paths with their types; what a new one may not be.\<close>

type_synonym selection = "(jstring list \<times> node_type) list"

definition conflict :: "selection \<Rightarrow> jstring list \<Rightarrow> node_type \<Rightarrow> string option" where
  "conflict E segs type =
     (if \<exists>e\<in>set E. snd e = FILE \<and> strict_prefix (fst e) segs then Some ''entry below a FILE''
      else if \<exists>e\<in>set E. fst e = segs then Some ''duplicate entry''
      else if type = FILE \<and> (\<exists>e\<in>set E. strict_prefix segs (fst e)) then Some ''FILE in place of an ancestor'' else None)"

definition planSpec :: "(jstring \<Rightarrow> jstring) \<Rightarrow> (jstring \<Rightarrow> jstring) \<Rightarrow> planner \<Rightarrow> jstring \<Rightarrow> node_type \<Rightarrow> (selection, vfs_error, planned_entry option) prog" where
  "planSpec nfc lower p rawName type E =
     (case checkName nfc p (length E) rawName type of
        Inl e \<Rightarrow> (Inl e, E)
      | Inr None \<Rightarrow> (Inr None, E)
      | Inr (Some name) \<Rightarrow>
          (case conflict E (js_split slash name) type of
             Some reason \<Rightarrow> (Inl (Extract (VfsExtractInvalidEntryError (length E) rawName reason)), E)
           | None \<Rightarrow> (Inr (Some (plannedEntry lower p (length E) name type)), E @ [(js_split slash name, type)])))"

fun planAllSpec :: "(jstring \<Rightarrow> jstring) \<Rightarrow> (jstring \<Rightarrow> jstring) \<Rightarrow> planner \<Rightarrow> (jstring \<times> node_type) list \<Rightarrow> (selection, vfs_error, planned_entry list) prog" where
  "planAllSpec nfc lower p [] = ret []"
| "planAllSpec nfc lower p ((rawName, type) # rest) =
     bind (planSpec nfc lower p rawName type) (\<lambda>planned.
     bind (planAllSpec nfc lower p rest) (\<lambda>es. ret (case planned of None \<Rightarrow> es | Some e \<Rightarrow> e # es)))"

end
