(* ===== verification/EntryTrie.thy ===== *)
theory EntryTrie
  imports EntryPlan
begin

text \<open>
  The trie of the planner represents the entries selected so far: walking the numbered nodes along a
  path succeeds exactly for the paths of the entries and their ancestors, and the flags of the node
  reached are the facts about that path. So the planner decides as the list specification does.
\<close>

section \<open>Walking the trie\<close>

fun walk :: "((nat \<times> jstring) \<times> nat) list \<Rightarrow> nat \<Rightarrow> jstring list \<Rightarrow> nat option" where
  "walk ch n [] = Some n"
| "walk ch n (s # ss) = (case map_of ch (n, s) of None \<Rightarrow> None | Some c \<Rightarrow> walk ch c ss)"

lemma walk_append: "walk ch n (xs @ ys) = (case walk ch n xs of None \<Rightarrow> None | Some m \<Rightarrow> walk ch m ys)"
  by (induction xs arbitrary: n) (auto split: option.splits)

lemma walk_snoc: "walk ch n (xs @ [s]) = (case walk ch n xs of None \<Rightarrow> None | Some m \<Rightarrow> map_of ch (m, s))"
  by (simp add: walk_append split: option.splits)

lemma walk_prefix: "walk ch n ys \<noteq> None \<Longrightarrow> prefix xs ys \<Longrightarrow> walk ch n xs \<noteq> None"
  by (auto simp: prefix_def walk_append split: option.splits)

lemma length_locateFrom [simp]: "length (locateFrom ch node segs) = length segs"
  by (induction segs arbitrary: node) (simp_all add: Let_def)

lemma nth_locateFrom: "i < length segs \<Longrightarrow> locateFrom ch (Some n) segs ! i = walk ch n (take (Suc i) segs)"
  and nth_locateFrom_None: "i < length segs \<Longrightarrow> locateFrom ch None segs ! i = None"
proof (induction segs arbitrary: i n)
  case (Cons s segs)
  { case 1 with Cons show ?case by (cases i; cases "map_of ch (n, s)") (simp_all add: Let_def) }
  { case 2 with Cons show ?case by (cases i) (simp_all add: Let_def) }
qed simp_all

lemma locateFrom_None: "locateFrom ch None segs = replicate (length segs) None"
  by (rule nth_equalityI) (simp_all add: nth_locateFrom_None)

lemma last_locateFrom: "segs \<noteq> [] \<Longrightarrow> last (locateFrom ch (Some n) segs) = walk ch n segs"
proof -
  assume "segs \<noteq> []"
  moreover from this have "locateFrom ch (Some n) segs \<noteq> []" by (metis length_locateFrom length_0_conv)
  ultimately show ?thesis by (simp add: last_conv_nth nth_locateFrom)
qed

lemma butlast_locateFrom:
  "i \<in> set (butlast (locateFrom ch (Some n) segs)) \<longleftrightarrow> (\<exists>q. q \<noteq> [] \<and> strict_prefix q segs \<and> i = walk ch n q)"
proof
  assume "i \<in> set (butlast (locateFrom ch (Some n) segs))"
  then obtain k where k: "k < length segs - 1" "i = walk ch n (take (Suc k) segs)"
    by (auto simp: in_set_conv_nth nth_butlast nth_locateFrom)
  then have "strict_prefix (take (Suc k) segs) segs" "take (Suc k) segs \<noteq> []"
    by (auto simp: strict_prefix_def take_is_prefix dest: arg_cong [of _ _ length])
  with k(2) show "\<exists>q. q \<noteq> [] \<and> strict_prefix q segs \<and> i = walk ch n q" by blast
next
  assume "\<exists>q. q \<noteq> [] \<and> strict_prefix q segs \<and> i = walk ch n q"
  then obtain q r where q: "q \<noteq> []" "segs = q @ r" "r \<noteq> []" "i = walk ch n q" by (auto simp: strict_prefix_def prefix_def)
  let ?k = "length q - 1"
  have k: "?k < length segs - 1" "?k < length segs" "take (Suc ?k) segs = q" using q(1-3) by (cases q; cases r; simp)+
  then have "butlast (locateFrom ch (Some n) segs) ! ?k = i" "?k < length (butlast (locateFrom ch (Some n) segs))"
    using q(4) by (simp_all add: nth_butlast nth_locateFrom del: One_nat_def)
  then show "i \<in> set (butlast (locateFrom ch (Some n) segs))" using nth_mem by metis
qed

section \<open>The invariant\<close>

text \<open>The nodes stand for the paths of \<open>Q\<close>, and \<open>F\<close> gives the flags of each.\<close>

definition trie :: "planner \<Rightarrow> jstring list set \<Rightarrow> (jstring list \<Rightarrow> bool \<times> bool) \<Rightarrow> bool" where
  "trie p Q F \<longleftrightarrow> length (xp_hasChildren p) = length (xp_flags p) \<and>
     (\<forall>k c. map_of (xp_children p) k = Some c \<longrightarrow> fst k < length (xp_flags p)) \<and>
     (\<forall>q a. walk (xp_children p) 0 q = Some a \<longrightarrow>
        a < length (xp_flags p) \<and> xp_flags p ! a = F q \<and> xp_hasChildren p ! a = (\<exists>s. q @ [s] \<in> Q)) \<and>
     (\<forall>q. walk (xp_children p) 0 q \<noteq> None \<longleftrightarrow> q \<in> Q) \<and>
     (\<forall>q r a. walk (xp_children p) 0 q = Some a \<longrightarrow> walk (xp_children p) 0 r = Some a \<longrightarrow> q = r) \<and>
     (\<forall>q. q \<notin> Q \<longrightarrow> F q = (False, False))"

lemma trieD:
  assumes "trie p Q F"
  shows "length (xp_hasChildren p) = length (xp_flags p)"
    and "map_of (xp_children p) k = Some c \<Longrightarrow> fst k < length (xp_flags p)"
    and "walk (xp_children p) 0 q = Some a \<Longrightarrow> a < length (xp_flags p)"
    and "walk (xp_children p) 0 q = Some a \<Longrightarrow> xp_flags p ! a = F q"
    and "walk (xp_children p) 0 q = Some a \<Longrightarrow> xp_hasChildren p ! a = (\<exists>s. q @ [s] \<in> Q)"
    and "walk (xp_children p) 0 q \<noteq> None \<longleftrightarrow> q \<in> Q"
    and "walk (xp_children p) 0 q = Some a \<Longrightarrow> walk (xp_children p) 0 r = Some a \<Longrightarrow> q = r"
    and "q \<notin> Q \<Longrightarrow> F q = (False, False)"
  using assms unfolding trie_def by blast+

lemma trie_mem: "trie p Q F \<Longrightarrow> walk (xp_children p) 0 q = Some a \<Longrightarrow> q \<in> Q"
  using trieD(6) by fastforce

lemma trie_missing: "trie p Q F \<Longrightarrow> q \<notin> Q \<Longrightarrow> walk (xp_children p) 0 q = None"
  using trieD(6) by fastforce

lemma trie_same:
  assumes "trie p Q F" and "walk (xp_children p) 0 q = Some n" and "walk (xp_children p) 0 r = Some a"
  shows "a = n \<longleftrightarrow> r = q"
proof
  assume "a = n"
  with assms(3) have "walk (xp_children p) 0 r = Some n" by simp
  from trieD(7) [OF assms(1) this assms(2)] show "r = q" .
qed (use assms(2,3) in simp)

lemma walk_add:
  assumes t: "trie p Q F" and n: "walk (xp_children p) 0 q = Some n" and new: "q @ [s] \<notin> Q"
  shows "walk (AList.update (n, s) (length (xp_flags p)) (xp_children p)) 0 r =
    (if r = q @ [s] then Some (length (xp_flags p)) else walk (xp_children p) 0 r)"
proof (induction r rule: rev_induct)
  case (snoc x r)
  let ?ch = "xp_children p" and ?N = "length (xp_flags p)"
  show ?case
  proof (cases "r = q @ [s]")
    case True
    have "n < ?N" by (rule trieD(3) [OF t n])
    moreover have "map_of ?ch (?N, x) = None" using trieD(2) [OF t] by (metis fst_conv less_irrefl not_None_eq)
    moreover have "walk ?ch 0 r = None" unfolding True by (rule trie_missing [OF t new])
    moreover have "walk (AList.update (n, s) ?N ?ch) 0 r = Some ?N" using snoc True by simp
    ultimately have "walk ?ch 0 (r @ [x]) = None" "walk (AList.update (n, s) ?N ?ch) 0 (r @ [x]) = None"
      by (simp_all add: walk_snoc update_conv')
    then show ?thesis using True by simp
  next
    case False
    then have r: "walk (AList.update (n, s) ?N ?ch) 0 r = walk ?ch 0 r" using snoc by simp
    show ?thesis
    proof (cases "walk ?ch 0 r = Some n")
      case True
      then have "r = q" by (rule trieD(7) [OF t _ n])
      with r n show ?thesis by (simp add: walk_snoc update_conv')
    next
      case False
      then have "r \<noteq> q" using n by blast
      with r False show ?thesis by (simp add: walk_snoc update_conv' split: option.split)
    qed
  qed
qed simp

definition addChild :: "nat \<Rightarrow> jstring \<Rightarrow> planner \<Rightarrow> planner" where
  "addChild n s p = p\<lparr> xp_children := AList.update (n, s) (length (xp_flags p)) (xp_children p),
     xp_flags := xp_flags p @ [(False, False)], xp_hasChildren := (xp_hasChildren p @ [False])[n := True] \<rparr>"

lemma trie_add:
  assumes t: "trie p Q F" and n: "walk (xp_children p) 0 q = Some n" and new: "q @ [s] \<notin> Q"
  shows "trie (addChild n s p) (insert (q @ [s]) Q) F"
proof -
  let ?N = "length (xp_flags p)" and ?ch' = "xp_children (addChild n s p)"
  have W: "walk ?ch' 0 r = (if r = q @ [s] then Some ?N else walk (xp_children p) 0 r)" for r
    using walk_add [OF t n new] by (simp add: addChild_def)
  have N: "n < ?N" by (rule trieD(3) [OF t n])
  note len = trieD(1) [OF t]
  have keys: "fst k < length (xp_flags (addChild n s p))" if "map_of ?ch' k = Some c" for k c
    using that N trieD(2) [OF t, of k] by (fastforce simp: addChild_def update_conv' split: if_splits)
  have at: "a < length (xp_flags (addChild n s p)) \<and> xp_flags (addChild n s p) ! a = F r \<and>
      xp_hasChildren (addChild n s p) ! a = (\<exists>x. r @ [x] \<in> insert (q @ [s]) Q)" if a: "walk ?ch' 0 r = Some a" for r a
  proof (cases "r = q @ [s]")
    case True
    have "r @ [x] \<notin> Q" for x
    proof -
      have "walk (xp_children p) 0 r = None" unfolding True by (rule trie_missing [OF t new])
      then have "walk (xp_children p) 0 (r @ [x]) = None" by (simp add: walk_snoc)
      then show ?thesis using trieD(6) [OF t] by blast
    qed
    moreover have "a = ?N" using a True by (simp add: W)
    moreover have "F r = (False, False)" unfolding True by (rule trieD(8) [OF t new])
    moreover have "r \<noteq> q" using True by simp
    ultimately show ?thesis using N len by (simp add: addChild_def nth_append nth_list_update)
  next
    case False
    with a have a': "walk (xp_children p) 0 r = Some a" by (simp add: W)
    have eq: "a = n \<longleftrightarrow> r = q" by (rule trie_same [OF t n a'])
    have "r @ [x] = q @ [s] \<longleftrightarrow> r = q \<and> x = s" for x by auto
    then show ?thesis
      using trieD(3-5) [OF t a'] len eq N by (auto simp: addChild_def nth_append nth_list_update)
  qed
  have dom: "walk ?ch' 0 r \<noteq> None \<longleftrightarrow> r \<in> insert (q @ [s]) Q" for r using trieD(6) [OF t, of r] by (auto simp: W)
  have inj: "r = r'" if "walk ?ch' 0 r = Some a" "walk ?ch' 0 r' = Some a" for r r' a
    using that trieD(3) [OF t] trieD(7) [OF t] by (fastforce simp: W split: if_splits)
  have len': "length (xp_hasChildren (addChild n s p)) = length (xp_flags (addChild n s p))" using len by (simp add: addChild_def)
  show ?thesis unfolding trie_def using len' keys at dom inj trieD(8) [OF t] by blast
qed

section \<open>Recording an entry\<close>

text \<open>What recording leaves alone.\<close>

definition sameSettings :: "planner \<Rightarrow> planner \<Rightarrow> bool" where
  "sameSettings p q \<longleftrightarrow> xp_tarLike q = xp_tarLike p \<and> xp_destination q = xp_destination p \<and> xp_excludes q = xp_excludes p \<and>
     xp_mimeTypes q = xp_mimeTypes p"

lemma recordPath_trie:
  assumes "trie p Q F" and "walk (xp_children p) 0 q = Some n"
  shows "\<exists>n' p'. recordPath n (locateFrom (xp_children p) (Some n) segs) segs p = (n', p') \<and>
    trie p' (Q \<union> {q @ x |x. prefix x segs}) F \<and> walk (xp_children p') 0 (q @ segs) = Some n' \<and>
    sameSettings p p' \<and> xp_selected p' = xp_selected p"
  using assms
proof (induction segs arbitrary: p Q q n)
  case Nil
  have "Q \<union> {q @ x |x. prefix x []} = Q" using trie_mem [OF Nil] by auto
  with Nil show ?case by (auto simp: sameSettings_def)
next
  case (Cons s segs)
  note t = Cons.prems(1) and n = Cons.prems(2)
  have q: "q \<in> Q" by (rule trie_mem [OF t n])
  have paths: "insert (q @ [s]) Q \<union> {(q @ [s]) @ x |x. prefix x segs} = Q \<union> {q @ x |x. prefix x (s # segs)}"
    using q by (fastforce simp: prefix_Cons)
  show ?case
  proof (cases "map_of (xp_children p) (n, s)")
    case None
    let ?N = "length (xp_flags p)" and ?p = "addChild n s p"
    have miss: "walk (xp_children p) 0 (q @ [s]) = None" using n None by (simp add: walk_snoc)
    then have new: "q @ [s] \<notin> Q" using trieD(6) [OF t] by blast
    have t': "trie ?p (insert (q @ [s]) Q) F" by (rule trie_add [OF t n new])
    have w: "walk (xp_children ?p) 0 (q @ [s]) = Some ?N" using walk_add [OF t n new] by (simp add: addChild_def)
    have none: "map_of (xp_children ?p) (?N, x) = None" for x
      using trieD(2) [OF t, of "(?N, x)"] trieD(3) [OF t n] by (cases "map_of (xp_children p) (?N, x)") (auto simp: addChild_def update_conv')
    have "locateFrom (xp_children ?p) (Some ?N) segs = locateFrom (xp_children p) None segs"
      using none by (cases segs) (simp_all add: Let_def locateFrom_None)
    then have r: "recordPath n (locateFrom (xp_children p) (Some n) (s # segs)) (s # segs) p =
        recordPath ?N (locateFrom (xp_children ?p) (Some ?N) segs) segs ?p"
      using None by (simp add: Let_def addChild_def)
    have same: "sameSettings p ?p" "xp_selected ?p = xp_selected p" by (simp_all add: addChild_def sameSettings_def)
    from Cons.IH [OF t' w] show ?thesis unfolding r paths using same by (fastforce simp: sameSettings_def)
  next
    case (Some c)
    have w: "walk (xp_children p) 0 (q @ [s]) = Some c" using n Some by (simp add: walk_snoc)
    have qs: "q @ [s] \<in> Q" by (rule trie_mem [OF t w])
    then have "xp_hasChildren p ! n" using trieD(5) [OF t n] by blast
    then have "(xp_hasChildren p)[n := True] = xp_hasChildren p" by (metis (full_types) list_update_id)
    then have r: "recordPath n (locateFrom (xp_children p) (Some n) (s # segs)) (s # segs) p =
        recordPath c (locateFrom (xp_children p) (Some c) segs) segs p"
      using Some by (simp add: Let_def)
    from Cons.IH [OF t w] show ?thesis unfolding r using paths qs by (simp add: insert_absorb)
  qed
qed

lemma trie_mark:
  assumes t: "trie p Q F" and n: "walk (xp_children p) 0 q = Some n"
  shows "trie (p\<lparr> xp_flags := (xp_flags p)[n := v] \<rparr>) Q (F(q := v))"
proof -
  have at: "(xp_flags p)[n := v] ! a = (F(q := v)) r" if "walk (xp_children p) 0 r = Some a" for r a
    using trieD(3,4) [OF t that] trie_same [OF t n that] by (cases "a = n") simp_all
  have q: "q \<in> Q" by (rule trie_mem [OF t n])
  let ?p = "p\<lparr> xp_flags := (xp_flags p)[n := v] \<rparr>"
  have same: "xp_children ?p = xp_children p" "xp_hasChildren ?p = xp_hasChildren p" "xp_flags ?p = (xp_flags p)[n := v]"
    "length (xp_flags ?p) = length (xp_flags p)" by simp_all
  have out: "(F(q := v)) r = (False, False)" if "r \<notin> Q" for r using that q trieD(8) [OF t that] by auto
  have all: "a < length (xp_flags p) \<and> (xp_flags p)[n := v] ! a = (F(q := v)) r \<and> xp_hasChildren p ! a = (\<exists>s. r @ [s] \<in> Q)"
    if "walk (xp_children p) 0 r = Some a" for r a
    using trieD(3,5) [OF t that] at [OF that] by simp
  show ?thesis unfolding trie_def same length_list_update
    by (intro conjI allI impI all out trieD(1) [OF t] trieD(2) [OF t] trieD(6) [OF t]) (assumption | erule (1) trieD(7) [OF t])+
qed

end
