(* ===== verification/EntrySafety.thy ===== *)
theory EntrySafety
  imports EntryTrie
begin

text \<open>
  The planner of an extraction implements the list specification, and a plan it accepts can be
  written below the destination: no entry leaves it, hides another or stands below a file.
\<close>

section \<open>The names of an archive to be written\<close>

lemma fixNames_Inr:
  "fixNames nfc seen names = Inr known \<longleftrightarrow>
     known = rev names @ seen \<and> distinct names \<and> set names \<inter> set seen = {} \<and> (\<forall>n\<in>set names. \<not> invalidEntryName nfc n)"
  by (induction names arbitrary: seen) (auto simp: validateArchiveEntryName_def)

lemma hasAncestor_iff: "hasAncestor seen name \<longleftrightarrow> (\<exists>a\<in>set seen. prefix (a @ [slash]) name)"
proof
  assume "hasAncestor seen name"
  then obtain i where i: "i < length name" "name ! i = slash" "take i name \<in> set seen" by (auto simp: hasAncestor_def)
  then have "take i name @ [slash] = take (Suc i) name" by (simp add: take_Suc_conv_app_nth)
  then have "prefix (take i name @ [slash]) name" by (metis take_is_prefix)
  with i(3) show "\<exists>a\<in>set seen. prefix (a @ [slash]) name" by blast
next
  assume "\<exists>a\<in>set seen. prefix (a @ [slash]) name"
  then obtain a r where "a \<in> set seen" "name = a @ slash # r" by (auto simp: prefix_def)
  then show "hasAncestor seen name" by (auto simp: hasAncestor_def intro!: bexI [of _ "length a"])
qed

text \<open>The names of an archive are accepted exactly when each is valid, no two are equal and none is
  a directory on the way to another, whatever their order.\<close>

lemma validateArchiveEntryNames_iff:
  "validateArchiveEntryNames nfc names = Inr () \<longleftrightarrow>
     (\<forall>n\<in>set names. \<not> invalidEntryName nfc n) \<and> distinct names \<and> (\<forall>a\<in>set names. \<forall>b\<in>set names. \<not> prefix (a @ [slash]) b)"
proof (cases "fixNames nfc [] names")
  case (Inl e)
  then have "\<not> (distinct names \<and> (\<forall>n\<in>set names. \<not> invalidEntryName nfc n))"
    using fixNames_Inr [of nfc "[]" names "rev names"] by auto
  with Inl show ?thesis by (auto simp: validateArchiveEntryNames_def)
next
  case (Inr known)
  with fixNames_Inr [of nfc "[]" names known] show ?thesis by (auto simp: validateArchiveEntryNames_def hasAncestor_iff)
qed

section \<open>The trie of a selection\<close>

definition nodesOf :: "selection \<Rightarrow> jstring list set" where
  "nodesOf E = insert [] {q. \<exists>e\<in>set E. prefix q (fst e)}"

definition flagsOf :: "selection \<Rightarrow> jstring list \<Rightarrow> bool \<times> bool" where
  "flagsOf E q = (\<exists>e\<in>set E. fst e = q, \<exists>e\<in>set E. fst e = q \<and> snd e = FILE)"

definition represents :: "planner \<Rightarrow> planner \<Rightarrow> selection \<Rightarrow> bool" where
  "represents p0 p E \<longleftrightarrow> trie p (nodesOf E) (flagsOf E) \<and> (\<forall>e\<in>set E. fst e \<noteq> []) \<and> xp_selected p = length E \<and> sameSettings p0 p"

lemma representsD:
  assumes "represents p0 p E"
  shows "trie p (nodesOf E) (flagsOf E)" "e \<in> set E \<Longrightarrow> fst e \<noteq> []" "xp_selected p = length E" "sameSettings p0 p"
  using assms by (auto simp: represents_def)

lemma newPlanner_represents:
  assumes "newPlanner tarLike destination exclude mimeTypes = Inr p"
  shows "represents p p []"
proof -
  have w: "walk [] 0 q = (if q = [] then Some 0 else None)" for q by (cases q) simp_all
  from assms show ?thesis
    by (auto simp: newPlanner_def represents_def trie_def nodesOf_def flagsOf_def sameSettings_def w split: sum.splits if_splits)
qed

lemma nodesOf_snoc: "nodesOf (E @ [(segs, type)]) = nodesOf E \<union> {[] @ x |x. prefix x segs}"
  by (auto simp: nodesOf_def)

lemma flagsOf_snoc: "flagsOf (E @ [(segs, type)]) = (flagsOf E)(segs := (True, snd (flagsOf E segs) \<or> type = FILE))"
  by (auto simp: flagsOf_def fun_eq_iff)

lemma recordEntry_represents:
  fixes type :: node_type
  assumes r: "represents p0 p E" and "segs \<noteq> []"
  defines "q \<equiv> recordEntry (locate p segs) segs type p"
  shows "represents p0 (q\<lparr> xp_selected := xp_selected q + 1 \<rparr>) (E @ [(segs, type)])"
proof -
  obtain n p' where rec: "recordPath 0 (locate p segs) segs p = (n, p')"
    "trie p' (nodesOf E \<union> {[] @ x |x. prefix x segs}) (flagsOf E)" "walk (xp_children p') 0 segs = Some n"
    "sameSettings p p'" "xp_selected p' = xp_selected p"
    using recordPath_trie [OF representsD(1) [OF r], of "[]" 0 segs] by (auto simp: locate_def)
  have flag: "xp_flags p' ! n = flagsOf E segs" by (rule trieD(4) [OF rec(2,3)])
  have q: "q = p'\<lparr> xp_flags := (xp_flags p')[n := (True, snd (flagsOf E segs) \<or> type = FILE)] \<rparr>"
    by (simp add: q_def recordEntry_def rec(1) flag)
  have "trie q (nodesOf (E @ [(segs, type)])) (flagsOf (E @ [(segs, type)]))"
    unfolding q nodesOf_snoc flagsOf_snoc by (rule trie_mark [OF rec(2,3)])
  then have "trie (q\<lparr> xp_selected := xp_selected q + 1 \<rparr>) (nodesOf (E @ [(segs, type)])) (flagsOf (E @ [(segs, type)]))"
    by (simp add: trie_def)
  then show ?thesis using representsD(2-4) [OF r] rec(4,5) \<open>segs \<noteq> []\<close> by (auto simp: represents_def q sameSettings_def)
qed

lemma flag_at:
  assumes t: "trie p (nodesOf E) (flagsOf E)"
  shows "(case walk (xp_children p) 0 q of None \<Rightarrow> False | Some a \<Rightarrow> P (xp_flags p ! a)) \<longleftrightarrow> q \<in> nodesOf E \<and> P (flagsOf E q)"
  using trieD(4,6) [OF t, of q] by (auto split: option.splits)

lemma flagsOf_nodes: "fst (flagsOf E q) \<Longrightarrow> q \<in> nodesOf E" "snd (flagsOf E q) \<Longrightarrow> q \<in> nodesOf E"
  by (auto simp: flagsOf_def nodesOf_def)

lemma nodesOf_child: "(\<exists>s. q @ [s] \<in> nodesOf E) \<longleftrightarrow> (\<exists>e\<in>set E. strict_prefix q (fst e))"
proof
  assume "\<exists>e\<in>set E. strict_prefix q (fst e)"
  then obtain e s r where "e \<in> set E" "fst e = q @ s # r" by (auto elim: strict_prefixE')
  then have "e \<in> set E \<and> prefix (q @ [s]) (fst e)" by simp
  then have "q @ [s] \<in> nodesOf E" by (auto simp: nodesOf_def)
  then show "\<exists>s. q @ [s] \<in> nodesOf E" by blast
qed (auto simp: nodesOf_def strict_prefix_def prefix_def)

lemma pathConflict_conflict:
  assumes r: "represents p0 p E" and segs: "segs \<noteq> []"
  shows "pathConflict p (locate p segs) type = conflict E segs type"
proof -
  note t = representsD(1) [OF r]
  have below: "(\<exists>i\<in>set (butlast (locate p segs)). case i of None \<Rightarrow> False | Some a \<Rightarrow> snd (xp_flags p ! a)) \<longleftrightarrow>
      (\<exists>e\<in>set E. snd e = FILE \<and> strict_prefix (fst e) segs)" (is "?l \<longleftrightarrow> ?r")
  proof -
    have "?l \<longleftrightarrow> (\<exists>q. q \<noteq> [] \<and> strict_prefix q segs \<and> snd (flagsOf E q))"
      unfolding locate_def Bex_def butlast_locateFrom using flag_at [OF t] flagsOf_nodes(2) by metis
    also have "\<dots> \<longleftrightarrow> ?r" using representsD(2) [OF r] by (force simp: flagsOf_def)
    finally show ?thesis .
  qed
  have last: "last (locate p segs) = walk (xp_children p) 0 segs" by (simp add: locate_def last_locateFrom segs)
  show ?thesis
  proof (cases "walk (xp_children p) 0 segs")
    case None
    then have "segs \<notin> nodesOf E" using trieD(6) [OF t] by blast
    then have "\<not> (\<exists>e\<in>set E. fst e = segs)" "\<not> (\<exists>e\<in>set E. strict_prefix segs (fst e))"
      by (auto simp: nodesOf_def strict_prefix_def)
    then show ?thesis unfolding pathConflict_def conflict_def below last None by simp
  next
    case (Some a)
    have "fst (xp_flags p ! a) \<longleftrightarrow> (\<exists>e\<in>set E. fst e = segs)" by (simp add: trieD(4) [OF t Some] flagsOf_def)
    moreover have "xp_hasChildren p ! a \<longleftrightarrow> (\<exists>e\<in>set E. strict_prefix segs (fst e))"
      by (simp only: trieD(5) [OF t Some] nodesOf_child)
    ultimately show ?thesis unfolding pathConflict_def conflict_def below last Some by simp blast
  qed
qed

section \<open>The planner and its specification\<close>

lemma sameSettings_use:
  assumes "sameSettings p0 p"
  shows "checkName nfc p = checkName nfc p0" and "plannedEntry lower p = plannedEntry lower p0"
proof -
  have "xp_tarLike p = xp_tarLike p0" "xp_destination p = xp_destination p0" "xp_excludes p = xp_excludes p0" "xp_mimeTypes p = xp_mimeTypes p0"
    using assms by (simp_all add: sameSettings_def)
  then show "checkName nfc p = checkName nfc p0" and "plannedEntry lower p = plannedEntry lower p0"
    by (intro ext; simp only: checkName_def plannedEntry_def)+
qed

lemma plan_refines:
  assumes r: "represents p0 p E"
  shows "\<exists>p' E'. plan nfc lower rawName type p = (fst (planSpec nfc lower p0 rawName type E), p') \<and>
    planSpec nfc lower p0 rawName type E = (fst (planSpec nfc lower p0 rawName type E), E') \<and> represents p0 p' E'"
  using r recordEntry_represents [OF r js_split_ne]
  by (auto simp: plan_def planSpec_def sameSettings_use [OF representsD(4) [OF r]] representsD(3) [OF r] Let_def
      pathConflict_conflict [OF r] split: sum.splits option.splits)

lemma planAll_refines:
  "represents p0 p E \<Longrightarrow> fst (planAll nfc lower entries p) = fst (planAllSpec nfc lower p0 entries E)"
proof (induction entries arbitrary: p E)
  case (Cons en entries)
  obtain rawName type where en: "en = (rawName, type)" by (cases en)
  obtain res p' E' where step: "plan nfc lower rawName type p = (res, p')" "planSpec nfc lower p0 rawName type E = (res, E')"
    "represents p0 p' E'"
    using plan_refines [OF Cons.prems] by metis
  show ?case
  proof (cases res)
    case (Inr planned)
    from Cons.IH [OF step(3)] show ?thesis unfolding en
      by (cases "planAll nfc lower entries p'"; cases "planAllSpec nfc lower p0 entries E'")
        (auto simp: bind_def ret_def step(1,2) Inr split: sum.splits)
  qed (simp add: en bind_def step(1,2))
qed (simp add: ret_def)

section \<open>Accepted plans\<close>

text \<open>Two entries that can be written in one tree, the one that comes first on the left.\<close>

definition compatible :: "jstring list \<times> node_type \<Rightarrow> jstring list \<times> node_type \<Rightarrow> bool" where
  "compatible a b \<longleftrightarrow> fst a \<noteq> fst b \<and> \<not> (snd a = FILE \<and> strict_prefix (fst a) (fst b)) \<and> \<not> (snd b = FILE \<and> strict_prefix (fst b) (fst a))"

lemma conflict_None: "conflict E segs type = None \<longleftrightarrow> (\<forall>e\<in>set E. compatible e (segs, type))"
  by (auto simp: conflict_def compatible_def split: if_splits)

text \<open>A path of segments that stays below the directory it is appended to.\<close>

definition staysBelow :: "jstring list \<Rightarrow> bool" where
  "staysBelow segs \<longleftrightarrow> segs \<noteq> [] \<and> (\<forall>s\<in>set segs. s \<noteq> [] \<and> s \<noteq> js ''.'' \<and> s \<noteq> js ''..'' \<and> slash \<notin> set s \<and> 92 \<notin> set s \<and> byteLength s \<le> 255)"

definition writable :: "planner \<Rightarrow> planned_entry \<Rightarrow> bool" where
  "writable p e \<longleftrightarrow> staysBelow (en_segments e) \<and> byteLength (joinSegments (xp_destination p @ en_segments e)) \<le> 4096 \<and>
     xp_excludes p (en_name e) = Some False \<and> en_segments e = js_split slash (en_name e)"

lemma js_split_subset: "part \<in> set (js_split c s) \<Longrightarrow> set part \<subseteq> set s"
  by (induction s arbitrary: part) (fastforce split: if_splits list.splits)+

lemma checkName_writable:
  assumes "checkName nfc p index rawName type = Inr (Some name)"
  shows "writable p (plannedEntry lower p i name type)"
proof -
  have ok: "\<not> invalidEntryName nfc name" "byteLength (joinSegments (xp_destination p @ js_split slash name)) \<le> 4096"
    "xp_excludes p name = Some False"
    using assms by (auto simp: checkName_def validateArchiveEntryName_def split: option.splits if_splits bool.splits)
  have "staysBelow (js_split slash name)"
    using ok(1) js_split_notin [of _ slash name] js_split_subset [of _ slash name]
    by (fastforce simp: staysBelow_def invalidEntryName_def not_less)
  with ok show ?thesis by (simp add: writable_def plannedEntry_def)
qed

definition selectionOf :: "planned_entry list \<Rightarrow> selection" where
  "selectionOf es = map (\<lambda>e. (en_segments e, en_type e)) es"

lemma planSpec_sound:
  assumes "planSpec nfc lower p rawName type E = (Inr planned, E')" and "sorted_wrt compatible E"
  shows "sorted_wrt compatible E'" "E' = E @ selectionOf (case planned of None \<Rightarrow> [] | Some e \<Rightarrow> [e])"
    "\<forall>e\<in>set_option planned. writable p e \<and> en_entryIndex e = length E"
  using assms checkName_writable [of nfc p _ rawName type]
  by (auto simp: planSpec_def selectionOf_def plannedEntry_def conflict_None sorted_wrt_append split: sum.splits option.splits)

lemma planAllSpec_sound:
  assumes "planAllSpec nfc lower p entries E = (Inr es, E')" and "sorted_wrt compatible E"
  shows "sorted_wrt compatible (E @ selectionOf es) \<and> (\<forall>e\<in>set es. writable p e) \<and>
    map en_entryIndex es = [length E..<length E + length es]"
  using assms
proof (induction entries arbitrary: E es)
  case (Cons en entries)
  obtain rawName type where en: "en = (rawName, type)" by (cases en)
  from Cons.prems(1) obtain planned E1 es' where step: "planSpec nfc lower p rawName type E = (Inr planned, E1)"
    "planAllSpec nfc lower p entries E1 = (Inr es', E')" "es = (case planned of None \<Rightarrow> [] | Some e \<Rightarrow> [e]) @ es'"
    by (auto simp: en bind_def ret_def split: prod.splits sum.splits option.splits)
  note one = planSpec_sound [OF step(1) Cons.prems(2)]
  from Cons.IH [OF step(2) one(1)] one(2,3) show ?case
    by (cases planned) (auto simp: step(3) selectionOf_def upt_conv_Cons simp del: upt_Suc)
qed (auto simp: ret_def selectionOf_def)

text \<open>
  C36: the planner of an extraction, which keeps the paths it has selected in a trie of numbered nodes
  and looks at the nodes along one path only, answers every archive exactly as the specification that
  compares each entry with all the entries selected before it: the same selection with the same
  names, types, indexes and MIME types, or the same error with the same entry index.
\<close>

theorem planner_refines_list:
  assumes "newPlanner tarLike destination exclude mimeTypes = Inr p"
  shows "fst (planAll nfc lower entries p) = fst (planAllSpec nfc lower p entries [])"
  by (rule planAll_refines [OF newPlanner_represents [OF assms]])

lemma accepted_plan_is_safe:
  assumes "newPlanner tarLike destination exclude mimeTypes = Inr p" and "planAll nfc lower entries p = (Inr es, p')"
  shows "map en_entryIndex es = [0..<length es] \<and> sorted_wrt compatible (selectionOf es) \<and> (\<forall>e\<in>set es. writable p e)"
proof -
  obtain E' where "planAllSpec nfc lower p entries [] = (Inr es, E')"
    using planAll_refines [OF newPlanner_represents [OF assms(1)], of nfc lower entries] assms(2) by (metis fst_conv prod.collapse)
  from planAllSpec_sound [OF this] show ?thesis by simp
qed


section \<open>Examples\<close>

definition exPlanner :: planner where
  "exPlanner = \<lparr> xp_tarLike = True, xp_destination = [js ''d''], xp_excludes = (\<lambda>name. someMatches [] (js_split slash name)),
     xp_mimeTypes = [(js ''.txt'', js ''text/plain'')], xp_children = [], xp_flags = [(False, False)], xp_hasChildren = [False], xp_selected = 0 \<rparr>"

lemma exPlanner_new: "newPlanner True [js ''d''] [] [(js ''.txt'', js ''text/plain'')] = Inr exPlanner"
  by (simp add: newPlanner_def compileExclude_def exPlanner_def)

lemmas chars_eval = js_def slash_def hi_surrogate_def lo_surrogate_def control_char_def lone_surrogate_def bidi_control_def
  byteLength_def utf8_size_def js_starts_with_def js_ends_with_def lower_ascii_def

lemma exNames: "\<not> invalidEntryName id (js ''a'')" "\<not> invalidEntryName id (js ''a/b'')"
  by (simp_all add: invalidEntryName_def driveLetter_def chars_eval)

lemma exPaths: "byteLength (joinSegments [js ''d'', js ''a'']) \<le> 4096" "byteLength (joinSegments [js ''d'', js ''a'', js ''b'']) \<le> 4096"
  by (simp_all add: joinSegments_def chars_eval)

lemma exEntryNames: "entryName True (js ''./a'') FILE = Some (js ''a'')" "entryName True (js ''./a/b'') FILE = Some (js ''a/b'')"
  by (simp_all add: entryName_def js_def js_starts_with_def)

lemma exSplits: "js_split slash (js ''a'') = [js ''a'']" "js_split slash (js ''a/b'') = [js ''a'', js ''b'']"
  by (simp_all add: js_def slash_def)

lemma exChecked: "checkName id exPlanner i (js ''./a'') FILE = Inr (Some (js ''a''))"
  "checkName id exPlanner i (js ''./a/b'') FILE = Inr (Some (js ''a/b''))"
  using exPaths by (simp_all add: checkName_def validateArchiveEntryName_def exNames exEntryNames exSplits exPlanner_def)

lemma exBelow: "fst (planAllSpec id id exPlanner [(js ''./a'', FILE), (js ''./a/b'', FILE)] []) =
    Inl (Extract (VfsExtractInvalidEntryError 1 (js ''./a/b'') ''entry below a FILE''))"
  by (simp add: planSpec_def exChecked bind_def exSplits conflict_def strict_prefix_def)

lemma exSafe: "fst (planAllSpec id id exPlanner [(js ''./a/b'', FILE)] []) = Inr [plannedEntry id exPlanner 0 (js ''a/b'') FILE]"
  by (simp add: planSpec_def exChecked bind_def ret_def exSplits conflict_def)

theorem planner_refines_list_witness:
  "fst (planAll id id [(js ''./a'', FILE), (js ''./a/b'', FILE)] exPlanner) =
    Inl (Extract (VfsExtractInvalidEntryError 1 (js ''./a/b'') ''entry below a FILE''))"
  unfolding planner_refines_list [OF exPlanner_new] by (rule exBelow)

lemma exSafe_run: "\<exists>p'. planAll id id [(js ''./a/b'', FILE)] exPlanner = (Inr [plannedEntry id exPlanner 0 (js ''a/b'') FILE], p')"
  using planAll_refines [OF newPlanner_represents [OF exPlanner_new], of id id "[(js ''./a/b'', FILE)]"] exSafe by (metis prod.collapse)

end
