(* ===== verification/ExtractRead.thy ===== *)
theory ExtractRead
  imports EntrySafety Commands
begin

text \<open>
  Reading the entries of an archive: \<open>detectExtractFormat\<close> of \<open>vfs/extract-format.ts\<close> and \<open>readEntries\<close>
  of \<open>vfs/extract.service.ts\<close>, which plans each entry, enforces the limits and stores the bodies. The
  readers of the formats and the storage are parameters: what the generator of entries yields, what
  hashing or uploading a body gives.
\<close>

section \<open>Configuration\<close>

record extract_config =
  xc_maxConcurrency :: int
  xc_maxEntries :: int
  xc_maxTotalBytes :: int
  xc_maxRatio :: int
  xc_maxSeconds :: int
  xc_orphanGraceSeconds :: int
  xc_assumedOrphanGrace :: bool
  xc_retryAfterSeconds :: int

definition MAX_GRACE_PERIOD_SECONDS :: int where "MAX_GRACE_PERIOD_SECONDS = 365000 * 86400"

text \<open>A collector that deletes unnamed objects before an extraction can have ended is refused, unless
  no namespace may extract. The warnings are left out.\<close>

definition createExtractConfig :: "(jstring \<Rightarrow> jstring option) \<Rightarrow> bool \<Rightarrow> extract_config result" where
  "createExtractConfig env extractGloballyAllowed =
     andResult (parsePositiveInt (env (js ''STORIX_EXTRACT_MAX_SECONDS'')) 600 (Some 86400)) (\<lambda>maxSeconds.
     andResult (parsePositiveInt (env (js ''STORIX_ORPHAN_GRACE_PERIOD'')) 86400 (Some MAX_GRACE_PERIOD_SECONDS)) (\<lambda>orphanGraceSeconds.
     if orphanGraceSeconds < maxSeconds + 60 \<and> extractGloballyAllowed then Inl (InternalError ''grace period below the deadline'')
     else
       andResult (parsePositiveInt (env (js ''STORIX_EXTRACT_MAX_CONCURRENCY'')) 1 None) (\<lambda>maxConcurrency.
       andResult (parsePositiveInt (env (js ''STORIX_EXTRACT_MAX_ENTRIES'')) 1000 (Some 10000)) (\<lambda>maxEntries.
       andResult (parsePositiveInt (env (js ''STORIX_EXTRACT_MAX_TOTAL_BYTES'')) 1073741824 (Some 1073741824)) (\<lambda>maxTotalBytes.
       andResult (parsePositiveInt (env (js ''STORIX_EXTRACT_MAX_RATIO'')) 100 (Some 10000)) (\<lambda>maxRatio.
       andResult (parsePositiveInt (env (js ''STORIX_EXTRACT_RETRY_AFTER_SECONDS'')) 10 (Some 3600)) (\<lambda>retryAfterSeconds.
       Inr \<lparr> xc_maxConcurrency = maxConcurrency, xc_maxEntries = maxEntries, xc_maxTotalBytes = maxTotalBytes, xc_maxRatio = maxRatio,
         xc_maxSeconds = maxSeconds, xc_orphanGraceSeconds = orphanGraceSeconds,
         xc_assumedOrphanGrace = (env (js ''STORIX_ORPHAN_GRACE_PERIOD'') \<in> {None, Some []}), xc_retryAfterSeconds = retryAfterSeconds \<rparr>)))))))"

lemma parsePositiveInt_nonneg: "parsePositiveInt value fallback upper = Inr v \<Longrightarrow> 0 \<le> fallback \<Longrightarrow> 0 \<le> v"
  by (auto simp: parsePositiveInt_def Let_def split: if_splits option.splits)

lemma parsePositiveInt_upper: "parsePositiveInt value fallback (Some m) = Inr v \<Longrightarrow> fallback \<le> m \<Longrightarrow> v \<le> m"
  by (auto simp: parsePositiveInt_def Let_def split: if_splits)

lemma andResult_Inr: "andResult r f = Inr y \<longleftrightarrow> (\<exists>x. r = Inr x \<and> f x = Inr y)"
  by (auto simp: andResult_def split: sum.splits)

lemma createExtractConfig_bounds:
  assumes "createExtractConfig env allowed = Inr cfg"
  shows "0 \<le> xc_maxEntries cfg \<and> xc_maxEntries cfg \<le> 10000 \<and> 0 \<le> xc_maxTotalBytes cfg \<and> xc_maxTotalBytes cfg \<le> 2 ^ 30 \<and>
    (allowed \<longrightarrow> xc_maxSeconds cfg + 60 \<le> xc_orphanGraceSeconds cfg)"
  using assms
  by (auto simp: createExtractConfig_def andResult_Inr dest: parsePositiveInt_nonneg parsePositiveInt_upper split: if_splits)

section \<open>Formats\<close>

datatype extract_format = Zip | Tar | TarGz

definition detectExtractFormat :: "8 word list \<Rightarrow> extract_format option" where
  "detectExtractFormat head =
     (if 4 \<le> length head \<and> head ! 0 = 0x50 \<and> head ! 1 = 0x4b \<and> ((head ! 2 = 3 \<and> head ! 3 = 4) \<or> (head ! 2 = 5 \<and> head ! 3 = 6)) then Some Zip
      else if 2 \<le> length head \<and> head ! 0 = 0x1f \<and> head ! 1 = 0x8b then Some TarGz
      else if 263 \<le> length head \<and> take 5 (drop 257 head) = [0x75, 0x73, 0x74, 0x61, 0x72] then Some Tar
      else if 512 \<le> length head \<and> (\<forall>b\<in>set (take 512 head). b = 0) then Some Tar
      else None)"

section \<open>What the reader yields\<close>

record source_entry =
  se_name :: jstring
  se_type :: node_type
  se_size :: int
  se_compressedSize :: "int option"

text \<open>\<open>ExtractReaderError\<close>, and any other error of a stream.\<close>

datatype source_fault = FormatFault string | EntryFault string "jstring option" | OtherFault vfs_error

text \<open>One turn of the generator: an entry, an error, or an entry that arrives after the request was cut
  off (\<open>signal.throwIfAborted\<close>).\<close>

datatype source_event = Entry source_entry | Faulty source_fault | Aborted vfs_error

fun translate :: "source_fault \<Rightarrow> nat \<Rightarrow> jstring \<Rightarrow> vfs_error" where
  "translate (OtherFault e) _ _ = e"
| "translate (FormatFault reason) _ _ = Extract (VfsExtractUnsupportedFormatError reason)"
| "translate (EntryFault reason faultName) entryIndex fallbackName =
     Extract (VfsExtractInvalidEntryError entryIndex (case faultName of None \<Rightarrow> fallbackName | Some n \<Rightarrow> n) reason)"

section \<open>Reading\<close>

record ingress_result =
  ir_size :: int
  ir_sha256 :: jstring
  ir_encryptionIv :: "8 word list option"

record commit_entry =
  ce_entryIndex :: nat
  ce_name :: jstring
  ce_segments :: "jstring list"
  ce_type :: node_type
  ce_blob :: "blob_data option"

record read_entry =
  re_planned :: planned_entry
  re_size :: int
  re_commit :: commit_entry

text \<open>
  The request and the services: the \<open>n\<close>-th storage key, whether the body of an entry fails to open,
  hashing the opened body and uploading it.
\<close>

record extract_env =
  xe_config :: extract_config
  xe_maxFileBytes :: int
  xe_dryRun :: bool
  xe_encrypted :: bool
  xe_nfc :: "jstring \<Rightarrow> jstring"
  xe_lower :: "jstring \<Rightarrow> jstring"
  xe_key :: "nat \<Rightarrow> jstring"
  xe_open :: "source_entry \<Rightarrow> source_fault option"
  xe_hash :: "source_entry \<Rightarrow> int \<Rightarrow> source_fault + int"
  xe_upload :: "jstring \<Rightarrow> source_entry \<Rightarrow> jstring \<Rightarrow> int \<Rightarrow> bool \<Rightarrow> source_fault + ingress_result"

type_synonym 'a xrp = "(planner \<times> jstring list, vfs_error, 'a) prog"

definition RATIO_FLOOR :: int where "RATIO_FLOOR = 2 ^ 20"

definition onPlanner :: "(planner, vfs_error, 'a) prog \<Rightarrow> 'a xrp" where
  "onPlanner m s = (case m (fst s) of (r, p) \<Rightarrow> (r, (p, snd s)))"

definition checkLength :: "nat \<Rightarrow> source_entry \<Rightarrow> int \<Rightarrow> unit xrp" where
  "checkLength entryIndex entry got = throwIf (got \<noteq> se_size entry) (Extract (VfsExtractInvalidEntryError entryIndex (se_name entry) ''length''))"

text \<open>
  The body of a selected file: it is opened, then hashed in a dry run, else uploaded under a key that is
  drawn and noted first.
\<close>

definition storeBody :: "extract_env \<Rightarrow> planned_entry \<Rightarrow> source_entry \<Rightarrow> blob_data option xrp" where
  "storeBody env planned entry =
     (case xe_open env entry of Some fault \<Rightarrow> throw (translate fault (en_entryIndex planned) (se_name entry))
      | None \<Rightarrow>
      if xe_dryRun env then
        (case xe_hash env entry (se_size entry) of
           Inl fault \<Rightarrow> throw (translate fault (en_entryIndex planned) (se_name entry))
         | Inr got \<Rightarrow> andThen (checkLength (en_entryIndex planned) entry got) (ret None))
      else
        bind (gets (\<lambda>s. xe_key env (length (snd s)))) (\<lambda>storageKey.
        andThen (modify (\<lambda>s. (fst s, snd s @ [storageKey])))
        (case xe_upload env storageKey entry (en_mimeType planned) (se_size entry) (xe_encrypted env) of
           Inl fault \<Rightarrow> throw (translate fault (en_entryIndex planned) (se_name entry))
         | Inr up \<Rightarrow> andThen (checkLength (en_entryIndex planned) entry (ir_size up))
             (ret (Some \<lparr> d_storageKey = storageKey, d_size = ir_size up, d_mimeType = en_mimeType planned, d_sha256 = ir_sha256 up,
                d_encryptionIv = ir_encryptionIv up \<rparr>)))))"

definition readEntry :: "planned_entry \<Rightarrow> source_entry \<Rightarrow> int \<Rightarrow> blob_data option \<Rightarrow> read_entry" where
  "readEntry planned entry len blob = \<lparr> re_planned = planned, re_size = len,
     re_commit = \<lparr> ce_entryIndex = en_entryIndex planned, ce_name = se_name entry, ce_segments = en_segments planned, ce_type = en_type planned,
       ce_blob = blob \<rparr> \<rparr>"

definition tooLarge :: "extract_limit \<Rightarrow> vfs_error" where
  "tooLarge limit = Extract (VfsExtractTooLargeError limit)"

definition ratioExceeded :: "extract_config \<Rightarrow> source_entry \<Rightarrow> bool" where
  "ratioExceeded cfg entry \<longleftrightarrow>
     (case se_compressedSize entry of None \<Rightarrow> False | Some c \<Rightarrow> RATIO_FLOOR \<le> se_size entry \<and> c * xc_maxRatio cfg < se_size entry)"

text \<open>What follows the plan of a selected entry, up to its place in the result.\<close>

definition readSelected :: "extract_env \<Rightarrow> planned_entry \<Rightarrow> source_entry \<Rightarrow> read_entry xrp" where
  "readSelected env planned entry =
     bind (gets (\<lambda>s. xp_selected (fst s))) (\<lambda>count.
     andThen (throwIf (xc_maxEntries (xe_config env) < int count) (tooLarge EntriesLimit))
     (if en_type planned = DIRECTORY then ret (readEntry planned entry 0 None)
      else
        andThen (throwIf (xe_maxFileBytes env < se_size entry) (tooLarge EntryBytesLimit))
        (andThen (throwIf (ratioExceeded (xe_config env) entry) (tooLarge RatioLimit))
        (bind (storeBody env planned entry) (\<lambda>blob. ret (readEntry planned entry (se_size entry) blob))))))"

fun readLoop :: "extract_env \<Rightarrow> int \<Rightarrow> jstring \<Rightarrow> read_entry list \<Rightarrow> source_event list \<Rightarrow> read_entry list xrp" where
  "readLoop env processedBytes lastExcludedName out [] = ret out"
| "readLoop env processedBytes lastExcludedName out (Faulty fault # rest) =
     bind (gets (\<lambda>s. xp_selected (fst s))) (\<lambda>count. throw (translate fault count lastExcludedName))"
| "readLoop env processedBytes lastExcludedName out (Aborted e # rest) = throw e"
| "readLoop env processedBytes lastExcludedName out (Entry entry # rest) =
     bind (onPlanner (plan (xe_nfc env) (xe_lower env) (se_name entry) (se_type entry))) (\<lambda>planned.
     let processed = (if se_type entry = FILE then processedBytes + se_size entry else processedBytes) in
     andThen (throwIf (se_type entry = FILE \<and> xc_maxTotalBytes (xe_config env) < processed) (tooLarge BytesLimit))
     (case planned of
        None \<Rightarrow> readLoop env processed (se_name entry) out rest
      | Some pe \<Rightarrow> bind (readSelected env pe entry) (\<lambda>r. readLoop env processed [] (out @ [r]) rest)))"

definition readEntries :: "extract_env \<Rightarrow> source_event list \<Rightarrow> read_entry list xrp" where
  "readEntries env turns = readLoop env 0 [] [] turns"

section \<open>What a completed read guarantees\<close>

fun entriesOf :: "source_event list \<Rightarrow> source_entry list" where
  "entriesOf [] = []"
| "entriesOf (Entry e # rest) = e # entriesOf rest"
| "entriesOf (_ # rest) = entriesOf rest"

definition fileBytes :: "source_entry list \<Rightarrow> int" where
  "fileBytes es = sum_list (map se_size (filter (\<lambda>e. se_type e = FILE) es))"

text \<open>An entry ready to be committed: the commit names what was planned, a file is within the limits and
  its Blob, unless nothing is stored, has the declared size and a noted key.\<close>

definition readyEntry :: "extract_env \<Rightarrow> jstring list \<Rightarrow> read_entry \<Rightarrow> bool" where
  "readyEntry env keys r \<longleftrightarrow> ce_segments (re_commit r) = en_segments (re_planned r) \<and> ce_type (re_commit r) = en_type (re_planned r) \<and>
     ce_entryIndex (re_commit r) = en_entryIndex (re_planned r) \<and>
     (case en_type (re_planned r) of
        DIRECTORY \<Rightarrow> re_size r = 0 \<and> ce_blob (re_commit r) = None
      | FILE \<Rightarrow> re_size r \<le> xe_maxFileBytes env \<and>
          (case ce_blob (re_commit r) of
             None \<Rightarrow> xe_dryRun env
           | Some b \<Rightarrow> \<not> xe_dryRun env \<and> d_size b = re_size r \<and> d_mimeType b = en_mimeType (re_planned r) \<and> d_storageKey b \<in> set keys))"

lemma recordPath_selected: "recordPath n path segs p = (n', q) \<Longrightarrow> xp_selected q = xp_selected p"
  by (induction n path segs p rule: recordPath.induct) (auto simp: Let_def split: option.splits)

lemma plan_selected:
  assumes "plan nfc lower rawName type p = (Inr planned, q)"
  shows "xp_selected q = xp_selected p + (case planned of None \<Rightarrow> 0 | Some _ \<Rightarrow> 1)"
proof -
  have "xp_selected (recordEntry path segs type p) = xp_selected p" for path segs
    by (auto simp: recordEntry_def recordPath_selected split: prod.splits)
  with assms show ?thesis by (auto simp: plan_def Let_def split: sum.splits option.splits)
qed

lemma planAll_selected: "planAll nfc lower entries p = (Inr es, q) \<Longrightarrow> xp_selected q = xp_selected p + length es"
  by (induction nfc lower entries arbitrary: p es rule: planAll.induct) (auto simp: monad_simps dest!: plan_selected split: option.splits)

lemma storeBody_ready:
  assumes "storeBody env planned entry (p, keys) = (Inr blob, (p', keys'))"
  shows "p' = p \<and> set keys \<subseteq> set keys' \<and>
    (case blob of
       None \<Rightarrow> xe_dryRun env
     | Some b \<Rightarrow> \<not> xe_dryRun env \<and> d_size b = se_size entry \<and> d_mimeType b = en_mimeType planned \<and> d_storageKey b \<in> set keys')"
  using assms by (auto simp: storeBody_def checkLength_def gets_def modify_def monad_simps split: if_splits sum.splits option.splits)

lemma readSelected_ready:
  assumes "readSelected env pe entry (p, keys) = (Inr r, (p', keys'))"
  shows "p' = p \<and> set keys \<subseteq> set keys' \<and> readyEntry env keys' r \<and> re_planned r = pe \<and> int (xp_selected p) \<le> xc_maxEntries (xe_config env)"
  using assms storeBody_ready [of env pe entry p keys _ p' keys']
  by (cases "en_type pe") (auto simp: readSelected_def readEntry_def readyEntry_def gets_def monad_simps split: option.splits)

lemma readyEntry_mono: "readyEntry env keys r \<Longrightarrow> set keys \<subseteq> set keys' \<Longrightarrow> readyEntry env keys' r"
  by (auto simp: readyEntry_def split: node_type.splits option.splits)

definition namesOf :: "source_entry list \<Rightarrow> (jstring \<times> node_type) list" where
  "namesOf es = map (\<lambda>e. (se_name e, se_type e)) es"

lemma readLoop_sound:
  assumes "readLoop env processed excluded out turns (p, keys) = (Inr res, (p', keys'))"
    and "processed \<le> xc_maxTotalBytes (xe_config env)" and "int (xp_selected p) \<le> xc_maxEntries (xe_config env)"
  shows "\<exists>new. res = out @ new \<and> planAll (xe_nfc env) (xe_lower env) (namesOf (entriesOf turns)) p = (Inr (map re_planned new), p') \<and>
    set keys \<subseteq> set keys' \<and> (\<forall>r\<in>set new. readyEntry env keys' r) \<and> int (xp_selected p') \<le> xc_maxEntries (xe_config env) \<and>
    processed + fileBytes (entriesOf turns) \<le> xc_maxTotalBytes (xe_config env)"
  using assms
proof (induction env processed excluded out turns arbitrary: p keys rule: readLoop.induct)
  case (1 env processed excluded out)
  then show ?case by (simp add: ret_def namesOf_def fileBytes_def)
next
  case (2 env processed excluded out fault rest)
  then show ?case by (simp add: monad_simps)
next
  case (3 env processed excluded out e rest)
  then show ?case by (simp add: monad_simps)
next
  case (4 env processed excluded out entry rest)
  let ?processed = "if se_type entry = FILE then processed + se_size entry else processed"
  from "4.prems"(1) obtain planned p1 where step: "plan (xe_nfc env) (xe_lower env) (se_name entry) (se_type entry) p = (Inr planned, p1)"
    "se_type entry = FILE \<longrightarrow> ?processed \<le> xc_maxTotalBytes (xe_config env)"
    "(case planned of None \<Rightarrow> readLoop env ?processed (se_name entry) out rest
      | Some pe \<Rightarrow> bind (readSelected env pe entry) (\<lambda>r. readLoop env ?processed [] (out @ [r]) rest)) (p1, keys) = (Inr res, (p', keys'))"
    by (auto simp: monad_simps onPlanner_def Let_def not_less split: prod.splits)
  have fits: "?processed \<le> xc_maxTotalBytes (xe_config env)" using step(2) "4.prems"(2) by (cases "se_type entry = FILE") simp_all
  have bytes: "processed + fileBytes (entriesOf (Entry entry # rest)) = ?processed + fileBytes (entriesOf rest)" by (simp add: fileBytes_def)
  show ?case
  proof (cases planned)
    case None
    have "int (xp_selected p1) \<le> xc_maxEntries (xe_config env)" using plan_selected [OF step(1)] None "4.prems"(3) by simp
    from "4.IH"(1) [OF refl None _ fits this, of keys] step(3) None obtain new where new: "res = out @ new"
      "planAll (xe_nfc env) (xe_lower env) (namesOf (entriesOf rest)) p1 = (Inr (map re_planned new), p')" "set keys \<subseteq> set keys'"
      "\<forall>r\<in>set new. readyEntry env keys' r" "int (xp_selected p') \<le> xc_maxEntries (xe_config env)"
      "?processed + fileBytes (entriesOf rest) \<le> xc_maxTotalBytes (xe_config env)" by auto
    then show ?thesis unfolding bytes using step(1) None by (intro exI [of _ new]) (simp add: namesOf_def bind_def ret_def)
  next
    case (Some pe)
    with step(3) obtain r p2 keys2 where sel: "readSelected env pe entry (p1, keys) = (Inr r, (p2, keys2))"
      "readLoop env ?processed [] (out @ [r]) rest (p2, keys2) = (Inr res, (p', keys'))" by (auto simp: monad_simps)
    note one = readSelected_ready [OF sel(1)]
    from one have p2: "p2 = p1" "int (xp_selected p2) \<le> xc_maxEntries (xe_config env)" by simp_all
    from "4.IH"(2) [OF refl Some sel(2) fits p2(2)] obtain new where new: "res = (out @ [r]) @ new"
      "planAll (xe_nfc env) (xe_lower env) (namesOf (entriesOf rest)) p2 = (Inr (map re_planned new), p')" "set keys2 \<subseteq> set keys'"
      "\<forall>r\<in>set new. readyEntry env keys' r" "int (xp_selected p') \<le> xc_maxEntries (xe_config env)"
      "?processed + fileBytes (entriesOf rest) \<le> xc_maxTotalBytes (xe_config env)" by blast
    have "readyEntry env keys' r" using one new(3) readyEntry_mono by blast
    then show ?thesis unfolding bytes using step(1) Some new one p2
      by (intro exI [of _ "r # new"]) (auto simp: namesOf_def bind_def ret_def)
  qed
qed

text \<open>
  C35: when the archive of an extraction has been read to its end, what goes to the commit is safe and
  within the limits. The selected entries are numbered from 0 without gaps, at most as many as allowed;
  the segments of each are never empty, \<open>.\<close> or \<open>..\<close> and hold no separator, so none leaves the destination,
  and no path is too long; no excluded entry is among them; no two have the same path nor does one
  stand below another that is a file, in whichever order the archive has them. All files of the archive,
  excluded ones too, together stay within the byte limit, each selected file within the limit of one
  file, and its stored Blob has the size the archive declared and a storage key noted for the clean-up.
\<close>

theorem extraction_is_safe:
  assumes "newPlanner (format \<noteq> Zip) destination exclude mimeTypes = Inr p" and "readEntries env turns (p, []) = (Inr out, (p', keys))"
    and "createExtractConfig vars allowed = Inr (xe_config env)"
  defines "planned \<equiv> map re_planned out"
  shows "map en_entryIndex planned = [0..<length out] \<and> int (length out) \<le> xc_maxEntries (xe_config env) \<and>
    (\<forall>e\<in>set planned. writable p e) \<and> sorted_wrt compatible (selectionOf planned) \<and>
    fileBytes (entriesOf turns) \<le> xc_maxTotalBytes (xe_config env) \<and> (\<forall>r\<in>set out. readyEntry env keys r)"
proof -
  have "0 \<le> xc_maxTotalBytes (xe_config env)" "0 \<le> xc_maxEntries (xe_config env)" using createExtractConfig_bounds [OF assms(3)] by simp_all
  note limits = this
  have new: "xp_selected p = 0" using assms(1) by (auto simp: newPlanner_def split: sum.splits)
  with readLoop_sound [OF assms(2) [unfolded readEntries_def] limits(1)] limits(2)
  have read: "planAll (xe_nfc env) (xe_lower env) (namesOf (entriesOf turns)) p = (Inr planned, p')" "\<forall>r\<in>set out. readyEntry env keys r"
    "int (xp_selected p') \<le> xc_maxEntries (xe_config env)" "fileBytes (entriesOf turns) \<le> xc_maxTotalBytes (xe_config env)"
    by (auto simp: planned_def)
  from planAll_selected [OF read(1)] new have "xp_selected p' = length out" by (simp add: planned_def)
  with read accepted_plan_is_safe [OF assms(1) read(1)] show ?thesis by (simp add: planned_def)
qed

section \<open>Example\<close>

definition exExtract :: extract_env where
  "exExtract = \<lparr> xe_config = \<lparr> xc_maxConcurrency = 1, xc_maxEntries = 1000, xc_maxTotalBytes = 1073741824, xc_maxRatio = 100, xc_maxSeconds = 600,
       xc_orphanGraceSeconds = 86400, xc_assumedOrphanGrace = True, xc_retryAfterSeconds = 10 \<rparr>, xe_maxFileBytes = 1024, xe_dryRun = False,
     xe_encrypted = False, xe_nfc = id, xe_lower = id, xe_key = (\<lambda>n. js ''k''), xe_open = (\<lambda>_. None), xe_hash = (\<lambda>entry cap. Inr cap),
     xe_upload = (\<lambda>key entry mime cap encrypted. Inr \<lparr> ir_size = se_size entry, ir_sha256 = js ''s'', ir_encryptionIv = None \<rparr>) \<rparr>"

definition exSource :: source_entry where
  "exSource = \<lparr> se_name = js ''./a/b'', se_type = FILE, se_size = 3, se_compressedSize = None \<rparr>"

lemma exRead:
  "\<exists>r p'. readEntries exExtract [Entry exSource] (exPlanner, []) = (Inr [r], (p', [js ''k'']))"
proof -
  obtain p' where run: "planAll id id [(js ''./a/b'', FILE)] exPlanner = (Inr [plannedEntry id exPlanner 0 (js ''a/b'') FILE], p')"
    using exSafe_run by blast
  then have plan: "plan id id (js ''./a/b'') FILE exPlanner = (Inr (Some (plannedEntry id exPlanner 0 (js ''a/b'') FILE)), p')"
    by (auto simp: monad_simps split: option.splits)
  have "xp_selected p' = 1" using plan_selected [OF plan] by (simp add: exPlanner_def)
  moreover have "en_type (plannedEntry id exPlanner 0 (js ''a/b'') FILE) = FILE" by (simp add: plannedEntry_def)
  ultimately show ?thesis using plan
    by (simp add: readEntries_def exExtract_def exSource_def onPlanner_def bind_def andThen_def throwIf_def ret_def gets_def modify_def
        readSelected_def ratioExceeded_def storeBody_def checkLength_def)
qed

theorem extraction_is_safe_witness:
  "\<exists>out p' keys. readEntries exExtract [Entry exSource] (exPlanner, []) = (Inr out, (p', keys)) \<and> out \<noteq> [] \<and>
    (\<forall>r\<in>set out. writable exPlanner (re_planned r) \<and> readyEntry exExtract keys r)"
proof -
  obtain r p' where run: "readEntries exExtract [Entry exSource] (exPlanner, []) = (Inr [r], (p', [js ''k'']))" using exRead by blast
  have new: "newPlanner (Tar \<noteq> Zip) [js ''d''] [] [(js ''.txt'', js ''text/plain'')] = Inr exPlanner" using exPlanner_new by simp
  have "createExtractConfig (\<lambda>_. None) True = Inr (xe_config exExtract)"
    by (simp add: createExtractConfig_def parsePositiveInt_def andResult_def exExtract_def)
  from extraction_is_safe [OF new run this] run show ?thesis by (intro exI conjI) auto
qed

end
