(* ===== verification/Ending.thy ===== *)
theory Ending
  imports Enforcement
begin

text \<open>
  Walks that end. Every walk over the node table towards the root is shorter than the table, so the
  fuel of the model is never used up; the queue of a copy runs empty within its fuel; a subtree query that stays under its limit returns the whole
  subtree.
\<close>

section \<open>Towards the root\<close>

text \<open>The nodes at or above a rank: each step towards the root leaves one behind.\<close>

definition above :: "(uuid \<Rightarrow> nat) \<Rightarrow> node list \<Rightarrow> uuid \<Rightarrow> node set" where
  "above h tbl i = {n \<in> set tbl. h (n_id n) \<le> h i}"

lemma above_finite [simp]: "finite (above h tbl i)"
  by (simp add: above_def)

lemma above_bound: "card (above h tbl i) \<le> length tbl"
proof -
  have "card (above h tbl i) \<le> card (set tbl)" by (rule card_mono) (auto simp: above_def)
  then show ?thesis using card_length [of tbl] by linarith
qed

lemma above_parent:
  assumes "ranked h tbl" and "n \<in> set tbl" and "n_parentId n = Some p"
  shows "card (above h tbl p) < card (above h tbl (n_id n))"
proof (rule psubset_card_mono)
  have "h p < h (n_id n)" using assms by (auto simp: ranked_def)
  then have "above h tbl p \<subseteq> above h tbl (n_id n)" "n \<notin> above h tbl p" "n \<in> above h tbl (n_id n)"
    using assms(2) by (auto simp: above_def)
  then show "above h tbl p \<subset> above h tbl (n_id n)" by blast
qed simp

lemma above_self: "n \<in> set tbl \<Longrightarrow> 0 < card (above h tbl (n_id n))"
  by (rule psubset_card_mono [of _ "{}", simplified]) (auto simp: above_def)

lemma findNode_parent:
  assumes v: "validNodes tbl bl" and n: "n \<in> set tbl" "n_parentId n = Some p"
  obtains q where "q \<in> set tbl" "n_id q = p" "n_namespaceId q = n_namespaceId n" "findNode (n_namespaceId n) p tbl = Some q"
proof -
  from valid_parent [OF v n] obtain q where q: "q \<in> set tbl" "n_id q = p" "n_namespaceId q = n_namespaceId n" .
  from findNode_row [OF v q(1)] q show ?thesis by (intro that) auto
qed

lemma markWalk_ends:
  assumes v: "validNodes tbl bl" and h: "ranked h tbl"
  shows "n \<in> set tbl \<Longrightarrow> n_namespaceId n = x_namespaceId s \<Longrightarrow> t_nodes s = tbl \<Longrightarrow> card (above h tbl (n_id n)) \<le> fuel \<Longrightarrow>
    \<exists>w t. markWalk fuel (Some (n_id n)) walked s = (Inr w, t)"
proof (induction fuel arbitrary: n walked s)
  case 0
  then show ?case using above_self [of n tbl h] by simp
next
  case (Suc fuel)
  show ?case
  proof (cases "n_id n \<in> set (x_ancestorChainMarked s)")
    case True
    then show ?thesis by (simp add: bind_def gets_def ret_def)
  next
    case False
    have found: "findNode (x_namespaceId s) (n_id n) (t_nodes s) = Some n"
      using findNode_row [OF v Suc.prems(1,2)] Suc.prems(3) by simp
    obtain s1 where m: "markChanged (n_id n) True s = (Inr (), s1)" by (simp add: markChanged_def modify_def)
    note c = quietD [OF quiet_markChanged m]
    have "\<exists>w t. markWalk fuel (n_parentId n) (walked @ [n_id n]) s1 = (Inr w, t)"
    proof (cases "n_parentId n")
      case None
      then show ?thesis by (simp add: ret_def)
    next
      case (Some p)
      from findNode_parent [OF v Suc.prems(1) Some] obtain q where q: "q \<in> set tbl" "n_id q = p" "n_namespaceId q = n_namespaceId n" .
      have "card (above h tbl (n_id q)) \<le> fuel" using above_parent [OF h Suc.prems(1) Some] Suc.prems(4) q(2) by simp
      from Suc.IH [OF q(1) _ _ this] Suc.prems Some q show ?thesis by (simp add: core_sel [OF c])
    qed
    with m found False show ?thesis by (simp add: bind_def andThen_def gets_def)
  qed
qed

lemma resolveFeedNode_ends:
  assumes v: "validNodes tbl bl" and h: "ranked h tbl"
  shows "n \<in> set tbl \<Longrightarrow> n_namespaceId n = ns \<Longrightarrow> \<forall>i\<in>set resolving. h (n_id n) < h i \<Longrightarrow> card (above h tbl (n_id n)) \<le> fuel \<Longrightarrow>
    \<exists>st. resolveFeedNode ns tbl known (Suc fuel) resolving n = Inr st"
proof (induction fuel arbitrary: n resolving)
  case 0
  then show ?case using above_self [of n tbl h] by simp
next
  case (Suc fuel)
  show ?case
  proof (cases "n_parentId n")
    case None
    then show ?thesis using Suc.prems(3) by (auto split: option.split)
  next
    case (Some p)
    from findNode_parent [OF v Suc.prems(1) Some] obtain q where
      q: "q \<in> set tbl" "n_id q = p" "n_namespaceId q = n_namespaceId n" "findNode (n_namespaceId n) p tbl = Some q" .
    have "h p < h (n_id n)" using h Suc.prems(1) Some by (auto simp: ranked_def)
    then have "\<forall>i\<in>set (n_id n # resolving). h (n_id q) < h i" using Suc.prems(3) q(2) by auto
    moreover have "card (above h tbl (n_id q)) \<le> fuel" using above_parent [OF h Suc.prems(1) Some] Suc.prems(4) q(2) by simp
    ultimately obtain st where "resolveFeedNode ns tbl known (Suc fuel) (n_id n # resolving) q = Inr st"
      using Suc.IH [OF q(1)] q(3) Suc.prems(2) by blast
    moreover have "n_id n \<notin> set resolving" using Suc.prems(3) by blast
    ultimately show ?thesis using Some q(4) Suc.prems(2) by (auto simp: Let_def simp del: resolveFeedNode.simps
        simp: resolveFeedNode.simps(2) [of ns tbl known "Suc fuel"] split: option.split)
  qed
qed

lemma captureAll_ends: "(\<And>n. n \<in> set ns \<Longrightarrow> \<exists>st. f n = Inr st) \<Longrightarrow> \<exists>m. captureAll f ns = Inr m"
proof (induction ns)
  case (Cons n ns)
  then obtain st m where "f n = Inr st" "captureAll f ns = Inr m" by force
  then show ?case by simp
qed simp

lemma captureChangeFeedNodes_ends:
  assumes v: "validNodes tbl bl" and g: "grounded tbl"
  shows "\<exists>m. captureChangeFeedNodes ns tbl ids known = Inr m"
proof -
  from g obtain h where h: "ranked h tbl" by (auto simp: grounded_def)
  have "\<exists>st. resolveFeedNode ns tbl known (Suc (Suc (length tbl))) [] n = Inr st" if "n \<in> set tbl" "n_namespaceId n = ns" for n
    using resolveFeedNode_ends [OF v h that, of "[]" "Suc (length tbl)" known] above_bound [of h tbl "n_id n"] by simp
  then show ?thesis unfolding captureChangeFeedNodes_def by (intro captureAll_ends) auto
qed

lemma trackChangeFeedBefore_ends:
  assumes "validNodes (t_nodes s) bl" and "grounded (t_nodes s)"
  shows "\<exists>t. trackChangeFeedBefore ids s = (Inr (), t)"
proof (cases "x_feedBefore s")
  case None
  then show ?thesis by (simp add: trackChangeFeedBefore_def bind_def gets_def ret_def)
next
  case (Some before)
  obtain m where "captureChangeFeedNodes (x_namespaceId s) (t_nodes s)
      (filter (\<lambda>i. map_of before i = None \<and> map_of (x_changed s) i = None) ids) before = Inr m"
    using captureChangeFeedNodes_ends [OF assms] by blast
  with Some show ?thesis by (simp add: trackChangeFeedBefore_def bind_def gets_def liftR_def modify_def Let_def)
qed

lemma markAncestorChain_ends:
  assumes l: "ledger env s dn db df own" and n: "n \<in> set (t_nodes s)" "n_namespaceId n = x_namespaceId s"
  shows "\<exists>t. markAncestorChain (n_id n) s = (Inr (), t)"
proof -
  from ledger_grounded [OF l] obtain h where h: "ranked h (t_nodes s)" by (auto simp: grounded_def)
  have "card (above h (t_nodes s) (n_id n)) \<le> Suc (length (t_nodes s))"
    using above_bound [of h "t_nodes s" "n_id n"] by simp
  from markWalk_ends [OF ledger_valid [OF l] h n refl this, of "[]"] obtain w t where
    w: "markWalk (Suc (length (t_nodes s))) (Some (n_id n)) [] s = (Inr w, t)" by blast
  note c = quietD [OF quiet_markWalk w]
  have "validNodes (t_nodes t) (t_blobs t)" "grounded (t_nodes t)"
    using ledger_valid [OF l] ledger_grounded [OF l] by (simp_all add: core_sel [OF c])
  from trackChangeFeedBefore_ends [OF this] obtain u where "trackChangeFeedBefore w t = (Inr (), u)" by blast
  with w show ?thesis by (auto simp: markAncestorChain_def bind_def gets_def andThen_def modify_def simp del: markWalk.simps)
qed

lemma pathToRoot_ends:
  assumes v: "validNodes tbl bl" and h: "ranked h tbl"
  shows "n \<in> set tbl \<Longrightarrow> n_namespaceId n = ns \<Longrightarrow> card (above h tbl (n_id n)) \<le> fuel \<Longrightarrow>
    \<exists>pre r. pathToRoot ns tbl fuel n segs = Inr (pre @ segs, n_id r) \<and> r \<in> set tbl \<and> n_namespaceId r = ns \<and> n_parentId r = None"
proof (induction fuel arbitrary: n segs)
  case 0
  then show ?case using above_self [of n tbl h] by simp
next
  case (Suc fuel)
  show ?case
  proof (cases "n_parentId n")
    case None
    then show ?thesis using Suc.prems by (intro exI [of _ "[]"] exI [of _ n]) (simp add: pathToRoot.simps)
  next
    case (Some p)
    from findNode_parent [OF v Suc.prems(1) Some] obtain q where
      q: "q \<in> set tbl" "n_id q = p" "n_namespaceId q = n_namespaceId n" "findNode (n_namespaceId n) p tbl = Some q" .
    have "card (above h tbl (n_id q)) \<le> fuel" using above_parent [OF h Suc.prems(1) Some] Suc.prems(3) q(2) by simp
    from Suc.IH [OF q(1) _ this, of "n_name n # segs"] q(3) Suc.prems(2) obtain pre r where
      "pathToRoot ns tbl fuel q (n_name n # segs) = Inr (pre @ n_name n # segs, n_id r)" "r \<in> set tbl" "n_namespaceId r = ns" "n_parentId r = None"
      by auto
    then show ?thesis using Some q(4) Suc.prems(2)
      by (intro exI [of _ "pre @ [n_name n]"] exI [of _ r]) (simp add: pathToRoot.simps)
  qed
qed

section \<open>Subtree queries\<close>

context subtree_query
begin

text \<open>A query that stops before its limit has followed every row.\<close>

lemma rows_closed:
  assumes "length (cteRows step k queue) < k"
  shows "set queue \<subseteq> set (cteRows step k queue) \<and> (\<forall>r\<in>set (cteRows step k queue). set (step r) \<subseteq> set (cteRows step k queue))"
  using assms
proof (induction k arbitrary: queue)
  case (Suc k)
  show ?case
  proof (cases queue)
    case (Cons r rest)
    with Suc.prems have "length (cteRows step k (rest @ step r)) < k" by simp
    from Suc.IH [OF this] Cons show ?thesis by auto
  qed simp
qed simp

lemma rows_complete:
  assumes short: "length (cteRows step k [r]) < k" and v: "validNodes tbl bl" and r: "key r \<in> set tbl" "n_namespaceId (key r) = ns"
    and b: "below tbl (n_id (key r)) i"
  shows "\<exists>x\<in>set (cteRows step k [r]). n_id (key x) = i"
proof -
  have "\<exists>x\<in>set (cteRows step k [r]). n_id (key x) = i \<and> key x \<in> set tbl \<and> n_namespaceId (key x) = ns"
    using b
  proof (induction rule: below.induct)
    case below_top
    then show ?case using rows_closed [OF short] r by auto
  next
    case (below_child p c)
    then obtain x where x: "x \<in> set (cteRows step k [r])" "n_id (key x) = p" "key x \<in> set tbl" "n_namespaceId (key x) = ns" by blast
    have "n_namespaceId c = ns"
    proof -
      from valid_parent [OF v below_child.hyps(2,3)] obtain q where "q \<in> set tbl" "n_id q = p" "n_namespaceId q = n_namespaceId c" .
      with valid_id_eq [OF v _ x(3)] x(2,4) show ?thesis by metis
    qed
    then have "c \<in> set (map key (step x))" unfolding step_rows childrenOf_def using below_child.hyps(2,3) x(2) by simp
    then obtain y where "y \<in> set (step x)" "key y = c" by auto
    with rows_closed [OF short] x(1) below_child.hyps(2) \<open>n_namespaceId c = ns\<close> show ?case by blast
  qed
  then show ?thesis by blast
qed

end

lemma standsFor_ids: "list_all2 standsFor rows xs \<Longrightarrow> map s_id rows = map n_id xs"
  by (induction rule: list_all2_induct) (simp_all add: standsFor_def)

text \<open>What a removal captures when it is not refused: the node and everything below it, once each.\<close>

lemma captured_subtree:
  assumes run: "captureSnapshotRows segs limit s = (Inr rows, t)" and l: "ledger env s dn db df own"
    and src: "resolvePathInManager (x_namespaceId s) (x_rootId s) segs (t_nodes s) = Some n"
      "n_namespaceId n = x_namespaceId s" "n_parentId n \<noteq> None" "n \<in> set (t_nodes s)"
    and few: "int (length rows) \<le> limit"
  shows "set (map s_id rows) = {i. below (t_nodes s) (n_id n) i}" and "distinct (map s_id rows)"
proof -
  note v = ledger_valid [OF l]
  let ?cte = "cteRows (childPaths (x_namespaceId s) (t_nodes s)) (nat (limit + 1)) [(n, dot)]"
  have rows: "sourceRows (sortBy (\<lambda>a b. relativePathCmp (snd a) (snd b)) ?cte) = Inr rows"
    using run src only_row [OF v src(4) src(2)] by (auto simp: captureSnapshotRows_def monad_simps)
  note stands = sourceRows_standsFor [OF rows]
  have len: "length rows = length ?cte" using list_all2_lengthD [OF stands] by simp
  have ids: "map s_id rows = map (\<lambda>x. n_id (fst x)) (sortBy (\<lambda>a b. relativePathCmp (snd a) (snd b)) ?cte)"
    using standsFor_ids [OF stands] by (simp add: comp_def)
  have "length ?cte < nat (limit + 1)" using len few by linarith
  from byPath.rows_complete [OF this v] src(2,4)
  have "{i. below (t_nodes s) (n_id n) i} \<subseteq> (\<lambda>x. n_id (fst x)) ` set ?cte" by fastforce
  moreover have "\<forall>r\<in>set ?cte. below (t_nodes s) (n_id n) (n_id (fst r))"
    by (rule byPath.rows_below) (simp add: below_top)
  ultimately show "set (map s_id rows) = {i. below (t_nodes s) (n_id n) i}" unfolding ids by auto
  have "distinct (map (\<lambda>r. n_id (fst r)) ?cte)"
    using src(4) by (intro byPath.rows_distinct valid_distinct [OF v] ledger_grounded [OF l]) auto
  then show "distinct (map s_id rows)" unfolding ids by (rule distinct_map_sortBy)
qed

section \<open>Ancestors in a capture of the change feed\<close>

lemma ancestorsIn_ends:
  assumes down: "\<And>p st q. map_of snap p = Some st \<Longrightarrow> n_parentId (fn_node st) = Some q \<Longrightarrow> h q < (h p :: nat)"
  shows "card {p \<in> dom (map_of snap). h p \<le> h i} < fuel \<Longrightarrow> \<exists>xs. ancestorsIn snap fuel (Some i) = Inr xs"
proof (induction fuel arbitrary: i)
  case (Suc fuel)
  let ?up = "\<lambda>i. {p \<in> dom (map_of snap). h p \<le> h i}"
  let ?parent = "case map_of snap i of None \<Rightarrow> None | Some st \<Rightarrow> n_parentId (fn_node st)"
  have "\<exists>xs. ancestorsIn snap fuel ?parent = Inr xs"
  proof (cases ?parent)
    case (Some q)
    then obtain st where st: "map_of snap i = Some st" "n_parentId (fn_node st) = Some q" by (auto split: option.splits)
    have "h q < h i" by (rule down [OF st])
    then have "?up q \<subseteq> ?up i" "i \<in> ?up i" "i \<notin> ?up q" using st(1) by auto
    then have "?up q \<subset> ?up i" by blast
    then have "card (?up q) < card (?up i)" by (intro psubset_card_mono) (simp_all add: finite_dom_map_of)
    with Suc.prems have "card (?up q) < fuel" by simp
    from Suc.IH [OF this] show ?thesis unfolding Some .
  qed simp
  then show ?case by (auto split: sum.splits)
qed simp

text \<open>The fuel of the capture is one more than its entries.\<close>

lemma ancestorsIn_fuel:
  assumes "\<And>p st q. map_of snap p = Some st \<Longrightarrow> n_parentId (fn_node st) = Some q \<Longrightarrow> h q < (h p :: nat)"
  shows "\<exists>xs. ancestorsIn snap (Suc (length snap)) (Some i) = Inr xs"
proof (rule ancestorsIn_ends [OF assms])
  have "card {p \<in> dom (map_of snap). h p \<le> h i} \<le> card (dom (map_of snap))" by (intro card_mono) (auto simp: finite_dom_map_of)
  also have "\<dots> \<le> length snap" by (metis card_length dom_map_of_conv_image_fst length_map set_map)
  finally show "card {p \<in> dom (map_of snap). h p \<le> h i} < Suc (length snap)" by simp
qed

section \<open>The queue of a copy\<close>

text \<open>
  The loop of a directory copy takes each directory of the subtree once: an id that has left the queue
  or stands in it is not put there again, since a row has one parent. So the fuel is enough.
\<close>

lemma copyChild_queue:
  assumes "foldProg (copyChild env ns ex new) (queue, rows) cs s = (r, t)"
  shows "r \<noteq> Inl NoReturn" and "r = Inr (queue', rows') \<Longrightarrow> map fst queue' = map fst queue @ map n_id (filter (\<lambda>c. n_type c = DIRECTORY) cs)"
  using assms
proof (induction cs arbitrary: queue rows s)
  case (Cons c cs)
  { case 1 with Cons.IH(1) show ?case
      by (auto simp: copyChild_def bind_def andThen_def ret_def throw_def freshId_def gets_def modify_def recordLiveByteDelta_def
          split: node_type.splits option.splits prod.splits sum.splits if_splits) }
  { case 2 with Cons.IH(2) show ?case
      by (auto simp: copyChild_def bind_def andThen_def ret_def throw_def freshId_def gets_def modify_def recordLiveByteDelta_def
          split: node_type.splits option.splits prod.splits sum.splits if_splits) }
qed (auto simp: ret_def)

lemma copyLoop_returns:
  fixes src :: uuid and subtree :: "node list"
  defines "children \<equiv> \<lambda>p. filter (\<lambda>r. n_id r \<noteq> src \<and> n_parentId r = Some p) subtree"
  assumes ids: "distinct (map n_id subtree)"
    and queued: "distinct (visited @ map fst queue)"
      "set (visited @ map fst queue) \<subseteq> insert src {n_id r |r. r \<in> set subtree \<and> n_id r \<noteq> src \<and> (\<exists>p\<in>set visited. n_parentId r = Some p)}"
    and fuel: "Suc (length subtree) \<le> fuel + length visited"
  shows "fst (copyLoop env ns ex children fuel queue rows s) \<noteq> Inl NoReturn"
  using queued fuel
proof (induction fuel arbitrary: queue rows s visited)
  case 0
  have "set (visited @ map fst queue) \<subseteq> insert src (n_id ` set subtree)" using "0.prems"(2) by auto
  then have "card (set (visited @ map fst queue)) \<le> card (insert src (n_id ` set subtree))" by (intro card_mono) simp_all
  also have "\<dots> \<le> Suc (card (n_id ` set subtree))" by (simp add: card_insert_if)
  also have "\<dots> \<le> Suc (length subtree)" using card_length [of "map n_id subtree"] by simp
  finally have "card (set (visited @ map fst queue)) \<le> Suc (length subtree)" .
  then have "length (visited @ map fst queue) \<le> Suc (length subtree)" using distinct_card [OF "0.prems"(1)] by simp
  with "0.prems"(3) show ?case by (cases queue) (simp_all add: ret_def)
next
  case (Suc fuel)
  show ?case
  proof (cases queue)
    case (Cons entry rest)
    obtain old new where entry: "entry = (old, new)" by (cases entry)
    obtain r t where step: "foldProg (copyChild env ns ex new) (rest, rows) (children old) s = (r, t)" by fastforce
    show ?thesis
    proof (cases r)
      case (Inr qr)
      obtain queue' rows' where qr: "qr = (queue', rows')" by (cases qr)
      let ?visited = "visited @ [old]" and ?dirs = "map n_id (filter (\<lambda>c. n_type c = DIRECTORY) (children old))"
      have q': "map fst queue' = map fst rest @ ?dirs" using copyChild_queue(2) [OF step] Inr qr by simp
      have dirs: "distinct ?dirs" using ids by (auto simp: children_def distinct_map inj_on_def)
      have unseen: "i \<notin> set (visited @ map fst queue)" if dir: "i \<in> set ?dirs" for i
      proof
        assume seen: "i \<in> set (visited @ map fst queue)"
        obtain c where c: "c \<in> set subtree" "n_id c = i" "i \<noteq> src" "n_parentId c = Some old"
          using dir by (auto simp: children_def)
        from subsetD [OF Suc.prems(2) seen] c(3) obtain c' p where
          c': "c' \<in> set subtree" "n_id c' = i" "p \<in> set visited" "n_parentId c' = Some p" by auto
        have "c' = c" using ids c(1,2) c'(1,2) by (metis distinct_map inj_onD)
        with c(4) c'(3,4) have "old \<in> set visited" by simp
        with Suc.prems(1) Cons entry show False by simp
      qed
      have d: "distinct (?visited @ map fst queue')"
        using Suc.prems(1) Cons entry dirs unseen unfolding q' by auto
      let ?ok = "\<lambda>vs. insert src {n_id r |r. r \<in> set subtree \<and> n_id r \<noteq> src \<and> (\<exists>p\<in>set vs. n_parentId r = Some p)}"
      have "set (visited @ map fst queue) \<subseteq> ?ok ?visited" by (rule order_trans [OF Suc.prems(2)]) auto
      moreover have "set ?dirs \<subseteq> ?ok ?visited" by (auto simp: children_def)
      ultimately have sub: "set (?visited @ map fst queue') \<subseteq> ?ok ?visited" unfolding q' Cons entry by simp
      have "Suc (length subtree) \<le> fuel + length ?visited" using Suc.prems(3) by simp
      from Suc.IH [OF d sub this] step show ?thesis by (simp add: Cons entry bind_def Inr qr)
    next
      case (Inl e)
      with copyChild_queue(1) [OF step] step show ?thesis by (simp add: Cons entry bind_def)
    qed
  qed (simp add: ret_def)
qed

lemma copy_directory_loop_returns:
  assumes "distinct (map n_id subtree)"
  shows "fst (copyLoop env ns ex (\<lambda>p. filter (\<lambda>r. n_id r \<noteq> src \<and> n_parentId r = Some p) subtree) (Suc (length subtree)) [(src, new)] rows s)
    \<noteq> Inl NoReturn"
  by (rule copyLoop_returns [OF assms, of "[]"]) simp_all

end
