(* ===== verification/Range.thy ===== *)
theory Range
  imports Decimal
begin

text \<open>
  Byte ranges of a download: \<open>apps/api/src/vfs/range.ts\<close>. The size of a file is a non-negative
  safe integer. \<open>Number(text)\<close> of a digit string rounds above \<open>2^53\<close>, where
  \<open>Math.min(_, MAX_SAFE_INTEGER)\<close> cuts it, so the parsed number is the exact value cut there.
\<close>

record byte_range =
  start :: int
  endp :: int

definition parseDecimal :: "jstring \<Rightarrow> int" where
  "parseDecimal text = min (int (dec_value text)) MAX_SAFE_INTEGER"

text \<open>\<open>/^bytes=(\d*)-(\d*)$/i\<close>: the two digit groups, or no match.\<close>

definition rangeUnit :: jstring where "rangeUnit = [98, 121, 116, 101, 115, 61]"

definition rangePattern :: "jstring \<Rightarrow> (jstring \<times> jstring) option" where
  "rangePattern s =
     (if map lower_ascii (take 6 s) \<noteq> rangeUnit then None
      else (let a = takeWhile is_digit (drop 6 s); rest = dropWhile is_digit (drop 6 s) in
        case rest of
          [] \<Rightarrow> None
        | c # b \<Rightarrow> if c = 45 \<and> (\<forall>d\<in>set b. is_digit d) then Some (a, b) else None))"

definition parseRange :: "jstring \<Rightarrow> int \<Rightarrow> byte_range result" where
  "parseRange header fileSize =
     (let fail = Inl (Node (VfsRangeNotSatisfiableError header fileSize)); trimmed = js_trim header in
      if 44 \<in> set trimmed then fail
      else (case rangePattern trimmed of
          None \<Rightarrow> fail
        | Some (startText, endText) \<Rightarrow>
            if startText = [] \<and> endText = [] then fail
            else if startText = [] then
              (let suffixLength = parseDecimal endText in
               if suffixLength \<le> 0 then fail
               else (let s = max (fileSize - suffixLength) 0; e = fileSize - 1 in
                 if fileSize = 0 \<or> fileSize \<le> s then fail
                 else Inr \<lparr> start = s, endp = min e (fileSize - 1) \<rparr>))
            else
              (let s = parseDecimal startText;
                   e = (if endText = [] then fileSize - 1 else parseDecimal endText) in
               if e < s then fail
               else if fileSize = 0 \<or> fileSize \<le> s then fail
               else Inr \<lparr> start = s, endp = min e (fileSize - 1) \<rparr>)))"

section \<open>What an accepted header selects\<close>

definition wf_range :: "byte_range \<Rightarrow> int \<Rightarrow> bool" where
  "wf_range r fileSize \<longleftrightarrow> 0 \<le> start r \<and> start r \<le> endp r \<and> endp r < fileSize"

lemma parseDecimal_nonneg: "0 \<le> parseDecimal t"
  by (simp add: parseDecimal_def MAX_SAFE_INTEGER_def)

lemma parseRange_wf:
  assumes "0 \<le> fileSize" and "parseRange header fileSize = Inr r"
  shows "wf_range r fileSize"
  using assms parseDecimal_nonneg
  by (auto simp: parseRange_def wf_range_def Let_def split: if_splits option.splits prod.splits)

text \<open>Headers as a client writes them.\<close>

definition rangeHeader :: "jstring \<Rightarrow> jstring \<Rightarrow> jstring" where
  "rangeHeader a b = rangeUnit @ a @ 45 # b"

lemma digits_no_space: "is_digit c \<Longrightarrow> \<not> js_space c"
  by (auto simp: is_digit_def js_space_def word_le_nat_alt word_unat_eq_iff)

lemma trim_idle:
  assumes "s \<noteq> []" and "\<not> js_space (hd s)" and "\<not> js_space (last s)"
  shows "js_trim s = s"
proof -
  have "dropWhile js_space s = s" using assms(1,2) by (cases s) auto
  moreover have "dropWhile js_space (rev s) = rev s"
    using assms(1,3) by (cases s rule: rev_cases) auto
  ultimately show ?thesis by (simp add: js_trim_def)
qed

lemma rangePattern_header:
  assumes "\<forall>d\<in>set a. is_digit d" and "\<forall>d\<in>set b. is_digit d"
  shows "rangePattern (rangeHeader a b) = Some (a, b)"
proof -
  have n: "\<not> is_digit 45" by (rule minus_not_digit)
  have "takeWhile is_digit (a @ 45 # b) = a" "dropWhile is_digit (a @ 45 # b) = 45 # b"
    using assms(1) n by (simp_all add: takeWhile_append2 dropWhile_append2)
  moreover have "map lower_ascii rangeUnit = rangeUnit"
    by (simp add: rangeUnit_def lower_ascii_def)
  ultimately show ?thesis
    using assms(2) by (simp add: rangePattern_def rangeHeader_def rangeUnit_def)
qed

lemma trim_header:
  assumes "\<forall>d\<in>set b. is_digit d"
  shows "js_trim (rangeHeader a b) = rangeHeader a b"
proof (rule trim_idle)
  show "\<not> js_space (last (rangeHeader a b))"
  proof (cases b rule: rev_cases)
    case Nil
    then show ?thesis by (simp add: rangeHeader_def js_space_def)
  next
    case (snoc ys y)
    with assms show ?thesis by (simp add: rangeHeader_def digits_no_space)
  qed
qed (simp_all add: rangeHeader_def rangeUnit_def js_space_def)

lemma header_no_comma:
  assumes "\<forall>d\<in>set a. is_digit d" and "\<forall>d\<in>set b. is_digit d"
  shows "44 \<notin> set (rangeHeader a b)"
proof -
  have "\<not> is_digit 44" by (simp add: is_digit_def)
  with assms show ?thesis by (auto simp: rangeHeader_def rangeUnit_def)
qed

lemma parseRange_header:
  assumes "\<forall>d\<in>set a. is_digit d" and "\<forall>d\<in>set b. is_digit d" and "a \<noteq> []" and "b \<noteq> []"
    and "0 < fileSize" and "fileSize \<le> MAX_SAFE_INTEGER"
  shows "parseRange (rangeHeader a b) fileSize =
    (if dec_value a \<le> dec_value b \<and> int (dec_value a) < fileSize
     then Inr \<lparr> start = int (dec_value a), endp = min (int (dec_value b)) (fileSize - 1) \<rparr>
     else Inl (Node (VfsRangeNotSatisfiableError (rangeHeader a b) fileSize)))"
  using assms rangePattern_header [OF assms(1,2)] trim_header [OF assms(2), of a]
    header_no_comma [OF assms(1,2)]
  by (simp add: parseRange_def Let_def parseDecimal_def min_def)

lemma parseRange_suffix:
  assumes "\<forall>d\<in>set b. is_digit d" and "b \<noteq> []" and "0 < fileSize" and "fileSize \<le> MAX_SAFE_INTEGER"
    and "0 < dec_value b"
  shows "parseRange (rangeHeader [] b) fileSize =
    Inr \<lparr> start = max (fileSize - int (dec_value b)) 0, endp = fileSize - 1 \<rparr>"
  using assms rangePattern_header [of "[]" b] trim_header [OF assms(1), of "[]"]
    header_no_comma [of "[]" b]
  by (simp add: parseRange_def Let_def parseDecimal_def min_def max_def)

end
