(* ===== verification/Spec2Isabelle.thy ===== *)
theory Spec2Isabelle
  imports UploadExample CollectorFacts OwnershipHistory FeedExample Commands ExtractRead Ending Conditionals Range Quota
begin

text \<open>
  A verification development for Storix, a storage server that keeps virtual file systems
  (\<open>apps/api/src\<close>; file names below are relative to it). A client addresses files and directories of a
  namespace by path; the server keeps the tree as rows of a SQL database and the contents as objects
  of an S3 store. Blobs are shared between files and counted; removals go to a trash; every mutation is
  a database transaction that maintains counters, quotas, versions and a journal of changes; uploads
  can be resumed part by part; a collector deletes what nobody names any more.

  \<^bold>\<open>How the model is built.\<close>
  A table is the list of its rows, a row is a record with the columns of the entity, and a statement is a
  function on tables that fails where a constraint of the schema would (\<open>Store\<close>). Code that may throw
  and changes state is a program \<open>'s \<Rightarrow> ('e + 'a) \<times> 's\<close> (\<open>Prelude\<close>), the error on the left, built with \<open>bind\<close>,
  \<open>throwIf\<close>, \<open>forEach\<close> as the source sequences its \<open>await\<close>s; a transaction undoes its statements on an error.
  Strings are lists of 16-bit code units as in JavaScript. BIGINT columns are \<open>int\<close>, with the bounds of the column
  or of \<open>Number.MAX_SAFE_INTEGER\<close> written where the source checks them. Clocks, new UUIDs, Unicode
  normalisation, SHA-256 and HMAC, the object store and the settings are arguments.

  \<^bold>\<open>Text formats and policies.\<close>
  \<^item> \<open>Prelude\<close>, \<open>Entities\<close>, \<open>Errors\<close>: strings, UTF-8 lengths, keyed tables; the rows of
    \<open>persistence/entities\<close>; the errors of \<open>vfs/vfs.errors.ts\<close> with their HTTP status.
  \<^item> \<open>Path\<close> (\<open>vfs/path-resolver.ts\<close>, the helpers of the node repository), \<open>Decimal\<close>, \<open>Range\<close> (\<open>vfs/range.ts\<close>),
    \<open>Revision\<close> (\<open>vfs/revision.ts\<close>), \<open>Quota\<close> (\<open>vfs/namespace-quota.ts\<close>, \<open>common/resource-limit.ts\<close>, \<open>common/env-parsing.ts\<close>).
    Shown: resolved paths are canonical and resolving is idempotent, path comparison is a total order
    that puts a directory before its contents, tokens and numbers are read back as written, accepted
    ranges lie inside the file, accepted limits are ordered and fit their columns.
  \<^item> \<open>Commands\<close> (\<open>vfs/dto/conditional-mutation-request.dto.ts\<close>, \<open>vfs/file-expiry-policy.ts\<close>, \<open>vfs/mime.ts\<close>): the
    commands a JSON body can be parsed to are exactly the well-typed ones.

  \<^bold>\<open>The node repository\<close> (\<open>persistence/vfs-node.repository.*.ts\<close>).
  \<^item> \<open>Store\<close>, \<open>Feed\<close>, \<open>Core\<close>: the database and the state of a transaction, the change journal
    (\<open>persistence/vfs-change-feed-journal.ts\<close>), \<open>withMutation\<close> with namespace lock, ancestor marking,
    counters, limits and quota.
  \<^item> \<open>Files\<close>, \<open>Copying\<close>, \<open>Trash\<close>, \<open>Conditionals\<close>: mkdir, touch, put, move; copy; removal, trash, purge, restore and
    expiry; the operations conditional on a revision.
  \<^item> \<open>Tables\<close>, \<open>Ledger\<close>, \<open>Steps\<close>, \<open>Walk\<close>, \<open>FileBooks\<close>, \<open>Moving\<close>, \<open>Commit\<close>, \<open>Subtree\<close>, \<open>Removal\<close>, \<open>CopyBooks\<close>, \<open>Restoring\<close>,
    \<open>ConditionalBooks\<close>: the invariant \<open>consistent\<close> (schema constraints, the nodes form a forest, every
    counter equals what the rows add up to, every reference count is the number of names of the Blob)
    and the ledger that carries it through a transaction, in which counters and rows differ by recorded
    deltas. An operation is verified against the contract \<open>balanced_work\<close> and interpreted once.
  \<^item> \<open>Passing\<close>, \<open>History\<close>: what every program keeps, also when it throws; any sequence of mutations keeps
    \<open>consistent\<close> (locales \<open>passing\<close> and \<open>steady_work\<close>, interpreted for each request).
  \<^item> \<open>Views\<close>, \<open>Refinement\<close>: the abstract state is a map from paths to folders and documents; mkdir, touch,
    put, move and remove refine updates of that map.
  \<^item> \<open>Enforcement\<close>, \<open>Ending\<close>: limits hold at commit, Blobs in use are counted, the journal has no gaps,
    and walks and loops end within their fuel.

  \<^bold>\<open>Resumable uploads\<close> (\<open>persistence/vfs-upload-session.repository.ts\<close>, \<open>vfs/upload-session-policy.ts\<close>, parts of the services).
  \<open>Uploads\<close>, \<open>UploadPolicy\<close> and \<open>UploadSessions\<close> model rows, policy and every method of the repository;
  \<open>UploadBooks\<close>, \<open>UploadMoves\<close> and \<open>UploadParts\<close> hold the invariant \<open>booksOk\<close> (usage rows equal live sessions and
  staged bytes, up to given lost bytes) and the contract \<open>upload_work\<close>. In \<open>UploadHistory\<close> the methods interleave
  with a pruning run, which lists sessions and then visits each in a transaction of two statements that
  takes no lock. On SQLite such a transaction is one step; on PostgreSQL other transactions may commit
  between its count and its deletion, and the configuration records the charged parts the deletion then
  drops. \<open>UploadFacts\<close> shows that caps hold, that a creation can be retried and what a tombstone refunds;
  \<open>UploadClaims\<close> (locale \<open>session_frame\<close>, interpreted for claims and for creation keys) that a claim stands and a
  session keeps its key through every history.

  \<^bold>\<open>The collector\<close> (\<open>jobs/gc-budget.ts\<close>, \<open>jobs/gc-stage.ts\<close>, \<open>jobs/gc.job.ts\<close>, \<open>persistence/gc-cursor.repository.ts\<close>,
  \<open>persistence/blob.repository.ts\<close>). \<open>Stages\<close> and \<open>Keyset\<close> model budgets and keyset pagination (locales \<open>keyset\<close> and
  \<open>keyset_stage\<close>); \<open>Dormant\<close> and \<open>Lasting\<close> show that a count of zero stays zero and that Blobs in use stay
  (locales \<open>resting_work\<close>, \<open>lasting\<close>); \<open>Collector\<close> and \<open>CollectorFacts\<close> show that the collector spares what
  is in use although it takes no lock, and that it gets through its work.

  \<^bold>\<open>Protocols between requests.\<close>
  \<^item> \<open>Ownership\<close>, \<open>OwnershipHistory\<close> (\<open>persistence/storage-put-ownership.repository.ts\<close>,
    \<open>storage/put-protected-blob-storage.ts\<close>, \<open>jobs/owned-multipart-cleanup.ts\<close>): a step relation over the calls of
    writers and collectors; a transfer to a key and an abort under it exclude each other.
  \<^item> \<open>Receipts\<close>, \<open>MutationService\<close>, \<open>ReceiptHistory\<close>, \<open>RequestOutcome\<close> (\<open>persistence/vfs-mutation-receipt.repository.ts\<close>,
    \<open>vfs/mutation-receipt.ts\<close>, \<open>vfs/mutation.service.ts\<close>): statements of concurrent requests interleave; a repeated
    request is answered from its receipt and executed once, and a request is all or nothing.
  \<^item> \<open>FeedRetention\<close>, \<open>FeedCursor\<close>, \<open>FeedService\<close> (\<open>persistence/vfs-change-feed-retention.repository.ts\<close>,
    \<open>vfs/change-feed-cursor.ts\<close>, \<open>vfs/change-feed.service.ts\<close>): a reader with a cursor sees the slice of an
    append-only log that follows it, or learns that it has been pruned.

  \<^bold>\<open>Extraction of archives\<close> (\<open>vfs/extract-*.ts\<close>, \<open>vfs/archive-entry-name.ts\<close>, \<open>readEntries\<close> of \<open>vfs/extract.service.ts\<close>).
  \<open>Exclude\<close>: the compiled patterns mean the usual globs and matching ends. \<open>EntryPlan\<close>, \<open>EntryTrie\<close>,
  \<open>EntrySafety\<close>: the planner with its trie implements a comparison with all earlier entries.
  \<open>ExtractRead\<close>: what is read to the end stays below the destination and within the limits.

  \<open>Example\<close>, \<open>UploadExample\<close>, \<open>ReceiptExample\<close> and \<open>FeedExample\<close> hold the concrete databases on which the
  theorems are exercised.

  \<^bold>\<open>Fuel.\<close>
  Walks towards the root (\<open>markWalk\<close>, \<open>pathToRoot\<close>, \<open>resolveFeedNode\<close>, \<open>ancestorsIn\<close>) take the length of the node
  table, plus one, as fuel: on a forest each step leaves a row behind, so they end before it is used
  up (\<open>Ending\<close>). The queue of a copy takes one turn for each directory captured, at most one more than
  the rows (\<open>copy_directory_loop_returns\<close>). The recursive query of a subtree is bounded by its own \<open>LIMIT\<close>. The
  matching loop of \<open>Exclude\<close> is a \<open>while_option\<close> proved to end. Elsewhere recursion is structural. A model that ran
  out of fuel would answer the error \<open>NoReturn\<close>.

  \<^bold>\<open>What is assumed.\<close>
  New UUIDs are distinct from those in use. Transactions on one namespace are serialised by the lock
  that \<open>withMutation\<close> takes first, so a history is a sequence of them; statements of receipts, ownership
  and pruning, which take no such lock, are interleaved explicitly. The methods of the upload repository
  run one after the other: those that count lock the usage rows of server and namespace first, the others
  change sessions or parts in one conditional statement. The listing of the object
  store returns the objects it holds. An administrator confirms as stopped only a process that has
  stopped. A MAC has 32 bytes; that it cannot be forged is not used.

  \<^bold>\<open>Not modelled.\<close>
  Streams, the ZIP and tar readers and writers, encryption, the S3 client and the HTTP layer: input and
  output, of which the code above sees the results that are arguments here. The text of JSON, for
  which its value stands. Row locks and advisory locks beyond the order they impose, the queue in front
  of SQLite, metrics, logs and the counts a job reports. \<open>applyExtract\<close>, snapshots, listings, the
  selection of what the retention jobs expire, and the life cycle of namespaces: they use the operations
  verified here. Backup, secrets and the companion applications.
\<close>

section \<open>Histories\<close>

text \<open>
  C1: whatever sequence of mutations the repository serves for a namespace, successful or refused,
  each with its own clock readings, limits and starting directory, the database stays consistent:
  the node table is a forest that satisfies its constraints, the namespace's counters of live nodes,
  live bytes and retained trash and every folder's counter of files equal what the rows add up to,
  and every Blob's reference count is the number of live nodes, trash entries and snapshot entries
  that name it.
\<close>

theorem history_consistent:
  assumes "history gen ns (d, k) (d', k')" and "env_uuid env = gen" and "consistent ns d" and "freshIds env k d"
  shows "consistent ns d'"
  using history_sound [OF assms(1,2)] assms(3,4) by simp

theorem history_consistent_witness:
  "\<exists>d' k'. serve exEnv exNs exRootId (EnsureDirectory [js ''a''] False) (exDb, 1) = (Inr (), (d', k')) \<and> consistent exNs d'"
proof -
  from mkdir_run obtain rec d' k' where
    "mutate exEnv exNs exRootId (ensureDirectory exEnv exNs exRootId [js ''a''] False) (exDb, 1) = (Inr (rec, True), (d', k'))"
    by blast
  then have s: "serve exEnv exNs exRootId (EnsureDirectory [js ''a''] False) (exDb, 1) = (Inr (), (d', k'))"
    by (simp add: unitP_def bind_def ret_def)
  have "history (env_uuid exEnv) exNs (exDb, 1) (d', k')" by (rule history.step [OF history.start refl s])
  from history_consistent [OF this refl exDb_consistent exDb_fresh] s show ?thesis by blast
qed

text \<open>
  C6: after any history, a Blob that a live node, a trash entry or a snapshot entry names has a row,
  and the row's reference count is positive, so a collector that deletes Blobs with a count of zero
  never takes content that is still in use.
\<close>

theorem blob_in_use_is_counted:
  assumes "history gen ns (d, k) (d', k')" and "env_uuid env = gen" and "consistent ns d" and "freshIds env k d"
    and "n \<in> set (nodes d') \<and> n_blobId n = Some b \<or> e \<in> set (trashEntries d') \<and> e_blobId e = Some b
      \<or> q \<in> set (snapshotEntries d') \<and> q_blobId q = Some b"
  shows "\<exists>x\<in>set (blobs d'). b_id x = b \<and> 0 < b_referenceCount x"
proof -
  have "consistent ns d'" using history_sound [OF assms(1,2)] assms(3,4) by simp
  then show ?thesis using assms(5) by (rule blob_positive)
qed

theorem blob_in_use_is_counted_witness:
  "\<exists>d' k' n b. history (env_uuid exEnv) exNs (exDb, 1) (d', k') \<and> n \<in> set (nodes d') \<and> n_blobId n = Some b \<and>
     (\<exists>x\<in>set (blobs d'). b_id x = b \<and> 0 < b_referenceCount x)"
proof -
  from put_run obtain rec d' k' where
    run: "mutate exEnv exNs exRootId (putFileContent exEnv exNs exRootId [js ''a''] False exContent None False None) (exDb, 1)
      = (Inr (CreatedNode rec), (d', k'))" by blast
  then have s: "serve exEnv exNs exRootId (PutFileContent [js ''a''] False exContent None False None) (exDb, 1) = (Inr (), (d', k'))"
    by (simp add: unitP_def bind_def ret_def)
  have h: "history (env_uuid exEnv) exNs (exDb, 1) (d', k')" by (rule history.step [OF history.start refl s])
  obtain b where "viewOf exNs exRootId d' [js ''a''] = Some (written (viewOf exNs exRootId exDb) [js ''a''] b None)"
    using put_view [OF run exDb_consistent exDb_fresh] by auto
  then obtain n where r: "resolvePathInManager exNs exRootId [js ''a''] (nodes d') = Some n"
      and i: "itemOf n = written (viewOf exNs exRootId exDb) [js ''a''] b None" by (auto simp: viewOf_def)
  have "n_blobId n = Some (b_id b)" using i by (cases "n_type n") (simp_all add: itemOf_def written_def)
  then have n: "n \<in> set (nodes d') \<and> n_blobId n = Some (b_id b)" using resolvePath_in [OF r] by simp
  from h n blob_in_use_is_counted [OF h refl exDb_consistent exDb_fresh disjI1 [OF n]] show ?thesis by blast
qed

section \<open>The file tree a client sees\<close>

text \<open>
  C2: a successful move refines the relocation of a subtree. Missing folders above the destination
  are created first; then everything at or below the source is found at the landing path (inside the
  destination when that is a folder and the exact path was not asked for) and nowhere else, nothing
  else changes, nothing was there before, and the landing path is not inside the source.
\<close>

theorem move_refines:
  assumes "mutate env ns rootId (moveNode env ns rootId src dst parents limit exact) (d, k) = (Inr (rec, path), (d', k'))"
    and "consistent ns d" and "freshIds env k d"
  shows "let v = viewOf ns rootId d; fin = landing v src dst exact in
    viewOf ns rootId d' = relocate src fin (mkdirs (butlast dst) v) \<and> path = joinSegments fin \<and>
    mkdirs (butlast dst) v src \<noteq> None \<and> mkdirs (butlast dst) v fin = None \<and> \<not> prefix src (butlast fin)"
  using move_view [OF assms] unfolding Let_def by blast

theorem move_refines_witness:
  "\<exists>rec d' k'. mutate exEnv exNs exRootId (moveNode exEnv exNs exRootId [js ''a''] [js ''b''] False 10 False) (exDb1, 2)
      = (Inr (rec, joinSegments [js ''b'']), (d', k')) \<and>
    viewOf exNs exRootId d' = relocate [js ''a''] [js ''b''] (viewOf exNs exRootId exDb1)"
proof -
  from move_run obtain rec d' k' where
    run: "mutate exEnv exNs exRootId (moveNode exEnv exNs exRootId [js ''a''] [js ''b''] False 10 False) (exDb1, 2)
      = (Inr (rec, joinSegments [js ''b'']), (d', k'))" by blast
  have "viewOf exNs exRootId exDb1 [js ''b''] = None" "viewOf exNs exRootId exDb1 [] = Some Folder"
    by (simp_all add: viewOf_def resolvePathInManager_def itemOf_def run_simps)
  then have "landing (viewOf exNs exRootId exDb1) [js ''a''] [js ''b''] False = [js ''b'']"
    "mkdirs [] (viewOf exNs exRootId exDb1) = viewOf exNs exRootId exDb1"
    by (simp add: landing_def, intro mkdirs_idle, simp)
  with move_refines [OF run exDb1_consistent exDb1_fresh]
  have "viewOf exNs exRootId d' = relocate [js ''a''] [js ''b''] (viewOf exNs exRootId exDb1)" by (simp add: Let_def)
  with run show ?thesis by blast
qed

text \<open>
  C3: a successful put refines the update of one path. Missing folders above it are created, the
  path then shows a document whose Blob row stores the content sent (key, size, type, digest and
  initialisation vector) with one reference, a replaced document keeps its expiry, and every other
  path is as before. It reports a creation exactly when the path was free, which a caller with an
  expected version is refused, and replaces a document only for the expected version or by force.
\<close>

theorem put_refines:
  assumes "mutate env ns rootId (putFileContent env ns rootId segs parents c ifMatch force ex) (d, k) = (Inr out, (d', k'))"
    and "consistent ns d" and "freshIds env k d"
  shows "let v = viewOf ns rootId d in
    (\<exists>b\<in>set (blobs d'). stores b c \<and> viewOf ns rootId d' = (mkdirs (butlast segs) v)(segs \<mapsto> written v segs b ex)) \<and>
    (case out of CreatedNode _ \<Rightarrow> v segs = None \<and> ifMatch = None
     | ReplacedNode _ \<Rightarrow> v segs \<notin> {None, Some Folder} \<and> (ifMatch \<noteq> None \<or> force) | AbsentNode \<Rightarrow> False)"
  using put_view [OF assms] unfolding Let_def by blast

theorem put_refines_witness:
  "\<exists>rec d' k'. mutate exEnv exNs exRootId (putFileContent exEnv exNs exRootId [js ''a''] False exContent None False None) (exDb, 1)
      = (Inr (CreatedNode rec), (d', k')) \<and> (\<exists>b\<in>set (blobs d'). stores b exContent \<and>
        viewOf exNs exRootId d' [js ''a''] = Some (Document (Some (b_id b)) (Some 5) (Some (js ''t'')) None))"
proof -
  from put_run obtain rec d' k' where
    run: "mutate exEnv exNs exRootId (putFileContent exEnv exNs exRootId [js ''a''] False exContent None False None) (exDb, 1)
      = (Inr (CreatedNode rec), (d', k'))" by blast
  have "viewOf exNs exRootId exDb [js ''a''] = None"
    by (simp add: viewOf_def resolvePathInManager_def itemOf_def run_simps)
  with run put_refines [OF run exDb_consistent exDb_fresh] show ?thesis
    by (auto simp: Let_def written_def stores_def exContent_def)
qed

text \<open>
  C4: a successful removal refines pruning: the path existed and is not the root, it and everything
  below it is gone, and every other path is as before.
\<close>

theorem remove_refines:
  assumes "mutate env ns rootId (removeNode env ns rootId segs recursive limit) (d, k) = (Inr trashId, (d', k'))"
    and "consistent ns d" and "freshIds env k d"
  shows "viewOf ns rootId d' = prune segs (viewOf ns rootId d) \<and> viewOf ns rootId d segs \<noteq> None \<and> segs \<noteq> []"
  using remove_view [OF assms] by blast

theorem remove_refines_witness:
  "\<exists>i d' k'. mutate exEnv exNs exRootId (removeNode exEnv exNs exRootId [js ''a''] False 10) (exDb1, 2) = (Inr (Some i), (d', k')) \<and>
     viewOf exNs exRootId d' = prune [js ''a''] (viewOf exNs exRootId exDb1) \<and> viewOf exNs exRootId exDb1 [js ''a''] \<noteq> None"
proof -
  from remove_run obtain i d' k' where
    run: "mutate exEnv exNs exRootId (removeNode exEnv exNs exRootId [js ''a''] False 10) (exDb1, 2) = (Inr (Some i), (d', k'))" by blast
  from run remove_refines [OF run exDb1_consistent exDb1_fresh] show ?thesis by blast
qed

text \<open>
  C5: a successful mkdir refines the creation of every missing folder on the path: the path then
  shows a folder, the call says whether it created it, without \<open>parents\<close> it always did, and no
  other path changes.
\<close>

theorem mkdir_refines:
  assumes "mutate env ns rootId (ensureDirectory env ns rootId segs parents) (d, k) = (Inr (rec, created), (d', k'))"
    and "consistent ns d" and "freshIds env k d"
  shows "viewOf ns rootId d' = mkdirs segs (viewOf ns rootId d) \<and> viewOf ns rootId d' segs = Some Folder \<and>
    (created \<longleftrightarrow> viewOf ns rootId d segs = None) \<and> (\<not> parents \<longrightarrow> created)"
  using mkdir_view [OF assms] by blast

theorem mkdir_refines_witness:
  "\<exists>rec d' k'. mutate exEnv exNs exRootId (ensureDirectory exEnv exNs exRootId [js ''a''] False) (exDb, 1) = (Inr (rec, True), (d', k')) \<and>
     viewOf exNs exRootId d' = mkdirs [js ''a''] (viewOf exNs exRootId exDb) \<and> viewOf exNs exRootId exDb [js ''a''] = None"
proof -
  from mkdir_run obtain rec d' k' where
    run: "mutate exEnv exNs exRootId (ensureDirectory exEnv exNs exRootId [js ''a''] False) (exDb, 1) = (Inr (rec, True), (d', k'))"
    by blast
  from run mkdir_refines [OF run exDb_consistent exDb_fresh] show ?thesis by blast
qed



section \<open>Limits\<close>

text \<open>
  C8: a transaction that commits and adds live nodes leaves the namespace within its limit of live
  nodes, and one that adds bytes that count leaves it within its quota; both limits are the
  namespace's own, cut at the server's ceiling, or else the server's default.
\<close>

theorem commit_within_limits:
  assumes "commitMutation env v (\<lambda>_. ret ()) s = (Inr r, t)"
    and "findNamespace (x_namespaceId s) (namespaces (x_db s)) = Some z"
  shows "\<exists>z'. findNamespace (x_namespaceId s) (namespaces (x_db t)) = Some z' \<and>
    ns_liveNodeCount z' = ns_liveNodeCount z + x_liveNodeDelta s \<and>
    (0 < x_liveNodeDelta s \<longrightarrow> ns_liveNodeCount z' \<le> effectiveLimit (ns_maxLiveNodes z') (env_maxLiveNodes env) (env_defaultMaxLiveNodes env)) \<and>
    (0 < enforcedGrowth s z \<longrightarrow> (\<exists>limit. quotaOf env z' = Inr limit \<and> enforcedBytes z' \<le> limit))"
  by (rule commit_enforces [OF assms]) blast

theorem commit_within_limits_witness:
  "\<exists>r t z'. commitMutation exEnv () (\<lambda>_. ret ()) ((initTx exNs exRootId False exDb 1)\<lparr> x_liveFileByteDelta := 5 \<rparr>) = (Inr r, t) \<and>
     findNamespace exNs (namespaces (x_db t)) = Some z' \<and> enforcedBytes z' \<le> 1000"
proof -
  let ?s = "(initTx exNs exRootId False exDb 1)\<lparr> x_liveFileByteDelta := 5 \<rparr>"
  have "\<exists>r t. commitMutation exEnv () (\<lambda>_. ret ()) ?s = (Inr r, t)"
    by (simp add: run_simps)
  then obtain r t where c: "commitMutation exEnv () (\<lambda>_. ret ()) ?s = (Inr r, t)" by blast
  have z: "findNamespace (x_namespaceId ?s) (namespaces (x_db ?s)) = Some exNamespace" by (simp add: run_simps)
  have "0 < enforcedGrowth ?s exNamespace" by (simp add: enforcedGrowth_def initTx_def exNamespace_def)
  with commit_within_limits [OF c z] obtain z' limit where z': "findNamespace exNs (namespaces (x_db t)) = Some z'"
    and q: "quotaOf exEnv z' = Inr limit" "enforcedBytes z' \<le> limit" by (auto simp: initTx_def)
  have "quotaOf exEnv z' = Inr 1000"
    using c z' by (auto simp: run_simps quotaOf_def)
  with q have "enforcedBytes z' \<le> 1000" by simp
  with z' c show ?thesis by blast
qed

text \<open>
  C12: a transaction that adds no bytes that count is never refused for the quota, however far over
  its quota the namespace already is, so a client can always delete.
\<close>

theorem shrinking_is_not_refused:
  assumes "applyLogicalByteQuota env s = (Inl e, t)"
    and "findNamespace (x_namespaceId s) (namespaces (x_db s)) = Some z" and "enforcedGrowth s z \<le> 0"
  shows "e \<noteq> Limit (VfsQuotaExceededError limit actual)"
  using applyLogicalByteQuota_shrinks [OF assms] by blast

theorem shrinking_is_not_refused_witness:
  "\<exists>e t. applyLogicalByteQuota exEnv ((initTx exNs exRootId False exDb 1)\<lparr> x_liveFileByteDelta := - 5 \<rparr>) = (Inl e, t) \<and>
     e \<noteq> Limit (VfsQuotaExceededError 1000 0)"
proof -
  let ?s = "(initTx exNs exRootId False exDb 1)\<lparr> x_liveFileByteDelta := - 5 \<rparr>"
  have "\<exists>e t. applyLogicalByteQuota exEnv ?s = (Inl e, t)" by (simp add: run_simps)
  then obtain e t where a: "applyLogicalByteQuota exEnv ?s = (Inl e, t)" by blast
  have "findNamespace (x_namespaceId ?s) (namespaces (x_db ?s)) = Some exNamespace" by (simp add: run_simps)
  from shrinking_is_not_refused [OF a this] a show ?thesis by (auto simp: enforcedGrowth_def initTx_def exNamespace_def)
qed

section \<open>The change feed\<close>

text \<open>
  C23: the events a transaction appends take the sequence numbers right after the namespace's last
  one, without a gap and in order, the state records the last of them, and all of them carry the
  transaction's operation id and its number of events.
\<close>

theorem feed_is_gapless:
  assumes "appendChangeFeedEvents env ns before ids s = (Inr u, t)" and "readChangeFeedState ns (feedStates (x_db s)) = Some st"
  shows "\<exists>new st'. events (x_db t) = events (x_db s) @ new \<and> readChangeFeedState ns (feedStates (x_db t)) = Some st' \<and>
    map v_sequence new = map (\<lambda>k. f_lastSequence st + int k + 1) [0..<length new] \<and>
    f_lastSequence st' = f_lastSequence st + int (length new) \<and>
    (\<forall>e\<in>set new. v_namespaceId e = ns \<and> v_operationCount e = length new) \<and>
    (\<forall>e\<in>set new. \<forall>e'\<in>set new. v_operationId e = v_operationId e')"
  using assms by (rule append_sequence)

theorem feed_is_gapless_witness:
  "\<exists>t. appendChangeFeedEvents exEnv exNs [] [exRootId] ((initTx exNs exRootId True exDb 1)\<lparr> x_db := exDb\<lparr> feedStates := [exFeed] \<rparr> \<rparr>) = (Inr (), t) \<and>
     map v_sequence (events (x_db t)) = [8]"
proof -
  let ?s = "(initTx exNs exRootId True exDb 1)\<lparr> x_db := exDb\<lparr> feedStates := [exFeed] \<rparr> \<rparr>"
  have "\<exists>t. appendChangeFeedEvents exEnv exNs [] [exRootId] ?s = (Inr (), t) \<and> length (events (x_db t)) = 1"
    by (simp add: run_simps feed_simps)
  then obtain t where t: "appendChangeFeedEvents exEnv exNs [] [exRootId] ?s = (Inr (), t)" "length (events (x_db t)) = 1" by blast
  have st: "readChangeFeedState exNs (feedStates (x_db ?s)) = Some exFeed" by (simp add: readChangeFeedState_def findRow_def exFeed_def)
  have none: "events (x_db ?s) = []" by (simp add: exDb_def)
  from feed_is_gapless [OF t(1) st] obtain new where new: "events (x_db t) = events (x_db ?s) @ new"
    "map v_sequence new = map (\<lambda>k. f_lastSequence exFeed + int k + 1) [0..<length new]" by (elim exE conjE) (rule that)
  with none t(2) have "length new = 1" "events (x_db t) = new" by simp_all
  with new(2) have seq: "map v_sequence (events (x_db t)) = [8]" by (simp add: exFeed_def)
  show ?thesis by (rule exI) (rule conjI [OF t(1) seq])
qed

section \<open>Walks end\<close>

text \<open>
  C24: marking the ancestors of a node of the namespace always returns: the walk towards the root
  and the capture of the change feed's before-images end within the fuel and find every row.
\<close>

theorem ancestors_are_marked:
  assumes "ledger env s dn db df own" and "n \<in> set (t_nodes s)" and "n_namespaceId n = x_namespaceId s"
  shows "\<exists>t. markAncestorChain (n_id n) s = (Inr (), t)"
  using assms by (rule markAncestorChain_ends)

theorem ancestors_are_marked_witness:
  "\<exists>t. markAncestorChain (n_id exFolder) (initTx exNs exRootId True exDb1 2) = (Inr (), t)"
  using ancestors_are_marked [OF books_init [OF exDb1_consistent exDb1_fresh], of exFolder exRootId True]
  by (simp add: initTx_def exDb1_def exFolder_def)

text \<open>
  C25: the path the expiry of a file rebuilds from the node upwards is found within the fuel and ends
  at a root of the namespace.
\<close>

theorem expiry_path_is_found:
  assumes "validNodes tbl bl" and "grounded tbl" and "n \<in> set tbl" and "n_namespaceId n = ns"
  shows "\<exists>segs r. pathToRoot ns tbl (Suc (length tbl)) n [] = Inr (segs, n_id r) \<and> r \<in> set tbl \<and> n_namespaceId r = ns \<and>
    n_parentId r = None"
proof -
  from assms(2) obtain h where h: "ranked h tbl" by (auto simp: grounded_def)
  have "card (above h tbl (n_id n)) \<le> Suc (length tbl)" using above_bound [of h tbl "n_id n"] by simp
  from pathToRoot_ends [OF assms(1) h assms(3,4) this, of "[]"] show ?thesis by auto
qed

theorem expiry_path_is_found_witness:
  "\<exists>segs (r :: node). pathToRoot exNs (nodes exDb1) (Suc (length (nodes exDb1))) exFolder [] = Inr (segs, n_id r) \<and>
    n_parentId r = None"
proof -
  have t: "validNodes (nodes exDb1) (blobs exDb1)" "grounded (nodes exDb1)"
    using exDb1_consistent by (simp_all add: consistent_def rowsOk_def)
  have "exFolder \<in> set (nodes exDb1)" "n_namespaceId exFolder = exNs" by (simp_all add: exDb1_def exFolder_def)
  from expiry_path_is_found [OF t this] show ?thesis
  proof (elim exE conjE)
    fix segs and r :: node
    assume a: "pathToRoot exNs (nodes exDb1) (Suc (length (nodes exDb1))) exFolder [] = Inr (segs, n_id r)" "n_parentId r = None"
    show ?thesis by (rule exI [of _ segs], rule exI [of _ r]) (rule conjI [OF a])
  qed
qed

text \<open>
  C13: the rows a removal captures, when they are not more than the limit, are exactly the node at
  the path and everything below it, each once: the bounded recursive query agrees with the
  unbounded definition of a subtree.
\<close>

theorem removal_captures_subtree:
  assumes "captureSnapshotRows segs limit s = (Inr rows, t)" and "ledger env s dn db df own"
    and "resolvePathInManager (x_namespaceId s) (x_rootId s) segs (t_nodes s) = Some n"
    and "n_namespaceId n = x_namespaceId s" and "n_parentId n \<noteq> None" and "int (length rows) \<le> limit"
  shows "set (map s_id rows) = {i. below (t_nodes s) (n_id n) i} \<and> distinct (map s_id rows)"
  using captured_subtree [OF assms(1,2,3,4,5) resolvePath_in [OF assms(3)] assms(6)] by blast

theorem removal_captures_subtree_witness:
  "\<exists>rows t. captureSnapshotRows [js ''a''] 10 (initTx exNs exRootId False exDb1 2) = (Inr rows, t) \<and>
     set (map s_id rows) = {i. below (nodes exDb1) (uuidNo 1) i}"
proof -
  let ?s = "initTx exNs exRootId False exDb1 2"
  have "\<exists>rows t. captureSnapshotRows [js ''a''] 10 ?s = (Inr rows, t) \<and> length rows = 1"
    by (simp add: run_simps captureSnapshotRows_def resolvePathInManager_def childPaths_def childrenOf_def dot_def sortBy_def)
  then obtain rows t where c: "captureSnapshotRows [js ''a''] 10 ?s = (Inr rows, t)" "length rows = 1" by blast
  have "resolvePathInManager (x_namespaceId ?s) (x_rootId ?s) [js ''a''] (t_nodes ?s) = Some exFolder"
    by (simp add: run_simps resolvePathInManager_def)
  from removal_captures_subtree [OF c(1) books_init [OF exDb1_consistent exDb1_fresh] this] c
  show ?thesis by (auto simp: initTx_def exFolder_def)
qed

section \<open>Resumable uploads\<close>

text \<open>
  C14: through every interleaving of the upload repository's methods, successful or failing, with the
  statements of pruning runs, the usage rows account for the sessions and parts: for the server and
  for every namespace the counter of active sessions is the number of sessions that are open or being
  finalised, and the counter of staged bytes is the size of the parts not yet deleted plus that of the
  tombstones, plus the bytes of the charged parts that pruning has dropped. On SQLite, where a
  transaction runs alone, pruning drops none, so the counters are exact. On PostgreSQL it can: a late
  writer charges a part again between the count and the deletion, as in the history of the witness.
\<close>

theorem upload_usage_is_accounted:
  assumes "uploadHistory sqlite (u, [], known, []) (v, pending, known', dropped)" and "uploadsOk u" and "ss_id ` set (u_sessions u) \<subseteq> known"
  shows "usedActive v sc = activeIn v sc \<and> usedBytes v sc = stagedIn v sc + lostBytes dropped sc \<and> (sqlite \<longrightarrow> dropped = [])"
proof -
  have "configOk (v, pending, known', dropped)" by (rule uploadHistory_ok [OF assms(1)]) (simp add: configOk_def assms(2,3))
  moreover have "sqlite \<longrightarrow> dropped = []" using assms(1) uploadHistory_sqlite by fastforce
  ultimately show ?thesis by (simp add: configOk_def booksOk_def)
qed

theorem upload_usage_is_accounted_witness:
  "\<exists>v. uploadHistory False (exOpen 5, [], {uuidNo 7}, []) (v, [], {uuidNo 7}, [(exNs, 5)]) \<and>
     usedBytes v (Some exNs) = stagedIn v (Some exNs) + 5 \<and> usedBytes v None = stagedIn v None + 5"
proof -
  let ?h = "uploadHistory False (exOpen 5, [], {uuidNo 7}, [])" and ?c = "\<lambda>u pending. (u, pending, {uuidNo 7}, [])"
  have step: "?h (?c y pending)" if "?h (?c x pending)" "serveUpload r x = (Inr (), y)" "bornBy r = {}" for x y pending r
    using uploadHistory.step [OF that(1) uploadStep.request [OF _ that(2)]] that(3) by simp
  from late_writer_run obtain p v1 a v2 b v3 v4 c v5 v where
      reserve: "reservePart (uuidNo 7) 0 5 (js ''k'') exCaps 2000 60 (exOpen 5) = (Inr (PartReserved p), v1)"
    and release: "releasePartReservationAccounting (uuidNo 7) 0 True (Some (js ''k'')) 2100 v1 = (Inr a, v2)"
    and mark: "markStagingObjectDeletedDetailed (uuidNo 7) 0 (js ''k'') CLEANUP 2200 v2 = (Inr b, v3)"
    and cancel: "claimTerminalTransition exNs (uuidNo 7) CANCELLED 2300 v3 = (Inr True, v4)"
    and l: "prunableSessions 3000 10 v4 = [uuidNo 7]" and count: "countRemaining (uuidNo 7) v4 = (Inr 0, v4)"
    and late: "releasePartReservationAccounting (uuidNo 7) 0 True (Some (js ''k'')) 2400 v4 = (Inr c, v5)"
    and del: "deletePruned 3000 (uuidNo 7) v5 = (Inr 1, v)" and drop: "droppedBy 3000 (uuidNo 7) v5 = [(exNs, 5)]" by blast
  have "?h (?c v1 [])"
    by (rule step [OF uploadHistory.start, of "ReservePart (uuidNo 7) 0 5 (js ''k'') exCaps 2000 60"])
      (simp_all add: silently_def bind_def ret_def reserve)
  then have "?h (?c v2 [])"
    by (rule step [of _ _ "ReleaseReservation (uuidNo 7) 0 True (Some (js ''k'')) 2100"])
      (simp_all add: silently_def bind_def ret_def release)
  then have "?h (?c v3 [])"
    by (rule step [of _ _ "MarkStagingDeleted (uuidNo 7) 0 (js ''k'') CLEANUP 2200"]) (simp_all add: silently_def bind_def ret_def mark)
  then have "?h (?c v4 [])"
    by (rule step [of _ _ "CancelSession exNs (uuidNo 7) 2300"]) (simp_all add: silently_def bind_def ret_def cancel)
  from uploadHistory.step [OF this uploadStep.listing [of _ _ _ _ _ 3000 10]] l have "?h (?c v4 [Listed (uuidNo 7)])" by simp
  from uploadHistory.step [OF this uploadStep.counting [OF _ count]] have "?h (?c v4 [Counted (uuidNo 7)])" by simp
  then have "?h (?c v5 [Counted (uuidNo 7)])"
    by (rule step [of _ _ "ReleaseReservation (uuidNo 7) 0 True (Some (js ''k'')) 2400"]) (simp_all add: silently_def bind_def ret_def late)
  from uploadHistory.step [OF this uploadStep.deleting [OF _ del]] drop have h: "?h (v, [], {uuidNo 7}, [(exNs, 5)])" by simp
  have "ss_id ` set (u_sessions (exOpen 5)) \<subseteq> {uuidNo 7}" by (simp add: exOpen_def exInput_def newSession_def)
  from upload_usage_is_accounted [OF h exOpen_ok this]
  have "usedBytes v (Some exNs) = stagedIn v (Some exNs) + 5 \<and> usedBytes v None = stagedIn v None + 5"
    by (simp add: lostBytes_def inScope_def)
  with h show ?thesis by blast
qed

text \<open>
  C15: once an upload session has ended (completed, cancelled, expired or failed) no method of the
  repository changes its row, through every interleaving; it can only be deleted.
\<close>

theorem ended_upload_is_frozen:
  assumes "uploadHistory sqlite (u, [], known, []) (v, pending, known', dropped)" and "uploadsOk u" and "ss_id ` set (u_sessions u) \<subseteq> known"
    and "s \<in> set (u_sessions u)" and "ss_state s \<in> {COMPLETED, CANCELLED, EXPIRED, FAILED}"
    and "s' \<in> set (u_sessions v)" and "ss_id s' = ss_id s"
  shows "s' = s"
proof -
  have "configOk (u, [], known, [])" using assms(2,3) by (simp add: configOk_def)
  from uploadHistory_settled [OF assms(1) this] assms(4-7) show ?thesis by (simp add: terminal_def)
qed

theorem ended_upload_is_frozen_witness:
  "\<exists>u s. s \<in> set (u_sessions u) \<and> ss_state s = CANCELLED \<and> uploadsOk u \<and>
     (\<forall>sqlite v pending known' dropped. uploadHistory sqlite (u, [], {uuidNo 7}, []) (v, pending, known', dropped) \<longrightarrow>
       (\<forall>s'\<in>set (u_sessions v). ss_id s' = ss_id s \<longrightarrow> s' = s))"
proof -
  have "\<exists>u. claimTerminalTransition exNs (uuidNo 7) CANCELLED 2000 (exOpen 5) = (Inr True, u) \<and>
      u_sessions u = [endSession CANCELLED 2000 (newSession (exInput 5))]"
    by (simp add: claimTerminalTransition_def endSession_def upload_simps)
  then obtain u where run: "claimTerminalTransition exNs (uuidNo 7) CANCELLED 2000 (exOpen 5) = (Inr True, u)"
    and ss: "u_sessions u = [endSession CANCELLED 2000 (newSession (exInput 5))]" by blast
  have ok: "uploadsOk u" using cancel_work.effect [OF run exOpen_ok] by simp
  let ?s = "endSession CANCELLED 2000 (newSession (exInput 5))"
  have s: "?s \<in> set (u_sessions u)" "ss_state ?s \<in> {COMPLETED, CANCELLED, EXPIRED, FAILED}" "ss_id ` set (u_sessions u) \<subseteq> {uuidNo 7}"
    by (simp_all add: ss newSession_def exInput_def)
  have "\<forall>sqlite v pending known' dropped. uploadHistory sqlite (u, [], {uuidNo 7}, []) (v, pending, known', dropped) \<longrightarrow>
      (\<forall>s'\<in>set (u_sessions v). ss_id s' = ss_id ?s \<longrightarrow> s' = ?s)"
    using ended_upload_is_frozen [OF _ ok s(3,1,2)] by blast
  with s(1) ok show ?thesis by (intro exI [of _ u] exI [of _ ?s]) simp
qed

text \<open>
  C17: a part is reserved only within both caps on staged bytes, the server's and the namespace's, and
  the bytes it adds are counted at once, so concurrent uploads cannot exceed a cap together.
\<close>

theorem reservation_within_caps:
  assumes "reservePart i k amount key caps now lease u = (Inr (PartReserved p), v)" and "uploadsOk u"
  shows "\<exists>ns. owner (u_sessions u) i = Some ns \<and> stagedIn v None = stagedIn u None + amount \<and>
    stagedIn v (Some ns) = stagedIn u (Some ns) + amount \<and>
    stagedIn v None \<le> ul_maxStagedBytes (uc_global caps) \<and> stagedIn v (Some ns) \<le> ul_maxStagedBytes (uc_namespace caps)"
  by (rule reservePart_caps [OF assms]) blast

theorem reservation_within_caps_witness:
  "\<exists>p v. reservePart (uuidNo 7) 0 5 (js ''k'') exCaps 2000 60 (exOpen 5) = (Inr (PartReserved p), v) \<and> stagedIn v None \<le> 100"
proof -
  from reserve_run obtain p v where r: "reservePart (uuidNo 7) 0 5 (js ''k'') exCaps 2000 60 (exOpen 5) = (Inr (PartReserved p), v)" by blast
  from reservation_within_caps [OF r exOpen_ok] have "stagedIn v None \<le> 100" by (auto simp: exCaps_def)
  with r show ?thesis by blast
qed

text \<open>
  C18: a session is created only within both caps on active sessions.
\<close>

theorem creation_within_caps:
  assumes "createSession input caps u = (Inr (SessionCreated s), v)" and "uploadsOk u"
  shows "activeIn v None = activeIn u None + 1 \<and> activeIn v None \<le> ul_maxActiveSessions (uc_global caps) \<and>
    activeIn v (Some (ci_namespaceId input)) = activeIn u (Some (ci_namespaceId input)) + 1 \<and>
    activeIn v (Some (ci_namespaceId input)) \<le> ul_maxActiveSessions (uc_namespace caps)"
  using assms by (rule createSession_caps)

theorem creation_within_caps_witness:
  "createSession (exInput 5) exCaps exUploads = (Inr (SessionCreated (newSession (exInput 5))), exOpen 5) \<and> activeIn (exOpen 5) None \<le> 2"
  using creation_within_caps [OF create_run exUploads_ok, of 5] create_run [of 5] by (simp add: exCaps_def)

text \<open>
  C19: creation can be retried. A retry carries the same key and fingerprint but a fresh session id,
  fresh clock readings and whatever caps then hold. Sent right after the success it is answered with the
  session that was created, and changes nothing. Sent after any history of other requests and of pruning
  it is answered, when it is answered at all, with the row of that session as long as the row exists, and
  no session is created.
\<close>

theorem creation_is_idempotent:
  assumes "createSession input caps u = (Inr (SessionCreated s), v)" and "uploadsOk u" and "keysUnique u"
    and "sameCreation input input'" and "ss_id ` set (u_sessions v) \<subseteq> known"
    and "uploadHistory sqlite (v, [], known, []) (w, pending, known', dropped)" and "r \<in> set (u_sessions w)" and "ss_id r = ss_id s"
  shows "createSession input' caps' v = (Inr (SessionReplay s), v) \<and>
    (\<forall>out x. createSession input' caps' w = (Inr out, x) \<longrightarrow>
       out = SessionReplay r \<and> u_sessions x = u_sessions w \<and> u_parts x = u_parts w \<and> u_tombstones x = u_tombstones w)"
  using createSession_replay [OF assms(1,2,4)] creation_retried [OF assms(1,2,3,5,6,7,8,4)] by blast

theorem creation_is_idempotent_witness:
  "\<exists>p w. uploadHistory False (exOpen 5, [], {uuidNo 7}, []) (w, [], {uuidNo 7}, []) \<and> u_parts w = [p] \<and>
     (\<forall>out x. createSession ((exInput 5)\<lparr> ci_id := uuidNo 11, ci_now := 2500 \<rparr>) exCaps w = (Inr out, x) \<longrightarrow>
       out = SessionReplay (newSession (exInput 5)) \<and> u_parts x = [p])"
proof -
  let ?again = "(exInput 5)\<lparr> ci_id := uuidNo 11, ci_now := 2500 \<rparr>"
  from reserve_run obtain p w where r: "reservePart (uuidNo 7) 0 5 (js ''k'') exCaps 2000 60 (exOpen 5) = (Inr (PartReserved p), w)"
    and w: "u_sessions w = [newSession (exInput 5)]" "u_parts w = [p]" by blast
  have "serveUpload (ReservePart (uuidNo 7) 0 5 (js ''k'') exCaps 2000 60) (exOpen 5) = (Inr (), w)"
    by (simp add: silently_def bind_def ret_def r)
  from uploadHistory.step [OF uploadHistory.start uploadStep.request [OF _ this]]
  have h: "uploadHistory False (exOpen 5, [], {uuidNo 7}, []) (w, [], {uuidNo 7}, [])" by simp
  have "keysUnique exUploads" "sameCreation (exInput 5) ?again" "ss_id ` set (u_sessions (exOpen 5)) \<subseteq> {uuidNo 7}"
    by (simp_all add: keysUnique_def sameCreation_def exUploads_def exOpen_def exInput_def newSession_def)
  from creation_is_idempotent [OF create_run exUploads_ok this h, of "newSession (exInput 5)" exCaps] w
  have "\<forall>out x. createSession ?again exCaps w = (Inr out, x) \<longrightarrow> out = SessionReplay (newSession (exInput 5)) \<and> u_parts x = [p]" by simp
  with h w(2) show ?thesis by blast
qed

text \<open>
  C16: a worker that claims a session gets all its parts in order. Until the claim is given up (its
  holder completes, fails or releases the session, or the recovery of stale leases runs when the lease is
  over) it stands through every history of other requests and of pruning: any worker that tries to claim
  the session finds it busy, and a worker with another token can neither complete nor fail nor release it.
\<close>

theorem one_worker_finalises:
  assumes "claimFinalize ns i ms now claimNow token u = (Inr (Claimed tok s parts), v)" and "uploadsOk u"
    and "ss_id ` set (u_sessions u) \<subseteq> known" and "claimHistory ns i token sqlite (v, [], known, []) (w, pending, known', dropped)"
  shows "map up_partIndex parts = map int [0..<nat (ss_partCount s)] \<and>
    (\<exists>r\<in>set (u_sessions w). ss_id r = i \<and> ss_state r = FINALIZING \<and> ss_leaseToken r = Some token) \<and>
    (\<forall>ms' now' claimNow' token' r x. claimFinalize ns i ms' now' claimNow' token' w = (Inr r, x) \<longrightarrow> r = ClaimBusy) \<and>
    (\<forall>other st body rid t. other \<noteq> token \<longrightarrow>
       completeFinalize ns i other st body rid t w = (Inl (InternalError ''Upload finalize claim lost''), w)) \<and>
    (\<forall>other body rid t b x. other \<noteq> token \<longrightarrow> failFinalize ns i other body rid t w = (Inr b, x) \<longrightarrow> \<not> b) \<and>
    (\<forall>other code failedAt t. other \<noteq> token \<longrightarrow> releaseFinalize ns i other code failedAt t w = (Inr False, w))"
proof -
  note on = claim_exclusive [OF assms]
  have "map up_partIndex parts = map int [0..<nat (ss_partCount s)]"
    using partsComplete_indexes claimFinalize_claimed [OF assms(1,2)] by blast
  moreover have "\<exists>r\<in>set (u_sessions w). ss_id r = i \<and> ss_state r = FINALIZING \<and> ss_leaseToken r = Some token"
    using on(1) by (auto simp: claimOn_def holdsClaim_def)
  ultimately show ?thesis using claimOn_busy [OF on] claimOn_excludes [OF on] by blast
qed

theorem one_worker_finalises_witness:
  "\<exists>u s parts v w. claimFinalize exNs (uuidNo 7) 100 3000 3000 (uuidNo 9) u = (Inr (Claimed (uuidNo 9) s parts), v) \<and>
     map up_partIndex parts = [0] \<and> serveUpload (ReopenStale 3050 [uuidNo 7]) v = (Inr (), w) \<and>
     fst (completeFinalize exNs (uuidNo 7) (uuidNo 10) 201 (js ''b'') (js ''r'') 3060 w) = Inl (InternalError ''Upload finalize claim lost'')"
proof -
  from claim_run obtain p v1 e v2 s parts v where
      r: "reservePart (uuidNo 7) 0 5 (js ''k'') exCaps 2000 60 (exOpen 5) = (Inr (PartReserved p), v1)"
    and m: "commitPart (uuidNo 7) 0 (js ''d'') None (Some (js ''k'')) None 2500 v1 = (Inr e, v2)"
    and c: "claimFinalize exNs (uuidNo 7) 100 3000 3000 (uuidNo 9) v2 = (Inr (Claimed (uuidNo 9) s parts), v)"
    and ids: "ss_id ` set (u_sessions v2) \<subseteq> {uuidNo 7}" and one: "ss_partCount s = 1"
    and live: "\<not> endsClaim exNs (uuidNo 7) (uuidNo 9) v (Some (ReopenStale 3050 [uuidNo 7]))"
    by (elim exE conjE) (rule that)
  have "uploadsOk v1" using reserve_work.effect [OF r exOpen_ok] by simp
  then have ok: "uploadsOk v2" using commit_work.effect [OF m] by blast
  obtain w where w: "serveUpload (ReopenStale 3050 [uuidNo 7]) v = (Inr (), w)"
    by (simp add: silently_def bind_def ret_def reopenStale_def updateSessions_def)
  from claimHistory.step [OF claimHistory.start uploadStep.request [OF _ w]] live
  have h: "claimHistory exNs (uuidNo 7) (uuidNo 9) False (v, [], {uuidNo 7}, []) (w, [], {uuidNo 7}, [])" by simp
  have "uuidNo 10 \<noteq> uuidNo 9" by simp
  with one_worker_finalises [OF c ok ids h] one
  have "map up_partIndex parts = [0]"
    "completeFinalize exNs (uuidNo 7) (uuidNo 10) 201 (js ''b'') (js ''r'') 3060 w = (Inl (InternalError ''Upload finalize claim lost''), w)" by simp_all
  with c w show ?thesis by (metis fst_conv)
qed

text \<open>
  C20: the deletion of a staging object that left a tombstone is always applied. When the late write has
  settled at the time the caller saw before it deleted the object, exactly the tombstone's bytes are
  refunded, to the server and to its namespace and to no other, and the tombstone goes; otherwise nothing
  is refunded and the tombstone only records the deletion. Either way the counters stay exact.
\<close>

theorem refund_is_exact:
  assumes "markTombstoneDeletedDetailed key obs now u = (Inr a, v)" and "uploadsOk u"
    and "findTombstone key (u_tombstones u) = Some t"
  shows "let settled = (obs \<noteq> None \<and> sc_putSettledAt t = obs) in
    a = \<lparr> ac_applied = True, ac_refundedBytes = (if settled then sc_sizeBytes t else 0) \<rparr> \<and>
    findTombstone key (u_tombstones v) = (if settled then None else Some (t\<lparr> sc_deletedAt := Some now \<rparr>)) \<and>
    usedBytes v sc = usedBytes u sc - (if settled \<and> (sc = None \<or> sc = Some (sc_namespaceId t)) then sc_sizeBytes t else 0) \<and>
    usedBytes v sc = stagedIn v sc"
proof -
  have "usedBytes u sc = stagedIn u sc" using assms(2) by (simp add: booksOk_def)
  then show ?thesis
    using markTombstone_refund(1,2) [OF assms] markTombstone_refund(3,4) [OF assms, of sc] unfolding Let_def by (auto simp: inScope_def)
qed

theorem refund_is_exact_witness:
  "\<exists>u a v. markTombstoneDeletedDetailed (js ''k'') (Some 70000) 71000 u = (Inr a, v) \<and> ac_refundedBytes a = 5 \<and>
     usedBytes v (Some exNs) = usedBytes u (Some exNs) - 5 \<and> findTombstone (js ''k'') (u_tombstones v) = None"
proof -
  from tombstone_run obtain p v1 v2 b u t a v where
      r: "reservePart (uuidNo 7) 0 5 (js ''k'') exCaps 2000 60 (exOpen 5) = (Inr (PartReserved p), v1)"
    and e: "retireExpiredPartReservation (uuidNo 7) 0 (js ''k'') 65000 v1 = (Inr True, v2)"
    and l: "releasePartReservationAccounting (uuidNo 7) 0 True (Some (js ''k'')) 70000 v2 = (Inr b, u)"
    and t: "findTombstone (js ''k'') (u_tombstones u) = Some t" "sc_putSettledAt t = Some 70000" "sc_sizeBytes t = 5" "sc_namespaceId t = exNs"
    and m: "markTombstoneDeletedDetailed (js ''k'') (Some 70000) 71000 u = (Inr a, v)" by blast
  have "uploadsOk v1" using reserve_work.effect [OF r exOpen_ok] by simp
  then have "uploadsOk v2" using retire_work.effect [OF e] by blast
  then have "uploadsOk u" using release_work.effect [OF l] by blast
  from refund_is_exact [OF m this t(1), of "Some exNs"] t
  have "ac_refundedBytes a = 5 \<and> usedBytes v (Some exNs) = usedBytes u (Some exNs) - 5 \<and> findTombstone (js ''k'') (u_tombstones v) = None"
    by (simp add: Let_def)
  with m show ?thesis by blast
qed

text \<open>
  C21: the parts of a planned session cover the file: each is positive and not larger than the part
  size, they add up to the file, and their number fits the column that stores it.
\<close>

theorem parts_cover_file:
  assumes "planNewUploadSession z pol now = Some pl" and "0 < rp_partSizeBytes pol" and "0 < z"
    and "ss_sizeBytes s = z" and "ss_partSizeBytes s = pl_partSizeBytes pl" and "ss_partCount s = pl_partCount pl"
  shows "(\<Sum>i<nat (ss_partCount s). expectedPartSize s (int i)) = z \<and> ss_partCount s \<le> MAX_PART_COUNT \<and>
    (\<forall>i. 0 \<le> i \<and> i < ss_partCount s \<longrightarrow> 0 < expectedPartSize s i \<and> expectedPartSize s i \<le> ss_partSizeBytes s)"
proof -
  note p = planNewUploadSession_SomeD [OF assms(1)]
  have c: "ss_partCount s = (ss_sizeBytes s + ss_partSizeBytes s - 1) div ss_partSizeBytes s" "0 < ss_partSizeBytes s" "0 < ss_sizeBytes s"
    using p assms(2-6) by simp_all
  show ?thesis
    using expectedPartSize_sum [OF c(2,3,1)] expectedPartSize_bounds [OF c(2,1)] p(3) assms(4,6) by simp
qed

theorem parts_cover_file_witness:
  "expectedPartSize (newSession (exInput 25)) 2 = 5 \<and> (\<Sum>i<3. expectedPartSize (newSession (exInput 25)) (int i)) = 25"
proof -
  let ?pol = "\<lparr> rp_caps = exCaps, rp_effectiveMaxStagedBytes = 50, rp_partSizeBytes = 10, rp_inactivitySeconds = 4, rp_maxLifetimeSeconds = 8 \<rparr>"
  have "planNewUploadSession 25 ?pol 1000 = Some \<lparr> pl_partSizeBytes = 10, pl_partCount = 3, pl_expiresAt = 5000, pl_maxExpiresAt = 9000 \<rparr>"
    by (simp add: planNewUploadSession_def MAX_PART_COUNT_def)
  from parts_cover_file [OF this, of "newSession (exInput 25)"]
  have "(\<Sum>i<3. expectedPartSize (newSession (exInput 25)) (int i)) = 25" by (simp add: newSession_def exInput_def)
  then show ?thesis by (simp add: expectedPartSize_def newSession_def exInput_def)
qed

text \<open>
  C22: the status of an open session reports that all parts are stored exactly when every index of the
  session has a stored part.
\<close>

theorem stored_status_is_faithful:
  assumes "diagnoseUploadSessionStaging s parts policy now = d" and "dg_staging d = Some (limit, status)"
    and "0 \<le> ss_partCount s" and "ss_partCount s \<le> MAX_PART_COUNT"
  shows "status = PARTS_STORED \<longleftrightarrow>
    (\<forall>i. 0 \<le> i \<and> i < ss_partCount s \<longrightarrow> (\<exists>p\<in>set parts. up_partIndex p = i \<and> up_state p = STORED))"
  unfolding storedIndexes_complete [OF assms(3,4), symmetric]
  using assms(1,2) by (auto simp: diagnoseUploadSessionStaging_def Let_def split: option.splits if_splits)

theorem stored_status_is_faithful_witness:
  "\<exists>d limit status. diagnoseUploadSessionStaging (newSession (exInput 5)) []
      (Some \<lparr> rp_caps = exCaps, rp_effectiveMaxStagedBytes = 50, rp_partSizeBytes = 10, rp_inactivitySeconds = 4, rp_maxLifetimeSeconds = 8 \<rparr>) 2000 = d \<and>
     dg_staging d = Some (limit, status) \<and> status \<noteq> PARTS_STORED"
proof -
  let ?s = "newSession (exInput 5)"
  let ?pol = "Some \<lparr> rp_caps = exCaps, rp_effectiveMaxStagedBytes = 50, rp_partSizeBytes = 10, rp_inactivitySeconds = 4, rp_maxLifetimeSeconds = 8 \<rparr>"
  have n: "ss_partCount ?s = 1" by (simp add: newSession_def exInput_def)
  have "\<exists>limit status. dg_staging (diagnoseUploadSessionStaging ?s [] ?pol 2000) = Some (limit, status)"
    by (simp add: diagnoseUploadSessionStaging_def Let_def sessionExpired_def newSession_def exInput_def)
  then obtain limit status where d: "dg_staging (diagnoseUploadSessionStaging ?s [] ?pol 2000) = Some (limit, status)" by blast
  from stored_status_is_faithful [OF refl d] n have "status \<noteq> PARTS_STORED" by (auto simp: MAX_PART_COUNT_def)
  with d show ?thesis by blast
qed

section \<open>Paths\<close>

text \<open>
  C26: resolving a client's path yields segments that pass the segment rules and a canonical path
  that joins them; resolving that canonical path again yields the same result.
\<close>

theorem resolve_canonical:
  assumes "resolve nfc raw = Inr p"
  shows "goodSegments nfc (segments p) \<and> canonical p = joinSegments (segments p) \<and>
    resolve nfc (Some (canonical p)) = Inr p"
  using resolve_good [OF assms] resolve_joinSegments [of nfc "segments p"] by simp

theorem resolve_canonical_witness:
  "resolve (\<lambda>s. s) (Some (js ''/a//./b/'')) = Inr \<lparr> canonical = js ''/a/b'', segments = [js ''a'', js ''b''] \<rparr> \<and>
   resolve (\<lambda>s. s) (Some (js ''/a/b'')) = Inr \<lparr> canonical = js ''/a/b'', segments = [js ''a'', js ''b''] \<rparr>"
proof -
  have "resolve (\<lambda>s. s) (Some (js ''/a//./b/'')) =
      Inr \<lparr> canonical = js ''/a/b'', segments = [js ''a'', js ''b''] \<rparr>"
    by (simp add: resolve_def Let_def js_def js_starts_with_def assertPathSegments_def badSegment_def
        invalidSegment_def byteLength_def utf8_size_def slash_def joinSegments_def
        control_char_def bidi_control_def lone_surrogate_def hi_surrogate_def lo_surrogate_def)
  from this resolve_canonical [OF this] show ?thesis unfolding resolved_path.select_convs by blast
qed

section \<open>Revision tokens\<close>

text \<open>
  C27: a revision token decodes to the node id (in lower case) and the version it was made from, so
  two nodes or two versions never share a token.
\<close>

theorem revision_round_trip:
  assumes "encodeRevision i v = Inr t"
  shows "decodeRevision t = Inr (map lower_ascii i, v)"
  using assms by (rule decode_encodeRevision)

theorem revision_round_trip_witness:
  "decodeRevision (tokenNo 1 2) = Inr (map lower_ascii (uuidNo 1), 2)"
  by (rule revision_round_trip) simp

section \<open>Byte ranges\<close>

text \<open>
  C29: a range the server accepts lies inside the file.
\<close>

theorem range_inside_file:
  assumes "0 \<le> fileSize" and "parseRange header fileSize = Inr r"
  shows "0 \<le> start r \<and> start r \<le> endp r \<and> endp r < fileSize"
  using parseRange_wf [OF assms] by (simp add: wf_range_def)

theorem range_inside_file_witness:
  "parseRange (js ''bytes=2-'') 10 = Inr \<lparr> start = 2, endp = 9 \<rparr> \<and> (2 :: int) \<le> 9"
proof -
  have "parseRange (js ''bytes=2-'') 10 = Inr \<lparr> start = 2, endp = 9 \<rparr>" by code_simp
  from this range_inside_file [OF _ this] show ?thesis by simp
qed

text \<open>
  C28: a header \<open>bytes=a-b\<close> of decimal numbers is honoured exactly: the range starts at \<open>a\<close> and ends at
  \<open>b\<close> or at the last byte, and it is refused as not satisfiable when it is backwards or starts at or
  after the end of the file.
\<close>

theorem range_is_exact:
  assumes "\<forall>d\<in>set a. is_digit d" and "\<forall>d\<in>set b. is_digit d" and "a \<noteq> []" and "b \<noteq> []"
    and "0 < fileSize" and "fileSize \<le> MAX_SAFE_INTEGER"
  shows "parseRange (rangeHeader a b) fileSize =
    (if dec_value a \<le> dec_value b \<and> int (dec_value a) < fileSize
     then Inr \<lparr> start = int (dec_value a), endp = min (int (dec_value b)) (fileSize - 1) \<rparr>
     else Inl (Node (VfsRangeNotSatisfiableError (rangeHeader a b) fileSize)))"
  using assms by (rule parseRange_header)

theorem range_is_exact_witness:
  "parseRange (rangeHeader (js ''2'') (js ''99'')) 10 = Inr \<lparr> start = 2, endp = 9 \<rparr>"
  using range_is_exact [of "js ''2''" "js ''99''" 10]
  by (simp add: js_def is_digit_def dec_value_def MAX_SAFE_INTEGER_def)

section \<open>Order of locks\<close>

text \<open>
  C30: paths are locked in a total order (reflexive, antisymmetric, transitive, total), in which a
  directory comes before everything below it, the order in which a move or copy locks its two parents.
\<close>

theorem lock_order_is_total:
  "(compareSegments a b = 0 \<longleftrightarrow> a = b) \<and> (compareSegments a b \<le> 0 \<or> compareSegments b a \<le> 0) \<and>
   (compareSegments a b \<le> 0 \<and> compareSegments b a \<le> 0 \<longrightarrow> a = b) \<and>
   (compareSegments a b \<le> 0 \<and> compareSegments b c \<le> 0 \<longrightarrow> compareSegments a c \<le> 0) \<and>
   compareSegments p (p @ q) \<le> 0"
  using compareSegments_zero [of a b] segs.cmp_total [of a b] compareSegments_anti [of a b] compareSegments_anti [of b a]
    compareSegments_trans [of a b c] compareSegments_prefix [of p q] by auto

theorem lock_order_is_total_witness:
  "compareSegments [js ''a''] [js ''a'', js ''b''] \<le> 0 \<and> compareSegments [js ''a'', js ''b''] [js ''b''] \<le> 0 \<and>
   compareSegments [js ''a''] [js ''b''] \<le> 0"
proof -
  have "compareSegments [js ''a''] [js ''a'', js ''b''] \<le> 0" "compareSegments [js ''a'', js ''b''] [js ''b''] \<le> 0"
    by (simp_all add: js_def)
  with lock_order_is_total [of "[js ''a'']" "[js ''a'', js ''b'']" "[js ''b'']"] show ?thesis by blast
qed

section \<open>Configuration\<close>

text \<open>
  C39: every configuration of the total byte limits the server accepts has a positive default no
  larger than its ceiling, and a ceiling a 64-bit column can hold.
\<close>

theorem byte_limits_are_sane:
  assumes "resolveGlobalTotalLogicalByteLimits d c = Inr l"
  shows "0 < defaultValue l \<and> defaultValue l \<le> ceilingValue l \<and> ceilingValue l \<le> MAX_INT64"
  using assms by (rule resolveGlobalTotalLogicalByteLimits_ok)

theorem byte_limits_are_sane_witness:
  "resolveGlobalTotalLogicalByteLimits (Some (js ''10'')) (Some (js ''20'')) = Inr \<lparr> defaultValue = 10, ceilingValue = 20 \<rparr> \<and>
   (0 :: int) < 10 \<and> (20 :: int) \<le> MAX_INT64"
proof -
  have "resolveGlobalTotalLogicalByteLimits (Some (js ''10'')) (Some (js ''20'')) = Inr \<lparr> defaultValue = 10, ceilingValue = 20 \<rparr>"
    by code_simp
  from this byte_limits_are_sane [OF this] show ?thesis by simp
qed

end
